(* ===== verification/Go_Strings.thy ===== *)
theory Go_Strings
  imports Prelude
begin

text \<open>
  White space and letter case as the Go standard library sees them on UTF-8 byte strings,
  the printing of the %-verbs, and the byte tests the validators share.  A Go string is the
  list of its bytes.
\<close>

section \<open>White space\<close>

text \<open>
  \<open>space_width\<close> is the number of bytes of the white-space rune a string starts with, 0 if
  it starts with none: the ASCII blanks, U+0085, U+00A0, U+1680, U+2000 to U+200A, U+2028,
  U+2029, U+202F, U+205F and U+3000, which are the runes of \<open>unicode.IsSpace\<close>.
\<close>

definition is_ascii_space :: "char \<Rightarrow> bool" where
  "is_ascii_space c \<longleftrightarrow> (9 \<le> byte_of c \<and> byte_of c \<le> 13) \<or> byte_of c = 32"

definition is_space2 :: "nat \<Rightarrow> nat \<Rightarrow> bool" where
  "is_space2 a b \<longleftrightarrow> a = 194 \<and> (b = 133 \<or> b = 160)"

definition is_space3 :: "nat \<Rightarrow> nat \<Rightarrow> nat \<Rightarrow> bool" where
  "is_space3 a b c \<longleftrightarrow>
     (a = 225 \<and> b = 154 \<and> c = 128)
   \<or> (a = 226 \<and> b = 128 \<and> ((128 \<le> c \<and> c \<le> 138) \<or> c = 168 \<or> c = 169 \<or> c = 175))
   \<or> (a = 226 \<and> b = 129 \<and> c = 159)
   \<or> (a = 227 \<and> b = 128 \<and> c = 128)"

fun space_width :: "string \<Rightarrow> nat" where
  "space_width [] = 0"
| "space_width (a # s) =
     (if is_ascii_space a then 1
      else case s of
        [] \<Rightarrow> 0
      | b # t \<Rightarrow> (if is_space2 (byte_of a) (byte_of b) then 2
                else case t of [] \<Rightarrow> 0
                | c # _ \<Rightarrow> (if is_space3 (byte_of a) (byte_of b) (byte_of c) then 3 else 0)))"

text \<open>The same test on the reversed string: the rune the string ends with.\<close>

fun space_width_rev :: "string \<Rightarrow> nat" where
  "space_width_rev [] = 0"
| "space_width_rev (a # s) =
     (if is_ascii_space a then 1
      else case s of
        [] \<Rightarrow> 0
      | b # t \<Rightarrow> (if is_space2 (byte_of b) (byte_of a) then 2
                else case t of [] \<Rightarrow> 0
                | c # _ \<Rightarrow> (if is_space3 (byte_of c) (byte_of b) (byte_of a) then 3 else 0)))"

function trim_front :: "(string \<Rightarrow> nat) \<Rightarrow> string \<Rightarrow> string" where
  "trim_front w s = (if w s = 0 \<or> s = [] then s else trim_front w (drop (w s) s))"
  by pat_completeness auto
termination
  by (relation "measure (\<lambda>(w, s). length s)") auto

declare trim_front.simps [simp del]

definition trim_left :: "string \<Rightarrow> string" where
  "trim_left s = trim_front space_width s"

definition trim_right :: "string \<Rightarrow> string" where
  "trim_right s = rev (trim_front space_width_rev (rev s))"

definition trim_space :: "string \<Rightarrow> string" where
  "trim_space s = trim_right (trim_left s)"

lemma trim_front_Nil [simp]: "trim_front w [] = []"
  by (subst trim_front.simps) simp

lemma trim_front_stop: "w s = 0 \<Longrightarrow> trim_front w s = s"
  by (subst trim_front.simps) simp

lemma trim_front_step: "w s \<noteq> 0 \<Longrightarrow> trim_front w s = trim_front w (drop (w s) s)"
  by (cases "s = []") (simp, subst trim_front.simps, simp)

lemma trim_front_done: "trim_front w s = [] \<or> w (trim_front w s) = 0"
proof (induction w s rule: trim_front.induct)
  case (1 w s)
  show ?case
  proof (cases "w s = 0 \<or> s = []")
    case True
    then show ?thesis by (auto simp: trim_front_stop)
  next
    case False
    with 1 show ?thesis by (simp add: trim_front_step)
  qed
qed

lemma trim_front_suffix: "\<exists>p. s = p @ trim_front w s"
proof (induction w s rule: trim_front.induct)
  case (1 w s)
  show ?case
  proof (cases "w s = 0 \<or> s = []")
    case True
    then show ?thesis by (auto simp: trim_front_stop)
  next
    case False
    with 1 obtain p where "drop (w s) s = p @ trim_front w (drop (w s) s)" by auto
    then have "s = (take (w s) s @ p) @ trim_front w s"
      using False by (metis append.assoc append_take_drop_id trim_front_step)
    then show ?thesis by blast
  qed
qed

lemma trim_front_idem: "trim_front w (trim_front w s) = trim_front w s"
  using trim_front_done [of w s] by (auto simp: trim_front_stop)

lemma trim_space_infix: "\<exists>p q. s = p @ trim_space s @ q"
proof -
  obtain p where p: "s = p @ trim_left s"
    using trim_front_suffix [of s space_width] by (auto simp: trim_left_def)
  obtain q where "rev (trim_left s) = q @ trim_front space_width_rev (rev (trim_left s))"
    using trim_front_suffix by blast
  then have "trim_left s = trim_space s @ rev q"
    by (metis rev_append rev_rev_ident trim_right_def trim_space_def)
  with p show ?thesis by metis
qed

lemma space_width_append: "space_width u \<noteq> 0 \<Longrightarrow> space_width (u @ v) \<noteq> 0"
  by (induction u rule: space_width.induct) (auto split: list.splits if_splits)

lemma trim_space_idem [simp]: "trim_space (trim_space s) = trim_space s"
proof -
  let ?t = "trim_left s"
  obtain q where q: "?t = trim_right ?t @ q"
  proof -
    obtain p where "rev ?t = p @ trim_front space_width_rev (rev ?t)" using trim_front_suffix by blast
    then have "?t = trim_right ?t @ rev p" by (metis rev_append rev_rev_ident trim_right_def)
    then show ?thesis by (rule that)
  qed
  have "?t = [] \<or> space_width ?t = 0" using trim_front_done [of space_width s] by (simp add: trim_left_def)
  then have "space_width (trim_right ?t) = 0 \<or> trim_right ?t = []"
    using space_width_append [of "trim_right ?t" q] q by fastforce
  then have "trim_left (trim_right ?t) = trim_right ?t"
    by (auto simp: trim_left_def trim_front_stop)
  moreover have "trim_right (trim_right ?t) = trim_right ?t" by (simp add: trim_right_def trim_front_idem)
  ultimately show ?thesis by (simp add: trim_space_def)
qed

lemma trim_space_Nil [simp]: "trim_space [] = []"
  by (simp add: trim_space_def trim_left_def trim_right_def)

lemma set_trim_space: "set (trim_space s) \<subseteq> set s"
  using trim_space_infix [of s] by (metis Un_upper1 Un_upper2 set_append subset_trans)

text \<open>A string of printable ASCII without blanks is unchanged.\<close>

definition is_graphic :: "char \<Rightarrow> bool" where
  "is_graphic c \<longleftrightarrow> 33 \<le> byte_of c \<and> byte_of c \<le> 126"

lemma space_width_graphic: "s = [] \<or> is_graphic (hd s) \<Longrightarrow> space_width s = 0"
  by (cases s) (auto simp: is_graphic_def is_ascii_space_def is_space2_def is_space3_def
      split: list.splits)

lemma space_width_rev_graphic: "s = [] \<or> is_graphic (hd s) \<Longrightarrow> space_width_rev s = 0"
  by (cases s) (auto simp: is_graphic_def is_ascii_space_def is_space2_def is_space3_def
      split: list.splits)

lemma trim_space_graphic:
  assumes "s = [] \<or> is_graphic (hd s) \<and> is_graphic (last s)"
  shows "trim_space s = s"
proof -
  have "trim_left s = s"
    unfolding trim_left_def using assms by (intro trim_front_stop space_width_graphic) auto
  moreover have "trim_front space_width_rev (rev s) = rev s"
    using assms by (intro trim_front_stop space_width_rev_graphic) (auto simp: hd_rev)
  ultimately show ?thesis by (simp add: trim_space_def trim_right_def)
qed

lemma trim_space_graphic_all: "list_all is_graphic s \<Longrightarrow> trim_space s = s"
  by (rule trim_space_graphic) (auto simp: list_all_iff)

text \<open>A graphic character is never trimmed.\<close>

lemma trim_front_keeps:
  "(\<And>t. c \<notin> set (take (w t) t)) \<Longrightarrow> c \<in> set s \<Longrightarrow> c \<in> set (trim_front w s)"
proof (induction w s rule: trim_front.induct)
  case (1 w s)
  show ?case
  proof (cases "w s = 0 \<or> s = []")
    case True
    then show ?thesis using 1(3) by (auto simp: trim_front_stop)
  next
    case False
    have "c \<in> set (drop (w s) s)"
      using 1(2) [of s] 1(3) by (metis Un_iff append_take_drop_id set_append)
    then show ?thesis using 1(1) [OF False 1(2)] False by (simp add: trim_front_step)
  qed
qed

lemma not_graphic_space:
  "is_ascii_space a \<Longrightarrow> \<not> is_graphic a"
  "is_space2 (byte_of a) (byte_of b) \<Longrightarrow> \<not> is_graphic a \<and> \<not> is_graphic b"
  "is_space3 (byte_of a) (byte_of b) (byte_of d) \<Longrightarrow> \<not> is_graphic a \<and> \<not> is_graphic b \<and> \<not> is_graphic d"
  unfolding is_graphic_def is_ascii_space_def is_space2_def is_space3_def by linarith+

lemma space_width_not_graphic: "is_graphic c \<Longrightarrow> c \<notin> set (take (space_width t) t)"
  by (cases t rule: space_width.cases)
    (auto simp: numeral_2_eq_2 numeral_3_eq_3 dest: not_graphic_space split: list.splits if_splits)

lemma space_width_rev_not_graphic: "is_graphic c \<Longrightarrow> c \<notin> set (take (space_width_rev t) t)"
  by (cases t rule: space_width_rev.cases)
    (auto simp: numeral_2_eq_2 numeral_3_eq_3 dest: not_graphic_space split: list.splits if_splits)

lemma trim_space_keeps: "is_graphic c \<Longrightarrow> c \<in> set s \<Longrightarrow> c \<in> set (trim_space s)"
  unfolding trim_space_def trim_right_def trim_left_def
  by (simp add: trim_front_keeps space_width_not_graphic space_width_rev_not_graphic)

section \<open>Letter case\<close>

text \<open>
  \<open>strings.ToLower\<close> with the runes whose lower case is an ASCII letter written out: the
  ASCII capitals, U+0130 (to \<open>i\<close>) and U+212A (to \<open>k\<close>).  Every other non-ASCII rune maps to
  a non-ASCII rune and is kept, so a comparison of the result with an ASCII string is exact.
\<close>

definition lower_char :: "char \<Rightarrow> char" where
  "lower_char c = (if 65 \<le> byte_of c \<and> byte_of c \<le> 90 then char_of (byte_of c + 32) else c)"

fun to_lower :: "string \<Rightarrow> string" where
  "to_lower (a # b # c # s) =
     (if byte_of a = 196 \<and> byte_of b = 176 then CHR ''i'' # to_lower (c # s)
      else if byte_of a = 226 \<and> byte_of b = 132 \<and> byte_of c = 170 then CHR ''k'' # to_lower s
      else lower_char a # to_lower (b # c # s))"
| "to_lower [a, b] =
     (if byte_of a = 196 \<and> byte_of b = 176 then ''i'' else [lower_char a, lower_char b])"
| "to_lower [a] = [lower_char a]"
| "to_lower [] = []"

definition is_lower_ascii :: "char \<Rightarrow> bool" where
  "is_lower_ascii c \<longleftrightarrow> byte_of c < 128 \<and> \<not> (65 \<le> byte_of c \<and> byte_of c \<le> 90)"

lemma lower_char_id: "is_lower_ascii c \<Longrightarrow> lower_char c = c"
  by (auto simp: is_lower_ascii_def lower_char_def)

lemma to_lower_id: "list_all is_lower_ascii s \<Longrightarrow> to_lower s = s"
  by (induction s rule: to_lower.induct) (auto simp: lower_char_id, auto simp: is_lower_ascii_def)

section \<open>Byte tests\<close>

definition is_control :: "char \<Rightarrow> bool" where
  "is_control c \<longleftrightarrow> byte_of c < 32 \<or> byte_of c = 127"

definition is_upper :: "char \<Rightarrow> bool" where
  "is_upper c \<longleftrightarrow> 65 \<le> byte_of c \<and> byte_of c \<le> 90"

definition is_lower :: "char \<Rightarrow> bool" where
  "is_lower c \<longleftrightarrow> 97 \<le> byte_of c \<and> byte_of c \<le> 122"

definition is_digit :: "char \<Rightarrow> bool" where
  "is_digit c \<longleftrightarrow> 48 \<le> byte_of c \<and> byte_of c \<le> 57"

definition is_alnum :: "char \<Rightarrow> bool" where
  "is_alnum c \<longleftrightarrow> is_upper c \<or> is_lower c \<or> is_digit c"

section \<open>UTF-8\<close>

text \<open>
  \<open>rune_width s\<close> is the length of the valid encoding \<open>s\<close> starts with, 0 if it starts with
  none (\<open>utf8.DecodeRune\<close> then yields U+FFFD and consumes one byte).
\<close>

definition is_cont :: "char \<Rightarrow> bool" where
  "is_cont c \<longleftrightarrow> 128 \<le> byte_of c \<and> byte_of c < 192"

definition second_ok :: "nat \<Rightarrow> nat \<Rightarrow> bool" where
  "second_ok a b \<longleftrightarrow>
     (if a = 224 then 160 \<le> b \<and> b < 192
      else if a = 237 then 128 \<le> b \<and> b < 160
      else if a = 240 then 144 \<le> b \<and> b < 192
      else if a = 244 then 128 \<le> b \<and> b < 144
      else 128 \<le> b \<and> b < 192)"

fun rune_width :: "string \<Rightarrow> nat" where
  "rune_width [] = 0"
| "rune_width (a # s) =
     (let n = byte_of a in
      if n < 128 then 1
      else if 194 \<le> n \<and> n < 224 then
        (case s of b # _ \<Rightarrow> if is_cont b then 2 else 0 | _ \<Rightarrow> 0)
      else if 224 \<le> n \<and> n < 240 then
        (case s of b # c # _ \<Rightarrow> if second_ok n (byte_of b) \<and> is_cont c then 3 else 0 | _ \<Rightarrow> 0)
      else if 240 \<le> n \<and> n < 245 then
        (case s of b # c # d # _ \<Rightarrow>
           if second_ok n (byte_of b) \<and> is_cont c \<and> is_cont d then 4 else 0 | _ \<Rightarrow> 0)
      else 0)"

function valid_utf8 :: "string \<Rightarrow> bool" where
  "valid_utf8 s =
     (if s = [] then True
      else if rune_width s = 0 then False
      else valid_utf8 (drop (rune_width s) s))"
  by pat_completeness auto
termination
  by (relation "measure length") auto

function rune_count :: "string \<Rightarrow> nat" where
  "rune_count s = (if s = [] then 0 else Suc (rune_count (drop (max 1 (rune_width s)) s)))"
  by pat_completeness auto
termination
  by (relation "measure length") auto

declare valid_utf8.simps [simp del] rune_count.simps [simp del]

lemma valid_utf8_ascii: "list_all (\<lambda>c. byte_of c < 128) s \<Longrightarrow> valid_utf8 s"
proof (induction s)
  case (Cons a s)
  then show ?case by (subst valid_utf8.simps) (simp add: Let_def)
qed (subst valid_utf8.simps, simp)

lemma rune_count_le: "rune_count s \<le> length s"
proof (induction s rule: rune_count.induct)
  case (1 s)
  show ?case
  proof (cases "s = []")
    case False
    with 1 have "rune_count (drop (max 1 (rune_width s)) s) \<le> length s - max 1 (rune_width s)"
      by simp
    with False show ?thesis by (subst rune_count.simps) (cases s, auto)
  qed (subst rune_count.simps, simp)
qed

section \<open>Strings through JSON\<close>

text \<open>What a string is after \<open>json.Marshal\<close> and \<open>json.Unmarshal\<close>: bytes that start no valid
  encoding become the three bytes of U+FFFD.\<close>

function json_string :: "string \<Rightarrow> string" where
  "json_string s =
     (if s = [] then []
      else if rune_width s = 0 then [CHR 0xEF, CHR 0xBF, CHR 0xBD] @ json_string (drop 1 s)
      else take (rune_width s) s @ json_string (drop (rune_width s) s))"
  by pat_completeness auto
termination
  by (relation "measure length") auto

declare json_string.simps [simp del]

lemma json_string_valid: "valid_utf8 s \<Longrightarrow> json_string s = s"
proof (induction s rule: json_string.induct)
  case (1 s)
  show ?case
  proof (cases "s = []")
    case False
    then have "rune_width s \<noteq> 0" "valid_utf8 (drop (rune_width s) s)"
      using 1(3) by (auto simp: valid_utf8.simps [of s] split: if_splits)
    then show ?thesis
      using 1(2) False by (subst json_string.simps) auto
  qed (subst json_string.simps, simp)
qed

lemma json_string_plain: "list_all (\<lambda>c. byte_of c < 128) s \<Longrightarrow> json_string s = s"
  by (simp add: json_string_valid valid_utf8_ascii)

lemma rune_width_append: "rune_width a \<noteq> 0 \<Longrightarrow> rune_width (a @ b) = rune_width a"
  by (cases a) (auto simp: Let_def split: list.splits if_splits)

lemma rune_width_le: "rune_width s \<le> length s"
  by (cases s) (auto simp: Let_def split: list.splits)

lemma valid_utf8_append: "valid_utf8 a \<Longrightarrow> valid_utf8 (a @ b) \<longleftrightarrow> valid_utf8 b"
proof (induction a rule: valid_utf8.induct)
  case (1 a)
  show ?case
  proof (cases "a = []")
    case False
    then have w: "rune_width a \<noteq> 0" "valid_utf8 (drop (rune_width a) a)"
      using "1.prems" by (auto simp: valid_utf8.simps [of a] split: if_splits)
    have "valid_utf8 (a @ b) \<longleftrightarrow> valid_utf8 (drop (rune_width a) a @ b)"
      using w False rune_width_le [of a]
      by (subst valid_utf8.simps) (simp add: rune_width_append)
    then show ?thesis using "1.IH" False w by simp
  qed simp
qed

section \<open>Fields\<close>

text \<open>\<open>strings.FieldsFunc\<close> with a test on bytes.\<close>

fun fields_func :: "(char \<Rightarrow> bool) \<Rightarrow> string \<Rightarrow> string \<Rightarrow> string list" where
  "fields_func sep acc [] = (if acc = [] then [] else [rev acc])"
| "fields_func sep acc (c # s) =
     (if sep c then (if acc = [] then [] else [rev acc]) @ fields_func sep [] s else fields_func sep (c # acc) s)"

text \<open>\<open>strings.Fields\<close>: the maximal runs of runes that are not white space.\<close>

function str_fields :: "string \<Rightarrow> string \<Rightarrow> string list" where
  "str_fields acc s =
     (case s of [] \<Rightarrow> (if acc = [] then [] else [rev acc])
      | c # t \<Rightarrow>
        if space_width s > 0 then (if acc = [] then [] else [rev acc]) @ str_fields [] (drop (space_width s) s)
        else str_fields (c # acc) t)"
  by pat_completeness auto
termination
  by (relation "measure (\<lambda>(acc, s). length s)") auto

declare str_fields.simps [simp del]

section \<open>Integers in decimal\<close>

text \<open>\<open>strconv.Atoi\<close> and \<open>strconv.ParseInt(s, 10, 64)\<close>; None on a syntax or range error.\<close>

definition decimal_value :: "string \<Rightarrow> int" where
  "decimal_value ds = foldl (\<lambda>n c. n * 10 + (int (byte_of c) - 48)) 0 ds"

definition parse_digits :: "bool \<Rightarrow> string \<Rightarrow> int option" where
  "parse_digits neg ds =
     (if ds = [] \<or> \<not> list_all is_digit ds then None
      else let v = (if neg then - decimal_value ds else decimal_value ds) in
        if in_int64 v then Some v else None)"

fun parse_int :: "string \<Rightarrow> int option" where
  "parse_int [] = None"
| "parse_int (c # s) =
     (if c = CHR ''-'' then parse_digits True s
      else if c = CHR ''+'' then parse_digits False s
      else parse_digits False (c # s))"

lemma parse_int_range: "parse_int s = Some v \<Longrightarrow> in_int64 v"
  by (cases s) (auto simp: parse_digits_def Let_def split: if_splits)

text \<open>The decimal digits of an integer, as \<open>%d\<close> prints it.\<close>

fun nat_digits :: "nat \<Rightarrow> string" where
  "nat_digits n = (if n < 10 then [char_of (48 + n)] else nat_digits (n div 10) @ [char_of (48 + n mod 10)])"

declare nat_digits.simps [simp del]

definition int_digits :: "int \<Rightarrow> string" where
  "int_digits n = (if n < 0 then CHR ''-'' # nat_digits (nat (- n)) else nat_digits (nat n))"

lemma nat_digits_digits: "list_all is_digit (nat_digits n) \<and> nat_digits n \<noteq> []"
proof (induction n rule: nat_digits.induct)
  case (1 n)
  have d: "is_digit (char_of (48 + n mod 10))" "n < 10 \<Longrightarrow> is_digit (char_of (48 + n))"
    by (simp_all add: is_digit_def byte_of_def of_char_of)
  show ?case
  proof (cases "n < 10")
    case True
    then show ?thesis using d(2) by (subst (1 2) nat_digits.simps) simp
  next
    case False
    then show ?thesis using 1 d(1) by (subst (1 2) nat_digits.simps) simp
  qed
qed

lemma decimal_value_snoc: "decimal_value (ds @ [c]) = decimal_value ds * 10 + (int (byte_of c) - 48)"
  by (simp add: decimal_value_def)

lemma decimal_value_nat_digits: "decimal_value (nat_digits n) = int n"
proof (induction n rule: nat_digits.induct)
  case (1 n)
  show ?case
  proof (cases "n < 10")
    case True
    then show ?thesis by (subst nat_digits.simps) (simp add: decimal_value_def byte_of_def of_char_of)
  next
    case False
    have "int (byte_of (char_of (48 + n mod 10))) - 48 = int (n mod 10)"
      by (simp add: byte_of_def of_char_of)
    moreover have "int (n div 10) * 10 + int (n mod 10) = int n"
      by (metis div_mult_mod_eq of_nat_add of_nat_mult of_nat_numeral)
    ultimately show ?thesis
      using False 1 by (subst nat_digits.simps) (simp add: decimal_value_snoc)
  qed
qed

lemma parse_int_digits: "in_int64 n \<Longrightarrow> parse_int (int_digits n) = Some n"
proof -
  assume n: "in_int64 n"
  have nz: "nat_digits m \<noteq> []" "list_all is_digit (nat_digits m)" for m
    using nat_digits_digits by auto
  have dig: "c \<noteq> CHR ''-'' \<and> c \<noteq> CHR ''+''" if "is_digit c" for c
    using that by (auto simp: is_digit_def byte_of_def)
  show ?thesis
  proof (cases "n < 0")
    case True
    then show ?thesis
      using n nz [of "nat (- n)"] by (simp add: int_digits_def parse_digits_def decimal_value_nat_digits)
  next
    case False
    obtain c s where cs: "nat_digits (nat n) = c # s" using nz(1) by (cases "nat_digits (nat n)") auto
    then have "parse_int (int_digits n) = parse_digits False (nat_digits (nat n))"
      using False nz(2) [of "nat n"] dig [of c] by (simp add: int_digits_def)
    then show ?thesis
      using n nz [of "nat n"] False by (simp add: parse_digits_def decimal_value_nat_digits)
  qed
qed

lemma int_digits_chars: "c \<in> set (int_digits n) \<Longrightarrow> is_digit c \<or> c = CHR ''-''"
  using nat_digits_digits by (auto simp: int_digits_def list_all_iff split: if_splits)

lemma int_digits_not_Nil [simp]: "int_digits n \<noteq> []"
  using nat_digits_digits by (auto simp: int_digits_def)

end
