(* ===== verification/Go_Errors.thy ===== *)
theory Go_Errors
  imports Go_Strings
begin

text \<open>
  Errors as values: \<open>internal/apperr/apperr.go\<close>, \<open>internal/api/error.go\<close> and the
  classifications other packages make of them (\<open>mapWebDAVError\<close>, \<open>fuseErrno\<close>, the
  fallback tests of the upload and mount code).  An error is a tree: an \<open>AppErr\<close> or
  \<open>ApiErr\<close> with its optional cause, a wrapped error, a sentinel or a bare message;
  \<open>errors.Is\<close> and \<open>errors.As\<close> walk the chain of causes.
\<close>

section \<open>Message texts\<close>

text \<open>
  A message is a literal or a format with its arguments, so that it can be stated without
  fixing how \<open>%q\<close> quotes; \<open>render q\<close> prints it with the quoting function \<open>q\<close>.
\<close>

datatype gotext = Lit string | Fmt string "gotext list"

fun render_fmt :: "(string \<Rightarrow> string) \<Rightarrow> string \<Rightarrow> string list \<Rightarrow> string" where
  "render_fmt q (p # v # s) (a # as) =
     (if p = CHR ''%'' then (if v = CHR ''q'' then q a else a) @ render_fmt q s as
      else p # render_fmt q (v # s) (a # as))"
| "render_fmt q s as = s"

fun render :: "(string \<Rightarrow> string) \<Rightarrow> gotext \<Rightarrow> string" where
  "render q (Lit s) = s"
| "render q (Fmt f as) = render_fmt q f (map (render q) as)"

definition text_empty :: "gotext \<Rightarrow> bool" where
  "text_empty t \<longleftrightarrow> render (\<lambda>s. CHR 0x22 # s) t = []"

section \<open>The error tree\<close>

datatype sentinel =
    Err_Not_Exist | Err_Permission | Err_Exist | Err_Invalid
  | Err_Write_Conflict | Err_V2_Not_Available | Err_Presign_Expired
  | Ctx_Canceled | Ctx_Deadline | Err_Eof | Err_Body_Too_Large

datatype go_error =
    AppErr (err_code: string) (err_category: string) (err_exit: int) (err_message: gotext)
           (err_cause: "go_error option") (err_silent: bool)
  | ApiErr string string int (err_status: int) gotext (err_body: string) "go_error option"
  | PathErr string string go_error
  | Wrapf gotext go_error
  | Sentinel sentinel
  | Msg gotext

definition app_new :: "string \<Rightarrow> string \<Rightarrow> int \<Rightarrow> gotext \<Rightarrow> go_error" where
  "app_new c cat e m = AppErr c cat e m None False"

definition app_wrap :: "string \<Rightarrow> string \<Rightarrow> int \<Rightarrow> gotext \<Rightarrow> go_error \<Rightarrow> go_error" where
  "app_wrap c cat e m cause = AppErr c cat e m (Some cause) False"

definition silent_exit :: "string \<Rightarrow> int \<Rightarrow> go_error" where
  "silent_exit c e = AppErr c ''runtime'' e (Lit []) None True"

definition not_implemented :: "string \<Rightarrow> go_error" where
  "not_implemented p = app_new ''cli.not_implemented'' ''usage'' 2 (Fmt ''%s is not implemented yet'' [Lit p])"

fun error_text :: "go_error \<Rightarrow> gotext" where
  "error_text (AppErr _ _ _ m None _) = m"
| "error_text (AppErr _ _ _ m (Some c) _) = Fmt ''%s: %v'' [m, error_text c]"
| "error_text (ApiErr _ _ _ _ m _ None) = m"
| "error_text (ApiErr _ _ _ _ m _ (Some c)) = Fmt ''%s: %v'' [m, error_text c]"
| "error_text (PathErr op p e) = Fmt ''%s %s: %v'' [Lit op, Lit p, error_text e]"
| "error_text (Wrapf m e) = m"
| "error_text (Sentinel s) = Lit (case s of
      Err_Not_Exist \<Rightarrow> ''file does not exist''
    | Err_Permission \<Rightarrow> ''permission denied''
    | Err_Exist \<Rightarrow> ''file already exists''
    | Err_Invalid \<Rightarrow> ''invalid argument''
    | Err_Write_Conflict \<Rightarrow> ''remote file changed since it was opened''
    | Err_V2_Not_Available \<Rightarrow> ''v2 upload API not available''
    | Err_Presign_Expired \<Rightarrow> ''presigned URL expired''
    | Ctx_Canceled \<Rightarrow> ''context canceled''
    | Ctx_Deadline \<Rightarrow> ''context deadline exceeded''
    | Err_Eof \<Rightarrow> ''EOF''
    | Err_Body_Too_Large \<Rightarrow> ''request body too large'')"
| "error_text (Msg m) = m"

fun unwrap_error :: "go_error \<Rightarrow> go_error option" where
  "unwrap_error (AppErr _ _ _ _ c _) = c"
| "unwrap_error (ApiErr _ _ _ _ _ _ c) = c"
| "unwrap_error (PathErr _ _ e) = Some e"
| "unwrap_error (Wrapf _ e) = Some e"
| "unwrap_error (Sentinel _) = None"
| "unwrap_error (Msg _) = None"

text \<open>The chain \<open>errors.Is\<close> and \<open>errors.As\<close> walk, outermost first.\<close>

fun error_chain :: "go_error \<Rightarrow> go_error list" where
  "error_chain (AppErr c cat e m None s) = [AppErr c cat e m None s]"
| "error_chain (AppErr c cat e m (Some i) s) = AppErr c cat e m (Some i) s # error_chain i"
| "error_chain (ApiErr c cat e st m b None) = [ApiErr c cat e st m b None]"
| "error_chain (ApiErr c cat e st m b (Some i)) = ApiErr c cat e st m b (Some i) # error_chain i"
| "error_chain (PathErr op p i) = PathErr op p i # error_chain i"
| "error_chain (Wrapf m i) = Wrapf m i # error_chain i"
| "error_chain (Sentinel s) = [Sentinel s]"
| "error_chain (Msg m) = [Msg m]"

lemma error_chain_unwrap:
  "error_chain e = e # (case unwrap_error e of None \<Rightarrow> [] | Some i \<Rightarrow> error_chain i)"
  by (cases e rule: error_chain.cases) auto

definition errors_is :: "go_error \<Rightarrow> sentinel \<Rightarrow> bool" where
  "errors_is e s \<longleftrightarrow> Sentinel s \<in> set (error_chain e)"

fun is_app_err :: "go_error \<Rightarrow> bool" where
  "is_app_err (AppErr _ _ _ _ _ _) = True"
| "is_app_err _ = False"

fun is_api_err :: "go_error \<Rightarrow> bool" where
  "is_api_err (ApiErr _ _ _ _ _ _ _) = True"
| "is_api_err _ = False"

definition as_app :: "go_error \<Rightarrow> go_error option" where
  "as_app e = find is_app_err (error_chain e)"

definition as_api :: "go_error \<Rightarrow> go_error option" where
  "as_api e = find is_api_err (error_chain e)"

text \<open>\<open>AppError\<close> of an API error, the conversion \<open>errors.As\<close> finds through the interface.\<close>

fun api_app_error :: "go_error \<Rightarrow> go_error option" where
  "api_app_error (ApiErr c cat e _ m _ cause) = Some (AppErr c cat e m cause False)"
| "api_app_error _ = None"

definition as_converted :: "go_error \<Rightarrow> go_error option" where
  "as_converted e = (case as_api e of None \<Rightarrow> None | Some a \<Rightarrow> api_app_error a)"

definition is_silent :: "go_error option \<Rightarrow> bool" where
  "is_silent err = (case err of None \<Rightarrow> False | Some e \<Rightarrow>
     (case as_app e of None \<Rightarrow> False | Some a \<Rightarrow> err_silent a))"

definition exit_code_for :: "go_error option \<Rightarrow> int" where
  "exit_code_for err = (case err of None \<Rightarrow> 0 | Some e \<Rightarrow>
     (case as_app e of
        Some a \<Rightarrow> if err_exit a > 0 then err_exit a else
          (case as_converted e of
             Some b \<Rightarrow> if err_exit b > 0 then err_exit b else 1
           | None \<Rightarrow> 1)
      | None \<Rightarrow>
          (case as_converted e of
             Some b \<Rightarrow> if err_exit b > 0 then err_exit b else 1
           | None \<Rightarrow> 1)))"

definition code_for :: "go_error option \<Rightarrow> string" where
  "code_for err = (case err of None \<Rightarrow> [] | Some e \<Rightarrow>
     (case as_app e of Some a \<Rightarrow> err_code a
      | None \<Rightarrow> (case as_converted e of Some b \<Rightarrow> err_code b | None \<Rightarrow> [])))"

definition category_for :: "go_error option \<Rightarrow> string" where
  "category_for err = (case err of None \<Rightarrow> [] | Some e \<Rightarrow>
     (case as_app e of Some a \<Rightarrow> err_category a
      | None \<Rightarrow> (case as_converted e of Some b \<Rightarrow> err_category b | None \<Rightarrow> [])))"

definition message_for :: "go_error option \<Rightarrow> gotext" where
  "message_for err = (case err of None \<Rightarrow> Lit [] | Some e \<Rightarrow>
     (case as_app e of
        Some a \<Rightarrow> if \<not> text_empty (err_message a) then err_message a else
          (case as_converted e of
             Some b \<Rightarrow> if \<not> text_empty (err_message b) then err_message b else error_text e
           | None \<Rightarrow> error_text e)
      | None \<Rightarrow>
          (case as_converted e of
             Some b \<Rightarrow> if \<not> text_empty (err_message b) then err_message b else error_text e
           | None \<Rightarrow> error_text e)))"

text \<open>\<open>normalizeError\<close> of \<open>internal/cli/root.go\<close>: what the boundary prints and exits with.\<close>

definition normalize_error :: "(string \<Rightarrow> string) \<Rightarrow> go_error option \<Rightarrow> go_error option" where
  "normalize_error q err = (case err of None \<Rightarrow> None | Some e \<Rightarrow>
     (if as_app e \<noteq> None then Some e
      else case as_converted e of Some a \<Rightarrow> Some a
      | None \<Rightarrow>
        (if errors_is e Ctx_Canceled
         then Some (app_new ''cli.interrupted'' ''runtime'' 130 (Lit ''interrupted''))
         else let t = error_text e; msg = render q t in
           if contains_str msg ''unknown command'' then Some (app_wrap ''cli.unknown_command'' ''usage'' 2 t e)
           else if contains_str msg ''unknown flag'' then Some (app_wrap ''cli.unknown_flag'' ''usage'' 2 t e)
           else if contains_str msg ''accepts 0 arg'' then Some (app_wrap ''cli.invalid_args'' ''usage'' 2 t e)
           else Some (app_wrap ''cli.execution_failed'' ''runtime'' 1 t e))))"

section \<open>Classification by the file-system code\<close>

definition is_api_not_found :: "go_error \<Rightarrow> bool" where
  "is_api_not_found e = (case as_api e of None \<Rightarrow> False | Some a \<Rightarrow> err_status a = 404)"

definition map_webdav_error :: "go_error \<Rightarrow> go_error" where
  "map_webdav_error e =
     (if is_api_not_found e then Sentinel Err_Not_Exist
      else case as_api e of
        None \<Rightarrow> e
      | Some a \<Rightarrow>
          (if err_status a = 403 \<or> err_status a = 401 then Sentinel Err_Permission
           else if err_status a = 409 then Sentinel Err_Exist
           else e))"

fun api_code :: "go_error \<Rightarrow> string" where
  "api_code (ApiErr c _ _ _ _ _ _) = c"
| "api_code _ = []"

fun api_message :: "go_error \<Rightarrow> gotext" where
  "api_message (ApiErr _ _ _ _ m _ _) = m"
| "api_message _ = Lit []"

definition should_fallback_stat :: "go_error \<Rightarrow> bool" where
  "should_fallback_stat e = (case as_api e of None \<Rightarrow> False | Some a \<Rightarrow>
     api_code a = ''api.contract_gap'' \<or> api_code a = ''api.decode_response'' \<or> err_status a = 400)"

text \<open>The text the fallback tests search: \<open>strings.ToLower(Message + " " + Body)\<close>.\<close>

definition api_search_text :: "(string \<Rightarrow> string) \<Rightarrow> go_error \<Rightarrow> string" where
  "api_search_text q a = to_lower (render q (api_message a) @ '' '' @ err_body a)"

definition should_fallback_fuse_patch :: "(string \<Rightarrow> string) \<Rightarrow> go_error \<Rightarrow> bool" where
  "should_fallback_fuse_patch q e = (case as_api e of None \<Rightarrow> False | Some a \<Rightarrow>
     (if err_status a = 404 \<or> err_status a = 405 \<or> api_code a = ''api.contract_gap'' then True
      else if err_status a = 400 then
        contains_str (api_search_text q a) ''unknown'' \<or>
        contains_str (api_search_text q a) ''not s3'' \<or>
        contains_str (api_search_text q a) ''s3 not configured''
      else False))"

definition is_v2_not_available :: "(string \<Rightarrow> string) \<Rightarrow> go_error \<Rightarrow> bool" where
  "is_v2_not_available q e =
     (if errors_is e Err_V2_Not_Available then True
      else case as_api e of None \<Rightarrow> False | Some a \<Rightarrow>
        (if err_status a = 404 \<or> err_status a = 405 \<or> api_code a = ''api.contract_gap'' then True
         else if err_status a = 400 then
           contains_str (api_search_text q a) ''unknown upload action'' \<or>
           contains_str (api_search_text q a) ''unknown v2''
         else False))"

definition should_use_legacy_resume :: "(string \<Rightarrow> string) \<Rightarrow> go_error \<Rightarrow> bool" where
  "should_use_legacy_resume q e = (case as_api e of None \<Rightarrow> False | Some a \<Rightarrow>
     (if err_status a \<noteq> 400 then False
      else contains_str (api_search_text q a) ''missing x-dat9-part-checksums header''))"

datatype errno =
    OK | EPERM | EINVAL | EFBIG | ESTALE | ENOENT | EACCES | EEXIST | EIO | EROFS
  | EISDIR | ENOTDIR | ENOTSUP | EAGAIN

definition fuse_errno :: "go_error option \<Rightarrow> errno" where
  "fuse_errno err = (case err of None \<Rightarrow> OK | Some e0 \<Rightarrow>
     (let e = map_webdav_error e0 in
      if errors_is e Err_Write_Conflict then ESTALE
      else if errors_is e Err_Not_Exist then ENOENT
      else if errors_is e Err_Permission then EACCES
      else if errors_is e Err_Exist then EEXIST
      else if errors_is e Err_Invalid then EINVAL
      else EIO))"

section \<open>Facts\<close>

lemma exit_code_for_None [simp]: "exit_code_for None = 0"
  by (simp add: exit_code_for_def)

lemma exit_code_pos: "exit_code_for (Some e) > 0"
  by (simp add: exit_code_for_def split: option.splits)

lemma as_app_app_new [simp]: "as_app (app_new c cat e m) = Some (app_new c cat e m)"
  by (simp add: as_app_def app_new_def)

lemma as_app_app_wrap [simp]: "as_app (app_wrap c cat e m i) = Some (app_wrap c cat e m i)"
  by (simp add: as_app_def app_wrap_def)

lemma as_app_AppErr [simp]: "as_app (AppErr c cat e m i s) = Some (AppErr c cat e m i s)"
  by (cases i) (auto simp: as_app_def)

lemma code_for_app_new [simp]: "code_for (Some (app_new c cat e m)) = c"
  by (simp add: code_for_def) (simp add: app_new_def)

lemma as_app_SomeD: "as_app e = Some a \<Longrightarrow> is_app_err a \<and> a \<in> set (error_chain e)"
  by (simp add: as_app_def find_Some_iff) (metis nth_mem)

lemma as_api_SomeD: "as_api e = Some a \<Longrightarrow> is_api_err a \<and> a \<in> set (error_chain e)"
  by (simp add: as_api_def find_Some_iff) (metis nth_mem)

lemma as_converted_SomeD: "as_converted e = Some b \<Longrightarrow> \<exists>c cat x m i. b = AppErr c cat x m i False"
  by (auto simp: as_converted_def split: option.splits dest!: as_api_SomeD
      elim!: is_api_err.elims(2))

lemma fuse_errno_OK_iff: "fuse_errno err = OK \<longleftrightarrow> err = None"
  by (auto simp: fuse_errno_def Let_def split: option.splits)

lemma errors_is_Sentinel [simp]: "errors_is (Sentinel a) b \<longleftrightarrow> a = b"
  by (auto simp: errors_is_def)

lemma as_api_Sentinel [simp]: "as_api (Sentinel s) = None"
  by (simp add: as_api_def)

text \<open>
  Normalising gives an error of the structured kind, keeps the exit code of an error that
  already carries one, and is idempotent.
\<close>

lemma normalize_error_structured:
  "\<exists>e'. normalize_error q (Some e) = Some e' \<and> as_app e' \<noteq> None"
  by (auto simp: normalize_error_def Let_def split: option.splits dest: as_converted_SomeD)

lemma normalize_error_idem: "normalize_error q (normalize_error q err) = normalize_error q err"
proof (cases err)
  case (Some e)
  obtain e' where "normalize_error q (Some e) = Some e'" "as_app e' \<noteq> None"
    using normalize_error_structured by blast
  then show ?thesis by (simp add: Some) (simp add: normalize_error_def)
qed (simp add: normalize_error_def)

end
