(* ===== verification/Remote_Paths.thy ===== *)
theory Remote_Paths
  imports Go_Errors
begin

text \<open>
  Paths: \<open>path.Clean\<close>, \<open>path.Join\<close>, \<open>path.Dir\<close> and \<open>path.Base\<close> of the standard library
  and the path functions of \<open>internal/fs\<close>: \<open>normalizeRemotePath\<close> and
  \<open>defaultRemotePath\<close> (data.go), \<open>treePrefix\<close> (webdavfs.go), \<open>canonicalArchivePath\<close>,
  \<open>joinArchivePath\<close>, \<open>packEntryRel\<close>, \<open>toRemotePath\<close>, \<open>remoteToLocalPath\<close> (pack.go),
  \<open>childPath\<close> (fuse_mount.go) and the WebDAV \<open>remotePath\<close>.  The lemmas show that the
  results are clean and that a child of a mounted node never leaves the node.
\<close>

section \<open>The package path\<close>

text \<open>
  \<open>clean_comps rooted acc cs\<close> processes the components \<open>cs\<close> with the reversed output
  \<open>acc\<close>: empty and \<open>.\<close> components vanish, \<open>..\<close> removes the component before it; at the
  root it vanishes, and in a relative path it is kept.
\<close>

fun clean_comps :: "bool \<Rightarrow> string list \<Rightarrow> string list \<Rightarrow> string list" where
  "clean_comps rooted acc [] = rev acc"
| "clean_comps rooted acc (c # cs) =
     (if c = [] \<or> c = ''.'' then clean_comps rooted acc cs
      else if c = ''..'' then
        (case acc of
           [] \<Rightarrow> clean_comps rooted (if rooted then [] else [c]) cs
         | a # as \<Rightarrow> clean_comps rooted (if a = ''..'' then c # acc else as) cs)
      else clean_comps rooted (c # acc) cs)"

definition path_clean :: "string \<Rightarrow> string" where
  "path_clean s =
     (if s = [] then ''.''
      else if has_prefix s ''/'' then
        CHR ''/'' # join_with ''/'' (clean_comps True [] (split_on (CHR ''/'') s))
      else (case clean_comps False [] (split_on (CHR ''/'') s) of
              [] \<Rightarrow> ''.''
            | cs \<Rightarrow> join_with ''/'' cs))"

definition path_join :: "string list \<Rightarrow> string" where
  "path_join es = (case filter (\<lambda>e. e \<noteq> []) es of [] \<Rightarrow> [] | ws \<Rightarrow> path_clean (join_with ''/'' ws))"

definition upto_last_slash :: "string \<Rightarrow> string" where
  "upto_last_slash s = rev (dropWhile (\<lambda>c. c \<noteq> CHR ''/'') (rev s))"

definition after_last_slash :: "string \<Rightarrow> string" where
  "after_last_slash s = rev (takeWhile (\<lambda>c. c \<noteq> CHR ''/'') (rev s))"

definition path_dir :: "string \<Rightarrow> string" where
  "path_dir s = path_clean (upto_last_slash s)"

definition strip_trailing_slashes :: "string \<Rightarrow> string" where
  "strip_trailing_slashes s = rev (dropWhile (\<lambda>c. c = CHR ''/'') (rev s))"

definition path_base :: "string \<Rightarrow> string" where
  "path_base s =
     (if s = [] then ''.''
      else let b = after_last_slash (strip_trailing_slashes s) in if b = [] then ''/'' else b)"

definition trim_slashes :: "string \<Rightarrow> string" where
  "trim_slashes s = strip_trailing_slashes (dropWhile (\<lambda>c. c = CHR ''/'') s)"

section \<open>Clean components\<close>

definition clean_comp :: "string \<Rightarrow> bool" where
  "clean_comp c \<longleftrightarrow> c \<noteq> [] \<and> c \<noteq> ''.'' \<and> c \<noteq> ''..'' \<and> CHR ''/'' \<notin> set c"

definition clean_list :: "string list \<Rightarrow> bool" where
  "clean_list cs \<longleftrightarrow> list_all clean_comp cs"

text \<open>The string of an absolute path with these components.\<close>

definition abs_path :: "string list \<Rightarrow> string" where
  "abs_path cs = CHR ''/'' # join_with ''/'' cs"

lemma clean_list_simps [simp]:
  "clean_list []"
  "clean_list (c # cs) \<longleftrightarrow> clean_comp c \<and> clean_list cs"
  "clean_list (cs @ ds) \<longleftrightarrow> clean_list cs \<and> clean_list ds"
  "clean_list (rev cs) \<longleftrightarrow> clean_list cs"
  by (auto simp: clean_list_def)

lemma clean_comps_clean:
  "clean_list acc \<Longrightarrow> \<forall>c\<in>set cs. CHR ''/'' \<notin> set c \<Longrightarrow> clean_list (clean_comps True acc cs)"
proof (induction True acc cs rule: clean_comps.induct)
  case (2 acc c cs)
  show ?case
  proof (cases "c = [] \<or> c = ''.''")
    case True
    with 2 show ?thesis by auto
  next
    case nd: False
    show ?thesis
    proof (cases "c = ''..''")
      case True
      show ?thesis
      proof (cases acc)
        case Nil
        with 2 nd True show ?thesis by auto
      next
        case (Cons a as)
        with 2 have "a \<noteq> ''..''" "clean_list as" by (auto simp: clean_comp_def)
        with 2 nd True Cons show ?thesis by auto
      qed
    next
      case False
      with 2 nd show ?thesis by (auto simp: clean_comp_def)
    qed
  qed
qed simp

lemma clean_comps_id: "clean_list cs \<Longrightarrow> clean_comps r acc cs = rev acc @ cs"
  by (induction cs arbitrary: acc) (auto simp: clean_comp_def)

lemma clean_comps_append_clean:
  "clean_list ds \<Longrightarrow> clean_comps True acc (cs @ ds) = clean_comps True acc cs @ ds"
proof (induction True acc cs rule: clean_comps.induct)
  case (1 acc)
  then show ?case by (simp add: clean_comps_id)
next
  case (2 acc c cs)
  then show ?case by (auto split: list.splits)
qed

lemma split_abs_path:
  "clean_list cs \<Longrightarrow> split_on (CHR ''/'') (abs_path cs) = (if cs = [] then [[], []] else [] # cs)"
proof -
  assume "clean_list cs"
  then have "\<forall>c\<in>set cs. CHR ''/'' \<notin> set c" by (auto simp: clean_list_def list_all_iff clean_comp_def)
  then show ?thesis
    using split_join [of cs "CHR ''/''"] by (auto simp: abs_path_def)
qed

lemma abs_path_not_Nil [simp]: "abs_path cs \<noteq> []" "[] \<noteq> abs_path cs"
  by (simp_all add: abs_path_def)

lemma abs_path_slash [simp]: "has_prefix (abs_path cs) ''/''"
  by (simp add: abs_path_def)

lemma path_clean_abs: "clean_list cs \<Longrightarrow> path_clean (abs_path cs) = abs_path cs"
  by (simp add: path_clean_def split_abs_path clean_comps_id) (simp add: abs_path_def)

lemma path_clean_rooted:
  assumes "has_prefix s ''/''"
  obtains cs where "clean_list cs" "path_clean s = abs_path cs"
proof
  show "clean_list (clean_comps True [] (split_on (CHR ''/'') s))"
    by (rule clean_comps_clean) (auto dest: split_on_no_char)
  show "path_clean s = abs_path (clean_comps True [] (split_on (CHR ''/'') s))"
    using assms by (auto simp: path_clean_def abs_path_def)
qed

lemma clean_comp_slash_end: "clean_comp c \<Longrightarrow> last c \<noteq> CHR ''/''"
  by (metis clean_comp_def last_in_set)

lemma join_clean_end: "clean_list cs \<Longrightarrow> cs \<noteq> [] \<Longrightarrow>
    join_with ''/'' cs \<noteq> [] \<and> last (join_with ''/'' cs) \<noteq> CHR ''/''"
proof (induction cs)
  case (Cons c cs)
  then show ?case
    using clean_comp_slash_end [of c] by (cases cs) (auto simp: clean_comp_def)
qed simp

lemma abs_path_no_trailing:
  "clean_list cs \<Longrightarrow> cs \<noteq> [] \<Longrightarrow> \<not> has_suffix (abs_path cs) ''/''"
  using join_clean_end [of cs] by (auto simp: has_suffix_iff abs_path_def Cons_eq_append_conv)

lemma has_suffix_slash_iff: "has_suffix s ''/'' \<longleftrightarrow> s \<noteq> [] \<and> last s = CHR ''/''"
  by (cases s rule: rev_cases) (auto simp: has_suffix_iff)

lemma abs_path_inj: "clean_list cs \<Longrightarrow> clean_list ds \<Longrightarrow> abs_path cs = abs_path ds \<Longrightarrow> cs = ds"
proof -
  assume c: "clean_list cs" and d: "clean_list ds" and e: "abs_path cs = abs_path ds"
  have eq: "(if cs = [] then [[], []] else [] # cs) = (if ds = [] then [[], []] else [] # ds)"
    using split_abs_path [OF c] split_abs_path [OF d] e by simp
  have ne: "cs \<noteq> [[]]" "ds \<noteq> [[]]"
    using c d by (auto simp: clean_comp_def)
  show "cs = ds"
    using eq ne by (cases "cs = []"; cases "ds = []") auto
qed

lemma abs_path_Nil: "abs_path [] = ''/''"
  by (simp add: abs_path_def)

lemma abs_path_eq_root: "clean_list cs \<Longrightarrow> abs_path cs = ''/'' \<longleftrightarrow> cs = []"
  using join_clean_end [of cs] by (auto simp: abs_path_def)

section \<open>Remote paths\<close>

definition missing_remote_path :: go_error where
  "missing_remote_path = app_new ''fs.missing_remote_path'' ''usage'' 2 (Lit ''remote path is required'')"

definition invalid_remote_path :: go_error where
  "invalid_remote_path = app_new ''fs.invalid_remote_path'' ''usage'' 2
     (Lit ''remote path must not contain control characters'')"

definition normalize_remote_path :: "string \<Rightarrow> go_error + string" where
  "normalize_remote_path value =
     (if value = [] then Inl missing_remote_path
      else if list_ex is_control value then Inl invalid_remote_path
      else let v = (if has_prefix value ''/'' then value else CHR ''/'' # value);
               cleaned0 = path_clean v;
               cleaned = (if cleaned0 = ''.'' then ''/'' else cleaned0)
           in Inr (if has_suffix v ''/'' \<and> cleaned \<noteq> ''/'' then cleaned @ ''/'' else cleaned))"

definition default_remote_path :: "string \<Rightarrow> string" where
  "default_remote_path value = (if trim_space value = [] then ''/'' else value)"

definition tree_prefix :: "string \<Rightarrow> string" where
  "tree_prefix name = (if has_suffix name ''/'' then name else name @ ''/'')"

text \<open>The paths \<open>deleteTree\<close>, \<open>invalidatePrefix\<close>, \<open>markDeleted\<close> and their like select.\<close>

definition in_tree :: "string \<Rightarrow> string \<Rightarrow> bool" where
  "in_tree root p \<longleftrightarrow> p = root \<or> has_prefix p (tree_prefix root)"

text \<open>The path a rename gives to a path below \<open>source\<close>.\<close>

definition retarget_path :: "string \<Rightarrow> string \<Rightarrow> string \<Rightarrow> string" where
  "retarget_path source target p =
     (if p = source then target
      else if has_prefix p (tree_prefix source) then target @ trim_prefix p source
      else p)"

text \<open>A normalised path: clean components with an optional trailing slash.\<close>

definition normal_path :: "string \<Rightarrow> bool" where
  "normal_path p \<longleftrightarrow> (\<exists>cs. clean_list cs \<and> (p = abs_path cs \<or> cs \<noteq> [] \<and> p = abs_path cs @ ''/''))"

lemma tree_prefix_slash: "has_suffix (tree_prefix n) ''/''"
  by (auto simp: tree_prefix_def)

lemma in_tree_refl [simp]: "in_tree p p"
  by (simp add: in_tree_def)

lemma in_tree_trans:
  assumes "in_tree a b" "in_tree b c"
  shows "in_tree a c"
proof -
  have "has_prefix (tree_prefix b) (tree_prefix a)" if "has_prefix b (tree_prefix a)"
    using that by (auto simp: tree_prefix_def has_prefix_iff)
  then show ?thesis
    using assms by (auto simp: in_tree_def intro: has_prefix_trans)
qed

lemma has_prefix_tree_prefix: "has_prefix p (tree_prefix r) \<Longrightarrow> has_prefix p r"
  by (auto simp: tree_prefix_def has_prefix_iff split: if_splits)

lemma retarget_path_inj:
  assumes "in_tree s p" "in_tree s q" "retarget_path s t p = retarget_path s t q"
  shows "p = q"
  using assms
  by (auto simp: in_tree_def retarget_path_def trim_prefix_def has_prefix_tree_prefix
      split: if_splits)
     (auto simp: has_prefix_iff tree_prefix_def split: if_splits)

lemma normalize_remote_path_normal:
  "normalize_remote_path v = Inr p \<Longrightarrow> normal_path p"
proof -
  assume n: "normalize_remote_path v = Inr p"
  define w where "w = (if has_prefix v ''/'' then v else CHR ''/'' # v)"
  have "has_prefix w ''/''" by (simp add: w_def)
  then obtain cs where cs: "clean_list cs" "path_clean w = abs_path cs" by (rule path_clean_rooted)
  have "abs_path cs \<noteq> ''.''" by (simp add: abs_path_def)
  then have "p = (if has_suffix w ''/'' \<and> abs_path cs \<noteq> ''/'' then abs_path cs @ ''/'' else abs_path cs)"
    using n cs by (auto simp: normalize_remote_path_def w_def Let_def split: if_splits)
  then show ?thesis
    using cs(1) by (auto simp: normal_path_def abs_path_eq_root)
qed

lemma control_slash [simp]: "\<not> is_control (CHR ''/'')"
  by (simp add: is_control_def byte_of_def)

lemma clean_comps_trailing: "clean_list cs \<Longrightarrow> clean_comps True acc (cs @ [[]]) = rev acc @ cs"
  by (induction cs arbitrary: acc) (auto simp: clean_comp_def)

lemma split_abs_path_slash:
  assumes "clean_list cs" "cs \<noteq> []"
  shows "split_on (CHR ''/'') (abs_path cs @ ''/'') = [] # cs @ [[]]"
proof -
  have "abs_path cs @ ''/'' = CHR ''/'' # join_with ''/'' (cs @ [[]])"
    using assms(2)
  proof (induction cs)
    case (Cons c cs)
    then show ?case by (cases cs) (auto simp: abs_path_def join_with_Cons)
  qed simp
  moreover have "\<forall>c\<in>set (cs @ [[]]). CHR ''/'' \<notin> set c"
    using assms(1) by (auto simp: clean_list_def list_all_iff clean_comp_def)
  ultimately show ?thesis
    using split_join [of "cs @ [[]]" "CHR ''/''"] by simp
qed

lemma path_clean_abs_slash:
  "clean_list cs \<Longrightarrow> cs \<noteq> [] \<Longrightarrow> path_clean (abs_path cs @ ''/'') = abs_path cs"
proof -
  assume cs: "clean_list cs" "cs \<noteq> []"
  have "has_prefix (abs_path cs @ ''/'') ''/''" by (simp add: abs_path_def)
  then show ?thesis
    using cs by (simp add: path_clean_def split_abs_path_slash clean_comps_trailing)
       (simp add: abs_path_def)
qed

text \<open>A normalised path without control characters is its own normal form.\<close>

lemma normalize_remote_path_id:
  assumes "normal_path p" "\<not> list_ex is_control p"
  shows "normalize_remote_path p = Inr p"
proof -
  from assms(1) obtain cs where cs: "clean_list cs"
    and p: "p = abs_path cs \<or> cs \<noteq> [] \<and> p = abs_path cs @ ''/''"
    by (auto simp: normal_path_def)
  have nd: "abs_path cs \<noteq> ''.''" by (simp add: abs_path_def)
  from p show ?thesis
  proof
    assume p: "p = abs_path cs"
    show ?thesis
    proof (cases "cs = []")
      case True
      then show ?thesis
        using assms(2) p path_clean_abs [OF cs]
        by (simp add: normalize_remote_path_def Let_def abs_path_Nil)
    next
      case False
      then show ?thesis
        using assms(2) p path_clean_abs [OF cs] abs_path_no_trailing [OF cs] nd
        by (simp add: normalize_remote_path_def Let_def)
    qed
  next
    assume p: "cs \<noteq> [] \<and> p = abs_path cs @ ''/''"
    then have "has_prefix p ''/''" by (simp add: abs_path_def)
    then show ?thesis
      using assms(2) p path_clean_abs_slash [OF cs] nd
      by (simp add: normalize_remote_path_def Let_def abs_path_eq_root [OF cs])
  qed
qed

lemma set_clean_comps:
  "c \<in> set (clean_comps True acc cs) \<Longrightarrow> c \<in> set acc \<or> c \<in> set cs"
  by (induction True acc cs rule: clean_comps.induct) (auto split: list.splits if_splits)

lemma path_clean_chars: "has_prefix s ''/'' \<Longrightarrow> set (path_clean s) \<subseteq> set s"
proof -
  assume s: "has_prefix s ''/''"
  have "set (join_with ''/'' (clean_comps True [] (split_on (CHR ''/'') s))) \<subseteq> {CHR ''/''} \<union> set s"
    using set_join_with [of "''/''"] set_clean_comps [of _ "[]"] set_split_on
    by fastforce
  moreover have "CHR ''/'' \<in> set s" using s by (auto simp: has_prefix_iff)
  ultimately show ?thesis using s by (auto simp: path_clean_def)
qed

lemma normalize_remote_path_chars:
  assumes "normalize_remote_path v = Inr p"
  shows "\<not> list_ex is_control p"
proof -
  define w where "w = (if has_prefix v ''/'' then v else CHR ''/'' # v)"
  have w: "has_prefix w ''/''" by (simp add: w_def)
  have nc: "\<not> list_ex is_control v" using assms by (auto simp: normalize_remote_path_def split: if_splits)
  have "set w \<subseteq> insert (CHR ''/'') (set v)" by (auto simp: w_def)
  then have "set (path_clean w) \<subseteq> insert (CHR ''/'') (set v)"
    using path_clean_chars [OF w] by blast
  moreover have "set p \<subseteq> insert (CHR ''/'') (set (path_clean w))"
    using assms by (auto simp: normalize_remote_path_def w_def Let_def split: if_splits)
  ultimately have "set p \<subseteq> insert (CHR ''/'') (set v)" by blast
  with nc show ?thesis by (auto simp: list_ex_iff)
qed

lemma normalize_remote_path_idem_lemma:
  "normalize_remote_path v = Inr p \<Longrightarrow> normalize_remote_path p = Inr p"
  by (intro normalize_remote_path_id normalize_remote_path_normal normalize_remote_path_chars)

section \<open>Children of a mounted node\<close>

definition child_path :: "string \<Rightarrow> string \<Rightarrow> errno + string" where
  "child_path parent name =
     (if name = [] \<or> name = ''.'' \<or> name = ''..'' \<or> contains_str name ''/'' \<or> CHR 0x00 \<in> set name
      then Inl EINVAL
      else case normalize_remote_path
                  (if parent = ''/'' then CHR ''/'' # name else path_join [parent, name]) of
             Inl _ \<Rightarrow> Inl EINVAL
           | Inr p \<Rightarrow> Inr p)"

lemma contains_str_slash: "contains_str s [c] \<longleftrightarrow> c \<in> set s"
  by (auto simp: contains_str_iff) (metis append_Cons append_Nil split_list)

lemma join_with_snoc: "ws \<noteq> [] \<Longrightarrow> join_with sep (ws @ [w]) = join_with sep ws @ sep @ w"
proof (induction ws)
  case (Cons v ws)
  then show ?case by (cases ws) auto
qed simp

lemma abs_path_snoc: "abs_path (cs @ [c]) = tree_prefix (abs_path cs) @ c" if "clean_list cs"
proof (cases "cs = []")
  case True
  then show ?thesis by (simp add: abs_path_def tree_prefix_def has_suffix_slash_iff)
next
  case False
  then have "tree_prefix (abs_path cs) = abs_path cs @ ''/''"
    using that abs_path_no_trailing by (simp add: tree_prefix_def)
  with False show ?thesis by (simp add: abs_path_def join_with_snoc)
qed

lemma tree_prefix_abs: "clean_list cs \<Longrightarrow> cs \<noteq> [] \<Longrightarrow> tree_prefix (abs_path cs) = abs_path cs @ ''/''"
  by (simp add: tree_prefix_def abs_path_no_trailing)

lemma path_clean_double_slash:
  assumes "clean_list cs" "cs \<noteq> []" "clean_comp n"
  shows "path_clean (abs_path cs @ ''//'' @ n) = abs_path (cs @ [n])"
proof -
  have sp: "abs_path cs @ ''//'' @ n = CHR ''/'' # join_with ''/'' (cs @ [[], n])"
    using assms(2) join_with_snoc [of "cs @ [[]]" "''/''" n] join_with_snoc [of cs "''/''" "[]"]
    by (simp add: abs_path_def)
  have "\<forall>c\<in>set (cs @ [[], n]). CHR ''/'' \<notin> set c"
    using assms by (auto simp: clean_list_def list_all_iff clean_comp_def)
  then have "split_on (CHR ''/'') (abs_path cs @ ''//'' @ n) = [] # cs @ [[], n]"
    unfolding sp using split_join [of "cs @ [[], n]" "CHR ''/''"] by simp
  moreover have "clean_comps True [] (cs @ [[], n]) = cs @ [n]"
  proof -
    have "clean_comps True acc (cs @ [[], n]) = rev acc @ cs @ [n]" for acc
      using assms(1,3) by (induction cs arbitrary: acc) (auto simp: clean_comp_def)
    then show ?thesis by simp
  qed
  moreover have "has_prefix (abs_path cs @ ''//'' @ n) ''/''" by (simp add: abs_path_def)
  ultimately show ?thesis by (simp add: path_clean_def) (simp add: abs_path_def)
qed

lemma child_path_eq:
  assumes "normal_path parent" "child_path parent name = Inr p"
  obtains cs where "clean_list cs" "clean_comp name" "p = abs_path (cs @ [name])"
    "parent = abs_path cs \<or> cs \<noteq> [] \<and> parent = abs_path cs @ ''/''"
proof -
  from assms(1) obtain cs where cs: "clean_list cs"
    and par: "parent = abs_path cs \<or> cs \<noteq> [] \<and> parent = abs_path cs @ ''/''"
    by (auto simp: normal_path_def)
  have name: "clean_comp name"
    using assms(2) by (auto simp: child_path_def clean_comp_def contains_str_slash split: if_splits)
  have cl: "clean_list (cs @ [name])" using cs name by simp
  define q where "q = (if parent = ''/'' then CHR ''/'' # name else path_join [parent, name])"
  have "q = abs_path (cs @ [name])"
  proof (cases "parent = ''/''")
    case True
    then have "cs = []" using par abs_path_eq_root [OF cs] by auto
    with True show ?thesis by (simp add: q_def abs_path_def)
  next
    case False
    have ne: "parent \<noteq> []" "name \<noteq> []" using par name by (auto simp: clean_comp_def)
    then have q: "q = path_clean (parent @ ''/'' @ name)"
      using False by (simp add: q_def path_join_def)
    have "cs \<noteq> []" using False par abs_path_eq_root [OF cs] by auto
    from par show ?thesis
    proof
      assume "parent = abs_path cs"
      then have "q = path_clean (abs_path (cs @ [name]))"
        using q abs_path_snoc [OF cs, of name] tree_prefix_abs [OF cs \<open>cs \<noteq> []\<close>] by simp
      then show ?thesis using path_clean_abs [OF cl] by simp
    next
      assume "cs \<noteq> [] \<and> parent = abs_path cs @ ''/''"
      then show ?thesis
        using q path_clean_double_slash [OF cs \<open>cs \<noteq> []\<close> name] by simp
    qed
  qed
  moreover have "normalize_remote_path q = Inr p"
    using assms(2) by (auto simp: child_path_def q_def split: if_splits sum.splits)
  moreover have "normal_path (abs_path (cs @ [name]))"
    unfolding normal_path_def using cl by blast
  moreover have "\<not> list_ex is_control q"
    using \<open>normalize_remote_path q = Inr p\<close> by (auto simp: normalize_remote_path_def split: if_splits)
  ultimately have "p = abs_path (cs @ [name])"
    using normalize_remote_path_id [of q] by simp
  with that cs name par show ?thesis by blast
qed

lemma child_path_normal: "normal_path parent \<Longrightarrow> child_path parent name = Inr p \<Longrightarrow> normal_path p"
  by (auto simp: child_path_def split: if_splits sum.splits intro: normalize_remote_path_normal)

lemma child_path_in_tree:
  assumes "normal_path parent" "child_path parent name = Inr p"
  shows "in_tree parent p" "p \<noteq> parent"
proof -
  obtain cs where cs: "clean_list cs" "clean_comp name" "p = abs_path (cs @ [name])"
    and par: "parent = abs_path cs \<or> cs \<noteq> [] \<and> parent = abs_path cs @ ''/''"
    using child_path_eq [OF assms] by blast
  have p: "p = tree_prefix (abs_path cs) @ name" using cs abs_path_snoc by simp
  have tp: "tree_prefix parent = tree_prefix (abs_path cs)"
    using par tree_prefix_abs [OF cs(1)] by (auto simp: tree_prefix_def)
  show "in_tree parent p" unfolding in_tree_def tp p by simp
  have "name \<noteq> []" using cs(2) by (simp add: clean_comp_def)
  then have "length parent < length p"
    using p par tree_prefix_abs [OF cs(1)] abs_path_def by (auto simp: tree_prefix_def)
  then show "p \<noteq> parent" by auto
qed

section \<open>Archive paths of the local overlay\<close>

definition invalid_pack_path :: "string \<Rightarrow> go_error" where
  "invalid_pack_path v = app_new ''fs.invalid_pack_path'' ''usage'' 2 (Fmt ''invalid pack path %q'' [Lit v])"

definition canonical_archive_path :: "string \<Rightarrow> go_error + string" where
  "canonical_archive_path value0 =
     (let value = trim_space value0 in
      if value = [] \<or> value = ''.'' then Inr ''/''
      else if CHR 0x00 \<in> set value \<or> contains_str value [CHR 0x5C] then Inl (invalid_pack_path value)
      else let v = (if has_prefix value ''/'' then value else CHR ''/'' # value);
               cleaned0 = path_clean v;
               cleaned = (if cleaned0 = ''.'' then ''/'' else cleaned0)
           in if list_ex (\<lambda>part. part = ''.'' \<or> part = ''..'') (split_on (CHR ''/'') (trim_slashes cleaned))
              then Inl (invalid_pack_path v)
              else Inr cleaned)"

definition join_archive_path :: "string \<Rightarrow> string \<Rightarrow> go_error + string" where
  "join_archive_path base0 rel0 =
     bind_result (canonical_archive_path base0) (\<lambda>base.
       let rel = trim_space rel0 in
       if rel = [] then Inl (app_new ''fs.invalid_pack_path'' ''usage'' 2 (Lit ''pack path is empty''))
       else if contains_str rel [CHR 0x5C]
         then Inl (app_new ''fs.invalid_pack_path'' ''usage'' 2 (Fmt ''pack path contains backslash: %q'' [Lit rel]))
       else if has_prefix rel ''/'' then canonical_archive_path rel
       else if list_ex (\<lambda>part. part = [] \<or> part = ''.'' \<or> part = ''..'') (split_on (CHR ''/'') rel)
         then Inl (app_new ''fs.invalid_pack_path'' ''usage'' 2 (Fmt ''invalid relative pack path %q'' [Lit rel]))
       else if base = ''/'' then canonical_archive_path (CHR ''/'' # rel)
       else canonical_archive_path (trim_suffix base ''/'' @ ''/'' @ rel))"

definition pack_archive_entry_prefix :: string where
  "pack_archive_entry_prefix = ''entries/''"

definition invalid_pack_entry :: "string \<Rightarrow> string \<Rightarrow> go_error" where
  "invalid_pack_entry f v = app_new ''fs.invalid_pack_entry'' ''runtime'' 1 (Fmt f [Lit v])"

definition pack_entry_rel :: "string \<Rightarrow> go_error + string" where
  "pack_entry_rel name =
     (if \<not> has_prefix name pack_archive_entry_prefix
      then Inl (invalid_pack_entry ''unsupported pack entry name %q'' name)
      else let rel = trim_prefix name pack_archive_entry_prefix in
        if rel = [] then Inl (app_new ''fs.invalid_pack_entry'' ''runtime'' 1 (Lit ''empty pack entry path''))
        else if CHR 0x00 \<in> set rel \<or> contains_str rel [CHR 0x5C] \<or> has_prefix rel ''/''
          then Inl (invalid_pack_entry ''unsafe pack entry path %q'' rel)
        else if path_clean rel = ''.'' \<or> path_clean rel \<noteq> rel
          then Inl (invalid_pack_entry ''unclean pack entry path %q'' rel)
        else if list_ex (\<lambda>part. part = [] \<or> part = ''.'' \<or> part = ''..'') (split_on (CHR ''/'') rel)
          then Inl (invalid_pack_entry ''unsafe pack entry path %q'' rel)
        else Inr rel)"

section \<open>Between the overlay and the remote tree\<close>

definition to_remote_path :: "string \<Rightarrow> string \<Rightarrow> string" where
  "to_remote_path remote_root0 local_path0 =
     (let remote_root = (case normalize_remote_path (default_remote_path remote_root0) of
                           Inl _ \<Rightarrow> ''/'' | Inr r \<Rightarrow> r);
          local_path = (case canonical_archive_path local_path0 of Inl _ \<Rightarrow> ''/'' | Inr l \<Rightarrow> l)
      in if local_path = ''/'' then remote_root
         else path_join [remote_root, trim_prefix local_path ''/''])"

definition remote_to_local_path :: "string \<Rightarrow> string \<Rightarrow> string option" where
  "remote_to_local_path remote_root0 remote_path0 =
     (case normalize_remote_path (default_remote_path remote_root0) of
        Inl _ \<Rightarrow> None
      | Inr remote_root \<Rightarrow>
        (case normalize_remote_path remote_path0 of
           Inl _ \<Rightarrow> None
         | Inr remote_path \<Rightarrow>
             if remote_root = ''/'' then Some remote_path
             else let root = trim_suffix remote_root ''/'' in
               if remote_path = root then Some ''/''
               else if has_prefix remote_path (root @ ''/'')
                 then Some (CHR ''/'' # trim_prefix remote_path (root @ ''/''))
               else None))"

definition resolve_pack_path :: "string \<Rightarrow> string \<Rightarrow> string \<Rightarrow> go_error + (string \<times> string)" where
  "resolve_pack_path remote_root0 local_prefix raw0 =
     (let raw = trim_space raw0 in
      if raw = [] then Inl (app_new ''fs.invalid_pack_path'' ''usage'' 2 (Lit ''pack path is empty''))
      else bind_result (canonical_archive_path local_prefix) (\<lambda>prefix.
        bind_result (normalize_remote_path (default_remote_path remote_root0)) (\<lambda>remote_root.
          if has_prefix raw ''/'' then
            (case remote_to_local_path remote_root raw of
               Some l \<Rightarrow> bind_result (canonical_archive_path l) (\<lambda>archive_path.
                 bind_result (normalize_remote_path raw) (\<lambda>remote_path. Inr (archive_path, remote_path)))
             | None \<Rightarrow> bind_result (canonical_archive_path raw) (\<lambda>archive_path.
                 Inr (archive_path, to_remote_path remote_root archive_path)))
          else bind_result (join_archive_path prefix raw) (\<lambda>archive_path.
                 Inr (archive_path, to_remote_path remote_root archive_path)))))"

text \<open>\<open>remoteWebDAVFS.remotePath\<close>: the remote path of a WebDAV name.\<close>

definition webdav_remote_path :: "string \<Rightarrow> string \<Rightarrow> go_error + string" where
  "webdav_remote_path remote_root name =
     (if CHR 0x00 \<in> set name then Inl (Sentinel Err_Invalid)
      else let clean_name = path_clean (CHR ''/'' # dropWhile (\<lambda>c. c = CHR ''/'') name) in
        if clean_name = ''/'' then Inr remote_root
        else if remote_root = ''/'' then normalize_remote_path clean_name
        else normalize_remote_path (path_join [remote_root, dropWhile (\<lambda>c. c = CHR ''/'') clean_name]))"

section \<open>Lemmas on archive paths\<close>

lemma split_on_append: "split_on c (a @ c # b) = split_on c a @ split_on c b"
  by (induction a) (auto split: list.splits)

lemma path_clean_append:
  assumes "has_prefix a ''/''" "path_clean a = abs_path cs" "clean_list cs" "clean_list ds" "ds \<noteq> []"
  shows "path_clean (a @ ''/'' @ join_with ''/'' ds) = abs_path (cs @ ds)"
proof -
  let ?k = "clean_comps True [] (split_on (CHR ''/'') a)"
  have k: "clean_list ?k" by (rule clean_comps_clean) (auto dest: split_on_no_char)
  have "a \<noteq> []" using assms(1) by auto
  then have "abs_path ?k = abs_path cs" using assms(1,2) by (simp add: path_clean_def abs_path_def)
  then have cs: "?k = cs" using abs_path_inj [OF k assms(3)] by simp
  have "\<forall>c\<in>set ds. CHR ''/'' \<notin> set c"
    using assms(4) by (auto simp: clean_list_def list_all_iff clean_comp_def)
  then have "split_on (CHR ''/'') (a @ ''/'' @ join_with ''/'' ds) = split_on (CHR ''/'') a @ ds"
    using split_on_append split_join [of ds] assms(5) by simp
  moreover have "has_prefix (a @ ''/'' @ join_with ''/'' ds) ''/''"
    using assms(1) by (auto simp: has_prefix_iff)
  ultimately show ?thesis
    using \<open>a \<noteq> []\<close> by (simp add: path_clean_def clean_comps_append_clean [OF assms(4)] cs)
      (simp add: abs_path_def)
qed

lemma canonical_archive_path_abs:
  assumes "canonical_archive_path v = Inr l"
  obtains cs where "clean_list cs" "l = abs_path cs"
proof (cases "trim_space v = [] \<or> trim_space v = ''.''")
  case True
  then have "l = abs_path []" using assms by (auto simp: canonical_archive_path_def Let_def abs_path_def)
  then show ?thesis using that by force
next
  case False
  define w where "w = (if has_prefix (trim_space v) ''/'' then trim_space v else CHR ''/'' # trim_space v)"
  have "has_prefix w ''/''" by (simp add: w_def)
  then obtain cs where cs: "clean_list cs" "path_clean w = abs_path cs" by (rule path_clean_rooted)
  have "abs_path cs \<noteq> ''.''" by (simp add: abs_path_def)
  then have "l = abs_path cs"
    using assms False cs by (auto simp: canonical_archive_path_def w_def Let_def split: if_splits)
  with that cs show ?thesis by blast
qed

lemma normal_pathE:
  assumes "normal_path p"
  obtains cs where "clean_list cs" "p = abs_path cs \<or> cs \<noteq> [] \<and> p = abs_path cs @ ''/''"
    "path_clean p = abs_path cs" "has_prefix p ''/''" "p = ''/'' \<longleftrightarrow> cs = []"
proof -
  from assms obtain cs where cs: "clean_list cs"
    and p: "p = abs_path cs \<or> cs \<noteq> [] \<and> p = abs_path cs @ ''/''"
    by (auto simp: normal_path_def)
  have "path_clean p = abs_path cs"
    using p path_clean_abs [OF cs] path_clean_abs_slash [OF cs] by auto
  moreover have "has_prefix p ''/''" using p by (auto simp: abs_path_def)
  moreover have "p = ''/'' \<longleftrightarrow> cs = []"
    using p abs_path_eq_root [OF cs] by (auto simp: abs_path_Nil)
  ultimately show ?thesis using that cs p by blast
qed

lemma path_join2:
  "normal_path r \<Longrightarrow> w \<noteq> [] \<Longrightarrow> path_join [r, w] = path_clean (r @ ''/'' @ w)"
  by (erule normal_pathE) (auto simp: path_join_def)

lemma to_remote_abs:
  assumes "normalize_remote_path (default_remote_path root) = Inr r"
    and "canonical_archive_path l = Inr (abs_path ds)" "clean_list ds" "ds \<noteq> []"
    and "path_clean r = abs_path cs" "clean_list cs"
  shows "to_remote_path root l = abs_path (cs @ ds)"
proof -
  have r: "normal_path r" using assms(1) by (rule normalize_remote_path_normal)
  have tp: "trim_prefix (abs_path ds) ''/'' = join_with ''/'' ds"
    by (simp add: abs_path_def trim_prefix_def)
  have "to_remote_path root l = path_join [r, join_with ''/'' ds]"
    using assms abs_path_eq_root [OF assms(3)] by (simp add: to_remote_path_def Let_def tp)
  also have "\<dots> = path_clean (r @ ''/'' @ join_with ''/'' ds)"
    using path_join2 [OF r] join_clean_end assms(3,4) by blast
  also have "\<dots> = abs_path (cs @ ds)"
    using r assms by (intro path_clean_append) (auto elim: normal_pathE)
  finally show ?thesis .
qed

lemma abs_path_append: "ds \<noteq> [] \<Longrightarrow> cs \<noteq> [] \<Longrightarrow> abs_path (cs @ ds) = abs_path cs @ abs_path ds"
proof -
  assume ds: "ds \<noteq> []" and cs: "cs \<noteq> []"
  have "join_with ''/'' (cs @ ds) = join_with ''/'' cs @ ''/'' @ join_with ''/'' ds"
    using cs ds
  proof (induction cs)
    case (Cons c cs)
    then show ?case by (cases cs) (auto simp: join_with_Cons)
  qed simp
  then show ?thesis by (simp add: abs_path_def)
qed

lemma pack_entry_rel_clean:
  assumes "pack_entry_rel name = Inr rel"
  shows "name = pack_archive_entry_prefix @ rel" "clean_list (split_on (CHR ''/'') rel)" "rel \<noteq> []"
proof -
  have p: "has_prefix name pack_archive_entry_prefix"
    and r: "rel = trim_prefix name pack_archive_entry_prefix"
    and parts: "\<not> list_ex (\<lambda>part. part = [] \<or> part = ''.'' \<or> part = ''..'') (split_on (CHR ''/'') rel)"
    and ne: "rel \<noteq> []"
    using assms by (auto simp: pack_entry_rel_def Let_def split: if_splits)
  show "name = pack_archive_entry_prefix @ rel" using p r by (auto simp: has_prefix_iff)
  show "clean_list (split_on (CHR ''/'') rel)"
    using parts split_on_no_char by (fastforce simp: clean_list_def list_all_iff list_ex_iff clean_comp_def)
  show "rel \<noteq> []" by (rule ne)
qed

lemma remote_to_local_abs:
  assumes r: "normalize_remote_path (default_remote_path root) = Inr r" "path_clean r = abs_path cs"
      "clean_list cs" "cs \<noteq> []"
    and p: "normalize_remote_path p = Inr (abs_path (cs @ ds))" "clean_list ds"
  shows "remote_to_local_path root p = Some (abs_path ds)"
proof -
  have n: "normal_path r" using r(1) by (rule normalize_remote_path_normal)
  have ts: "trim_suffix r ''/'' = abs_path cs" and nr: "r \<noteq> ''/''"
  proof -
    obtain cs' where cs': "clean_list cs'" "r = abs_path cs' \<or> cs' \<noteq> [] \<and> r = abs_path cs' @ ''/''"
      "path_clean r = abs_path cs'" "r = ''/'' \<longleftrightarrow> cs' = []"
      using n by (blast elim: normal_pathE)
    then have "cs' = cs" using abs_path_inj r by simp
    then show "trim_suffix r ''/'' = abs_path cs" "r \<noteq> ''/''"
      using cs' r(4) abs_path_no_trailing [OF r(3,4)] by (auto simp: trim_suffix_def)
  qed
  show ?thesis
  proof (cases "ds = []")
    case True
    then show ?thesis using r p ts nr by (simp add: remote_to_local_path_def Let_def abs_path_Nil)
  next
    case False
    then have e: "abs_path (cs @ ds) = (abs_path cs @ ''/'') @ join_with ''/'' ds"
      using r(4) abs_path_append by (simp add: abs_path_def [of ds])
    have ne: "abs_path (cs @ ds) \<noteq> abs_path cs"
      using abs_path_inj [of "cs @ ds" cs] r(3) p(2) False by auto
    have "has_prefix (abs_path (cs @ ds)) (abs_path cs @ ''/'')"
      "trim_prefix (abs_path (cs @ ds)) (abs_path cs @ ''/'') = join_with ''/'' ds"
      unfolding e by (rule has_prefix_append, rule trim_prefix_append)
    then show ?thesis using r p ts nr ne by (simp add: remote_to_local_path_def Let_def abs_path_def [of ds])
  qed
qed

section \<open>Properties\<close>

text \<open>Normalising a remote path is idempotent: what \<open>normalizeRemotePath\<close> accepts is a
  clean absolute path (no empty, \<open>.\<close> or \<open>..\<close> component, no control character), and
  normalising the result returns it unchanged.\<close>

theorem normalize_remote_path_idempotent:
  assumes "normalize_remote_path v = Inr p"
  shows "normal_path p \<and> \<not> list_ex is_control p \<and> normalize_remote_path p = Inr p"
  using assms normalize_remote_path_normal normalize_remote_path_chars normalize_remote_path_idem_lemma
  by blast

theorem normalize_remote_path_idempotent_witness:
  "normalize_remote_path ''a//b/../c/'' = Inr ''/a/c/'' \<and> normalize_remote_path ''/a/c/'' = Inr ''/a/c/''"
proof -
  have h: "normalize_remote_path ''a//b/../c/'' = Inr ''/a/c/''" by code_simp
  show ?thesis using h normalize_remote_path_idempotent [OF h] by blast
qed

text \<open>A directory entry name resolved below a mounted node stays strictly below that node:
  \<open>childPath\<close> accepts no name that reaches the parent, a sibling or the node itself.\<close>

theorem child_path_confined:
  assumes "normal_path parent" "child_path parent name = Inr p"
  shows "in_tree parent p \<and> p \<noteq> parent \<and> normal_path p"
  using child_path_in_tree [OF assms] child_path_normal [OF assms] by blast

theorem child_path_confined_witness:
  "child_path ''/work/'' ''src'' = Inr ''/work/src'' \<and> in_tree ''/work/'' ''/work/src''"
proof -
  have h: "child_path ''/work/'' ''src'' = Inr ''/work/src''" by code_simp
  have "normal_path ''/work/''"
    unfolding normal_path_def by (rule exI [of _ "[''work'']"]) (simp add: abs_path_def clean_comp_def)
  from child_path_confined [OF this h] h show ?thesis by blast
qed

text \<open>An accepted archive entry name is the prefix \<open>entries/\<close> followed by clean components:
  extraction never sees an absolute, empty, dotted or backslash path (no path traversal).\<close>

theorem pack_entry_rel_safe:
  assumes "pack_entry_rel name = Inr rel"
  shows "name = ''entries/'' @ rel \<and> rel \<noteq> [] \<and> \<not> has_prefix rel ''/''
       \<and> (\<forall>part \<in> set (split_on (CHR ''/'') rel). part \<noteq> [] \<and> part \<noteq> ''.'' \<and> part \<noteq> ''..'')"
proof -
  have "\<not> has_prefix rel ''/''"
    using assms by (auto simp: pack_entry_rel_def Let_def split: if_splits)
  then show ?thesis
    using pack_entry_rel_clean [OF assms]
    by (auto simp: pack_archive_entry_prefix_def clean_list_def list_all_iff clean_comp_def)
qed

theorem pack_entry_rel_safe_witness:
  "pack_entry_rel ''entries/src/a.go'' = Inr ''src/a.go''
   \<and> list_all (\<lambda>part. part \<noteq> ''..'') (split_on (CHR ''/'') ''src/a.go'')"
proof -
  have h: "pack_entry_rel ''entries/src/a.go'' = Inr ''src/a.go''" by code_simp
  show ?thesis using h pack_entry_rel_safe [OF h] by (simp only: list_all_iff) blast
qed

text \<open>The overlay and the remote tree are two views of one name space: mapping a canonical
  archive path to the remote tree with \<open>toRemotePath\<close> and back with \<open>remoteToLocalPath\<close>
  returns it, for every mount root.\<close>

theorem remote_local_round_trip:
  assumes r: "normalize_remote_path (default_remote_path root) = Inr r"
    and l: "canonical_archive_path l = Inr l'" and nc: "\<not> list_ex is_control l'"
  shows "remote_to_local_path root (to_remote_path root l) = Some l'"
proof -
  obtain ds where ds: "clean_list ds" "l' = abs_path ds"
    using canonical_archive_path_abs [OF l] by blast
  have n: "normal_path r" using r by (rule normalize_remote_path_normal)
  obtain cs where cs: "clean_list cs" "path_clean r = abs_path cs" "r = ''/'' \<longleftrightarrow> cs = []"
    using n by (blast elim: normal_pathE)
  show ?thesis
  proof (cases "ds = []")
    case True
    then have t: "to_remote_path root l = r"
      using r l ds by (simp add: to_remote_path_def Let_def abs_path_Nil)
    have rr: "normalize_remote_path r = Inr r" using r by (rule normalize_remote_path_idem_lemma)
    show ?thesis
      using r rr t True ds by (auto simp: remote_to_local_path_def Let_def abs_path_Nil trim_suffix_def
          has_suffix_iff)
  next
    case False
    have t: "to_remote_path root l = abs_path (cs @ ds)"
      using to_remote_abs [OF r _ ds(1) False cs(2,1)] l ds by simp
    have "clean_list (cs @ ds)" using cs ds by simp
    then have np: "normal_path (abs_path (cs @ ds))" unfolding normal_path_def by blast
    have "\<not> list_ex is_control (abs_path cs)"
      using normalize_remote_path_chars [OF r] path_clean_chars n cs(2)
      by (metis list_ex_iff normal_pathE subset_iff)
    then have "\<not> list_ex is_control (abs_path (cs @ ds))"
      using nc ds False abs_path_append [of ds cs] by (cases "cs = []") auto
    then have p: "normalize_remote_path (abs_path (cs @ ds)) = Inr (abs_path (cs @ ds))"
      by (rule normalize_remote_path_id [OF np])
    show ?thesis
    proof (cases "cs = []")
      case True
      then show ?thesis using r cs p t ds by (simp add: remote_to_local_path_def Let_def)
    next
      case False
      then show ?thesis using remote_to_local_abs [OF r cs(2,1) False p ds(1)] t ds by simp
    qed
  qed
qed

theorem remote_local_round_trip_witness:
  "remote_to_local_path ''/team/'' (to_remote_path ''/team/'' ''src/a.go'') = Some ''/src/a.go''"
proof -
  have "normalize_remote_path (default_remote_path ''/team/'') = Inr ''/team/''"
    "canonical_archive_path ''src/a.go'' = Inr ''/src/a.go''" "\<not> list_ex is_control ''/src/a.go''"
    by code_simp+
  then show ?thesis by (rule remote_local_round_trip)
qed

section \<open>Paths of a directory entry\<close>

lemma abs_path_snoc_eq: "cs \<noteq> [] \<Longrightarrow> abs_path (cs @ [b]) = abs_path cs @ ''/'' @ b"
  using join_with_snoc [of cs "''/''" b] by (simp add: abs_path_def)

lemma strip_trailing_none: "s \<noteq> [] \<Longrightarrow> last s \<noteq> CHR ''/'' \<Longrightarrow> strip_trailing_slashes s = s"
  by (cases s rule: rev_cases) (simp_all add: strip_trailing_slashes_def)

lemma path_dir_abs:
  assumes "clean_list (ds @ [b])"
  shows "path_dir (abs_path (ds @ [b])) = abs_path ds" "path_base (abs_path (ds @ [b])) = b"
proof -
  have b: "b \<noteq> []" "CHR ''/'' \<notin> set b" and ds: "clean_list ds"
    using assms by (auto simp: clean_list_def clean_comp_def)
  have p: "abs_path (ds @ [b]) = (if ds = [] then ''/'' else abs_path ds @ ''/'') @ b"
    using abs_path_snoc_eq [of ds b] by (simp add: abs_path_def)
  have tk: "takeWhile (\<lambda>c. c \<noteq> CHR ''/'') (rev b @ CHR ''/'' # x) = rev b"
    "dropWhile (\<lambda>c. c \<noteq> CHR ''/'') (rev b @ CHR ''/'' # x) = CHR ''/'' # x" for x
    using b(2) by (auto simp: takeWhile_append dropWhile_append)
  have rv: "rev (abs_path (ds @ [b])) = rev b @ CHR ''/'' # (if ds = [] then [] else rev (abs_path ds))"
    by (simp add: p)
  have "upto_last_slash (abs_path (ds @ [b])) = (if ds = [] then ''/'' else abs_path ds @ ''/'')"
    by (simp add: upto_last_slash_def rv tk)
  then show "path_dir (abs_path (ds @ [b])) = abs_path ds"
    using path_clean_abs [OF ds] path_clean_abs_slash [OF ds] path_clean_abs [of "[]"]
    by (auto simp: path_dir_def abs_path_Nil)
  have "strip_trailing_slashes (abs_path (ds @ [b])) = abs_path (ds @ [b])"
    using abs_path_no_trailing [OF assms] by (intro strip_trailing_none) (simp_all add: has_suffix_slash_iff)
  then show "path_base (abs_path (ds @ [b])) = b"
    using b(1) by (simp add: path_base_def after_last_slash_def rv tk p)
qed

lemma path_join_dir:
  assumes "clean_list (cs @ xs)" "xs \<noteq> []" "a = abs_path cs"
  shows "path_join [a, join_with ''/'' xs] = abs_path (cs @ xs)"
proof -
  have c: "clean_list cs" "clean_list xs" using assms(1) by (simp_all add: clean_list_def)
  have ne: "join_with ''/'' xs \<noteq> []" using c(2) assms(2) by (cases xs; cases "tl xs") (auto simp: clean_comp_def)
  have "path_join [a, join_with ''/'' xs] = path_clean (a @ ''/'' @ join_with ''/'' xs)"
    using ne assms(3) by (simp add: path_join_def)
  then show ?thesis
    using path_clean_append [of a cs xs] c assms path_clean_abs [OF c(1)] by simp
qed

end
