(* ===== verification/Read_Cache.thy ===== *)
theory Read_Cache
  imports Remote_Paths
begin

text \<open>
  Object versions (\<open>internal/fs/fuse_version.go\<close>) and the read cache of a mount
  (\<open>internal/fs/fuse_cache.go\<close>): a map from remote paths to entries with a
  least-recently-used order, a byte budget, a limit per file and a time to live.  The list
  element an entry points to is identified by the entry's path, the front of \<open>rc_order\<close>
  is the most recently used entry; \<open>now\<close> is the reading of the clock.  The mount always
  creates a cache, so the nil receiver is not modelled.  The locale \<open>version_cache\<close> states
  what the mount relies on; it is interpreted on these definitions.
\<close>

section \<open>Versions\<close>

record object_version =
  revision :: int
  resource_id :: string

definition no_version :: object_version where
  "no_version = \<lparr>revision = 0, resource_id = []\<rparr>"

definition version_known :: "object_version \<Rightarrow> bool" where
  "version_known v \<longleftrightarrow> revision v > 0 \<or> resource_id v \<noteq> []"

definition version_matches :: "object_version \<Rightarrow> object_version \<Rightarrow> bool" where
  "version_matches v required =
     (if \<not> version_known required then True
      else if resource_id required \<noteq> [] \<and> resource_id v \<noteq> resource_id required then False
      else if revision required > 0 \<and> revision v \<noteq> revision required then False
      else True)"

definition conflicts_with :: "object_version \<Rightarrow> object_version \<Rightarrow> bool" where
  "conflicts_with v expected =
     (if resource_id expected \<noteq> [] \<and> resource_id v \<noteq> [] \<and> resource_id v \<noteq> resource_id expected then True
      else if revision expected > 0 \<and> revision v > 0 \<and> revision v \<noteq> revision expected then True
      else False)"

definition with_revision :: "object_version \<Rightarrow> int \<Rightarrow> object_version" where
  "with_revision v r = (if r > 0 then v\<lparr>revision := r\<rparr> else v)"

lemma version_matches_refl [simp]: "version_matches v v"
  by (simp add: version_matches_def)

lemma conflicts_with_irrefl [simp]: "\<not> conflicts_with v v"
  by (simp add: conflicts_with_def)

lemma conflicts_with_sym: "conflicts_with v w \<longleftrightarrow> conflicts_with w v"
  by (auto simp: conflicts_with_def)

lemma matches_no_conflict: "version_known w \<Longrightarrow> version_matches v w \<Longrightarrow> \<not> conflicts_with v w"
  by (auto simp: version_matches_def conflicts_with_def split: if_splits)

lemma revision_with_revision: "r > 0 \<Longrightarrow> revision (with_revision v r) = r"
  by (simp add: with_revision_def)

section \<open>The cache\<close>

record cache_entry =
  ce_data :: string
  ce_version :: object_version
  ce_expires :: int

record read_cache =
  rc_items :: "string \<Rightarrow> cache_entry option"
  rc_order :: "string list"
  rc_size :: int
  rc_max_size :: int
  rc_max_file :: int
  rc_ttl :: int

text \<open>128 MiB, 4 MiB and 30 s (in nanoseconds), the defaults of mount.go.\<close>

definition default_read_cache_size :: int where "default_read_cache_size = 134217728"
definition default_read_cache_max_file :: int where "default_read_cache_max_file = 4194304"
definition default_read_cache_ttl :: int where "default_read_cache_ttl = 30000000000"

definition new_read_cache :: "int \<Rightarrow> int \<Rightarrow> int \<Rightarrow> read_cache" where
  "new_read_cache max_size max_file ttl =
     \<lparr>rc_items = (\<lambda>_. None), rc_order = [], rc_size = 0,
      rc_max_size = (if max_size \<le> 0 then default_read_cache_size else max_size),
      rc_max_file = (if max_file \<le> 0 then default_read_cache_max_file else max_file),
      rc_ttl = (if ttl = 0 then default_read_cache_ttl else ttl)\<rparr>"

definition cache_evict :: "read_cache \<Rightarrow> string \<Rightarrow> cache_entry \<Rightarrow> read_cache" where
  "cache_evict c p e = c\<lparr>rc_items := (rc_items c)(p := None), rc_order := remove1 p (rc_order c),
     rc_size := rc_size c - int (length (ce_data e))\<rparr>"

definition move_to_front :: "string \<Rightarrow> string list \<Rightarrow> string list" where
  "move_to_front p ps = p # remove1 p ps"

definition cache_get :: "read_cache \<Rightarrow> int \<Rightarrow> string \<Rightarrow> object_version \<Rightarrow> read_cache \<times> string option" where
  "cache_get c now p v =
     (case rc_items c p of
        None \<Rightarrow> (c, None)
      | Some e \<Rightarrow>
          if \<not> version_matches (ce_version e) v then (c, None)
          else if rc_ttl c > 0 \<and> now > ce_expires e then (cache_evict c p e, None)
          else (c\<lparr>rc_order := move_to_front p (rc_order c)\<rparr>, Some (ce_data e)))"

text \<open>The eviction loop of \<open>put\<close>: drop the tail of the order while the budget is exceeded.\<close>

function evict_over :: "read_cache \<Rightarrow> read_cache" where
  "evict_over c =
     (if rc_size c > rc_max_size c \<and> rc_order c \<noteq> []
      then let p = last (rc_order c) in
        (case rc_items c p of None \<Rightarrow> c | Some e \<Rightarrow> evict_over (cache_evict c p e))
      else c)"
  by pat_completeness auto
termination
  by (relation "measure (\<lambda>c. length (rc_order c))")
     (auto simp: cache_evict_def length_remove1 neq_Nil_conv)

declare evict_over.simps [simp del]

definition cache_put :: "read_cache \<Rightarrow> int \<Rightarrow> string \<Rightarrow> string \<Rightarrow> object_version \<Rightarrow> read_cache" where
  "cache_put c now p data v =
     (if int (length data) > rc_max_file c then c
      else let e = \<lparr>ce_data = data, ce_version = v, ce_expires = now + rc_ttl c\<rparr> in
        evict_over
          (case rc_items c p of
             Some old \<Rightarrow>
               c\<lparr>rc_items := (rc_items c)(p \<mapsto> e),
                 rc_size := rc_size c - int (length (ce_data old)) + int (length data),
                 rc_order := move_to_front p (rc_order c)\<rparr>
           | None \<Rightarrow>
               c\<lparr>rc_items := (rc_items c)(p \<mapsto> e),
                 rc_size := rc_size c + int (length data),
                 rc_order := p # rc_order c\<rparr>))"

definition cache_invalidate :: "read_cache \<Rightarrow> string \<Rightarrow> read_cache" where
  "cache_invalidate c p = (case rc_items c p of None \<Rightarrow> c | Some e \<Rightarrow> cache_evict c p e)"

text \<open>The loop over the map visits each entry once; the paths of the order are its keys.\<close>

definition cache_invalidate_prefix :: "read_cache \<Rightarrow> string \<Rightarrow> read_cache" where
  "cache_invalidate_prefix c prefix =
     fold (\<lambda>p d. if in_tree prefix p then cache_invalidate d p else d) (rc_order c) c"

section \<open>Invariant\<close>

definition entry_size :: "read_cache \<Rightarrow> string \<Rightarrow> int" where
  "entry_size c p = (case rc_items c p of None \<Rightarrow> 0 | Some e \<Rightarrow> int (length (ce_data e)))"

definition cache_wf :: "read_cache \<Rightarrow> bool" where
  "cache_wf c \<longleftrightarrow> distinct (rc_order c) \<and> set (rc_order c) = dom (rc_items c)
     \<and> rc_size c = sum_list (map (entry_size c) (rc_order c))
     \<and> (\<forall>p e. rc_items c p = Some e \<longrightarrow> int (length (ce_data e)) \<le> rc_max_file c)"

definition cache_ok :: "read_cache \<Rightarrow> bool" where
  "cache_ok c \<longleftrightarrow> cache_wf c \<and> rc_size c \<le> rc_max_size c"

lemma entry_size_upd [simp]: "entry_size (c\<lparr>rc_order := x\<rparr>) = entry_size c"
  "entry_size (c\<lparr>rc_size := y\<rparr>) = entry_size c"
  by (auto simp: entry_size_def fun_eq_iff)

lemma entry_size_items:
  "entry_size (c\<lparr>rc_items := (rc_items c)(p := x)\<rparr>) q =
     (if q = p then (case x of None \<Rightarrow> 0 | Some e \<Rightarrow> int (length (ce_data e))) else entry_size c q)"
  by (simp add: entry_size_def)

lemma sum_remove1:
  fixes f :: "'a \<Rightarrow> int"
  shows "p \<in> set ps \<Longrightarrow> sum_list (map f (remove1 p ps)) = sum_list (map f ps) - f p"
  by (induction ps) auto

lemma sum_items_other:
  "p \<notin> set ps \<Longrightarrow> map (entry_size (c\<lparr>rc_items := (rc_items c)(p := x)\<rparr>)) ps = map (entry_size c) ps"
  by (auto simp: entry_size_items)

lemma cache_wf_evict:
  assumes "cache_wf c" "rc_items c p = Some e"
  shows "cache_wf (cache_evict c p e)"
proof -
  have p: "p \<in> set (rc_order c)" and d: "distinct (rc_order c)"
    using assms by (auto simp: cache_wf_def)
  have es: "entry_size (cache_evict c p e) q = (if q = p then 0 else entry_size c q)" for q
    by (simp add: cache_evict_def entry_size_def)
  have "map (entry_size (cache_evict c p e)) (remove1 p (rc_order c)) = map (entry_size c) (remove1 p (rc_order c))"
    using d by (auto simp: es)
  moreover have "rc_order (cache_evict c p e) = remove1 p (rc_order c)"
    by (simp add: cache_evict_def)
  ultimately have "sum_list (map (entry_size (cache_evict c p e)) (rc_order (cache_evict c p e)))
      = sum_list (map (entry_size c) (rc_order c)) - entry_size c p"
    using sum_remove1 [OF p, of "entry_size c"] by (simp only:)
  moreover have "entry_size c p = int (length (ce_data e))" using assms by (simp add: entry_size_def)
  ultimately show ?thesis
    using assms d by (auto simp: cache_wf_def cache_evict_def set_remove1_eq split: if_splits)
qed

lemma evict_over_stop: "\<not> (rc_size c > rc_max_size c \<and> rc_order c \<noteq> []) \<Longrightarrow> evict_over c = c"
  by (subst evict_over.simps) auto

lemma evict_over_step:
  "rc_size c > rc_max_size c \<Longrightarrow> rc_order c \<noteq> [] \<Longrightarrow> rc_items c (last (rc_order c)) = Some e \<Longrightarrow>
   evict_over c = evict_over (cache_evict c (last (rc_order c)) e)"
  by (subst evict_over.simps) (simp add: Let_def)

lemma cache_wf_last:
  "cache_wf c \<Longrightarrow> rc_order c \<noteq> [] \<Longrightarrow> \<exists>e. rc_items c (last (rc_order c)) = Some e"
  using last_in_set [of "rc_order c"] by (auto simp: cache_wf_def)

lemma evict_over_wf:
  "cache_wf c \<Longrightarrow> 0 \<le> rc_max_size c \<Longrightarrow> cache_ok (evict_over c)
     \<and> rc_max_size (evict_over c) = rc_max_size c \<and> rc_max_file (evict_over c) = rc_max_file c
     \<and> rc_ttl (evict_over c) = rc_ttl c"
proof (induction c rule: evict_over.induct)
  case (1 c)
  show ?case
  proof (cases "rc_size c > rc_max_size c \<and> rc_order c \<noteq> []")
    case True
    then obtain e where e: "rc_items c (last (rc_order c)) = Some e"
      using cache_wf_last "1.prems" by blast
    have "cache_wf (cache_evict c (last (rc_order c)) e)" using cache_wf_evict "1.prems" e by blast
    moreover have "rc_max_size (cache_evict c (last (rc_order c)) e) = rc_max_size c"
      "rc_max_file (cache_evict c (last (rc_order c)) e) = rc_max_file c"
      "rc_ttl (cache_evict c (last (rc_order c)) e) = rc_ttl c"
      by (simp_all add: cache_evict_def)
    ultimately show ?thesis
      using "1.IH" [OF True refl e] "1.prems" evict_over_step [OF _ _ e] True by simp
  next
    case False
    then have "evict_over c = c" by (rule evict_over_stop)
    moreover have "rc_order c = [] \<Longrightarrow> rc_size c = 0" using "1.prems" by (simp add: cache_wf_def)
    ultimately show ?thesis using False "1.prems" by (auto simp: cache_ok_def)
  qed
qed

text \<open>Evicting only removes entries, and keeps the order of those that stay.\<close>

lemma evict_over_items: "rc_items (evict_over c) q = Some e \<Longrightarrow> rc_items c q = Some e"
proof (induction c rule: evict_over.induct)
  case (1 c)
  show ?case
  proof (cases "rc_size c > rc_max_size c \<and> rc_order c \<noteq> [] \<and> rc_items c (last (rc_order c)) \<noteq> None")
    case True
    then obtain f where f: "rc_items c (last (rc_order c)) = Some f" by blast
    have "rc_items (cache_evict c (last (rc_order c)) f) q = Some e"
      using "1.IH" [OF _ refl f] "1.prems" evict_over_step [OF _ _ f] True by simp
    then show ?thesis by (auto simp: cache_evict_def split: if_splits)
  next
    case False
    then show ?thesis using "1.prems" by (subst (asm) evict_over.simps) (auto simp: Let_def split: if_splits)
  qed
qed

lemma remove1_last: "distinct xs \<Longrightarrow> xs \<noteq> [] \<Longrightarrow> remove1 (last xs) xs = butlast xs"
  by (cases xs rule: rev_cases) (auto simp: remove1_append)

lemma evict_over_order:
  "cache_wf c \<Longrightarrow> \<exists>k. rc_order (evict_over c) = take k (rc_order c)"
proof (induction c rule: evict_over.induct)
  case (1 c)
  show ?case
  proof (cases "rc_size c > rc_max_size c \<and> rc_order c \<noteq> []")
    case True
    then obtain e where e: "rc_items c (last (rc_order c)) = Some e"
      using cache_wf_last "1.prems" by blast
    obtain k where k: "rc_order (evict_over c) = take k (rc_order (cache_evict c (last (rc_order c)) e))"
      using "1.IH" [OF True refl e cache_wf_evict [OF "1.prems" e]] evict_over_step [OF _ _ e] True by auto
    have "remove1 (last (rc_order c)) (rc_order c) = butlast (rc_order c)"
      using "1.prems" True remove1_last [of "rc_order c"] by (simp add: cache_wf_def)
    then have "rc_order (evict_over c) = take (min k (length (rc_order c) - 1)) (rc_order c)"
      using k by (simp add: cache_evict_def butlast_conv_take)
    then show ?thesis by blast
  next
    case False
    then have "evict_over c = c" by (rule evict_over_stop)
    then show ?thesis by (metis take_all_iff order_refl)
  qed
qed

lemma evict_over_keeps_front:
  "cache_wf c \<Longrightarrow> rc_order c = p # ps \<Longrightarrow> entry_size c p \<le> rc_max_size c \<Longrightarrow>
   rc_items (evict_over c) p = rc_items c p"
proof (induction c arbitrary: ps rule: evict_over.induct)
  case (1 c)
  show ?case
  proof (cases "rc_size c > rc_max_size c \<and> rc_order c \<noteq> []")
    case True
    then obtain e where e: "rc_items c (last (rc_order c)) = Some e"
      using cache_wf_last "1.prems" by blast
    have "ps \<noteq> []"
      using True "1.prems" by (auto simp: cache_wf_def)
    then have ne: "last (rc_order c) \<noteq> p"
      using "1.prems" last_in_set [of ps] by (auto simp: cache_wf_def)
    have "rc_items (evict_over (cache_evict c (last (rc_order c)) e)) p
        = rc_items (cache_evict c (last (rc_order c)) e) p"
      by (rule "1.IH" [OF True refl e cache_wf_evict [OF "1.prems"(1) e], of "remove1 (last (rc_order c)) ps"])
         (use ne "1.prems" in \<open>auto simp: cache_evict_def entry_size_def\<close>)
    then show ?thesis
      using evict_over_step [OF _ _ e] True ne by (simp add: cache_evict_def)
  next
    case False
    then have "evict_over c = c" by (rule evict_over_stop)
    then show ?thesis by simp
  qed
qed

lemma cache_ok_wf: "cache_ok c \<Longrightarrow> cache_wf c"
  by (simp add: cache_ok_def)

lemma cache_ok_evict: "cache_ok c \<Longrightarrow> rc_items c p = Some e \<Longrightarrow> cache_ok (cache_evict c p e)"
  using cache_wf_evict [of c p e] by (auto simp: cache_ok_def cache_evict_def)

lemma cache_wf_front:
  assumes "cache_wf c" "p \<in> set (rc_order c)"
  shows "cache_wf (c\<lparr>rc_order := move_to_front p (rc_order c)\<rparr>)"
proof -
  have "sum_list (map (entry_size c) (move_to_front p (rc_order c))) = sum_list (map (entry_size c) (rc_order c))"
    using sum_remove1 [OF assms(2), of "entry_size c"] by (simp add: move_to_front_def)
  then show ?thesis
    using assms by (auto simp: cache_wf_def move_to_front_def set_remove1_eq)
qed

lemma cache_ok_front:
  "cache_ok c \<Longrightarrow> p \<in> set (rc_order c) \<Longrightarrow> cache_ok (c\<lparr>rc_order := move_to_front p (rc_order c)\<rparr>)"
  using cache_wf_front [of c p] by (simp add: cache_ok_def)

lemma cache_ok_order: "cache_ok c \<Longrightarrow> rc_items c p = Some e \<Longrightarrow> p \<in> set (rc_order c)"
  by (auto simp: cache_ok_def cache_wf_def)

lemma cache_get_ok: "cache_ok c \<Longrightarrow> cache_ok (fst (cache_get c now p v))"
  by (auto simp: cache_get_def intro: cache_ok_evict cache_ok_front cache_ok_order split: option.splits)

text \<open>The state of \<open>put\<close> before its eviction loop.\<close>

definition cache_stored :: "read_cache \<Rightarrow> int \<Rightarrow> string \<Rightarrow> string \<Rightarrow> object_version \<Rightarrow> read_cache" where
  "cache_stored c now p data v =
     c\<lparr>rc_items := (rc_items c)(p \<mapsto> \<lparr>ce_data = data, ce_version = v, ce_expires = now + rc_ttl c\<rparr>),
       rc_size := rc_size c - entry_size c p + int (length data),
       rc_order := move_to_front p (rc_order c)\<rparr>"

lemma cache_put_eq:
  "cache_wf c \<Longrightarrow> cache_put c now p data v =
     (if int (length data) > rc_max_file c then c else evict_over (cache_stored c now p data v))"
proof -
  assume "cache_wf c"
  then have "rc_items c p = None \<Longrightarrow> remove1 p (rc_order c) = rc_order c"
    by (intro remove1_idem) (auto simp: cache_wf_def)
  then show ?thesis
    by (auto simp: cache_put_def cache_stored_def Let_def entry_size_def move_to_front_def split: option.splits)
qed

lemma cache_stored_wf:
  assumes "cache_wf c" "int (length data) \<le> rc_max_file c"
  shows "cache_wf (cache_stored c now p data v)"
proof -
  let ?c = "cache_stored c now p data v"
  have d: "distinct (rc_order c)" using assms by (simp add: cache_wf_def)
  have es: "entry_size ?c q = (if q = p then int (length data) else entry_size c q)" for q
    by (simp add: cache_stored_def entry_size_def)
  have "map (entry_size ?c) (remove1 p (rc_order c)) = map (entry_size c) (remove1 p (rc_order c))"
    using d by (auto simp: es)
  moreover have "sum_list (map (entry_size c) (remove1 p (rc_order c)))
      = sum_list (map (entry_size c) (rc_order c)) - entry_size c p"
  proof (cases "p \<in> set (rc_order c)")
    case True
    then show ?thesis by (rule sum_remove1)
  next
    case False
    then have "rc_items c p = None" using assms(1) by (auto simp: cache_wf_def)
    then show ?thesis using False by (simp add: remove1_idem entry_size_def)
  qed
  moreover have "rc_order ?c = p # remove1 p (rc_order c)"
    by (simp add: cache_stored_def move_to_front_def)
  ultimately have "sum_list (map (entry_size ?c) (rc_order ?c))
      = int (length data) + (sum_list (map (entry_size c) (rc_order c)) - entry_size c p)"
    by (simp only: list.map sum_list.Cons es refl if_True)
  also have "\<dots> = rc_size ?c"
    using assms(1) by (simp add: cache_wf_def cache_stored_def)
  finally have "sum_list (map (entry_size ?c) (rc_order ?c)) = rc_size ?c" .
  then show ?thesis
    using assms d by (auto simp: cache_wf_def cache_stored_def move_to_front_def set_remove1_eq split: if_splits)
qed

lemma cache_put_ok:
  "cache_ok c \<Longrightarrow> 0 \<le> rc_max_size c \<Longrightarrow> cache_ok (cache_put c now p data v)"
  using evict_over_wf [of "cache_stored c now p data v"] cache_stored_wf [of c data now p v]
  by (auto simp: cache_put_eq cache_ok_wf) (simp add: cache_stored_def)

lemma cache_invalidate_ok: "cache_ok c \<Longrightarrow> cache_ok (cache_invalidate c p)"
  by (auto simp: cache_invalidate_def cache_ok_evict split: option.splits)

lemma new_read_cache_ok: "cache_ok (new_read_cache a b t)"
  by (simp add: new_read_cache_def cache_ok_def cache_wf_def default_read_cache_size_def)

section \<open>The interface the mount relies on\<close>

definition cache_view :: "read_cache \<Rightarrow> string \<Rightarrow> (string \<times> object_version) option" where
  "cache_view c p = map_option (\<lambda>e. (ce_data e, ce_version e)) (rc_items c p)"

definition cache_inv :: "read_cache \<Rightarrow> bool" where
  "cache_inv c \<longleftrightarrow> cache_ok c \<and> 0 \<le> rc_max_size c"

datatype cache_op =
    Op_Get int string object_version
  | Op_Put int string string object_version
  | Op_Invalidate string

text \<open>Running operations on any cache, with the answers of the lookups.\<close>

fun run_cache ::
  "('c \<Rightarrow> int \<Rightarrow> string \<Rightarrow> object_version \<Rightarrow> 'c \<times> string option) \<Rightarrow>
   ('c \<Rightarrow> int \<Rightarrow> string \<Rightarrow> string \<Rightarrow> object_version \<Rightarrow> 'c) \<Rightarrow> ('c \<Rightarrow> string \<Rightarrow> 'c) \<Rightarrow>
   'c \<Rightarrow> cache_op list \<Rightarrow> 'c \<times> (string \<times> object_version \<times> string) list" where
  "run_cache get put inval c [] = (c, [])"
| "run_cache get put inval c (Op_Get now p v # ops) =
     (case get c now p v of
        (c', None) \<Rightarrow> run_cache get put inval c' ops
      | (c', Some d) \<Rightarrow> (case run_cache get put inval c' ops of (c'', as) \<Rightarrow> (c'', (p, v, d) # as)))"
| "run_cache get put inval c (Op_Put now p d v # ops) = run_cache get put inval (put c now p d v) ops"
| "run_cache get put inval c (Op_Invalidate p # ops) = run_cache get put inval (inval c p) ops"

locale version_cache =
  fixes view :: "'c \<Rightarrow> string \<Rightarrow> (string \<times> object_version) option"
    and inv :: "'c \<Rightarrow> bool"
    and get :: "'c \<Rightarrow> int \<Rightarrow> string \<Rightarrow> object_version \<Rightarrow> 'c \<times> string option"
    and put :: "'c \<Rightarrow> int \<Rightarrow> string \<Rightarrow> string \<Rightarrow> object_version \<Rightarrow> 'c"
    and invalidate :: "'c \<Rightarrow> string \<Rightarrow> 'c"
  assumes get_hit: "get c now p v = (c', Some d) \<Longrightarrow> \<exists>w. view c p = Some (d, w) \<and> version_matches w v"
    and get_view: "view (fst (get c now p v)) q = Some x \<Longrightarrow> view c q = Some x"
    and put_view: "inv c \<Longrightarrow> view (put c now p d v) q = Some x \<Longrightarrow> q = p \<and> x = (d, v) \<or> view c q = Some x"
    and invalidate_view: "view (invalidate c p) q = (if q = p then None else view c q)"
    and inv_get: "inv c \<Longrightarrow> inv (fst (get c now p v))"
    and inv_put: "inv c \<Longrightarrow> inv (put c now p d v)"
    and inv_invalidate: "inv c \<Longrightarrow> inv (invalidate c p)"
begin

text \<open>
  A cache is coherent with a history \<open>content\<close> when everything it holds was the content of
  its path at its version; \<open>ops_coherent\<close> says the same of what is put.
\<close>

definition coherent :: "(string \<Rightarrow> object_version \<Rightarrow> string \<Rightarrow> bool) \<Rightarrow> 'c \<Rightarrow> bool" where
  "coherent content c \<longleftrightarrow> (\<forall>p d w. view c p = Some (d, w) \<longrightarrow> content p w d)"

lemma coherent_get: "coherent content c \<Longrightarrow> coherent content (fst (get c now p v))"
  unfolding coherent_def using get_view by blast

lemma coherent_put: "inv c \<Longrightarrow> coherent content c \<Longrightarrow> content p v d \<Longrightarrow> coherent content (put c now p d v)"
  unfolding coherent_def using put_view by blast

lemma coherent_invalidate: "coherent content c \<Longrightarrow> coherent content (invalidate c p)"
  unfolding coherent_def by (simp add: invalidate_view)

lemma hit_coherent:
  "coherent content c \<Longrightarrow> get c now p v = (c', Some d) \<Longrightarrow> \<exists>w. version_matches w v \<and> content p w d"
  unfolding coherent_def using get_hit by blast

lemma run_answers:
  "inv c \<Longrightarrow> coherent content c \<Longrightarrow>
   \<forall>now p d v. Op_Put now p d v \<in> set ops \<longrightarrow> content p v d \<Longrightarrow>
   \<forall>(p, v, d) \<in> set (snd (run_cache get put invalidate c ops)). \<exists>w. version_matches w v \<and> content p w d"
proof (induction ops arbitrary: c)
  case (Cons x ops)
  show ?case
  proof (cases x)
    case (Op_Get now p v)
    obtain c' r where g: "get c now p v = (c', r)" by fastforce
    have "inv c'" "coherent content c'"
      using inv_get [OF Cons.prems(1)] coherent_get [OF Cons.prems(2)] g by (metis fst_conv)+
    with Cons have "\<forall>(p, v, d) \<in> set (snd (run_cache get put invalidate c' ops)). \<exists>w. version_matches w v \<and> content p w d"
      by auto
    then show ?thesis
      using hit_coherent [OF Cons.prems(2)] g Op_Get by (cases r) (auto split: prod.splits)
  next
    case (Op_Put now p d v)
    with Cons have "inv (put c now p d v)" "coherent content (put c now p d v)"
      by (auto intro: inv_put coherent_put)
    with Cons Op_Put show ?thesis by auto
  next
    case (Op_Invalidate p)
    with Cons have "inv (invalidate c p)" "coherent content (invalidate c p)"
      by (auto intro: inv_invalidate coherent_invalidate)
    with Cons Op_Invalidate show ?thesis by auto
  qed
qed simp

end

lemma cache_wf_items: "cache_wf c \<Longrightarrow> rc_items (cache_put c now p d v) q = Some e \<Longrightarrow>
    q = p \<and> ce_data e = d \<and> ce_version e = v \<or> rc_items c q = Some e"
  by (auto simp: cache_put_eq cache_stored_def split: if_splits dest!: evict_over_items)

lemma cache_put_limits:
  "cache_wf c \<Longrightarrow> 0 \<le> rc_max_size c \<Longrightarrow> rc_max_size (cache_put c now p d v) = rc_max_size c"
  using evict_over_wf [of "cache_stored c now p d v"] cache_stored_wf [of c d now p v]
  by (auto simp: cache_put_eq) (simp add: cache_stored_def)

interpretation rc: version_cache cache_view cache_inv cache_get cache_put cache_invalidate
proof unfold_locales
  fix c now p v c' d
  assume "cache_get c now p v = (c', Some d)"
  then show "\<exists>w. cache_view c p = Some (d, w) \<and> version_matches w v"
    by (auto simp: cache_get_def cache_view_def split: option.splits if_splits)
next
  fix c now p v q x
  assume "cache_view (fst (cache_get c now p v)) q = Some x"
  then show "cache_view c q = Some x"
    by (auto simp: cache_get_def cache_view_def cache_evict_def split: option.splits if_splits)
next
  fix c now p d v q x
  assume "cache_inv c" "cache_view (cache_put c now p d v) q = Some x"
  then show "q = p \<and> x = (d, v) \<or> cache_view c q = Some x"
    by (auto simp: cache_view_def cache_inv_def cache_ok_def dest: cache_wf_items)
next
  fix c p q
  show "cache_view (cache_invalidate c p) q = (if q = p then None else cache_view c q)"
    by (auto simp: cache_view_def cache_invalidate_def cache_evict_def split: option.splits)
next
  fix c now p v
  assume "cache_inv c"
  then show "cache_inv (fst (cache_get c now p v))"
    using cache_get_ok [of c now p v]
    by (auto simp: cache_inv_def cache_get_def cache_evict_def split: option.splits)
next
  fix c now p d v
  assume "cache_inv c"
  then show "cache_inv (cache_put c now p d v)"
    using cache_put_ok cache_put_limits by (simp add: cache_inv_def cache_ok_def)
next
  fix c p
  assume "cache_inv c"
  then show "cache_inv (cache_invalidate c p)"
    using cache_invalidate_ok [of c p]
    by (auto simp: cache_inv_def cache_invalidate_def cache_evict_def split: option.splits)
qed

lemma invalidate_prefix_view_aux:
  "cache_view (fold (\<lambda>p d. if in_tree prefix p then cache_invalidate d p else d) ps c) q =
     (if q \<in> set ps \<and> in_tree prefix q then None else cache_view c q)"
  by (induction ps arbitrary: c) (auto simp: rc.invalidate_view)

lemma invalidate_prefix_view:
  "cache_wf c \<Longrightarrow> cache_view (cache_invalidate_prefix c prefix) q =
     (if in_tree prefix q then None else cache_view c q)"
proof -
  assume "cache_wf c"
  then have "q \<notin> set (rc_order c) \<Longrightarrow> cache_view c q = None"
    by (auto simp: cache_wf_def cache_view_def)
  then show ?thesis
    by (auto simp: cache_invalidate_prefix_def invalidate_prefix_view_aux)
qed

lemma invalidate_prefix_inv_aux:
  "cache_inv c \<Longrightarrow> cache_inv (fold (\<lambda>p d. if in_tree prefix p then cache_invalidate d p else d) ps c)"
  by (induction ps arbitrary: c) (auto intro: rc.inv_invalidate)

lemma invalidate_prefix_inv: "cache_inv c \<Longrightarrow> cache_inv (cache_invalidate_prefix c prefix)"
  by (simp add: cache_invalidate_prefix_def invalidate_prefix_inv_aux)

lemma run_cache_inv:
  "cache_inv c \<Longrightarrow> cache_inv (fst (run_cache cache_get cache_put cache_invalidate c ops))"
proof (induction ops arbitrary: c)
  case (Cons x ops)
  show ?case
  proof (cases x)
    case (Op_Get now p v)
    obtain c' r where g: "cache_get c now p v = (c', r)" by fastforce
    then have "cache_inv c'" using rc.inv_get [OF Cons.prems] by (metis fst_conv)
    with Cons.IH g Op_Get show ?thesis by (cases r) (auto split: prod.splits dest: meta_spec [of _ c'])
  qed (use Cons in \<open>auto intro: rc.inv_put rc.inv_invalidate\<close>)
qed simp

lemma new_read_cache_inv: "cache_inv (new_read_cache a b t)"
  by (simp add: cache_inv_def new_read_cache_ok)
     (simp add: new_read_cache_def default_read_cache_size_def)

lemma cache_put_stored:
  assumes "cache_inv c" "int (length d) \<le> rc_max_file c" "int (length d) \<le> rc_max_size c"
  shows "rc_items (cache_put c now p d v) p = Some \<lparr>ce_data = d, ce_version = v, ce_expires = now + rc_ttl c\<rparr>"
    "rc_ttl (cache_put c now p d v) = rc_ttl c"
proof -
  let ?s = "cache_stored c now p d v"
  have wf: "cache_wf c" "0 \<le> rc_max_size c" using assms by (auto simp: cache_inv_def cache_ok_def)
  have s: "cache_wf ?s" using cache_stored_wf [OF wf(1) assms(2)] .
  have e: "cache_put c now p d v = evict_over ?s" using assms(2) cache_put_eq [OF wf(1)] by simp
  have "rc_order ?s = p # remove1 p (rc_order c)" "entry_size ?s p = int (length d)"
    "rc_max_size ?s = rc_max_size c"
    by (simp_all add: cache_stored_def move_to_front_def entry_size_def)
  then have "rc_items (evict_over ?s) p = rc_items ?s p"
    using evict_over_keeps_front [OF s] assms(3) by simp
  then show "rc_items (cache_put c now p d v) p = Some \<lparr>ce_data = d, ce_version = v, ce_expires = now + rc_ttl c\<rparr>"
    using e by (simp add: cache_stored_def)
  have "rc_max_size ?s = rc_max_size c" "rc_ttl ?s = rc_ttl c" by (simp_all add: cache_stored_def)
  then show "rc_ttl (cache_put c now p d v) = rc_ttl c"
    using evict_over_wf [OF s] wf(2) e by simp
qed

section \<open>Properties\<close>

text \<open>The read cache never exceeds its budget: after any sequence of lookups, stores and
  invalidations on a new cache, its size field is the number of bytes it holds, that is at
  most the limit, no entry exceeds the per-file limit, and the usage order lists each key once.\<close>

theorem read_cache_budget:
  "cache_ok (fst (run_cache cache_get cache_put cache_invalidate (new_read_cache max_size max_file ttl) ops))"
  using run_cache_inv [OF new_read_cache_inv] by (simp add: cache_inv_def)

text \<open>What is stored is found: after \<open>put\<close> of data that fits both limits, a lookup before
  the expiry that asks for the stored version (or for no version) returns the data.\<close>

theorem read_cache_put_get:
  assumes "cache_inv c" "int (length d) \<le> rc_max_file c" "int (length d) \<le> rc_max_size c"
    and "version_matches v w" "rc_ttl c \<le> 0 \<or> later \<le> now + rc_ttl c"
  shows "snd (cache_get (cache_put c now p d v) later p w) = Some d"
  using assms(4,5) cache_put_stored [OF assms(1-3)] by (auto simp: cache_get_def)

theorem read_cache_put_get_witness:
  "snd (cache_get (cache_put (new_read_cache 8 4 60) 100 ''/a'' ''data'' \<lparr>revision = 3, resource_id = ''r''\<rparr>)
     150 ''/a'' \<lparr>revision = 3, resource_id = ''r''\<rparr>) = Some ''data''"
  by (rule read_cache_put_get [OF new_read_cache_inv]) (simp_all add: new_read_cache_def)

text \<open>Eviction is least recently used first: a store keeps the stored path and the most
  recently used of the others, in their order; only a tail of the order is dropped.\<close>

theorem read_cache_evicts_lru:
  assumes "cache_inv c" "int (length d) \<le> rc_max_file c"
  shows "\<exists>k. rc_order (cache_put c now p d v) = take k (p # remove1 p (rc_order c))"
proof -
  have wf: "cache_wf c" using assms(1) by (simp add: cache_inv_def cache_ok_def)
  have "rc_order (cache_stored c now p d v) = p # remove1 p (rc_order c)"
    by (simp add: cache_stored_def move_to_front_def)
  then show ?thesis
    using evict_over_order [OF cache_stored_wf [OF wf assms(2)], of now p v] assms(2) cache_put_eq [OF wf]
    by simp
qed

theorem read_cache_evicts_lru_witness:
  "\<exists>k. rc_order (cache_put (cache_put (new_read_cache 5 4 0) 1 ''/a'' ''xxxx'' no_version) 2 ''/b'' ''yy'' no_version)
     = take k (''/b'' # remove1 ''/b'' (rc_order (cache_put (new_read_cache 5 4 0) 1 ''/a'' ''xxxx'' no_version)))"
proof -
  have i: "cache_inv (cache_put (new_read_cache 5 4 0) 1 ''/a'' ''xxxx'' no_version)"
    by (rule rc.inv_put [OF new_read_cache_inv])
  have "rc_max_file (cache_put (new_read_cache 5 4 0) 1 ''/a'' ''xxxx'' no_version) = 4"
    by code_simp
  then show ?thesis by (intro read_cache_evicts_lru [OF i]) simp
qed

text \<open>Lookups never invent data: each answer in a run of a new cache was stored for that path
  with a version matching the one asked for.\<close>

theorem read_cache_invents_nothing:
  "\<forall>(p, w, d) \<in> set (snd (run_cache cache_get cache_put cache_invalidate (new_read_cache max_size max_file ttl) ops)).
     \<exists>now v. Op_Put now p d v \<in> set ops \<and> version_matches v w"
proof -
  have "rc.coherent (\<lambda>p v d. \<exists>now. Op_Put now p d v \<in> set ops) (new_read_cache max_size max_file ttl)"
    by (simp add: rc.coherent_def cache_view_def new_read_cache_def)
  from rc.run_answers [OF new_read_cache_inv this, of ops] show ?thesis by fastforce
qed

theorem read_cache_invents_nothing_witness:
  "snd (run_cache cache_get cache_put cache_invalidate (new_read_cache 8 4 60)
     [Op_Put 1 ''/a'' ''data'' no_version, Op_Get 2 ''/a'' no_version]) = [(''/a'', no_version, ''data'')]
   \<and> (\<exists>now v. Op_Put now ''/a'' ''data'' v \<in> set [Op_Put 1 ''/a'' ''data'' no_version, Op_Get 2 ''/a'' no_version])"
proof -
  have r: "snd (run_cache cache_get cache_put cache_invalidate (new_read_cache 8 4 60)
     [Op_Put 1 ''/a'' ''data'' no_version, Op_Get 2 ''/a'' no_version]) = [(''/a'', no_version, ''data'')]"
    by code_simp
  then show ?thesis
    using read_cache_invents_nothing [of 8 4 60 "[Op_Put 1 ''/a'' ''data'' no_version, Op_Get 2 ''/a'' no_version]"]
    by auto
qed

text \<open>The last store of a path that was kept: its time, data and version.  A store over the
  per-file limit changes nothing, an invalidation forgets the path.\<close>

fun last_kept :: "int \<Rightarrow> (string \<Rightarrow> (int \<times> string \<times> object_version) option) \<Rightarrow> cache_op list \<Rightarrow>
    string \<Rightarrow> (int \<times> string \<times> object_version) option" where
  "last_kept lim m [] = m"
| "last_kept lim m (Op_Get now p v # ops) = last_kept lim m ops"
| "last_kept lim m (Op_Put now p d v # ops) =
     last_kept lim (if int (length d) > lim then m else m(p \<mapsto> (now, d, v))) ops"
| "last_kept lim m (Op_Invalidate p # ops) = last_kept lim (m(p := None)) ops"

definition holds_last :: "read_cache \<Rightarrow> (string \<Rightarrow> (int \<times> string \<times> object_version) option) \<Rightarrow> bool" where
  "holds_last c m \<longleftrightarrow> (\<forall>p e. rc_items c p = Some e \<longrightarrow>
     m p = Some (ce_expires e - rc_ttl c, ce_data e, ce_version e))"

lemma holds_last_put:
  assumes "cache_inv c" "holds_last c m"
  shows "holds_last (cache_put c now p d v) (if int (length d) > rc_max_file c then m else m(p \<mapsto> (now, d, v)))
    \<and> rc_ttl (cache_put c now p d v) = rc_ttl c \<and> rc_max_file (cache_put c now p d v) = rc_max_file c"
proof (cases "int (length d) > rc_max_file c")
  case True
  then show ?thesis using assms(2) by (simp add: cache_put_def)
next
  case False
  have wf: "cache_wf c" "0 \<le> rc_max_size c" using assms(1) by (simp_all add: cache_inv_def cache_ok_def)
  let ?s = "cache_stored c now p d v"
  have e: "cache_put c now p d v = evict_over ?s" using cache_put_eq [OF wf(1)] False by simp
  have f: "rc_ttl ?s = rc_ttl c" "rc_max_file ?s = rc_max_file c" "rc_max_size ?s = rc_max_size c"
    by (simp_all add: cache_stored_def)
  have l: "rc_ttl (evict_over ?s) = rc_ttl c" "rc_max_file (evict_over ?s) = rc_max_file c"
    using evict_over_wf [OF cache_stored_wf [OF wf(1)], of d now p v] False wf(2) f by auto
  have "holds_last (evict_over ?s) (m(p \<mapsto> (now, d, v)))"
    using assms(2) l(1) by (auto simp: holds_last_def cache_stored_def dest!: evict_over_items split: if_splits)
  then show ?thesis using False e l by simp
qed

lemma holds_last_run:
  "cache_inv c \<Longrightarrow> holds_last c m \<Longrightarrow>
   holds_last (fst (run_cache cache_get cache_put cache_invalidate c ops)) (last_kept (rc_max_file c) m ops)
   \<and> rc_ttl (fst (run_cache cache_get cache_put cache_invalidate c ops)) = rc_ttl c"
proof (induction ops arbitrary: c m)
  case (Cons x ops)
  show ?case
  proof (cases x)
    case (Op_Get now p v)
    obtain c' r where g: "cache_get c now p v = (c', r)" by fastforce
    have i: "cache_inv c'" using rc.inv_get [OF Cons.prems(1), of now p v] g by simp
    have f: "rc_ttl c' = rc_ttl c" "rc_max_file c' = rc_max_file c" "holds_last c' m"
      using g Cons.prems(2)
      by (auto simp: cache_get_def cache_evict_def holds_last_def split: option.splits if_splits)
    show ?thesis using Cons.IH [OF i f(3)] f g Op_Get by (auto split: prod.splits option.splits)
  next
    case (Op_Put now p d v)
    then show ?thesis
      using Cons.IH [OF rc.inv_put [OF Cons.prems(1)], of now p d v] holds_last_put [OF Cons.prems, of now p d v] by auto
  next
    case (Op_Invalidate p)
    have "holds_last (cache_invalidate c p) (m(p := None)) \<and> rc_ttl (cache_invalidate c p) = rc_ttl c
      \<and> rc_max_file (cache_invalidate c p) = rc_max_file c"
      using Cons.prems(2) by (auto simp: cache_invalidate_def cache_evict_def holds_last_def split: option.splits)
    then show ?thesis
      using Cons.IH [OF rc.inv_invalidate [OF Cons.prems(1)], of p] Op_Invalidate by auto
  qed
qed simp

text \<open>C9: After any run of a new cache a lookup answers only with the data of the last store
  of its path that was kept and that no invalidation followed: the stored version matches the
  one asked for, and with a positive lifetime the store is no older than that.  (A store over
  the per-file limit is not kept and leaves the previous one in place.)\<close>

theorem read_cache_answers_stored:
  "case snd (cache_get (fst (run_cache cache_get cache_put cache_invalidate (new_read_cache max_size max_file ttl) ops)) now p w) of
     None \<Rightarrow> True
   | Some d \<Rightarrow> \<exists>t v. last_kept (rc_max_file (new_read_cache max_size max_file ttl)) Map.empty ops p = Some (t, d, v)
       \<and> version_matches v w
       \<and> (rc_ttl (new_read_cache max_size max_file ttl) \<le> 0 \<or> now \<le> t + rc_ttl (new_read_cache max_size max_file ttl))"
proof -
  let ?c = "new_read_cache max_size max_file ttl"
  have "holds_last ?c Map.empty" by (simp add: holds_last_def new_read_cache_def)
  from holds_last_run [OF new_read_cache_inv this, of ops] show ?thesis
    by (auto simp: cache_get_def holds_last_def split: option.splits)
qed

text \<open>The witness stores twice, then a store that is too long, and looks the path up in time.\<close>

theorem read_cache_answers_stored_witness:
  "snd (cache_get (fst (run_cache cache_get cache_put cache_invalidate (new_read_cache 8 4 60)
     [Op_Put 1 ''/a'' ''old'' no_version, Op_Put 2 ''/a'' ''data'' no_version, Op_Put 3 ''/a'' ''longer'' no_version]))
     62 ''/a'' no_version) = Some ''data''
   \<and> (\<exists>t v. last_kept (rc_max_file (new_read_cache 8 4 60)) Map.empty
        [Op_Put 1 ''/a'' ''old'' no_version, Op_Put 2 ''/a'' ''data'' no_version, Op_Put 3 ''/a'' ''longer'' no_version] ''/a''
        = Some (t, ''data'', v) \<and> version_matches v no_version)"
proof -
  let ?ops = "[Op_Put 1 ''/a'' ''old'' no_version, Op_Put 2 ''/a'' ''data'' no_version, Op_Put 3 ''/a'' ''longer'' no_version]"
  have r: "snd (cache_get (fst (run_cache cache_get cache_put cache_invalidate (new_read_cache 8 4 60) ?ops))
     62 ''/a'' no_version) = Some ''data''"
    by code_simp
  then show ?thesis
    using read_cache_answers_stored [where max_size = 8 and max_file = 4 and ttl = 60 and ops = ?ops and now = 62
        and p = "''/a''" and w = no_version, unfolded r option.case] by blast
qed

text \<open>A store that exceeds the per-file limit leaves the previous entry of the path in place,
  and a lookup that knows no version still answers with that outdated content.\<close>

theorem read_cache_oversized_put_stale:
  assumes "cache_inv c" "int (length new) > rc_max_file c"
    and "rc_items c p = Some e" "rc_ttl c \<le> 0 \<or> later \<le> ce_expires e"
  shows "snd (cache_get (cache_put c now p new v) later p no_version) = Some (ce_data e) \<and> ce_data e \<noteq> new"
proof -
  have "version_matches (ce_version e) no_version"
    by (simp add: version_matches_def version_known_def no_version_def)
  moreover have "int (length (ce_data e)) \<le> rc_max_file c"
    using assms(1,3) by (simp add: cache_inv_def cache_ok_def cache_wf_def)
  ultimately show ?thesis
    using assms(2-4) by (auto simp: cache_put_def cache_get_def)
qed

theorem read_cache_oversized_put_stale_witness:
  "snd (cache_get (cache_put (cache_put (new_read_cache 8 4 60) 1 ''/a'' ''old'' no_version) 2 ''/a'' ''newer'' no_version)
     3 ''/a'' no_version) = Some ''old''"
proof -
  let ?c = "cache_put (new_read_cache 8 4 60) 1 ''/a'' ''old'' no_version"
  let ?e = "\<lparr>ce_data = ''old'', ce_version = no_version, ce_expires = 1 + rc_ttl (new_read_cache 8 4 60)\<rparr>"
  have i: "cache_inv ?c" by (rule rc.inv_put [OF new_read_cache_inv])
  have e: "rc_items ?c ''/a'' = Some ?e"
    by (rule cache_put_stored [OF new_read_cache_inv]) (simp_all add: new_read_cache_def)
  have "rc_max_file ?c = 4" by code_simp
  then show ?thesis
    using read_cache_oversized_put_stale [OF i _ e, of "''newer''" 3 2 no_version]
    by (simp add: new_read_cache_def)
qed

end
