(* ===== verification/Dirty_Ranges.thy ===== *)
theory Dirty_Ranges
  imports Prelude
begin

text \<open>
  The dirty byte ranges of an open file (\<open>internal/fs/fuse_mount.go\<close>):
  \<open>mergeFuseDirtyRanges\<close>, \<open>fuseDirtyParts\<close>, the size tests of \<open>shouldPatchFuseWrite\<close>
  and the part reader \<open>patchUpload\<close> hands to \<open>PatchFile\<close>.  A range is half open.  The
  lemmas show that merging keeps exactly the covered bytes in a sorted, separated list, that
  the dirty parts are the parts that hold a dirty byte, and that replacing just these parts
  of the old object gives the new content.
\<close>

section \<open>Ranges and their order\<close>

datatype dirty_range = Dirty_Range (dr_start: int) (dr_end: int)

instantiation dirty_range :: linorder
begin

definition less_eq_dirty_range :: "dirty_range \<Rightarrow> dirty_range \<Rightarrow> bool" where
  "less_eq_dirty_range a b \<longleftrightarrow>
     (if dr_start a = dr_start b then dr_end a \<le> dr_end b else dr_start a < dr_start b)"

definition less_dirty_range :: "dirty_range \<Rightarrow> dirty_range \<Rightarrow> bool" where
  "less_dirty_range a b \<longleftrightarrow>
     (if dr_start a = dr_start b then dr_end a < dr_end b else dr_start a < dr_start b)"

instance
  by standard (auto simp: less_eq_dirty_range_def less_dirty_range_def dirty_range.expand
      split: if_splits)

end

definition covered :: "dirty_range list \<Rightarrow> int \<Rightarrow> bool" where
  "covered rs x \<longleftrightarrow> (\<exists>r\<in>set rs. dr_start r \<le> x \<and> x < dr_end r)"

definition range_ok :: "dirty_range \<Rightarrow> bool" where
  "range_ok r \<longleftrightarrow> 0 \<le> dr_start r \<and> dr_start r \<le> dr_end r"

definition separated :: "dirty_range list \<Rightarrow> bool" where
  "separated rs \<longleftrightarrow> sorted_wrt (\<lambda>a b. dr_end a < dr_start b) rs"

lemma covered_simps [simp]:
  "\<not> covered [] x"
  "covered (r # rs) x \<longleftrightarrow> dr_start r \<le> x \<and> x < dr_end r \<or> covered rs x"
  "covered (rs @ ss) x \<longleftrightarrow> covered rs x \<or> covered ss x"
  "covered (rev rs) x \<longleftrightarrow> covered rs x"
  by (auto simp: covered_def)

section \<open>Merging\<close>

fun clean_ranges :: "dirty_range list \<Rightarrow> dirty_range list" where
  "clean_ranges [] = []"
| "clean_ranges (r # rs) =
     (let s = (if dr_start r < 0 then 0 else dr_start r) in
      if dr_end r < s then clean_ranges rs else Dirty_Range s (dr_end r) # clean_ranges rs)"

text \<open>The loop over the sorted ranges; \<open>out\<close> is the output so far, last element first.\<close>

fun coalesce :: "dirty_range list \<Rightarrow> dirty_range list \<Rightarrow> dirty_range list" where
  "coalesce out [] = rev out"
| "coalesce [] (r # rs) = coalesce [r] rs"
| "coalesce (l # ls) (r # rs) =
     (if dr_start r > dr_end l then coalesce (r # l # ls) rs
      else if dr_end r > dr_end l then coalesce (Dirty_Range (dr_start l) (dr_end r) # ls) rs
      else coalesce (l # ls) rs)"

definition merge_dirty_ranges :: "dirty_range list \<Rightarrow> dirty_range list" where
  "merge_dirty_ranges rs = (if rs = [] then [] else coalesce [] (sort (clean_ranges rs)))"

lemma clean_ranges_ok: "r \<in> set (clean_ranges rs) \<Longrightarrow> range_ok r"
  by (induction rs) (auto simp: range_ok_def Let_def split: if_splits)

lemma covered_clean: "covered (clean_ranges rs) x \<longleftrightarrow> 0 \<le> x \<and> covered rs x"
  by (induction rs) (auto simp: Let_def)

lemma covered_sort: "covered (sort rs) x \<longleftrightarrow> covered rs x"
  by (simp add: covered_def)

lemma covered_coalesce:
  "sorted rs \<Longrightarrow> \<forall>l\<in>set (take 1 out). \<forall>r\<in>set rs. dr_start l \<le> dr_start r \<Longrightarrow>
   covered (coalesce out rs) x \<longleftrightarrow> covered out x \<or> covered rs x"
proof (induction out rs rule: coalesce.induct)
  case (2 r rs)
  then show ?case by (force simp: less_eq_dirty_range_def split: if_splits)
next
  case (3 l ls r rs)
  have "\<forall>r'\<in>set rs. dr_start r \<le> dr_start r'"
    using "3.prems"(1) by (auto simp: less_eq_dirty_range_def split: if_splits)
  then show ?case using 3 by auto
qed simp

lemma coalesce_separated:
  "sorted rs \<Longrightarrow> separated (rev out) \<Longrightarrow> \<forall>r\<in>set (out @ rs). range_ok r \<Longrightarrow>
   \<forall>l\<in>set (take 1 out). \<forall>r\<in>set rs. dr_start l \<le> dr_start r \<Longrightarrow>
   separated (coalesce out rs) \<and> (\<forall>r\<in>set (coalesce out rs). range_ok r)"
proof (induction out rs rule: coalesce.induct)
  case (1 out)
  then show ?case by simp
next
  case (2 r rs)
  then show ?case by (force simp: separated_def less_eq_dirty_range_def split: if_splits)
next
  case (3 l ls r rs)
  have mono: "\<forall>r'\<in>set rs. dr_start r \<le> dr_start r'"
    using "3.prems"(1) by (auto simp: less_eq_dirty_range_def split: if_splits)
  have ok: "range_ok l" "range_ok r" using "3.prems"(3) by auto
  have ls: "\<forall>k\<in>set ls. dr_end k < dr_start l" "separated (rev ls)"
    using "3.prems"(2) by (auto simp: separated_def sorted_wrt_append)
  show ?case
  proof (cases "dr_start r > dr_end l")
    case True
    then have "separated (rev (r # l # ls))"
      using ls ok "3.prems"(2) by (auto simp: separated_def sorted_wrt_append range_ok_def)
    then show ?thesis using 3 True mono by auto
  next
    case False
    then show ?thesis
      using 3 mono ok ls by (auto simp: separated_def sorted_wrt_append range_ok_def)
  qed
qed

lemma covered_merge: "covered (merge_dirty_ranges rs) x \<longleftrightarrow> 0 \<le> x \<and> covered rs x"
  by (simp add: merge_dirty_ranges_def covered_coalesce covered_sort covered_clean)

lemma merge_separated:
  "separated (merge_dirty_ranges rs) \<and> (\<forall>r\<in>set (merge_dirty_ranges rs). range_ok r)"
  using coalesce_separated [of "sort (clean_ranges rs)" "[]"]
  by (auto simp: merge_dirty_ranges_def separated_def clean_ranges_ok)

lemma separated_sorted: "separated rs \<Longrightarrow> \<forall>r\<in>set rs. range_ok r \<Longrightarrow> sorted rs"
  by (induction rs) (auto simp: separated_def less_eq_dirty_range_def range_ok_def)

lemma clean_ranges_id: "\<forall>r\<in>set rs. range_ok r \<Longrightarrow> clean_ranges rs = rs"
  by (induction rs) (auto simp: range_ok_def Let_def)

lemma coalesce_id: "separated (rev out @ rs) \<Longrightarrow> coalesce out rs = rev out @ rs"
  by (induction out rs rule: coalesce.induct) (auto simp: separated_def sorted_wrt_append)

lemma merge_id: "separated rs \<Longrightarrow> \<forall>r\<in>set rs. range_ok r \<Longrightarrow> merge_dirty_ranges rs = rs"
  by (simp add: merge_dirty_ranges_def clean_ranges_id separated_sorted sorted_sort_id coalesce_id)

section \<open>Dirty parts\<close>

definition part_interval :: "int \<Rightarrow> int \<Rightarrow> dirty_range \<Rightarrow> int list" where
  "part_interval ps new_size r =
     (if dr_start r \<ge> new_size then []
      else let e0 = (if dr_end r > new_size then new_size else dr_end r);
               e = (if e0 \<le> dr_start r then dr_start r + 1 else e0);
               first = quot (dr_start r) ps + 1;
               last = quot (e - 1) ps + 1
           in [first..last])"

definition fuse_dirty_parts :: "dirty_range list \<Rightarrow> int \<Rightarrow> int \<Rightarrow> int list" where
  "fuse_dirty_parts rs part_size_bytes new_size =
     sort (remdups (concat (map (part_interval (max part_size_bytes 1) new_size) (merge_dirty_ranges rs))))"

lemma fuse_dirty_parts_sorted: "sorted (fuse_dirty_parts rs ps n) \<and> distinct (fuse_dirty_parts rs ps n)"
  by (simp add: fuse_dirty_parts_def)

lemma set_fuse_dirty_parts:
  "p \<in> set (fuse_dirty_parts rs ps n) \<longleftrightarrow>
   (\<exists>r\<in>set (merge_dirty_ranges rs). p \<in> set (part_interval (max ps 1) n r))"
  by (auto simp: fuse_dirty_parts_def)

lemma part_interval_iff:
  assumes "range_ok r" "0 < ps"
  shows "p \<in> set (part_interval ps n r) \<longleftrightarrow> dr_start r < n \<and>
     dr_start r div ps + 1 \<le> p \<and>
     p \<le> (max (min (dr_end r) n) (dr_start r + 1) - 1) div ps + 1"
proof -
  have q: "quot (dr_start r) ps = dr_start r div ps"
    "0 \<le> e \<Longrightarrow> quot e ps = e div ps" for e
    using assms by (auto simp: quot_nonneg range_ok_def)
  have "(if (if dr_end r > n then n else dr_end r) \<le> dr_start r then dr_start r + 1
         else if dr_end r > n then n else dr_end r) = max (min (dr_end r) n) (dr_start r + 1)"
    if "dr_start r < n"
    using that by auto
  moreover have "0 \<le> max (min (dr_end r) n) (dr_start r + 1) - 1"
    using assms(1) by (auto simp: range_ok_def)
  ultimately show ?thesis
    by (auto simp: part_interval_def Let_def q)
qed

lemma dirty_part_of_covered:
  assumes "covered rs x" "0 \<le> x" "x < n" "0 < ps"
  shows "x div ps + 1 \<in> set (fuse_dirty_parts rs ps n)"
proof -
  obtain r where r: "r \<in> set (merge_dirty_ranges rs)" "dr_start r \<le> x" "x < dr_end r"
    using assms covered_merge [of rs x] by (auto simp: covered_def)
  have ok: "range_ok r" using merge_separated r(1) by blast
  have "dr_start r div ps \<le> x div ps" using r assms(4) by (simp add: zdiv_mono1)
  moreover have "x div ps \<le> (max (min (dr_end r) n) (dr_start r + 1) - 1) div ps"
    using r assms by (intro zdiv_mono1) auto
  ultimately have "x div ps + 1 \<in> set (part_interval ps n r)"
    using part_interval_iff [OF ok assms(4)] r assms by auto
  moreover have "max ps 1 = ps" using assms(4) by simp
  ultimately show ?thesis using r by (auto simp: set_fuse_dirty_parts)
qed

lemma dirty_part_bounds:
  assumes "p \<in> set (fuse_dirty_parts rs ps n)" "0 < ps"
  shows "1 \<le> p \<and> (p - 1) * ps < n"
proof -
  have "max ps 1 = ps" using assms(2) by simp
  then obtain r where r: "r \<in> set (merge_dirty_ranges rs)" "p \<in> set (part_interval ps n r)"
    using assms(1) by (auto simp: set_fuse_dirty_parts)
  have ok: "range_ok r" using merge_separated r(1) by blast
  let ?e = "max (min (dr_end r) n) (dr_start r + 1) - 1"
  have p: "dr_start r < n" "dr_start r div ps + 1 \<le> p" "p \<le> ?e div ps + 1"
    using r part_interval_iff [OF ok assms(2)] by auto
  have "0 \<le> dr_start r div ps" using ok assms(2) by (simp add: range_ok_def pos_imp_zdiv_nonneg_iff)
  then have "1 \<le> p" using p by simp
  have "(p - 1) * ps \<le> ?e div ps * ps" using p(3) assms(2) by (intro mult_right_mono) auto
  also have "\<dots> \<le> ?e"
    using pos_mod_sign [OF assms(2), of ?e] by (simp add: minus_mod_eq_div_mult [symmetric])
  also have "\<dots> < n" using p(1) by auto
  finally show ?thesis using \<open>1 \<le> p\<close> by simp
qed

section \<open>Patching an object part by part\<close>

text \<open>
  \<open>patch_read_part data ps\<close> is the closure \<open>patchUpload\<close> passes to \<open>PatchFile\<close>: the bytes
  of part \<open>part_number\<close> of the new content, filled with zero bytes up to the size the
  plan asks for.  \<open>part_len\<close> is the requested size.
\<close>

definition patch_read_part :: "string \<Rightarrow> int \<Rightarrow> int \<Rightarrow> int \<Rightarrow> string" where
  "patch_read_part data ps part_number part_len =
     (let offset = (part_number - 1) * ps; len = int (length data) in
      if offset \<ge> len then replicate (nat part_len) (CHR 0x00)
      else let e = (if offset + part_len > len then len else offset + part_len);
               piece = take (nat part_len) (take (nat (e - offset)) (drop (nat offset) data))
           in piece @ replicate (nat part_len - length piece) (CHR 0x00))"

text \<open>
  The contract of the service's patch operation, as the request states it: an object of
  \<open>new_size\<close> bytes is put together from parts of \<open>ps\<close> bytes (the last one shorter), the
  listed parts from what the client uploads, every other part copied from the old object.
\<close>

definition patched_object :: "string \<Rightarrow> nat \<Rightarrow> nat \<Rightarrow> int list \<Rightarrow> (int \<Rightarrow> int \<Rightarrow> string) \<Rightarrow> string" where
  "patched_object old new_size ps dirty read_part =
     concat (map (\<lambda>i. if int i + 1 \<in> set dirty
                      then read_part (int i + 1) (int (min ps (new_size - i * ps)))
                      else take (min ps (new_size - i * ps)) (drop (i * ps) old))
       [0..<(new_size + ps - 1) div ps])"

lemma patch_read_part_chunk:
  assumes "i * ps < length data"
  shows "patch_read_part data (int ps) (int i + 1) (int (min ps (length data - i * ps))) = chunk ps i data"
proof -
  let ?k = "min ps (length data - i * ps)"
  have "int i * int ps = int (i * ps)" by simp
  moreover have "int (i * ps) + int ?k \<le> int (length data)" using assms by linarith
  moreover have "length (take ?k (drop (i * ps) data)) = ?k" by simp
  moreover have "take ?k (drop (i * ps) data) = chunk ps i data"
    by (simp add: chunk_def min_def)
  ultimately show ?thesis
    using assms by (simp add: patch_read_part_def Let_def del: of_nat_mult of_nat_min)
qed

lemma patched_object_eq:
  assumes len: "length old = length data" and ps: "0 < ps"
    and same: "\<And>x. x < length data \<Longrightarrow> \<not> covered rs (int x) \<Longrightarrow> old ! x = data ! x"
  shows "patched_object old (length data) ps (fuse_dirty_parts rs (int ps) (int (length data)))
           (patch_read_part data (int ps)) = data"
proof -
  let ?n = "length data" let ?d = "fuse_dirty_parts rs (int ps) (int ?n)"
  let ?k = "(?n + ps - 1) div ps"
  have piece: "(if int i + 1 \<in> set ?d
        then patch_read_part data (int ps) (int i + 1) (int (min ps (?n - i * ps)))
        else take (min ps (?n - i * ps)) (drop (i * ps) old)) = chunk ps i data" if "i < ?k" for i
  proof -
    have lt: "i * ps < ?n"
    proof -
      have "Suc i * ps \<le> ?k * ps" using that by (intro mult_le_mono1) simp
      also have "\<dots> \<le> ?n + ps - 1" by (rule div_times_less_eq_dividend)
      finally show ?thesis using ps by simp
    qed
    show ?thesis
    proof (cases "int i + 1 \<in> set ?d")
      case True
      then show ?thesis using patch_read_part_chunk [OF lt] by simp
    next
      case False
      have "chunk ps i old = chunk ps i data"
      proof (rule nth_equalityI)
        fix j assume j: "j < length (chunk ps i old)"
        then have jb: "j < ps" "i * ps + j < ?n" using len by (auto simp: length_chunk)
        have "int (i * ps + j) div int ps = int i"
          using jb ps by (simp flip: of_nat_mult of_nat_add zdiv_int)
        then have "\<not> covered rs (int (i * ps + j))"
          using False dirty_part_of_covered [of rs "int (i * ps + j)" "int ?n" "int ps"] jb ps
          by (auto simp del: of_nat_add of_nat_mult)
        then show "chunk ps i old ! j = chunk ps i data ! j"
          using same [OF jb(2)] nth_chunk [OF j] nth_chunk [of j ps i data] j len
          by (simp add: length_chunk)
      qed (simp add: length_chunk len)
      moreover have "take (min ps (?n - i * ps)) (drop (i * ps) old) = chunk ps i old"
        using len by (simp add: chunk_def min_def)
      ultimately show ?thesis using False by simp
    qed
  qed
  have "patched_object old ?n ps ?d (patch_read_part data (int ps)) =
      concat (map (\<lambda>i. chunk ps i data) [0..<?k])"
    unfolding patched_object_def using piece by (intro arg_cong [where f = concat] map_cong) auto
  also have "\<dots> = data"
  proof (rule concat_chunks)
    have "?n + ps - 1 < ?k * ps + ps"
      using dividend_less_div_times [OF ps, of "?n + ps - 1"] by simp
    then show "?n \<le> ?k * ps" by linarith
  qed
  finally show ?thesis .
qed

section \<open>Properties\<close>

text \<open>Merging dirty ranges keeps exactly the dirty bytes: the result covers a non-negative
  offset iff some range of the input does, it is sorted with a gap between any two ranges,
  and merging it again changes nothing.\<close>

theorem merge_dirty_ranges_correct:
  "(\<forall>x. covered (merge_dirty_ranges rs) x = (0 \<le> x \<and> covered rs x))
   \<and> separated (merge_dirty_ranges rs) \<and> sorted (merge_dirty_ranges rs)
   \<and> merge_dirty_ranges (merge_dirty_ranges rs) = merge_dirty_ranges rs"
  using covered_merge merge_separated separated_sorted merge_id by blast

text \<open>The dirty parts sent to the service are listed in increasing order without
  repetition, each is a part of the new object, and every dirty byte below the new size lies
  in a listed part.\<close>

theorem fuse_dirty_parts_cover:
  assumes "0 < ps"
  shows "sorted (fuse_dirty_parts rs ps n) \<and> distinct (fuse_dirty_parts rs ps n)
    \<and> (\<forall>p\<in>set (fuse_dirty_parts rs ps n). 1 \<le> p \<and> (p - 1) * ps < n)
    \<and> (\<forall>x. 0 \<le> x \<longrightarrow> x < n \<longrightarrow> covered rs x \<longrightarrow> x div ps + 1 \<in> set (fuse_dirty_parts rs ps n))"
  using fuse_dirty_parts_sorted dirty_part_bounds [OF _ assms] dirty_part_of_covered [OF _ _ _ assms]
  by blast

theorem fuse_dirty_parts_cover_witness:
  "(0::int) < 4 \<and> fuse_dirty_parts [Dirty_Range 9 11, Dirty_Range 0 2] 4 12 = [1, 3]
   \<and> sorted (fuse_dirty_parts [Dirty_Range 9 11, Dirty_Range 0 2] 4 12)"
proof -
  have h: "(0::int) < 4" by simp
  have "fuse_dirty_parts [Dirty_Range 9 11, Dirty_Range 0 2] 4 12 = [1, 3]" by code_simp
  with h fuse_dirty_parts_cover [OF h, of "[Dirty_Range 9 11, Dirty_Range 0 2]" 12] show ?thesis
    by blast
qed

text \<open>C7: A patch upload rebuilds the file: if the old object has the new size and agrees with the
  new content on every byte outside the dirty ranges, then uploading only the dirty parts and
  copying the rest of the old object yields exactly the new content.\<close>

theorem patch_upload_rebuilds_content:
  assumes "length old = length data" "0 < ps"
    and "\<forall>x < length data. \<not> covered rs (int x) \<longrightarrow> old ! x = data ! x"
  shows "patched_object old (length data) ps (fuse_dirty_parts rs (int ps) (int (length data)))
           (patch_read_part data (int ps)) = data"
  using patched_object_eq assms by blast

theorem patch_upload_rebuilds_content_witness:
  "patched_object ''aaaaaaaa'' 8 4 (fuse_dirty_parts [Dirty_Range 5 6] 4 8) (patch_read_part ''aaaaabaa'' 4)
     = ''aaaaabaa''"
proof -
  have "\<forall>x < length ''aaaaabaa''. \<not> covered [Dirty_Range 5 6] (int x) \<longrightarrow> ''aaaaaaaa'' ! x = ''aaaaabaa'' ! x"
    by (simp add: All_less_Suc)
  moreover have "length ''aaaaabaa'' = 8" by simp
  ultimately show ?thesis
    using patch_upload_rebuilds_content [of "''aaaaaaaa''" "''aaaaabaa''" 4 "[Dirty_Range 5 6]"]
    by (simp only: of_nat_numeral) simp
qed

end
