(* ===== verification/Write_Back.thy ===== *)
theory Write_Back
  imports Read_Cache Dirty_Ranges Go_Errors "HOL-Library.AList" "HOL-Library.List_Lexorder" "HOL-Library.Char_ord"
begin

text \<open>
  The write-back store of a FUSE mount (\<open>internal/fs/fuse_writeback.go\<close>): before an upload the
  bytes of a file and a JSON description of the write are put into the directory
  \<open>pending\<close> under the cache directory, after the upload both files are removed, and the next
  mount uploads what it finds there.

  The directory holds two kinds of files, named by the key of the remote path (\<open>key\<close> stands
  for the hexadecimal SHA-256 sum, nothing is assumed of it): \<open>.dat\<close> files, a map from names
  to bytes, and \<open>.json\<close> files, an association list since the recovery reads all of them.  A
  JSON file is unparsable or holds a description; the encoding is abstracted except for what
  it loses, the bytes of a string that are not valid UTF-8.  Every call into the operating
  system takes its failure from \<open>wb_io\<close>; a failing \<open>atomicWriteFile\<close> leaves the target as it
  was.  The upload is a state transformer, so that what reaches the service, and in which
  order, can be stated.
\<close>

section \<open>Identities, descriptions and the directory\<close>

record mount_identity =
  id_profile :: string
  id_file_system_name :: string
  id_tenant_id :: string
  id_endpoint :: string
  id_remote_path :: string
  id_mount_path :: string
  id_api_key_fingerprint :: string

record wb_meta =
  wb_path :: string
  wb_size :: int
  wb_base_size :: int
  wb_mtime :: int
  wb_created :: int
  wb_identity :: mount_identity
  wb_base_version :: object_version
  wb_dirty :: "dirty_range list"

datatype json_file = Unparsable go_error | Described wb_meta

record wb_dir =
  wb_data :: "string \<Rightarrow> string option"
  wb_metas :: "(string \<times> json_file) list"

record wb_store =
  ws_dir :: string
  ws_max_bytes :: int
  ws_identity :: mount_identity

definition default_write_back_max_bytes :: int where
  "default_write_back_max_bytes = 67108864"

definition new_write_back_store :: "string \<Rightarrow> int \<Rightarrow> mount_identity \<Rightarrow> wb_store option" where
  "new_write_back_store dir max_bytes ident =
     (if dir = [] \<or> max_bytes = 0 then None
      else Some \<lparr>ws_dir = path_join [dir, ''pending''],
             ws_max_bytes = (if max_bytes < 0 then default_write_back_max_bytes else max_bytes),
             ws_identity = ident\<rparr>)"

definition data_path :: "(string \<Rightarrow> string) \<Rightarrow> string \<Rightarrow> string" where
  "data_path key p = key p @ ''.dat''"

definition meta_path :: "(string \<Rightarrow> string) \<Rightarrow> string \<Rightarrow> string" where
  "meta_path key p = key p @ ''.json''"

definition json_identity :: "mount_identity \<Rightarrow> mount_identity" where
  "json_identity i =
     \<lparr>id_profile = json_string (id_profile i),
      id_file_system_name = json_string (id_file_system_name i),
      id_tenant_id = json_string (id_tenant_id i),
      id_endpoint = json_string (id_endpoint i),
      id_remote_path = json_string (id_remote_path i),
      id_mount_path = json_string (id_mount_path i),
      id_api_key_fingerprint = json_string (id_api_key_fingerprint i)\<rparr>"

definition json_meta :: "wb_meta \<Rightarrow> wb_meta" where
  "json_meta m = m\<lparr>wb_path := json_string (wb_path m),
     wb_identity := json_identity (wb_identity m),
     wb_base_version := (wb_base_version m)\<lparr>resource_id := json_string (resource_id (wb_base_version m))\<rparr>\<rparr>"

section \<open>Calls into the operating system\<close>

datatype write_step = W_Mkdir | W_Create_Temp | W_Write | W_Sync | W_Close | W_Chmod | W_Rename

record wb_io =
  io_mkdir :: "go_error option"
  io_write :: "string \<Rightarrow> write_step \<Rightarrow> go_error option"
  io_remove :: "string \<Rightarrow> go_error option"
  io_read :: "string \<Rightarrow> go_error option"

definition no_faults :: wb_io where
  "no_faults = \<lparr>io_mkdir = None, io_write = (\<lambda>_ _. None), io_remove = (\<lambda>_. None), io_read = (\<lambda>_. None)\<rparr>"

fun first_error :: "('a \<Rightarrow> go_error option) \<Rightarrow> 'a list \<Rightarrow> go_error option" where
  "first_error f [] = None"
| "first_error f (x # xs) = (case f x of Some e \<Rightarrow> Some e | None \<Rightarrow> first_error f xs)"

text \<open>The error of \<open>atomicWriteFile\<close>; the target holds the new bytes iff there is none.\<close>

definition atomic_write_file :: "wb_io \<Rightarrow> string \<Rightarrow> go_error option" where
  "atomic_write_file io target =
     first_error (io_write io target) [W_Mkdir, W_Create_Temp, W_Write, W_Sync, W_Close, W_Chmod, W_Rename]"

definition os_remove :: "wb_io \<Rightarrow> string \<Rightarrow> bool \<Rightarrow> go_error option" where
  "os_remove io name present =
     (case io_remove io name of
        Some e \<Rightarrow> Some (PathErr ''remove'' name e)
      | None \<Rightarrow> if present then None else Some (PathErr ''remove'' name (Sentinel Err_Not_Exist)))"

fun os_is_not_exist :: "go_error \<Rightarrow> bool" where
  "os_is_not_exist (PathErr _ _ e) = (e = Sentinel Err_Not_Exist)"
| "os_is_not_exist e = (e = Sentinel Err_Not_Exist)"

section \<open>The operations\<close>

definition wb_put ::
  "(string \<Rightarrow> string) \<Rightarrow> wb_io \<Rightarrow> int \<times> int \<Rightarrow> wb_store \<Rightarrow> wb_dir \<Rightarrow> string \<Rightarrow> string
     \<Rightarrow> object_version \<Rightarrow> int \<Rightarrow> dirty_range list \<Rightarrow> wb_dir \<times> go_error option" where
  "wb_put key io now st d p data bv bs dr =
     (case io_mkdir io of
        Some e \<Rightarrow> (d, Some (Wrapf (Fmt ''create FUSE write-back cache %q: %w'' [Lit (ws_dir st), error_text e]) e))
      | None \<Rightarrow>
        (let m = \<lparr>wb_path = p, wb_size = int (length data), wb_base_size = bs,
                  wb_mtime = fst now, wb_created = snd now, wb_identity = ws_identity st,
                  wb_base_version = bv, wb_dirty = dr\<rparr>
         in case atomic_write_file io (data_path key p) of
              Some e \<Rightarrow> (d, Some (Wrapf (Fmt ''write pending FUSE data for %q: %w'' [Lit p, error_text e]) e))
            | None \<Rightarrow>
              (let d1 = d\<lparr>wb_data := (wb_data d)(data_path key p \<mapsto> data)\<rparr>
               in case atomic_write_file io (meta_path key p) of
                    Some e \<Rightarrow> (d1, Some (Wrapf (Fmt ''write pending FUSE metadata for %q: %w'' [Lit p, error_text e]) e))
                  | None \<Rightarrow>
                    (d1\<lparr>wb_metas := AList.update (meta_path key p) (Described (json_meta m)) (wb_metas d)\<rparr>, None))))"

definition validate_meta :: "wb_store \<Rightarrow> wb_meta \<Rightarrow> go_error option" where
  "validate_meta st m =
     (if wb_identity m \<noteq> ws_identity st then
        Some (Msg (Fmt ''pending FUSE metadata for %q belongs to a different mount identity; use the matching --cache-dir or remove %q''
          [Lit (wb_path m), Lit (ws_dir st)]))
      else if wb_size m < 0 then
        Some (Msg (Fmt ''pending FUSE metadata for %q has invalid size %d'' [Lit (wb_path m), Lit (int_digits (wb_size m))]))
      else None)"

text \<open>\<open>os.Remove\<close> with the error ignored when the file is absent: whether the file was
  removed, and the error that is left.\<close>

definition remove_if_present :: "wb_io \<Rightarrow> string \<Rightarrow> bool \<Rightarrow> bool \<times> go_error option" where
  "remove_if_present io name present =
     (case os_remove io name present of
        None \<Rightarrow> (True, None)
      | Some e \<Rightarrow> (False, if os_is_not_exist e then None else Some e))"

definition wb_remove ::
  "(string \<Rightarrow> string) \<Rightarrow> wb_io \<Rightarrow> wb_dir \<Rightarrow> string \<Rightarrow> wb_dir \<times> go_error option" where
  "wb_remove key io d p =
     (let dp = data_path key p; mp = meta_path key p;
          (data_gone, data_err) = remove_if_present io dp (wb_data d dp \<noteq> None);
          d1 = (if data_gone then d\<lparr>wb_data := (wb_data d)(dp := None)\<rparr> else d)
      in case data_err of
           Some e \<Rightarrow> (d1, Some (Wrapf (Fmt ''remove pending FUSE data for %q: %w'' [Lit p, error_text e]) e))
         | None \<Rightarrow>
           (let (meta_gone, meta_err) = remove_if_present io mp (map_of (wb_metas d) mp \<noteq> None);
                d2 = (if meta_gone then d1\<lparr>wb_metas := AList.delete mp (wb_metas d)\<rparr> else d1)
            in case meta_err of
                 Some e \<Rightarrow> (d2, Some (Wrapf (Fmt ''remove pending FUSE metadata for %q: %w'' [Lit p, error_text e]) e))
               | None \<Rightarrow> (d2, None)))"

definition read_data_file :: "wb_io \<Rightarrow> wb_dir \<Rightarrow> string \<Rightarrow> go_error + string" where
  "read_data_file io d name =
     (case io_read io name of
        Some e \<Rightarrow> Inl (PathErr ''open'' name e)
      | None \<Rightarrow> (case wb_data d name of
          None \<Rightarrow> Inl (PathErr ''open'' name (Sentinel Err_Not_Exist))
        | Some data \<Rightarrow> Inr data))"

text \<open>The loop of \<open>pending\<close> over the sorted names of the JSON files.\<close>

fun read_metas :: "wb_io \<Rightarrow> wb_dir \<Rightarrow> string list \<Rightarrow> go_error + wb_meta list" where
  "read_metas io d [] = Inr []"
| "read_metas io d (n # ns) =
     (case io_read io n of
        Some e \<Rightarrow> Inl (Wrapf (Fmt ''read pending FUSE metadata %q: %w'' [Lit n, error_text e]) e)
      | None \<Rightarrow>
        (case map_of (wb_metas d) n of
           None \<Rightarrow> Inl (Wrapf (Fmt ''read pending FUSE metadata %q: %w'' [Lit n, error_text (Sentinel Err_Not_Exist)])
             (Sentinel Err_Not_Exist))
         | Some (Unparsable e) \<Rightarrow>
             Inl (Wrapf (Fmt ''parse pending FUSE metadata %q: %w'' [Lit n, error_text e]) e)
         | Some (Described m) \<Rightarrow>
             if wb_path m = [] then Inl (Msg (Fmt ''pending FUSE metadata %q is missing path'' [Lit n]))
             else bind_result (read_metas io d ns) (\<lambda>ms. Inr (m # ms))))"

definition wb_pending :: "wb_io \<Rightarrow> wb_dir \<Rightarrow> go_error + wb_meta list" where
  "wb_pending io d = read_metas io d (sort (map fst (wb_metas d)))"

record pending_stats =
  ps_count :: nat
  ps_bytes :: int

fun stats_loop :: "wb_store \<Rightarrow> wb_meta list \<Rightarrow> pending_stats \<Rightarrow> pending_stats" where
  "stats_loop st [] acc = acc"
| "stats_loop st (m # ms) acc =
     stats_loop st ms
       (if validate_meta st m \<noteq> None then acc
        else \<lparr>ps_count = ps_count acc + 1,
              ps_bytes = (if wb_size m > 0 then wrap64 (ps_bytes acc + wb_size m) else ps_bytes acc)\<rparr>)"

definition wb_pending_stats :: "wb_io \<Rightarrow> wb_store option \<Rightarrow> wb_dir \<Rightarrow> pending_stats" where
  "wb_pending_stats io st d =
     (case st of None \<Rightarrow> \<lparr>ps_count = 0, ps_bytes = 0\<rparr>
      | Some w \<Rightarrow> (case wb_pending io d of
          Inl _ \<Rightarrow> \<lparr>ps_count = 0, ps_bytes = 0\<rparr>
        | Inr ms \<Rightarrow> stats_loop w ms \<lparr>ps_count = 0, ps_bytes = 0\<rparr>))"

type_synonym 's uploader =
  "'s \<Rightarrow> string \<Rightarrow> string \<Rightarrow> object_version \<Rightarrow> int \<Rightarrow> dirty_range list \<Rightarrow> 's \<times> (go_error + object_version)"

definition put_and_upload ::
  "(string \<Rightarrow> string) \<Rightarrow> wb_io \<Rightarrow> int \<times> int \<Rightarrow> 's uploader \<Rightarrow> wb_store option \<Rightarrow> wb_dir \<Rightarrow> 's
     \<Rightarrow> string \<Rightarrow> string \<Rightarrow> object_version \<Rightarrow> int \<Rightarrow> dirty_range list
     \<Rightarrow> wb_dir \<times> 's \<times> (object_version \<times> go_error option)" where
  "put_and_upload key io now upload st d s p data bv bs dr =
     (let direct = (case upload s p data bv bs dr of
           (s', Inl e) \<Rightarrow> (d, s', (no_version, Some e))
         | (s', Inr v) \<Rightarrow> (d, s', (v, None)))
      in case st of None \<Rightarrow> direct
       | Some w \<Rightarrow>
         if int (length data) > ws_max_bytes w then direct
         else (case wb_put key io now w d p data bv bs dr of
             (d1, Some e) \<Rightarrow> (d1, s, (no_version, Some e))
           | (d1, None) \<Rightarrow>
             (case upload s p data bv bs dr of
                (s', Inl e) \<Rightarrow> (d1, s', (no_version, Some e))
              | (s', Inr v) \<Rightarrow> (let (d2, r) = wb_remove key io d1 p in (d2, s', (v, r))))))"

fun recover_loop ::
  "(string \<Rightarrow> string) \<Rightarrow> wb_io \<Rightarrow> 's uploader \<Rightarrow> wb_store \<Rightarrow> wb_meta list \<Rightarrow> wb_dir \<Rightarrow> 's
     \<Rightarrow> wb_dir \<times> 's \<times> go_error option" where
  "recover_loop key io upload st [] d s = (d, s, None)"
| "recover_loop key io upload st (m # ms) d s =
     (case validate_meta st m of
        Some e \<Rightarrow> (d, s, Some e)
      | None \<Rightarrow>
        (case read_data_file io d (data_path key (wb_path m)) of
           Inl e \<Rightarrow> (d, s, Some (Wrapf (Fmt ''read pending write %q: %w'' [Lit (wb_path m), error_text e]) e))
         | Inr data \<Rightarrow>
           if int (length data) \<noteq> wb_size m then
             (d, s, Some (Msg (Fmt ''pending FUSE write %q size mismatch: metadata=%d actual=%d''
               [Lit (wb_path m), Lit (int_digits (wb_size m)), Lit (int_digits (int (length data)))])))
           else
             (case upload s (wb_path m) data (wb_base_version m) (wb_base_size m) (wb_dirty m) of
                (s', Inl e) \<Rightarrow> (d, s', Some (Wrapf (Fmt ''upload pending write %q: %w'' [Lit (wb_path m), error_text e]) e))
              | (s', Inr _) \<Rightarrow>
                (case wb_remove key io d (wb_path m) of
                   (d', Some e) \<Rightarrow> (d', s', Some e)
                 | (d', None) \<Rightarrow> recover_loop key io upload st ms d' s'))))"

definition wb_recover ::
  "(string \<Rightarrow> string) \<Rightarrow> wb_io \<Rightarrow> 's uploader \<Rightarrow> wb_store option \<Rightarrow> wb_dir \<Rightarrow> 's
     \<Rightarrow> wb_dir \<times> 's \<times> (go_error + nat)" where
  "wb_recover key io upload st d s =
     (case st of None \<Rightarrow> (d, s, Inr 0)
      | Some w \<Rightarrow>
        (case wb_pending io d of
           Inl e \<Rightarrow> (d, s, Inl e)
         | Inr ms \<Rightarrow>
           (case recover_loop key io upload w ms d s of
              (d', s', Some e) \<Rightarrow> (d', s', Inl e)
            | (d', s', None) \<Rightarrow> (d', s', Inr (length ms)))))"
section \<open>The store as a map of pending writes\<close>

text \<open>A pending write: its path, bytes, base version, base size and dirty ranges.\<close>

type_synonym wb_write = "string \<times> string \<times> object_version \<times> int \<times> dirty_range list"

definition meta_write :: "wb_dir \<Rightarrow> string \<Rightarrow> wb_meta \<Rightarrow> wb_write" where
  "meta_write d dp m = (wb_path m, the (wb_data d dp), wb_base_version m, wb_base_size m, wb_dirty m)"

definition wb_view :: "wb_dir \<Rightarrow> string \<Rightarrow> wb_write option" where
  "wb_view d k =
     (case map_of (wb_metas d) (k @ ''.json'') of
        Some (Described m) \<Rightarrow> Some (meta_write d (k @ ''.dat'') m)
      | _ \<Rightarrow> None)"

fun entry_ok :: "(string \<Rightarrow> string) \<Rightarrow> wb_store \<Rightarrow> wb_dir \<Rightarrow> string \<times> json_file \<Rightarrow> bool" where
  "entry_ok key st d (n, Unparsable e) = False"
| "entry_ok key st d (n, Described m) =
     (n = meta_path key (wb_path m) \<and> wb_path m \<noteq> [] \<and> wb_identity m = ws_identity st \<and>
      (case wb_data d (data_path key (wb_path m)) of
         None \<Rightarrow> False | Some data \<Rightarrow> int (length data) = wb_size m))"

definition wb_ok :: "(string \<Rightarrow> string) \<Rightarrow> wb_store \<Rightarrow> wb_dir \<Rightarrow> bool" where
  "wb_ok key st d \<longleftrightarrow> distinct (map fst (wb_metas d)) \<and> list_all (entry_ok key st d) (wb_metas d)"

text \<open>The writes the JSON encoding keeps as they are: a path and a version in valid UTF-8.\<close>

definition encodable :: "wb_store \<Rightarrow> string \<Rightarrow> object_version \<Rightarrow> bool" where
  "encodable st p bv \<longleftrightarrow> p \<noteq> [] \<and> json_string p = p \<and> json_identity (ws_identity st) = ws_identity st
     \<and> json_string (resource_id bv) = resource_id bv"

lemma meta_path_eq [simp]: "meta_path key p = meta_path key q \<longleftrightarrow> key p = key q"
  "data_path key p = data_path key q \<longleftrightarrow> key p = key q"
  by (simp_all add: meta_path_def data_path_def)

lemma map_of_ok:
  assumes "wb_ok key st d" "map_of (wb_metas d) n = Some f"
  shows "entry_ok key st d (n, f)"
  using assms map_of_SomeD by (fastforce simp: wb_ok_def list_all_iff)

lemma entry_okE:
  assumes "entry_ok key st d (n, f)"
  obtains m data where "f = Described m" "n = meta_path key (wb_path m)" "wb_path m \<noteq> []"
    "wb_identity m = ws_identity st" "wb_data d (data_path key (wb_path m)) = Some data"
    "int (length data) = wb_size m"
  using assms by (cases f) (auto split: option.splits)
subsection \<open>What a successful put and remove do\<close>

definition put_meta :: "int \<times> int \<Rightarrow> wb_store \<Rightarrow> string \<Rightarrow> string \<Rightarrow> object_version \<Rightarrow> int \<Rightarrow> dirty_range list \<Rightarrow> wb_meta" where
  "put_meta now st p data bv bs dr =
     \<lparr>wb_path = p, wb_size = int (length data), wb_base_size = bs, wb_mtime = fst now,
      wb_created = snd now, wb_identity = ws_identity st, wb_base_version = bv, wb_dirty = dr\<rparr>"

definition stored :: "(string \<Rightarrow> string) \<Rightarrow> wb_dir \<Rightarrow> string \<Rightarrow> string \<Rightarrow> wb_meta \<Rightarrow> wb_dir" where
  "stored key d p data m =
     d\<lparr>wb_data := (wb_data d)(data_path key p \<mapsto> data),
       wb_metas := AList.update (meta_path key p) (Described m) (wb_metas d)\<rparr>"

definition removed :: "(string \<Rightarrow> string) \<Rightarrow> wb_dir \<Rightarrow> string \<Rightarrow> wb_dir" where
  "removed key d p =
     d\<lparr>wb_data := (wb_data d)(data_path key p := None),
       wb_metas := AList.delete (meta_path key p) (wb_metas d)\<rparr>"

lemma wb_put_done:
  assumes "wb_put key io now st d p data bv bs dr = (d', None)"
  shows "d' = stored key d p data (json_meta (put_meta now st p data bv bs dr))"
  using assms by (auto simp: wb_put_def Let_def stored_def put_meta_def split: option.splits)

lemma json_meta_id:
  assumes "encodable st p bv"
  shows "json_meta (put_meta now st p data bv bs dr) = put_meta now st p data bv bs dr"
  using assms by (simp add: encodable_def json_meta_def put_meta_def)

text \<open>The operating system reports a file that exists never as missing.\<close>

definition honest_remove :: "wb_io \<Rightarrow> bool" where
  "honest_remove io \<longleftrightarrow> (\<forall>n. io_remove io n \<noteq> Some (Sentinel Err_Not_Exist))"

lemma map_del_None: "m k = None \<Longrightarrow> m(k := None) = m"
  by auto

lemma delete_absent: "map_of al k = None \<Longrightarrow> AList.delete k al = al"
  by (simp add: AList.delete_eq filter_id_conv map_of_eq_None_iff) force

lemma remove_if_present_cases:
  assumes "honest_remove io" "remove_if_present io n pres = (g, None)"
  shows "g = pres"
  using assms by (auto simp: remove_if_present_def os_remove_def honest_remove_def
      split: option.splits if_splits)

lemma wb_remove_done:
  assumes "wb_remove key io d p = (d', None)" "honest_remove io"
  shows "d' = removed key d p"
proof -
  let ?dp = "data_path key p" and ?mp = "meta_path key p"
  obtain g e where 1: "remove_if_present io ?dp (wb_data d ?dp \<noteq> None) = (g, e)"
    by (rule prod.exhaust)
  obtain h f where 2: "remove_if_present io ?mp (map_of (wb_metas d) ?mp \<noteq> None) = (h, f)"
    by (rule prod.exhaust)
  have e: "e = None" "f = None"
    using assms(1) 1 2 by (auto simp: wb_remove_def Let_def split: option.splits if_splits)
  have g: "g = (wb_data d ?dp \<noteq> None)" "h = (map_of (wb_metas d) ?mp \<noteq> None)"
    using remove_if_present_cases [OF assms(2)] 1 2 e by blast+
  show ?thesis
    using assms(1) 1 2 e g
    by (cases "wb_data d ?dp"; cases "map_of (wb_metas d) ?mp")
      (auto simp: wb_remove_def Let_def removed_def map_del_None delete_absent)
qed

lemma wb_remove_no_faults [simp]: "wb_remove key no_faults d p = (removed key d p, None)"
proof -
  have "honest_remove no_faults" by (simp add: honest_remove_def no_faults_def)
  moreover have "snd (wb_remove key no_faults d p) = None"
    by (simp add: wb_remove_def Let_def remove_if_present_def os_remove_def no_faults_def)
  ultimately show ?thesis
    using wb_remove_done [of key no_faults d p] by (metis prod.collapse)
qed

lemma view_key: "k @ ''.json'' = meta_path key p \<longleftrightarrow> k = key p"
  by (simp add: meta_path_def)

lemma view_key_data: "k @ ''.dat'' = data_path key p \<longleftrightarrow> k = key p"
  by (simp add: data_path_def)

lemma view_stored:
  "wb_view (stored key d p data m) = (wb_view d)(key p \<mapsto> (wb_path m, data, wb_base_version m, wb_base_size m, wb_dirty m))"
  by (rule ext) (auto simp: wb_view_def stored_def update_conv view_key view_key_data meta_write_def
      split: option.splits json_file.splits)

lemma view_removed: "wb_view (removed key d p) = (wb_view d)(key p := None)"
  by (rule ext) (auto simp: wb_view_def removed_def delete_conv view_key view_key_data meta_write_def
      split: option.splits json_file.splits)

lemma entry_ok_cong:
  assumes "entry_ok key st d (n, f)" "n \<noteq> meta_path key p"
    "\<And>q. key q \<noteq> key p \<Longrightarrow> wb_data d' (data_path key q) = wb_data d (data_path key q)"
  shows "entry_ok key st d' (n, f)"
  using assms(1)
proof (rule entry_okE)
  fix m data
  assume m: "f = Described m" "n = meta_path key (wb_path m)" "wb_path m \<noteq> []"
    "wb_identity m = ws_identity st" "wb_data d (data_path key (wb_path m)) = Some data"
    "int (length data) = wb_size m"
  then have "wb_data d' (data_path key (wb_path m)) = Some data" using assms by simp
  then show ?thesis using m by simp
qed

lemma stored_ok:
  assumes "wb_ok key st d" "encodable st p bv"
  shows "wb_ok key st (stored key d p data (put_meta now st p data bv bs dr))"
proof -
  let ?d = "stored key d p data (put_meta now st p data bv bs dr)"
  have distinct: "distinct (map fst (wb_metas ?d))"
    using assms by (simp add: stored_def wb_ok_def distinct_update)
  have "entry_ok key st ?d (n, f)" if nf: "(n, f) \<in> set (wb_metas ?d)" for n f
  proof (cases "n = meta_path key p")
    case True
    have "map_of (wb_metas ?d) n = Some f" using nf distinct by simp
    then have "f = Described (put_meta now st p data bv bs dr)"
      using True by (simp add: stored_def update_conv)
    then show ?thesis using True assms by (simp add: stored_def put_meta_def encodable_def)
  next
    case False
    have "map_of (wb_metas ?d) n = Some f" using nf distinct by simp
    then have "map_of (wb_metas d) n = Some f"
      using False by (simp add: stored_def update_conv)
    then have "entry_ok key st d (n, f)" using map_of_ok assms by blast
    then show ?thesis using False by (rule entry_ok_cong) (simp add: stored_def)
  qed
  then show ?thesis using assms by (auto simp: wb_ok_def list_all_iff stored_def distinct_update)
qed

lemma removed_ok:
  assumes "wb_ok key st d"
  shows "wb_ok key st (removed key d p)"
proof -
  have "entry_ok key st (removed key d p) (n, f)" if "(n, f) \<in> set (wb_metas (removed key d p))" for n f
  proof -
    have "(n, f) \<in> set (wb_metas d)" "n \<noteq> meta_path key p"
      using that by (auto simp: removed_def AList.delete_eq)
    then show ?thesis
      using assms entry_ok_cong [of key st d n f p "removed key d p"]
      by (auto simp: wb_ok_def list_all_iff removed_def)
  qed
  then show ?thesis using assms by (auto simp: wb_ok_def list_all_iff removed_def distinct_delete)
qed
section \<open>Recovery\<close>

definition meta_of :: "wb_dir \<Rightarrow> string \<Rightarrow> wb_meta" where
  "meta_of d n = (case the (map_of (wb_metas d) n) of Described m \<Rightarrow> m)"

definition pending_metas :: "wb_dir \<Rightarrow> wb_meta list" where
  "pending_metas d = (case wb_pending no_faults d of Inl _ \<Rightarrow> [] | Inr ms \<Rightarrow> ms)"

text \<open>The writes the store holds, in the order of the names of their descriptions, and what
  uploading them one after the other does.\<close>

definition pending_writes :: "(string \<Rightarrow> string) \<Rightarrow> wb_dir \<Rightarrow> wb_write list" where
  "pending_writes key d = map (\<lambda>m. meta_write d (data_path key (wb_path m)) m) (pending_metas d)"

fun replay :: "'s uploader \<Rightarrow> wb_write list \<Rightarrow> 's \<Rightarrow> 's" where
  "replay upload [] s = s"
| "replay upload ((p, x, bv, bs, dr) # ws) s = replay upload ws (fst (upload s p x bv bs dr))"

lemma meta_of_ok:
  assumes "wb_ok key st d" "n \<in> fst ` set (wb_metas d)"
  shows "map_of (wb_metas d) n = Some (Described (meta_of d n))"
    "entry_ok key st d (n, Described (meta_of d n))"
proof -
  obtain f where f: "map_of (wb_metas d) n = Some f"
    using assms(2) by (metis map_of_eq_None_iff option.exhaust)
  then have "entry_ok key st d (n, f)" using map_of_ok assms by blast
  then obtain m where m: "f = Described m" by (rule entry_okE)
  then show *: "map_of (wb_metas d) n = Some (Described (meta_of d n))"
    using f by (simp add: meta_of_def)
  show "entry_ok key st d (n, Described (meta_of d n))"
    using map_of_ok [OF assms(1) *] .
qed

lemma read_metas_ok:
  assumes "wb_ok key st d" "set ns \<subseteq> fst ` set (wb_metas d)"
  shows "read_metas no_faults d ns = Inr (map (meta_of d) ns)"
  using assms(2)
proof (induction ns)
  case (Cons n ns)
  have n: "n \<in> fst ` set (wb_metas d)" using Cons.prems by simp
  note mo = meta_of_ok [OF assms(1) n]
  then have "wb_path (meta_of d n) \<noteq> []" by simp
  then show ?case
    using mo(1) Cons by (simp add: no_faults_def)
qed simp

lemma pending_ok:
  assumes "wb_ok key st d"
  shows "wb_pending no_faults d = Inr (map (meta_of d) (sort (map fst (wb_metas d))))"
  using read_metas_ok [OF assms] by (simp add: wb_pending_def)

lemma pending_metas_ok:
  "wb_ok key st d \<Longrightarrow> pending_metas d = map (meta_of d) (sort (map fst (wb_metas d)))"
  using pending_ok by (simp add: pending_metas_def)

lemma pending_metas_facts:
  assumes "wb_ok key st d"
  shows "map (\<lambda>m. meta_path key (wb_path m)) (pending_metas d) = sort (map fst (wb_metas d))"
    and "m \<in> set (pending_metas d) \<Longrightarrow> entry_ok key st d (meta_path key (wb_path m), Described m)"
proof -
  have *: "meta_path key (wb_path (meta_of d n)) = n" if "n \<in> fst ` set (wb_metas d)" for n
    using meta_of_ok(2) [OF assms that] by simp
  then show "map (\<lambda>m. meta_path key (wb_path m)) (pending_metas d) = sort (map fst (wb_metas d))"
    using assms by (auto simp: pending_metas_ok intro: map_idI)
  assume "m \<in> set (pending_metas d)"
  then obtain n where n: "n \<in> fst ` set (wb_metas d)" "m = meta_of d n"
    using assms by (auto simp: pending_metas_ok)
  then show "entry_ok key st d (meta_path key (wb_path m), Described m)"
    using meta_of_ok(2) [OF assms n(1)] by simp
qed

lemma recover_loop_all:
  assumes "\<forall>s p x bv bs dr. is_ok (snd (upload s p x bv bs dr))"
  shows "list_all (\<lambda>m. entry_ok key st d (meta_path key (wb_path m), Described m)) ms \<Longrightarrow>
    \<forall>m\<in>set ms. 0 \<le> wb_size m \<Longrightarrow>
    distinct (map (\<lambda>m. key (wb_path m)) ms) \<Longrightarrow>
    recover_loop key no_faults upload st ms d s =
      (foldl (\<lambda>d m. removed key d (wb_path m)) d ms,
       replay upload (map (\<lambda>m. meta_write d (data_path key (wb_path m)) m) ms) s, None)"
proof (induction ms arbitrary: d s)
  case (Cons m ms)
  let ?d = "removed key d (wb_path m)"
  obtain data where m: "wb_identity m = ws_identity st"
    "wb_data d (data_path key (wb_path m)) = Some data" "int (length data) = wb_size m"
    using Cons.prems(1) by (auto split: option.splits)
  obtain s' v where up: "upload s (wb_path m) data (wb_base_version m) (wb_base_size m) (wb_dirty m) = (s', Inr v)"
    using assms by (metis is_ok_iff prod.collapse)
  have keep: "wb_data ?d (data_path key (wb_path x)) = wb_data d (data_path key (wb_path x))"
    if "x \<in> set ms" for x
  proof -
    have "key (wb_path x) \<noteq> key (wb_path m)"
      using Cons.prems(3) imageI [OF that, of "\<lambda>m. key (wb_path m)"] by auto
    then show ?thesis by (simp add: removed_def)
  qed
  have "list_all (\<lambda>m. entry_ok key st ?d (meta_path key (wb_path m), Described m)) ms"
    using Cons.prems(1) by (auto simp: list_all_iff keep)
  then have rest: "recover_loop key no_faults upload st ms ?d s' =
      (foldl (\<lambda>d m. removed key d (wb_path m)) ?d ms,
       replay upload (map (\<lambda>m. meta_write ?d (data_path key (wb_path m)) m) ms) s', None)"
    using Cons.prems by (intro Cons.IH) auto
  have same: "map (\<lambda>m. meta_write ?d (data_path key (wb_path m)) m) ms
      = map (\<lambda>m. meta_write d (data_path key (wb_path m)) m) ms"
    by (rule map_cong) (auto simp: meta_write_def keep)
  have hd: "meta_write d (data_path key (wb_path m)) m
      = (wb_path m, data, wb_base_version m, wb_base_size m, wb_dirty m)"
    using m by (simp add: meta_write_def)
  have "validate_meta st m = None" "read_data_file no_faults d (data_path key (wb_path m)) = Inr data"
    using m Cons.prems by (auto simp: validate_meta_def read_data_file_def no_faults_def)
  then show ?case
    using m up by (simp add: rest same hd)
qed simp

lemma metas_foldl_removed:
  "wb_metas (foldl (\<lambda>d m. removed key d (wb_path m)) d ms)
   = filter (\<lambda>e. fst e \<notin> (\<lambda>m. meta_path key (wb_path m)) ` set ms) (wb_metas d)"
  by (induction ms arbitrary: d) (auto simp: removed_def AList.delete_eq intro!: filter_cong)

lemma recover_all:
  assumes ok: "wb_ok key st d" and ups: "\<forall>s p x bv bs dr. is_ok (snd (upload s p x bv bs dr))"
  shows "\<exists>d'. wb_recover key no_faults upload (Some st) d s
     = (d', replay upload (pending_writes key d) s, Inr (length (wb_metas d))) \<and> wb_metas d' = []"
proof -
  let ?ms = "pending_metas d"
  have names: "map (\<lambda>m. meta_path key (wb_path m)) ?ms = sort (map fst (wb_metas d))"
    and entries: "\<And>m. m \<in> set ?ms \<Longrightarrow> entry_ok key st d (meta_path key (wb_path m), Described m)"
    using pending_metas_facts [OF ok] by blast+
  have "distinct (map (\<lambda>m. meta_path key (wb_path m)) ?ms)"
    using ok names by (simp add: wb_ok_def)
  then have "distinct (map (\<lambda>m. key (wb_path m)) ?ms)"
    by (simp add: distinct_map inj_on_def)
  moreover have "\<forall>m\<in>set ?ms. 0 \<le> wb_size m"
    using entries by (fastforce split: option.splits)
  ultimately have loop: "recover_loop key no_faults upload st ?ms d s =
      (foldl (\<lambda>d m. removed key d (wb_path m)) d ?ms, replay upload (pending_writes key d) s, None)"
    unfolding pending_writes_def using entries by (intro recover_loop_all [OF ups]) (auto simp: list_all_iff)
  have "(\<lambda>m. meta_path key (wb_path m)) ` set ?ms = fst ` set (wb_metas d)"
    using arg_cong [OF names, of set] by simp
  then have "wb_metas (foldl (\<lambda>d m. removed key d (wb_path m)) d ?ms) = []"
    by (auto simp: metas_foldl_removed filter_empty_conv)
  moreover have "length ?ms = length (wb_metas d)" using arg_cong [OF names, of length] by simp
  moreover have "wb_pending no_faults d = Inr ?ms" using pending_ok [OF ok] by (simp add: pending_metas_def)
  ultimately show ?thesis using loop by (simp add: wb_recover_def)
qed

lemma view_pending:
  assumes "wb_ok key st d" "wb_view d k = Some w"
  shows "w \<in> set (pending_writes key d) \<and> key (fst w) = k"
proof -
  obtain m where m: "map_of (wb_metas d) (k @ ''.json'') = Some (Described m)"
    "w = meta_write d (k @ ''.dat'') m"
    using assms(2) by (auto simp: wb_view_def split: option.splits json_file.splits)
  then have e: "key (wb_path m) = k" using map_of_ok [OF assms(1) m(1)] by (simp add: meta_path_def)
  have "k @ ''.json'' \<in> fst ` set (wb_metas d)" using map_of_SomeD [OF m(1)] by force
  moreover have "meta_of d (k @ ''.json'') = m" using m(1) by (simp add: meta_of_def)
  ultimately have "m \<in> set (pending_metas d)"
    using assms(1) by (auto simp: pending_metas_ok)
  then show ?thesis
    using m(2) e by (auto simp: pending_writes_def data_path_def meta_write_def)
qed
section \<open>The contract of the store\<close>

text \<open>
  What the mount relies on: the store shows a map from keys to pending writes, a put adds the
  write under its key, a removal takes it away, and neither touches another key.  A run is a
  sequence of writes, each with the outcome of its upload; a client that puts before it
  uploads and removes after a successful upload then holds, at any time, exactly the writes
  whose latest upload failed.
\<close>

fun log_run ::
  "('d \<Rightarrow> 'w \<Rightarrow> 'd) \<Rightarrow> ('d \<Rightarrow> 'w \<Rightarrow> 'd) \<Rightarrow> ('w \<times> bool) list \<Rightarrow> 'd \<Rightarrow> 'd" where
  "log_run put rem [] d = d"
| "log_run put rem ((w, up) # ws) d =
     log_run put rem ws (if up then rem (put d w) w else put d w)"

fun last_failed :: "('w \<Rightarrow> 'k) \<Rightarrow> ('w \<times> bool) list \<Rightarrow> ('k \<Rightarrow> 'w option) \<Rightarrow> 'k \<Rightarrow> 'w option" where
  "last_failed key_of [] v = v"
| "last_failed key_of ((w, up) # ws) v =
     last_failed key_of ws (if up then v(key_of w := None) else v(key_of w \<mapsto> w))"

lemma last_failed_failed:
  "last_failed key_of ws v k = Some w \<Longrightarrow> v k \<noteq> Some w \<Longrightarrow> (w, False) \<in> set ws \<and> key_of w = k"
proof (induction ws arbitrary: v)
  case (Cons x ws)
  obtain w' up where x: "x = (w', up)" by (rule prod.exhaust)
  show ?case
  proof (cases "(if up then v(key_of w' := None) else v(key_of w' \<mapsto> w')) k = Some w")
    case True
    then show ?thesis using Cons.prems x by (auto split: if_splits)
  next
    case False
    then show ?thesis using Cons x by simp
  qed
qed simp

locale redo_log =
  fixes view :: "'d \<Rightarrow> 'k \<Rightarrow> 'w option"
    and good :: "'d \<Rightarrow> bool"
    and key_of :: "'w \<Rightarrow> 'k"
    and fits :: "'w \<Rightarrow> bool"
    and put :: "'d \<Rightarrow> 'w \<Rightarrow> 'd"
    and rem :: "'d \<Rightarrow> 'w \<Rightarrow> 'd"
  assumes put_view: "good d \<Longrightarrow> fits w \<Longrightarrow> view (put d w) = (view d)(key_of w \<mapsto> w)"
    and put_good: "good d \<Longrightarrow> fits w \<Longrightarrow> good (put d w)"
    and rem_view: "good d \<Longrightarrow> view (rem d w) = (view d)(key_of w := None)"
    and rem_good: "good d \<Longrightarrow> good (rem d w)"
begin

lemma run_good: "good d \<Longrightarrow> list_all (\<lambda>(w, _). fits w) ws \<Longrightarrow> good (log_run put rem ws d)"
  by (induction ws arbitrary: d) (auto simp: put_good rem_good)

lemma run_view:
  "good d \<Longrightarrow> list_all (\<lambda>(w, _). fits w) ws \<Longrightarrow>
   view (log_run put rem ws d) = last_failed key_of ws (view d)"
  by (induction ws arbitrary: d) (auto simp: put_good rem_good put_view rem_view)

end

text \<open>The store is such a log: \<open>wb_put_ok\<close> and \<open>wb_remove_ok\<close> are its operations when the
  operating system reports no failure.\<close>

definition write_fits :: "wb_store \<Rightarrow> wb_write \<Rightarrow> bool" where
  "write_fits st w = (case w of (p, x, bv, bs, dr) \<Rightarrow> encodable st p bv \<and> int (length x) \<le> ws_max_bytes st)"

definition wb_put_ok :: "(string \<Rightarrow> string) \<Rightarrow> int \<times> int \<Rightarrow> wb_store \<Rightarrow> wb_dir \<Rightarrow> wb_write \<Rightarrow> wb_dir" where
  "wb_put_ok key now st d w = (case w of (p, x, bv, bs, dr) \<Rightarrow> fst (wb_put key no_faults now st d p x bv bs dr))"

definition wb_remove_ok :: "(string \<Rightarrow> string) \<Rightarrow> wb_dir \<Rightarrow> wb_write \<Rightarrow> wb_dir" where
  "wb_remove_ok key d w = fst (wb_remove key no_faults d (fst w))"

lemma wb_put_no_faults [simp]:
  "wb_put key no_faults now st d p x bv bs dr
   = (stored key d p x (json_meta (put_meta now st p x bv bs dr)), None)"
  by (simp add: wb_put_def no_faults_def atomic_write_file_def stored_def put_meta_def Let_def)

interpretation wl: redo_log wb_view "wb_ok key st" "\<lambda>w. key (fst w)" "write_fits st"
  "wb_put_ok key now st" "wb_remove_ok key"
  for key :: "string \<Rightarrow> string" and st :: wb_store and now :: "int \<times> int"
proof
  fix d and w :: wb_write
  assume d: "wb_ok key st d"
  obtain p x bv bs dr where w: "w = (p, x, bv, bs, dr)" by (rule prod_cases5)
  show "wb_view (wb_remove_ok key d w) = (wb_view d)(key (fst w) := None)"
    by (simp add: wb_remove_ok_def view_removed)
  show "wb_ok key st (wb_remove_ok key d w)"
    using d by (simp add: wb_remove_ok_def removed_ok)
  assume "write_fits st w"
  then have e: "encodable st p bv" by (simp add: write_fits_def w)
  show "wb_view (wb_put_ok key now st d w) = (wb_view d)(key (fst w) \<mapsto> w)"
    by (simp add: wb_put_ok_def w json_meta_id [OF e] view_stored) (simp add: put_meta_def)
  show "wb_ok key st (wb_put_ok key now st d w)"
    using stored_ok [OF d e] by (simp add: wb_put_ok_def w json_meta_id [OF e])
qed

text \<open>Writes through \<open>put_and_upload\<close>, one after the other, with the outcomes of the uploads.\<close>

fun run_writes ::
  "(string \<Rightarrow> string) \<Rightarrow> int \<times> int \<Rightarrow> 's uploader \<Rightarrow> wb_store \<Rightarrow> wb_write list \<Rightarrow> wb_dir \<Rightarrow> 's
     \<Rightarrow> wb_dir \<times> 's \<times> bool list" where
  "run_writes key now upload st [] d s = (d, s, [])"
| "run_writes key now upload st ((p, x, bv, bs, dr) # ws) d s =
     (case put_and_upload key no_faults now upload (Some st) d s p x bv bs dr of
        (d1, s1, (_, r)) \<Rightarrow>
          (case run_writes key now upload st ws d1 s1 of
             (d2, s2, oks) \<Rightarrow> (d2, s2, (r = None) # oks)))"

lemma put_and_upload_no_faults:
  assumes "write_fits st (p, x, bv, bs, dr)"
  shows "put_and_upload key no_faults now upload (Some st) d s p x bv bs dr =
    (let d1 = wb_put_ok key now st d (p, x, bv, bs, dr) in
     case upload s p x bv bs dr of
       (s', Inl e) \<Rightarrow> (d1, s', (no_version, Some e))
     | (s', Inr v) \<Rightarrow> (wb_remove_ok key d1 (p, x, bv, bs, dr), s', (v, None)))"
  using assms by (simp add: put_and_upload_def write_fits_def wb_put_ok_def wb_remove_ok_def Let_def
      split: prod.splits sum.splits)

lemma run_writes_log:
  "list_all (write_fits st) ws \<Longrightarrow> run_writes key now upload st ws d s = (d', s', oks) \<Longrightarrow>
   length oks = length ws \<and> d' = log_run (wb_put_ok key now st) (wb_remove_ok key) (zip ws oks) d"
proof (induction ws arbitrary: d s d' s' oks)
  case (Cons w ws)
  obtain p x bv bs dr where w: "w = (p, x, bv, bs, dr)" by (rule prod_cases5)
  obtain s1 u where up: "upload s p x bv bs dr = (s1, u)" by (rule prod.exhaust)
  let ?d1 = "if is_ok u then wb_remove_ok key (wb_put_ok key now st d w) w else wb_put_ok key now st d w"
  obtain d2 s2 os where r: "run_writes key now upload st ws ?d1 s1 = (d2, s2, os)" by (rule prod_cases3)
  have f: "write_fits st (p, x, bv, bs, dr)" using Cons.prems(1) w by simp
  have "d' = d2 \<and> oks = is_ok u # os"
    using Cons.prems(2) r up put_and_upload_no_faults [OF f, of key now upload d s]
    by (cases u) (auto simp: w Let_def)
  then show ?case using Cons.IH [OF _ r] Cons.prems(1) by simp
qed simp
lemma pending_writes_view:
  assumes "wb_ok key st d"
  shows "set (pending_writes key d) = ran (wb_view d)"
proof
  show "ran (wb_view d) \<subseteq> set (pending_writes key d)"
    using view_pending [OF assms] by (auto simp: ran_def)
  show "set (pending_writes key d) \<subseteq> ran (wb_view d)"
  proof
    fix w assume "w \<in> set (pending_writes key d)"
    then obtain m where m: "m \<in> set (pending_metas d)" "w = meta_write d (data_path key (wb_path m)) m"
      by (auto simp: pending_writes_def)
    obtain n where n: "n \<in> fst ` set (wb_metas d)" "m = meta_of d n"
      using m(1) assms by (auto simp: pending_metas_ok)
    have "n = key (wb_path m) @ ''.json''"
      using meta_of_ok(2) [OF assms n(1)] n(2) by (simp add: meta_path_def)
    then have "wb_view d (key (wb_path m)) = Some w"
      using meta_of_ok(1) [OF assms n(1)] n(2) m(2) by (simp add: wb_view_def data_path_def)
    then show "w \<in> ran (wb_view d)" by (rule ranI)
  qed
qed

lemma view_no_metas: "wb_metas d = [] \<Longrightarrow> wb_view d = Map.empty"
  by (rule ext) (simp add: wb_view_def)

lemma pending_writes_sorted:
  assumes "wb_ok key st d"
  shows "sorted (map (\<lambda>w. meta_path key (fst w)) (pending_writes key d))"
proof -
  have "map (\<lambda>w. meta_path key (fst w)) (pending_writes key d)
      = map (\<lambda>m. meta_path key (wb_path m)) (pending_metas d)"
    by (simp add: pending_writes_def meta_write_def)
  then show ?thesis using pending_metas_facts(1) [OF assms] by simp
qed

section \<open>Properties\<close>

definition empty_dir :: wb_dir where
  "empty_dir = \<lparr>wb_data = (\<lambda>_. None), wb_metas = []\<rparr>"

definition sample_identity :: mount_identity where
  "sample_identity = \<lparr>id_profile = ''dev'', id_file_system_name = ''f'', id_tenant_id = [], id_endpoint = ''h'',
     id_remote_path = ''/'', id_mount_path = ''/m'', id_api_key_fingerprint = []\<rparr>"

definition sample_store :: wb_store where
  "sample_store = \<lparr>ws_dir = ''c'', ws_max_bytes = 8, ws_identity = sample_identity\<rparr>"

text \<open>An uploader that keeps the log of the writes and accepts those whose path is not \<open>bad\<close>.\<close>

fun sample_upload :: "string \<Rightarrow> wb_write list uploader" where
  "sample_upload bad s p x bv bs dr =
     (if p = bad then (s, Inl (Msg (Lit ''offline''))) else (s @ [(p, x, bv, bs, dr)], Inr bv))"

lemma sample_encodable:
  "list_all (\<lambda>c. byte_of c < 128) p \<Longrightarrow> p \<noteq> [] \<Longrightarrow> encodable sample_store p no_version"
  by (simp add: encodable_def json_string_plain json_identity_def sample_store_def sample_identity_def
      no_version_def byte_of_def)

lemma empty_dir_ok [simp]: "wb_ok key st empty_dir" "wb_view empty_dir = Map.empty"
  by (simp_all add: wb_ok_def empty_dir_def view_no_metas)

text \<open>C2: The write-back store refines a map of pending writes: over any sequence of writes that
  fit the store, each put before its upload and removed after a successful one, the
  well-formedness of the directory is kept, and the writes it holds at the end are exactly the
  starting ones changed by the run: a path whose latest upload failed is pending with the
  bytes, base version, base size and ranges of that write, a path whose latest upload
  succeeded is not pending.\<close>

theorem write_back_log_refined:
  assumes "wb_ok key st d" "list_all (write_fits st) ws"
    and "run_writes key now upload st ws d s = (d', s', oks)"
  shows "length oks = length ws \<and> wb_ok key st d' \<and>
    wb_view d' = last_failed (\<lambda>w. key (fst w)) (zip ws oks) (wb_view d)"
proof -
  have r: "length oks = length ws" "d' = log_run (wb_put_ok key now st) (wb_remove_ok key) (zip ws oks) d"
    using run_writes_log [OF assms(2,3)] by blast+
  have "list_all (\<lambda>(w, _). write_fits st w) (zip ws oks)"
    using assms(2) by (auto simp: list_all_iff dest: set_zip_leftD)
  then show ?thesis
    using wl.run_good [OF assms(1)] wl.run_view [OF assms(1)] r by simp
qed

theorem write_back_log_refined_witness:
  "case run_writes (\<lambda>p. p) (0, 0) (sample_upload ''/b'') sample_store
      [(''/a'', ''x'', no_version, 0, []), (''/b'', ''yy'', no_version, 0, [])] empty_dir [] of
     (d', s', oks) \<Rightarrow> oks = [True, False] \<and> wb_view d' ''/b'' = Some (''/b'', ''yy'', no_version, 0, [])
       \<and> wb_view d' ''/a'' = None"
proof -
  let ?ws = "[(''/a'', ''x'', no_version, 0, []), (''/b'', ''yy'', no_version, 0, [])] :: wb_write list"
  obtain d' s' oks where r: "run_writes (\<lambda>p. p) (0, 0) (sample_upload ''/b'') sample_store ?ws empty_dir []
      = (d', s', oks)" by (rule prod_cases3)
  have f: "list_all (write_fits sample_store) ?ws"
    by (simp add: write_fits_def sample_encodable byte_of_def) (simp add: sample_store_def)
  have "oks = [True, False]"
    using r f by (auto simp: put_and_upload_no_faults Let_def)
  then show ?thesis
    using write_back_log_refined [OF empty_dir_ok(1) f r] r by simp
qed

text \<open>Writes are logged ahead of their upload, whatever fails: when the put succeeds and the
  upload fails, the error is returned and the write is pending with exactly its bytes and
  base; when the upload succeeds and no error is returned, the path is not pending; in both
  cases the other entries are untouched and the directory stays well-formed.\<close>

theorem write_ahead_of_upload:
  assumes "wb_ok key st d" "encodable st p bv" "int (length x) \<le> ws_max_bytes st" "honest_remove io"
    and "snd (wb_put key io now st d p x bv bs dr) = None"
    and "put_and_upload key io now upload (Some st) d s p x bv bs dr = (d', s', (v, r))"
  shows "s' = fst (upload s p x bv bs dr) \<and>
    (case snd (upload s p x bv bs dr) of
       Inl e \<Rightarrow> r = Some e \<and> wb_ok key st d' \<and> wb_view d' = (wb_view d)(key p \<mapsto> (p, x, bv, bs, dr))
     | Inr v' \<Rightarrow> v = v' \<and> (if r = None then wb_ok key st d' \<and> wb_view d' = (wb_view d)(key p := None) else True))"
proof -
  obtain d1 where put: "wb_put key io now st d p x bv bs dr = (d1, None)"
    using assms(5) by (metis prod.collapse)
  have d1: "d1 = stored key d p x (put_meta now st p x bv bs dr)"
    using wb_put_done [OF put] json_meta_id [OF assms(2)] by simp
  have v1: "wb_view d1 = (wb_view d)(key p \<mapsto> (p, x, bv, bs, dr))"
    by (simp add: d1 view_stored) (simp add: put_meta_def)
  have ok1: "wb_ok key st d1" using stored_ok [OF assms(1,2)] d1 by simp
  obtain s1 u where up: "upload s p x bv bs dr = (s1, u)" by (rule prod.exhaust)
  show ?thesis
  proof (cases u)
    case (Inl e)
    then show ?thesis using assms(3,6) put up ok1 v1 by (auto simp: put_and_upload_def Let_def)
  next
    case (Inr v')
    obtain d2 r' where rem: "wb_remove key io d1 p = (d2, r')" by (rule prod.exhaust)
    have eq: "d' = d2" "s' = s1" "v = v'" "r = r'"
      using assms(3,6) put up rem Inr by (auto simp: put_and_upload_def Let_def)
    show ?thesis
    proof (cases r')
      case None
      then have "d2 = removed key d1 p" using wb_remove_done rem assms(4) by blast
      then show ?thesis using eq up Inr None removed_ok [OF ok1] by (simp add: view_removed v1)
    qed (use eq up Inr in simp)
  qed
qed
theorem write_ahead_of_upload_witness:
  "case put_and_upload (\<lambda>p. p) no_faults (0, 0) (sample_upload ''/a'') (Some sample_store) empty_dir []
      ''/a'' ''xy'' no_version 0 [] of
     (d', s', (v, r)) \<Rightarrow> r = Some (Msg (Lit ''offline'')) \<and> s' = []
       \<and> wb_view d' = [''/a'' \<mapsto> (''/a'', ''xy'', no_version, 0, [])]"
proof -
  let ?k = "\<lambda>p :: string. p"
  obtain d' s' v r where p: "put_and_upload ?k no_faults (0, 0) (sample_upload ''/a'') (Some sample_store) empty_dir []
      ''/a'' ''xy'' no_version 0 [] = (d', s', (v, r))" by (metis prod.collapse)
  have e: "encodable sample_store ''/a'' no_version" by (simp add: sample_encodable byte_of_def)
  have l: "int (length ''xy'') \<le> ws_max_bytes sample_store" by (simp add: sample_store_def)
  have h: "honest_remove no_faults" by (simp add: honest_remove_def no_faults_def)
  have pn: "snd (wb_put ?k no_faults (0, 0) sample_store empty_dir ''/a'' ''xy'' no_version 0 []) = None" by simp
  show ?thesis
    using write_ahead_of_upload [OF empty_dir_ok(1) e l h pn p] p by simp
qed

text \<open>C10: Recovery uploads what is pending and empties the store: on a well-formed directory, when
  the operating system and the service report no failure, it uploads every pending write once,
  in the order of the names of their files, with the bytes, base version and ranges it was put
  with, reports their number, and leaves nothing pending.\<close>

theorem recover_replays_pending:
  assumes "wb_ok key st d" "\<forall>s p x bv bs dr. is_ok (snd (upload s p x bv bs dr))"
    and "wb_recover key no_faults upload (Some st) d s = (d', s', res)"
  shows "res = Inr (length (wb_metas d)) \<and> s' = replay upload (pending_writes key d) s \<and> wb_metas d' = []
    \<and> set (pending_writes key d) = ran (wb_view d)
    \<and> sorted (map (\<lambda>w. meta_path key (fst w)) (pending_writes key d)) \<and> wb_view d' = Map.empty"
  using recover_all [OF assms(1,2), of s] assms(3) pending_writes_view [OF assms(1)]
    pending_writes_sorted [OF assms(1)] view_no_metas [of d'] by auto

theorem recover_replays_pending_witness:
  "fst (snd (wb_recover (\<lambda>p. p) no_faults (\<lambda>s p x bv bs dr. (s @ [(p, x)], Inr bv)) (Some sample_store)
      (stored (\<lambda>p. p) (stored (\<lambda>p. p) empty_dir ''/b'' ''yy'' (put_meta (0, 0) sample_store ''/b'' ''yy'' no_version 0 []))
         ''/a'' ''x'' (put_meta (0, 0) sample_store ''/a'' ''x'' no_version 0 [])) []))
   = [(''/a'', ''x''), (''/b'', ''yy'')]"
proof -
  let ?k = "\<lambda>p :: string. p"
  let ?up = "\<lambda>s p x bv (bs :: int) (dr :: dirty_range list). (s @ [(p :: string, x :: string)], Inr bv :: go_error + object_version)"
  let ?ma = "put_meta (0, 0) sample_store ''/a'' ''x'' no_version 0 []"
  let ?mb = "put_meta (0, 0) sample_store ''/b'' ''yy'' no_version 0 []"
  let ?d = "stored ?k (stored ?k empty_dir ''/b'' ''yy'' ?mb) ''/a'' ''x'' ?ma"
  have ok: "wb_ok ?k sample_store ?d"
    by (intro stored_ok empty_dir_ok sample_encodable) (simp_all add: byte_of_def)
  have up: "\<forall>s p x bv bs dr. is_ok (snd (?up s p x bv bs dr))" by simp
  obtain d' s' res where r: "wb_recover ?k no_faults ?up (Some sample_store) ?d [] = (d', s', res)"
    by (rule prod_cases3)
  have "wb_metas ?d = [(''/b.json'', Described ?mb), (''/a.json'', Described ?ma)]"
    by (simp add: stored_def empty_dir_def meta_path_def)
  moreover have "sort [''/b.json'', ''/a.json''] = [''/a.json'', ''/b.json'' :: string]"
    by (simp add: less_char_def less_eq_char_def) 
  ultimately have "pending_metas ?d = [?ma, ?mb]"
    using pending_metas_ok [OF ok] by (simp add: meta_of_def del: sort_key_simps)
  then have "pending_writes ?k ?d = [(''/a'', ''x'', no_version, 0, []), (''/b'', ''yy'', no_version, 0, [])]"
    by (simp add: pending_writes_def meta_write_def put_meta_def stored_def data_path_def empty_dir_def)
  then show ?thesis
    using recover_replays_pending [OF ok up r] r by simp
qed

text \<open>Removing a finished write is not atomic: when its bytes are removed and the removal of
  its description is interrupted, the write is reported as failed although the upload succeeded,
  and from then on every recovery stops at the entry without uploading anything, so the mount
  cannot start again on this cache directory.\<close>

theorem interrupted_remove_blocks_recovery:
  assumes "encodable st p bv" "int (length x) \<le> ws_max_bytes st"
    and "io_mkdir io = None" "\<And>n w. io_write io n w = None" "io_remove io (data_path key p) = None"
    and "io_remove io (meta_path key p) = Some (Sentinel Err_Permission)"
    and "upload s p x bv bs dr = (s', Inr v)"
    and "put_and_upload key io now upload (Some st) empty_dir s p x bv bs dr = (d', s'', (v', r))"
  shows "s'' = s' \<and> r \<noteq> None \<and>
    (\<exists>e. wb_recover key no_faults upload2 (Some st) d' t = (d', t, Inl e) \<and> errors_is e Err_Not_Exist)"
proof -
  let ?m = "put_meta now st p x bv bs dr"
  let ?d1 = "stored key empty_dir p x ?m"
  have aw: "atomic_write_file io n = None" for n
    using assms(4) by (simp add: atomic_write_file_def)
  then have put: "wb_put key io now st empty_dir p x bv bs dr = (?d1, None)"
    using assms(3) json_meta_id [OF assms(1), of now x bs dr]
    by (simp add: wb_put_def aw stored_def Let_def put_meta_def)
  have d1: "map_of (wb_metas ?d1) (meta_path key p) = Some (Described ?m)"
    "wb_data ?d1 (data_path key p) = Some x"
    by (simp_all add: stored_def empty_dir_def)
  let ?d2 = "?d1\<lparr>wb_data := (wb_data ?d1)(data_path key p := None)\<rparr>"
  have rem: "fst (wb_remove key io ?d1 p) = ?d2 \<and> snd (wb_remove key io ?d1 p) \<noteq> None"
    using assms(5,6) d1 by (simp add: wb_remove_def Let_def remove_if_present_def os_remove_def)
  have d': "d' = ?d2" "s'' = s'" "r \<noteq> None"
    using assms(2,7,8) put rem by (auto simp: put_and_upload_def Let_def split: prod.splits)
  have "p \<noteq> []" using assms(1) by (simp add: encodable_def)
  then have "wb_pending no_faults ?d2 = Inr [?m]"
    by (simp add: wb_pending_def stored_def empty_dir_def no_faults_def) (simp add: put_meta_def)
  moreover have "validate_meta st ?m = None" "wb_path ?m = p"
    by (simp_all add: validate_meta_def put_meta_def)
  moreover have "read_data_file no_faults ?d2 (data_path key p)
      = Inl (PathErr ''open'' (data_path key p) (Sentinel Err_Not_Exist))"
    by (simp add: read_data_file_def no_faults_def)
  ultimately show ?thesis
    using d' by (simp add: wb_recover_def errors_is_def)
qed
theorem interrupted_remove_blocks_recovery_witness:
  "case put_and_upload (\<lambda>p. p)
      (no_faults\<lparr>io_remove := (\<lambda>n. if n = ''/a.json'' then Some (Sentinel Err_Permission) else None)\<rparr>)
      (0, 0) (sample_upload ''/b'') (Some sample_store) empty_dir [] ''/a'' ''x'' no_version 0 [] of
     (d', s', (v, r)) \<Rightarrow> s' = [(''/a'', ''x'', no_version, 0, [])] \<and>
       \<not> is_ok (snd (snd (wb_recover (\<lambda>p. p) no_faults (sample_upload ''/b'') (Some sample_store) d' [])))"
proof -
  let ?k = "\<lambda>p :: string. p"
  let ?io = "no_faults\<lparr>io_remove := (\<lambda>n. if n = ''/a.json'' then Some (Sentinel Err_Permission) else None)\<rparr>"
  obtain d' s' v r where p: "put_and_upload ?k ?io (0, 0) (sample_upload ''/b'') (Some sample_store) empty_dir []
      ''/a'' ''x'' no_version 0 [] = (d', s', (v, r))" by (metis prod.collapse)
  have e: "encodable sample_store ''/a'' no_version" by (simp add: sample_encodable byte_of_def)
  have l: "int (length ''x'') \<le> ws_max_bytes sample_store" by (simp add: sample_store_def)
  have io: "io_mkdir ?io = None" "\<And>n w. io_write ?io n w = None" "io_remove ?io (data_path ?k ''/a'') = None"
    "io_remove ?io (meta_path ?k ''/a'') = Some (Sentinel Err_Permission)"
    by (simp_all add: no_faults_def data_path_def meta_path_def)
  have u: "sample_upload ''/b'' [] ''/a'' ''x'' no_version 0 [] = ([(''/a'', ''x'', no_version, 0, [])], Inr no_version)"
    by simp
  obtain er where "wb_recover ?k no_faults (sample_upload ''/b'') (Some sample_store) d' [] = (d', [], Inl er)"
    "s' = [(''/a'', ''x'', no_version, 0, [])]"
    using interrupted_remove_blocks_recovery [OF e l io u p, of "sample_upload ''/b''" "[]"] by blast
  then show ?thesis using p by simp
qed

text \<open>A write larger than the store's limit goes around the store and leaves an older pending
  write of the path where it is: although the larger write has reached the service, the next
  recovery still uploads the older bytes over it.\<close>

theorem oversized_write_leaves_older_pending:
  assumes "wb_ok key st d" "wb_view d (key p) = Some old" "ws_max_bytes st < int (length x)"
    and "upload s p x bv bs dr = (s', Inr v)"
  shows "put_and_upload key io now upload (Some st) d s p x bv bs dr = (d, s', (v, None)) \<and>
    old \<in> set (pending_writes key d)"
  using assms view_pending [OF assms(1,2)] by (simp add: put_and_upload_def)

theorem oversized_write_leaves_older_pending_witness:
  "put_and_upload (\<lambda>p. p) no_faults (0, 0) (sample_upload ''/b'') (Some sample_store)
     (stored (\<lambda>p. p) empty_dir ''/a'' ''old'' (put_meta (0, 0) sample_store ''/a'' ''old'' no_version 0 []))
     [] ''/a'' ''123456789'' no_version 0 []
   = (stored (\<lambda>p. p) empty_dir ''/a'' ''old'' (put_meta (0, 0) sample_store ''/a'' ''old'' no_version 0 []),
      [(''/a'', ''123456789'', no_version, 0, [])], (no_version, None))"
proof -
  let ?k = "\<lambda>p :: string. p"
  let ?d = "stored ?k empty_dir ''/a'' ''old'' (put_meta (0, 0) sample_store ''/a'' ''old'' no_version 0 [])"
  have ok: "wb_ok ?k sample_store ?d"
    by (intro stored_ok empty_dir_ok sample_encodable) (simp_all add: byte_of_def)
  have v: "wb_view ?d (?k ''/a'') = Some (''/a'', ''old'', no_version, 0, [])"
    by (subst view_stored) (simp add: put_meta_def)
  have l: "ws_max_bytes sample_store < int (length ''123456789'')" by (simp add: sample_store_def)
  have u: "sample_upload ''/b'' [] ''/a'' ''123456789'' no_version 0 []
      = ([(''/a'', ''123456789'', no_version, 0, [])], Inr no_version)" by simp
  show ?thesis
    using oversized_write_leaves_older_pending [where key = ?k and p = "''/a''" and upload = "sample_upload ''/b''",
        OF ok v l u] by blast
qed

text \<open>A path that is not valid UTF-8 is not restored from its description: JSON replaces the
  offending bytes, so after a failed upload of such a file the recovery looks for the bytes
  under another name, fails, and uploads nothing.\<close>

theorem invalid_utf8_name_blocks_recovery:
  assumes "key (json_string p) \<noteq> key p" "json_string p \<noteq> []" "int (length x) \<le> ws_max_bytes st"
    and "json_identity (ws_identity st) = ws_identity st"
    and "snd (upload s p x bv bs dr) = Inl e"
    and "put_and_upload key no_faults now upload (Some st) empty_dir s p x bv bs dr = (d', s', res)"
  shows "wb_data d' (data_path key p) = Some x \<and>
    (\<exists>err. wb_recover key no_faults upload2 (Some st) d' t = (d', t, Inl err) \<and> errors_is err Err_Not_Exist)"
proof -
  let ?m = "json_meta (put_meta now st p x bv bs dr)"
  have d': "d' = stored key empty_dir p x ?m"
    using assms(3,5,6) by (auto simp: put_and_upload_def Let_def split: prod.splits)
  have path: "wb_path ?m = json_string p" "wb_identity ?m = ws_identity st" "0 \<le> wb_size ?m"
    using assms(4) by (simp_all add: json_meta_def put_meta_def)
  have "wb_pending no_faults d' = Inr [?m]"
    using assms(2) path by (simp add: d' wb_pending_def stored_def empty_dir_def no_faults_def)
  moreover have "validate_meta st ?m = None" using path by (simp add: validate_meta_def)
  moreover have "read_data_file no_faults d' (data_path key (json_string p))
      = Inl (PathErr ''open'' (data_path key (json_string p)) (Sentinel Err_Not_Exist))"
    using assms(1) by (simp add: d' read_data_file_def no_faults_def stored_def empty_dir_def)
  ultimately show ?thesis
    by (simp add: wb_recover_def path errors_is_def) (simp add: d' stored_def)
qed

theorem invalid_utf8_name_blocks_recovery_witness:
  "json_string [CHR ''/'', CHR 0xE9] = [CHR ''/'', CHR 0xEF, CHR 0xBF, CHR 0xBD] \<and>
   (case put_and_upload (\<lambda>p. p) no_faults (0, 0) (sample_upload [CHR ''/'', CHR 0xE9]) (Some sample_store)
      empty_dir [] [CHR ''/'', CHR 0xE9] ''x'' no_version 0 [] of
     (d', s', res) \<Rightarrow>
       \<not> is_ok (snd (snd (wb_recover (\<lambda>p. p) no_faults (sample_upload ''/b'') (Some sample_store) d' []))))"
proof -
  let ?k = "\<lambda>p :: string. p"
  let ?p = "[CHR ''/'', CHR 0xE9]"
  have j: "json_string ?p = [CHR ''/'', CHR 0xEF, CHR 0xBF, CHR 0xBD]" by code_simp
  obtain d' s' res where p: "put_and_upload ?k no_faults (0, 0) (sample_upload ?p) (Some sample_store)
      empty_dir [] ?p ''x'' no_version 0 [] = (d', s', res)" by (rule prod_cases3)
  have k: "?k (json_string ?p) \<noteq> ?k ?p" "json_string ?p \<noteq> []" by (simp_all add: j)
  have l: "int (length ''x'') \<le> ws_max_bytes sample_store" by (simp add: sample_store_def)
  have i: "json_identity (ws_identity sample_store) = ws_identity sample_store"
    using sample_encodable [of "''/a''"] by (simp add: encodable_def byte_of_def)
  have u: "snd (sample_upload ?p [] ?p ''x'' no_version 0 []) = Inl (Msg (Lit ''offline''))" by simp
  obtain err where "wb_recover ?k no_faults (sample_upload ''/b'') (Some sample_store) d' [] = (d', [], Inl err)"
    using invalid_utf8_name_blocks_recovery [where key = ?k, OF k l i u p, of "sample_upload ''/b''" "[]"] by blast
  then show ?thesis using p j by simp
qed

end
