(* ===== verification/Fuse_Attr.thy ===== *)
theory Fuse_Attr
  imports Read_Cache Go_Errors "HOL-Library.Word" "HOL-Library.AList" "HOL-Library.List_Lexorder" "HOL-Library.Char_ord"
begin

text \<open>
  What a mount tells the kernel about files: the file information made of the service's two
  stat answers (\<open>fileInfoFromMetadata\<close>, \<open>fileInfoFromStat\<close> in \<open>internal/fs/webdavfs.go\<close>),
  the stat with its fallback, the attributes, inode numbers and directory listings
  (\<open>internal/fs/fuse_mount.go\<close>).  A \<open>FileMode\<close> is a 32-bit word, as are the mode bits the
  kernel gets (\<open>0x1FF\<close> is octal 777, \<open>0x1ED\<close> 755, \<open>0x1A4\<close> 644); times are nanoseconds and \<open>now\<close> is the reading of the clock.
\<close>

unbundle bit_operations_syntax

section \<open>File information\<close>

definition mode_dir :: "32 word" where "mode_dir = 0x80000000"
definition mode_symlink :: "32 word" where "mode_symlink = 0x08000000"
definition perm_mask :: "32 word" where "perm_mask = 0x1FF"

record file_info =
  fi_name :: string
  fi_size :: int
  fi_mode :: "32 word"
  fi_mod_time :: int

definition info_name :: "file_info \<Rightarrow> string" where
  "info_name i = (if fi_name i = [] \<or> fi_name i = ''.'' \<or> fi_name i = ''/'' then ''/'' else path_base (fi_name i))"

definition info_is_dir :: "file_info \<Rightarrow> bool" where
  "info_is_dir i \<longleftrightarrow> fi_mode i AND mode_dir \<noteq> 0"

definition info_is_symlink :: "file_info \<Rightarrow> bool" where
  "info_is_symlink i \<longleftrightarrow> fi_mode i AND mode_symlink \<noteq> 0"

record stat_metadata_response =
  sm_size :: int
  sm_is_dir :: bool
  sm_resource_id :: string
  sm_revision :: int
  sm_mtime :: int

record stat_response =
  sr_size :: int
  sr_is_dir :: bool
  sr_revision :: int
  sr_mtime :: int
  sr_mode :: int
  sr_has_mode :: bool
  sr_resource_id :: string

definition unix_mod_time :: "int \<Rightarrow> int \<Rightarrow> int" where
  "unix_mod_time now v = (if v \<le> 0 then now else v * 1000000000)"

definition file_info_from_metadata :: "int \<Rightarrow> string \<Rightarrow> stat_metadata_response \<Rightarrow> file_info" where
  "file_info_from_metadata now p m =
     \<lparr>fi_name = path_base p, fi_size = sm_size m,
      fi_mode = (if sm_is_dir m then mode_dir OR 0x1ED else 0x1A4),
      fi_mod_time = unix_mod_time now (sm_mtime m)\<rparr>"

definition file_info_from_stat :: "int \<Rightarrow> string \<Rightarrow> stat_response \<Rightarrow> file_info" where
  "file_info_from_stat now p s =
     (let m0 = (if sr_has_mode s then word_of_int (sr_mode s) else 0x1A4 :: 32 word);
          m1 = (if sr_is_dir s
                then (if sr_mode s = 0 then m0 OR mode_dir OR 0x1ED else m0 OR mode_dir)
                else m0)
      in \<lparr>fi_name = path_base p, fi_size = sr_size s, fi_mode = m1,
          fi_mod_time = unix_mod_time now (sr_mtime s)\<rparr>)"

definition version_from_metadata :: "stat_metadata_response \<Rightarrow> object_version" where
  "version_from_metadata m = \<lparr>revision = sm_revision m, resource_id = sm_resource_id m\<rparr>"

definition version_from_stat :: "stat_response \<Rightarrow> object_version" where
  "version_from_stat s = \<lparr>revision = sr_revision s, resource_id = sr_resource_id s\<rparr>"

section \<open>Stat with its fallback\<close>

record remote_stat =
  rs_info :: file_info
  rs_version :: object_version

definition stat_fuse_remote_version ::
  "(string \<Rightarrow> go_error + stat_metadata_response) \<Rightarrow> (string \<Rightarrow> go_error + stat_response)
     \<Rightarrow> int \<Rightarrow> string \<Rightarrow> go_error + remote_stat" where
  "stat_fuse_remote_version stat_metadata stat now p =
     (case stat_metadata p of
        Inr m \<Rightarrow> Inr \<lparr>rs_info = file_info_from_metadata now p m, rs_version = version_from_metadata m\<rparr>
      | Inl e \<Rightarrow>
        if is_api_not_found e then Inl (Sentinel Err_Not_Exist)
        else if should_fallback_stat e then
          (case stat p of
             Inr s \<Rightarrow> Inr \<lparr>rs_info = file_info_from_stat now p s, rs_version = version_from_stat s\<rparr>
           | Inl e2 \<Rightarrow>
             if is_api_not_found e2 then Inl (Sentinel Err_Not_Exist) else Inl (map_webdav_error e2))
        else Inl (map_webdav_error e))"

section \<open>Attributes\<close>

record fuse_attr =
  at_mode :: "32 word"
  at_size :: int
  at_nlink :: int
  at_uid :: int
  at_gid :: int
  at_time :: int

definition s_ifreg :: "32 word" where "s_ifreg = 0x8000"
definition s_ifdir :: "32 word" where "s_ifdir = 0x4000"
definition s_iflnk :: "32 word" where "s_iflnk = 0xA000"

text \<open>\<open>ids\<close> are the user and group the process runs as.\<close>

definition fill_fuse_attr :: "int \<times> int \<Rightarrow> file_info \<Rightarrow> fuse_attr" where
  "fill_fuse_attr ids i =
     (let mode = fi_mode i AND perm_mask;
          (m, sz) = (if info_is_dir i then (s_ifdir OR (if mode = 0 then 0x1ED else mode), 0)
             else if info_is_symlink i then
               (s_iflnk OR (if mode = 0 then 0x1FF else mode), if fi_size i > 0 then fi_size i else 0)
             else (s_ifreg OR (if mode = 0 then 0x1A4 else mode), if fi_size i > 0 then fi_size i else 0))
      in \<lparr>at_mode = m, at_size = sz, at_nlink = 1, at_uid = fst ids, at_gid = snd ids,
          at_time = fi_mod_time i\<rparr>)"

definition fill_fuse_attr_for_handle :: "int \<times> int \<Rightarrow> int \<Rightarrow> string \<Rightarrow> string \<Rightarrow> 32 word \<Rightarrow> fuse_attr" where
  "fill_fuse_attr_for_handle ids now p data mode =
     fill_fuse_attr ids \<lparr>fi_name = path_base p, fi_size = int (length data),
       fi_mode = (if mode = 0 then 0x1A4 else mode), fi_mod_time = now\<rparr>"

definition fill_fuse_attr_from_data :: "int \<times> int \<Rightarrow> int \<Rightarrow> string \<Rightarrow> string \<Rightarrow> fuse_attr" where
  "fill_fuse_attr_from_data ids now p data =
     fill_fuse_attr ids \<lparr>fi_name = path_base p, fi_size = int (length data), fi_mode = 0x1A4, fi_mod_time = now\<rparr>"

text \<open>The FNV hash of the path, in 64-bit arithmetic.\<close>

definition fuse_inode :: "string \<Rightarrow> 64 word" where
  "fuse_inode p =
     (let h = foldl (\<lambda>h c. (h XOR of_nat (byte_of c)) * 1099511628211) 1469598103934665603 p
      in if h < 2 then h + 2 else h)"

definition fuse_stable_attr :: "string \<Rightarrow> file_info \<Rightarrow> 32 word \<times> 64 word" where
  "fuse_stable_attr p i =
     (if info_is_dir i then s_ifdir else if info_is_symlink i then s_iflnk else s_ifreg, fuse_inode p)"

text \<open>\<open>resizeFuseData\<close>; the size is an unsigned 64-bit number, and \<open>make\<close> panics for a length above
  the largest allocation.\<close>

definition resize_fuse_data :: "string \<Rightarrow> nat \<Rightarrow> (errno + string) run" where
  "resize_fuse_data data sz =
     (if int sz > max_int64 then Returns (Inl EFBIG)
      else if sz \<le> length data then Returns (Inr (take sz data))
      else if int sz > max_alloc then Panic
      else Returns (Inr (data @ replicate (sz - length data) (CHR 0x00))))"

section \<open>Directory listings\<close>

record dir_entry =
  de_name :: string
  de_mode :: "32 word"
  de_ino :: "64 word"

definition local_fuse_dir_entry :: "string \<Rightarrow> file_info \<Rightarrow> string \<Rightarrow> dir_entry" where
  "local_fuse_dir_entry name i ino_path =
     \<lparr>de_name = name,
      de_mode = (if info_is_dir i then s_ifdir else if info_is_symlink i then s_iflnk else s_ifreg),
      de_ino = fuse_inode (''local:'' @ ino_path)\<rparr>"

definition skipped_name :: "string \<Rightarrow> bool" where
  "skipped_name n \<longleftrightarrow> n = [] \<or> n = ''.'' \<or> n = ''..'' \<or> CHR ''/'' \<in> set n"

fun add_remote_entries :: "string \<Rightarrow> (string \<times> bool) list \<Rightarrow> (string \<times> dir_entry) list \<Rightarrow> (string \<times> dir_entry) list" where
  "add_remote_entries parent [] m = m"
| "add_remote_entries parent ((n, dir) # es) m =
     add_remote_entries parent es
       (if skipped_name n then m
        else case child_path parent n of
          Inl _ \<Rightarrow> m
        | Inr p \<Rightarrow> AList.update n \<lparr>de_name = n, de_mode = (if dir then s_ifdir else s_ifreg), de_ino = fuse_inode p\<rparr> m)"

fun add_git_entries :: "dir_entry list \<Rightarrow> (string \<times> dir_entry) list \<Rightarrow> (string \<times> dir_entry) list" where
  "add_git_entries [] m = m"
| "add_git_entries (e # es) m = add_git_entries es (AList.update (de_name e) e m)"

text \<open>A local entry whose information cannot be read is skipped (None).\<close>

fun add_local_entries :: "string \<Rightarrow> (string \<times> file_info option) list \<Rightarrow> (string \<times> dir_entry) list \<Rightarrow> (string \<times> dir_entry) list" where
  "add_local_entries parent [] m = m"
| "add_local_entries parent ((n, info) # es) m =
     add_local_entries parent es
       (if skipped_name n then m
        else case info of None \<Rightarrow> m | Some i \<Rightarrow>
          (case child_path parent n of
             Inl _ \<Rightarrow> m
           | Inr p \<Rightarrow> AList.update n (local_fuse_dir_entry n i p) m))"

text \<open>\<open>Readdir\<close>: the listing of the service unless the directory is local only, the git entries
  (or their error), the entries of the local directory if there is one (None if there is
  none, an unreadable one counts as empty).\<close>

definition readdir ::
  "string \<Rightarrow> bool \<Rightarrow> go_error + (string \<times> bool) list \<Rightarrow> go_error + dir_entry list
     \<Rightarrow> (string \<times> file_info option) list option \<Rightarrow> errno + dir_entry list" where
  "readdir parent local_only listing git_entries local_entries =
     (let remote = (if local_only then Inr []
            else case listing of
              Inl e \<Rightarrow> if local_entries = None then Inl (fuse_errno (Some e)) else Inr []
            | Inr es \<Rightarrow> Inr (add_remote_entries parent es []))
      in case remote of
        Inl e \<Rightarrow> Inl e
      | Inr m0 \<Rightarrow>
        (case (case git_entries of
                 Inl e \<Rightarrow> if m0 = [] then Inl (fuse_errno (Some e)) else Inr m0
               | Inr gs \<Rightarrow> Inr (add_git_entries gs m0)) of
           Inl e \<Rightarrow> Inl e
         | Inr m1 \<Rightarrow>
           (let m2 = (case local_entries of None \<Rightarrow> m1 | Some ls \<Rightarrow> add_local_entries parent ls m1)
            in Inr (sort_key de_name (map snd m2)))))"
section \<open>Facts\<close>

lemma fuse_inode_not_reserved: "2 \<le> fuse_inode p"
proof -
  have "2 \<le> (if h < 2 then h + 2 else h)" for h :: "64 word"
  proof (cases "h < 2")
    case True
    then have "unat h < 2" by (simp add: word_less_nat_alt)
    then have "unat h + unat (2 :: 64 word) < 2 ^ LENGTH(64)" by simp
    then have "unat (h + 2) = unat h + 2" using unat_add_lem [of h 2] by simp
    then show ?thesis using True by (simp add: word_le_nat_alt)
  qed simp
  then show ?thesis by (simp add: fuse_inode_def Let_def)
qed

lemma resize_length: "resize_fuse_data data n = Returns (Inr x) \<Longrightarrow> length x = n"
  by (auto simp: resize_fuse_data_def split: if_splits)

lemma resize_keeps: "resize_fuse_data data n = Returns (Inr x) \<Longrightarrow> i < n \<Longrightarrow> i < length data \<Longrightarrow> x ! i = data ! i"
  by (auto simp: resize_fuse_data_def nth_append split: if_splits)

lemma resize_zeros: "resize_fuse_data data n = Returns (Inr x) \<Longrightarrow> length data \<le> i \<Longrightarrow> i < n \<Longrightarrow> x ! i = CHR 0x00"
  by (auto simp: resize_fuse_data_def nth_append split: if_splits)

text \<open>A stat fails with a missing file exactly when one of the two answers says so.\<close>

lemma map_webdav_not_missing: "\<not> is_api_not_found e \<Longrightarrow> \<not> errors_is e Err_Not_Exist \<Longrightarrow>
    \<not> errors_is (map_webdav_error e) Err_Not_Exist"
  by (auto simp: map_webdav_error_def errors_is_def split: option.splits)

section \<open>What a listing shows\<close>

fun remote_view :: "string \<Rightarrow> (string \<times> bool) list \<Rightarrow> string \<Rightarrow> dir_entry option" where
  "remote_view parent [] n = None"
| "remote_view parent ((k, dir) # es) n =
     (case remote_view parent es n of Some e \<Rightarrow> Some e
      | None \<Rightarrow> if k = n \<and> \<not> skipped_name n
          then (case child_path parent n of Inl _ \<Rightarrow> None
                | Inr p \<Rightarrow> Some \<lparr>de_name = n, de_mode = (if dir then s_ifdir else s_ifreg), de_ino = fuse_inode p\<rparr>)
          else None)"

fun git_view :: "dir_entry list \<Rightarrow> string \<Rightarrow> dir_entry option" where
  "git_view [] n = None"
| "git_view (e # es) n = (case git_view es n of Some x \<Rightarrow> Some x | None \<Rightarrow> if de_name e = n then Some e else None)"

fun local_view :: "string \<Rightarrow> (string \<times> file_info option) list \<Rightarrow> string \<Rightarrow> dir_entry option" where
  "local_view parent [] n = None"
| "local_view parent ((k, info) # es) n =
     (case local_view parent es n of Some e \<Rightarrow> Some e
      | None \<Rightarrow> if k = n \<and> \<not> skipped_name n
          then (case info of None \<Rightarrow> None | Some i \<Rightarrow>
            (case child_path parent n of Inl _ \<Rightarrow> None | Inr p \<Rightarrow> Some (local_fuse_dir_entry n i p)))
          else None)"

lemma add_remote_view: "map_of (add_remote_entries parent es m) = map_of m ++ remote_view parent es"
proof (induction parent es m rule: add_remote_entries.induct)
  case (2 parent n dir es m)
  show ?case
    by (rule ext, simp only: add_remote_entries.simps "2.IH")
      (auto simp: map_add_def update_conv split: option.splits sum.splits)
qed (simp add: map_add_def)

lemma add_git_view: "map_of (add_git_entries es m) = map_of m ++ git_view es"
proof (induction es m rule: add_git_entries.induct)
  case (2 e es m)
  show ?case
    by (rule ext, simp only: add_git_entries.simps "2.IH")
      (auto simp: map_add_def update_conv split: option.splits)
qed (simp add: map_add_def)

lemma add_local_view: "map_of (add_local_entries parent es m) = map_of m ++ local_view parent es"
proof (induction parent es m rule: add_local_entries.induct)
  case (2 parent n info es m)
  show ?case
    by (rule ext, simp only: add_local_entries.simps "2.IH")
      (auto simp: map_add_def update_conv split: option.splits sum.splits)
qed (simp add: map_add_def)

definition named_map :: "(string \<times> dir_entry) list \<Rightarrow> bool" where
  "named_map m \<longleftrightarrow> distinct (map fst m) \<and> (\<forall>(n, e) \<in> set m. de_name e = n)"

lemma named_update: "named_map m \<Longrightarrow> de_name e = n \<Longrightarrow> named_map (AList.update n e m)"
proof -
  assume m: "named_map m" "de_name e = n"
  then have d: "distinct (map fst (AList.update n e m))"
    by (simp add: named_map_def distinct_update)
  have "de_name f = k" if "(k, f) \<in> set (AList.update n e m)" for k f
  proof -
    have "map_of (AList.update n e m) k = Some f" using that d by simp
    then have "(if k = n then Some e else map_of m k) = Some f" by (simp add: update_conv split: if_splits)
    then show ?thesis using m map_of_SomeD [of m k f] by (auto simp: named_map_def split: if_splits)
  qed
  with d show ?thesis by (auto simp: named_map_def)
qed

lemma named_remote: "named_map m \<Longrightarrow> named_map (add_remote_entries parent es m)"
  by (induction parent es m rule: add_remote_entries.induct) (auto simp: named_update split: sum.splits)

lemma named_git: "named_map m \<Longrightarrow> named_map (add_git_entries es m)"
  by (induction es m rule: add_git_entries.induct) (auto simp: named_update)

lemma named_local: "named_map m \<Longrightarrow> named_map (add_local_entries parent es m)"
  by (induction parent es m rule: add_local_entries.induct)
    (auto simp: named_update local_fuse_dir_entry_def split: sum.splits option.splits)

lemma named_sorted:
  assumes "named_map m"
  shows "sorted (map de_name (sort_key de_name (map snd m)))"
    "distinct (map de_name (sort_key de_name (map snd m)))"
    "e \<in> set (sort_key de_name (map snd m)) \<longleftrightarrow> map_of m (de_name e) = Some e"
proof -
  have names: "map de_name (map snd m) = map fst m"
    using assms by (auto simp: named_map_def)
  then have "distinct (map de_name (map snd m))"
    using assms by (simp only: named_map_def)
  then have "distinct (map snd m)" "inj_on de_name (set (map snd m))"
    by (simp_all only: distinct_map)
  then show "distinct (map de_name (sort_key de_name (map snd m)))"
    by (simp only: distinct_map distinct_sort set_sort simp_thms)
  show "sorted (map de_name (sort_key de_name (map snd m)))" by simp
  have "e \<in> snd ` set m \<longleftrightarrow> (de_name e, e) \<in> set m"
    using assms by (force simp: named_map_def)
  then show "e \<in> set (sort_key de_name (map snd m)) \<longleftrightarrow> map_of m (de_name e) = Some e"
    using assms by (simp add: named_map_def)
qed

text \<open>A listing that succeeds shows every name once, in order; a name has the entry of the local
  overlay if it is there, else the git entry, else the entry of the service.\<close>

theorem readdir_merges_sources:
  assumes "readdir parent False (Inr es) (Inr gs) ls = Inr out"
  shows "sorted (map de_name out) \<and> distinct (map de_name out) \<and>
    (e \<in> set out) = ((remote_view parent es ++ git_view gs ++
        (case ls of None \<Rightarrow> Map.empty | Some l \<Rightarrow> local_view parent l)) (de_name e) = Some e)"
proof -
  let ?m1 = "add_git_entries gs (add_remote_entries parent es [])"
  let ?m = "case ls of None \<Rightarrow> ?m1 | Some l \<Rightarrow> add_local_entries parent l ?m1"
  have out: "out = sort_key de_name (map snd ?m)"
    using assms by (simp add: readdir_def Let_def)
  have "named_map []" by (simp add: named_map_def)
  then have m: "named_map ?m"
    by (simp add: named_remote named_git named_local split: option.splits)
  have "map_of ?m = remote_view parent es ++ git_view gs ++
        (case ls of None \<Rightarrow> Map.empty | Some l \<Rightarrow> local_view parent l)"
    by (cases ls) (simp_all add: add_remote_view add_git_view add_local_view)
  then show ?thesis using named_sorted [OF m] out by simp
qed

end
