(* ===== verification/Meta_Store.thy ===== *)
theory Meta_Store
  imports Fuse_Attr
begin

text \<open>
  The store of modes and symbolic links a mount keeps beside the service
  (\<open>internal/fs/metastore.go\<close>): one JSON file per profile and file system with a map from
  normalised remote paths to entries.  The map is an association list whose order stands for
  the order a \<open>range\<close> over the Go map takes, which Go leaves open; the file is what a read of
  it yields.  Writing the file goes through JSON, which replaces invalid UTF-8 in keys and
  link targets; the failures of the operating system are parameters.
\<close>

section \<open>Entries and the file\<close>

record meta_entry =
  me_mode :: int
  me_has_mode :: bool
  me_symlink_target :: string
  me_has_symlink :: bool

definition no_entry :: meta_entry where
  "no_entry = \<lparr>me_mode = 0, me_has_mode = False, me_symlink_target = [], me_has_symlink = False\<rparr>"

record meta_doc =
  md_schema :: string
  md_entries :: "(string \<times> meta_entry) list"

definition metadata_schema :: string where "metadata_schema = ''ti.fs.metadata/v1''"

definition empty_doc :: meta_doc where
  "empty_doc = \<lparr>md_schema = metadata_schema, md_entries = []\<rparr>"

text \<open>The store file: absent, unreadable, blank, not JSON, or a document.\<close>

datatype meta_file = Absent | Unreadable go_error | Blank | Not_Json go_error | Document meta_doc

fun profile_name_for_metadata :: "string option \<Rightarrow> string" where
  "profile_name_for_metadata None = ''unknown''"
| "profile_name_for_metadata (Some n) = (if trim_space n = [] then ''unknown'' else trim_space n)"

record fs_profile =
  fp_name :: string
  fp_tenant_id :: string
  fp_resource_name :: string
  fp_cloud_provider :: string
  fp_region_code :: string

definition profile_value :: "fs_profile option \<Rightarrow> (fs_profile \<Rightarrow> string) \<Rightarrow> string" where
  "profile_value p f = (case p of None \<Rightarrow> [] | Some x \<Rightarrow> f x)"

text \<open>\<open>digest\<close> stands for the first eight bytes of the SHA-256 sum in hexadecimal.\<close>

definition new_fs_metadata_store ::
  "(string \<Rightarrow> string) \<Rightarrow> string \<Rightarrow> fs_profile option \<Rightarrow> go_error + string" where
  "new_fs_metadata_store digest home profile =
     (if trim_space home = [] then
        Inl (app_new ''fs.metadata_missing_home'' ''config'' 1 (Lit ''home directory is required for ti fs metadata''))
      else Inr (path_join [home, ''.ti'', ''fs_metadata'',
        digest (''profile='' @ profile_name_for_metadata (map_option fp_name profile)
          @ [CHR 0x00] @ ''tenant='' @ trim_space (profile_value profile fp_tenant_id)
          @ [CHR 0x00] @ ''resource='' @ trim_space (profile_value profile fp_resource_name)
          @ [CHR 0x00] @ ''cloud='' @ trim_space (profile_value profile fp_cloud_provider)
          @ [CHR 0x00] @ ''region='' @ trim_space (profile_value profile fp_region_code)) @ ''.json'']))"

section \<open>Reading and writing\<close>

text \<open>\<open>path\<close> is the path of the file, for the messages.\<close>

fun meta_read :: "string \<Rightarrow> meta_file \<Rightarrow> go_error + meta_doc" where
  "meta_read path Absent = Inr empty_doc"
| "meta_read path (Unreadable e) = Inl (Wrapf (Fmt ''read ti fs metadata %q: %w'' [Lit path, error_text e]) e)"
| "meta_read path Blank = Inr empty_doc"
| "meta_read path (Not_Json e) = Inl (Wrapf (Fmt ''parse ti fs metadata %q: %w'' [Lit path, error_text e]) e)"
| "meta_read path (Document d) = Inr d"

definition json_entry :: "meta_entry \<Rightarrow> meta_entry" where
  "json_entry e = e\<lparr>me_symlink_target := json_string (me_symlink_target e)\<rparr>"

text \<open>The encoder writes the keys in order; the decoder keeps the last of equal keys.\<close>

fun json_entries :: "(string \<times> meta_entry) list \<Rightarrow> (string \<times> meta_entry) list \<Rightarrow> (string \<times> meta_entry) list" where
  "json_entries [] acc = acc"
| "json_entries ((k, e) # es) acc = json_entries es (AList.update (json_string k) (json_entry e) acc)"

definition json_doc :: "meta_doc \<Rightarrow> meta_doc" where
  "json_doc d = d\<lparr>md_schema := json_string (md_schema d), md_entries := json_entries (sort_key fst (md_entries d)) []\<rparr>"

record meta_io =
  mi_mkdir :: "go_error option"
  mi_write :: "go_error option"
  mi_rename :: "go_error option"

definition meta_io_ok :: meta_io where
  "meta_io_ok = \<lparr>mi_mkdir = None, mi_write = None, mi_rename = None\<rparr>"

definition meta_write :: "meta_io \<Rightarrow> meta_file \<Rightarrow> meta_doc \<Rightarrow> meta_file \<times> go_error option" where
  "meta_write io f d =
     (let d1 = (if md_schema d = [] then d\<lparr>md_schema := metadata_schema\<rparr> else d) in
      case mi_mkdir io of
        Some e \<Rightarrow> (f, Some (Wrapf (Fmt ''create ti fs metadata directory: %w'' [error_text e]) e))
      | None \<Rightarrow>
        (case mi_write io of
           Some e \<Rightarrow> (f, Some (Wrapf (Fmt ''write ti fs metadata temp file: %w'' [error_text e]) e))
         | None \<Rightarrow>
           (case mi_rename io of
              Some e \<Rightarrow> (f, Some (Wrapf (Fmt ''replace ti fs metadata file: %w'' [error_text e]) e))
            | None \<Rightarrow> (Document (json_doc d1), None))))"

section \<open>Operations\<close>

text \<open>A store is None for the nil receiver, which the mount has without a metadata store.\<close>

definition meta_lookup :: "string \<Rightarrow> meta_file option \<Rightarrow> string \<Rightarrow> meta_entry option" where
  "meta_lookup path f p =
     (case f of None \<Rightarrow> None | Some file \<Rightarrow>
       (case normalize_remote_path p of
          Inl _ \<Rightarrow> None
        | Inr clean \<Rightarrow>
          (case meta_read path file of Inl _ \<Rightarrow> None | Inr d \<Rightarrow> map_of (md_entries d) clean)))"

text \<open>\<open>update\<close> with the change \<open>fn\<close> of the entry, whose second result asks for its removal.\<close>

definition meta_update ::
  "string \<Rightarrow> meta_io \<Rightarrow> bool \<Rightarrow> (meta_entry \<Rightarrow> meta_entry \<times> bool) \<Rightarrow> meta_file option \<Rightarrow> string
     \<Rightarrow> meta_file option \<times> go_error option" where
  "meta_update path io recursive fn f p =
     (case f of None \<Rightarrow> (None, None) | Some file \<Rightarrow>
       (case normalize_remote_path p of
          Inl e \<Rightarrow> (Some file, Some e)
        | Inr rp \<Rightarrow>
          (case meta_read path file of
             Inl e \<Rightarrow> (Some file, Some e)
           | Inr d \<Rightarrow>
             if recursive then
               map_prod Some id (meta_write io file
                 (d\<lparr>md_entries := filter (\<lambda>(k, _). \<not> (k = rp \<or> has_prefix k (tree_prefix rp))) (md_entries d)\<rparr>))
             else
               (let (changed, gone) = fn (case map_of (md_entries d) rp of None \<Rightarrow> no_entry | Some e \<Rightarrow> e)
                in map_prod Some id (meta_write io file
                  (d\<lparr>md_entries := if gone then AList.delete rp (md_entries d)
                                  else AList.update rp changed (md_entries d)\<rparr>))))))"

definition and_perm :: "int \<Rightarrow> int" where
  "and_perm m = m AND 0x1FF"

definition meta_set_mode :: "string \<Rightarrow> meta_io \<Rightarrow> meta_file option \<Rightarrow> string \<Rightarrow> int \<Rightarrow> meta_file option \<times> go_error option" where
  "meta_set_mode path io f p mode =
     meta_update path io False (\<lambda>e. (e\<lparr>me_mode := and_perm mode, me_has_mode := True\<rparr>, False)) f p"

definition meta_set_symlink :: "string \<Rightarrow> meta_io \<Rightarrow> meta_file option \<Rightarrow> string \<Rightarrow> string \<Rightarrow> meta_file option \<times> go_error option" where
  "meta_set_symlink path io f p target =
     meta_update path io False (\<lambda>e. (e\<lparr>me_mode := 0x1FF, me_has_mode := True,
       me_symlink_target := target, me_has_symlink := True\<rparr>, False)) f p"

definition meta_remove :: "string \<Rightarrow> meta_io \<Rightarrow> meta_file option \<Rightarrow> string \<Rightarrow> bool \<Rightarrow> meta_file option \<times> go_error option" where
  "meta_remove path io f p recursive = meta_update path io recursive (\<lambda>e. (e, True)) f p"

text \<open>The loop of \<open>move\<close> in the order the map is visited.\<close>

fun move_entries :: "string \<Rightarrow> string \<Rightarrow> (string \<times> 'e) list \<Rightarrow> (string \<times> 'e) list \<Rightarrow> (string \<times> 'e) list" where
  "move_entries s t [] acc = acc"
| "move_entries s t ((k, e) # es) acc =
     move_entries s t es
       (if k = s then AList.update t e acc
        else if has_prefix k (tree_prefix s) then AList.update (t @ trim_prefix k s) e acc
        else AList.update k e acc)"

definition meta_move :: "string \<Rightarrow> meta_io \<Rightarrow> meta_file option \<Rightarrow> string \<Rightarrow> string \<Rightarrow> meta_file option \<times> go_error option" where
  "meta_move path io f source target =
     (case f of None \<Rightarrow> (None, None) | Some file \<Rightarrow>
       (case normalize_remote_path source of
          Inl e \<Rightarrow> (Some file, Some e)
        | Inr s \<Rightarrow>
          (case normalize_remote_path target of
             Inl e \<Rightarrow> (Some file, Some e)
           | Inr t \<Rightarrow>
             (case meta_read path file of
                Inl e \<Rightarrow> (Some file, Some e)
              | Inr d \<Rightarrow>
                map_prod Some id (meta_write io file (d\<lparr>md_entries := move_entries s t (md_entries d) []\<rparr>))))))"

definition meta_copy :: "string \<Rightarrow> meta_io \<Rightarrow> meta_file option \<Rightarrow> string \<Rightarrow> string \<Rightarrow> meta_file option \<times> go_error option" where
  "meta_copy path io f source target =
     (case meta_lookup path f source of
        None \<Rightarrow> (f, None)
      | Some entry \<Rightarrow> meta_update path io False (\<lambda>_. (entry, False)) f target)"

definition apply_file_info :: "string \<Rightarrow> meta_file option \<Rightarrow> string \<Rightarrow> file_info \<Rightarrow> file_info" where
  "apply_file_info path f p i =
     (case meta_lookup path f p of
        None \<Rightarrow> i
      | Some e \<Rightarrow>
        (let i1 = (if me_has_mode e
               then i\<lparr>fi_mode := (fi_mode i AND NOT perm_mask) OR word_of_int (and_perm (me_mode e))\<rparr> else i)
         in if me_has_symlink e
            then i1\<lparr>fi_mode := mode_symlink OR 0x1FF, fi_size := int (length (me_symlink_target e))\<rparr> else i1))"

definition symlink_target :: "string \<Rightarrow> meta_file option \<Rightarrow> string \<Rightarrow> string option" where
  "symlink_target path f p =
     (case meta_lookup path f p of
        None \<Rightarrow> None
      | Some e \<Rightarrow> if me_has_symlink e then Some (me_symlink_target e) else None)"

text \<open>The mode part of a description (\<open>applyDescribe\<close>): the mode and whether it is known.\<close>

definition apply_describe :: "string \<Rightarrow> meta_file option \<Rightarrow> string \<Rightarrow> int \<times> bool \<Rightarrow> int \<times> bool" where
  "apply_describe path f p r =
     (case meta_lookup path f p of
        None \<Rightarrow> r
      | Some e \<Rightarrow> if me_has_mode e \<and> \<not> snd r then (me_mode e, True) else r)"
section \<open>The store as a map\<close>

definition meta_view :: "meta_file \<Rightarrow> string \<Rightarrow> meta_entry option" where
  "meta_view f = (case meta_read [] f of Inl _ \<Rightarrow> Map.empty | Inr d \<Rightarrow> map_of (md_entries d))"

definition plain_path :: "string \<Rightarrow> bool" where
  "plain_path p \<longleftrightarrow> normalize_remote_path p = Inr p \<and> \<not> has_suffix p ''/'' \<and> valid_utf8 p"

definition entries_ok :: "(string \<times> meta_entry) list \<Rightarrow> bool" where
  "entries_ok es \<longleftrightarrow> distinct (map fst es) \<and>
     list_all (\<lambda>(k, e). valid_utf8 k \<and> valid_utf8 (me_symlink_target e)) es"

definition meta_ok :: "meta_file \<Rightarrow> bool" where
  "meta_ok f \<longleftrightarrow> (case meta_read [] f of Inl _ \<Rightarrow> False | Inr d \<Rightarrow> valid_utf8 (md_schema d) \<and> entries_ok (md_entries d))"

lemma meta_read_path: "meta_read p f = Inr d \<longleftrightarrow> meta_read q f = Inr d"
  by (cases f) auto

lemma meta_okD:
  assumes "meta_ok f"
  obtains d where "\<And>p. meta_read p f = Inr d" "meta_view f = map_of (md_entries d)"
    "entries_ok (md_entries d)" "valid_utf8 (md_schema d)"
proof -
  obtain d where d: "meta_read [] f = Inr d" "entries_ok (md_entries d)" "valid_utf8 (md_schema d)"
    using assms by (auto simp: meta_ok_def split: sum.splits)
  then have "meta_read p f = Inr d" for p using meta_read_path by blast
  with d that show thesis by (simp add: meta_view_def)
qed

lemma json_entries_map:
  "list_all (\<lambda>(k, e). valid_utf8 k \<and> valid_utf8 (me_symlink_target e)) es \<Longrightarrow>
   map_of (json_entries es acc) = map_of acc ++ map_of (rev es)"
proof (induction es acc rule: json_entries.induct)
  case (2 k e es acc)
  have "json_string k = k" "json_entry e = e"
    using 2 by (simp_all add: json_string_valid json_entry_def)
  then show ?case using 2
    by (auto simp: map_of_append map_add_def update_conv fun_eq_iff split: option.splits)
qed simp

lemma json_entries_distinct:
  "distinct (map fst acc) \<Longrightarrow> distinct (map fst (json_entries es acc))"
  by (induction es acc rule: json_entries.induct) (auto simp: distinct_update)

lemma map_of_rev_distinct: "distinct (map fst es) \<Longrightarrow> map_of (rev es) = map_of es"
  by (simp add: map_of_inject_set distinct_map)

lemma distinct_sort_keys: "distinct (map fst es) \<Longrightarrow> distinct (map fst (sort_key fst es))"
  by (simp add: distinct_map)

lemma map_of_sort_distinct: "distinct (map fst es) \<Longrightarrow> map_of (sort_key fst es) = map_of es"
  by (simp add: map_of_inject_set distinct_map)

lemma entries_ok_of_map:
  assumes "distinct (map fst es')" "map_of es' = map_of es" "entries_ok es"
  shows "entries_ok es'"
proof -
  have "set es' = set es"
    using assms by (simp add: entries_ok_def map_of_inject_set [symmetric])
  then show ?thesis using assms by (auto simp: entries_ok_def list_all_iff)
qed

lemma meta_write_ok:
  assumes "entries_ok es" "valid_utf8 (md_schema d)"
  shows "snd (meta_write meta_io_ok f (d\<lparr>md_entries := es\<rparr>)) = None"
    "meta_ok (fst (meta_write meta_io_ok f (d\<lparr>md_entries := es\<rparr>)))"
    "meta_view (fst (meta_write meta_io_ok f (d\<lparr>md_entries := es\<rparr>))) = map_of es"
proof -
  let ?d = "if md_schema d = [] then d\<lparr>md_entries := es, md_schema := metadata_schema\<rparr> else d\<lparr>md_entries := es\<rparr>"
  have d: "distinct (map fst es)" "list_all (\<lambda>(k, e). valid_utf8 k \<and> valid_utf8 (me_symlink_target e)) es"
    using assms by (simp_all add: entries_ok_def)
  let ?es = "json_entries (sort_key fst es) []"
  have l: "list_all (\<lambda>(k, e). valid_utf8 k \<and> valid_utf8 (me_symlink_target e)) (sort_key fst es)"
    using d by (simp add: list_all_iff)
  have ds: "distinct (map fst (sort_key fst es))"
    using d by (simp add: distinct_sort_keys)
  have m: "map_of ?es = map_of es"
    using json_entries_map [OF l, of "[]"] d ds by (simp add: map_of_rev_distinct map_of_sort_distinct)
  have ok: "entries_ok ?es"
    using entries_ok_of_map [OF _ m assms(1)] json_entries_distinct [of "[]"] by simp
  have w: "meta_write meta_io_ok f (d\<lparr>md_entries := es\<rparr>) = (Document (json_doc ?d), None)"
    by (simp add: meta_write_def meta_io_ok_def Let_def)
  have j: "md_entries (json_doc ?d) = ?es" by (simp add: json_doc_def)
  have "valid_utf8 metadata_schema"
    by (rule valid_utf8_ascii) (simp add: metadata_schema_def byte_of_def)
  then have s: "valid_utf8 (md_schema (json_doc ?d))"
    using assms(2) by (simp add: json_doc_def json_string_valid)
  show "snd (meta_write meta_io_ok f (d\<lparr>md_entries := es\<rparr>)) = None"
    "meta_ok (fst (meta_write meta_io_ok f (d\<lparr>md_entries := es\<rparr>)))"
    "meta_view (fst (meta_write meta_io_ok f (d\<lparr>md_entries := es\<rparr>))) = map_of es"
    using ok m s j w by (simp_all add: meta_ok_def meta_view_def)
qed
subsection \<open>The three changes\<close>

lemma entries_ok_iff:
  "entries_ok es \<longleftrightarrow> distinct (map fst es) \<and>
     (\<forall>k e. map_of es k = Some e \<longrightarrow> valid_utf8 k \<and> valid_utf8 (me_symlink_target e))"
  by (auto simp: entries_ok_def list_all_iff)

lemma entries_ok_update:
  "entries_ok es \<Longrightarrow> valid_utf8 k \<Longrightarrow> valid_utf8 (me_symlink_target e) \<Longrightarrow> entries_ok (AList.update k e es)"
  by (simp add: entries_ok_iff distinct_update update_conv)

lemma entries_ok_filter: "entries_ok es \<Longrightarrow> entries_ok (filter P es)"
  by (auto simp: entries_ok_def list_all_iff distinct_map_filter)

lemma entries_ok_delete: "entries_ok es \<Longrightarrow> entries_ok (AList.delete k es)"
  by (simp add: AList.delete_eq entries_ok_filter)

definition meta_put :: "meta_file \<Rightarrow> string \<Rightarrow> meta_entry \<Rightarrow> meta_file" where
  "meta_put f p e = the (fst (meta_update [] meta_io_ok False (\<lambda>_. (e, False)) (Some f) p))"

definition meta_remove_tree :: "meta_file \<Rightarrow> string \<Rightarrow> meta_file" where
  "meta_remove_tree f p = the (fst (meta_remove [] meta_io_ok (Some f) p True))"

definition meta_moved :: "meta_file \<Rightarrow> string \<Rightarrow> string \<Rightarrow> meta_file" where
  "meta_moved f s t = the (fst (meta_move [] meta_io_ok (Some f) s t))"

lemma meta_update_entry:
  assumes "meta_ok f" "plain_path p"
    "\<And>e. valid_utf8 (me_symlink_target e) \<Longrightarrow> valid_utf8 (me_symlink_target (fst (fn e)))"
  shows "\<exists>f'. meta_update path meta_io_ok False fn (Some f) p = (Some f', None) \<and> meta_ok f' \<and>
    (let (nx, gone) = fn (case meta_view f p of None \<Rightarrow> no_entry | Some e \<Rightarrow> e)
     in meta_view f' = (meta_view f)(p := if gone then None else Some nx))"
proof -
  obtain d where d: "\<And>p. meta_read p f = Inr d" "meta_view f = map_of (md_entries d)"
    "entries_ok (md_entries d)" "valid_utf8 (md_schema d)"
    using meta_okD [OF assms(1)] by blast
  obtain nx gone where fn: "fn (case meta_view f p of None \<Rightarrow> no_entry | Some e \<Rightarrow> e) = (nx, gone)"
    by (rule prod.exhaust)
  have "valid_utf8 (me_symlink_target (case meta_view f p of None \<Rightarrow> no_entry | Some e \<Rightarrow> e))"
    using d(2,3) map_of_SomeD [of "md_entries d" p]
    by (auto simp: no_entry_def valid_utf8.simps [of "[]"] entries_ok_def list_all_iff split: option.splits)
  then have tgt: "valid_utf8 (me_symlink_target nx)"
    using assms(3) fn by (metis fst_conv)
  let ?es = "if gone then AList.delete p (md_entries d) else AList.update p nx (md_entries d)"
  have ok: "entries_ok ?es"
    using d(3) tgt assms(2) by (simp add: entries_ok_delete entries_ok_update plain_path_def)
  note w = meta_write_ok [OF ok d(4), of f]
  have "meta_update path meta_io_ok False fn (Some f) p
      = map_prod Some id (meta_write meta_io_ok f (d\<lparr>md_entries := ?es\<rparr>))"
    using assms(2) fn d(1,2) by (simp add: meta_update_def plain_path_def)
  moreover have "map_of ?es = (meta_view f)(p := if gone then None else Some nx)"
    by (simp add: d(2) delete_conv' update_conv')
  ultimately show ?thesis using w fn
    by (cases "meta_write meta_io_ok f (d\<lparr>md_entries := ?es\<rparr>)") simp
qed

lemma meta_put_facts:
  assumes "meta_ok f" "plain_path p" "valid_utf8 (me_symlink_target e)"
  shows "meta_ok (meta_put f p e)" "meta_view (meta_put f p e) = (meta_view f)(p \<mapsto> e)"
  using meta_update_entry [OF assms(1,2), of "\<lambda>_. (e, False)" "[]"] assms(3)
  by (auto simp: meta_put_def)

lemma map_of_filter_keys: "map_of (filter (\<lambda>(k, _). P k) es) q = (if P q then map_of es q else None)"
  by (induction es) auto

lemma meta_remove_tree_facts:
  assumes "meta_ok f" "plain_path p"
  shows "meta_ok (meta_remove_tree f p)"
    "meta_view (meta_remove_tree f p) q = (if in_tree p q then None else meta_view f q)"
proof -
  obtain d where d: "\<And>p. meta_read p f = Inr d" "meta_view f = map_of (md_entries d)"
    "entries_ok (md_entries d)" "valid_utf8 (md_schema d)"
    using meta_okD [OF assms(1)] by blast
  let ?es = "filter (\<lambda>(k, _). \<not> (k = p \<or> has_prefix k (tree_prefix p))) (md_entries d)"
  note w = meta_write_ok [OF entries_ok_filter [OF d(3)] d(4), of f "\<lambda>(k, _). \<not> (k = p \<or> has_prefix k (tree_prefix p))"]
  have "meta_remove_tree f p = fst (meta_write meta_io_ok f (d\<lparr>md_entries := ?es\<rparr>))"
    using assms(2) d(1) by (cases "meta_write meta_io_ok f (d\<lparr>md_entries := ?es\<rparr>)")
      (simp add: meta_remove_tree_def meta_remove_def meta_update_def plain_path_def)
  then show "meta_ok (meta_remove_tree f p)"
    "meta_view (meta_remove_tree f p) q = (if in_tree p q then None else meta_view f q)"
    using w by (simp_all add: d(2) map_of_filter_keys in_tree_def)
qed

lemma move_entries_map:
  "map_of (move_entries s t es acc) = map_of acc ++ map_of (rev (map (\<lambda>(k, e). (retarget_path s t k, e)) es))"
proof (induction es arbitrary: acc)
  case (Cons x es)
  obtain k e where x: "x = (k, e)" by (rule prod.exhaust)
  have "move_entries s t (x # es) acc = move_entries s t es (AList.update (retarget_path s t k) e acc)"
    by (simp add: x retarget_path_def)
  then have "map_of (move_entries s t (x # es) acc)
      = map_of (AList.update (retarget_path s t k) e acc)
        ++ map_of (rev (map (\<lambda>(k, e). (retarget_path s t k, e)) es))"
    using Cons by simp
  then show ?case
    by (auto simp: fun_eq_iff x map_of_append map_add_def update_conv split: option.splits)
qed simp

lemma move_entries_distinct:
  "distinct (map fst acc) \<Longrightarrow> distinct (map fst (move_entries s t es acc))"
  by (induction s t es acc rule: move_entries.induct) (auto simp: distinct_update)

lemma tree_prefix_plain: "\<not> has_suffix s ''/'' \<Longrightarrow> tree_prefix s = s @ ''/''"
  by (simp add: tree_prefix_def)

lemma in_tree_plain:
  "\<not> has_suffix s ''/'' \<Longrightarrow> in_tree s p \<longleftrightarrow> p = s \<or> (\<exists>r. p = s @ CHR ''/'' # r)"
  by (auto simp: in_tree_def tree_prefix_plain has_prefix_iff)

lemma retarget_in_tree:
  assumes "\<not> has_suffix s ''/''" "\<not> has_suffix t ''/''" "in_tree s p"
  shows "in_tree t (retarget_path s t p)" "retarget_path t s (retarget_path s t p) = p"
  using assms
  by (auto simp: in_tree_plain retarget_path_def tree_prefix_plain has_prefix_iff trim_prefix_append)

lemma retarget_parts:
  assumes "\<not> has_suffix s ''/''" "in_tree s k"
  obtains r where "k = s @ r" "retarget_path s t k = t @ r"
proof (cases "k = s")
  case True
  then show ?thesis using that [of "[]"] by (simp add: retarget_path_def)
next
  case False
  then obtain r where "k = (s @ ''/'') @ r"
    using assms by (auto simp: in_tree_plain)
  moreover then have "retarget_path s t k = t @ CHR ''/'' # r"
    using assms(1) False
    by (auto simp: retarget_path_def tree_prefix_plain has_prefix_iff trim_prefix_def)
  ultimately show ?thesis using that [of "CHR ''/'' # r"] by simp
qed

lemma option_eqI: "(\<And>e. a = Some e \<longleftrightarrow> b = Some e) \<Longrightarrow> a = b"
  by (cases a; cases b) auto

lemma retarget_outside: "\<not> in_tree s p \<Longrightarrow> retarget_path s t p = p"
  by (simp add: retarget_path_def in_tree_def)
lemma retarget_inj:
  assumes "\<not> has_suffix s ''/''" "\<not> has_suffix t ''/''" "\<And>k. k \<in> A \<Longrightarrow> \<not> in_tree t k"
  shows "inj_on (retarget_path s t) A"
proof (rule inj_onI)
  fix a b assume ab: "a \<in> A" "b \<in> A" "retarget_path s t a = retarget_path s t b"
  show "a = b"
  proof (cases "in_tree s a"; cases "in_tree s b")
    assume "in_tree s a" "in_tree s b"
    then show ?thesis using retarget_in_tree(2) [OF assms(1,2)] ab(3) by metis
  next
    assume "in_tree s a" "\<not> in_tree s b"
    then show ?thesis using retarget_in_tree(1) [OF assms(1,2), of a] retarget_outside [of s b t] ab assms(3) by metis
  next
    assume "\<not> in_tree s a" "in_tree s b"
    then show ?thesis using retarget_in_tree(1) [OF assms(1,2), of b] retarget_outside [of s a t] ab assms(3) by metis
  next
    assume "\<not> in_tree s a" "\<not> in_tree s b"
    then show ?thesis using retarget_outside ab(3) by metis
  qed
qed

lemma map_of_rename:
  assumes "distinct (map fst es)" "inj_on r (fst ` set es)"
  shows "distinct (map fst (map (\<lambda>(k, e). (r k, e)) es))"
    "map_of (map (\<lambda>(k, e). (r k, e)) es) q = Some e \<longleftrightarrow> (\<exists>k. r k = q \<and> map_of es k = Some e)"
proof -
  have "map fst (map (\<lambda>(k, e). (r k, e)) es) = map r (map fst es)" by auto
  then show d: "distinct (map fst (map (\<lambda>(k, e). (r k, e)) es))"
    using assms by (simp add: distinct_map comp_inj_on del: map_map)
  show "map_of (map (\<lambda>(k, e). (r k, e)) es) q = Some e \<longleftrightarrow> (\<exists>k. r k = q \<and> map_of es k = Some e)"
    using assms(1) d by (auto simp del: map_map)
qed

lemma meta_moved_view:
  assumes "meta_ok f" "plain_path s" "plain_path t" "\<And>k. in_tree t k \<Longrightarrow> meta_view f k = None"
  shows "meta_ok (meta_moved f s t)"
    "meta_view (meta_moved f s t) q = Some e \<longleftrightarrow> (\<exists>k. retarget_path s t k = q \<and> meta_view f k = Some e)"
proof -
  obtain d where d: "\<And>p. meta_read p f = Inr d" "meta_view f = map_of (md_entries d)"
    "entries_ok (md_entries d)" "valid_utf8 (md_schema d)"
    using meta_okD [OF assms(1)] by blast
  have ps: "\<not> has_suffix s ''/''" "\<not> has_suffix t ''/''" "valid_utf8 s" "valid_utf8 t"
    using assms(2,3) by (simp_all add: plain_path_def)
  let ?es = "md_entries d"
  let ?ms = "move_entries s t ?es []"
  have dist: "distinct (map fst ?es)" using d(3) by (simp add: entries_ok_def)
  have "\<not> in_tree t k" if "k \<in> fst ` set ?es" for k
    using assms(4) [of k] that d(2) by (metis map_of_eq_None_iff)
  then have inj: "inj_on (retarget_path s t) (fst ` set ?es)"
    using retarget_inj [OF ps(1,2)] by blast
  note ren = map_of_rename [OF dist inj]
  have m: "map_of ?ms = map_of (map (\<lambda>(k, e). (retarget_path s t k, e)) ?es)"
    using ren(1) by (simp add: move_entries_map map_of_rev_distinct)
  have "valid_utf8 (retarget_path s t k)" if "map_of ?es k = Some x" for k x
  proof -
    have k: "valid_utf8 k" using that d(3) by (simp add: entries_ok_iff)
    show ?thesis
    proof (cases "in_tree s k")
      case True
      then obtain r where "k = s @ r" "retarget_path s t k = t @ r"
        using retarget_parts [OF ps(1)] by blast
      then show ?thesis using k ps valid_utf8_append by metis
    qed (simp add: retarget_outside k)
  qed
  then have ok: "entries_ok ?ms"
    using d(3) ren(2) by (auto simp: entries_ok_iff m move_entries_distinct)
  note w = meta_write_ok [OF ok d(4), of f]
  have mv: "meta_moved f s t = fst (meta_write meta_io_ok f (d\<lparr>md_entries := ?ms\<rparr>))"
    using assms(2,3) d(1) by (cases "meta_write meta_io_ok f (d\<lparr>md_entries := ?ms\<rparr>)")
      (simp add: meta_moved_def meta_move_def plain_path_def)
  then show "meta_ok (meta_moved f s t)" using w by simp
  show "meta_view (meta_moved f s t) q = Some e \<longleftrightarrow> (\<exists>k. retarget_path s t k = q \<and> meta_view f k = Some e)"
    using w ren(2) mv by (simp add: m d(2))
qed

lemma meta_moved_facts:
  assumes "meta_ok f" "plain_path s" "plain_path t" "\<And>k. in_tree t k \<Longrightarrow> meta_view f k = None"
  shows "meta_view (meta_moved f s t) q =
    (if in_tree t q then (if in_tree s (retarget_path t s q) then meta_view f (retarget_path t s q) else None)
     else if in_tree s q then None else meta_view f q)"
proof -
  have ps: "\<not> has_suffix s ''/''" "\<not> has_suffix t ''/''"
    using assms(2,3) by (simp_all add: plain_path_def)
  have mv: "meta_view (meta_moved f s t) q = Some e
      \<longleftrightarrow> (\<exists>k. retarget_path s t k = q \<and> meta_view f k = Some e)" for e
    by (rule meta_moved_view(2)) (use assms in auto)
  let ?r = "if in_tree t q then (if in_tree s (retarget_path t s q) then meta_view f (retarget_path t s q) else None)
     else if in_tree s q then None else meta_view f q"
  have r: "(\<exists>k. retarget_path s t k = q \<and> meta_view f k = Some e) \<longleftrightarrow> ?r = Some e" for e
  proof (cases "in_tree t q")
    case True
    have s: "in_tree s (retarget_path t s q)" "retarget_path s t (retarget_path t s q) = q"
      using retarget_in_tree [OF ps(2,1) True] by blast+
    have k: "k = retarget_path t s q" if k: "retarget_path s t k = q" "meta_view f k = Some e" for k
    proof -
      have "in_tree s k" using k True assms(4) [of k] retarget_outside [of s k t] by fastforce
      then show ?thesis using retarget_in_tree(2) [OF ps] k by metis
    qed
    have "(\<exists>k. retarget_path s t k = q \<and> meta_view f k = Some e)
        \<longleftrightarrow> meta_view f (retarget_path t s q) = Some e"
    proof
      assume "\<exists>k. retarget_path s t k = q \<and> meta_view f k = Some e"
      then obtain a where a: "retarget_path s t a = q" "meta_view f a = Some e" by blast
      show "meta_view f (retarget_path t s q) = Some e" using a(2) k [OF a] by metis
    next
      assume "meta_view f (retarget_path t s q) = Some e"
      then show "\<exists>k. retarget_path s t k = q \<and> meta_view f k = Some e" using s(2) by metis
    qed
    then show ?thesis using True s(1) by simp
  next
    case False
    have fk: "retarget_path s t k = q \<longleftrightarrow> \<not> in_tree s k \<and> k = q" for k
    proof (cases "in_tree s k")
      case True
      then have "in_tree t (retarget_path s t k)" by (rule retarget_in_tree(1) [OF ps])
      then have "retarget_path s t k \<noteq> q" using False by metis
      then show ?thesis using True by simp
    qed (simp add: retarget_outside)
    show ?thesis by (simp only: fk) (use False in auto)
  qed
  show ?thesis by (rule option_eqI, unfold mv) (rule r)
qed

section \<open>The contract of a tree of entries\<close>

text \<open>
  What the mount relies on when it keeps entries by path: an entry put is found, removing a
  tree removes just that tree, and a move relocates a tree to a place without entries.  A move
  can then be undone, and a tree that was moved away can be removed under its new name only.
\<close>

locale tree_map =
  fixes view :: "'d \<Rightarrow> string \<Rightarrow> 'e option"
    and good :: "'d \<Rightarrow> bool"
    and fits :: "'e \<Rightarrow> bool"
    and named :: "string \<Rightarrow> bool"
    and put :: "'d \<Rightarrow> string \<Rightarrow> 'e \<Rightarrow> 'd"
    and del :: "'d \<Rightarrow> string \<Rightarrow> 'd"
    and mv :: "'d \<Rightarrow> string \<Rightarrow> string \<Rightarrow> 'd"
  assumes named_plain: "named p \<Longrightarrow> \<not> has_suffix p ''/''"
    and put_good: "good d \<Longrightarrow> named p \<Longrightarrow> fits e \<Longrightarrow> good (put d p e)"
    and put_view: "good d \<Longrightarrow> named p \<Longrightarrow> fits e \<Longrightarrow> view (put d p e) = (view d)(p \<mapsto> e)"
    and del_good: "good d \<Longrightarrow> named p \<Longrightarrow> good (del d p)"
    and del_view: "good d \<Longrightarrow> named p \<Longrightarrow> view (del d p) q = (if in_tree p q then None else view d q)"
    and mv_good: "good d \<Longrightarrow> named s \<Longrightarrow> named t \<Longrightarrow> (\<And>k. in_tree t k \<Longrightarrow> view d k = None) \<Longrightarrow> good (mv d s t)"
    and mv_view: "good d \<Longrightarrow> named s \<Longrightarrow> named t \<Longrightarrow> (\<And>k. in_tree t k \<Longrightarrow> view d k = None) \<Longrightarrow>
      view (mv d s t) q = (if in_tree t q then (if in_tree s (retarget_path t s q) then view d (retarget_path t s q) else None)
        else if in_tree s q then None else view d q)"
begin

lemma put_get: "good d \<Longrightarrow> named p \<Longrightarrow> fits e \<Longrightarrow> view (put d p e) p = Some e"
  by (simp add: put_view)

lemma put_del: "good d \<Longrightarrow> named p \<Longrightarrow> fits e \<Longrightarrow> in_tree p q \<Longrightarrow> view (del (put d p e) p) q = None"
  by (simp add: del_view put_good)

lemma move_target: 
  assumes "good d" "named s" "named t" "\<And>k. in_tree t k \<Longrightarrow> view d k = None" "in_tree s p"
  shows "view (mv d s t) (retarget_path s t p) = view d p"
proof -
  have ps: "\<not> has_suffix s ''/''" "\<not> has_suffix t ''/''" using assms(2,3) named_plain by blast+
  have "view (mv d s t) q = (if in_tree t q then (if in_tree s (retarget_path t s q) then view d (retarget_path t s q) else None)
     else if in_tree s q then None else view d q)" for q
    by (rule mv_view) (use assms in auto)
  then show ?thesis using retarget_in_tree [OF ps assms(5)] assms(5) by simp
qed

lemma move_back:
  assumes "good d" "named s" "named t" "\<And>k. in_tree t k \<Longrightarrow> view d k = None"
    and apart: "\<And>k. in_tree s k \<Longrightarrow> \<not> in_tree t k"
  shows "view (mv (mv d s t) t s) = view d"
proof
  fix q
  have ps: "\<not> has_suffix s ''/''" "\<not> has_suffix t ''/''" using assms(2,3) named_plain by blast+
  have v1: "view (mv d s t) q = (if in_tree t q then (if in_tree s (retarget_path t s q) then view d (retarget_path t s q) else None)
     else if in_tree s q then None else view d q)" for q
    by (rule mv_view) (use assms in auto)
  have g: "good (mv d s t)" using mv_good assms(1-4) by blast
  have e: "view (mv d s t) k = None" if "in_tree s k" for k
    using v1 [of k] that apart by simp
  have v2: "view (mv (mv d s t) t s) q = (if in_tree s q then (if in_tree t (retarget_path s t q) then view (mv d s t) (retarget_path s t q) else None)
     else if in_tree t q then None else view (mv d s t) q)" for q
    by (rule mv_view) (use g assms e in auto)
  show "view (mv (mv d s t) t s) q = view d q"
  proof (cases "in_tree s q")
    case True
    then show ?thesis
      using v2 [of q] v1 [of "retarget_path s t q"] retarget_in_tree [OF ps True] by simp
  next
    case False
    then show ?thesis using v2 [of q] v1 [of q] assms(4) [of q] by auto
  qed
qed

end

interpretation ms: tree_map meta_view meta_ok "\<lambda>e. valid_utf8 (me_symlink_target e)" plain_path
  meta_put meta_remove_tree meta_moved
proof
  show "\<not> has_suffix p ''/''" if "plain_path p" for p
    using that by (simp add: plain_path_def)
qed (simp_all add: meta_put_facts meta_remove_tree_facts meta_moved_view(1) meta_moved_facts)
section \<open>Properties\<close>

definition sample_entry :: "int \<Rightarrow> meta_entry" where
  "sample_entry m = \<lparr>me_mode = m, me_has_mode = True, me_symlink_target = [], me_has_symlink = False\<rparr>"

definition sample_meta :: "(string \<times> meta_entry) list \<Rightarrow> meta_file" where
  "sample_meta es = Document \<lparr>md_schema = metadata_schema, md_entries = es\<rparr>"

lemma plain_samples: "plain_path ''/a''" "plain_path ''/b''" "plain_path ''/a/x''"
  unfolding plain_path_def by code_simp+

lemma sample_meta_ok:
  "meta_ok (sample_meta [(''/a/x'', sample_entry 1), (''/c'', sample_entry 2)])"
  "meta_view (sample_meta es) = map_of es"
proof -
  show "meta_ok (sample_meta [(''/a/x'', sample_entry 1), (''/c'', sample_entry 2)])" by code_simp
qed (simp add: meta_view_def sample_meta_def)

text \<open>C28: Moving the entries of a tree can be undone: if the store is well-formed and has no entry
  in the target tree and the two trees are apart, moving a tree of modes and links and moving it back leaves every
  entry as it was, and in between the entries are found below the target and nowhere else.\<close>

theorem meta_move_and_back:
  assumes "meta_ok f" "plain_path s" "plain_path t" "\<And>k. in_tree t k \<Longrightarrow> meta_view f k = None"
    and "\<And>k. in_tree s k \<Longrightarrow> \<not> in_tree t k"
  shows "meta_view (meta_moved (meta_moved f s t) t s) = meta_view f \<and>
    (if in_tree s p then meta_view (meta_moved f s t) (retarget_path s t p) = meta_view f p
       \<and> meta_view (meta_moved f s t) p = None else True)"
proof -
  have "meta_view (meta_moved f s t) p = None" if "in_tree s p"
    using meta_moved_facts [OF assms(1-3), of p] assms(4,5) that by simp
  then show ?thesis
    using ms.move_back [OF assms(1-3), OF assms(4,5)] ms.move_target [OF assms(1-3), of p] assms(4) by auto
qed

theorem meta_move_and_back_witness:
  "meta_view (meta_moved (sample_meta [(''/a/x'', sample_entry 1), (''/c'', sample_entry 2)]) ''/a'' ''/b'') ''/b/x''
     = Some (sample_entry 1)
   \<and> meta_view (meta_moved (meta_moved (sample_meta [(''/a/x'', sample_entry 1), (''/c'', sample_entry 2)]) ''/a'' ''/b'') ''/b'' ''/a'')
     = [''/a/x'' \<mapsto> sample_entry 1, ''/c'' \<mapsto> sample_entry 2]"
proof -
  let ?f = "sample_meta [(''/a/x'', sample_entry 1), (''/c'', sample_entry 2)]"
  have t: "in_tree ''/b'' k \<Longrightarrow> meta_view ?f k = None" for k
    by (auto simp: in_tree_plain has_suffix_iff sample_meta_ok(2))
  have apart: "in_tree ''/a'' k \<Longrightarrow> \<not> in_tree ''/b'' k" for k
    by (auto simp: in_tree_plain has_suffix_iff)
  have s: "in_tree ''/a'' ''/a/x''" "retarget_path ''/a'' ''/b'' ''/a/x'' = ''/b/x''" by code_simp+
  show ?thesis
    using meta_move_and_back [OF sample_meta_ok(1) plain_samples(1,2) t apart, of "''/a/x''"] s
    by (auto simp: sample_meta_ok(2))
qed

text \<open>A mode that is set is shown: setting a mode on a well-formed store succeeds, and from then
  on the information of that path carries its nine permission bits and keeps every other mode
  bit, unless the path is recorded as a symbolic link, which stays one; the entries of other
  paths do not change.\<close>

theorem meta_set_mode_shown:
  assumes "meta_ok f" "plain_path p"
  shows "\<exists>f'. meta_set_mode path meta_io_ok (Some f) p m = (Some f', None) \<and> meta_ok f' \<and>
    fi_mode (apply_file_info path (Some f') p i) =
      (if symlink_target path (Some f) p = None
       then (fi_mode i AND NOT perm_mask) OR word_of_int (m AND 0x1FF) else mode_symlink OR 0x1FF)
    \<and> symlink_target path (Some f') p = symlink_target path (Some f) p
    \<and> (if normalize_remote_path q = Inr p then True
       else meta_lookup path (Some f') q = meta_lookup path (Some f) q)"
proof -
  let ?fn = "\<lambda>e. (e\<lparr>me_mode := and_perm m, me_has_mode := True\<rparr>, False)"
  obtain f' where f': "meta_set_mode path meta_io_ok (Some f) p m = (Some f', None)" "meta_ok f'"
    "meta_view f' = (meta_view f)(p \<mapsto> (case meta_view f p of None \<Rightarrow> no_entry | Some e \<Rightarrow> e)\<lparr>me_mode := and_perm m, me_has_mode := True\<rparr>)"
    using meta_update_entry [OF assms, of ?fn path] by (auto simp: meta_set_mode_def)
  have look: "meta_lookup path (Some g) r = (case normalize_remote_path r of Inl _ \<Rightarrow> None | Inr c \<Rightarrow> meta_view g c)"
    if "meta_ok g" for g r
    using that by (auto simp: meta_lookup_def elim!: meta_okD split: sum.splits)
  have p: "normalize_remote_path p = Inr p" using assms(2) by (simp add: plain_path_def)
  have other: "(if normalize_remote_path q = Inr p then True
       else meta_lookup path (Some f') q = meta_lookup path (Some f) q)"
    by (simp add: look f'(2) assms(1) f'(3) split: sum.splits)
  have "symlink_target path (Some f') p = symlink_target path (Some f) p"
    by (simp add: symlink_target_def look f'(2) assms(1) f'(3) p no_entry_def split: option.splits)
  moreover have "fi_mode (apply_file_info path (Some f') p i) =
      (if symlink_target path (Some f) p = None
       then (fi_mode i AND NOT perm_mask) OR word_of_int (m AND 0x1FF) else mode_symlink OR 0x1FF)"
    by (simp add: apply_file_info_def symlink_target_def look f'(2) assms(1) f'(3) p no_entry_def
        and_perm_def Let_def and.assoc split: option.splits)
  ultimately show ?thesis using f' other by blast
qed
theorem meta_set_mode_shown_witness:
  "fi_mode (apply_file_info [] (fst (meta_set_mode [] meta_io_ok
      (Some (sample_meta [(''/a/x'', sample_entry 1), (''/c'', sample_entry 2)])) ''/a'' 0x1C0)) ''/a''
      \<lparr>fi_name = ''a'', fi_size = 0, fi_mode = mode_dir OR 0x1ED, fi_mod_time = 0\<rparr>) = mode_dir OR 0x1C0"
proof -
  let ?f = "sample_meta [(''/a/x'', sample_entry 1), (''/c'', sample_entry 2)]"
  let ?i = "\<lparr>fi_name = ''a'', fi_size = 0, fi_mode = mode_dir OR 0x1ED, fi_mod_time = 0\<rparr>"
  obtain f' where "meta_set_mode [] meta_io_ok (Some ?f) ''/a'' 0x1C0 = (Some f', None)"
    "fi_mode (apply_file_info [] (Some f') ''/a'' ?i) =
      (if symlink_target [] (Some ?f) ''/a'' = None
       then (fi_mode ?i AND NOT perm_mask) OR word_of_int (0x1C0 AND 0x1FF) else mode_symlink OR 0x1FF)"
    using meta_set_mode_shown [OF sample_meta_ok(1) plain_samples(1), of "[]" "0x1C0" ?i "[]"] by blast
  moreover have "symlink_target [] (Some ?f) ''/a'' = None" by code_simp
  moreover have "((mode_dir OR 0x1ED) AND NOT perm_mask) OR word_of_int (0x1C0 AND 0x1FF) = mode_dir OR 0x1C0"
    by (simp add: mode_dir_def perm_mask_def)
  ultimately show ?thesis by simp
qed

text \<open>Moving onto a path that has an entry depends on the order in which the map is visited:
  the same entries in two orders leave the target with the moved mode or with the mode of the
  file that was replaced.\<close>

theorem meta_move_order_dependent:
  "meta_view (sample_meta [(''/a'', sample_entry 1), (''/b'', sample_entry 2)])
     = meta_view (sample_meta [(''/b'', sample_entry 2), (''/a'', sample_entry 1)])
   \<and> meta_view (meta_moved (sample_meta [(''/b'', sample_entry 2), (''/a'', sample_entry 1)]) ''/a'' ''/b'') ''/b''
     = Some (sample_entry 1)
   \<and> meta_view (meta_moved (sample_meta [(''/a'', sample_entry 1), (''/b'', sample_entry 2)]) ''/a'' ''/b'') ''/b''
     = Some (sample_entry 2)"
proof (intro conjI)
  show "meta_view (sample_meta [(''/a'', sample_entry 1), (''/b'', sample_entry 2)])
     = meta_view (sample_meta [(''/b'', sample_entry 2), (''/a'', sample_entry 1)])"
    by (auto simp: sample_meta_ok(2))
qed code_simp+

end
