(* ===== verification/Upload_Parts.thy ===== *)
theory Upload_Parts
  imports Go_Errors "HOL-Library.Word"
begin

text \<open>
  Sizes, checksums and the call sequence of multipart uploads
  (\<open>internal/api/fs/upload.go\<close>).  Sizes are \<open>int64\<close> values, wrapped where an addition can
  leave the range.  A reader is the list of the bytes behind it.  The requests themselves are
  arguments: \<open>upload_env\<close> holds the answer of each call, and \<open>upload_file\<close> returns the calls
  it makes with its result.
\<close>

unbundle bit_operations_syntax

section \<open>Part sizes\<close>

definition default_part_size :: int where "default_part_size = 8388608"
definition max_adaptive_part_size :: int where "max_adaptive_part_size = 536870912"
definition upload_max_concurrency :: int where "upload_max_concurrency = 16"
definition upload_max_buffer_bytes :: int where "upload_max_buffer_bytes = 268435456"

definition part_size :: "int \<Rightarrow> int" where
  "part_size v = (if v \<le> 0 then default_part_size else v)"

text \<open>
  Parts are numbered from one; the pair is the number and the size.  A wrapped, negative count
  makes the allocation of the list panic.
\<close>

definition part_count :: "int \<Rightarrow> int \<Rightarrow> int" where
  "part_count total_size ps = quot (wrap64 (wrap64 (total_size + ps) - 1)) ps"

definition calc_parts :: "int \<Rightarrow> int \<Rightarrow> (int \<times> int) list run" where
  "calc_parts total_size part_size_bytes =
     (let ps = part_size part_size_bytes; count = part_count total_size ps
      in if count < 0 then Panic
         else Returns (map (\<lambda>i. (int i + 1, if int i = count - 1 then total_size - int i * ps else ps))
                 [0..<nat count]))"

definition calc_adaptive_part_size :: "int \<Rightarrow> int" where
  "calc_adaptive_part_size total_size =
     (let p1 = quot (wrap64 (total_size + 9999)) 10000;
          p2 = quot (p1 + 1048576 - 1) 1048576 * 1048576;
          p3 = (if p2 < default_part_size then default_part_size else p2)
      in if p3 > max_adaptive_part_size then max_adaptive_part_size else p3)"

definition by_memory :: "int \<Rightarrow> int" where
  "by_memory part_size_bytes = max 1 (quot upload_max_buffer_bytes (part_size part_size_bytes))"

definition upload_parallelism :: "int \<Rightarrow> int" where
  "upload_parallelism part_size_bytes = min upload_max_concurrency (by_memory part_size_bytes)"

definition bounded_upload_parallelism :: "int \<Rightarrow> int \<Rightarrow> int" where
  "bounded_upload_parallelism part_size_bytes n_parts =
     (let p = upload_parallelism part_size_bytes;
          q = (if n_parts > 0 \<and> p > n_parts then n_parts else p)
      in if q < 1 then 1 else q)"

definition checksum_parallelism :: "int \<Rightarrow> int \<Rightarrow> int \<Rightarrow> int" where
  "checksum_parallelism gomaxprocs part_size_bytes n_parts =
     min gomaxprocs (min n_parts (by_memory part_size_bytes))"

definition expected_revision_ptr :: "int \<Rightarrow> int option" where
  "expected_revision_ptr revision = (if revision < 0 then None else Some revision)"

definition expected_revision_of :: "int option \<Rightarrow> int" where
  "expected_revision_of o' = (case o' of None \<Rightarrow> - 1 | Some r \<Rightarrow> r)"

section \<open>Checksums\<close>

text \<open>CRC-32C (Castagnoli, reflected) and the base64 text of its four big-endian bytes.\<close>

definition crc_step :: "32 word \<Rightarrow> 32 word" where
  "crc_step c = (if bit c 0 then drop_bit 1 c XOR 0x82F63B78 else drop_bit 1 c)"

definition crc_byte :: "32 word \<Rightarrow> char \<Rightarrow> 32 word" where
  "crc_byte c b = (crc_step ^^ 8) (c XOR word_of_nat (byte_of b))"

definition crc32c :: "string \<Rightarrow> 32 word" where
  "crc32c data = NOT (foldl crc_byte (NOT 0) data)"

definition base64_char :: "nat \<Rightarrow> char" where
  "base64_char n = ''ABCDEFGHIJKLMNOPQRSTUVWXYZabcdefghijklmnopqrstuvwxyz0123456789+/'' ! n"

fun base64 :: "nat list \<Rightarrow> string" where
  "base64 (a # b # c # bs) =
     [base64_char (a div 4), base64_char (a mod 4 * 16 + b div 16),
      base64_char (b mod 16 * 4 + c div 64), base64_char (c mod 64)] @ base64 bs"
| "base64 [a, b] = [base64_char (a div 4), base64_char (a mod 4 * 16 + b div 16), base64_char (b mod 16 * 4), CHR ''='']"
| "base64 [a] = [base64_char (a div 4), base64_char (a mod 4 * 16), CHR ''='', CHR ''='']"
| "base64 [] = []"

definition word_bytes :: "32 word \<Rightarrow> nat list" where
  "word_bytes w = (let n = unat w in [n div 16777216 mod 256, n div 65536 mod 256, n div 256 mod 256, n mod 256])"

definition compute_crc32c :: "string \<Rightarrow> string" where
  "compute_crc32c data = base64 (word_bytes (crc32c data))"

text \<open>\<open>ReadAt\<close> on a reader with these bytes, then the length test.\<close>

definition read_part :: "string \<Rightarrow> int \<Rightarrow> (int \<times> int) \<Rightarrow> go_error + string" where
  "read_part content part_size_bytes p =
     (case p of (number, psize) \<Rightarrow>
       let got = take (nat psize) (drop (nat ((number - 1) * part_size_bytes)) content) in
       if int (length got) \<noteq> psize then Inl (Msg (Lit ''short read'')) else Inr got)"

text \<open>
  \<open>computePartChecksums\<close>.  The workers handle the parts in any order and may report the error
  of any short part; the model reports the first one.
\<close>

fun checksum_loop :: "string \<Rightarrow> int \<Rightarrow> (int \<times> int) list \<Rightarrow> go_error + string list" where
  "checksum_loop content ps [] = Inr []"
| "checksum_loop content ps (p # parts) =
     bind_result (read_part content ps p) (\<lambda>d.
     bind_result (checksum_loop content ps parts) (\<lambda>cs. Inr (compute_crc32c d # cs)))"

definition compute_part_checksums :: "string \<Rightarrow> int \<Rightarrow> int \<Rightarrow> (go_error + string list) run" where
  "compute_part_checksums content total_size part_size_bytes =
     (if total_size \<le> 0 then Returns (Inr [])
      else case calc_parts total_size (part_size part_size_bytes) of
        Panic \<Rightarrow> Panic
      | Returns parts \<Rightarrow> Returns (checksum_loop content (part_size part_size_bytes) parts))"

section \<open>Tags\<close>

definition invalid_tag :: "gotext \<Rightarrow> go_error" where
  "invalid_tag m = app_new ''fs.invalid_tag'' ''usage'' 2 m"

text \<open>Control characters below 0x20 and 0x7f are single bytes of the encoding.\<close>

definition contains_tag_control_chars :: "string \<Rightarrow> bool" where
  "contains_tag_control_chars s = list_ex is_control s"

definition validate_tag :: "string \<Rightarrow> string \<Rightarrow> go_error option" where
  "validate_tag k v =
     (if k = [] then Some (invalid_tag (Lit ''tag keys must be non-empty''))
      else if \<not> valid_utf8 k then Some (invalid_tag (Fmt ''invalid tag key %q: contains invalid UTF-8'' [Lit k]))
      else if \<not> valid_utf8 v then Some (invalid_tag (Fmt ''invalid tag value for key %q: contains invalid UTF-8'' [Lit k]))
      else if contains_tag_control_chars k then
        Some (invalid_tag (Fmt ''invalid tag key %q: contains control characters'' [Lit k]))
      else if contains_tag_control_chars v then
        Some (invalid_tag (Fmt ''invalid tag value for key %q: contains control characters'' [Lit k]))
      else if k \<noteq> trim_space k then
        Some (invalid_tag (Fmt ''invalid tag key %q: must not have leading or trailing whitespace'' [Lit k]))
      else if v \<noteq> trim_space v then
        Some (invalid_tag (Fmt ''invalid tag value for key %q: must not have leading or trailing whitespace'' [Lit k]))
      else if contains_str k ''='' then Some (invalid_tag (Fmt (''invalid tag key %q: contains '' @ [CHR 0x27, CHR ''='', CHR 0x27]) [Lit k]))
      else if rune_count k > 255 then Some (invalid_tag (Lit ''invalid tags: key exceeds 255 characters''))
      else if rune_count v > 255 then Some (invalid_tag (Lit ''invalid tags: value exceeds 255 characters''))
      else None)"

text \<open>The tags in the order the loop over the map visits them.\<close>

fun validate_tags :: "(string \<times> string) list \<Rightarrow> go_error option" where
  "validate_tags [] = None"
| "validate_tags ((k, v) # tags) =
     (case validate_tag k v of Some e \<Rightarrow> Some e | None \<Rightarrow> validate_tags tags)"

section \<open>Facts on sizes\<close>

lemma part_size_pos [simp]: "0 < part_size v"
  by (simp add: part_size_def default_part_size_def)

lemma part_size_id [simp]: "0 < v \<Longrightarrow> part_size v = v"
  by (simp add: part_size_def)

lemma part_count_eq:
  assumes "0 < n" "0 < ps" "n + ps \<le> max_int64"
  shows "part_count n ps = (n + ps - 1) div ps"
proof -
  have "wrap64 (n + ps) = n + ps" "wrap64 (n + ps - 1) = n + ps - 1"
    using assms by (auto intro!: wrap64_id simp: in_int64_def min_int64_def)
  then show ?thesis using assms by (simp add: part_count_def quot_nonneg)
qed

lemma part_count_bounds:
  assumes "0 < n" "0 < ps" "n + ps \<le> max_int64"
  shows "0 < part_count n ps" "(part_count n ps - 1) * ps < n" "n \<le> part_count n ps * ps"
proof -
  let ?q = "(n + ps - 1) div ps" and ?r = "(n + ps - 1) mod ps"
  have d: "n + ps - 1 = ?q * ps + ?r" by (simp only: div_mult_mod_eq)
  have m: "0 \<le> ?r" "?r < ps" using assms by auto
  show "(part_count n ps - 1) * ps < n" "n \<le> part_count n ps * ps"
    unfolding part_count_eq [OF assms] left_diff_distrib using d m by linarith+
  then have "0 < part_count n ps * ps" using assms by linarith
  then show "0 < part_count n ps" using assms(2) by (simp add: zero_less_mult_iff)
qed

lemma calc_parts_returns:
  assumes "0 < n" "0 < ps" "n + ps \<le> max_int64"
  shows "calc_parts n ps = Returns (map (\<lambda>i. (int i + 1,
      if int i = part_count n ps - 1 then n - int i * ps else ps)) [0..<nat (part_count n ps)])"
  using part_count_bounds [OF assms] assms(2) by (simp add: calc_parts_def Let_def)

text \<open>The parts are the chunks of the content.\<close>

lemma read_calc_part:
  assumes "0 < ps" "int (length content) + ps \<le> max_int64" "content \<noteq> []"
    and "i < nat (part_count (int (length content)) ps)"
  shows "read_part content ps (int i + 1,
      if int i = part_count (int (length content)) ps - 1 then int (length content) - int i * ps else ps)
    = Inr (chunk (nat ps) i content)"
proof -
  let ?n = "int (length content)" and ?c = "part_count (int (length content)) ps"
  have c: "0 < ?c" "(?c - 1) * ps < ?n" "?n \<le> ?c * ps"
    using part_count_bounds [of ?n ps] assms by auto
  have off: "nat (int i * ps) = i * nat ps" using assms(1) by (simp add: nat_mult_distrib)
  show ?thesis
  proof (cases "int i = ?c - 1")
    case True
    have "?n - int i * ps \<le> ps" using c(3) True by (simp add: left_diff_distrib)
    moreover have "0 < ?n - int i * ps" using c(2) True by simp
    ultimately have "nat (?n - int i * ps) \<le> nat ps" "length content - i * nat ps = nat (?n - int i * ps)"
      using off assms(1) by (auto simp: nat_diff_distrib)
    then show ?thesis using True off \<open>0 < ?n - int i * ps\<close> by (simp add: read_part_def Let_def chunk_def)
  next
    case False
    then have "int i + 1 \<le> ?c - 1" using assms(4) by linarith
    then have "(int i + 1) * ps \<le> (?c - 1) * ps" using assms(1) by (intro mult_right_mono) auto
    then have "int i * ps + ps \<le> ?n" using c(2) by (simp add: algebra_simps)
    moreover have "0 \<le> int i * ps" using assms(1) by simp
    ultimately have "nat (int i * ps) + nat ps \<le> length content" using assms(1) by linarith
    then have "i * nat ps + nat ps \<le> length content" by (simp only: off)
    then show ?thesis using False off assms(1) by (simp add: read_part_def Let_def chunk_def)
  qed
qed

lemma checksum_loop_map:
  "(\<And>p. p \<in> set parts \<Longrightarrow> read_part content ps p = Inr (f p)) \<Longrightarrow>
   checksum_loop content ps parts = Inr (map (\<lambda>p. compute_crc32c (f p)) parts)"
  by (induction parts) auto

lemma checksums_of_chunks:
  assumes "content \<noteq> []" "0 < ps" "int (length content) + ps \<le> max_int64"
  shows "compute_part_checksums content (int (length content)) ps =
    Returns (Inr (map (\<lambda>i. compute_crc32c (chunk (nat ps) i content)) [0..<nat (part_count (int (length content)) ps)]))"
proof -
  let ?n = "int (length content)" and ?c = "part_count (int (length content)) ps"
  let ?g = "\<lambda>i. (int i + 1, if int i = ?c - 1 then ?n - int i * ps else ps)"
  have n: "0 < ?n" using assms(1) by simp
  have "read_part content ps (?g i) = Inr (chunk (nat ps) i content)" if "i < nat ?c" for i
    using read_calc_part [OF assms(2,3,1) that] .
  then have "checksum_loop content ps (map ?g [0..<nat ?c]) =
      Inr (map (\<lambda>p. compute_crc32c (chunk (nat ps) (nat (fst p - 1)) content)) (map ?g [0..<nat ?c]))"
    by (intro checksum_loop_map) auto
  then show ?thesis
    using n assms calc_parts_returns [OF n assms(2,3)]
    by (simp add: compute_part_checksums_def o_def)
qed

lemma adaptive_steps:
  assumes "0 \<le> n" "n + 9999 \<le> max_int64"
  shows "quot (wrap64 (n + 9999)) 10000 = (n + 9999) div 10000"
  using assms by (simp add: quot_nonneg wrap64_id in_int64_def min_int64_def)

definition aligned :: "int \<Rightarrow> bool" where
  "aligned x \<longleftrightarrow> x mod 1048576 = 0"

lemma calc_adaptive_range:
  "default_part_size \<le> calc_adaptive_part_size n \<and> calc_adaptive_part_size n \<le> max_adaptive_part_size
     \<and> aligned (calc_adaptive_part_size n)"
  by (simp add: calc_adaptive_part_size_def Let_def default_part_size_def max_adaptive_part_size_def aligned_def)

lemma calc_adaptive_parts:
  assumes "0 < n" "n \<le> 10000 * max_adaptive_part_size"
  shows "n \<le> 10000 * calc_adaptive_part_size n"
proof -
  let ?p1 = "(n + 9999) div 10000"
  have q: "quot (wrap64 (n + 9999)) 10000 = ?p1"
    using assms by (intro adaptive_steps) (auto simp: max_adaptive_part_size_def max_int64_def)
  have p1: "n \<le> 10000 * ?p1" by linarith
  have "0 \<le> ?p1" using assms by simp
  then have "quot (?p1 + 1048576 - 1) 1048576 = (?p1 + 1048575) div 1048576" by (simp add: quot_nonneg)
  moreover have "?p1 \<le> (?p1 + 1048575) div 1048576 * 1048576" by linarith
  ultimately show ?thesis
    using p1 assms(2) by (auto simp: calc_adaptive_part_size_def Let_def q)
qed

lemma upload_memory:
  assumes "0 < ps"
  shows "bounded_upload_parallelism ps count * ps \<le> max upload_max_buffer_bytes ps"
proof -
  let ?p = "bounded_upload_parallelism ps count"
  have "?p \<le> by_memory ps"
    by (auto simp: bounded_upload_parallelism_def upload_parallelism_def by_memory_def Let_def
        upload_max_concurrency_def)
  then consider "?p \<le> 1" | "?p \<le> quot upload_max_buffer_bytes ps"
    using assms by (auto simp: by_memory_def max_def split: if_splits)
  then show ?thesis
  proof cases
    case 1
    then have "?p * ps \<le> 1 * ps" using assms by (intro mult_right_mono) auto
    then show ?thesis by simp
  next
    case 2
    then have "?p * ps \<le> quot upload_max_buffer_bytes ps * ps" using assms by (intro mult_right_mono) auto
    also have "\<dots> = upload_max_buffer_bytes div ps * ps"
      using assms by (simp add: quot_nonneg upload_max_buffer_bytes_def)
    also have "\<dots> \<le> upload_max_buffer_bytes"
      using assms by (simp add: minus_mod_eq_div_mult [symmetric])
    finally show ?thesis by simp
  qed
qed

lemma parallelism_pos: "1 \<le> bounded_upload_parallelism ps count \<and> bounded_upload_parallelism ps count \<le> 16"
  by (auto simp: bounded_upload_parallelism_def upload_parallelism_def Let_def upload_max_concurrency_def)

section \<open>The call sequence of an upload\<close>

record plan_v1 =
  p1_id :: string
  p1_part_size :: int
  p1_parts :: "(int \<times> int) list"

record plan_v2 =
  p2_id :: string
  p2_part_size :: int
  p2_total_parts :: int

record upload_result =
  ur_id :: string
  ur_mode :: string
  ur_part_size :: int
  ur_parts_total :: int
  ur_parts_uploaded :: int

datatype upload_call =
    Init_V2 int "int option" | Parts_V2 string | Complete_V2 string "(int \<times> string) list" | Abort_V2 string
  | Init_V1 int "string list" "int option" | Parts_V1 string | Complete_V1 string | Abort_V1 string
  | Active_Upload | Resume_Body string "string list" | Resume_Legacy string "string list"

text \<open>The answers of the service and of the part uploads, the bytes behind the reader, and \<open>%q\<close>.
  The part uploads run in goroutines and are the subject of \<open>Part_Uploader\<close>; here they return
  or panic, as they do when the service names a part that is larger than the buffers or has a
  number outside the plan.  The answer of an abort is not read by the code.\<close>

record upload_env =
  ue_init_v2 :: "go_error + plan_v2"
  ue_parts_v2 :: "plan_v2 \<Rightarrow> (go_error + (int \<times> string) list) run"
  ue_complete_v2 :: "go_error option"
  ue_init_v1 :: "go_error + plan_v1"
  ue_parts_v1 :: "plan_v1 \<Rightarrow> go_error option run"
  ue_complete_v1 :: "go_error option"
  ue_active :: "go_error + (string \<times> int) list"
  ue_resume :: "go_error + plan_v1"
  ue_resume_legacy :: "go_error + plan_v1"
  ue_content :: string
  ue_quote :: "string \<Rightarrow> string"

definition initiate_upload_v2 :: "upload_env \<Rightarrow> go_error + plan_v2" where
  "initiate_upload_v2 env =
     (case ue_init_v2 env of
        Inl e \<Rightarrow> Inl (if is_v2_not_available (ue_quote env) e then Sentinel Err_V2_Not_Available else e)
      | Inr plan \<Rightarrow> Inr plan)"

text \<open>\<open>CompleteUploadWithOptions\<close> and \<open>CompleteUploadV2\<close>: no call when the tags are invalid.\<close>

definition complete_upload :: "upload_env \<Rightarrow> string \<Rightarrow> (string \<times> string) list \<Rightarrow> upload_call list \<times> go_error option" where
  "complete_upload env uid tags =
     (case validate_tags tags of Some e \<Rightarrow> ([], Some e)
      | None \<Rightarrow> ([Complete_V1 uid], ue_complete_v1 env))"

definition complete_upload_v2 ::
  "upload_env \<Rightarrow> string \<Rightarrow> (int \<times> string) list \<Rightarrow> (string \<times> string) list \<Rightarrow> upload_call list \<times> go_error option" where
  "complete_upload_v2 env uid parts tags =
     (case validate_tags tags of Some e \<Rightarrow> ([], Some e)
      | None \<Rightarrow> ([Complete_V2 uid parts], ue_complete_v2 env))"

text \<open>\<open>uploadPartsV2\<close> allocates the list of results first: a negative number of parts panics.\<close>

definition upload_parts_v2 :: "upload_env \<Rightarrow> plan_v2 \<Rightarrow> (go_error + (int \<times> string) list) run" where
  "upload_parts_v2 env plan = (if p2_total_parts plan < 0 then Panic else ue_parts_v2 env plan)"

definition upload_file_v2 ::
  "upload_env \<Rightarrow> int \<Rightarrow> int option \<Rightarrow> (string \<times> string) list \<Rightarrow>
   (upload_call list \<times> (go_error + upload_result)) run" where
  "upload_file_v2 env nbytes expected tags =
     (let init = Init_V2 nbytes (expected_revision_ptr (expected_revision_of expected)) in
      case initiate_upload_v2 env of
        Inl e \<Rightarrow> Returns ([init], Inl e)
      | Inr plan \<Rightarrow>
          (case upload_parts_v2 env plan of
             Panic \<Rightarrow> Panic
           | Returns (Inl e) \<Rightarrow> Returns ([init, Parts_V2 (p2_id plan), Abort_V2 (p2_id plan)], Inl e)
           | Returns (Inr parts) \<Rightarrow>
               (case complete_upload_v2 env (p2_id plan) parts tags of
                  (calls, Some e) \<Rightarrow>
                    Returns ([init, Parts_V2 (p2_id plan)] @ calls @ [Abort_V2 (p2_id plan)], Inl e)
                | (calls, None) \<Rightarrow>
                    Returns ([init, Parts_V2 (p2_id plan)] @ calls,
                     Inr \<lparr>ur_id = p2_id plan, ur_mode = ''multipart_v2'', ur_part_size = part_size (p2_part_size plan),
                          ur_parts_total = p2_total_parts plan, ur_parts_uploaded = p2_total_parts plan\<rparr>))))"

definition upload_file_v1 ::
  "upload_env \<Rightarrow> int \<Rightarrow> int option \<Rightarrow> (string \<times> string) list \<Rightarrow>
   (upload_call list \<times> (go_error + upload_result)) run" where
  "upload_file_v1 env nbytes expected tags =
     (case compute_part_checksums (ue_content env) nbytes default_part_size of
        Panic \<Rightarrow> Panic
      | Returns (Inl e) \<Rightarrow> Returns ([], Inl e)
      | Returns (Inr checksums) \<Rightarrow>
          (let init = Init_V1 nbytes checksums (expected_revision_ptr (expected_revision_of expected)) in
           case ue_init_v1 env of
             Inl e \<Rightarrow> Returns ([init], Inl e)
           | Inr plan \<Rightarrow>
               (case ue_parts_v1 env plan of
                  Panic \<Rightarrow> Panic
                | Returns (Some e) \<Rightarrow> Returns ([init, Parts_V1 (p1_id plan), Abort_V1 (p1_id plan)], Inl e)
                | Returns None \<Rightarrow>
                    (case complete_upload env (p1_id plan) tags of
                       (calls, Some e) \<Rightarrow>
                         Returns ([init, Parts_V1 (p1_id plan)] @ calls @ [Abort_V1 (p1_id plan)], Inl e)
                     | (calls, None) \<Rightarrow>
                         Returns ([init, Parts_V1 (p1_id plan)] @ calls,
                          Inr \<lparr>ur_id = p1_id plan, ur_mode = ''multipart_v1'', ur_part_size = part_size (p1_part_size plan),
                               ur_parts_total = int (length (p1_parts plan)),
                               ur_parts_uploaded = int (length (p1_parts plan))\<rparr>)))))"

definition upload_file ::
  "upload_env \<Rightarrow> int \<Rightarrow> int option \<Rightarrow> (string \<times> string) list \<Rightarrow>
   (upload_call list \<times> (go_error + upload_result)) run" where
  "upload_file env nbytes expected tags =
     (if nbytes \<le> 0 then Returns ([], Inl (app_new ''fs.invalid_upload_size'' ''usage'' 2
        (Lit ''multipart upload requires a positive file size'')))
      else case validate_tags tags of
        Some e \<Rightarrow> Returns ([], Inl e)
      | None \<Rightarrow>
          (case upload_file_v2 env nbytes expected tags of
             Panic \<Rightarrow> Panic
           | Returns (tr, Inr r) \<Rightarrow> Returns (tr, Inr r)
           | Returns (tr, Inl e) \<Rightarrow>
               if \<not> is_v2_not_available (ue_quote env) e then Returns (tr, Inl e)
               else (case upload_file_v1 env nbytes expected tags of
                  Panic \<Rightarrow> Panic
                | Returns (tr', r) \<Rightarrow> Returns (tr @ tr', r))))"

definition request_resume :: "upload_env \<Rightarrow> string \<Rightarrow> string list \<Rightarrow> upload_call list \<times> (go_error + plan_v1)" where
  "request_resume env uid checksums =
     (case ue_resume env of
        Inr plan \<Rightarrow> ([Resume_Body uid checksums], Inr plan)
      | Inl e \<Rightarrow>
          if should_use_legacy_resume (ue_quote env) e
          then ([Resume_Body uid checksums, Resume_Legacy uid checksums], ue_resume_legacy env)
          else ([Resume_Body uid checksums], Inl e))"

definition active_upload :: "upload_env \<Rightarrow> string \<Rightarrow> go_error + (string \<times> int)" where
  "active_upload env path =
     (case ue_active env of
        Inl e \<Rightarrow> Inl e
      | Inr [] \<Rightarrow> Inl (app_new ''fs.upload_resume_missing'' ''runtime'' 1
          (Fmt ''no active upload exists for %q; run copy-file without --resume to start a fresh upload'' [Lit path]))
      | Inr (u # _) \<Rightarrow> Inr u)"

definition resume_upload ::
  "upload_env \<Rightarrow> string \<Rightarrow> int \<Rightarrow> (string \<times> string) list \<Rightarrow>
   (upload_call list \<times> (go_error + upload_result)) run" where
  "resume_upload env path nbytes tags =
     (if nbytes \<le> 0 then Returns ([], Inl (app_new ''fs.invalid_upload_size'' ''usage'' 2
        (Lit ''multipart upload resume requires a positive file size'')))
      else case validate_tags tags of
        Some e \<Rightarrow> Returns ([], Inl e)
      | None \<Rightarrow>
      (case active_upload env path of
         Inl e \<Rightarrow> Returns ([Active_Upload], Inl e)
       | Inr (uid, total_parts) \<Rightarrow>
      (case compute_part_checksums (ue_content env) nbytes default_part_size of
         Panic \<Rightarrow> Panic
       | Returns (Inl e) \<Rightarrow> Returns ([Active_Upload], Inl e)
       | Returns (Inr checksums) \<Rightarrow>
      (case request_resume env uid checksums of
         (calls, Inl e) \<Rightarrow> Returns (Active_Upload # calls, Inl e)
       | (calls, Inr plan) \<Rightarrow>
      (case ue_parts_v1 env plan of
         Panic \<Rightarrow> Panic
       | Returns (Some e) \<Rightarrow> Returns (Active_Upload # calls @ [Parts_V1 (p1_id plan)], Inl e)
       | Returns None \<Rightarrow>
      (case complete_upload env (p1_id plan) tags of
         (done, Some e) \<Rightarrow> Returns (Active_Upload # calls @ [Parts_V1 (p1_id plan)] @ done, Inl e)
       | (done, None) \<Rightarrow>
           Returns (Active_Upload # calls @ [Parts_V1 (p1_id plan)] @ done,
            Inr \<lparr>ur_id = p1_id plan, ur_mode = ''resume_v1'', ur_part_size = part_size (p1_part_size plan),
                 ur_parts_total = total_parts, ur_parts_uploaded = int (length (p1_parts plan))\<rparr>)))))))"

text \<open>
  What a run leaves on the service: an upload whose parts were sent is completed, with its
  completion accepted, or aborted.
\<close>

definition settled :: "upload_env \<Rightarrow> upload_call list \<Rightarrow> bool" where
  "settled env tr \<longleftrightarrow>
     (\<forall>c \<in> set tr. case c of
        Parts_V2 u \<Rightarrow> Abort_V2 u \<in> set tr \<or> (\<exists>ps. Complete_V2 u ps \<in> set tr) \<and> ue_complete_v2 env = None
      | Parts_V1 u \<Rightarrow> Abort_V1 u \<in> set tr \<or> Complete_V1 u \<in> set tr \<and> ue_complete_v1 env = None
      | _ \<Rightarrow> True)"

lemma settled_append: "settled env a \<Longrightarrow> settled env b \<Longrightarrow> settled env (a @ b)"
  unfolding settled_def by (fastforce split: upload_call.splits)

lemma upload_file_v2_settled: "upload_file_v2 env nbytes expected tags = Returns (tr, r) \<Longrightarrow> settled env tr"
  by (auto simp: upload_file_v2_def settled_def complete_upload_v2_def Let_def
      split: sum.splits option.splits prod.splits run.splits)

lemma upload_file_v1_settled: "upload_file_v1 env nbytes expected tags = Returns (tr, r) \<Longrightarrow> settled env tr"
  by (auto simp: upload_file_v1_def settled_def complete_upload_def Let_def
      split: sum.splits option.splits prod.splits run.splits)

lemma upload_file_v2_ok:
  "upload_file_v2 env nbytes expected tags = Returns (tr, Inr r) \<Longrightarrow>
     tr \<noteq> [] \<and> (\<exists>ps. last tr = Complete_V2 (ur_id r) ps) \<and> ue_complete_v2 env = None \<and> ur_mode r = ''multipart_v2''"
  by (auto simp: upload_file_v2_def complete_upload_v2_def Let_def
      split: sum.splits option.splits prod.splits run.splits)

lemma upload_file_v1_ok:
  "upload_file_v1 env nbytes expected tags = Returns (tr, Inr r) \<Longrightarrow>
     tr \<noteq> [] \<and> last tr = Complete_V1 (ur_id r) \<and> ue_complete_v1 env = None \<and> ur_mode r = ''multipart_v1''"
  by (auto simp: upload_file_v1_def complete_upload_def Let_def
      split: sum.splits option.splits prod.splits run.splits)

lemma upload_file_cases:
  assumes "upload_file env nbytes expected tags = Returns (tr, r)"
  shows "tr = [] \<or> upload_file_v2 env nbytes expected tags = Returns (tr, r)
     \<or> (\<exists>tr1 tr2 e. upload_file_v2 env nbytes expected tags = Returns (tr1, Inl e)
          \<and> upload_file_v1 env nbytes expected tags = Returns (tr2, r) \<and> tr = tr1 @ tr2)"
  using assms
  by (auto simp: upload_file_def split: if_splits option.splits prod.splits sum.splits run.splits)

lemma upload_file_settled: "upload_file env nbytes expected tags = Returns (tr, r) \<Longrightarrow> settled env tr"
  using upload_file_cases [of env nbytes expected tags tr r]
  by (auto dest: upload_file_v1_settled upload_file_v2_settled intro!: settled_append) (simp add: settled_def)

section \<open>Properties\<close>

text \<open>C8: An upload leaves nothing half-done: every upload whose parts were sent is aborted or its
  completion was accepted, whatever call fails, and a success is reported exactly for a
  completed upload.\<close>

theorem upload_file_settles:
  assumes "upload_file env nbytes expected tags = Returns (tr, r)"
  shows "settled env tr \<and> (case r of Inl e \<Rightarrow> True
    | Inr u \<Rightarrow> (if ur_mode u = ''multipart_v2'' then \<exists>ps. last tr = Complete_V2 (ur_id u) ps \<and> ue_complete_v2 env = None
               else last tr = Complete_V1 (ur_id u) \<and> ue_complete_v1 env = None))"
proof (cases r)
  case (Inr u)
  have ne: "tr \<noteq> []" using assms Inr
    by (auto simp: upload_file_def upload_file_v2_def Let_def
        split: if_splits option.splits prod.splits sum.splits run.splits)
  from upload_file_cases [OF assms] ne show ?thesis
    using Inr upload_file_settled [OF assms] by (auto dest: upload_file_v2_ok upload_file_v1_ok)
qed (use upload_file_settled [OF assms] in simp)

definition sample_upload_env :: upload_env where
  "sample_upload_env = \<lparr>ue_init_v2 = Inr \<lparr>p2_id = ''u2'', p2_part_size = 4, p2_total_parts = 1\<rparr>,
     ue_parts_v2 = \<lambda>_. Returns (Inr [(1, ''e'')]),
     ue_complete_v2 = Some (ApiErr ''api.not_found'' ''api'' 5 404 (Lit ''gone'') [] None),
     ue_init_v1 = Inr \<lparr>p1_id = ''u1'', p1_part_size = 4, p1_parts = [(1, 2)]\<rparr>,
     ue_parts_v1 = \<lambda>_. Returns None, ue_complete_v1 = None, ue_active = Inr [], ue_resume = Inl (Msg (Lit [])),
     ue_resume_legacy = Inl (Msg (Lit [])), ue_content = ''ab'', ue_quote = id\<rparr>"

lemma sample_upload:
  "upload_file sample_upload_env 2 None [] = Returns
     ([Init_V2 2 None, Parts_V2 ''u2'', Complete_V2 ''u2'' [(1, ''e'')], Abort_V2 ''u2'',
       Init_V1 2 [compute_crc32c ''ab''] None, Parts_V1 ''u1'', Complete_V1 ''u1''],
      Inr \<lparr>ur_id = ''u1'', ur_mode = ''multipart_v1'', ur_part_size = 4, ur_parts_total = 1, ur_parts_uploaded = 1\<rparr>)"
proof -
  have p: "part_count 2 8388608 = 1"
    by (simp add: part_count_eq max_int64_def)
  have c: "compute_part_checksums ''ab'' 2 8388608 = Returns (Inr [compute_crc32c ''ab''])"
    by (simp add: compute_part_checksums_def calc_parts_def p Let_def read_part_def)
  have a: "as_api (ApiErr x1 x2 x3 x4 x5 x6 None) = Some (ApiErr x1 x2 x3 x4 x5 x6 None)" for x1 x2 x3 x4 x5 x6
    by (simp add: as_api_def)
  show ?thesis
    by (simp add: upload_file_def upload_file_v2_def upload_parts_v2_def upload_file_v1_def sample_upload_env_def initiate_upload_v2_def
        complete_upload_v2_def complete_upload_def Let_def expected_revision_ptr_def expected_revision_of_def
        is_v2_not_available_def errors_is_def a c default_part_size_def)
qed

theorem upload_file_settles_witness:
  "settled sample_upload_env
     [Init_V2 2 None, Parts_V2 ''u2'', Complete_V2 ''u2'' [(1, ''e'')], Abort_V2 ''u2'',
       Init_V1 2 [compute_crc32c ''ab''] None, Parts_V1 ''u1'', Complete_V1 ''u1'']"
  using upload_file_settles [OF sample_upload] by simp

text \<open>The adaptive part size is a multiple of one MiB between 8 and 512 MiB, and cuts every file
  up to 10000 times the largest part into at most 10000 parts.\<close>

theorem adaptive_part_size_bounds:
  assumes "0 < n" "n \<le> 10000 * max_adaptive_part_size"
  shows "default_part_size \<le> calc_adaptive_part_size n \<and> calc_adaptive_part_size n \<le> max_adaptive_part_size
     \<and> aligned (calc_adaptive_part_size n) \<and> 0 < part_count n (calc_adaptive_part_size n)
     \<and> part_count n (calc_adaptive_part_size n) \<le> 10000"
proof -
  let ?ps = "calc_adaptive_part_size n"
  have ps: "default_part_size \<le> ?ps" "?ps \<le> max_adaptive_part_size" using calc_adaptive_range by auto
  then have pos: "0 < ?ps" by (simp add: default_part_size_def)
  have big: "n + ?ps \<le> max_int64" using assms ps by (simp add: max_adaptive_part_size_def max_int64_def)
  have "n \<le> 10000 * ?ps" using calc_adaptive_parts [OF assms] .
  then have "(part_count n ?ps - 1) * ?ps < 10000 * ?ps"
    using part_count_bounds(2) [OF assms(1) pos big] by linarith
  then have "part_count n ?ps - 1 < 10000" using pos by (simp add: mult_less_cancel_right)
  then show ?thesis
    using calc_adaptive_range part_count_bounds(1) [OF assms(1) pos big] by auto
qed

theorem adaptive_part_size_bounds_witness:
  "part_count 100000000000 (calc_adaptive_part_size 100000000000) \<le> 10000"
  using adaptive_part_size_bounds [of 100000000000] by (simp add: max_adaptive_part_size_def)

text \<open>The checksums of an upload are those of consecutive parts that together are the content,
  none larger than the part size.\<close>

theorem part_checksums_cover:
  assumes "content \<noteq> []" "0 < ps" "int (length content) + ps \<le> max_int64"
  shows "\<exists>parts. concat parts = content \<and> (\<forall>d \<in> set parts. d \<noteq> [] \<and> int (length d) \<le> ps)
     \<and> compute_part_checksums content (int (length content)) ps = Returns (Inr (map compute_crc32c parts))"
proof -
  let ?n = "int (length content)" and ?c = "nat (part_count (int (length content)) ps)"
  let ?parts = "map (\<lambda>i. chunk (nat ps) i content) [0..<?c]"
  have n: "0 < ?n" using assms(1) by simp
  note c = part_count_bounds [OF n assms(2,3)]
  have "?n \<le> int (?c * nat ps)" using c assms(2) by simp
  then have "length content \<le> ?c * nat ps" by (simp only: of_nat_le_iff)
  then have "concat ?parts = content" by (rule concat_chunks)
  moreover have "chunk (nat ps) i content \<noteq> []" if "i < ?c" for i
  proof -
    have "int i * ps \<le> (part_count ?n ps - 1) * ps" using that c(1) assms(2) by (intro mult_right_mono) auto
    then have "int i * ps < ?n" using c(2) by linarith
    then have "int (i * nat ps) < ?n" using assms(2) by simp
    then have "i * nat ps < length content" by linarith
    then show ?thesis using assms(2) by (simp add: chunk_def)
  qed
  moreover have "int (length (chunk (nat ps) i content)) \<le> ps" for i
    using assms(2) by (simp add: length_chunk)
  ultimately show ?thesis
    using checksums_of_chunks [OF assms] by (intro exI [of _ ?parts]) (auto simp: o_def)
qed

theorem part_checksums_cover_witness:
  "\<exists>parts. concat parts = ''abcde'' \<and> compute_part_checksums ''abcde'' 5 2 = Returns (Inr (map compute_crc32c parts))"
  using part_checksums_cover [of "''abcde''" 2] by (auto simp: max_int64_def)

text \<open>The buffers of an upload never hold more than 256 MiB unless a single part is larger, with
  between one and sixteen parts in flight.\<close>

theorem upload_buffers_bounded:
  assumes "0 < ps"
  shows "1 \<le> bounded_upload_parallelism ps n \<and> bounded_upload_parallelism ps n \<le> 16
     \<and> bounded_upload_parallelism ps n * ps \<le> max upload_max_buffer_bytes ps"
  using upload_memory [OF assms] parallelism_pos by blast

theorem upload_buffers_bounded_witness:
  "bounded_upload_parallelism 33554432 100 * 33554432 \<le> 268435456"
  using upload_buffers_bounded [of 33554432 100] by (simp add: upload_max_buffer_bytes_def)

end
