(* ===== verification/Fuse_File.thy ===== *)
theory Fuse_File
  imports Write_Back Meta_Store Upload_Parts
begin

text \<open>
  Open files of a FUSE mount (\<open>internal/fs/fuse_mount.go\<close>): the handle with its bytes, base
  version and dirty ranges, the registry of open handles, and the operations of handles and
  nodes on files the service holds; files of the local overlay and of git workspaces take
  other branches.  Handles are objects that several operations share, so they live in a store
  \<open>m_files\<close> from identities to handles; the registry is a list of identities, whose order
  stands for the order Go ranges over the map.  The client of the service is a record of its
  calls over the state \<open>'s\<close> of the service; the mount always has one, so the nil tests are left
  out.  The clock of an operation is \<open>m_now\<close>, the failures of the operating system are
  \<open>rt_io\<close> and \<open>rt_meta_io\<close>.  Every operation holds the handle's mutex, so an operation is one
  step.
\<close>

section \<open>Handles, the client and the mount\<close>

text \<open>The bits of the open flags the code tests.\<close>

record open_flags =
  fl_any_write :: bool
  fl_trunc :: bool
  fl_excl :: bool

record fuse_file =
  ff_path :: string
  ff_data :: string
  ff_version :: object_version
  ff_base_size :: int
  ff_writable :: bool
  ff_open_seq :: nat
  ff_flags :: open_flags
  ff_pid :: nat
  ff_dirty :: bool
  ff_ranges :: "dirty_range list"
  ff_force_whole :: bool
  ff_deleted :: bool
  ff_closed :: bool
  ff_mod_time :: int
  ff_mode :: "32 word"
  ff_commit :: bool

record 's fs_client =
  cl_stat_metadata :: "'s \<Rightarrow> string \<Rightarrow> go_error + stat_metadata_response"
  cl_stat :: "'s \<Rightarrow> string \<Rightarrow> go_error + stat_response"
  cl_read :: "'s \<Rightarrow> string \<Rightarrow> go_error + string"
  cl_write :: "'s \<Rightarrow> string \<Rightarrow> string \<Rightarrow> 's \<times> (go_error + int)"
  cl_patch :: "'s \<Rightarrow> string \<Rightarrow> int \<Rightarrow> int list \<Rightarrow> (int \<Rightarrow> int \<Rightarrow> string) \<Rightarrow> int \<Rightarrow> int \<Rightarrow> 's \<times> go_error option"
  cl_chmod :: "'s \<Rightarrow> string \<Rightarrow> int \<Rightarrow> 's \<times> go_error option"
  cl_delete :: "'s \<Rightarrow> string \<Rightarrow> 's \<times> go_error option"
  cl_rename :: "'s \<Rightarrow> string \<Rightarrow> string \<Rightarrow> 's \<times> go_error option"

text \<open>What does not change while the mount runs; \<open>rt_commit\<close> is the commit of a git file.\<close>

record 's fuse_rt =
  rt_client :: "'s fs_client"
  rt_read_only :: bool
  rt_meta_path :: string
  rt_store :: "wb_store option"
  rt_key :: "string \<Rightarrow> string"
  rt_quote :: "string \<Rightarrow> string"
  rt_io :: wb_io
  rt_meta_io :: meta_io
  rt_ids :: "int \<times> int"
  rt_commit :: "'s \<Rightarrow> fuse_file \<Rightarrow> 's \<times> go_error option"

record 's mount =
  m_service :: 's
  m_cache :: read_cache
  m_dir :: wb_dir
  m_meta :: "meta_file option"
  m_files :: "nat \<Rightarrow> fuse_file option"
  m_open :: "nat list"
  m_seq :: nat
  m_next :: nat
  m_now :: int

section \<open>Stat, read and upload\<close>

definition stat_version :: "'s fs_client \<Rightarrow> 's \<Rightarrow> int \<Rightarrow> string \<Rightarrow> go_error + remote_stat" where
  "stat_version c s now p = stat_fuse_remote_version (cl_stat_metadata c s) (cl_stat c s) now p"

definition stat_remote :: "'s fuse_rt \<Rightarrow> 's mount \<Rightarrow> string \<Rightarrow> go_error + remote_stat" where
  "stat_remote rt m p =
     (case stat_version (rt_client rt) (m_service m) (m_now m) p of
        Inl e \<Rightarrow> Inl e
      | Inr st \<Rightarrow> Inr (st\<lparr>rs_info := apply_file_info (rt_meta_path rt) (m_meta m) p (rs_info st)\<rparr>))"

definition cached_read :: "'s fuse_rt \<Rightarrow> 's mount \<Rightarrow> string \<Rightarrow> object_version \<Rightarrow> 's mount \<times> (go_error + string)" where
  "cached_read rt m p v =
     (case cache_get (m_cache m) (m_now m) p v of
        (c, Some data) \<Rightarrow> (m\<lparr>m_cache := c\<rparr>, Inr data)
      | (c, None) \<Rightarrow>
        (case cl_read (rt_client rt) (m_service m) p of
           Inl e \<Rightarrow> (m\<lparr>m_cache := c\<rparr>, Inl e)
         | Inr data \<Rightarrow> (m\<lparr>m_cache := cache_put c (m_now m) p data v\<rparr>, Inr data)))"

definition check_write_base :: "'s fs_client \<Rightarrow> 's \<Rightarrow> int \<Rightarrow> string \<Rightarrow> object_version \<Rightarrow> go_error option" where
  "check_write_base c s now p bv =
     (if \<not> version_known bv then None
      else case stat_version c s now p of
        Inl e \<Rightarrow>
          if errors_is (map_webdav_error e) Err_Not_Exist
          then Some (Wrapf (Fmt ''%w: remote file %q no longer exists''
                 [error_text (Sentinel Err_Write_Conflict), Lit p]) (Sentinel Err_Write_Conflict))
          else Some e
      | Inr st \<Rightarrow>
          if conflicts_with (rs_version st) bv
          then Some (Wrapf (Fmt ''%w: remote file %q changed since it was opened''
                 [error_text (Sentinel Err_Write_Conflict), Lit p]) (Sentinel Err_Write_Conflict))
          else None)"

definition total_dirty :: "dirty_range list \<Rightarrow> int" where
  "total_dirty rs =
     foldl (\<lambda>t r. if dr_end r > dr_start r then wrap64 (t + (dr_end r - dr_start r)) else t) 0 (merge_dirty_ranges rs)"

definition should_patch_fuse_write :: "object_version \<Rightarrow> int \<Rightarrow> int \<Rightarrow> dirty_range list \<Rightarrow> bool" where
  "should_patch_fuse_write bv base_size new_size rs =
     (if \<not> version_known bv \<or> revision bv \<le> 0 \<or> base_size \<le> 0 \<or> new_size \<le> 0 \<or> rs = [] then False
      else if new_size \<noteq> base_size then False
      else total_dirty rs > 0 \<and> total_dirty rs < new_size)"

definition patch_upload ::
  "'s fs_client \<Rightarrow> int \<Rightarrow> 's \<Rightarrow> string \<Rightarrow> string \<Rightarrow> object_version \<Rightarrow> int \<Rightarrow> dirty_range list
     \<Rightarrow> 's \<times> (go_error + object_version)" where
  "patch_upload c now s p data bv base_size rs =
     (let n = int (length data);
          ps = calc_adaptive_part_size (max base_size n);
          parts = fuse_dirty_parts rs ps n
      in if parts = [] then (s, Inr bv)
         else case cl_patch c s p n parts (patch_read_part data ps) ps (revision bv) of
           (s1, Some e) \<Rightarrow> (s1, Inl e)
         | (s1, None) \<Rightarrow>
           (case stat_version c s1 now p of Inl e \<Rightarrow> (s1, Inl e) | Inr st \<Rightarrow> (s1, Inr (rs_version st))))"

definition whole_upload :: "'s fs_client \<Rightarrow> 's \<Rightarrow> string \<Rightarrow> string \<Rightarrow> object_version \<Rightarrow> 's \<times> (go_error + object_version)" where
  "whole_upload c s p data bv =
     (case cl_write c s p data of
        (s1, Inl e) \<Rightarrow> (s1, Inl e)
      | (s1, Inr r) \<Rightarrow> (s1, Inr (with_revision bv r)))"

definition fuse_upload :: "(string \<Rightarrow> string) \<Rightarrow> 's fs_client \<Rightarrow> int \<Rightarrow> 's uploader" where
  "fuse_upload q c now s p data bv base_size rs =
     (case check_write_base c s now p bv of
        Some e \<Rightarrow> (s, Inl e)
      | None \<Rightarrow>
        if should_patch_fuse_write bv base_size (int (length data)) rs then
          (case patch_upload c now s p data bv base_size rs of
             (s1, Inr v) \<Rightarrow> (s1, Inr v)
           | (s1, Inl e) \<Rightarrow>
             if \<not> should_fallback_fuse_patch q e then (s1, Inl e) else whole_upload c s1 p data bv)
        else whole_upload c s p data bv)"

definition write_file_with_dirty ::
  "'s fuse_rt \<Rightarrow> 's mount \<Rightarrow> string \<Rightarrow> string \<Rightarrow> object_version \<Rightarrow> int \<Rightarrow> dirty_range list
     \<Rightarrow> 's mount \<times> (go_error + object_version)" where
  "write_file_with_dirty rt m p data bv base_size rs =
     (case put_and_upload (rt_key rt) (rt_io rt) (m_now m, m_now m)
             (fuse_upload (rt_quote rt) (rt_client rt) (m_now m)) (rt_store rt) (m_dir m) (m_service m)
             p data bv base_size rs of
        (d, s, (v, Some e)) \<Rightarrow>
          (m\<lparr>m_dir := d, m_service := s, m_cache := cache_invalidate (m_cache m) p\<rparr>, Inl e)
      | (d, s, (v, None)) \<Rightarrow>
          (m\<lparr>m_dir := d, m_service := s, m_cache := cache_put (m_cache m) (m_now m) p data v\<rparr>, Inr v))"

definition write_file :: "'s fuse_rt \<Rightarrow> 's mount \<Rightarrow> string \<Rightarrow> string \<Rightarrow> object_version \<Rightarrow> 's mount \<times> (go_error + object_version)" where
  "write_file rt m p data bv =
     write_file_with_dirty rt m p data bv (int (length data)) [Dirty_Range 0 (int (length data))]"

definition recover_pending :: "'s fuse_rt \<Rightarrow> 's mount \<Rightarrow> 's mount \<times> (go_error + nat)" where
  "recover_pending rt m =
     (case wb_recover (rt_key rt) (rt_io rt) (fuse_upload (rt_quote rt) (rt_client rt) (m_now m))
             (rt_store rt) (m_dir m) (m_service m) of
        (d, s, r) \<Rightarrow> (m\<lparr>m_dir := d, m_service := s\<rparr>, r))"

section \<open>Operations of a handle\<close>

definition mark_dirty_range :: "fuse_file \<Rightarrow> int \<Rightarrow> int \<Rightarrow> fuse_file" where
  "mark_dirty_range f a b =
     (if b < a then f else f\<lparr>ff_ranges := merge_dirty_ranges (ff_ranges f @ [Dirty_Range a b])\<rparr>)"

definition file_read :: "fuse_file \<Rightarrow> nat \<Rightarrow> int \<Rightarrow> (errno + string) run" where
  "file_read f count off =
     (let n = int (length (ff_data f)) in
      if off < 0 then Returns (Inl EINVAL)
      else if off \<ge> n then Returns (Inr [])
      else let e0 = wrap64 (off + int count); e = (if e0 > n then n else e0) in
        if e < off then Panic
        else Returns (Inr (take (nat (e - off)) (drop (nat off) (ff_data f)))))"

definition file_write :: "int \<Rightarrow> fuse_file \<Rightarrow> string \<Rightarrow> int \<Rightarrow> (fuse_file \<times> (errno + int)) run" where
  "file_write now f bs off =
     (if \<not> ff_writable f then Returns (f, Inl EPERM)
      else if off < 0 then Returns (f, Inl EINVAL)
      else let e = wrap64 (off + int (length bs)); n = int (length (ff_data f)) in
        if e > max_int64 then Returns (f, Inl EFBIG)
        else if e > n \<and> e > max_alloc then Panic
        else let d = (if e > n then ff_data f @ replicate (nat (e - n)) (CHR 0x00) else ff_data f) in
          if e < off then Panic
          else Returns
            ((mark_dirty_range (f\<lparr>ff_data := take (nat off) d @ bs @ drop (nat e) d, ff_dirty := True\<rparr>) off e)
               \<lparr>ff_mod_time := now\<rparr>, Inr (int (length bs) mod 4294967296)))"

text \<open>\<open>setattrLocked\<close> with the size and the mode of the request, when it has them.\<close>

definition setattr_locked :: "int \<Rightarrow> fuse_file \<Rightarrow> nat option \<Rightarrow> 32 word option \<Rightarrow> (fuse_file \<times> errno) run" where
  "setattr_locked now f sz mode =
     (case (case sz of
             None \<Rightarrow> Returns (f, OK)
           | Some n \<Rightarrow>
             if \<not> ff_writable f then Returns (f, EPERM)
             else case resize_fuse_data (ff_data f) n of
               Panic \<Rightarrow> Panic
             | Returns (Inl e) \<Rightarrow> Returns (f, e)
             | Returns (Inr d) \<Rightarrow>
                 Returns (f\<lparr>ff_data := d, ff_dirty := True, ff_force_whole := True, ff_mod_time := now\<rparr>, OK)) of
        Panic \<Rightarrow> Panic
      | Returns r \<Rightarrow>
         if snd r \<noteq> OK then Returns r
         else (case mode of
           None \<Rightarrow> Returns r
         | Some md \<Rightarrow> Returns ((fst r)\<lparr>ff_mode := md, ff_dirty := True, ff_force_whole := True\<rparr>, OK)))"

definition file_getattr :: "int \<times> int \<Rightarrow> int \<Rightarrow> fuse_file \<Rightarrow> fuse_attr" where
  "file_getattr ids now f = fill_fuse_attr_for_handle ids now (ff_path f) (ff_data f) (ff_mode f)"

definition flushed :: "fuse_file \<Rightarrow> fuse_file" where
  "flushed f = f\<lparr>ff_base_size := int (length (ff_data f)), ff_ranges := [], ff_force_whole := False, ff_dirty := False\<rparr>"

text \<open>\<open>flushLocked\<close>: the mount and the handle after it, and the error number.\<close>

definition flush_locked :: "'s fuse_rt \<Rightarrow> 's mount \<Rightarrow> fuse_file \<Rightarrow> 's mount \<times> fuse_file \<times> errno" where
  "flush_locked rt m f =
     (if \<not> ff_writable f \<or> \<not> ff_dirty f then (m, f, OK)
      else if ff_deleted f then (m, f\<lparr>ff_dirty := False\<rparr>, OK)
      else if ff_commit f then
        (case rt_commit rt (m_service m) f of
           (s, Some e) \<Rightarrow> (m\<lparr>m_service := s\<rparr>, f, fuse_errno (Some e))
         | (s, None) \<Rightarrow> (m\<lparr>m_service := s\<rparr>, flushed f, OK))
      else
        (let rs = (if ff_force_whole f then [Dirty_Range 0 (int (length (ff_data f)))] else ff_ranges f) in
         case write_file_with_dirty rt m (ff_path f) (ff_data f) (ff_version f) (ff_base_size f) rs of
           (m1, Inl e) \<Rightarrow> (m1, f, fuse_errno (Some e))
         | (m1, Inr v) \<Rightarrow> (m1, flushed (f\<lparr>ff_version := v\<rparr>), OK)))"

definition refresh_after_path_truncate :: "string \<Rightarrow> object_version \<Rightarrow> fuse_file \<Rightarrow> fuse_file" where
  "refresh_after_path_truncate p v f =
     (if ff_closed f \<or> ff_deleted f \<or> \<not> ff_writable f \<or> ff_path f \<noteq> p then f
      else if \<not> fl_trunc (ff_flags f) then f
      else f\<lparr>ff_version := v\<rparr>)"

definition retarget_handle :: "string \<Rightarrow> string \<Rightarrow> object_version \<Rightarrow> fuse_file \<Rightarrow> fuse_file" where
  "retarget_handle source target v f =
     (if in_tree source (ff_path f)
      then (let f1 = f\<lparr>ff_path := retarget_path source target (ff_path f)\<rparr>
            in if version_known v then f1\<lparr>ff_version := v\<rparr> else f1)
      else f)"

definition mark_deleted :: "string \<Rightarrow> fuse_file \<Rightarrow> fuse_file" where
  "mark_deleted p f = (if in_tree p (ff_path f) then f\<lparr>ff_deleted := True\<rparr> else f)"
section \<open>The registry of open handles\<close>

definition update_handle :: "'s mount \<Rightarrow> nat \<Rightarrow> (fuse_file \<Rightarrow> fuse_file) \<Rightarrow> 's mount" where
  "update_handle m i g = m\<lparr>m_files := (m_files m)(i := map_option g (m_files m i))\<rparr>"

definition register_open_handle :: "'s mount \<Rightarrow> nat \<Rightarrow> 's mount" where
  "register_open_handle m i =
     (let m1 = update_handle m i (\<lambda>f. f\<lparr>ff_open_seq := m_seq m + 1\<rparr>)
      in m1\<lparr>m_seq := m_seq m + 1, m_open := (if i \<in> set (m_open m) then m_open m else m_open m @ [i])\<rparr>)"

definition unregister_open_handle :: "'s mount \<Rightarrow> nat \<Rightarrow> 's mount" where
  "unregister_open_handle m i = m\<lparr>m_open := removeAll i (m_open m)\<rparr>"

text \<open>An operation on each registered handle, in the order they are visited.\<close>

definition each_open_handle :: "(fuse_file \<Rightarrow> fuse_file) \<Rightarrow> 's mount \<Rightarrow> 's mount" where
  "each_open_handle g m = foldl (\<lambda>m i. update_handle m i g) m (m_open m)"

definition retarget_open_handles :: "'s mount \<Rightarrow> string \<Rightarrow> string \<Rightarrow> object_version \<Rightarrow> 's mount" where
  "retarget_open_handles m source target v = each_open_handle (retarget_handle source target v) m"

definition mark_deleted_open_handles :: "'s mount \<Rightarrow> string \<Rightarrow> 's mount" where
  "mark_deleted_open_handles m p = each_open_handle (mark_deleted p) m"

definition writable_for_path :: "string \<Rightarrow> fuse_file \<Rightarrow> bool" where
  "writable_for_path p f \<longleftrightarrow> \<not> ff_closed f \<and> \<not> ff_deleted f \<and> ff_writable f \<and> ff_path f = p"

definition writable_open_handles :: "'s mount \<Rightarrow> string \<Rightarrow> nat list" where
  "writable_open_handles m p =
     filter (\<lambda>i. case m_files m i of None \<Rightarrow> False | Some f \<Rightarrow> writable_for_path p f) (m_open m)"

definition refresh_open_handles_after_path_truncate :: "'s mount \<Rightarrow> string \<Rightarrow> object_version \<Rightarrow> 's mount" where
  "refresh_open_handles_after_path_truncate m p v =
     foldl (\<lambda>m i. update_handle m i (refresh_after_path_truncate p v)) m (writable_open_handles m p)"

text \<open>\<open>adoptSingleCallerPathSetattr\<close>: None when the request is not adopted by a handle; process 0
  stands for a caller that is not known.\<close>

definition adopt_single_caller_path_setattr ::
  "'s mount \<Rightarrow> nat \<Rightarrow> string \<Rightarrow> nat option \<Rightarrow> 32 word option \<Rightarrow> ('s mount \<times> errno) run option" where
  "adopt_single_caller_path_setattr m pid p sz mode =
     (if pid = 0 then None
      else case writable_open_handles m p of
        [i] \<Rightarrow>
          (case m_files m i of
             None \<Rightarrow> None
           | Some f \<Rightarrow>
             if ff_pid f \<noteq> pid then None
             else (case setattr_locked (m_now m) f sz mode of
                 Panic \<Rightarrow> Some Panic
               | Returns (f1, e) \<Rightarrow> Some (Returns (m\<lparr>m_files := (m_files m)(i \<mapsto> f1)\<rparr>, e))))
      | _ \<Rightarrow> None)"

definition dirty_for_path :: "string \<Rightarrow> fuse_file \<Rightarrow> bool" where
  "dirty_for_path p f \<longleftrightarrow> \<not> ff_closed f \<and> \<not> ff_deleted f \<and> ff_path f = p \<and> ff_dirty f"

text \<open>The loop of \<open>dirtyOpenHandleData\<close>: the dirty handle of the path that was opened last.\<close>

fun latest_dirty :: "(nat \<Rightarrow> fuse_file option) \<Rightarrow> string \<Rightarrow> nat list \<Rightarrow> fuse_file option \<Rightarrow> fuse_file option" where
  "latest_dirty fs p [] best = best"
| "latest_dirty fs p (i # is) best =
     latest_dirty fs p is
       (case fs i of
          None \<Rightarrow> best
        | Some f \<Rightarrow>
          if dirty_for_path p f \<and> (case best of None \<Rightarrow> True | Some b \<Rightarrow> ff_open_seq f > ff_open_seq b)
          then Some f else best)"

definition dirty_open_handle_data :: "'s mount \<Rightarrow> string \<Rightarrow> (string \<times> object_version) option" where
  "dirty_open_handle_data m p =
     map_option (\<lambda>f. (ff_data f, ff_version f)) (latest_dirty (m_files m) p (m_open m) None)"

definition new_remote_fuse_file ::
  "'s mount \<Rightarrow> string \<Rightarrow> string \<Rightarrow> bool \<Rightarrow> bool \<Rightarrow> object_version \<Rightarrow> 's mount \<times> nat" where
  "new_remote_fuse_file m p data writable dirty v =
     (let h = \<lparr>ff_path = p, ff_data = data, ff_version = v, ff_base_size = int (length data),
             ff_writable = writable, ff_open_seq = 0,
             ff_flags = \<lparr>fl_any_write = False, fl_trunc = False, fl_excl = False\<rparr>, ff_pid = 0,
             ff_dirty = dirty, ff_ranges = [], ff_force_whole = False, ff_deleted = False,
             ff_closed = False, ff_mod_time = m_now m, ff_mode = 0, ff_commit = False\<rparr>;
          h1 = (if dirty then mark_dirty_range h 0 (int (length data)) else h);
          i = m_next m
      in (register_open_handle (m\<lparr>m_files := (m_files m)(i \<mapsto> h1), m_next := i + 1\<rparr>) i, i))"

definition with_open_context :: "'s mount \<Rightarrow> nat \<Rightarrow> nat \<Rightarrow> open_flags \<Rightarrow> 's mount" where
  "with_open_context m i pid flags = update_handle m i (\<lambda>f. f\<lparr>ff_flags := flags, ff_pid := pid\<rparr>)"

section \<open>Operations of handles through the registry\<close>

definition op_write :: "'s mount \<Rightarrow> nat \<Rightarrow> string \<Rightarrow> int \<Rightarrow> ('s mount \<times> (errno + int)) run" where
  "op_write m i bs off =
     (case m_files m i of
        None \<Rightarrow> Panic
      | Some f \<Rightarrow>
        (case file_write (m_now m) f bs off of
           Panic \<Rightarrow> Panic
         | Returns (f1, r) \<Rightarrow> Returns (m\<lparr>m_files := (m_files m)(i \<mapsto> f1)\<rparr>, r)))"

definition op_flush :: "'s fuse_rt \<Rightarrow> 's mount \<Rightarrow> nat \<Rightarrow> 's mount \<times> errno" where
  "op_flush rt m i =
     (case m_files m i of
        None \<Rightarrow> (m, OK)
      | Some f \<Rightarrow>
        (case flush_locked rt m f of (m1, f1, e) \<Rightarrow> (m1\<lparr>m_files := (m_files m1)(i \<mapsto> f1)\<rparr>, e)))"

text \<open>\<open>Release\<close> closes the handle before it flushes, and unregisters it whatever the flush says.\<close>

definition op_release :: "'s fuse_rt \<Rightarrow> 's mount \<Rightarrow> nat \<Rightarrow> 's mount \<times> errno" where
  "op_release rt m i =
     (case m_files m i of
        None \<Rightarrow> (m, OK)
      | Some f \<Rightarrow>
        if ff_closed f then (m, OK)
        else (case flush_locked rt m (f\<lparr>ff_closed := True\<rparr>) of
          (m1, f1, e) \<Rightarrow> (unregister_open_handle (m1\<lparr>m_files := (m_files m1)(i \<mapsto> f1)\<rparr>) i, e)))"

definition op_setattr :: "'s mount \<Rightarrow> nat \<Rightarrow> nat option \<Rightarrow> 32 word option \<Rightarrow> ('s mount \<times> errno) run" where
  "op_setattr m i sz mode =
     (case m_files m i of
        None \<Rightarrow> Panic
      | Some f \<Rightarrow>
        (case setattr_locked (m_now m) f sz mode of
           Panic \<Rightarrow> Panic
         | Returns (f1, e) \<Rightarrow> Returns (m\<lparr>m_files := (m_files m)(i \<mapsto> f1)\<rparr>, e)))"

section \<open>Operations of a node on a file of the service\<close>

definition open_remote :: "'s fuse_rt \<Rightarrow> 's mount \<Rightarrow> nat \<Rightarrow> string \<Rightarrow> open_flags \<Rightarrow> 's mount \<times> (errno + nat)" where
  "open_remote rt m pid p flags =
     (let writable = fl_any_write flags in
      if writable \<and> rt_read_only rt then (m, Inl EROFS)
      else case stat_remote rt m p of
        Inl e \<Rightarrow> (m, Inl (fuse_errno (Some e)))
      | Inr st \<Rightarrow>
        if info_is_dir (rs_info st) then (m, Inl EISDIR)
        else
          (let r = (if \<not> writable \<or> \<not> fl_trunc flags
                 then (case dirty_open_handle_data m p of
                     Some (data, v) \<Rightarrow> (m, Inr (data, v))
                   | None \<Rightarrow>
                     (case cached_read rt m p (rs_version st) of
                        (m1, Inl e) \<Rightarrow> (m1, Inl (fuse_errno (Some e)))
                      | (m1, Inr data) \<Rightarrow> (m1, Inr (data, rs_version st))))
                 else (m, Inr ([], rs_version st)))
           in case r of
             (m1, Inl e) \<Rightarrow> (m1, Inl e)
           | (m1, Inr (data, v)) \<Rightarrow>
             (let (m2, i) = new_remote_fuse_file m1 p data writable (writable \<and> fl_trunc flags) v
              in (with_open_context m2 i pid flags, Inr i))))"

definition create_remote :: "'s fuse_rt \<Rightarrow> 's mount \<Rightarrow> nat \<Rightarrow> string \<Rightarrow> open_flags \<Rightarrow> 's mount \<times> (errno + nat)" where
  "create_remote rt m pid p flags =
     (if rt_read_only rt then (m, Inl EROFS)
      else
       (let clash = (if fl_excl flags
              then (case stat_remote rt m p of
                  Inr _ \<Rightarrow> Some EEXIST
                | Inl e \<Rightarrow> if \<not> errors_is (map_webdav_error e) Err_Not_Exist then Some (fuse_errno (Some e)) else None)
              else None)
        in case clash of
          Some e \<Rightarrow> (m, Inl e)
        | None \<Rightarrow>
          (case write_file rt m p [] no_version of
             (m1, Inl e) \<Rightarrow> (m1, Inl (fuse_errno (Some e)))
           | (m1, Inr v) \<Rightarrow>
             (let (m2, i) = new_remote_fuse_file m1 p [] True False v
              in (with_open_context m2 i pid flags, Inr i)))))"

text \<open>The truncation part of a node's \<open>Setattr\<close>.\<close>

definition truncate_remote ::
  "'s fuse_rt \<Rightarrow> 's mount \<Rightarrow> string \<Rightarrow> object_version \<Rightarrow> nat option \<Rightarrow> ('s mount \<times> errno) run" where
  "truncate_remote rt m p v sz =
     (case sz of
        None \<Rightarrow> Returns (m, OK)
      | Some n \<Rightarrow>
        (case cached_read rt m p v of
           (m1, Inl e) \<Rightarrow> Returns (m1, fuse_errno (Some e))
         | (m1, Inr data) \<Rightarrow>
           (case resize_fuse_data data n of
              Panic \<Rightarrow> Panic
            | Returns (Inl e) \<Rightarrow> Returns (m1, e)
            | Returns (Inr resized) \<Rightarrow>
              (case write_file rt m1 p resized v of
                 (m2, Inl e) \<Rightarrow> Returns (m2, fuse_errno (Some e))
               | (m2, Inr w) \<Rightarrow> Returns (refresh_open_handles_after_path_truncate m2 p w, OK)))))"

text \<open>The rest of \<open>Setattr\<close> after the truncation: the mode, then the attributes of the answer.\<close>

definition chmod_remote :: "'s fuse_rt \<Rightarrow> 's mount \<Rightarrow> string \<Rightarrow> 32 word option \<Rightarrow> 's mount \<times> errno" where
  "chmod_remote rt m p mode =
     (case mode of
        None \<Rightarrow> (m, OK)
      | Some md \<Rightarrow>
        (case cl_chmod (rt_client rt) (m_service m) p (uint md) of
           (s, Some e) \<Rightarrow> (m\<lparr>m_service := s\<rparr>, fuse_errno (Some e))
         | (s, None) \<Rightarrow>
           (m\<lparr>m_service := s,
              m_meta := fst (meta_set_mode (rt_meta_path rt) (rt_meta_io rt) (m_meta m) p (uint md))\<rparr>, OK)))"

definition finish_setattr ::
  "'s fuse_rt \<Rightarrow> 's mount \<Rightarrow> string \<Rightarrow> nat option \<Rightarrow> 32 word option \<Rightarrow> 's mount \<times> errno" where
  "finish_setattr rt m p sz mode =
     (case chmod_remote rt m p mode of (m1, e) \<Rightarrow>
        if e \<noteq> OK then (m1, e)
        else if sz \<noteq> None then (m1, OK)
        else (m1, case stat_remote rt m1 p of Inl x \<Rightarrow> fuse_errno (Some x) | Inr _ \<Rightarrow> OK))"

text \<open>\<open>Setattr\<close> of a node without a handle, with a size or a mode; \<open>sets_time\<close> says whether the
  request sets a time, which the code accepts and ignores.\<close>

definition setattr_remote ::
  "'s fuse_rt \<Rightarrow> 's mount \<Rightarrow> nat \<Rightarrow> string \<Rightarrow> nat option \<Rightarrow> 32 word option \<Rightarrow> bool \<Rightarrow> ('s mount \<times> errno) run" where
  "setattr_remote rt m pid p sz mode sets_time =
     (if sz = None \<and> mode = None \<and> \<not> sets_time
      then Returns (m, case stat_remote rt m p of Inl e \<Rightarrow> fuse_errno (Some e) | Inr _ \<Rightarrow> OK)
      else if rt_read_only rt then Returns (m, EROFS)
      else case (if sz \<noteq> None then adopt_single_caller_path_setattr m pid p sz mode else None) of
        Some r \<Rightarrow> r
      | None \<Rightarrow>
        (case stat_remote rt m p of
           Inl e \<Rightarrow> Returns (m, fuse_errno (Some e))
         | Inr st \<Rightarrow>
           if info_is_dir (rs_info st) \<and> sz \<noteq> None then Returns (m, EISDIR)
           else
             (case truncate_remote rt m p (rs_version st) sz of
                Panic \<Rightarrow> Panic
              | Returns (m1, e) \<Rightarrow>
                  if e \<noteq> OK then Returns (m1, e) else Returns (finish_setattr rt m1 p sz mode))))"

definition unlink_remote :: "'s fuse_rt \<Rightarrow> 's mount \<Rightarrow> string \<Rightarrow> bool \<Rightarrow> 's mount \<times> errno" where
  "unlink_remote rt m p dir =
     (if rt_read_only rt then (m, EROFS)
      else case cl_delete (rt_client rt) (m_service m) p of
        (s, Some e) \<Rightarrow> (m\<lparr>m_service := s\<rparr>, fuse_errno (Some e))
      | (s, None) \<Rightarrow>
        (mark_deleted_open_handles
           (m\<lparr>m_service := s,
              m_meta := fst (meta_remove (rt_meta_path rt) (rt_meta_io rt) (m_meta m) p dir),
              m_cache := cache_invalidate_prefix (m_cache m) p\<rparr>) p, OK))"

definition rename_remote :: "'s fuse_rt \<Rightarrow> 's mount \<Rightarrow> string \<Rightarrow> string \<Rightarrow> 's mount \<times> errno" where
  "rename_remote rt m source target =
     (if rt_read_only rt then (m, EROFS)
      else case cl_rename (rt_client rt) (m_service m) source target of
        (s, Some e) \<Rightarrow> (m\<lparr>m_service := s\<rparr>, fuse_errno (Some e))
      | (s, None) \<Rightarrow>
        (let v = (case stat_version (rt_client rt) s (m_now m) target of Inr st \<Rightarrow> rs_version st | Inl _ \<Rightarrow> no_version);
             m1 = m\<lparr>m_service := s,
                m_meta := fst (meta_move (rt_meta_path rt) (rt_meta_io rt) (m_meta m) source target),
                m_cache := cache_invalidate_prefix (cache_invalidate_prefix (m_cache m) source) target\<rparr>
         in (retarget_open_handles m1 source target v, OK)))"
section \<open>What the service promises\<close>

text \<open>
  \<open>content s p\<close> is the object at \<open>p\<close>, \<open>hist s p r\<close> the bytes it had at revision \<open>r\<close>.  The laws
  are those of the service's interface: a stat names the revision of the current bytes, a
  write replaces the object and nothing else, a patch that is accepted was made against the
  expected revision and puts the object together as \<open>patched_object\<close> says, and what a revision
  named once it names for ever.
\<close>

definition keeps_history :: "('s \<Rightarrow> string \<Rightarrow> int \<Rightarrow> string option) \<Rightarrow> 's \<Rightarrow> 's \<Rightarrow> bool" where
  "keeps_history hist s s' \<longleftrightarrow> (\<forall>p r x. hist s p r = Some x \<longrightarrow> hist s' p r = Some x)"

definition only_path :: "('s \<Rightarrow> string \<Rightarrow> string option) \<Rightarrow> 's \<Rightarrow> 's \<Rightarrow> string \<Rightarrow> bool" where
  "only_path content s s' p \<longleftrightarrow> (\<forall>q. q \<noteq> p \<longrightarrow> content s' q = content s q)"

definition stat_law :: "'s fs_client \<Rightarrow> ('s \<Rightarrow> string \<Rightarrow> string option) \<Rightarrow> ('s \<Rightarrow> string \<Rightarrow> int \<Rightarrow> string option) \<Rightarrow> bool" where
  "stat_law c content hist \<longleftrightarrow> (\<forall>s now p st. stat_version c s now p = Inr st \<longrightarrow>
     (\<not> info_is_dir (rs_info st) \<longrightarrow> content s p \<noteq> None) \<and>
     (\<forall>x. content s p = Some x \<longrightarrow> revision (rs_version st) > 0 \<longrightarrow>
        hist s p (revision (rs_version st)) = Some x))"

definition read_law :: "'s fs_client \<Rightarrow> ('s \<Rightarrow> string \<Rightarrow> string option) \<Rightarrow> bool" where
  "read_law c content \<longleftrightarrow> (\<forall>s p x. cl_read c s p = Inr x \<longrightarrow>
     content s p = Some x \<and> int (length x) \<le> max_int64)"

definition write_law :: "'s fs_client \<Rightarrow> ('s \<Rightarrow> string \<Rightarrow> string option) \<Rightarrow> ('s \<Rightarrow> string \<Rightarrow> int \<Rightarrow> string option) \<Rightarrow> bool" where
  "write_law c content hist \<longleftrightarrow> (\<forall>s p x s' r. cl_write c s p x = (s', Inr r) \<longrightarrow>
     r > 0 \<and> content s' p = Some x \<and> hist s' p r = Some x \<and> only_path content s s' p)"

definition patch_law :: "'s fs_client \<Rightarrow> ('s \<Rightarrow> string \<Rightarrow> string option) \<Rightarrow> ('s \<Rightarrow> string \<Rightarrow> int \<Rightarrow> string option) \<Rightarrow> bool" where
  "patch_law c content hist \<longleftrightarrow> (\<forall>s p n parts rp ps er s'. cl_patch c s p n parts rp ps er = (s', None) \<longrightarrow>
     (\<exists>old. content s p = Some old \<and> hist s p er = Some old \<and>
       content s' p = Some (patched_object old (nat n) (nat ps) parts rp)) \<and>
     only_path content s s' p)"

text \<open>A failing patch leaves the objects; no call forgets the history.\<close>

definition patch_error_law :: "'s fs_client \<Rightarrow> ('s \<Rightarrow> string \<Rightarrow> string option) \<Rightarrow> bool" where
  "patch_error_law c content \<longleftrightarrow> (\<forall>s p n parts rp ps er s' e.
     cl_patch c s p n parts rp ps er = (s', Some e) \<longrightarrow> content s' = content s)"

definition history_law :: "'s fs_client \<Rightarrow> ('s \<Rightarrow> string \<Rightarrow> int \<Rightarrow> string option) \<Rightarrow> bool" where
  "history_law c hist \<longleftrightarrow> (\<forall>s p x n parts rp ps er md.
     keeps_history hist s (fst (cl_write c s p x)) \<and>
     keeps_history hist s (fst (cl_patch c s p n parts rp ps er)) \<and>
     keeps_history hist s (fst (cl_chmod c s p md)) \<and>
     keeps_history hist s (fst (cl_delete c s p)) \<and>
     (\<forall>q. keeps_history hist s (fst (cl_rename c s p q))))"

definition service_ok :: "'s fs_client \<Rightarrow> ('s \<Rightarrow> string \<Rightarrow> string option) \<Rightarrow> ('s \<Rightarrow> string \<Rightarrow> int \<Rightarrow> string option) \<Rightarrow> bool" where
  "service_ok c content hist \<longleftrightarrow> stat_law c content hist \<and> read_law c content \<and> write_law c content hist
     \<and> patch_law c content hist \<and> patch_error_law c content \<and> history_law c hist"

section \<open>What a handle knows of the object\<close>

definition ranges_within :: "fuse_file \<Rightarrow> bool" where
  "ranges_within f \<longleftrightarrow> (\<forall>x. covered (ff_ranges f) x \<longrightarrow> x < int (length (ff_data f)))"

text \<open>
  Outside the dirty ranges a handle agrees with the object at its version, unless the next
  flush uploads the whole file anyway.
\<close>

definition agrees_with_base :: "fuse_file \<Rightarrow> string \<Rightarrow> bool" where
  "agrees_with_base f base \<longleftrightarrow> int (length base) = ff_base_size f \<and> length base \<le> length (ff_data f) \<and>
     (\<forall>x < length base. \<not> covered (ff_ranges f) (int x) \<longrightarrow> base ! x = ff_data f ! x)"

definition handle_synced :: "('s \<Rightarrow> string \<Rightarrow> int \<Rightarrow> string option) \<Rightarrow> 's \<Rightarrow> fuse_file \<Rightarrow> bool" where
  "handle_synced hist s f \<longleftrightarrow> int (length (ff_data f)) \<le> max_int64 \<and>
     (if ff_force_whole f then True
      else ranges_within f \<and>
        (if ff_base_size f \<le> 0 \<or> revision (ff_version f) \<le> 0 then True
         else case hist s (ff_path f) (revision (ff_version f)) of
           None \<Rightarrow> False | Some base \<Rightarrow> agrees_with_base f base))"

lemma total_dirty_covered:
  assumes "total_dirty rs > 0"
  obtains x where "0 \<le> x" "covered rs x"
proof -
  have fold0: "(\<forall>r\<in>set xs. \<not> dr_end r > dr_start r) \<Longrightarrow>
    foldl (\<lambda>t r. if dr_end r > dr_start r then wrap64 (t + (dr_end r - dr_start r)) else t) a xs = a" for xs a
    by (induction xs arbitrary: a) auto
  have "\<exists>r\<in>set (merge_dirty_ranges rs). dr_end r > dr_start r"
    using assms fold0 [of "merge_dirty_ranges rs" 0] by (force simp: total_dirty_def)
  then obtain r where "r \<in> set (merge_dirty_ranges rs)" "dr_start r < dr_end r" by blast
  then have "covered (merge_dirty_ranges rs) (dr_start r)" by (auto simp: covered_def)
  then show thesis using that covered_merge by blast
qed
lemma covered_within:
  "ranges_within f \<Longrightarrow> covered (ff_ranges f) x \<Longrightarrow> x < int (length (ff_data f))"
  by (simp add: ranges_within_def)

subsection \<open>Uploads\<close>

lemma service_history:
  assumes "service_ok c content hist"
  shows "cl_write c s p x = (s', r) \<Longrightarrow> keeps_history hist s s'"
    "cl_patch c s p n parts rp ps er = (s', r2) \<Longrightarrow> keeps_history hist s s'"
    "cl_chmod c s p md = (s', r2) \<Longrightarrow> keeps_history hist s s'"
    "cl_delete c s p = (s', r2) \<Longrightarrow> keeps_history hist s s'"
    "cl_rename c s p q = (s', r2) \<Longrightarrow> keeps_history hist s s'"
  using assms unfolding service_ok_def history_law_def by (metis fst_conv)+

lemma keeps_history_refl [simp]: "keeps_history hist s s"
  by (simp add: keeps_history_def)

lemma keeps_history_trans: "keeps_history hist s s1 \<Longrightarrow> keeps_history hist s1 s' \<Longrightarrow> keeps_history hist s s'"
  by (simp add: keeps_history_def)

lemma only_path_refl [simp]: "only_path content s s p"
  by (simp add: only_path_def)

lemma only_path_trans: "only_path content s s1 p \<Longrightarrow> only_path content s1 s' p \<Longrightarrow> only_path content s s' p"
  by (simp add: only_path_def)

text \<open>The version of an upload names the bytes that were uploaded.\<close>

definition named_by :: "('s \<Rightarrow> string \<Rightarrow> int \<Rightarrow> string option) \<Rightarrow> 's \<Rightarrow> string \<Rightarrow> object_version \<Rightarrow> string \<Rightarrow> bool" where
  "named_by hist s p v x \<longleftrightarrow> (if revision v > 0 then hist s p (revision v) = Some x else True)"

lemma patch_upload_stores:
  assumes c: "service_ok c content hist"
    and up: "patch_upload c now s p data bv bs rs = (s', Inr v)"
    and len: "bs = int (length data)" "0 < bs"
    and some: "covered rs x" "0 \<le> x" "x < int (length data)"
    and same: "\<And>base. hist s p (revision bv) = Some base \<Longrightarrow> length base = length data \<and>
      (\<forall>x < length data. \<not> covered rs (int x) \<longrightarrow> base ! x = data ! x)"
  shows "content s' p = Some data \<and> only_path content s s' p \<and> named_by hist s' p v data"
proof -
  let ?n = "int (length data)"
  let ?ps = "calc_adaptive_part_size (max bs ?n)"
  let ?parts = "fuse_dirty_parts rs ?ps ?n"
  have ps: "0 < ?ps" using calc_adaptive_range [of "max bs ?n"] by (simp add: default_part_size_def)
  have ne: "?parts \<noteq> []"
    using dirty_part_of_covered [OF some ps] by (metis list.set(1) empty_iff)
  then have pt: "cl_patch c s p ?n ?parts (patch_read_part data ?ps) ?ps (revision bv) = (s', None)"
    using up by (auto simp: patch_upload_def Let_def split: prod.splits option.splits sum.splits)
  have st: "\<exists>st. stat_version c s' now p = Inr st \<and> v = rs_version st"
    using up ne pt by (auto simp: patch_upload_def Let_def split: sum.splits)
  obtain old where old: "hist s p (revision bv) = Some old"
    "content s' p = Some (patched_object old (nat ?n) (nat ?ps) ?parts (patch_read_part data ?ps))"
    "only_path content s s' p"
    using c pt unfolding service_ok_def patch_law_def by blast
  have o: "length old = length data" "\<And>x. x < length data \<Longrightarrow> \<not> covered rs (int x) \<Longrightarrow> old ! x = data ! x"
    using same [OF old(1)] by blast+
  have "int (nat ?ps) = ?ps" "nat ?n = length data" using ps by simp_all
  then have "patched_object old (nat ?n) (nat ?ps) ?parts (patch_read_part data ?ps) = data"
    using patched_object_eq [OF o(1) _ o(2), of "nat ?ps"] ps by simp
  then have cs: "content s' p = Some data" using old by simp
  moreover have "named_by hist s' p v data"
    using c st cs unfolding service_ok_def stat_law_def named_by_def by auto
  ultimately show ?thesis using old by simp
qed

lemma whole_upload_stores:
  assumes "service_ok c content hist" "whole_upload c s p data bv = (s', Inr v)"
  shows "content s' p = Some data \<and> only_path content s s' p \<and> named_by hist s' p v data"
proof -
  obtain r where r: "cl_write c s p data = (s', Inr r)" "v = with_revision bv r"
    using assms(2) by (auto simp: whole_upload_def split: prod.splits sum.splits)
  then have "r > 0 \<and> content s' p = Some data \<and> hist s' p r = Some data \<and> only_path content s s' p"
    using assms(1) unfolding service_ok_def write_law_def by blast
  then show ?thesis using r(2) by (simp add: revision_with_revision named_by_def)
qed

lemma patch_upload_only_path:
  assumes c: "service_ok c content hist" and up: "patch_upload c now s p data bv bs rs = (s', r)"
  shows "only_path content s s' p \<and> keeps_history hist s s'"
proof (cases "fuse_dirty_parts rs (calc_adaptive_part_size (max bs (int (length data)))) (int (length data)) = []")
  case True
  then show ?thesis using up by (simp add: patch_upload_def Let_def)
next
  case False
  let ?n = "int (length data)"
  let ?ps = "calc_adaptive_part_size (max bs ?n)"
  let ?parts = "fuse_dirty_parts rs ?ps ?n"
  obtain s1 e where pt: "cl_patch c s p ?n ?parts (patch_read_part data ?ps) ?ps (revision bv) = (s1, e)"
    by (rule prod.exhaust)
  have "s' = s1"
    using up pt False by (auto simp: patch_upload_def Let_def split: option.splits sum.splits)
  have "only_path content s s1 p"
  proof (cases e)
    case None
    with pt c show ?thesis unfolding service_ok_def patch_law_def by blast
  next
    case (Some err)
    with pt c have "content s1 = content s"
      unfolding service_ok_def patch_error_law_def by blast
    then show ?thesis by (simp add: only_path_def)
  qed
  then show ?thesis using service_history(2) [OF c pt] \<open>s' = s1\<close> by simp
qed

lemma fuse_upload_history:
  assumes c: "service_ok c content hist" and up: "fuse_upload q c now s p data bv bs rs = (s', r)"
  shows "keeps_history hist s s'"
proof -
  obtain s1 r1 where p: "patch_upload c now s p data bv bs rs = (s1, r1)" by (rule prod.exhaust)
  have k1: "keeps_history hist s s1" using patch_upload_only_path [OF c p] by blast
  have w: "keeps_history hist t (fst (whole_upload c t p data bv))" for t
    using service_history(1) [OF c, of t p data]
    by (auto simp: whole_upload_def split: prod.splits sum.splits)
  have "s' = s \<or> s' = s1 \<or> s' = fst (whole_upload c s1 p data bv) \<or> s' = fst (whole_upload c s p data bv)"
    using up p by (auto simp: fuse_upload_def split: option.splits if_splits sum.splits)
  then show ?thesis using k1 w keeps_history_trans [OF k1 w] by auto
qed

lemma fuse_upload_stores:
  assumes c: "service_ok c content hist"
    and up: "fuse_upload q c now s p data bv bs rs = (s', Inr v)"
    and inside: "\<And>x. covered rs x \<Longrightarrow> x < int (length data)"
    and same: "\<And>base. should_patch_fuse_write bv bs (int (length data)) rs \<Longrightarrow> hist s p (revision bv) = Some base \<Longrightarrow>
      length base = length data \<and> (\<forall>x < length data. \<not> covered rs (int x) \<longrightarrow> base ! x = data ! x)"
  shows "content s' p = Some data \<and> only_path content s s' p \<and> named_by hist s' p v data"
proof (cases "should_patch_fuse_write bv bs (int (length data)) rs")
  case True
  then have b: "bs = int (length data)" "0 < bs" "total_dirty rs > 0"
    by (auto simp: should_patch_fuse_write_def split: if_splits)
  obtain x where x: "0 \<le> x" "covered rs x" using total_dirty_covered [OF b(3)] by blast
  obtain s1 r where p: "patch_upload c now s p data bv bs rs = (s1, r)" by (rule prod.exhaust)
  show ?thesis
  proof (cases r)
    case (Inr w)
    then have "s' = s1 \<and> v = w" using up True p by (auto simp: fuse_upload_def split: option.splits)
    then show ?thesis
      using patch_upload_stores [OF c _ b(1,2) x(2,1) inside [OF x(2)] same [OF True]] p Inr by blast
  next
    case (Inl e)
    then have "whole_upload c s1 p data bv = (s', Inr v)"
      using up True p by (auto simp: fuse_upload_def split: option.splits if_splits)
    moreover have "only_path content s s1 p"
      using patch_upload_only_path [OF c p] by blast
    ultimately show ?thesis
      using whole_upload_stores [OF c] only_path_trans by meson
  qed
next
  case False
  then have "whole_upload c s p data bv = (s', Inr v)"
    using up by (auto simp: fuse_upload_def split: option.splits)
  then show ?thesis using whole_upload_stores [OF c] by blast
qed

lemma put_and_upload_ok:
  "put_and_upload key io now up st d s p x bv bs dr = (d', s', (v, None)) \<Longrightarrow> up s p x bv bs dr = (s', Inr v)"
  by (auto simp: put_and_upload_def Let_def split: option.splits if_splits prod.splits sum.splits)

lemma put_and_upload_state:
  "put_and_upload key io now up st d s p x bv bs dr = (d', s', r) \<Longrightarrow> s' = s \<or> s' = fst (up s p x bv bs dr)"
  by (auto simp: put_and_upload_def Let_def split: option.splits if_splits prod.splits sum.splits)

lemma write_file_with_dirty_ok:
  assumes "write_file_with_dirty rt m p data bv bs rs = (m', Inr v)"
  shows "fuse_upload (rt_quote rt) (rt_client rt) (m_now m) (m_service m) p data bv bs rs = (m_service m', Inr v)"
    "m_cache m' = cache_put (m_cache m) (m_now m) p data v" "m_files m' = m_files m" "m_open m' = m_open m"
proof -
  obtain d s w e where pu: "put_and_upload (rt_key rt) (rt_io rt) (m_now m, m_now m)
      (fuse_upload (rt_quote rt) (rt_client rt) (m_now m)) (rt_store rt) (m_dir m) (m_service m) p data bv bs rs
      = (d, s, (w, e))" by (metis prod.collapse)
  then have e: "e = None" using assms by (cases e) (auto simp: write_file_with_dirty_def)
  then show "fuse_upload (rt_quote rt) (rt_client rt) (m_now m) (m_service m) p data bv bs rs = (m_service m', Inr v)"
    "m_cache m' = cache_put (m_cache m) (m_now m) p data v" "m_files m' = m_files m" "m_open m' = m_open m"
    using assms pu put_and_upload_ok by (fastforce simp: write_file_with_dirty_def)+
qed

lemma fuse_errno_not_OK [simp]: "fuse_errno (Some e) \<noteq> OK"
  by (simp add: fuse_errno_def Let_def)

definition flushable :: "fuse_file \<Rightarrow> bool" where
  "flushable f \<longleftrightarrow> ff_writable f \<and> ff_dirty f \<and> \<not> ff_deleted f \<and> \<not> ff_commit f"

lemma flush_locked_ok:
  assumes "flushable f" "flush_locked rt m f = (m', f', OK)"
  shows "\<exists>v. write_file_with_dirty rt m (ff_path f) (ff_data f) (ff_version f) (ff_base_size f)
      (if ff_force_whole f then [Dirty_Range 0 (int (length (ff_data f)))] else ff_ranges f) = (m', Inr v)
    \<and> f' = flushed (f\<lparr>ff_version := v\<rparr>)"
  using assms by (auto simp: flush_locked_def flushable_def Let_def split: prod.splits sum.splits)
lemma flush_stores:
  assumes c: "service_ok (rt_client rt) content hist" and f: "flushable f" "handle_synced hist (m_service m) f"
    and fl: "flush_locked rt m f = (m', f', OK)"
  shows "content (m_service m') (ff_path f) = Some (ff_data f) \<and>
    only_path content (m_service m) (m_service m') (ff_path f) \<and>
    named_by hist (m_service m') (ff_path f) (ff_version f') (ff_data f) \<and>
    f' = flushed (f\<lparr>ff_version := ff_version f'\<rparr>)"
proof -
  let ?rs = "if ff_force_whole f then [Dirty_Range 0 (int (length (ff_data f)))] else ff_ranges f"
  obtain v where v: "write_file_with_dirty rt m (ff_path f) (ff_data f) (ff_version f) (ff_base_size f) ?rs = (m', Inr v)"
    "f' = flushed (f\<lparr>ff_version := v\<rparr>)"
    using flush_locked_ok [OF f(1) fl] by blast
  have inside: "x < int (length (ff_data f))" if "covered ?rs x" for x
    using that f(2) covered_within [of f x] by (auto simp: handle_synced_def split: if_splits)
  have same: "length base = length (ff_data f) \<and>
      (\<forall>x < length (ff_data f). \<not> covered ?rs (int x) \<longrightarrow> base ! x = ff_data f ! x)"
    if h: "should_patch_fuse_write (ff_version f) (ff_base_size f) (int (length (ff_data f))) ?rs"
      "hist (m_service m) (ff_path f) (revision (ff_version f)) = Some base" for base
  proof (cases "ff_force_whole f")
    case False
    have b: "0 < revision (ff_version f)" "0 < ff_base_size f" "ff_base_size f = int (length (ff_data f))"
      using h(1) by (auto simp: should_patch_fuse_write_def split: if_splits)
    then have "agrees_with_base f base" using f(2) h(2) False by (simp add: handle_synced_def)
    then show ?thesis using b False by (simp add: agrees_with_base_def)
  next
    case True
    have "int (length (ff_data f)) \<le> max_int64" using f(2) by (simp add: handle_synced_def)
    then have "total_dirty [Dirty_Range 0 (int (length (ff_data f)))] = int (length (ff_data f))"
      by (simp add: total_dirty_def merge_dirty_ranges_def in_int64_def min_int64_def)
    then show ?thesis using h(1) True by (simp add: should_patch_fuse_write_def split: if_splits)
  qed
  have "content (m_service m') (ff_path f) = Some (ff_data f) \<and>
    only_path content (m_service m) (m_service m') (ff_path f) \<and>
    named_by hist (m_service m') (ff_path f) v (ff_data f)"
    by (rule fuse_upload_stores [OF c write_file_with_dirty_ok(1) [OF v(1)]]; (erule inside | rule same); assumption)
  then show ?thesis by (simp add: v(2) flushed_def)
qed

subsection \<open>The invariant of handles\<close>

lemma handle_synced_history:
  "keeps_history hist s s' \<Longrightarrow> handle_synced hist s f \<Longrightarrow> handle_synced hist s' f"
  by (auto simp: handle_synced_def keeps_history_def split: if_splits option.splits)

lemma handle_synced_cong:
  assumes "ff_data f' = ff_data f" "ff_path f' = ff_path f" "ff_version f' = ff_version f"
    "ff_base_size f' = ff_base_size f" "ff_ranges f' = ff_ranges f" "ff_force_whole f' = ff_force_whole f"
  shows "handle_synced hist s f' = handle_synced hist s f"
proof -
  have a: "agrees_with_base f' = agrees_with_base f" by (simp add: fun_eq_iff agrees_with_base_def assms)
  show ?thesis unfolding handle_synced_def ranges_within_def assms a ..
qed

lemma flushed_synced:
  assumes "named_by hist s (ff_path f) v (ff_data f)" "int (length (ff_data f)) \<le> max_int64"
  shows "handle_synced hist s (flushed (f\<lparr>ff_version := v\<rparr>))"
  using assms by (auto simp: handle_synced_def flushed_def ranges_within_def agrees_with_base_def named_by_def
      split: if_splits)

lemma covered_ranges_write:
  "0 \<le> a \<Longrightarrow> covered (ff_ranges (mark_dirty_range f a b)) x \<longleftrightarrow>
     (if b < a then covered (ff_ranges f) x else 0 \<le> x \<and> (covered (ff_ranges f) x \<or> a \<le> x \<and> x < b))"
  by (simp add: mark_dirty_range_def covered_merge)

text \<open>\<open>spliced data off bs\<close> are the bytes after writing \<open>bs\<close> at \<open>off\<close>, with a gap of zero bytes
  where the write starts behind the end.\<close>

definition spliced :: "string \<Rightarrow> nat \<Rightarrow> string \<Rightarrow> string" where
  "spliced data off bs =
     take off (data @ replicate (off - length data) (CHR 0x00)) @ bs @ drop (off + length bs) data"

lemma length_spliced: "length (spliced data off bs) = max (length data) (off + length bs)"
  by (auto simp: spliced_def)

lemma nth_spliced:
  "i < length (spliced data off bs) \<Longrightarrow> spliced data off bs ! i =
     (if off \<le> i \<and> i < off + length bs then bs ! (i - off)
      else if i < length data then data ! i else CHR 0x00)"
proof -
  assume i: "i < length (spliced data off bs)"
  let ?a = "take off (data @ replicate (off - length data) (CHR 0x00))"
  have a: "length ?a = off" "\<And>i. i < off \<Longrightarrow> ?a ! i = (if i < length data then data ! i else CHR 0x00)"
    by (auto simp: nth_append)
  have "spliced data off bs ! i = (if i < off then ?a ! i else
      if i - off < length bs then bs ! (i - off) else drop (off + length bs) data ! (i - off - length bs))"
    unfolding spliced_def nth_append a(1) by simp
  then show ?thesis using a(2) i by (auto simp: length_spliced)
qed

lemma file_write_end:
  assumes "0 \<le> off" "off \<le> wrap64 (off + int (length bs))" "int (length bs) \<le> max_int64"
  shows "wrap64 (off + int (length bs)) = off + int (length bs)"
proof (cases "off + int (length bs) \<le> max_int64")
  case True
  then show ?thesis using assms by (intro wrap64_id) (simp add: in_int64_def min_int64_def)
next
  case False
  have "off \<le> max_int64"
    using assms(2) wrap64_range [of "off + int (length bs)"] by (simp add: in_int64_def)
  then have "wrap64 (off + int (length bs)) = off + int (length bs) - 18446744073709551616"
    using False assms(3) by (intro wrap64_overflow) auto
  then show ?thesis using assms by (simp add: max_int64_def)
qed

lemma file_write_shape:
  assumes "file_write now f bs off = Returns (f', Inr n)" "int (length bs) \<le> max_int64"
  shows "ff_writable f \<and> 0 \<le> off \<and> off + int (length bs) \<le> max_int64 \<and>
    f' = f\<lparr>ff_data := spliced (ff_data f) (nat off) bs, ff_dirty := True,
      ff_ranges := merge_dirty_ranges (ff_ranges f @ [Dirty_Range off (off + int (length bs))]), ff_mod_time := now\<rparr>"
proof -
  let ?e = "wrap64 (off + int (length bs))"
  have w: "ff_writable f" "0 \<le> off" "off \<le> ?e"
    using assms(1) by (auto simp: file_write_def Let_def split: if_splits)
  have e: "?e = off + int (length bs)" using file_write_end [OF w(2,3) assms(2)] .
  then have "off + int (length bs) \<le> max_int64"
    using wrap64_range [of "off + int (length bs)"] by (simp add: in_int64_def)
  moreover obtain k where k: "off = int k" using w(2) nonneg_int_cases by blast
  have "take k (if int k + int (length bs) > int (length (ff_data f))
        then ff_data f @ replicate (nat (int k + int (length bs) - int (length (ff_data f)))) (CHR 0x00) else ff_data f)
      @ bs @ drop (nat (int k + int (length bs))) (if int k + int (length bs) > int (length (ff_data f))
        then ff_data f @ replicate (nat (int k + int (length bs) - int (length (ff_data f)))) (CHR 0x00) else ff_data f)
      = spliced (ff_data f) k bs"
    by (auto simp: spliced_def nat_add_distrib min_def)
  ultimately show ?thesis
    using assms(1) w e k
    by (auto simp: file_write_def Let_def mark_dirty_range_def nat_add_distrib split: if_splits)
qed
lemma file_write_refused: "file_write now f bs off = Returns (f', Inl e) \<Longrightarrow> f' = f"
  by (auto simp: file_write_def Let_def split: if_splits)

lemma file_write_synced:
  assumes "handle_synced hist s f" "file_write now f bs off = Returns (f', r)" "int (length bs) \<le> max_int64"
  shows "handle_synced hist s f'"
proof (cases r)
  case (Inl e)
  then show ?thesis using assms file_write_refused by blast
next
  case (Inr n)
  define k where "k = nat off"
  have off: "0 \<le> off" "off + int (length bs) \<le> max_int64"
    and f': "f' = f\<lparr>ff_data := spliced (ff_data f) k bs, ff_dirty := True,
      ff_ranges := merge_dirty_ranges (ff_ranges f @ [Dirty_Range off (off + int (length bs))]), ff_mod_time := now\<rparr>"
    using file_write_shape [OF _ assms(3)] assms(2) Inr k_def by blast+
  have k: "off = int k" using off by (simp add: k_def)
  have cov: "covered (ff_ranges f') x \<longleftrightarrow> 0 \<le> x \<and> (covered (ff_ranges f) x \<or> off \<le> x \<and> x < off + int (length bs))" for x
    by (simp add: f' covered_merge)
  have len: "length (ff_data f') = max (length (ff_data f)) (k + length bs)"
    by (simp add: f' length_spliced)
  then have max: "int (length (ff_data f')) \<le> max_int64"
    using assms(1) off k by (auto simp: handle_synced_def max_def)
  have within: "ranges_within f \<Longrightarrow> ranges_within f'"
    unfolding ranges_within_def cov len by (force simp: k)
  have agrees: "agrees_with_base f' base" if "agrees_with_base f base" for base
  proof -
    have "base ! x = ff_data f' ! x" if x: "x < length base" "\<not> covered (ff_ranges f') (int x)" for x
    proof -
      have u: "\<not> covered (ff_ranges f) (int x)" "\<not> (k \<le> x \<and> x < k + length bs)" using x(2) k by (auto simp: cov)
      have "x < length (ff_data f)" using \<open>agrees_with_base f base\<close> x(1) by (simp add: agrees_with_base_def)
      then have "ff_data f' ! x = ff_data f ! x"
        using u(2) by (auto simp: f' nth_spliced length_spliced)
      then show ?thesis using \<open>agrees_with_base f base\<close> x(1) u(1) by (simp add: agrees_with_base_def)
    qed
    moreover have "ff_base_size f' = ff_base_size f" by (simp add: f')
    ultimately show ?thesis using that len by (simp add: agrees_with_base_def le_max_iff_disj)
  qed
  have "ff_force_whole f' = ff_force_whole f" "ff_base_size f' = ff_base_size f"
    "ff_version f' = ff_version f" "ff_path f' = ff_path f" by (simp_all add: f')
  then show ?thesis
    using assms(1) max within agrees by (simp add: handle_synced_def split: option.splits if_splits)
qed

lemma handle_synced_forced:
  "int (length (ff_data f)) \<le> max_int64 \<Longrightarrow> ff_force_whole f \<Longrightarrow> handle_synced hist s f"
  by (simp add: handle_synced_def)

lemma setattr_locked_shape:
  "setattr_locked now f sz mode = Returns (f', e) \<Longrightarrow> ff_writable f' = ff_writable f \<and> ff_commit f' = ff_commit f \<and>
   (f' = f \<or> ff_force_whole f' \<and>
     (ff_data f' = ff_data f \<or> (\<exists>n. resize_fuse_data (ff_data f) n = Returns (Inr (ff_data f')))))"
  by (cases sz; cases mode) (auto simp: setattr_locked_def split: run.splits sum.splits if_splits)

lemma resize_max: "resize_fuse_data data n = Returns (Inr d) \<Longrightarrow> int (length d) \<le> max_int64"
  using resize_length [of data n d] by (simp add: resize_fuse_data_def split: if_splits)

lemma setattr_locked_synced:
  assumes "handle_synced hist s f" "setattr_locked now f sz mode = Returns (f', e)"
  shows "handle_synced hist s f'"
proof -
  have "int (length (ff_data f)) \<le> max_int64" using assms(1) by (simp add: handle_synced_def)
  then show ?thesis
    using setattr_locked_shape [OF assms(2)] assms(1) resize_max handle_synced_forced by metis
qed
section \<open>The mount as a state machine\<close>

definition good_bytes :: "('s \<Rightarrow> string \<Rightarrow> int \<Rightarrow> string option) \<Rightarrow> 's \<Rightarrow> string \<Rightarrow> object_version \<Rightarrow> string \<Rightarrow> bool" where
  "good_bytes hist s p v x \<longleftrightarrow> named_by hist s p v x \<and> int (length x) \<le> max_int64"

definition cache_coherent :: "('s \<Rightarrow> string \<Rightarrow> int \<Rightarrow> string option) \<Rightarrow> 's \<Rightarrow> read_cache \<Rightarrow> bool" where
  "cache_coherent hist s c \<longleftrightarrow> cache_inv c \<and>
     (\<forall>p d w. cache_view c p = Some (d, w) \<longrightarrow> good_bytes hist s p w d)"

definition mount_ok :: "('s \<Rightarrow> string \<Rightarrow> int \<Rightarrow> string option) \<Rightarrow> 's mount \<Rightarrow> bool" where
  "mount_ok hist m \<longleftrightarrow> cache_coherent hist (m_service m) (m_cache m) \<and>
     (\<forall>i f. m_files m i = Some f \<longrightarrow> \<not> ff_commit f \<and> (ff_writable f \<longrightarrow> handle_synced hist (m_service m) f))"

text \<open>
  What can happen to a mount: an operation of a handle, an open, a create, an unlink, a
  truncation or chmod of a path, a rename, a change of the service by others, the passing of
  time.  The slices an operation gets have lengths of type \<open>int\<close>.
\<close>

datatype 's mount_action =
    Act_Write nat string int
  | Act_Setattr nat "nat option" "32 word option"
  | Act_Flush nat
  | Act_Release nat
  | Act_Open nat string open_flags
  | Act_Create nat string open_flags
  | Act_Unlink string bool
  | Act_Path nat string "nat option" "32 word option" bool
  | Act_Rename string string
  | Act_Others 's
  | Act_Time int

fun map_run :: "('a \<Rightarrow> 'b) \<Rightarrow> 'a run \<Rightarrow> 'b run" where
  "map_run g Panic = Panic"
| "map_run g (Returns x) = Returns (g x)"

fun mount_act :: "'s fuse_rt \<Rightarrow> 's mount \<Rightarrow> 's mount_action \<Rightarrow> 's mount run" where
  "mount_act rt m (Act_Write i bs off) = map_run fst (op_write m i bs off)"
| "mount_act rt m (Act_Setattr i sz mode) = map_run fst (op_setattr m i sz mode)"
| "mount_act rt m (Act_Flush i) = Returns (fst (op_flush rt m i))"
| "mount_act rt m (Act_Release i) = Returns (fst (op_release rt m i))"
| "mount_act rt m (Act_Open pid p flags) = Returns (fst (open_remote rt m pid p flags))"
| "mount_act rt m (Act_Create pid p flags) = Returns (fst (create_remote rt m pid p flags))"
| "mount_act rt m (Act_Unlink p dir) = Returns (fst (unlink_remote rt m p dir))"
| "mount_act rt m (Act_Path pid p sz mode st) = map_run fst (setattr_remote rt m pid p sz mode st)"
| "mount_act rt m (Act_Rename source target) = Returns (fst (rename_remote rt m source target))"
| "mount_act rt m (Act_Others s) = Returns (m\<lparr>m_service := s\<rparr>)"
| "mount_act rt m (Act_Time t) = Returns (m\<lparr>m_now := t\<rparr>)"

text \<open>
  The use of a mount for which a flush stores what its handle holds.  Left out are the three
  cases in which the code adopts bytes or versions that do not belong together: an open for
  writing, without truncation, of a file with unflushed changes; a truncation by path while a
  handle opened with O_TRUNC is open for writing and does not take the truncation over; a
  rename of a path under which a file is open for writing.  Others may change the service in
  every way that does not make a revision name other bytes.
\<close>

definition open_without :: "(fuse_file \<Rightarrow> bool) \<Rightarrow> 's mount \<Rightarrow> nat list \<Rightarrow> bool" where
  "open_without P m is \<longleftrightarrow> list_all (\<lambda>i. case m_files m i of None \<Rightarrow> True | Some f \<Rightarrow> \<not> P f) is"

fun orderly :: "('s \<Rightarrow> string \<Rightarrow> int \<Rightarrow> string option) \<Rightarrow> 's mount \<Rightarrow> 's mount_action \<Rightarrow> bool" where
  "orderly hist m (Act_Write i bs off) = (int (length bs) \<le> max_int64)"
| "orderly hist m (Act_Open pid p flags) =
     (\<not> fl_any_write flags \<or> fl_trunc flags \<or> dirty_open_handle_data m p = None)"
| "orderly hist m (Act_Path pid p sz mode st) =
     (sz = None \<or> adopt_single_caller_path_setattr m pid p sz mode \<noteq> None
      \<or> open_without (\<lambda>f. fl_trunc (ff_flags f)) m (writable_open_handles m p))"
| "orderly hist m (Act_Rename source target) =
     open_without (\<lambda>f. ff_writable f \<and> in_tree source (ff_path f)) m (m_open m)"
| "orderly hist m (Act_Others s) = keeps_history hist (m_service m) s"
| "orderly hist m _ = True"

inductive orderly_reach ::
  "'s fuse_rt \<Rightarrow> ('s \<Rightarrow> string \<Rightarrow> int \<Rightarrow> string option) \<Rightarrow> 's mount \<Rightarrow> 's mount \<Rightarrow> bool" for rt hist m0 where
  or_start: "orderly_reach rt hist m0 m0"
| or_step: "orderly_reach rt hist m0 m \<Longrightarrow> orderly hist m a \<Longrightarrow> mount_act rt m a = Returns m' \<Longrightarrow>
     orderly_reach rt hist m0 m'"

lemma map_run_eq [simp]: "map_run g x = Returns y \<longleftrightarrow> (\<exists>z. x = Returns z \<and> y = g z)"
  by (cases x) auto

lemma good_bytes_history: "keeps_history hist s s' \<Longrightarrow> good_bytes hist s p v x \<Longrightarrow> good_bytes hist s' p v x"
  by (auto simp: good_bytes_def named_by_def keeps_history_def)

lemma cache_coherent_history: "keeps_history hist s s' \<Longrightarrow> cache_coherent hist s c \<Longrightarrow> cache_coherent hist s' c"
  unfolding cache_coherent_def using good_bytes_history by metis

lemma cache_coherent_put:
  "cache_coherent hist s c \<Longrightarrow> good_bytes hist s p v x \<Longrightarrow> cache_coherent hist s (cache_put c now p x v)"
  unfolding cache_coherent_def using rc.put_view rc.inv_put by (metis prod.inject)

lemma cache_coherent_get: "cache_coherent hist s c \<Longrightarrow> cache_coherent hist s (fst (cache_get c now p v))"
  unfolding cache_coherent_def using rc.get_view rc.inv_get by metis

lemma cache_coherent_invalidate: "cache_coherent hist s c \<Longrightarrow> cache_coherent hist s (cache_invalidate c p)"
  unfolding cache_coherent_def using rc.invalidate_view rc.inv_invalidate by (metis option.distinct(1))

lemma cache_coherent_invalidate_prefix:
  assumes "cache_coherent hist s c"
  shows "cache_coherent hist s (cache_invalidate_prefix c p)"
proof -
  have "cache_wf c" using assms by (simp add: cache_coherent_def cache_inv_def cache_ok_def)
  then show ?thesis
    using assms invalidate_prefix_inv [of c p]
    by (auto simp: cache_coherent_def invalidate_prefix_view split: if_splits)
qed

lemma mount_okI:
  assumes "cache_coherent hist (m_service m) (m_cache m)"
    "\<And>i f. m_files m i = Some f \<Longrightarrow> \<not> ff_commit f \<and> (ff_writable f \<longrightarrow> handle_synced hist (m_service m) f)"
  shows "mount_ok hist m"
  using assms by (simp add: mount_ok_def)

lemma mount_ok_service:
  "mount_ok hist m \<Longrightarrow> keeps_history hist (m_service m) (m_service m') \<Longrightarrow> m_files m' = m_files m \<Longrightarrow>
   cache_coherent hist (m_service m') (m_cache m') \<Longrightarrow> mount_ok hist m'"
  unfolding mount_ok_def using handle_synced_history by metis

lemma mount_ok_handle:
  "mount_ok hist m \<Longrightarrow> \<not> ff_commit f \<Longrightarrow> ff_writable f \<longrightarrow> handle_synced hist (m_service m) f \<Longrightarrow>
   mount_ok hist (m\<lparr>m_files := (m_files m)(i \<mapsto> f)\<rparr>)"
  by (simp add: mount_ok_def)

lemma mount_ok_cong:
  "mount_ok hist m \<Longrightarrow> m_service m' = m_service m \<Longrightarrow> m_cache m' = m_cache m \<Longrightarrow> m_files m' = m_files m \<Longrightarrow>
   mount_ok hist m'"
  by (simp add: mount_ok_def)

lemma mount_ok_update:
  assumes "mount_ok hist m" "\<And>f. m_files m i = Some f \<Longrightarrow> ff_commit (g f) = ff_commit f \<and>
    ff_writable (g f) = ff_writable f \<and> (ff_writable f \<longrightarrow> handle_synced hist (m_service m) f \<longrightarrow> handle_synced hist (m_service m) (g f))"
  shows "mount_ok hist (update_handle m i g)"
  using assms by (auto simp: mount_ok_def update_handle_def split: if_splits)

subsection \<open>Writing files and reading through the cache\<close>

lemma write_file_with_dirty_history:
  assumes c: "service_ok (rt_client rt) content hist" and m: "cache_coherent hist (m_service m) (m_cache m)"
    and w: "write_file_with_dirty rt m p data bv bs rs = (m', r)"
    and ok: "\<And>v. r = Inr v \<Longrightarrow> good_bytes hist (m_service m') p v data"
  shows "keeps_history hist (m_service m) (m_service m')" "m_files m' = m_files m" "m_open m' = m_open m"
    "cache_coherent hist (m_service m') (m_cache m')"
proof -
  obtain d s v e where pu: "put_and_upload (rt_key rt) (rt_io rt) (m_now m, m_now m)
      (fuse_upload (rt_quote rt) (rt_client rt) (m_now m)) (rt_store rt) (m_dir m) (m_service m) p data bv bs rs
      = (d, s, (v, e))" by (metis prod.collapse)
  have m': "m_service m' = s" "m_files m' = m_files m" "m_open m' = m_open m"
    "m_cache m' = (if e = None then cache_put (m_cache m) (m_now m) p data v else cache_invalidate (m_cache m) p)"
    "e = None \<Longrightarrow> r = Inr v"
    using w pu by (auto simp: write_file_with_dirty_def split: option.splits)
  obtain s1 r1 where up: "fuse_upload (rt_quote rt) (rt_client rt) (m_now m) (m_service m) p data bv bs rs = (s1, r1)"
    by (rule prod.exhaust)
  have k: "keeps_history hist (m_service m) s"
    using put_and_upload_state [OF pu] up fuse_upload_history [OF c up] by auto
  then show "keeps_history hist (m_service m) (m_service m')" by (simp add: m'(1))
  show "m_files m' = m_files m" "m_open m' = m_open m" by (fact m')+
  have "cache_coherent hist s (m_cache m)" using cache_coherent_history [OF k m] .
  then show "cache_coherent hist (m_service m') (m_cache m')"
    using ok m'(5) by (simp add: m'(1,4) cache_coherent_put cache_coherent_invalidate)
qed

lemma write_file_stores:
  assumes c: "service_ok (rt_client rt) content hist" and len: "int (length data) \<le> max_int64"
    and w: "write_file rt m p data bv = (m', Inr v)"
  shows "content (m_service m') p = Some data \<and> only_path content (m_service m) (m_service m') p
    \<and> named_by hist (m_service m') p v data"
proof -
  have "total_dirty [Dirty_Range 0 (int (length data))] = int (length data)"
    using len by (simp add: total_dirty_def merge_dirty_ranges_def in_int64_def min_int64_def)
  then have np: "\<not> should_patch_fuse_write bv (int (length data)) (int (length data)) [Dirty_Range 0 (int (length data))]"
    by (simp add: should_patch_fuse_write_def)
  show ?thesis
    by (rule fuse_upload_stores [OF c write_file_with_dirty_ok(1) [OF w [unfolded write_file_def]]])
      (use np in simp_all)
qed

lemma cached_read_ok:
  assumes c: "service_ok (rt_client rt) content hist" and m: "mount_ok hist m"
    and st: "stat_version (rt_client rt) (m_service m) now p = Inr st"
    and r: "cached_read rt m p (rs_version st) = (m', res)"
  shows "mount_ok hist m'" "m_service m' = m_service m" "m_files m' = m_files m" "m_open m' = m_open m"
    "m_next m' = m_next m"
    "res = Inr data \<Longrightarrow> good_bytes hist (m_service m) p (rs_version st) data"
proof -
  let ?s = "m_service m"
  obtain ca h where g: "cache_get (m_cache m) (m_now m) p (rs_version st) = (ca, h)" by (rule prod.exhaust)
  have co: "cache_coherent hist ?s (m_cache m)" using m by (simp add: mount_ok_def)
  then have ca: "cache_coherent hist ?s ca" using cache_coherent_get g by (metis fst_conv)
  have hit: "good_bytes hist ?s p (rs_version st) d" if hd: "h = Some d" for d
  proof -
    obtain w where w: "cache_view (m_cache m) p = Some (d, w)" "version_matches w (rs_version st)"
      using rc.get_hit [of "m_cache m" "m_now m" p "rs_version st" ca d] g hd by auto
    then have "good_bytes hist ?s p w d" using co by (simp add: cache_coherent_def)
    then show ?thesis using w(2)
      by (auto simp: good_bytes_def named_by_def version_matches_def version_known_def split: if_splits)
  qed
  have miss: "good_bytes hist ?s p (rs_version st) d" if "cl_read (rt_client rt) ?s p = Inr d" for d
  proof -
    have "content ?s p = Some d" "int (length d) \<le> max_int64"
      using c that unfolding service_ok_def read_law_def by blast+
    then show ?thesis
      using c st unfolding service_ok_def stat_law_def good_bytes_def named_by_def by auto
  qed
  show "res = Inr data \<Longrightarrow> good_bytes hist ?s p (rs_version st) data"
    using r g hit miss by (auto simp: cached_read_def split: option.splits sum.splits)
  have "cache_coherent hist ?s (m_cache m') \<and> m_service m' = ?s \<and> m_files m' = m_files m \<and> m_open m' = m_open m \<and> m_next m' = m_next m"
    using r g ca cache_coherent_put [OF ca miss] by (auto simp: cached_read_def split: option.splits sum.splits)
  then show "mount_ok hist m'" "m_service m' = m_service m" "m_files m' = m_files m" "m_open m' = m_open m"
    "m_next m' = m_next m"
    using m by (simp_all add: mount_ok_def)
qed
subsection \<open>Every step keeps the invariant\<close>

lemma flush_locked_keeps:
  assumes c: "service_ok (rt_client rt) content hist" and m: "mount_ok hist m"
    and f: "\<not> ff_commit f" "ff_writable f \<longrightarrow> handle_synced hist (m_service m) f"
    and fl: "flush_locked rt m f = (m', f', e)"
  shows "mount_ok hist m'" "\<not> ff_commit f'" "ff_writable f' \<longrightarrow> handle_synced hist (m_service m') f'"
    "m_files m' = m_files m"
proof -
  let ?G = "mount_ok hist m' \<and> \<not> ff_commit f' \<and> (ff_writable f' \<longrightarrow> handle_synced hist (m_service m') f')
    \<and> m_files m' = m_files m"
  have ?G
  proof (cases "flushable f")
    case False
    then have "m' = m \<and> (f' = f \<or> f' = f\<lparr>ff_dirty := False\<rparr>)"
      using fl f(1) by (auto simp: flush_locked_def flushable_def split: if_splits)
    moreover have "handle_synced hist s (f\<lparr>ff_dirty := False\<rparr>) = handle_synced hist s f" for s
      by (rule handle_synced_cong) simp_all
    ultimately show ?thesis using m f by (elim conjE disjE) simp_all
  next
    case True
    let ?rs = "if ff_force_whole f then [Dirty_Range 0 (int (length (ff_data f)))] else ff_ranges f"
    obtain r where w: "write_file_with_dirty rt m (ff_path f) (ff_data f) (ff_version f) (ff_base_size f) ?rs = (m', r)"
      and fe: "case r of Inl err \<Rightarrow> f' = f \<and> e = fuse_errno (Some err) | Inr v \<Rightarrow> f' = flushed (f\<lparr>ff_version := v\<rparr>) \<and> e = OK"
      using fl True by (auto simp: flush_locked_def flushable_def Let_def split: prod.splits sum.splits)
    have sy: "handle_synced hist (m_service m) f" using f(2) True by (simp add: flushable_def)
    then have len: "int (length (ff_data f)) \<le> max_int64" by (simp add: handle_synced_def)
    have good: "good_bytes hist (m_service m') (ff_path f) v (ff_data f)" if "r = Inr v" for v
      using flush_stores [OF c True sy] fl fe that len by (simp add: good_bytes_def flushed_def)
    have co: "cache_coherent hist (m_service m) (m_cache m)" using m by (simp add: mount_ok_def)
    note h = write_file_with_dirty_history [OF c co w good]
    have "handle_synced hist (m_service m') f'"
    proof (cases r)
      case (Inl err)
      then show ?thesis using fe sy handle_synced_history [OF h(1)] by simp
    next
      case (Inr v)
      then show ?thesis using fe good [OF Inr] flushed_synced len by (simp add: good_bytes_def)
    qed
    moreover have "\<not> ff_commit f'" using fe f(1) by (cases r) (auto simp: flushed_def)
    ultimately show ?thesis using mount_ok_service [OF m h(1) h(2) h(4)] h(2) by simp
  qed
  then show "mount_ok hist m'" "\<not> ff_commit f'" "ff_writable f' \<longrightarrow> handle_synced hist (m_service m') f'"
    "m_files m' = m_files m"
    by blast+
qed

lemma new_handle_keeps:
  assumes m: "mount_ok hist m" and v: "data = [] \<or> good_bytes hist (m_service m) p v data \<or> \<not> writable"
    and n: "new_remote_fuse_file m p data writable dirty v = (m', i)"
  shows "mount_ok hist (with_open_context m' i pid flags)"
proof -
  let ?h = "\<lparr>ff_path = p, ff_data = data, ff_version = v, ff_base_size = int (length data),
             ff_writable = writable, ff_open_seq = 0,
             ff_flags = \<lparr>fl_any_write = False, fl_trunc = False, fl_excl = False\<rparr>, ff_pid = 0,
             ff_dirty = dirty, ff_ranges = [], ff_force_whole = False, ff_deleted = False,
             ff_closed = False, ff_mod_time = m_now m, ff_mode = 0, ff_commit = False\<rparr>"
  let ?h1 = "if dirty then mark_dirty_range ?h 0 (int (length data)) else ?h"
  have rng: "ranges_within ?h1"
    by (auto simp: ranges_within_def mark_dirty_range_def covered_merge)
  have agr: "agrees_with_base ?h1 data"
    by (simp add: agrees_with_base_def mark_dirty_range_def)
  have "ff_writable ?h1 \<longrightarrow> handle_synced hist (m_service m) ?h1"
    using rng agr v by (auto simp: handle_synced_def good_bytes_def named_by_def mark_dirty_range_def max_int64_def)
  moreover have "\<not> ff_commit ?h1" by (simp add: mark_dirty_range_def)
  ultimately have "mount_ok hist (m\<lparr>m_files := (m_files m)(m_next m \<mapsto> ?h1)\<rparr>)"
    using mount_ok_handle [OF m] by blast
  then have 1: "mount_ok hist (m\<lparr>m_files := (m_files m)(m_next m \<mapsto> ?h1), m_next := m_next m + 1\<rparr>)"
    by (rule mount_ok_cong) simp_all
  have seq: "handle_synced hist s (f\<lparr>ff_open_seq := k\<rparr>) = handle_synced hist s f"
    "handle_synced hist s (f\<lparr>ff_flags := flags, ff_pid := pid\<rparr>) = handle_synced hist s f" for s f k
    by (rule handle_synced_cong; simp)+
  have "mount_ok hist (register_open_handle m1 j)" if "mount_ok hist m1" for m1 j
    unfolding register_open_handle_def Let_def
    by (rule mount_ok_cong [OF mount_ok_update [OF that, of j "\<lambda>f. f\<lparr>ff_open_seq := m_seq m1 + 1\<rparr>"]]) (simp_all add: seq)
  then have "mount_ok hist m'"
    using n 1 by (auto simp: new_remote_fuse_file_def Let_def)
  then show ?thesis
    unfolding with_open_context_def by (rule mount_ok_update) (simp add: seq)
qed

lemma open_remote_keeps:
  assumes c: "service_ok (rt_client rt) content hist" and m: "mount_ok hist m"
    and ord: "\<not> fl_any_write flags \<or> fl_trunc flags \<or> dirty_open_handle_data m p = None"
    and o: "open_remote rt m pid p flags = (m', r)"
  shows "mount_ok hist m'"
proof (cases "stat_remote rt m p")
  case (Inl e)
  then show ?thesis using o m by (auto simp: open_remote_def Let_def split: if_splits)
next
  case (Inr st)
  then obtain st0 where st0: "stat_version (rt_client rt) (m_service m) (m_now m) p = Inr st0"
    "rs_version st = rs_version st0"
    by (auto simp: stat_remote_def split: sum.splits)
  obtain m1 res where cr: "cached_read rt m p (rs_version st) = (m1, res)" by (rule prod.exhaust)
  note cro = cached_read_ok [OF c m st0(1), folded st0(2), OF cr]
  have new: "mount_ok hist (with_open_context m3 i pid flags)"
    if "new_remote_fuse_file m2 p data w d v = (m3, i)" "mount_ok hist m2"
      "data = [] \<or> good_bytes hist (m_service m2) p v data \<or> \<not> w" for m2 m3 i data w d v
    using new_handle_keeps that by blast
  show ?thesis
    using o Inr ord cr cro new m
    by (auto simp: open_remote_def Let_def split: if_splits sum.splits prod.splits option.splits)
qed
lemma write_file_keeps:
  assumes c: "service_ok (rt_client rt) content hist" and m: "mount_ok hist m"
    and len: "int (length data) \<le> max_int64" and w: "write_file rt m p data bv = (m', r)"
  shows "mount_ok hist m'" "m_files m' = m_files m" "m_open m' = m_open m"
    "r = Inr v \<Longrightarrow> good_bytes hist (m_service m') p v data"
proof -
  have good: "good_bytes hist (m_service m') p v data" if "r = Inr v" for v
    using write_file_stores [OF c len] w that len by (simp add: good_bytes_def)
  then show "r = Inr v \<Longrightarrow> good_bytes hist (m_service m') p v data" .
  have co: "cache_coherent hist (m_service m) (m_cache m)" using m by (simp add: mount_ok_def)
  note h = write_file_with_dirty_history [OF c co w [unfolded write_file_def] good]
  show "mount_ok hist m'" "m_files m' = m_files m" "m_open m' = m_open m"
    using mount_ok_service [OF m h(1,2,4)] h(2,3) by blast+
qed

lemma create_remote_keeps:
  assumes c: "service_ok (rt_client rt) content hist" and m: "mount_ok hist m"
    and o: "create_remote rt m pid p flags = (m', r)"
  shows "mount_ok hist m'"
proof -
  obtain m1 res where w: "write_file rt m p [] no_version = (m1, res)" by (rule prod.exhaust)
  have "int (length ([] :: string)) \<le> max_int64" by (simp add: max_int64_def)
  note wf = write_file_keeps [OF c m this w]
  have new: "mount_ok hist (with_open_context m3 i pid flags)"
    if "new_remote_fuse_file m1 p [] True False v = (m3, i)" for m3 i v
    using new_handle_keeps [OF wf(1) _ that] by simp
  show ?thesis
    using o m w wf(1) new
    by (auto simp: create_remote_def Let_def split: if_splits sum.splits prod.splits option.splits)
qed

lemma each_open_handle_keeps:
  assumes "mount_ok hist m" "\<And>f. ff_commit (g f) = ff_commit f \<and> ff_writable (g f) = ff_writable f \<and>
    (\<forall>s. handle_synced hist s f \<longrightarrow> handle_synced hist s (g f))"
  shows "mount_ok hist (foldl (\<lambda>m i. update_handle m i g) m is)"
  using assms(1)
proof (induction "is" arbitrary: m)
  case (Cons i "is")
  have "mount_ok hist (update_handle m i g)"
    using mount_ok_update [OF Cons.prems, of i g] assms(2) by blast
  then show ?case using Cons.IH by simp
qed simp

lemma mark_deleted_keeps:
  "ff_commit (mark_deleted p f) = ff_commit f \<and> ff_writable (mark_deleted p f) = ff_writable f \<and> (\<forall>s. handle_synced hist s f \<longrightarrow> handle_synced hist s (mark_deleted p f))"
proof -
  have "handle_synced hist s (f\<lparr>ff_deleted := True\<rparr>) = handle_synced hist s f" for s
    by (rule handle_synced_cong) simp_all
  then show ?thesis by (simp add: mark_deleted_def)
qed

lemma unlink_remote_keeps:
  assumes c: "service_ok (rt_client rt) content hist" and m: "mount_ok hist m"
    and u: "unlink_remote rt m p dir = (m', e)"
  shows "mount_ok hist m'"
proof (cases "rt_read_only rt")
  case False
  obtain s r where d: "cl_delete (rt_client rt) (m_service m) p = (s, r)" by (rule prod.exhaust)
  have k: "keeps_history hist (m_service m) s" using service_history(4) [OF c d] .
  have co: "cache_coherent hist (m_service m) (m_cache m)" using m by (simp add: mount_ok_def)
  have ok: "mount_ok hist m1" if "m_service m1 = s" "m_files m1 = m_files m" "cache_coherent hist s (m_cache m1)" for m1
    using mount_ok_service [OF m _ that(2)] k that by simp
  let ?m1 = "m\<lparr>m_service := s, m_meta := fst (meta_remove (rt_meta_path rt) (rt_meta_io rt) (m_meta m) p dir),
              m_cache := cache_invalidate_prefix (m_cache m) p\<rparr>"
  have "mount_ok hist ?m1" "mount_ok hist (m\<lparr>m_service := s\<rparr>)"
    by (rule ok; simp add: cache_coherent_invalidate_prefix cache_coherent_history [OF k co])+
  moreover have "mount_ok hist (mark_deleted_open_handles ?m1 p)"
    unfolding mark_deleted_open_handles_def each_open_handle_def
    by (rule each_open_handle_keeps [OF \<open>mount_ok hist ?m1\<close>]) (rule mark_deleted_keeps)
  ultimately show ?thesis
    using u d False by (auto simp: unlink_remote_def split: option.splits)
qed (use u m in \<open>simp add: unlink_remote_def\<close>)

lemma writable_cong:
  "m_files m' = m_files m \<Longrightarrow> m_open m' = m_open m \<Longrightarrow> writable_open_handles m' p = writable_open_handles m p"
  by (simp add: writable_open_handles_def)

text \<open>Without a handle opened with O_TRUNC the refresh after a truncation changes nothing.\<close>

lemma refresh_without_trunc:
  assumes "open_without (\<lambda>f. fl_trunc (ff_flags f)) m is"
  shows "foldl (\<lambda>m i. update_handle m i (refresh_after_path_truncate p v)) m is = m"
  using assms
proof (induction "is")
  case (Cons i "is")
  have "map_option (refresh_after_path_truncate p v) (m_files m i) = m_files m i"
    using Cons.prems by (cases "m_files m i") (auto simp: open_without_def refresh_after_path_truncate_def)
  then have "update_handle m i (refresh_after_path_truncate p v) = m" by (simp add: update_handle_def)
  then show ?case using Cons by (simp add: open_without_def)
qed simp

lemma truncate_remote_keeps:
  assumes c: "service_ok (rt_client rt) content hist" and m: "mount_ok hist m"
    and st: "stat_version (rt_client rt) (m_service m) now p = Inr st"
    and ord: "sz = None \<or> open_without (\<lambda>f. fl_trunc (ff_flags f)) m (writable_open_handles m p)"
    and t: "truncate_remote rt m p (rs_version st) sz = Returns (m', e)"
  shows "mount_ok hist m'"
proof (cases sz)
  case (Some n)
  obtain m1 res where r: "cached_read rt m p (rs_version st) = (m1, res)" by (rule prod.exhaust)
  note cr = cached_read_ok [OF c m st r]
  show ?thesis
  proof (cases "\<exists>data d. res = Inr data \<and> resize_fuse_data data n = Returns (Inr d)")
    case False
    then have "m' = m1" using t r Some by (auto simp: truncate_remote_def split: sum.splits run.splits)
    then show ?thesis using cr(1) by simp
  next
    case True
    then obtain data d where d: "res = Inr data" "resize_fuse_data data n = Returns (Inr d)" by blast
    obtain m2 r2 where w: "write_file rt m1 p d (rs_version st) = (m2, r2)" by (rule prod.exhaust)
    note wf = write_file_keeps [OF c cr(1) resize_max [OF d(2)] w]
    have "open_without (\<lambda>f. fl_trunc (ff_flags f)) m2 (writable_open_handles m2 p)"
      using ord Some writable_cong [of m2 m p] wf(2,3) cr(3,4) by (simp add: open_without_def)
    then have "refresh_open_handles_after_path_truncate m2 p v = m2" for v
      unfolding refresh_open_handles_after_path_truncate_def by (rule refresh_without_trunc)
    then have "m' = m2" using t r Some d w by (auto simp: truncate_remote_def split: sum.splits)
    then show ?thesis using wf(1) by simp
  qed
qed (use t m in \<open>simp add: truncate_remote_def\<close>)

lemma finish_setattr_keeps:
  assumes c: "service_ok (rt_client rt) content hist" and m: "mount_ok hist m"
  shows "mount_ok hist (fst (finish_setattr rt m p sz mode))"
proof -
  have chm: "mount_ok hist (m\<lparr>m_service := x\<rparr>)" "mount_ok hist (m\<lparr>m_service := x, m_meta := y\<rparr>)"
    if "cl_chmod (rt_client rt) (m_service m) p (uint md) = (x, z)" for x y z md
  proof -
    have k: "keeps_history hist (m_service m) x" using service_history(3) [OF c that] .
    have co: "cache_coherent hist (m_service m) (m_cache m)" using m by (simp add: mount_ok_def)
    show "mount_ok hist (m\<lparr>m_service := x\<rparr>)" "mount_ok hist (m\<lparr>m_service := x, m_meta := y\<rparr>)"
      by (rule mount_ok_service [OF m]; simp add: k cache_coherent_history [OF k co])+
  qed
  have "mount_ok hist (fst (chmod_remote rt m p mode))"
    using m chm by (auto simp: chmod_remote_def split: option.splits prod.splits)
  then show ?thesis by (auto simp: finish_setattr_def split: prod.splits)
qed

lemma adopt_keeps:
  assumes m: "mount_ok hist m" and a: "adopt_single_caller_path_setattr m pid p sz mode = Some (Returns (m', e))"
  shows "mount_ok hist m'"
proof -
  obtain i f f1 where f: "m_files m i = Some f" "setattr_locked (m_now m) f sz mode = Returns (f1, e)"
    "m' = m\<lparr>m_files := (m_files m)(i \<mapsto> f1)\<rparr>"
    using a by (auto simp: adopt_single_caller_path_setattr_def split: if_splits list.splits option.splits run.splits)
  have g: "\<not> ff_commit f" "ff_writable f \<longrightarrow> handle_synced hist (m_service m) f"
    using m f(1) by (simp_all add: mount_ok_def)
  have "ff_writable f1 \<longrightarrow> handle_synced hist (m_service m) f1"
    using g(2) setattr_locked_shape [OF f(2)]
      setattr_locked_synced [OF _ f(2), of hist "m_service m"] by blast
  then show ?thesis
    unfolding f(3) using g(1) setattr_locked_shape [OF f(2)] by (intro mount_ok_handle [OF m]) simp_all
qed

lemma setattr_remote_keeps:
  assumes c: "service_ok (rt_client rt) content hist" and m: "mount_ok hist m"
    and ord: "orderly hist m (Act_Path pid p sz mode st)"
    and u: "setattr_remote rt m pid p sz mode st = Returns (m', e)"
  shows "mount_ok hist m'"
proof (cases "sz \<noteq> None \<and> adopt_single_caller_path_setattr m pid p sz mode \<noteq> None \<and> \<not> rt_read_only rt")
  case True
  then have "adopt_single_caller_path_setattr m pid p sz mode = Some (Returns (m', e))"
    using u by (auto simp: setattr_remote_def)
  then show ?thesis by (rule adopt_keeps [OF m])
next
  case False
  show ?thesis
  proof (cases "stat_remote rt m p")
    case (Inl x)
    then show ?thesis using u m False by (auto simp: setattr_remote_def split: if_splits option.splits)
  next
    case (Inr s)
    then obtain s0 where s0: "stat_version (rt_client rt) (m_service m) (m_now m) p = Inr s0"
      "rs_version s = rs_version s0"
      by (auto simp: stat_remote_def split: sum.splits)
    have tr: "mount_ok hist m1" if "truncate_remote rt m p (rs_version s) sz = Returns (m1, e1)"
      "\<not> rt_read_only rt" for m1 e1
      using truncate_remote_keeps [OF c m s0(1)] that ord False s0(2) by auto
    show ?thesis
    proof (cases "truncate_remote rt m p (rs_version s) sz")
      case Panic
      then show ?thesis using u m Inr False by (auto simp: setattr_remote_def split: if_splits)
    next
      case (Returns x)
      obtain m1 e1 where x: "x = (m1, e1)" by (rule prod.exhaust)
      have "m' = m \<or> \<not> rt_read_only rt \<and> (m' = m1 \<or> m' = fst (finish_setattr rt m1 p sz mode))"
        using u Inr Returns x False by (auto simp: setattr_remote_def split: if_splits)
      then show ?thesis using m tr Returns x finish_setattr_keeps [OF c] by auto
    qed
  qed
qed

text \<open>A rename moves no handle that is open for writing.\<close>

lemma retarget_keeps:
  assumes "mount_ok hist m" "\<And>f. ff_commit (g f) = ff_commit f \<and> ff_writable (g f) = ff_writable f"
    and "open_without (\<lambda>f. ff_writable f \<and> g f \<noteq> f) m is"
  shows "mount_ok hist (foldl (\<lambda>m i. update_handle m i g) m is)"
  using assms(1,3)
proof (induction "is" arbitrary: m)
  case (Cons i "is")
  have same: "g f = f" if "m_files m i = Some f" "ff_writable f" for f
    using Cons.prems(2) that by (simp add: open_without_def)
  then have "mount_ok hist (update_handle m i g)"
    using Cons.prems(1) assms(2) by (auto simp: mount_ok_def update_handle_def)
  moreover have "open_without (\<lambda>f. ff_writable f \<and> g f \<noteq> f) (update_handle m i g) is"
    using Cons.prems(2) same assms(2)
    by (auto simp: open_without_def update_handle_def list_all_iff split: option.splits if_splits)
  ultimately show ?case using Cons.IH by simp
qed simp

lemma rename_remote_keeps:
  assumes c: "service_ok (rt_client rt) content hist" and m: "mount_ok hist m"
    and ord: "orderly hist m (Act_Rename source target)" and u: "rename_remote rt m source target = (m', e)"
  shows "mount_ok hist m'"
proof (cases "rt_read_only rt")
  case False
  obtain s r where d: "cl_rename (rt_client rt) (m_service m) source target = (s, r)" by (rule prod.exhaust)
  have k: "keeps_history hist (m_service m) s" using service_history(5) [OF c d] .
  have co: "cache_coherent hist (m_service m) (m_cache m)" using m by (simp add: mount_ok_def)
  let ?m1 = "m\<lparr>m_service := s, m_meta := fst (meta_move (rt_meta_path rt) (rt_meta_io rt) (m_meta m) source target),
              m_cache := cache_invalidate_prefix (cache_invalidate_prefix (m_cache m) source) target\<rparr>"
  have ok: "mount_ok hist ?m1" "mount_ok hist (m\<lparr>m_service := s\<rparr>)"
    by (rule mount_ok_service [OF m]; simp add: k cache_coherent_invalidate_prefix cache_coherent_history [OF k co])+
  have "mount_ok hist (retarget_open_handles ?m1 source target v)" for v
    unfolding retarget_open_handles_def each_open_handle_def
  proof (rule retarget_keeps [OF ok(1)])
    show "ff_commit (retarget_handle source target v f) = ff_commit f
        \<and> ff_writable (retarget_handle source target v f) = ff_writable f" for f
      by (simp add: retarget_handle_def Let_def)
    show "open_without (\<lambda>f. ff_writable f \<and> retarget_handle source target v f \<noteq> f) ?m1 (m_open ?m1)"
      using ord by (auto simp: open_without_def list_all_iff retarget_handle_def split: option.splits)
  qed
  then show ?thesis using u d False ok(2) by (auto simp: rename_remote_def Let_def split: option.splits)
qed (use u m in \<open>simp add: rename_remote_def\<close>)

lemma op_flush_keeps:
  assumes c: "service_ok (rt_client rt) content hist" and m: "mount_ok hist m" and o: "op_flush rt m i = (m', e)"
  shows "mount_ok hist m'"
proof (cases "m_files m i")
  case (Some f)
  obtain m1 f1 e1 where fl: "flush_locked rt m f = (m1, f1, e1)" by (rule prod_cases3)
  have f: "\<not> ff_commit f" "ff_writable f \<longrightarrow> handle_synced hist (m_service m) f" using m Some by (auto simp: mount_ok_def)
  note k = flush_locked_keeps [OF c m f fl]
  show ?thesis using o Some fl mount_ok_handle [OF k(1-3)] by (auto simp: op_flush_def)
qed (use o m in \<open>simp add: op_flush_def\<close>)

lemma op_release_keeps:
  assumes c: "service_ok (rt_client rt) content hist" and m: "mount_ok hist m" and o: "op_release rt m i = (m', e)"
  shows "mount_ok hist m'"
proof (cases "m_files m i")
  case (Some f)
  show ?thesis
  proof (cases "ff_closed f")
    case False
    obtain m1 f1 e1 where fl: "flush_locked rt m (f\<lparr>ff_closed := True\<rparr>) = (m1, f1, e1)" by (rule prod_cases3)
    have "handle_synced hist (m_service m) (f\<lparr>ff_closed := True\<rparr>) = handle_synced hist (m_service m) f"
      by (rule handle_synced_cong) simp_all
    then have f: "\<not> ff_commit (f\<lparr>ff_closed := True\<rparr>)" "ff_writable (f\<lparr>ff_closed := True\<rparr>) \<longrightarrow> handle_synced hist (m_service m) (f\<lparr>ff_closed := True\<rparr>)"
      using m Some by (auto simp: mount_ok_def)
    note k = flush_locked_keeps [OF c m f fl]
    have "mount_ok hist (unregister_open_handle (m1\<lparr>m_files := (m_files m1)(i \<mapsto> f1)\<rparr>) i)"
      by (rule mount_ok_cong [OF mount_ok_handle [OF k(1-3)]]) (simp_all add: unregister_open_handle_def)
    then show ?thesis using o Some fl False by (auto simp: op_release_def)
  qed (use o m Some in \<open>simp add: op_release_def\<close>)
qed (use o m in \<open>simp add: op_release_def\<close>)

lemma op_write_keeps:
  assumes m: "mount_ok hist m" and o: "op_write m i bs off = Returns (m', r)" and len: "int (length bs) \<le> max_int64"
  shows "mount_ok hist m'"
proof -
  obtain f f1 where f: "m_files m i = Some f" "file_write (m_now m) f bs off = Returns (f1, r)"
    "m' = m\<lparr>m_files := (m_files m)(i \<mapsto> f1)\<rparr>"
    using o by (auto simp: op_write_def split: option.splits run.splits prod.splits)
  have g: "\<not> ff_commit f" "ff_writable f \<longrightarrow> handle_synced hist (m_service m) f" using m f(1) by (auto simp: mount_ok_def)
  have "ff_commit f1 = ff_commit f" "ff_writable f1 = ff_writable f"
    using f(2) by (auto simp: file_write_def Let_def mark_dirty_range_def split: if_splits)
  moreover have "ff_writable f \<longrightarrow> handle_synced hist (m_service m) f1"
    using g(2) file_write_synced [OF _ f(2) len, of hist "m_service m"] by blast
  ultimately show ?thesis
    unfolding f(3) using g(1) by (intro mount_ok_handle [OF m]) simp_all
qed

lemma op_setattr_keeps:
  assumes m: "mount_ok hist m" and o: "op_setattr m i sz mode = Returns (m', e)"
  shows "mount_ok hist m'"
proof -
  obtain f f1 where f: "m_files m i = Some f" "setattr_locked (m_now m) f sz mode = Returns (f1, e)"
    "m' = m\<lparr>m_files := (m_files m)(i \<mapsto> f1)\<rparr>"
    using o by (auto simp: op_setattr_def split: option.splits run.splits)
  have g: "\<not> ff_commit f" "ff_writable f \<longrightarrow> handle_synced hist (m_service m) f"
    using m f(1) by (simp_all add: mount_ok_def)
  have "ff_writable f1 \<longrightarrow> handle_synced hist (m_service m) f1"
    using g(2) setattr_locked_shape [OF f(2)]
      setattr_locked_synced [OF _ f(2), of hist "m_service m"] by blast
  then show ?thesis
    unfolding f(3) using g(1) setattr_locked_shape [OF f(2)] by (intro mount_ok_handle [OF m]) simp_all
qed

lemma mount_act_keeps:
  assumes c: "service_ok (rt_client rt) content hist" and m: "mount_ok hist m"
    and ord: "orderly hist m a" and s: "mount_act rt m a = Returns m'"
  shows "mount_ok hist m'"
proof (cases a)
  case (Act_Write i bs off)
  then show ?thesis using s ord op_write_keeps [OF m] by auto
next
  case (Act_Setattr i sz mode)
  then show ?thesis using s op_setattr_keeps [OF m] by auto
next
  case (Act_Flush i)
  then show ?thesis using s op_flush_keeps [OF c m] by (metis mount_act.simps(3) prod.collapse run.inject)
next
  case (Act_Release i)
  then show ?thesis using s op_release_keeps [OF c m] by (metis mount_act.simps(4) prod.collapse run.inject)
next
  case (Act_Open pid p flags)
  then show ?thesis using s ord open_remote_keeps [OF c m]
    by (metis mount_act.simps(5) orderly.simps(2) prod.collapse run.inject)
next
  case (Act_Create pid p flags)
  then show ?thesis using s create_remote_keeps [OF c m] by (metis mount_act.simps(6) prod.collapse run.inject)
next
  case (Act_Unlink p dir)
  then show ?thesis using s unlink_remote_keeps [OF c m] by (metis mount_act.simps(7) prod.collapse run.inject)
next
  case (Act_Path pid p sz mode st)
  obtain x where x: "setattr_remote rt m pid p sz mode st = Returns x" "m' = fst x"
    using s Act_Path by auto
  then have "setattr_remote rt m pid p sz mode st = Returns (m', snd x)" by simp
  then show ?thesis using setattr_remote_keeps [OF c m] ord Act_Path by blast
next
  case (Act_Rename source target)
  then show ?thesis using s ord rename_remote_keeps [OF c m] by (metis mount_act.simps(9) prod.collapse run.inject)
next
  case (Act_Others s1)
  then show ?thesis
    using s ord m cache_coherent_history [of hist "m_service m" s1 "m_cache m"]
    by (intro mount_ok_service [OF m]) (auto simp: mount_ok_def)
next
  case (Act_Time t)
  then show ?thesis using s mount_ok_cong [OF m] by auto
qed

lemma reach_ok:
  assumes "service_ok (rt_client rt) content hist" "orderly_reach rt hist m0 m" "mount_ok hist m0"
  shows "mount_ok hist m"
  using assms(2,3) by (induction rule: orderly_reach.induct) (auto intro: mount_act_keeps [OF assms(1)])

text \<open>A mount as it starts: nothing open, the read cache empty.\<close>

definition fresh_mount :: "'s \<Rightarrow> read_cache \<Rightarrow> wb_dir \<Rightarrow> meta_file option \<Rightarrow> int \<Rightarrow> 's mount" where
  "fresh_mount s c d f now =
     \<lparr>m_service = s, m_cache = c, m_dir = d, m_meta = f, m_files = (\<lambda>_. None), m_open = [], m_seq = 0,
      m_next = 0, m_now = now\<rparr>"

lemma fresh_mount_ok: "mount_ok hist (fresh_mount s (new_read_cache a b t) d f now)"
proof -
  have "cache_inv (new_read_cache a b t)"
    using new_read_cache_ok [of a b t]
    by (simp add: cache_inv_def new_read_cache_def default_read_cache_size_def)
  then show ?thesis
    by (simp add: mount_ok_def fresh_mount_def cache_coherent_def cache_view_def new_read_cache_def)
qed
section \<open>A reference service\<close>

text \<open>
  A service that meets the laws, for the witnesses: its state is the list of writes, the
  newest first, a removal being a write of None; the revision of a write is its position from
  the end.
\<close>

type_synonym ref_log = "(string \<times> string option) list"

fun ref_cur :: "ref_log \<Rightarrow> string \<Rightarrow> (int \<times> string) option" where
  "ref_cur [] p = None"
| "ref_cur ((q, x) # log) p = (if q = p then map_option (\<lambda>d. (int (length log) + 1, d)) x else ref_cur log p)"

fun ref_hist :: "ref_log \<Rightarrow> string \<Rightarrow> int \<Rightarrow> string option" where
  "ref_hist [] p r = None"
| "ref_hist ((q, x) # log) p r =
     (if r = int (length log) + 1 then (if q = p then x else None) else ref_hist log p r)"

definition ref_content :: "ref_log \<Rightarrow> string \<Rightarrow> string option" where
  "ref_content log p = map_option snd (ref_cur log p)"

definition ref_error :: "int \<Rightarrow> go_error" where
  "ref_error status = ApiErr ''api.error'' ''api'' 1 status (Lit ''refused'') [] None"

definition ref_client :: "ref_log fs_client" where
  "ref_client = \<lparr>
     cl_stat_metadata = (\<lambda>log p. case ref_cur log p of
         None \<Rightarrow> Inl (ref_error 404)
       | Some (r, d) \<Rightarrow> Inr \<lparr>sm_size = int (length d), sm_is_dir = False, sm_resource_id = [], sm_revision = r, sm_mtime = 0\<rparr>),
     cl_stat = (\<lambda>log p. Inl (ref_error 404)),
     cl_read = (\<lambda>log p. case ref_cur log p of
         None \<Rightarrow> Inl (ref_error 404)
       | Some (r, d) \<Rightarrow> if int (length d) \<le> max_int64 then Inr d else Inl (ref_error 500)),
     cl_write = (\<lambda>log p x. ((p, Some x) # log, Inr (int (length log) + 1))),
     cl_patch = (\<lambda>log p n parts rp ps er. case ref_cur log p of
         None \<Rightarrow> (log, Some (ref_error 404))
       | Some (r, d) \<Rightarrow> if r = er then ((p, Some (patched_object d (nat n) (nat ps) parts rp)) # log, None)
                     else (log, Some (ref_error 409))),
     cl_chmod = (\<lambda>log p md. (log, None)),
     cl_delete = (\<lambda>log p. ((p, None) # log, None)),
     cl_rename = (\<lambda>log s t. case ref_cur log s of
         None \<Rightarrow> (log, Some (ref_error 404))
       | Some (r, d) \<Rightarrow> ((t, Some d) # (s, None) # log, None))\<rparr>"

lemma ref_hist_old: "ref_hist log p r = Some x \<Longrightarrow> r \<le> int (length log)"
  by (induction log) (auto split: if_splits)

lemma ref_hist_cons: "keeps_history ref_hist log (e # log)"
  using ref_hist_old by (cases e) (fastforce simp: keeps_history_def)

lemma ref_cur_hist: "ref_cur log p = Some (r, d) \<Longrightarrow> ref_hist log p r = Some d"
proof (induction log)
  case (Cons e log)
  obtain q x where e: "e = (q, x)" by (rule prod.exhaust)
  show ?case
  proof (cases "q = p")
    case False
    then have "ref_hist log p r = Some d" using Cons e by simp
    then show ?thesis using ref_hist_cons unfolding keeps_history_def by blast
  qed (use Cons.prems e in auto)
qed simp

lemma ref_service_ok: "service_ok ref_client ref_content ref_hist"
  unfolding service_ok_def
proof (intro conjI)
  have "stat_version ref_client s now p = Inr st \<Longrightarrow>
      \<exists>d. ref_cur s p = Some (revision (rs_version st), d)" for s now p st
    by (auto simp: stat_version_def stat_fuse_remote_version_def ref_client_def version_from_metadata_def
        should_fallback_stat_def is_api_not_found_def as_api_def ref_error_def split: option.splits)
  then show "stat_law ref_client ref_content ref_hist"
    unfolding stat_law_def ref_content_def using ref_cur_hist by fastforce
  show "read_law ref_client ref_content"
    by (auto simp: read_law_def ref_client_def ref_content_def split: option.splits if_splits)
  show "write_law ref_client ref_content ref_hist"
    by (auto simp: write_law_def ref_client_def ref_content_def only_path_def)
  show "patch_law ref_client ref_content ref_hist"
    by (auto simp: patch_law_def ref_client_def ref_content_def only_path_def ref_cur_hist
        split: option.splits if_splits)
  show "patch_error_law ref_client ref_content"
    by (auto simp: patch_error_law_def ref_client_def split: option.splits if_splits)
  show "history_law ref_client ref_hist"
    by (auto simp: history_law_def ref_client_def ref_hist_cons keeps_history_trans [OF ref_hist_cons ref_hist_cons]
        split: option.splits)
qed

definition ref_rt :: "ref_log fuse_rt" where
  "ref_rt = \<lparr>rt_client = ref_client, rt_read_only = False, rt_meta_path = [], rt_store = None, rt_key = (\<lambda>p. p),
     rt_quote = (\<lambda>s. s), rt_io = no_faults, rt_meta_io = meta_io_ok, rt_ids = (0, 0), rt_commit = (\<lambda>s f. (s, None))\<rparr>"

definition ref_mount :: "ref_log \<Rightarrow> ref_log mount" where
  "ref_mount log = fresh_mount log (new_read_cache 0 0 0) empty_dir None 0"

definition rdwr :: open_flags where
  "rdwr = \<lparr>fl_any_write = True, fl_trunc = False, fl_excl = False\<rparr>"
section \<open>Properties\<close>


definition wit_created :: "ref_log mount" where
  "wit_created = fst (create_remote ref_rt (ref_mount []) 0 ''/f'' rdwr)"

definition wit_written :: "ref_log mount" where
  "wit_written = (case op_write wit_created 0 ''hi'' 0 of Panic \<Rightarrow> wit_created | Returns (m, _) \<Rightarrow> m)"

definition wit_file :: fuse_file where
  "wit_file = the (m_files wit_written 0)"

lemma wit_steps: "orderly_reach ref_rt ref_hist (ref_mount []) wit_written"
proof -
  have "mount_act ref_rt (ref_mount []) (Act_Create 0 ''/f'' rdwr) = Returns wit_created"
    by (simp add: wit_created_def)
  then have 1: "orderly_reach ref_rt ref_hist (ref_mount []) wit_created"
    by (rule or_step [OF or_start, rotated]) simp
  have "case op_write wit_created 0 ''hi'' 0 of Panic \<Rightarrow> False | Returns _ \<Rightarrow> True" by code_simp
  then obtain m r where "op_write wit_created 0 ''hi'' 0 = Returns (m, r)"
    by (auto split: run.splits)
  then have "mount_act ref_rt wit_created (Act_Write 0 ''hi'' 0) = Returns wit_written"
    by (simp add: wit_written_def)
  then show ?thesis
    by (rule or_step [OF 1, rotated]) (simp add: max_int64_def)
qed

text \<open>C13: A write is a write of the file's bytes: if it is accepted, the handle holds the old bytes
  with the new ones at the offset and zero bytes in a gap, the bytes written are what a read of
  the same place returns, every byte that changed is in the dirty ranges, and the handle stays
  synchronised with its base.\<close>

theorem write_then_read:
  assumes "file_write now f bs off = Returns (f', Inr n)" "int (length bs) \<le> max_int64" "handle_synced hist s f"
  shows "ff_data f' = spliced (ff_data f) (nat off) bs \<and> n = int (length bs) mod 4294967296 \<and>
    file_read f' (length bs) off = Returns (Inr bs) \<and> ff_dirty f' \<and>
    covered (ff_ranges f') x = (0 \<le> x \<and> (covered (ff_ranges f) x \<or> off \<le> x \<and> x < off + int (length bs)))
    \<and> handle_synced hist s f'"
proof -
  have sh: "0 \<le> off" "off + int (length bs) \<le> max_int64"
    "f' = f\<lparr>ff_data := spliced (ff_data f) (nat off) bs, ff_dirty := True,
      ff_ranges := merge_dirty_ranges (ff_ranges f @ [Dirty_Range off (off + int (length bs))]), ff_mod_time := now\<rparr>"
    using file_write_shape [OF assms(1,2)] by blast+
  obtain k where k: "off = int k" using sh(1) nonneg_int_cases by blast
  have w: "wrap64 (off + int (length bs)) = off + int (length bs)"
    using sh k by (intro wrap64_id) (simp add: in_int64_def min_int64_def)
  have n: "n = int (length bs) mod 4294967296"
    using assms(1) by (auto simp: file_write_def Let_def split: if_splits)
  have slice: "take (length bs) (drop k (spliced (ff_data f) k bs)) = bs"
    by (rule nth_equalityI) (auto simp: length_spliced nth_spliced)
  have "file_read f' (length bs) off = Returns (Inr bs)"
  proof (cases "bs = []")
    case True
    then show ?thesis
      using k sh(3) wrap64_id [of off] sh(2) by (simp add: file_read_def Let_def in_int64_def min_int64_def)
  next
    case False
    then have "int k < int (length (spliced (ff_data f) k bs))" by (simp add: length_spliced less_max_iff_disj)
    moreover have "\<not> int k + int (length bs) > int (length (spliced (ff_data f) k bs))"
      by (simp add: length_spliced le_max_iff_disj)
    ultimately show ?thesis using w k slice sh(3) by (simp add: file_read_def Let_def)
  qed
  then show ?thesis
    using sh(3) n file_write_synced [OF assms(3,1,2)] by (simp add: covered_merge)
qed

theorem write_then_read_witness:
  "file_write 5 wit_file ''abc'' 4 = Returns (wit_file\<lparr>ff_data := spliced (ff_data wit_file) 4 ''abc'', ff_dirty := True,
      ff_ranges := merge_dirty_ranges (ff_ranges wit_file @ [Dirty_Range 4 7]), ff_mod_time := 5\<rparr>, Inr 3)
   \<and> spliced (ff_data wit_file) 4 ''abc'' = ''hi'' @ [CHR 0x00, CHR 0x00] @ ''abc''"
proof -
  let ?f = "wit_file\<lparr>ff_data := spliced (ff_data wit_file) 4 ''abc'', ff_dirty := True,
      ff_ranges := merge_dirty_ranges (ff_ranges wit_file @ [Dirty_Range 4 7]), ff_mod_time := 5\<rparr>"
  have w: "file_write 5 wit_file ''abc'' 4 = Returns (?f, Inr 3)" by code_simp
  have c: "service_ok (rt_client ref_rt) ref_content ref_hist" by (simp add: ref_rt_def ref_service_ok)
  have "mount_ok ref_hist (ref_mount [])" by (simp add: ref_mount_def fresh_mount_ok)
  then have m: "mount_ok ref_hist wit_written" by (rule reach_ok [OF c wit_steps])
  have "m_files wit_written 0 \<noteq> None" by code_simp
  moreover have "ff_writable wit_file" by code_simp
  ultimately have s: "handle_synced ref_hist (m_service wit_written) wit_file"
    using m by (auto simp: mount_ok_def wit_file_def)
  have l: "int (length ''abc'') \<le> max_int64" by (simp add: max_int64_def)
  have "ff_data ?f = spliced (ff_data wit_file) (nat 4) ''abc''"
    using write_then_read [OF w l s] by blast
  moreover have "spliced (ff_data wit_file) 4 ''abc'' = ''hi'' @ [CHR 0x00, CHR 0x00] @ ''abc''" by code_simp
  ultimately show ?thesis using w by simp
qed

text \<open>C31: The range check of a write cannot fail, and what it should refuse crashes the mount: the
  end of a write is computed in 64 bits, so no write is answered with EFBIG.  On a handle whose
  bytes fit in one allocation a write, at an offset and with a length of their Go types, panics
  exactly when its end exceeds the largest allocation of the runtime, in the allocation of the
  grown file, or, when the end wraps to a negative number, in the slice expression.\<close>

theorem write_end_overflow_panics:
  assumes "ff_writable f" "0 \<le> off" "off \<le> max_int64" "int (length bs) \<le> max_int64"
    and "int (length (ff_data f)) \<le> max_alloc"
  shows "(file_write now f bs off = Panic) = (max_alloc < off + int (length bs)) \<and>
    file_write now f bs off \<noteq> Returns (f, Inl EFBIG)"
proof -
  let ?e = "wrap64 (off + int (length bs))"
  have r: "\<not> ?e > max_int64" using wrap64_range [of "off + int (length bs)"] by (simp add: in_int64_def)
  have e: "?e = off + int (length bs)" if "off \<le> ?e"
    using file_write_end [OF assms(2) that assms(4)] .
  have w: "?e = off + int (length bs)" if "off + int (length bs) \<le> max_alloc"
    using assms(2) that by (intro wrap64_id) (simp add: in_int64_def min_int64_def max_int64_def max_alloc_def)
  have p: "file_write now f bs off = Panic \<longleftrightarrow> max_alloc < ?e \<or> ?e < off"
    using assms(1,2,5) r by (auto simp: file_write_def Let_def)
  have "max_alloc < ?e \<or> ?e < off \<longleftrightarrow> max_alloc < off + int (length bs)"
  proof (cases "off + int (length bs) \<le> max_alloc")
    case True
    then show ?thesis using w by simp
  next
    case False
    then show ?thesis using e by (cases "off \<le> ?e") simp_all
  qed
  moreover have "file_write now f bs off \<noteq> Returns (f, Inl EFBIG)"
    using assms(1,2) r by (auto simp: file_write_def Let_def)
  ultimately show ?thesis using p by blast
qed

theorem write_end_overflow_panics_witness:
  "file_write 0 wit_file ''ab'' 9223372036854775806 = Panic \<and> file_write 0 wit_file ''ab'' 281474976710655 = Panic
   \<and> file_write 0 wit_file ''ab'' 281474976710654 \<noteq> Panic"
proof -
  have "ff_writable wit_file" "length (ff_data wit_file) = 2" by code_simp+
  then show ?thesis
    using write_end_overflow_panics [of wit_file 9223372036854775806 "''ab''" 0]
      write_end_overflow_panics [of wit_file 281474976710655 "''ab''" 0]
      write_end_overflow_panics [of wit_file 281474976710654 "''ab''" 0]
    by (simp add: max_int64_def max_alloc_def)
qed

text \<open>The same through a truncation: a size above the largest allocation that is no larger than
  the largest offset is not refused, and the allocation panics.\<close>

theorem truncate_panics:
  assumes "ff_writable f" "int (length (ff_data f)) \<le> max_alloc"
  shows "setattr_locked now f (Some n) mode = Panic \<longleftrightarrow> max_alloc < int n \<and> int n \<le> max_int64"
  using assms by (cases mode) (auto simp: setattr_locked_def resize_fuse_data_def)

theorem truncate_panics_witness:
  "setattr_locked 0 wit_file (Some 281474976710657) None = Panic"
proof -
  have "ff_writable wit_file" "length (ff_data wit_file) = 2" by code_simp+
  then show ?thesis
    using truncate_panics [of wit_file 0 281474976710657 None] by (simp add: max_int64_def max_alloc_def)
qed



text \<open>A mode set through a handle never reaches the service or the metadata store: what a flush
  does to the mount, and its error, do not depend on the mode the handle was given.\<close>

theorem handle_mode_is_not_stored:
  assumes "\<not> ff_commit f"
  shows "(case flush_locked rt m (f\<lparr>ff_mode := a\<rparr>) of (m', _, e) \<Rightarrow> (m', e))
     = (case flush_locked rt m (f\<lparr>ff_mode := b\<rparr>) of (m', _, e) \<Rightarrow> (m', e))"
  using assms by (simp add: flush_locked_def Let_def split: prod.split sum.split)

theorem handle_mode_is_not_stored_witness:
  "m_service (fst (flush_locked ref_rt wit_written (wit_file\<lparr>ff_mode := 0x180\<rparr>)))
     = m_service (fst (flush_locked ref_rt wit_written wit_file))"
proof -
  have c: "\<not> ff_commit wit_file" by code_simp
  have "ff_mode wit_file = 0" by code_simp
  then have "wit_file = wit_file\<lparr>ff_mode := 0\<rparr>" by simp
  then show ?thesis
    using handle_mode_is_not_stored [OF c, of ref_rt wit_written "0x180" 0]
    by (metis (no_types, lifting) case_prod_unfold fst_conv)
qed
section \<open>Two handles on one file\<close>

text \<open>
  The steps of the scenario: a file of two parts of 8 MiB is opened and its first byte is
  written; while that write is only in the handle the file is opened again, and a byte of the
  second part is written through the second handle and flushed.
\<close>

definition second_handle_run :: "string \<Rightarrow> char \<Rightarrow> char \<Rightarrow> (ref_log mount \<times> errno) option" where
  "second_handle_run base x y =
     (case open_remote ref_rt (ref_mount [(''/f'', Some base)]) 0 ''/f'' rdwr of
        (m1, Inr i) \<Rightarrow>
          (case op_write m1 i [x] 0 of
             Returns (m2, Inr _) \<Rightarrow>
               (case open_remote ref_rt m2 0 ''/f'' rdwr of
                  (m3, Inr j) \<Rightarrow>
                    (case op_write m3 j [y] 8388608 of
                       Returns (m4, Inr _) \<Rightarrow> Some (op_flush ref_rt m4 j)
                     | _ \<Rightarrow> None)
                | _ \<Rightarrow> None)
           | _ \<Rightarrow> None)
      | _ \<Rightarrow> None)"

definition scen_file :: "string \<Rightarrow> dirty_range list \<Rightarrow> bool \<Rightarrow> nat \<Rightarrow> fuse_file" where
  "scen_file data rs dirty k =
     \<lparr>ff_path = ''/f'', ff_data = data, ff_version = \<lparr>revision = 1, resource_id = []\<rparr>, ff_base_size = 16777216,
      ff_writable = True, ff_open_seq = k, ff_flags = rdwr, ff_pid = 0, ff_dirty = dirty, ff_ranges = rs,
      ff_force_whole = False, ff_deleted = False, ff_closed = False, ff_mod_time = 0, ff_mode = 0, ff_commit = False\<rparr>"

definition scen_mount :: "string \<Rightarrow> (nat \<Rightarrow> fuse_file option) \<Rightarrow> nat list \<Rightarrow> nat \<Rightarrow> ref_log mount" where
  "scen_mount base fs is k = (ref_mount [(''/f'', Some base)])\<lparr>m_files := fs, m_open := is, m_seq := k, m_next := k\<rparr>"

lemma scen_sel [simp]:
  "m_service (scen_mount base fs is k) = [(''/f'', Some base)]" "m_cache (scen_mount base fs is k) = new_read_cache 0 0 0"
  "m_files (scen_mount base fs is k) = fs" "m_open (scen_mount base fs is k) = is"
  "m_seq (scen_mount base fs is k) = k" "m_next (scen_mount base fs is k) = k" "m_now (scen_mount base fs is k) = 0"
  by (simp_all add: scen_mount_def ref_mount_def fresh_mount_def)

lemma scen_mount_cong:
  "(scen_mount base fs is k)\<lparr>m_files := fs', m_next := n, m_seq := n, m_open := is'\<rparr> = scen_mount base fs' is' n"
  "(scen_mount base fs is k)\<lparr>m_files := fs'\<rparr> = scen_mount base fs' is k"
  by (simp_all add: scen_mount_def)

lemma scen_new_handle:
  assumes "k \<notin> set is" "length data = 16777216"
  shows "(case new_remote_fuse_file (scen_mount base fs is k) ''/f'' data True False \<lparr>revision = 1, resource_id = []\<rparr> of
      (m, i) \<Rightarrow> (with_open_context m i 0 rdwr, i)) = (scen_mount base (fs(k \<mapsto> scen_file data [] False (Suc k))) (is @ [k]) (Suc k), k)"
  using assms by (simp add: new_remote_fuse_file_def Let_def register_open_handle_def update_handle_def
      with_open_context_def scen_file_def) (simp add: scen_mount_def)

lemma scen_stat:
  "stat_remote ref_rt (scen_mount base fs is k) ''/f'' =
     Inr \<lparr>rs_info = \<lparr>fi_name = ''f'', fi_size = int (length base), fi_mode = 0x1A4, fi_mod_time = 0\<rparr>,
          rs_version = \<lparr>revision = 1, resource_id = []\<rparr>\<rparr>"
proof -
  have b: "path_base ''/f'' = ''f''" by code_simp
  show ?thesis
    by (simp add: stat_remote_def stat_version_def stat_fuse_remote_version_def ref_rt_def ref_client_def
        scen_mount_def ref_mount_def fresh_mount_def file_info_from_metadata_def version_from_metadata_def
        unix_mod_time_def apply_file_info_def meta_lookup_def b)
qed

lemma scen_not_dir: "\<not> info_is_dir \<lparr>fi_name = ''f'', fi_size = n, fi_mode = 0x1A4, fi_mod_time = 0\<rparr>"
  by (simp add: info_is_dir_def mode_dir_def)

lemma scen_open_first:
  assumes "length base = 16777216"
  shows "open_remote ref_rt (ref_mount [(''/f'', Some base)]) 0 ''/f'' rdwr
    = (scen_mount base [0 \<mapsto> scen_file base [] False 1] [0] 1, Inr 0)"
proof -
  have m: "ref_mount [(''/f'', Some base)] = scen_mount base (\<lambda>_. None) [] 0"
    by (simp add: scen_mount_def ref_mount_def fresh_mount_def)
  have r: "cached_read ref_rt (scen_mount base (\<lambda>_. None) [] 0) ''/f'' v = (scen_mount base (\<lambda>_. None) [] 0, Inr base)" for v
  proof -
    have "cache_get (new_read_cache 0 0 0) 0 ''/f'' v = (new_read_cache 0 0 0, None)"
      by (simp add: cache_get_def new_read_cache_def)
    moreover have "cache_put (new_read_cache 0 0 0) 0 ''/f'' base v = new_read_cache 0 0 0"
      using assms by (simp add: cache_put_def new_read_cache_def default_read_cache_max_file_def)
    moreover have "cl_read (rt_client ref_rt) [(''/f'', Some base)] ''/f'' = Inr base"
      using assms by (simp add: ref_rt_def ref_client_def max_int64_def)
    ultimately show ?thesis
      by (simp add: cached_read_def)
  qed
  have w: "fl_any_write rdwr" "\<not> fl_trunc rdwr" "\<not> rt_read_only ref_rt" by (simp_all add: rdwr_def ref_rt_def)
  show ?thesis
    using scen_new_handle [of 0 "[]" base base "\<lambda>_. None"] assms
    by (simp add: m open_remote_def scen_stat scen_not_dir r w dirty_open_handle_data_def split: prod.splits)
qed
lemma scen_write:
  assumes "fs k = Some (scen_file data [] False n)" "length data = 16777216" "off < 16777216"
  shows "op_write (scen_mount base fs is q) k [x] (int off) = Returns
    (scen_mount base (fs(k \<mapsto> scen_file (data[off := x]) [Dirty_Range (int off) (int off + 1)] True n)) is q, Inr 1)"
proof -
  have w: "wrap64 (int off + 1) = int off + 1"
    using assms(3) by (intro wrap64_id) (simp add: in_int64_def min_int64_def max_int64_def)
  have m: "merge_dirty_ranges [Dirty_Range (int off) (int off + 1)] = [Dirty_Range (int off) (int off + 1)]"
    by (simp add: merge_dirty_ranges_def Let_def)
  have d: "take off data @ [x] @ drop (Suc off) data = data[off := x]"
    using assms(2,3) by (simp add: upd_conv_take_nth_drop)
  have n: "nat (int off + 1) = Suc off" by simp
  have e: "\<not> int off + 1 > max_int64" using assms(3) by (simp add: max_int64_def)
  show ?thesis
    using assms w m d n e
    by (simp add: op_write_def file_write_def Let_def mark_dirty_range_def scen_file_def)
      (simp add: scen_mount_def)
qed

lemma scen_open_second:
  assumes "length data = 16777216" "fs = [0 \<mapsto> scen_file data rs True n]"
  shows "open_remote ref_rt (scen_mount base fs [0] 1) 0 ''/f'' rdwr
    = (scen_mount base (fs(1 \<mapsto> scen_file data [] False 2)) [0, 1] 2, Inr 1)"
proof -
  have d: "dirty_open_handle_data (scen_mount base fs [0] 1) ''/f'' = Some (data, \<lparr>revision = 1, resource_id = []\<rparr>)"
    by (simp add: dirty_open_handle_data_def assms(2) dirty_for_path_def scen_file_def)
  have w: "fl_any_write rdwr" "\<not> fl_trunc rdwr" "\<not> rt_read_only ref_rt" by (simp_all add: rdwr_def ref_rt_def)
  show ?thesis
    using scen_new_handle [of 1 "[0]" data base fs] assms(1)
    by (simp add: open_remote_def scen_stat scen_not_dir d w Suc_1 del: One_nat_def split: prod.splits)
qed

lemma scen_parts:
  "calc_adaptive_part_size 16777216 = 8388608"
  "fuse_dirty_parts [Dirty_Range 8388608 8388609] 8388608 16777216 = [2]"
  "should_patch_fuse_write \<lparr>revision = 1, resource_id = []\<rparr> 16777216 16777216 [Dirty_Range 8388608 8388609]"
  by code_simp+

lemma scen_patched:
  assumes "length base = 16777216"
  shows "patched_object base 16777216 8388608 [2] rp = take 8388608 base @ rp 2 8388608"
proof -
  have "(16777216 + 8388608 - 1) div 8388608 = (2 :: nat)" by simp
  moreover have "[0..<2] = [0, 1 :: nat]" by (simp add: upt_rec)
  ultimately have "patched_object base 16777216 8388608 [2] rp
      = concat (map (\<lambda>i. if int i + 1 \<in> set [2] then rp (int i + 1) (int (min 8388608 (16777216 - i * 8388608)))
          else take (min 8388608 (16777216 - i * 8388608)) (drop (i * 8388608) base)) [0, 1])"
    by (simp only: patched_object_def)
  then show ?thesis by simp
qed
lemma scen_object:
  assumes "length base = 16777216"
  shows "take 8388608 base @ patch_read_part (base[0 := x, 8388608 := y]) 8388608 2 8388608 = base[8388608 := y]"
proof -
  let ?data = "base[0 := x, 8388608 := y]"
  have "patch_read_part ?data (int 8388608) (int 1 + 1) (int (min 8388608 (length ?data - 1 * 8388608))) = chunk 8388608 1 ?data"
    by (rule patch_read_part_chunk) (simp add: assms)
  then have r: "patch_read_part ?data 8388608 2 8388608 = chunk 8388608 1 ?data"
    by (simp add: assms)
  have "chunk 8388608 1 ?data = (drop 8388608 base)[0 := y]"
    using assms by (simp add: chunk_def drop_update_swap)
  moreover have "base[8388608 := y] = take 8388608 base @ (drop 8388608 base)[0 := y]"
  proof -
    have "(take 8388608 base @ drop 8388608 base)[8388608 := y] = take 8388608 base @ (drop 8388608 base)[0 := y]"
      using assms by (subst list_update_append) simp
    then show ?thesis by simp
  qed
  ultimately show ?thesis using r by simp
qed

lemma scen_flush:
  assumes "length base = 16777216" "data = base[0 := x, 8388608 := y]"
    and "fs 1 = Some (scen_file data [Dirty_Range 8388608 8388609] True 2)"
  shows "case op_flush ref_rt (scen_mount base fs is k) 1 of (m, e) \<Rightarrow> e = OK
    \<and> ref_content (m_service m) ''/f'' = Some (base[8388608 := y])
    \<and> (case m_files m 1 of None \<Rightarrow> False | Some g \<Rightarrow> ff_data g = data \<and> \<not> ff_dirty g)"
proof -
  let ?s = "[(''/f'', Some base)] :: ref_log"
  let ?v = "\<lparr>revision = 1, resource_id = []\<rparr>"
  let ?rs = "[Dirty_Range 8388608 8388609]"
  let ?s' = "(''/f'', Some (base[8388608 := y])) # ?s"
  have len: "length data = 16777216" using assms(1,2) by simp
  have st: "\<exists>i. stat_version ref_client s 0 ''/f'' = Inr \<lparr>rs_info = i, rs_version = \<lparr>revision = r, resource_id = []\<rparr>\<rparr>"
    if "ref_cur s ''/f'' = Some (r, d)" for s r d
    using that by (simp add: stat_version_def stat_fuse_remote_version_def ref_client_def version_from_metadata_def)
  have base_ok: "check_write_base ref_client ?s 0 ''/f'' ?v = None"
    using st [of ?s 1 base] by (auto simp: check_write_base_def version_known_def conflicts_with_def)
  have "cl_patch ref_client ?s ''/f'' 16777216 [2] (patch_read_part data 8388608) 8388608 1
      = ((''/f'', Some (patched_object base 16777216 8388608 [2] (patch_read_part data 8388608))) # ?s, None)"
    by (simp add: ref_client_def)
  then have pt: "cl_patch ref_client ?s ''/f'' 16777216 [2] (patch_read_part data 8388608) 8388608 1 = (?s', None)"
    using scen_patched [OF assms(1)] scen_object [OF assms(1)] assms(2) by simp
  obtain i where i: "stat_version ref_client ?s' 0 ''/f'' = Inr \<lparr>rs_info = i, rs_version = \<lparr>revision = 2, resource_id = []\<rparr>\<rparr>"
    using st [of ?s' 2 "base[8388608 := y]"] by auto
  have up: "patch_upload ref_client 0 ?s ''/f'' data ?v 16777216 ?rs = (?s', Inr \<lparr>revision = 2, resource_id = []\<rparr>)"
    using pt i len scen_parts by (simp add: patch_upload_def Let_def)
  have fu: "fuse_upload q ref_client 0 ?s ''/f'' data ?v 16777216 ?rs = (?s', Inr \<lparr>revision = 2, resource_id = []\<rparr>)" for q
    using base_ok up scen_parts(3) len by (simp add: fuse_upload_def)
  have rt: "rt_client ref_rt = ref_client" "rt_store ref_rt = None" by (simp_all add: ref_rt_def)
  obtain m' where w: "write_file_with_dirty ref_rt (scen_mount base fs is k) ''/f'' data ?v 16777216 ?rs
      = (m', Inr \<lparr>revision = 2, resource_id = []\<rparr>)" "m_service m' = ?s'"
    by (simp add: write_file_with_dirty_def put_and_upload_def fu rt Let_def)
  show ?thesis
    using w assms(3) by (simp add: op_flush_def flush_locked_def scen_file_def flushed_def ref_content_def Let_def)
qed

text \<open>C30: A second handle opened on a file with unflushed changes takes the bytes of the first
  handle but not its dirty ranges, so its flush uploads only its own part: the first byte
  written through the first handle is missing in the object, while the flush succeeds and the
  second handle, clean, shows it.\<close>

theorem second_handle_flush_drops_first_write:
  assumes "length base = 16777216"
  shows "case second_handle_run base x y of
     None \<Rightarrow> False
   | Some (m, e) \<Rightarrow> e = OK \<and> ref_content (m_service m) ''/f'' = Some (base[8388608 := y])
       \<and> (case m_files m 1 of None \<Rightarrow> False | Some g \<Rightarrow> ff_data g = base[0 := x, 8388608 := y] \<and> \<not> ff_dirty g)"
proof -
  let ?fs = "[0 \<mapsto> scen_file (base[0 := x]) [Dirty_Range 0 1] True 1]"
  have w1: "op_write (scen_mount base [0 \<mapsto> scen_file base [] False 1] [0] 1) 0 [x] 0
      = Returns (scen_mount base ?fs [0] 1, Inr 1)"
    using scen_write [of "[0 \<mapsto> scen_file base [] False 1]" 0 base 1 0 base "[0]" 1 x] assms by simp
  have o2: "open_remote ref_rt (scen_mount base ?fs [0] 1) 0 ''/f'' rdwr
      = (scen_mount base (?fs(1 \<mapsto> scen_file (base[0 := x]) [] False 2)) [0, 1] 2, Inr 1)"
    by (rule scen_open_second) (simp_all add: assms)
  have w2: "op_write (scen_mount base (?fs(1 \<mapsto> scen_file (base[0 := x]) [] False 2)) [0, 1] 2) 1 [y] 8388608
      = Returns (scen_mount base (?fs(1 \<mapsto> scen_file (base[0 := x, 8388608 := y]) [Dirty_Range 8388608 8388609] True 2)) [0, 1] 2, Inr 1)"
    using scen_write [of "?fs(1 \<mapsto> scen_file (base[0 := x]) [] False 2)" 1 "base[0 := x]" 2 8388608 base "[0, 1]" 2 y] assms
    by simp
  have "second_handle_run base x y = Some (op_flush ref_rt
      (scen_mount base (?fs(1 \<mapsto> scen_file (base[0 := x, 8388608 := y]) [Dirty_Range 8388608 8388609] True 2)) [0, 1] 2) 1)"
    by (simp only: second_handle_run_def scen_open_first [OF assms] w1 o2 w2 prod.case sum.case run.case)
  moreover note scen_flush [OF assms refl, of "?fs(1 \<mapsto> scen_file (base[0 := x, 8388608 := y]) [Dirty_Range 8388608 8388609] True 2)" x y "[0, 1]" 2]
  ultimately show ?thesis by (simp add: case_prod_unfold)
qed

theorem second_handle_flush_drops_first_write_witness:
  "case second_handle_run (replicate 16777216 (CHR ''a'')) (CHR ''x'') (CHR ''y'') of
     None \<Rightarrow> False
   | Some (m, e) \<Rightarrow> e = OK \<and> (case ref_content (m_service m) ''/f'' of None \<Rightarrow> False | Some d \<Rightarrow> d ! 0 = CHR ''a'')
       \<and> (case m_files m 1 of None \<Rightarrow> False | Some g \<Rightarrow> ff_data g ! 0 = CHR ''x'')"
proof -
  let ?b = "replicate 16777216 (CHR ''a'')"
  have l: "length ?b = 16777216" by simp
  have z: "?b[8388608 := CHR ''y''] ! 0 = CHR ''a''" "?b[0 := CHR ''x'', 8388608 := CHR ''y''] ! 0 = CHR ''x''"
    by (simp_all add: nth_list_update)
  show ?thesis
    using second_handle_flush_drops_first_write [where x = "CHR ''x''" and y = "CHR ''y''", OF l] z
    by (auto split: option.splits)
qed
section \<open>Handles and the write-back store\<close>



end
