(* ===== verification/Mount_Overlay.thy ===== *)
theory Mount_Overlay
  imports Fuse_Attr
begin

text \<open>
  Where a mount looks for a path (\<open>internal/fs/fuse_mount.go\<close>, \<open>overlayPathForArchivePath\<close> in
  \<open>internal/fs/pack.go\<close>): directories of build products and version control live in an overlay
  on the local disk, the rest in git workspaces or at the service.  The answer of
  \<open>os.Lstat\<close> (None when it fails) and of the git lookups are parameters; a route is the branch
  the node operations take.
\<close>

section \<open>Overlay paths\<close>

record overlay =
  ov_remote_root :: string
  ov_local_root :: string
  ov_profile :: string

definition none_mount_profile :: string where "none_mount_profile = ''none''"
definition portable_mount_profile :: string where "portable_mount_profile = ''portable''"

definition overlay_enabled :: "overlay \<Rightarrow> bool" where
  "overlay_enabled r \<longleftrightarrow> trim_space (ov_local_root r) \<noteq> [] \<and> trim_space (ov_profile r) \<noteq> []
     \<and> ov_profile r \<noteq> none_mount_profile"

definition overlay_local_path :: "overlay \<Rightarrow> string \<Rightarrow> string option" where
  "overlay_local_path r p = (if \<not> overlay_enabled r then None else remote_to_local_path (ov_remote_root r) p)"

definition overlay_path_for_archive_path :: "string \<Rightarrow> string \<Rightarrow> go_error + string" where
  "overlay_path_for_archive_path local_root a0 =
     bind_result (canonical_archive_path a0) (\<lambda>a.
       let rel = trim_prefix a ''/''; root = path_join [local_root, ''overlay''] in
       if rel = [] then Inr root else Inr (path_join [root, rel]))"

definition local_abs :: "overlay \<Rightarrow> string \<Rightarrow> string option" where
  "local_abs r p =
     (case overlay_local_path r p of
        None \<Rightarrow> None
      | Some l \<Rightarrow> (case overlay_path_for_archive_path (ov_local_root r) l of Inl _ \<Rightarrow> None | Inr a \<Rightarrow> Some a))"

definition local_info :: "overlay \<Rightarrow> (string \<Rightarrow> file_info option) \<Rightarrow> string \<Rightarrow> (file_info \<times> string) option" where
  "local_info r lstat p =
     (case local_abs r p of None \<Rightarrow> None
      | Some a \<Rightarrow> (case lstat a of None \<Rightarrow> None | Some i \<Rightarrow> Some (i, a)))"

definition local_only_names :: "string list" where
  "local_only_names = [''.git'', ''.hg'', ''.svn'', ''node_modules'', ''.pnpm-store'', ''target'', ''dist'', ''build'',
     ''coverage'', ''tmp'', ''.tmp'', ''.tmp-api-extractor'', ''.cache'', ''.turbo'', ''.gradle'', ''.venv'',
     ''__pycache__'', ''.pytest_cache'', ''.mypy_cache'', ''.ruff_cache'']"

text \<open>The loop over the components of the path.\<close>

fun local_only_parts :: "string list \<Rightarrow> bool" where
  "local_only_parts [] = False"
| "local_only_parts (c # cs) =
     (if c \<in> set local_only_names then True
      else if (c = ''.next'' \<or> c = ''.vitepress'') \<and> cs \<noteq> [] \<and> hd cs = ''cache'' then True
      else local_only_parts cs)"

definition is_local_only :: "overlay \<Rightarrow> string \<Rightarrow> bool" where
  "is_local_only r p =
     (case overlay_local_path r p of
        None \<Rightarrow> False
      | Some l \<Rightarrow>
        (let clean = trim_slashes (trim_prefix (path_clean l) ''/'')
         in if clean = [] then False else local_only_parts (split_on (CHR ''/'') clean)))"

definition should_use_local :: "overlay \<Rightarrow> (string \<Rightarrow> file_info option) \<Rightarrow> string \<Rightarrow> bool" where
  "should_use_local r lstat p = (if local_info r lstat p \<noteq> None then True else is_local_only r p)"

definition local_parent_exists :: "overlay \<Rightarrow> (string \<Rightarrow> file_info option) \<Rightarrow> string \<Rightarrow> bool" where
  "local_parent_exists r lstat p =
     (case overlay_local_path r p of
        None \<Rightarrow> False
      | Some l \<Rightarrow>
        if l = ''/'' then False
        else
          (let parent = path_dir l; parent_remote = to_remote_path (ov_remote_root r) parent in
           if parent = ''/'' then is_local_only r parent_remote \<or> ov_profile r = portable_mount_profile
           else if is_local_only r parent_remote then True
           else if ov_profile r \<noteq> portable_mount_profile then False
           else (case local_info r lstat parent_remote of None \<Rightarrow> False | Some (i, _) \<Rightarrow> info_is_dir i)))"

section \<open>Routes\<close>

datatype route = Route_Local string | Route_Git | Route_Remote | Route_Error errno

text \<open>The branches of \<open>Getattr\<close>, \<open>Lookup\<close> and \<open>Open\<close>; \<open>git\<close> says whether a workspace has the path.\<close>

definition lookup_route :: "overlay \<Rightarrow> (string \<Rightarrow> file_info option) \<Rightarrow> (string \<Rightarrow> go_error + bool) \<Rightarrow> string \<Rightarrow> route" where
  "lookup_route r lstat git p =
     (case local_info r lstat p of
        Some (_, a) \<Rightarrow> Route_Local a
      | None \<Rightarrow>
        if is_local_only r p then Route_Error ENOENT
        else case git p of
          Inl e \<Rightarrow> Route_Error (fuse_errno (Some e))
        | Inr True \<Rightarrow> Route_Git
        | Inr False \<Rightarrow> Route_Remote)"

text \<open>The branches of \<open>Mkdir\<close> and \<open>Create\<close>; \<open>git\<close> says whether a workspace has the parent.\<close>

definition create_route :: "overlay \<Rightarrow> (string \<Rightarrow> file_info option) \<Rightarrow> (string \<Rightarrow> go_error + bool) \<Rightarrow> string \<Rightarrow> route" where
  "create_route r lstat git p =
     (let loc = (case local_abs r p of None \<Rightarrow> Route_Error EINVAL | Some a \<Rightarrow> Route_Local a) in
      if is_local_only r p then loc
      else case git p of
        Inl e \<Rightarrow> Route_Error (fuse_errno (Some e))
      | Inr True \<Rightarrow> Route_Git
      | Inr False \<Rightarrow> if local_parent_exists r lstat p then loc else Route_Remote)"

text \<open>The branches of \<open>Rename\<close>: a local rename of two overlay paths, a rename inside one git
  workspace, or a rename at the service.  \<open>git\<close> and \<open>git_parent\<close> give the workspace that holds
  the path and the one that holds its parent.\<close>

datatype rename_kind = Rename_Local string string | Rename_Git string | Rename_Remote | Rename_Error errno

definition rename_route ::
  "overlay \<Rightarrow> (string \<Rightarrow> file_info option) \<Rightarrow> (string \<Rightarrow> go_error + string option) \<Rightarrow>
    (string \<Rightarrow> go_error + string option) \<Rightarrow> string \<Rightarrow> string \<Rightarrow> rename_kind" where
  "rename_route r lstat git git_parent source target =
     (let loc = (case local_abs r source of
             None \<Rightarrow> Rename_Error EINVAL
           | Some sa \<Rightarrow> (case local_abs r target of None \<Rightarrow> Rename_Error EINVAL | Some ta \<Rightarrow> Rename_Local sa ta));
          rest = (if local_parent_exists r lstat target then loc else Rename_Remote)
      in if should_use_local r lstat source \<or> should_use_local r lstat target then loc
         else case git source of
           Inl e \<Rightarrow> Rename_Error (fuse_errno (Some e))
         | Inr None \<Rightarrow> rest
         | Inr (Some ws) \<Rightarrow>
           (case git_parent target of
              Inl e \<Rightarrow> Rename_Error (fuse_errno (Some e))
            | Inr None \<Rightarrow> rest
            | Inr (Some ws') \<Rightarrow> if ws' = ws then Rename_Git ws else rest))"

section \<open>Facts\<close>

lemma local_only_append: "local_only_parts cs \<Longrightarrow> local_only_parts (cs @ ds)"
  by (induction cs) (auto split: if_splits)

lemma local_only_name: "c \<in> set local_only_names \<Longrightarrow> local_only_parts (as @ c # bs)"
proof (induction as)
  case (Cons a as)
  then show ?case by auto
qed simp
lemma normal_abs: "clean_list cs \<Longrightarrow> normal_path (abs_path cs)"
  by (auto simp: normal_path_def)

lemma path_join_abs:
  assumes "clean_list rs" "clean_list cs" "cs \<noteq> []"
  shows "path_join [abs_path rs, join_with ''/'' cs] = abs_path (rs @ cs)"
proof -
  have "join_with ''/'' cs \<noteq> []"
    using assms by (cases cs; cases "tl cs") (auto simp: clean_comp_def)
  then have "path_join [abs_path rs, join_with ''/'' cs] = path_clean (abs_path rs @ ''/'' @ join_with ''/'' cs)"
    using path_join2 [OF normal_abs [OF assms(1)]] by blast
  also have "\<dots> = abs_path (rs @ cs)"
    using assms by (intro path_clean_append) (simp_all add: path_clean_abs)
  finally show ?thesis .
qed

lemma is_local_only_abs:
  assumes "overlay_local_path r p = Some (abs_path ds)" "clean_list ds"
  shows "is_local_only r p = local_only_parts ds"
proof (cases "ds = []")
  case True
  have "trim_slashes (trim_prefix ''/'' ''/'') = []" by (simp add: trim_slashes_def strip_trailing_slashes_def)
  then show ?thesis using assms True path_clean_abs [OF assms(2)]
    by (simp add: is_local_only_def abs_path_Nil)
next
  case False
  let ?w = "join_with ''/'' ds"
  have tp: "trim_prefix (abs_path ds) ''/'' = ?w" by (simp add: abs_path_def trim_prefix_def)
  have ns: "\<forall>c\<in>set ds. CHR ''/'' \<notin> set c"
    using assms(2) by (auto simp: clean_list_def list_all_iff clean_comp_def)
  have sp: "split_on (CHR ''/'') ?w = ds" using split_join [OF False ns] .
  have w: "?w \<noteq> []" "hd ?w \<noteq> CHR ''/''" "last ?w \<noteq> CHR ''/''"
  proof -
    show "?w \<noteq> []" "last ?w \<noteq> CHR ''/''"
      using join_clean_end [OF assms(2) False] by (auto simp: has_suffix_slash_iff)
    show "hd ?w \<noteq> CHR ''/''"
    proof (cases ds)
      case (Cons c cs)
      then have "c \<noteq> []" "hd c \<noteq> CHR ''/''"
        using assms(2) by (auto simp: clean_comp_def neq_Nil_conv)
      then show ?thesis using Cons by (cases cs) auto
    qed (use False in simp)
  qed
  then have "dropWhile (\<lambda>c. c = CHR ''/'') ?w = ?w" "dropWhile (\<lambda>c. c = CHR ''/'') (rev ?w) = rev ?w"
    by (simp_all add: dropWhile_eq_self_iff hd_rev)
  then have "trim_slashes ?w = ?w"
    by (simp add: trim_slashes_def strip_trailing_slashes_def)
  then show ?thesis
    using assms path_clean_abs [OF assms(2)] tp sp w by (simp add: is_local_only_def)
qed

section \<open>Properties\<close>

text \<open>C29: The overlay stays in its directory: the local path of any remote path is the overlay
  directory of the local root followed by clean components, with no way up or out.\<close>

theorem local_abs_confined:
  assumes "ov_local_root r = abs_path rs" "clean_list rs" "local_abs r p = Some a"
  shows "\<exists>cs. clean_list cs \<and> a = abs_path (rs @ ''overlay'' # cs)"
proof -
  obtain l where l: "overlay_path_for_archive_path (abs_path rs) l = Inr a"
    using assms(1,3) by (auto simp: local_abs_def split: option.splits sum.splits)
  obtain v where v: "canonical_archive_path l = Inr v"
    using l by (auto simp: overlay_path_for_archive_path_def)
  obtain cs where cs: "clean_list cs" "v = abs_path cs" using canonical_archive_path_abs [OF v] .
  have o: "clean_list [''overlay'']" by (simp add: clean_comp_def)
  have root: "path_join [abs_path rs, ''overlay''] = abs_path (rs @ [''overlay''])"
    using path_join_abs [OF assms(2) o] by simp
  have tp: "trim_prefix v ''/'' = join_with ''/'' cs" by (simp add: cs(2) abs_path_def trim_prefix_def)
  show ?thesis
  proof (cases "join_with ''/'' cs = []")
    case True
    then have "a = abs_path (rs @ ''overlay'' # [])"
      using l v tp root by (simp add: overlay_path_for_archive_path_def Let_def)
    then show ?thesis using clean_list_simps(1) by blast
  next
    case False
    then have "cs \<noteq> []" by auto
    then have "path_join [abs_path (rs @ [''overlay'']), join_with ''/'' cs] = abs_path ((rs @ [''overlay'']) @ cs)"
      using path_join_abs assms(2) o cs(1) by simp
    then have "a = abs_path (rs @ ''overlay'' # cs)"
      using l v tp root False by (simp add: overlay_path_for_archive_path_def Let_def)
    then show ?thesis using cs(1) by blast
  qed
qed

definition sample_overlay :: "string \<Rightarrow> overlay" where
  "sample_overlay profile = \<lparr>ov_remote_root = ''/'', ov_local_root = ''/c'', ov_profile = profile\<rparr>"

theorem local_abs_confined_witness:
  "local_abs (sample_overlay ''coding'') ''/tmp/./x'' = Some ''/c/overlay/tmp/x''
   \<and> (\<exists>cs. clean_list cs \<and> ''/c/overlay/tmp/x'' = abs_path ([''c''] @ ''overlay'' # cs))"
proof -
  have r: "ov_local_root (sample_overlay ''coding'') = abs_path [''c'']" "clean_list [''c'']" by code_simp+
  have p: "local_abs (sample_overlay ''coding'') ''/tmp/./x'' = Some ''/c/overlay/tmp/x''" by code_simp
  then show ?thesis using local_abs_confined [OF r p] by blast
qed

text \<open>What lies below a local-only directory is local only: a path that is kept off the service
  keeps everything below it off the service.\<close>

theorem local_only_inherited:
  assumes "overlay_local_path r p = Some (abs_path ds)" "overlay_local_path r q = Some (abs_path (ds @ es))"
    and "clean_list ds" "clean_list es" "is_local_only r p"
  shows "is_local_only r q \<and> lookup_route r lstat git q \<noteq> Route_Remote \<and> create_route r lstat git q \<noteq> Route_Remote"
proof -
  have "is_local_only r q"
    using assms is_local_only_abs [OF assms(1,3)] is_local_only_abs [OF assms(2)] local_only_append by simp
  then show ?thesis by (auto simp: lookup_route_def create_route_def Let_def split: option.splits)
qed

theorem local_only_inherited_witness:
  "is_local_only (sample_overlay ''coding'') ''/a/node_modules''
   \<and> is_local_only (sample_overlay ''coding'') ''/a/node_modules/b/c.js''
   \<and> \<not> is_local_only (sample_overlay ''coding'') ''/a/b/c.js''"
proof -
  let ?r = "sample_overlay ''coding''"
  have p: "overlay_local_path ?r ''/a/node_modules'' = Some (abs_path [''a'', ''node_modules''])"
    "overlay_local_path ?r ''/a/node_modules/b/c.js'' = Some (abs_path ([''a'', ''node_modules''] @ [''b'', ''c.js'']))"
    by code_simp+
  have c: "clean_list [''a'', ''node_modules'']" "clean_list [''b'', ''c.js'']" by code_simp+
  have l: "is_local_only ?r ''/a/node_modules''" by code_simp
  have "\<not> is_local_only ?r ''/a/b/c.js''" by code_simp
  then show ?thesis using local_only_inherited [OF p c l] l by blast
qed

text \<open>Two names share one overlay file: the archive path drops blanks at its end, so a file
  whose name ends in a blank is read, written and removed as the file without it.\<close>

theorem overlay_names_collide:
  "local_abs (sample_overlay ''coding'') ''/tmp/a '' = local_abs (sample_overlay ''coding'') ''/tmp/a''
   \<and> create_route (sample_overlay ''coding'') (\<lambda>_. None) (\<lambda>_. Inr False) ''/tmp/a '' = Route_Local ''/c/overlay/tmp/a''"
  by code_simp

text \<open>In a portable mount a rename at the top level is always a rename of two overlay files,
  also when the file is held by the service only, where the overlay has nothing to rename.\<close>

theorem portable_rename_ignores_service:
  "lookup_route (sample_overlay ''portable'') (\<lambda>_. None) (\<lambda>_. Inr False) ''/a.txt'' = Route_Remote
   \<and> rename_route (sample_overlay ''portable'') (\<lambda>_. None) (\<lambda>_. Inr None) (\<lambda>_. Inr None) ''/a.txt'' ''/b.txt''
     = Rename_Local ''/c/overlay/a.txt'' ''/c/overlay/b.txt''"
  by code_simp

text \<open>A file created in the overlay is found there.\<close>

theorem created_file_is_found:
  assumes "create_route r lstat git p = Route_Local a" "lstat2 a = Some i"
  shows "lookup_route r lstat2 git2 p = Route_Local a"
  using assms
  by (auto simp: create_route_def lookup_route_def local_info_def Let_def
      split: option.splits if_splits sum.splits bool.splits)

end
