(* ===== verification/Rate_Limit.thy ===== *)
theory Rate_Limit
  imports Complex_Main Go_Strings "HOL-Library.AList"
begin

text \<open>
  The token-bucket limiter of the telemetry backend
  (\<open>internal/telemetrybackend/ratelimit.go\<close>).  The map of buckets is an association list
  with distinct keys, times are nanoseconds, and the \<open>float64\<close> token counts are exact
  rationals: the rounding of floating point is the one idealisation here.  The address parsing
  of \<open>net\<close> and \<open>net/netip\<close> is an argument of \<open>client_ip\<close>.
\<close>

section \<open>Model\<close>

record rate_bucket =
  rb_tokens :: rat
  rb_last_seen :: int

record rate_limiter =
  rl_buckets :: "(string \<times> rate_bucket) list"
  rl_per_second :: rat
  rl_burst :: rat
  rl_max_buckets :: nat

definition new_ip_rate_limiter :: "int \<Rightarrow> int \<Rightarrow> rate_limiter" where
  "new_ip_rate_limiter per_minute burst =
     \<lparr>rl_buckets = [], rl_per_second = of_int per_minute / 60, rl_burst = of_int burst,
      rl_max_buckets = 10000\<rparr>"

definition seconds :: "int \<Rightarrow> rat" where
  "seconds ns = of_int ns / 1000000000"

definition ten_minutes :: int where "ten_minutes = 600000000000"

definition rl_cleanup :: "rate_limiter \<Rightarrow> int \<Rightarrow> rate_limiter" where
  "rl_cleanup l now =
     (if length (rl_buckets l) < rl_max_buckets l then l
      else l\<lparr>rl_buckets := filter (\<lambda>(k, b). \<not> now - rb_last_seen b > ten_minutes) (rl_buckets l)\<rparr>)"

definition rl_store :: "rate_limiter \<Rightarrow> string \<Rightarrow> rate_bucket \<Rightarrow> rate_limiter" where
  "rl_store l key b = l\<lparr>rl_buckets := AList.update key b (rl_buckets l)\<rparr>"

text \<open>The second half of \<open>Allow\<close>: take a token from the bucket if it holds one.\<close>

definition rl_take :: "rate_limiter \<Rightarrow> int \<Rightarrow> string \<Rightarrow> rate_bucket \<Rightarrow> rate_limiter \<times> bool" where
  "rl_take l now key b =
     (if rb_tokens b < 1 then (rl_cleanup (rl_store l key b) now, False)
      else (rl_cleanup (rl_store l key (b\<lparr>rb_tokens := rb_tokens b - 1\<rparr>)) now, True))"

definition rl_allow :: "rate_limiter \<Rightarrow> int \<Rightarrow> string \<Rightarrow> rate_limiter \<times> bool" where
  "rl_allow l now key =
     (case map_of (rl_buckets l) key of
        None \<Rightarrow>
          (let l1 = rl_cleanup l now in
           if length (rl_buckets l1) \<ge> rl_max_buckets l1 then (l1, False)
           else rl_take l1 now key \<lparr>rb_tokens = rl_burst l1, rb_last_seen = now\<rparr>)
      | Some b \<Rightarrow>
          (let elapsed = seconds (now - rb_last_seen b) in
           rl_take l now key
             \<lparr>rb_tokens = min (rl_burst l) (rb_tokens b + elapsed * rl_per_second l), rb_last_seen = now\<rparr>))"

fun rl_run :: "rate_limiter \<Rightarrow> (int \<times> string) list \<Rightarrow> rate_limiter \<times> bool list" where
  "rl_run l [] = (l, [])"
| "rl_run l ((now, key) # rs) =
     (case rl_allow l now key of (l', ok) \<Rightarrow>
        (case rl_run l' rs of (l'', oks) \<Rightarrow> (l'', ok # oks)))"

text \<open>
  \<open>clientIP\<close>: \<open>parse\<close> is \<open>netip.ParseAddr\<close>, \<open>host\<close> the host part of
  \<open>net.SplitHostPort\<close> (None on its error), \<open>show_addr\<close> the canonical text of the unmapped
  address and \<open>contains\<close> the membership test of a prefix.
\<close>

definition trim_brackets :: "string \<Rightarrow> string" where
  "trim_brackets s =
     rev (dropWhile (\<lambda>c. c \<in> set ''[]'') (rev (dropWhile (\<lambda>c. c \<in> set ''[]'') s)))"

definition parse_remote_ip :: "(string \<Rightarrow> 'a option) \<Rightarrow> (string \<Rightarrow> string option) \<Rightarrow> string \<Rightarrow> 'a option" where
  "parse_remote_ip parse host remote_addr =
     parse (trim_brackets (case host remote_addr of None \<Rightarrow> remote_addr | Some h \<Rightarrow> h))"

definition is_trusted_proxy :: "('p \<Rightarrow> 'a \<Rightarrow> bool) \<Rightarrow> 'a option \<Rightarrow> 'p list \<Rightarrow> bool" where
  "is_trusted_proxy contains addr trusted =
     (case addr of None \<Rightarrow> False | Some a \<Rightarrow> list_ex (\<lambda>p. contains p a) trusted)"

fun first_address :: "(string \<Rightarrow> 'a option) \<Rightarrow> string list \<Rightarrow> 'a option" where
  "first_address parse [] = None"
| "first_address parse (item # items) =
     (case parse (trim_space item) of Some a \<Rightarrow> Some a | None \<Rightarrow> first_address parse items)"

definition client_ip ::
  "(string \<Rightarrow> 'a option) \<Rightarrow> (string \<Rightarrow> string option) \<Rightarrow> ('a \<Rightarrow> string) \<Rightarrow> ('p \<Rightarrow> 'a \<Rightarrow> bool) \<Rightarrow>
   string \<Rightarrow> string \<Rightarrow> 'p list \<Rightarrow> string" where
  "client_ip parse host show_addr contains remote_addr forwarded_for trusted =
     (let remote = parse_remote_ip parse host remote_addr in
      case (if is_trusted_proxy contains remote trusted
            then first_address parse (split_on (CHR '','') forwarded_for) else None) of
        Some a \<Rightarrow> show_addr a
      | None \<Rightarrow> (case remote of Some a \<Rightarrow> show_addr a | None \<Rightarrow> ''unknown''))"

section \<open>Invariant\<close>

text \<open>
  \<open>rl_inv l t\<close>: keys are distinct and within the limit, every bucket was last seen no later
  than \<open>t\<close> and holds between 0 and \<open>burst\<close> tokens.
\<close>

definition rl_inv :: "rate_limiter \<Rightarrow> int \<Rightarrow> bool" where
  "rl_inv l t \<longleftrightarrow> distinct (map fst (rl_buckets l)) \<and> length (rl_buckets l) \<le> rl_max_buckets l
     \<and> 0 \<le> rl_per_second l \<and> 0 \<le> rl_burst l
     \<and> (\<forall>k b. map_of (rl_buckets l) k = Some b \<longrightarrow>
          rb_last_seen b \<le> t \<and> 0 \<le> rb_tokens b \<and> rb_tokens b \<le> rl_burst l)"

text \<open>The tokens a key could use at time \<open>t\<close>; a key without a bucket has a full one.\<close>

definition rl_avail :: "rate_limiter \<Rightarrow> string \<Rightarrow> int \<Rightarrow> rat" where
  "rl_avail l key t =
     (case map_of (rl_buckets l) key of None \<Rightarrow> rl_burst l
      | Some b \<Rightarrow> min (rl_burst l) (rb_tokens b + seconds (t - rb_last_seen b) * rl_per_second l))"

text \<open>An idle bucket is full again before the cleanup may drop it.\<close>

definition rl_refills :: "rate_limiter \<Rightarrow> bool" where
  "rl_refills l \<longleftrightarrow> rl_burst l \<le> 600 * rl_per_second l"

lemma rl_cleanup_fields [simp]:
  "rl_per_second (rl_cleanup l t) = rl_per_second l"
  "rl_burst (rl_cleanup l t) = rl_burst l"
  "rl_max_buckets (rl_cleanup l t) = rl_max_buckets l"
  "rl_per_second (rl_store l k b) = rl_per_second l"
  "rl_burst (rl_store l k b) = rl_burst l"
  "rl_max_buckets (rl_store l k b) = rl_max_buckets l"
  by (simp_all add: rl_cleanup_def rl_store_def)

lemma rl_take_fields:
  "rl_per_second (fst (rl_take l t k b)) = rl_per_second l"
  "rl_burst (fst (rl_take l t k b)) = rl_burst l"
  "rl_max_buckets (fst (rl_take l t k b)) = rl_max_buckets l"
  by (simp_all add: rl_take_def)

lemma rl_allow_fields:
  "rl_per_second (fst (rl_allow l t k)) = rl_per_second l"
  "rl_burst (fst (rl_allow l t k)) = rl_burst l"
  "rl_max_buckets (fst (rl_allow l t k)) = rl_max_buckets l"
  by (simp_all add: rl_allow_def rl_take_fields Let_def split: option.splits)

lemma map_of_filter_some:
  "map_of (filter P xs) k = Some b \<Longrightarrow> distinct (map fst xs) \<Longrightarrow> map_of xs k = Some b"
  by (metis distinct_map_filter filter_is_subset map_of_eq_Some_iff subsetD)

lemma map_of_filter_none:
  "map_of (filter (\<lambda>(k, b). P b) xs) k = None \<Longrightarrow> map_of xs k = Some b \<Longrightarrow> \<not> P b"
  by (induction xs) (auto split: if_splits)

lemma rl_cleanup_inv: "rl_inv l t \<Longrightarrow> rl_inv (rl_cleanup l t) t"
  by (auto simp: rl_inv_def rl_cleanup_def distinct_map_filter intro: order_trans [OF length_filter_le]
      dest: map_of_filter_some)

lemma rl_inv_mono: "rl_inv l t \<Longrightarrow> t \<le> t' \<Longrightarrow> rl_inv l t'"
  unfolding rl_inv_def by (meson order_trans)

lemma length_update: "length (AList.update k v xs) = (if k \<in> fst ` set xs then length xs else Suc (length xs))"
  by (induction xs) auto

lemma seconds_nonneg: "0 \<le> x \<Longrightarrow> 0 \<le> seconds x"
  by (simp add: seconds_def)

lemma seconds_diff: "seconds (a - b) + seconds (b - c) = seconds (a - c)"
  by (simp add: seconds_def field_simps)

lemma rl_cleanup_avail:
  assumes "rl_inv l t" "rl_refills l"
  shows "rl_avail (rl_cleanup l t) k t = rl_avail l k t"
proof (cases "map_of (rl_buckets (rl_cleanup l t)) k")
  case (Some b)
  then have "map_of (rl_buckets l) k = Some b"
    using assms(1) by (auto simp: rl_inv_def rl_cleanup_def split: if_splits dest: map_of_filter_some)
  with Some show ?thesis by (simp add: rl_avail_def)
next
  case None
  show ?thesis
  proof (cases "map_of (rl_buckets l) k")
    case (Some b)
    then have "t - rb_last_seen b > ten_minutes"
      using None map_of_filter_none by (fastforce simp: rl_cleanup_def split: if_splits)
    then have "600 \<le> seconds (t - rb_last_seen b)"
      by (simp add: seconds_def ten_minutes_def)
    then have "600 * rl_per_second l \<le> seconds (t - rb_last_seen b) * rl_per_second l"
      using assms(1) by (intro mult_right_mono) (auto simp: rl_inv_def)
    moreover have "0 \<le> rb_tokens b" using assms(1) Some by (auto simp: rl_inv_def)
    ultimately show ?thesis
      using None Some assms(2) by (simp add: rl_avail_def rl_refills_def)
  qed (use None in \<open>simp add: rl_avail_def\<close>)
qed

lemma rl_store_inv:
  assumes "rl_inv l t" "rb_last_seen b \<le> t" "0 \<le> rb_tokens b" "rb_tokens b \<le> rl_burst l"
    and "map_of (rl_buckets l) k = None \<Longrightarrow> length (rl_buckets l) < rl_max_buckets l"
  shows "rl_inv (rl_store l k b) t"
proof -
  have "length (AList.update k b (rl_buckets l)) \<le> rl_max_buckets l"
    using assms(1,5) by (auto simp: length_update rl_inv_def map_of_eq_None_iff)
  then show ?thesis
    using assms(1-4) by (auto simp: rl_inv_def rl_store_def distinct_update update_conv' split: if_splits)
qed

lemma rl_store_avail:
  "rl_avail (rl_store l k b) k' t =
     (if k' = k then min (rl_burst l) (rb_tokens b + seconds (t - rb_last_seen b) * rl_per_second l)
      else rl_avail l k' t)"
proof -
  have "map_of (rl_buckets (rl_store l k b)) k' = (if k' = k then Some b else map_of (rl_buckets l) k')"
    by (simp add: rl_store_def update_conv')
  then show ?thesis unfolding rl_avail_def by (simp split: option.split)
qed

lemma rl_take_inv:
  assumes "rl_inv l t" "rb_last_seen b = t" "0 \<le> rb_tokens b" "rb_tokens b \<le> rl_burst l"
    and "map_of (rl_buckets l) k = None \<Longrightarrow> length (rl_buckets l) < rl_max_buckets l"
  shows "rl_inv (fst (rl_take l t k b)) t"
  using assms by (auto simp: rl_take_def intro!: rl_cleanup_inv rl_store_inv)

lemma rl_take_avail:
  assumes "rl_inv l t" "rl_refills l" "rb_last_seen b = t" "0 \<le> rb_tokens b" "rb_tokens b \<le> rl_burst l"
    and "map_of (rl_buckets l) k = None \<Longrightarrow> length (rl_buckets l) < rl_max_buckets l"
    and r: "rl_take l t k b = (l', ok)"
  shows "rl_avail l' k' t =
     (if k' = k then rb_tokens b - (if ok then 1 else 0) else rl_avail l k' t)"
proof -
  have s0: "seconds 0 = 0" by (simp add: seconds_def)
  show ?thesis
  proof (cases "rb_tokens b < 1")
    case True
    have i: "rl_inv (rl_store l k b) t" using assms by (intro rl_store_inv) auto
    have "rl_refills (rl_store l k b)" using assms(2) by (simp add: rl_refills_def)
    from rl_cleanup_avail [OF i this] show ?thesis
      using True r assms(3,5) s0 by (auto simp: rl_take_def rl_store_avail)
  next
    case False
    let ?b = "b\<lparr>rb_tokens := rb_tokens b - 1\<rparr>"
    have i: "rl_inv (rl_store l k ?b) t" using assms False by (intro rl_store_inv) auto
    have "rl_refills (rl_store l k ?b)" using assms(2) by (simp add: rl_refills_def)
    from rl_cleanup_avail [OF i this] show ?thesis
      using False r assms(3,5) s0 by (auto simp: rl_take_def rl_store_avail)
  qed
qed

text \<open>The bucket a request works on: refilled up to now, or full for an unknown key.\<close>

lemma refill_bounds:
  assumes "rl_inv l t" "map_of (rl_buckets l) k = Some b" "t \<le> now"
  shows "0 \<le> min (rl_burst l) (rb_tokens b + seconds (now - rb_last_seen b) * rl_per_second l)"
proof -
  have b: "rb_last_seen b \<le> t" "0 \<le> rb_tokens b" "0 \<le> rl_per_second l" "0 \<le> rl_burst l"
    using assms map_of_SomeD [OF assms(2)] by (auto simp: rl_inv_def)
  have "0 \<le> seconds (now - rb_last_seen b)" using b(1) assms(3) by (intro seconds_nonneg) simp
  with b have "0 \<le> seconds (now - rb_last_seen b)" "0 \<le> rl_per_second l" "0 \<le> rb_tokens b" "0 \<le> rl_burst l"
    by simp_all
  then show ?thesis by simp
qed

lemma rl_allow_step:
  assumes inv: "rl_inv l t" and "t \<le> now" and a: "rl_allow l now k = (l', ok)"
  shows "rl_inv l' now"
    "rl_refills l \<Longrightarrow> rl_avail l' k' now \<le> rl_avail l k' now - (if ok \<and> k' = k then 1 else 0)"
proof -
  have inv': "rl_inv l now" using inv \<open>t \<le> now\<close> by (rule rl_inv_mono)
  have "rl_inv l' now \<and> (rl_refills l \<longrightarrow>
      rl_avail l' k' now \<le> rl_avail l k' now - (if ok \<and> k' = k then 1 else 0))"
  proof (cases "map_of (rl_buckets l) k")
    case None
    let ?l = "rl_cleanup l now"
    have i: "rl_inv ?l now" using rl_cleanup_inv [OF inv'] .
    show ?thesis
    proof (cases "length (rl_buckets ?l) \<ge> rl_max_buckets ?l")
      case True
      then show ?thesis using a None i rl_cleanup_avail [OF inv'] by (auto simp: rl_allow_def Let_def)
    next
      case False
      let ?b = "\<lparr>rb_tokens = rl_burst ?l, rb_last_seen = now\<rparr>"
      have t: "rl_take ?l now k ?b = (l', ok)" using a None False by (simp add: rl_allow_def Let_def)
      have b: "0 \<le> rl_burst l" using inv by (simp add: rl_inv_def)
      have "rl_inv l' now" using rl_take_inv [OF i, of ?b k] t b False by simp
      moreover have "rl_avail l' k' now \<le> rl_avail l k' now - (if ok \<and> k' = k then 1 else 0)"
        if r: "rl_refills l"
      proof -
        have "rl_refills ?l" using r by (simp add: rl_refills_def)
        from rl_take_avail [OF i this, of ?b k l' ok k'] t b False
        show ?thesis using rl_cleanup_avail [OF inv' r, of k'] None by (auto simp: rl_avail_def)
      qed
      ultimately show ?thesis by blast
    qed
  next
    case (Some b)
    let ?b = "\<lparr>rb_tokens = min (rl_burst l) (rb_tokens b + seconds (now - rb_last_seen b) * rl_per_second l),
               rb_last_seen = now\<rparr>"
    have t: "rl_take l now k ?b = (l', ok)" using a Some by (simp add: rl_allow_def Let_def)
    have b: "0 \<le> rb_tokens ?b" using refill_bounds [OF inv Some \<open>t \<le> now\<close>] by simp
    have "rl_inv l' now" using rl_take_inv [OF inv', of ?b k] t b Some by simp
    moreover have "rl_avail l' k' now \<le> rl_avail l k' now - (if ok \<and> k' = k then 1 else 0)"
      if r: "rl_refills l"
      using rl_take_avail [OF inv' r, of ?b k l' ok k'] t b Some by (auto simp: rl_avail_def)
    ultimately show ?thesis by blast
  qed
  then show "rl_inv l' now"
    "rl_refills l \<Longrightarrow> rl_avail l' k' now \<le> rl_avail l k' now - (if ok \<and> k' = k then 1 else 0)"
    by blast+
qed

lemma rl_avail_grows:
  assumes "rl_inv l t" "t \<le> now"
  shows "rl_avail l k now \<le> rl_avail l k t + rl_per_second l * seconds (now - t)"
proof (cases "map_of (rl_buckets l) k")
  case None
  then show ?thesis using assms by (simp add: rl_avail_def rl_inv_def seconds_nonneg)
next
  case (Some b)
  have "seconds (now - rb_last_seen b) = seconds (now - t) + seconds (t - rb_last_seen b)"
    by (simp add: seconds_diff)
  then have "rb_tokens b + seconds (now - rb_last_seen b) * rl_per_second l
      = rb_tokens b + seconds (t - rb_last_seen b) * rl_per_second l + rl_per_second l * seconds (now - t)"
    by (simp add: algebra_simps)
  moreover have "0 \<le> rl_per_second l * seconds (now - t)"
    using assms by (simp add: rl_inv_def seconds_nonneg)
  ultimately show ?thesis using Some by (auto simp: rl_avail_def min_def)
qed

lemma rl_avail_nonneg: "rl_inv l t \<Longrightarrow> 0 \<le> rl_avail l k t"
  using refill_bounds [of l t k _ t] by (auto simp: rl_avail_def rl_inv_def split: option.splits)

fun accepted_for :: "string \<Rightarrow> (int \<times> string) list \<Rightarrow> bool list \<Rightarrow> nat" where
  "accepted_for key ((now, k) # rs) (ok # oks) = (if k = key \<and> ok then 1 else 0) + accepted_for key rs oks"
| "accepted_for key rs oks = 0"

definition last_time :: "int \<Rightarrow> (int \<times> string) list \<Rightarrow> int" where
  "last_time t rs = (if rs = [] then t else fst (last rs))"

lemma last_time_Cons: "last_time t ((now, k) # rs) = last_time now rs"
  by (simp add: last_time_def)

lemma last_time_ge: "sorted (t # map fst rs) \<Longrightarrow> t \<le> last_time t rs"
  by (auto simp: last_time_def)

lemma rl_run_window:
  "rl_inv l t \<Longrightarrow> rl_refills l \<Longrightarrow> sorted (t # map fst rs) \<Longrightarrow>
   of_nat (accepted_for key rs (snd (rl_run l rs)))
     \<le> rl_avail l key t + rl_per_second l * seconds (last_time t rs - t)"
proof (induction rs arbitrary: l t)
  case Nil
  then show ?case by (simp add: last_time_def seconds_def rl_avail_nonneg)
next
  case (Cons x rs)
  obtain now k where x: "x = (now, k)" by fastforce
  obtain l' ok where a: "rl_allow l now k = (l', ok)" by fastforce
  have tn: "t \<le> now" and s: "sorted (now # map fst rs)" using Cons.prems(3) x by auto
  have i: "rl_inv l' now" using rl_allow_step(1) [OF Cons.prems(1) tn a] .
  have f: "rl_refills l'" "rl_per_second l' = rl_per_second l"
    using Cons.prems(2) rl_allow_fields [of l now k] a by (auto simp: rl_refills_def)
  have av: "rl_avail l' key now \<le> rl_avail l key now - (if ok \<and> key = k then 1 else 0)"
    using rl_allow_step(2) [OF Cons.prems(1) tn a Cons.prems(2)] .
  have gr: "rl_avail l key now \<le> rl_avail l key t + rl_per_second l * seconds (now - t)"
    using rl_avail_grows [OF Cons.prems(1) tn] .
  have "of_nat (accepted_for key rs (snd (rl_run l' rs)))
      \<le> rl_avail l' key now + rl_per_second l * seconds (last_time now rs - now)"
    using Cons.IH [OF i f(1) s] f(2) by simp
  moreover have "rl_per_second l * seconds (last_time now rs - now) + rl_per_second l * seconds (now - t)
      = rl_per_second l * seconds (last_time now rs - t)"
    by (simp add: seconds_diff flip: distrib_left)
  moreover have "accepted_for key (x # rs) (snd (rl_run l (x # rs)))
      = (if k = key \<and> ok then 1 else 0) + accepted_for key rs (snd (rl_run l' rs))"
    using x a by (cases "rl_run l' rs") simp
  ultimately show ?case
    using av gr x by (auto simp: last_time_Cons split: if_splits)
qed

lemma rl_run_inv:
  "rl_inv l t \<Longrightarrow> sorted (t # map fst rs) \<Longrightarrow> rl_inv (fst (rl_run l rs)) (last_time t rs)"
proof (induction rs arbitrary: l t)
  case (Cons x rs)
  obtain now k where x: "x = (now, k)" by fastforce
  obtain l' ok where a: "rl_allow l now k = (l', ok)" by fastforce
  have "rl_inv l' now" using rl_allow_step(1) [OF Cons.prems(1) _ a] Cons.prems(2) x by simp
  then have "rl_inv (fst (rl_run l' rs)) (last_time now rs)"
    using Cons.IH Cons.prems(2) x by simp
  then show ?case using x a by (cases "rl_run l' rs") (simp add: last_time_Cons)
qed (simp add: last_time_def)

lemma new_limiter_inv: "0 \<le> pm \<Longrightarrow> 0 \<le> bu \<Longrightarrow> rl_inv (new_ip_rate_limiter pm bu) t"
  by (simp add: rl_inv_def new_ip_rate_limiter_def)

section \<open>Properties\<close>

text \<open>The limiter's memory is bounded and its buckets are sound: after any requests at
  non-decreasing times there are at most 10000 buckets, one per key, each with between 0 and
  \<open>burst\<close> tokens.\<close>

theorem rate_limiter_bounded:
  assumes "0 \<le> per_minute" "0 \<le> burst" "sorted (t # map fst rs)"
  shows "rl_inv (fst (rl_run (new_ip_rate_limiter per_minute burst) rs)) (last_time t rs)
     \<and> rl_max_buckets (fst (rl_run (new_ip_rate_limiter per_minute burst) rs)) = 10000"
proof -
  have "rl_max_buckets (fst (rl_run l rs)) = rl_max_buckets l" for l
    by (induction rs arbitrary: l) (auto split: prod.splits dest!: arg_cong [where f = fst] simp: rl_allow_fields)
  then show ?thesis
    using rl_run_inv [OF new_limiter_inv [OF assms(1,2)] assms(3)] by (simp add: new_ip_rate_limiter_def)
qed

theorem rate_limiter_bounded_witness:
  "rl_inv (fst (rl_run (new_ip_rate_limiter 60 2) [(5, ''a''), (7, ''b'')])) (last_time 0 [(5, ''a''), (7, ''b'')])"
  using rate_limiter_bounded [of 60 2 0 "[(5, ''a''), (7, ''b'')]"] by simp

lemma rl_run_fields:
  "rl_per_second (fst (rl_run l rs)) = rl_per_second l" "rl_burst (fst (rl_run l rs)) = rl_burst l"
  by (induction rs arbitrary: l) (auto split: prod.splits dest!: arg_cong [where f = fst] simp: rl_allow_fields)

lemma rl_avail_burst: "rl_avail l k t \<le> rl_burst l"
  by (simp add: rl_avail_def split: option.split)

text \<open>C39: The limit holds in every window of the traffic: whatever requests came before, of the
  requests from the one at time \<open>t\<close> on, one client gets at most \<open>burst + rate * elapsed\<close>
  accepted, for any traffic of other clients, when the requests take the lock in the order of
  their times and an idle bucket refills within the ten minutes after which it may be dropped.\<close>

theorem rate_limit_window:
  assumes "0 \<le> per_minute" "0 \<le> burst" "burst \<le> 10 * per_minute" "sorted (map fst (earlier @ (t, k) # rs))"
  shows "of_nat (accepted_for key ((t, k) # rs) (snd (rl_run (fst (rl_run (new_ip_rate_limiter per_minute burst) earlier)) ((t, k) # rs))))
    \<le> (of_int burst :: rat) + of_int per_minute / 60 * seconds (last_time t rs - t)"
proof -
  let ?l = "new_ip_rate_limiter per_minute burst"
  let ?m = "fst (rl_run ?l earlier)"
  define t0 where "t0 = (if earlier = [] then t else fst (hd earlier))"
  have "(of_int burst :: rat) \<le> of_int (10 * per_minute)" using assms(3) by (simp only: of_int_le_iff)
  then have r: "rl_refills ?m" by (simp add: rl_refills_def rl_run_fields new_ip_rate_limiter_def)
  have so: "sorted (t0 # map fst earlier)" "last_time t0 earlier \<le> t" "sorted (t # map fst ((t, k) # rs))"
    using assms(4) by (cases earlier; auto simp: t0_def sorted_append last_time_def)+
  have i: "rl_inv ?m t" using rl_run_inv [OF new_limiter_inv [OF assms(1,2)] so(1)] so(2) rl_inv_mono by blast
  have f: "rl_per_second ?m = of_int per_minute / 60" "rl_burst ?m = of_int burst"
    by (simp_all add: rl_run_fields new_ip_rate_limiter_def)
  show ?thesis
    using rl_run_window [OF i r so(3), of key] rl_avail_burst [of ?m key t] unfolding f last_time_Cons by linarith
qed

theorem rate_limit_window_witness:
  "of_nat (accepted_for ''a'' [(7, ''a''), (9, ''b'')]
      (snd (rl_run (fst (rl_run (new_ip_rate_limiter 60 2) [(5, ''a'')])) [(7, ''a''), (9, ''b'')])))
    \<le> (of_int 2 :: rat) + of_int 60 / 60 * seconds (last_time 7 [(9, ''b'')] - 7)"
  by (rule rate_limit_window) simp_all

end
