(* ===== verification/Telemetry_Config.thy ===== *)
theory Telemetry_Config
  imports Go_Errors
begin

text \<open>
  Settings of the telemetry backend (\<open>internal/telemetrybackend/config.go\<close>): loading from the
  environment and validation.  Durations are nanoseconds.  The parsers of the packages \<open>time\<close>,
  \<open>net/netip\<close> and of the MySQL driver are arguments: \<open>dur\<close> reads a duration, \<open>pfx\<close> a
  masked prefix, \<open>dsn\<close> the TLS setting of a data source name.
\<close>

record 'p telemetry_config =
  bind_addr :: string
  public_host :: string
  environment_name :: string
  max_body_bytes :: int
  max_events_per_request :: int
  buffer_max_events :: int
  flush_max_events :: int
  flush_max_bytes :: int
  flush_interval :: int
  shutdown_drain_timeout :: int
  sink_timeout :: int
  rate_limit_per_minute :: int
  rate_limit_burst :: int
  trusted_proxy_cidrs :: "'p list"
  tidb_dsn :: string

definition value_or_default :: "string \<Rightarrow> string \<Rightarrow> string" where
  "value_or_default v fallback = (if trim_space v = [] then fallback else trim_space v)"

definition env_parse ::
  "(string \<Rightarrow> int option) \<Rightarrow> string \<Rightarrow> (string \<Rightarrow> string) \<Rightarrow> string \<Rightarrow> int \<Rightarrow> go_error + int" where
  "env_parse parse complaint getenv name fallback =
     (let raw = trim_space (getenv name) in
      if raw = [] then Inr fallback
      else case parse raw of
        None \<Rightarrow> Inl (Msg (Fmt complaint [Lit name]))
      | Some v \<Rightarrow> Inr v)"

definition env_int :: "(string \<Rightarrow> string) \<Rightarrow> string \<Rightarrow> int \<Rightarrow> go_error + int" where
  "env_int = env_parse parse_int ''%s must be an integer''"

definition env_int64 :: "(string \<Rightarrow> string) \<Rightarrow> string \<Rightarrow> int \<Rightarrow> go_error + int" where
  "env_int64 = env_parse parse_int ''%s must be an integer''"

definition env_duration ::
  "(string \<Rightarrow> int option) \<Rightarrow> (string \<Rightarrow> string) \<Rightarrow> string \<Rightarrow> int \<Rightarrow> go_error + int" where
  "env_duration dur = env_parse dur ''%s must be a Go duration''"

text \<open>The loops over the tables of settings: a name, the field read and the field written.\<close>

fun load_settings ::
  "(string \<Rightarrow> int \<Rightarrow> go_error + int) \<Rightarrow>
   (string \<times> ('p telemetry_config \<Rightarrow> int) \<times> (int \<Rightarrow> 'p telemetry_config \<Rightarrow> 'p telemetry_config)) list \<Rightarrow>
   'p telemetry_config \<Rightarrow> go_error + 'p telemetry_config" where
  "load_settings env [] c = Inr c"
| "load_settings env ((name, get, put) # ss) c =
     bind_result (env name (get c)) (\<lambda>v. load_settings env ss (put v c))"

definition int_settings ::
  "(string \<times> ('p telemetry_config \<Rightarrow> int) \<times> (int \<Rightarrow> 'p telemetry_config \<Rightarrow> 'p telemetry_config)) list" where
  "int_settings =
     [(''TELEMETRY_MAX_EVENTS_PER_REQUEST'', max_events_per_request, \<lambda>v c. c\<lparr>max_events_per_request := v\<rparr>),
      (''TELEMETRY_BUFFER_MAX_EVENTS'', buffer_max_events, \<lambda>v c. c\<lparr>buffer_max_events := v\<rparr>),
      (''TELEMETRY_FLUSH_MAX_EVENTS'', flush_max_events, \<lambda>v c. c\<lparr>flush_max_events := v\<rparr>),
      (''TELEMETRY_FLUSH_MAX_BYTES'', flush_max_bytes, \<lambda>v c. c\<lparr>flush_max_bytes := v\<rparr>),
      (''TELEMETRY_RATE_LIMIT_PER_MINUTE'', rate_limit_per_minute, \<lambda>v c. c\<lparr>rate_limit_per_minute := v\<rparr>),
      (''TELEMETRY_RATE_LIMIT_BURST'', rate_limit_burst, \<lambda>v c. c\<lparr>rate_limit_burst := v\<rparr>)]"

definition duration_settings ::
  "(string \<times> ('p telemetry_config \<Rightarrow> int) \<times> (int \<Rightarrow> 'p telemetry_config \<Rightarrow> 'p telemetry_config)) list" where
  "duration_settings =
     [(''TELEMETRY_FLUSH_INTERVAL'', flush_interval, \<lambda>v c. c\<lparr>flush_interval := v\<rparr>),
      (''TELEMETRY_SHUTDOWN_DRAIN_TIMEOUT'', shutdown_drain_timeout, \<lambda>v c. c\<lparr>shutdown_drain_timeout := v\<rparr>),
      (''TELEMETRY_SINK_TIMEOUT'', sink_timeout, \<lambda>v c. c\<lparr>sink_timeout := v\<rparr>)]"

fun parse_prefixes :: "(string \<Rightarrow> 'p option) \<Rightarrow> string list \<Rightarrow> go_error + 'p list" where
  "parse_prefixes pfx [] = Inr []"
| "parse_prefixes pfx (item # items) =
     (let i = trim_space item in
      if i = [] then parse_prefixes pfx items
      else case pfx i of
        None \<Rightarrow> Inl (Msg (Lit ''TELEMETRY_TRUSTED_PROXY_CIDRS contains an invalid CIDR''))
      | Some p \<Rightarrow> bind_result (parse_prefixes pfx items) (\<lambda>ps. Inr (p # ps)))"

definition parse_trusted_proxy_cidrs :: "(string \<Rightarrow> 'p option) \<Rightarrow> string \<Rightarrow> go_error + 'p list" where
  "parse_trusted_proxy_cidrs pfx raw = parse_prefixes pfx (split_on (CHR '','') raw)"

definition complain :: "string \<Rightarrow> go_error + 'a" where
  "complain m = Inl (Msg (Lit m))"

text \<open>
  \<open>strings.EqualFold(_, "production")\<close>: none of the letters of the word has a fold outside ASCII,
  so lower-casing the bytes decides it.
\<close>

definition is_production :: "string \<Rightarrow> bool" where
  "is_production s \<longleftrightarrow> map lower_char s = ''production''"

definition validate_config :: "(string \<Rightarrow> string option) \<Rightarrow> 'p telemetry_config \<Rightarrow> go_error + unit" where
  "validate_config dsn c =
     (if trim_space (bind_addr c) = [] then complain ''TELEMETRY_BIND_ADDR is required''
      else if trim_space (public_host c) = [] then complain ''TELEMETRY_PUBLIC_HOST is required''
      else if trim_space (environment_name c) = [] then complain ''TELEMETRY_ENVIRONMENT is required''
      else if max_body_bytes c \<le> 0 \<or> max_events_per_request c \<le> 0 \<or> buffer_max_events c \<le> 0 then
        complain ''telemetry request and buffer limits must be positive''
      else if flush_max_events c \<le> 0 \<or> flush_max_bytes c \<le> 0 then
        complain ''telemetry flush limits must be positive''
      else if flush_max_events c > buffer_max_events c then
        complain ''TELEMETRY_FLUSH_MAX_EVENTS cannot exceed TELEMETRY_BUFFER_MAX_EVENTS''
      else if flush_interval c \<le> 0 \<or> shutdown_drain_timeout c \<le> 0 \<or> sink_timeout c \<le> 0 then
        complain ''telemetry durations must be positive''
      else if rate_limit_per_minute c \<le> 0 \<or> rate_limit_burst c \<le> 0 then
        complain ''telemetry rate limits must be positive''
      else if tidb_dsn c = [] then complain ''TIDB_DSN is required''
      else case dsn (tidb_dsn c) of
        None \<Rightarrow> complain ''TIDB_DSN is invalid''
      | Some tls \<Rightarrow>
          if is_production (environment_name c)
             \<and> to_lower tls \<in> {[], ''false'', ''skip-verify'', ''preferred''}
          then complain ''TIDB_DSN must enable verified TLS in production'' else Inr ())"

definition default_config :: "(string \<Rightarrow> string) \<Rightarrow> 'p telemetry_config" where
  "default_config getenv =
     \<lparr>bind_addr = value_or_default (getenv ''TELEMETRY_BIND_ADDR'') '':8080'',
      public_host = trim_space (getenv ''TELEMETRY_PUBLIC_HOST''),
      environment_name = value_or_default (getenv ''TELEMETRY_ENVIRONMENT'') ''production'',
      max_body_bytes = 65536, max_events_per_request = 20, buffer_max_events = 10000,
      flush_max_events = 100, flush_max_bytes = 262144, flush_interval = 5000000000,
      shutdown_drain_timeout = 5000000000, sink_timeout = 5000000000,
      rate_limit_per_minute = 60, rate_limit_burst = 120, trusted_proxy_cidrs = [],
      tidb_dsn = trim_space (getenv ''TIDB_DSN'')\<rparr>"

definition load_config ::
  "(string \<Rightarrow> int option) \<Rightarrow> (string \<Rightarrow> 'p option) \<Rightarrow> (string \<Rightarrow> string option) \<Rightarrow>
   (string \<Rightarrow> string) \<Rightarrow> go_error + 'p telemetry_config" where
  "load_config dur pfx dsn getenv =
     (let c0 = default_config getenv in
      bind_result (env_int64 getenv ''TELEMETRY_MAX_BODY_BYTES'' (max_body_bytes c0)) (\<lambda>mb.
      bind_result (load_settings (env_int getenv) int_settings (c0\<lparr>max_body_bytes := mb\<rparr>)) (\<lambda>c1.
      bind_result (load_settings (env_duration dur getenv) duration_settings c1) (\<lambda>c2.
      bind_result (parse_trusted_proxy_cidrs pfx
          (value_or_default (getenv ''TELEMETRY_TRUSTED_PROXY_CIDRS'') ''127.0.0.0/8,::1/128'')) (\<lambda>ps.
      bind_result (validate_config dsn (c2\<lparr>trusted_proxy_cidrs := ps\<rparr>)) (\<lambda>_.
        Inr (c2\<lparr>trusted_proxy_cidrs := ps\<rparr>)))))))"

section \<open>What validation guarantees\<close>

definition config_ok :: "'p telemetry_config \<Rightarrow> bool" where
  "config_ok c \<longleftrightarrow> max_body_bytes c > 0 \<and> max_events_per_request c > 0
     \<and> 0 < flush_max_events c \<and> flush_max_events c \<le> buffer_max_events c \<and> 0 < flush_max_bytes c
     \<and> flush_interval c > 0 \<and> shutdown_drain_timeout c > 0 \<and> sink_timeout c > 0
     \<and> rate_limit_per_minute c > 0 \<and> rate_limit_burst c > 0"

lemma validate_config_ok: "validate_config dsn c = Inr u \<Longrightarrow> config_ok c"
  by (auto simp: validate_config_def config_ok_def complain_def split: if_splits)

lemma validate_config_tls:
  "validate_config dsn c = Inr u \<Longrightarrow> is_production (environment_name c) \<Longrightarrow>
   \<exists>tls. dsn (tidb_dsn c) = Some tls \<and> to_lower tls \<notin> {[], ''false'', ''skip-verify'', ''preferred''}"
  by (auto simp: validate_config_def complain_def split: if_splits option.splits)

lemma load_config_validates: "load_config dur pfx dsn getenv = Inr c \<Longrightarrow> validate_config dsn c = Inr ()"
  by (auto simp: load_config_def Let_def)

text \<open>Every configuration the service starts with is consistent: all limits and durations
  are positive, a flush fits the buffer, and in production the database connection verifies TLS.\<close>

theorem load_config_sound:
  assumes "load_config dur pfx dsn getenv = Inr c"
  shows "config_ok c \<and> (is_production (environment_name c) \<longrightarrow>
     (\<exists>tls. dsn (tidb_dsn c) = Some tls \<and> to_lower tls \<notin> {[], ''false'', ''skip-verify'', ''preferred''}))"
  using load_config_validates [OF assms] validate_config_ok validate_config_tls by blast

definition sample_env :: "string \<Rightarrow> string" where
  "sample_env n = (if n = ''TELEMETRY_PUBLIC_HOST'' then ''t.example''
     else if n = ''TIDB_DSN'' then ''dsn'' else if n = ''TELEMETRY_FLUSH_MAX_EVENTS'' then '' 50 '' else [])"

lemma sample_config:
  "\<exists>c. load_config (\<lambda>_. None) Some (\<lambda>_. Some ''true'') sample_env = Inr c
     \<and> flush_max_events c = 50 \<and> environment_name c = ''production''"
proof -
  have "(case load_config (\<lambda>_. None) Some (\<lambda>_. Some ''true'') sample_env of
      Inl e \<Rightarrow> False | Inr c \<Rightarrow> flush_max_events c = 50 \<and> environment_name c = ''production'')"
    by code_simp
  then show ?thesis by (auto split: sum.splits)
qed

theorem load_config_sound_witness:
  "\<exists>c. load_config (\<lambda>_. None) Some (\<lambda>_. Some ''true'') sample_env = Inr c
     \<and> flush_max_events c = 50 \<and> config_ok c"
  using sample_config load_config_sound by blast

end
