(* ===== verification/Batcher.thy ===== *)
theory Batcher
  imports Telemetry_Config
begin

text \<open>
  The event queue of the telemetry backend (\<open>internal/telemetrybackend/batcher.go\<close>).  Each
  critical section of the mutex is one function on the state; the interleaving of request
  handlers, the flush loop and the shutdown is the step relation \<open>bstep\<close>, whose labels record
  what was enqueued, written and discarded.  Cloning an event is the identity on values.  The
  length of an event's JSON encoding (\<open>estimateEventBytes\<close>) is the argument \<open>est\<close>, the results
  of the sinks and the expiry of the shutdown deadline are arguments too.
\<close>

section \<open>State\<close>

record metrics =
  accepted_events :: nat
  rejected_requests :: nat
  rate_limited :: nat
  dropped_events :: nat
  flushed_events :: nat
  tidb_successes :: nat
  tidb_failures :: nat

definition new_metrics :: metrics where
  "new_metrics = \<lparr>accepted_events = 0, rejected_requests = 0, rate_limited = 0, dropped_events = 0,
     flushed_events = 0, tidb_successes = 0, tidb_failures = 0\<rparr>"

record ('e, 'p) batcher =
  bt_config :: "'p telemetry_config"
  bt_sinks :: "string list"
  bt_metrics :: metrics
  bt_queue :: "('e \<times> int) list"
  bt_pending_bytes :: int
  bt_closed :: bool
  bt_started :: bool
  bt_wake :: bool
  bt_stop :: bool
  bt_done :: bool

definition new_batcher :: "'p telemetry_config \<Rightarrow> string list \<Rightarrow> metrics \<Rightarrow> ('e, 'p) batcher" where
  "new_batcher c sinks m = \<lparr>bt_config = c, bt_sinks = sinks, bt_metrics = m, bt_queue = [],
     bt_pending_bytes = 0, bt_closed = False, bt_started = False, bt_wake = False,
     bt_stop = False, bt_done = False\<rparr>"

section \<open>Operations\<close>

definition threshold_reached :: "('e, 'p) batcher \<Rightarrow> bool" where
  "threshold_reached b \<longleftrightarrow>
     int (length (bt_queue b)) \<ge> flush_max_events (bt_config b)
   \<or> bt_pending_bytes b \<ge> flush_max_bytes (bt_config b)"

definition add_dropped :: "nat \<Rightarrow> ('e, 'p) batcher \<Rightarrow> ('e, 'p) batcher" where
  "add_dropped n b = b\<lparr>bt_metrics := (bt_metrics b)\<lparr>dropped_events := dropped_events (bt_metrics b) + n\<rparr>\<rparr>"

text \<open>\<open>Enqueue\<close> up to the release of the mutex: the new state, whether the events were accepted,
  and whether the caller goes on to signal the loop.\<close>

definition enqueue_locked :: "('e \<Rightarrow> int) \<Rightarrow> 'e list \<Rightarrow> ('e, 'p) batcher \<Rightarrow> ('e, 'p) batcher \<times> bool \<times> bool" where
  "enqueue_locked est events b =
     (if events = [] then (b, False, False)
      else let queued = map (\<lambda>e. (e, est e)) events; added = sum_list (map est events) in
        if bt_closed b \<or> int (length (bt_queue b) + length queued) > buffer_max_events (bt_config b)
        then (b, False, False)
        else let b' = b\<lparr>bt_queue := bt_queue b @ queued, bt_pending_bytes := bt_pending_bytes b + added\<rparr>
          in (b', True, threshold_reached b'))"

text \<open>The counter the caller adds to once it has released the mutex.\<close>

definition count_enqueue :: "nat \<Rightarrow> bool \<Rightarrow> ('e, 'p) batcher \<Rightarrow> ('e, 'p) batcher" where
  "count_enqueue n ok b =
     (if ok then b\<lparr>bt_metrics := (bt_metrics b)\<lparr>accepted_events := accepted_events (bt_metrics b) + n\<rparr>\<rparr>
      else add_dropped n b)"

definition signal :: "('e, 'p) batcher \<Rightarrow> ('e, 'p) batcher" where
  "signal b = b\<lparr>bt_wake := True\<rparr>"

definition enqueue :: "('e \<Rightarrow> int) \<Rightarrow> 'e list \<Rightarrow> ('e, 'p) batcher \<Rightarrow> ('e, 'p) batcher \<times> bool" where
  "enqueue est events b =
     (case enqueue_locked est events b of (b', ok, wakes) \<Rightarrow>
        let b2 = count_enqueue (length events) ok b' in (if wakes then signal b2 else b2, ok))"

definition pending :: "('e, 'p) batcher \<Rightarrow> nat" where
  "pending b = length (bt_queue b)"

definition start :: "('e, 'p) batcher \<Rightarrow> ('e, 'p) batcher \<times> bool" where
  "start b = (if bt_started b then (b, False) else (b\<lparr>bt_started := True\<rparr>, True))"

text \<open>\<open>Close\<close> up to its wait for \<open>done\<close>.\<close>

definition close_batcher :: "('e, 'p) batcher \<Rightarrow> ('e, 'p) batcher" where
  "close_batcher b =
     (if \<not> bt_started b then b\<lparr>bt_closed := True, bt_started := True, bt_done := True\<rparr>
      else if \<not> bt_closed b then b\<lparr>bt_closed := True, bt_stop := True\<rparr>
      else b)"

text \<open>The counting loop of \<open>takeBatch\<close>: how many events leave, and their bytes.\<close>

fun take_count :: "int \<Rightarrow> int \<Rightarrow> int \<Rightarrow> int \<Rightarrow> ('e \<times> int) list \<Rightarrow> nat \<times> int" where
  "take_count max_events max_bytes count bytes [] = (0, bytes)"
| "take_count max_events max_bytes count bytes ((e, n) # q) =
     (if count < max_events then
        (if count > 0 \<and> bytes + n > max_bytes then (0, bytes)
         else case take_count max_events max_bytes (count + 1) (bytes + n) q of
           (k, bs) \<Rightarrow> (Suc k, bs))
      else (0, bytes))"

definition take_batch :: "('e, 'p) batcher \<Rightarrow> ('e, 'p) batcher \<times> 'e list" where
  "take_batch b =
     (if bt_queue b = [] then (b, [])
      else case take_count (flush_max_events (bt_config b)) (flush_max_bytes (bt_config b)) 0 0 (bt_queue b) of
        (count, bytes) \<Rightarrow>
          (b\<lparr>bt_queue := drop count (bt_queue b), bt_pending_bytes := bt_pending_bytes b - bytes\<rparr>,
           map fst (take count (bt_queue b))))"

definition record_sink_result :: "string \<Rightarrow> bool \<Rightarrow> metrics \<Rightarrow> metrics" where
  "record_sink_result name success m =
     (if name = ''tidb'' then
        (if success then m\<lparr>tidb_successes := tidb_successes m + 1\<rparr>
         else m\<lparr>tidb_failures := tidb_failures m + 1\<rparr>)
      else m)"

text \<open>The loop over the sinks; \<open>ok i\<close> is the result of writing to the \<open>i\<close>-th sink.\<close>

fun write_sinks :: "(nat \<Rightarrow> bool) \<Rightarrow> nat \<Rightarrow> string list \<Rightarrow> metrics \<Rightarrow> metrics" where
  "write_sinks ok i [] m = m"
| "write_sinks ok i (name # names) m = write_sinks ok (Suc i) names (record_sink_result name (ok i) m)"

definition count_flushed :: "nat \<Rightarrow> ('e, 'p) batcher \<Rightarrow> ('e, 'p) batcher" where
  "count_flushed n b = b\<lparr>bt_metrics := (bt_metrics b)\<lparr>flushed_events := flushed_events (bt_metrics b) + n\<rparr>\<rparr>"

definition finish_flush :: "(nat \<Rightarrow> bool) \<Rightarrow> 'e list \<Rightarrow> ('e, 'p) batcher \<Rightarrow> ('e, 'p) batcher" where
  "finish_flush ok batch b =
     (if batch = [] then b
      else count_flushed (length batch) (b\<lparr>bt_metrics := write_sinks ok 0 (bt_sinks b) (bt_metrics b)\<rparr>))"

definition flush_next :: "(nat \<Rightarrow> bool) \<Rightarrow> ('e, 'p) batcher \<Rightarrow> ('e, 'p) batcher" where
  "flush_next ok b = (case take_batch b of (b', batch) \<Rightarrow> finish_flush ok batch b')"

definition discard_pending :: "('e, 'p) batcher \<Rightarrow> ('e, 'p) batcher" where
  "discard_pending b = b\<lparr>bt_queue := [], bt_pending_bytes := 0\<rparr>"

text \<open>
  The two loops, run without interference; \<open>ok r i\<close> is the result of sink \<open>i\<close> in round \<open>r\<close>
  and \<open>expired r\<close> tells whether the shutdown deadline has passed before that round.
\<close>

partial_function (option) wake_loop :: "(nat \<Rightarrow> nat \<Rightarrow> bool) \<Rightarrow> nat \<Rightarrow> ('e, 'p) batcher \<Rightarrow> ('e, 'p) batcher option" where
  "wake_loop ok r b = (if threshold_reached b then wake_loop ok (Suc r) (flush_next (ok r) b) else Some b)"

partial_function (option) drain_loop ::
  "(nat \<Rightarrow> nat \<Rightarrow> bool) \<Rightarrow> (nat \<Rightarrow> bool) \<Rightarrow> nat \<Rightarrow> ('e, 'p) batcher \<Rightarrow> ('e, 'p) batcher option" where
  "drain_loop ok expired r b =
     (if pending b > 0 \<and> \<not> expired r then drain_loop ok expired (Suc r) (flush_next (ok r) b) else Some b)"

definition end_drain :: "('e, 'p) batcher \<Rightarrow> ('e, 'p) batcher" where
  "end_drain b = (if pending b > 0 then discard_pending (add_dropped (pending b) b) else b)"

definition flush_all :: "(nat \<Rightarrow> nat \<Rightarrow> bool) \<Rightarrow> (nat \<Rightarrow> bool) \<Rightarrow> ('e, 'p) batcher \<Rightarrow> ('e, 'p) batcher option" where
  "flush_all ok expired b = map_option end_drain (drain_loop ok expired 0 b)"

section \<open>A bounded queue\<close>

text \<open>
  What the loops and the accounting need of the queue: accepting appends all events or none,
  taking removes a non-empty prefix, and the invariant bounds the content.
\<close>

locale bounded_queue =
  fixes content :: "'s \<Rightarrow> 'a list"
    and cap :: "'s \<Rightarrow> nat"
    and valid :: "'s \<Rightarrow> bool"
    and put :: "'a list \<Rightarrow> 's \<Rightarrow> 's \<times> bool"
    and take_out :: "'s \<Rightarrow> 's \<times> 'a list"
  assumes put_content: "content (fst (put xs s)) = (if snd (put xs s) then content s @ xs else content s)"
    and put_valid: "valid s \<Longrightarrow> valid (fst (put xs s)) \<and> cap (fst (put xs s)) = cap s"
    and take_content: "valid s \<Longrightarrow> snd (take_out s) @ content (fst (take_out s)) = content s"
    and take_valid: "valid s \<Longrightarrow> valid (fst (take_out s)) \<and> cap (fst (take_out s)) = cap s"
    and take_progress: "valid s \<Longrightarrow> content s \<noteq> [] \<Longrightarrow> snd (take_out s) \<noteq> []"
    and bounded: "valid s \<Longrightarrow> length (content s) \<le> cap s"
begin

lemma take_shrinks:
  "valid s \<Longrightarrow> content s \<noteq> [] \<Longrightarrow> length (content (fst (take_out s))) < length (content s)"
  using take_content [of s] take_progress [of s]
  by (metis length_append length_greater_0_conv less_add_same_cancel2)

fun run_queue :: "'a list option list \<Rightarrow> 's \<Rightarrow> 's \<times> 'a list \<times> 'a list" where
  "run_queue [] s = (s, [], [])"
| "run_queue (None # ops) s =
     (case run_queue ops (fst (take_out s)) of (s', ins, outs) \<Rightarrow> (s', ins, snd (take_out s) @ outs))"
| "run_queue (Some xs # ops) s =
     (case run_queue ops (fst (put xs s)) of (s', ins, outs) \<Rightarrow>
       (s', (if snd (put xs s) then xs else []) @ ins, outs))"

text \<open>First in, first out, whatever the order of the operations.\<close>

lemma run_queue_fifo:
  "valid s \<Longrightarrow> run_queue ops s = (s', ins, outs) \<Longrightarrow>
   valid s' \<and> content s @ ins = outs @ content s' \<and> length (content s') \<le> cap s"
proof (induction ops s arbitrary: s' ins outs rule: run_queue.induct)
  case (2 ops s)
  obtain t i u where r: "run_queue ops (fst (take_out s)) = (t, i, u)" by (metis prod_cases3)
  from "2.IH" [OF _ r] "2.prems" take_valid [of s] take_content [of s] r show ?case
    by (auto simp flip: append_assoc) (metis append_assoc)
next
  case (3 xs ops s)
  obtain t i u where r: "run_queue ops (fst (put xs s)) = (t, i, u)" by (metis prod_cases3)
  from "3.IH" [OF _ r] "3.prems" put_valid [of s xs] put_content [of xs s] r show ?case
    by (auto split: if_splits)
qed (auto dest: bounded)

end

section \<open>The batcher is a bounded queue\<close>

definition batcher_inv :: "('e, 'p) batcher \<Rightarrow> bool" where
  "batcher_inv b \<longleftrightarrow> 0 < flush_max_events (bt_config b) \<and> 0 < flush_max_bytes (bt_config b)
     \<and> 0 \<le> buffer_max_events (bt_config b)
     \<and> int (length (bt_queue b)) \<le> buffer_max_events (bt_config b)
     \<and> bt_pending_bytes b = sum_list (map snd (bt_queue b))"

lemma new_batcher_inv: "config_ok c \<Longrightarrow> batcher_inv (new_batcher c sinks m)"
  by (simp add: batcher_inv_def new_batcher_def config_ok_def)

lemma take_count_le: "take_count me mb c n q = (k, t) \<Longrightarrow> k \<le> length q \<and> t = n + sum_list (map snd (take k q))"
  by (induction me mb c n q arbitrary: k t rule: take_count.induct)
     (auto split: if_splits prod.splits)

lemma take_count_pos: "0 < me \<Longrightarrow> q \<noteq> [] \<Longrightarrow> 0 < fst (take_count me mb 0 n q)"
  by (cases q) (auto split: prod.splits)

lemma take_count_events: "take_count me mb c n q = (k, t) \<Longrightarrow> k = 0 \<or> c + int k \<le> me"
  by (induction me mb c n q arbitrary: k t rule: take_count.induct)
     (auto split: if_splits prod.splits)

lemma take_count_bytes:
  "take_count me mb c n q = (k, t) \<Longrightarrow> 0 < c \<Longrightarrow> k = 0 \<or> t \<le> mb"
  by (induction me mb c n q arbitrary: k t rule: take_count.induct)
     (auto split: if_splits prod.splits dest: take_count_le)

text \<open>The prefix is the longest one the two limits allow.\<close>

lemma take_count_maximal:
  "take_count me mb c n q = (k, t) \<Longrightarrow> k < length q \<Longrightarrow>
   c + int k \<ge> me \<or> (0 < c + int k \<and> t + snd (q ! k) > mb)"
proof (induction me mb c n q arbitrary: k t rule: take_count.induct)
  case (2 me mb c n e w q)
  obtain k' t' where r: "take_count me mb (c + 1) (n + w) q = (k', t')" by fastforce
  show ?case
  proof (cases "c < me \<and> \<not> (c > 0 \<and> n + w > mb)")
    case True
    then have "k = Suc k'" "t = t'" using "2.prems"(1) r by auto
    moreover have "k' < length q" using "2.prems"(2) \<open>k = Suc k'\<close> by simp
    ultimately show ?thesis using "2.IH" [OF _ _ r] True by (auto simp: algebra_simps)
  next
    case False
    then show ?thesis using "2.prems" by (auto split: if_splits)
  qed
qed simp

lemma take_batch_parts:
  assumes "take_batch b = (b', batch)"
  obtains k where "b' = b\<lparr>bt_queue := drop k (bt_queue b),
      bt_pending_bytes := bt_pending_bytes b - sum_list (map snd (take k (bt_queue b)))\<rparr>"
    and "batch = map fst (take k (bt_queue b))"
    and "k = 0 \<and> bt_queue b = [] \<or>
      take_count (flush_max_events (bt_config b)) (flush_max_bytes (bt_config b)) 0 0 (bt_queue b)
        = (k, sum_list (map snd (take k (bt_queue b))))"
proof (cases "bt_queue b = []")
  case True
  then show ?thesis using assms that [of 0] by (simp add: take_batch_def)
next
  case False
  obtain k t where "take_count (flush_max_events (bt_config b)) (flush_max_bytes (bt_config b)) 0 0 (bt_queue b) = (k, t)"
    by fastforce
  with take_count_le [OF this] show ?thesis using assms that [of k] False by (auto simp: take_batch_def)
qed

lemma sum_drop: "sum_list (map f xs) - sum_list (map f (take k xs)) = sum_list (map f (drop k xs))"
  for f :: "'a \<Rightarrow> int"
  using arg_cong [OF append_take_drop_id [of k xs], of "\<lambda>ys. sum_list (map f ys)"]
  by (simp del: append_take_drop_id)

lemma take_batch_inv: "batcher_inv b \<Longrightarrow> batcher_inv (fst (take_batch b))"
proof -
  assume i: "batcher_inv b"
  obtain b' batch where t: "take_batch b = (b', batch)" by fastforce
  from t show ?thesis
  proof (rule take_batch_parts)
    fix k
    assume "b' = b\<lparr>bt_queue := drop k (bt_queue b),
      bt_pending_bytes := bt_pending_bytes b - sum_list (map snd (take k (bt_queue b)))\<rparr>"
    then show ?thesis using i t by (auto simp: batcher_inv_def sum_drop)
  qed
qed

lemma take_batch_content: "snd (take_batch b) @ map fst (bt_queue (fst (take_batch b))) = map fst (bt_queue b)"
proof -
  obtain b' batch where t: "take_batch b = (b', batch)" by fastforce
  from t show ?thesis
    by (rule take_batch_parts) (simp add: t flip: map_append)
qed

lemma enqueue_locked_inv: "batcher_inv b \<Longrightarrow> batcher_inv (fst (enqueue_locked est es b))"
  by (auto simp: enqueue_locked_def batcher_inv_def Let_def o_def)

lemma enqueue_locked_queue:
  "map fst (bt_queue (fst (enqueue_locked est es b))) =
     map fst (bt_queue b) @ (if fst (snd (enqueue_locked est es b)) then es else [])"
  by (auto simp: enqueue_locked_def Let_def add_dropped_def o_def)

lemma count_enqueue_fields [simp]:
  "bt_queue (count_enqueue n ok b) = bt_queue b" "bt_config (count_enqueue n ok b) = bt_config b"
  "bt_pending_bytes (count_enqueue n ok b) = bt_pending_bytes b"
  "bt_closed (count_enqueue n ok b) = bt_closed b" "bt_started (count_enqueue n ok b) = bt_started b"
  "bt_wake (count_enqueue n ok b) = bt_wake b" "bt_stop (count_enqueue n ok b) = bt_stop b"
  "bt_sinks (count_enqueue n ok b) = bt_sinks b" "batcher_inv (count_enqueue n ok b) = batcher_inv b"
  "accepted_events (bt_metrics (count_enqueue n ok b)) = accepted_events (bt_metrics b) + (if ok then n else 0)"
  "dropped_events (bt_metrics (count_enqueue n ok b)) = dropped_events (bt_metrics b) + (if ok then 0 else n)"
  "flushed_events (bt_metrics (count_enqueue n ok b)) = flushed_events (bt_metrics b)"
  "tidb_successes (bt_metrics (count_enqueue n ok b)) = tidb_successes (bt_metrics b)"
  "tidb_failures (bt_metrics (count_enqueue n ok b)) = tidb_failures (bt_metrics b)"
  by (simp_all add: count_enqueue_def add_dropped_def batcher_inv_def)

lemma count_flushed_fields [simp]:
  "bt_queue (count_flushed n b) = bt_queue b" "bt_config (count_flushed n b) = bt_config b"
  "bt_pending_bytes (count_flushed n b) = bt_pending_bytes b"
  "bt_closed (count_flushed n b) = bt_closed b" "bt_started (count_flushed n b) = bt_started b"
  "bt_wake (count_flushed n b) = bt_wake b" "bt_stop (count_flushed n b) = bt_stop b"
  "bt_sinks (count_flushed n b) = bt_sinks b" "batcher_inv (count_flushed n b) = batcher_inv b"
  "accepted_events (bt_metrics (count_flushed n b)) = accepted_events (bt_metrics b)"
  "dropped_events (bt_metrics (count_flushed n b)) = dropped_events (bt_metrics b)"
  "flushed_events (bt_metrics (count_flushed n b)) = flushed_events (bt_metrics b) + n"
  "tidb_successes (bt_metrics (count_flushed n b)) = tidb_successes (bt_metrics b)"
  "tidb_failures (bt_metrics (count_flushed n b)) = tidb_failures (bt_metrics b)"
  by (simp_all add: count_flushed_def batcher_inv_def)

lemma enqueue_eq: "enqueue est es b =
   (let b2 = count_enqueue (length es) (fst (snd (enqueue_locked est es b))) (fst (enqueue_locked est es b))
    in if snd (snd (enqueue_locked est es b)) then signal b2 else b2,
    fst (snd (enqueue_locked est es b)))"
  by (simp add: enqueue_def Let_def split: prod.splits)

lemma signal_fields [simp]:
  "bt_queue (signal b) = bt_queue b" "bt_config (signal b) = bt_config b"
  "bt_pending_bytes (signal b) = bt_pending_bytes b" "batcher_inv (signal b) = batcher_inv b"
  "bt_metrics (signal b) = bt_metrics b" "bt_closed (signal b) = bt_closed b"
  by (simp_all add: signal_def batcher_inv_def)

lemma enqueue_locked_config: "bt_config (fst (enqueue_locked est es b)) = bt_config b"
  by (simp add: enqueue_locked_def Let_def)

lemma take_batch_config: "bt_config (fst (take_batch b)) = bt_config b"
  by (simp add: take_batch_def split: prod.splits)

interpretation bq: bounded_queue "\<lambda>b. map fst (bt_queue b)" "\<lambda>b. nat (buffer_max_events (bt_config b))"
    batcher_inv "enqueue est" take_batch for est
proof
  fix xs :: "'a list" and s :: "('a, 'b) batcher"
  show "map fst (bt_queue (fst (enqueue est xs s))) =
      (if snd (enqueue est xs s) then map fst (bt_queue s) @ xs else map fst (bt_queue s))"
    using enqueue_locked_queue [of est xs s] by (simp add: enqueue_eq Let_def)
next
  fix xs :: "'a list" and s :: "('a, 'b) batcher"
  assume "batcher_inv s"
  then show "batcher_inv (fst (enqueue est xs s)) \<and>
      nat (buffer_max_events (bt_config (fst (enqueue est xs s)))) = nat (buffer_max_events (bt_config s))"
    by (simp add: enqueue_eq Let_def enqueue_locked_inv enqueue_locked_config)
next
  fix s :: "('a, 'b) batcher"
  show "snd (take_batch s) @ map fst (bt_queue (fst (take_batch s))) = map fst (bt_queue s)"
    by (rule take_batch_content)
next
  fix s :: "('a, 'b) batcher"
  assume "batcher_inv s"
  then show "batcher_inv (fst (take_batch s)) \<and>
      nat (buffer_max_events (bt_config (fst (take_batch s)))) = nat (buffer_max_events (bt_config s))"
    by (simp add: take_batch_inv take_batch_config)
next
  fix s :: "('a, 'b) batcher"
  assume "batcher_inv s" "map fst (bt_queue s) \<noteq> []"
  then show "snd (take_batch s) \<noteq> []"
    using take_count_pos [of "flush_max_events (bt_config s)" "bt_queue s"]
    by (auto simp: take_batch_def batcher_inv_def split: prod.splits) (metis fst_conv less_irrefl)
qed (auto simp: batcher_inv_def)

section \<open>The loops end\<close>

lemma write_sinks_keeps [simp]:
  "accepted_events (write_sinks ok i ns m) = accepted_events m"
  "flushed_events (write_sinks ok i ns m) = flushed_events m"
  "dropped_events (write_sinks ok i ns m) = dropped_events m"
  by (induction ok i ns m rule: write_sinks.induct) (simp_all add: record_sink_result_def)

lemma finish_flush_fields [simp]:
  "bt_queue (finish_flush ok batch b) = bt_queue b" "bt_config (finish_flush ok batch b) = bt_config b"
  "bt_pending_bytes (finish_flush ok batch b) = bt_pending_bytes b"
  "bt_closed (finish_flush ok batch b) = bt_closed b" "bt_started (finish_flush ok batch b) = bt_started b"
  "bt_wake (finish_flush ok batch b) = bt_wake b" "bt_stop (finish_flush ok batch b) = bt_stop b"
  "batcher_inv (finish_flush ok batch b) = batcher_inv b"
  "accepted_events (bt_metrics (finish_flush ok batch b)) = accepted_events (bt_metrics b)"
  "flushed_events (bt_metrics (finish_flush ok batch b)) = flushed_events (bt_metrics b) + length batch"
  "dropped_events (bt_metrics (finish_flush ok batch b)) = dropped_events (bt_metrics b)"
  by (simp_all add: finish_flush_def Let_def batcher_inv_def)

lemma flush_next_eq: "flush_next ok b = finish_flush ok (snd (take_batch b)) (fst (take_batch b))"
  by (simp add: flush_next_def split: prod.splits)

lemma flush_next_inv: "batcher_inv b \<Longrightarrow> batcher_inv (flush_next ok b)"
  by (simp add: flush_next_eq take_batch_inv)

lemma take_batch_metrics: "bt_metrics (fst (take_batch b)) = bt_metrics b"
  by (simp add: take_batch_def split: prod.splits)

lemma flush_next_shrinks:
  "batcher_inv b \<Longrightarrow> bt_queue b \<noteq> [] \<Longrightarrow> length (bt_queue (flush_next ok b)) < length (bt_queue b)"
  using bq.take_shrinks [of b] by (simp add: flush_next_eq)

lemma flush_next_accounts:
  "flushed_events (bt_metrics (flush_next ok b)) + pending (flush_next ok b)
     = flushed_events (bt_metrics b) + pending b
   \<and> dropped_events (bt_metrics (flush_next ok b)) = dropped_events (bt_metrics b)"
  using arg_cong [OF take_batch_content [of b], of length]
  by (simp add: flush_next_eq take_batch_metrics pending_def)

lemma threshold_nonempty: "batcher_inv b \<Longrightarrow> threshold_reached b \<Longrightarrow> bt_queue b \<noteq> []"
  by (auto simp: threshold_reached_def batcher_inv_def)

lemma wake_loop_ends:
  "batcher_inv b \<Longrightarrow> \<exists>b'. wake_loop ok r b = Some b' \<and> batcher_inv b' \<and> \<not> threshold_reached b'
     \<and> flushed_events (bt_metrics b') + pending b' = flushed_events (bt_metrics b) + pending b"
proof (induction "length (bt_queue b)" arbitrary: b r rule: less_induct)
  case less
  show ?case
  proof (cases "threshold_reached b")
    case True
    have "length (bt_queue (flush_next (ok r) b)) < length (bt_queue b)"
      using flush_next_shrinks threshold_nonempty less.prems True by blast
    from less.hyps [OF this flush_next_inv [OF less.prems], of "Suc r"]
    show ?thesis using True flush_next_accounts [of "ok r" b] by (subst wake_loop.simps) auto
  next
    case False
    then show ?thesis using less.prems by (subst wake_loop.simps) auto
  qed
qed

lemma drain_loop_ends:
  "batcher_inv b \<Longrightarrow> \<exists>b' n. drain_loop ok expired r b = Some b' \<and> batcher_inv b'
     \<and> (pending b' = 0 \<or> expired (r + n)) \<and> n \<le> pending b
     \<and> flushed_events (bt_metrics b') + pending b' = flushed_events (bt_metrics b) + pending b
     \<and> dropped_events (bt_metrics b') = dropped_events (bt_metrics b)"
proof (induction "length (bt_queue b)" arbitrary: b r rule: less_induct)
  case less
  show ?case
  proof (cases "pending b > 0 \<and> \<not> expired r")
    case True
    have l: "length (bt_queue (flush_next (ok r) b)) < length (bt_queue b)"
      using flush_next_shrinks less.prems True by (auto simp: pending_def)
    from less.hyps [OF this flush_next_inv [OF less.prems], of "Suc r"]
    obtain b' n where b': "drain_loop ok expired (Suc r) (flush_next (ok r) b) = Some b'" "batcher_inv b'"
      "pending b' = 0 \<or> expired (Suc r + n)" "n \<le> pending (flush_next (ok r) b)"
      "flushed_events (bt_metrics b') + pending b' =
         flushed_events (bt_metrics (flush_next (ok r) b)) + pending (flush_next (ok r) b)"
      "dropped_events (bt_metrics b') = dropped_events (bt_metrics (flush_next (ok r) b))"
      by blast
    have "Suc n \<le> pending b" using b'(4) l by (simp add: pending_def)
    moreover have "pending b' = 0 \<or> expired (r + Suc n)" using b'(3) by simp
    moreover have "drain_loop ok expired r b = Some b'"
      using True b'(1) by (subst drain_loop.simps) simp
    ultimately show ?thesis using b' flush_next_accounts [of "ok r" b] by (metis (no_types))
  next
    case False
    then show ?thesis using less.prems
      by (intro exI [of _ b] exI [of _ 0]) (subst drain_loop.simps, auto)
  qed
qed

section \<open>The running system\<close>

text \<open>
  The goroutine of \<open>loop\<close> is in its select, in the threshold loop, writing a batch it has
  taken (with the results of the sinks already written), draining, or gone.  A caller of
  \<open>Enqueue\<close> that has released the mutex is in \<open>counting\<close> until it has added to its counter
  (the number of its events, whether they were accepted, and whether it goes on to signal), and
  then counts among the \<open>signallers\<close> until its call of \<open>signal\<close>.  The end of a drain is one
  step: the batcher is closed then, so no request changes the queue between the count and the
  discard.
\<close>

datatype origin = From_Wake | From_Tick | From_Drain

datatype 'e loop_pc = Absent | Selecting | Woken | Writing origin "'e list" "bool list" | Draining | Exited

record ('e, 'p) bsystem =
  sys_batcher :: "('e, 'p) batcher"
  sys_pc :: "'e loop_pc"
  counting :: "(nat \<times> bool \<times> bool) list"
  signallers :: nat

datatype 'e blabel =
    Did_Enqueue "'e list" bool
  | Did_Sink string bool
  | Did_Flush "'e list" "bool list"
  | Did_Discard "'e list"
  | Internal

fun resume :: "origin \<Rightarrow> 'e loop_pc" where
  "resume From_Wake = Woken"
| "resume From_Tick = Selecting"
| "resume From_Drain = Draining"

inductive bstep :: "('e \<Rightarrow> int) \<Rightarrow> ('e, 'p) bsystem \<Rightarrow> 'e blabel \<Rightarrow> ('e, 'p) bsystem \<Rightarrow> bool" for est where
  enqueue_step: "enqueue_locked est es (sys_batcher s) = (b, ok, wakes) \<Longrightarrow>
     bstep est s (Did_Enqueue es ok)
       (s\<lparr>sys_batcher := b, counting := counting s @ [(length es, ok, wakes)]\<rparr>)"
| count_step: "counting s = before @ (n, ok, wakes) # after \<Longrightarrow>
     bstep est s Internal (s\<lparr>sys_batcher := count_enqueue n ok (sys_batcher s),
       counting := before @ after, signallers := signallers s + (if wakes then 1 else 0)\<rparr>)"
| signal_step: "signallers s > 0 \<Longrightarrow>
     bstep est s Internal (s\<lparr>sys_batcher := signal (sys_batcher s), signallers := signallers s - 1\<rparr>)"
| start_step: "start (sys_batcher s) = (b, launched) \<Longrightarrow>
     bstep est s Internal (s\<lparr>sys_batcher := b, sys_pc := (if launched then Selecting else sys_pc s)\<rparr>)"
| close_step: "bstep est s Internal (s\<lparr>sys_batcher := close_batcher (sys_batcher s)\<rparr>)"
| wake_step: "sys_pc s = Selecting \<Longrightarrow> bt_wake (sys_batcher s) \<Longrightarrow>
     bstep est s Internal (s\<lparr>sys_batcher := (sys_batcher s)\<lparr>bt_wake := False\<rparr>, sys_pc := Woken\<rparr>)"
| threshold_step: "sys_pc s = Woken \<Longrightarrow> threshold_reached (sys_batcher s) \<Longrightarrow>
     take_batch (sys_batcher s) = (b, batch) \<Longrightarrow>
     bstep est s Internal (s\<lparr>sys_batcher := b, sys_pc := Writing From_Wake batch []\<rparr>)"
| calm_step: "sys_pc s = Woken \<Longrightarrow> \<not> threshold_reached (sys_batcher s) \<Longrightarrow>
     bstep est s Internal (s\<lparr>sys_pc := Selecting\<rparr>)"
| tick_step: "sys_pc s = Selecting \<Longrightarrow> take_batch (sys_batcher s) = (b, batch) \<Longrightarrow>
     bstep est s Internal (s\<lparr>sys_batcher := b, sys_pc := Writing From_Tick batch []\<rparr>)"
| sink_step: "sys_pc s = Writing origin batch rs \<Longrightarrow> batch \<noteq> [] \<Longrightarrow>
     length rs < length (bt_sinks (sys_batcher s)) \<Longrightarrow> name = bt_sinks (sys_batcher s) ! length rs \<Longrightarrow>
     bstep est s (Did_Sink name ok)
       (s\<lparr>sys_batcher := (sys_batcher s)\<lparr>bt_metrics := record_sink_result name ok (bt_metrics (sys_batcher s))\<rparr>,
          sys_pc := Writing origin batch (rs @ [ok])\<rparr>)"
| flush_step: "sys_pc s = Writing origin batch rs \<Longrightarrow>
     batch = [] \<or> length rs = length (bt_sinks (sys_batcher s)) \<Longrightarrow>
     bstep est s (Did_Flush batch rs)
       (s\<lparr>sys_batcher := count_flushed (length batch) (sys_batcher s), sys_pc := resume origin\<rparr>)"
| stop_step: "sys_pc s = Selecting \<Longrightarrow> bt_stop (sys_batcher s) \<Longrightarrow>
     bstep est s Internal (s\<lparr>sys_pc := Draining\<rparr>)"
| drain_step: "sys_pc s = Draining \<Longrightarrow> pending (sys_batcher s) > 0 \<Longrightarrow>
     take_batch (sys_batcher s) = (b, batch) \<Longrightarrow>
     bstep est s Internal (s\<lparr>sys_batcher := b, sys_pc := Writing From_Drain batch []\<rparr>)"
| exit_step: "sys_pc s = Draining \<Longrightarrow> pending (sys_batcher s) = 0 \<or> expired \<Longrightarrow>
     bstep est s (Did_Discard (map fst (bt_queue (sys_batcher s))))
       (s\<lparr>sys_batcher := (end_drain (sys_batcher s))\<lparr>bt_done := True\<rparr>, sys_pc := Exited\<rparr>)"

inductive reachable :: "('e \<Rightarrow> int) \<Rightarrow> ('e, 'p) bsystem \<Rightarrow> 'e blabel list \<Rightarrow> ('e, 'p) bsystem \<Rightarrow> bool"
  for est s0 where
  here: "reachable est s0 [] s0"
| further: "reachable est s0 h s \<Longrightarrow> bstep est s l s' \<Longrightarrow> reachable est s0 (h @ [l]) s'"

definition new_system :: "'p telemetry_config \<Rightarrow> string list \<Rightarrow> ('e, 'p) bsystem" where
  "new_system c sinks = \<lparr>sys_batcher = new_batcher c sinks new_metrics, sys_pc = Absent, counting = [],
     signallers = 0\<rparr>"

section \<open>Histories\<close>

fun accepted_of :: "'e blabel list \<Rightarrow> 'e list" where
  "accepted_of [] = []"
| "accepted_of (Did_Enqueue es ok # h) = (if ok then es else []) @ accepted_of h"
| "accepted_of (_ # h) = accepted_of h"

fun rejected_of :: "'e blabel list \<Rightarrow> 'e list" where
  "rejected_of [] = []"
| "rejected_of (Did_Enqueue es ok # h) = (if ok then [] else es) @ rejected_of h"
| "rejected_of (_ # h) = rejected_of h"

text \<open>The batches handed to every sink, with the result of each sink.\<close>

fun flushes_of :: "'e blabel list \<Rightarrow> ('e list \<times> bool list) list" where
  "flushes_of [] = []"
| "flushes_of (Did_Flush es rs # h) = (es, rs) # flushes_of h"
| "flushes_of (_ # h) = flushes_of h"

fun sink_writes_of :: "'e blabel list \<Rightarrow> (string \<times> bool) list" where
  "sink_writes_of [] = []"
| "sink_writes_of (Did_Sink name ok # h) = (name, ok) # sink_writes_of h"
| "sink_writes_of (_ # h) = sink_writes_of h"

fun discarded_of :: "'e blabel list \<Rightarrow> 'e list" where
  "discarded_of [] = []"
| "discarded_of (Did_Discard es # h) = es @ discarded_of h"
| "discarded_of (_ # h) = discarded_of h"

definition flushed_of :: "'e blabel list \<Rightarrow> 'e list" where
  "flushed_of h = concat (map fst (flushes_of h))"

lemma history_append [simp]:
  "accepted_of (g @ h) = accepted_of g @ accepted_of h"
  "rejected_of (g @ h) = rejected_of g @ rejected_of h"
  "flushes_of (g @ h) = flushes_of g @ flushes_of h"
  "sink_writes_of (g @ h) = sink_writes_of g @ sink_writes_of h"
  "discarded_of (g @ h) = discarded_of g @ discarded_of h"
  "flushed_of (g @ h) = flushed_of g @ flushed_of h"
  by (induction g rule: accepted_of.induct, simp_all add: flushed_of_def)

lemma flushed_of_simps [simp]:
  "flushed_of [] = []" "flushed_of (Did_Flush es rs # h) = es @ flushed_of h"
  "flushed_of (Did_Enqueue es ok # h) = flushed_of h" "flushed_of (Did_Sink nm ok # h) = flushed_of h"
  "flushed_of (Did_Discard es # h) = flushed_of h" "flushed_of (Internal # h) = flushed_of h"
  by (simp_all add: flushed_of_def)

definition in_flight :: "('e, 'p) bsystem \<Rightarrow> 'e list" where
  "in_flight s = (case sys_pc s of Writing _ batch _ \<Rightarrow> batch | _ \<Rightarrow> [])"

definition queued_events :: "('e, 'p) bsystem \<Rightarrow> 'e list" where
  "queued_events s = map fst (bt_queue (sys_batcher s))"

text \<open>The events of callers that have released the mutex and not yet added to their counter.\<close>

definition uncounted :: "bool \<Rightarrow> ('e, 'p) bsystem \<Rightarrow> nat" where
  "uncounted ok s = sum_list (map (\<lambda>(n, ok', wakes). if ok' = ok then n else 0) (counting s))"

definition draining :: "'e loop_pc \<Rightarrow> bool" where
  "draining pc = (case pc of Draining \<Rightarrow> True | Exited \<Rightarrow> True | Writing From_Drain _ _ \<Rightarrow> True | _ \<Rightarrow> False)"

text \<open>A caller that found a threshold reached has yet to call \<open>signal\<close>.\<close>

definition signal_due :: "('e, 'p) bsystem \<Rightarrow> bool" where
  "signal_due s \<longleftrightarrow> signallers s > 0 \<or> list_ex (\<lambda>(n, ok, wakes). wakes) (counting s)"

definition awake :: "('e, 'p) bsystem \<Rightarrow> bool" where
  "awake s \<longleftrightarrow> bt_wake (sys_batcher s) \<or> signal_due s
     \<or> (case sys_pc s of Woken \<Rightarrow> True | Writing From_Wake _ _ \<Rightarrow> True | _ \<Rightarrow> False)"

text \<open>The control part: who closed, and where the loop can be.\<close>

definition control_inv :: "('e, 'p) bsystem \<Rightarrow> bool" where
  "control_inv s \<longleftrightarrow>
     (bt_stop (sys_batcher s) \<longrightarrow> bt_closed (sys_batcher s))
   \<and> (draining (sys_pc s) \<longrightarrow> bt_closed (sys_batcher s))
   \<and> (sys_pc s \<noteq> Absent \<longrightarrow> bt_started (sys_batcher s))
   \<and> (sys_pc s = Exited \<longrightarrow> bt_queue (sys_batcher s) = [])"

lemma resume_simps [simp]:
  "resume o' \<noteq> Absent" "resume o' \<noteq> Exited" "draining (resume o') = (o' = From_Drain)"
  "draining (Writing o' batch rs) = (o' = From_Drain)"
  "\<not> draining Absent" "\<not> draining Selecting" "\<not> draining Woken" "draining Draining" "draining Exited"
  by (cases o'; simp add: draining_def)+

lemma take_batch_control [simp]:
  "take_batch b = (b', batch) \<Longrightarrow> bt_closed b' = bt_closed b"
  "take_batch b = (b', batch) \<Longrightarrow> bt_started b' = bt_started b"
  "take_batch b = (b', batch) \<Longrightarrow> bt_stop b' = bt_stop b"
  "take_batch b = (b', batch) \<Longrightarrow> bt_wake b' = bt_wake b"
  "take_batch b = (b', batch) \<Longrightarrow> bt_metrics b' = bt_metrics b"
  by (auto simp: take_batch_def split: if_splits prod.splits)

lemma enqueue_locked_control:
  "enqueue_locked est es b = (b', ok, wakes) \<Longrightarrow>
     bt_closed b' = bt_closed b \<and> bt_started b' = bt_started b \<and> bt_stop b' = bt_stop b
   \<and> bt_wake b' = bt_wake b \<and> (bt_closed b \<longrightarrow> \<not> ok) \<and> (\<not> ok \<longrightarrow> bt_queue b' = bt_queue b)"
  by (auto simp: enqueue_locked_def Let_def split: if_splits)

lemma end_drain_fields [simp]:
  "bt_queue (end_drain b) = []" "bt_closed (end_drain b) = bt_closed b"
  "bt_started (end_drain b) = bt_started b" "bt_stop (end_drain b) = bt_stop b"
  "bt_config (end_drain b) = bt_config b"
  "batcher_inv b \<Longrightarrow> bt_pending_bytes (end_drain b) = 0"
  "accepted_events (bt_metrics (end_drain b)) = accepted_events (bt_metrics b)"
  "flushed_events (bt_metrics (end_drain b)) = flushed_events (bt_metrics b)"
  "dropped_events (bt_metrics (end_drain b)) = dropped_events (bt_metrics b) + length (bt_queue b)"
  "tidb_successes (bt_metrics (end_drain b)) = tidb_successes (bt_metrics b)"
  "tidb_failures (bt_metrics (end_drain b)) = tidb_failures (bt_metrics b)"
  "bt_sinks (end_drain b) = bt_sinks b"
  by (auto simp: end_drain_def discard_pending_def add_dropped_def pending_def batcher_inv_def)

lemma signal_control [simp]:
  "bt_started (signal b) = bt_started b" "bt_stop (signal b) = bt_stop b" "bt_wake (signal b)"
  by (simp_all add: signal_def)

lemma close_batcher_fields [simp]:
  "bt_closed (close_batcher b)" "bt_started (close_batcher b)"
  "bt_queue (close_batcher b) = bt_queue b" "bt_metrics (close_batcher b) = bt_metrics b"
  "bt_config (close_batcher b) = bt_config b" "bt_wake (close_batcher b) = bt_wake b"
  "bt_pending_bytes (close_batcher b) = bt_pending_bytes b" "batcher_inv (close_batcher b) = batcher_inv b"
  by (auto simp: close_batcher_def batcher_inv_def)

lemma start_fields:
  "start b = (b', launched) \<Longrightarrow> bt_queue b' = bt_queue b \<and> bt_metrics b' = bt_metrics b
     \<and> bt_closed b' = bt_closed b \<and> bt_stop b' = bt_stop b \<and> bt_wake b' = bt_wake b
     \<and> bt_config b' = bt_config b \<and> bt_pending_bytes b' = bt_pending_bytes b \<and> bt_started b'
     \<and> (launched \<longrightarrow> \<not> bt_started b)"
  by (auto simp: start_def split: if_splits)

lemma bstep_control: "bstep est s l s' \<Longrightarrow> control_inv s \<Longrightarrow> control_inv s'"
proof (induction rule: bstep.induct)
  case (enqueue_step es s b ok wakes)
  then show ?case using enqueue_locked_control [OF enqueue_step(1)] by (auto simp: control_inv_def)
next
  case (start_step s b launched)
  then show ?case using start_fields [OF start_step(1)] by (auto simp: control_inv_def)
qed (auto simp: control_inv_def)

lemma bstep_inv: "bstep est s l s' \<Longrightarrow> batcher_inv (sys_batcher s) \<Longrightarrow> batcher_inv (sys_batcher s')"
proof (induction rule: bstep.induct)
  case (enqueue_step es s b ok wakes)
  then show ?case using enqueue_locked_inv [of "sys_batcher s" est es] by simp
next
  case (start_step s b launched)
  then show ?case using start_fields [OF start_step(1)] by (simp add: batcher_inv_def)
next
  case (threshold_step s b batch)
  then show ?case using take_batch_inv [of "sys_batcher s"] by simp
next
  case (tick_step s b batch)
  then show ?case using take_batch_inv [of "sys_batcher s"] by simp
next
  case (drain_step s b batch)
  then show ?case using take_batch_inv [of "sys_batcher s"] by simp
qed (auto simp: batcher_inv_def)

text \<open>Nothing is lost, duplicated or reordered, and the counters count it up to the callers that
  have not added yet.\<close>

definition history_inv :: "'e blabel list \<Rightarrow> ('e, 'p) bsystem \<Rightarrow> bool" where
  "history_inv h s \<longleftrightarrow>
     accepted_of h = flushed_of h @ discarded_of h @ in_flight s @ queued_events s
   \<and> (discarded_of h \<noteq> [] \<longrightarrow> sys_pc s = Exited)
   \<and> accepted_events (bt_metrics (sys_batcher s)) + uncounted True s = length (accepted_of h)
   \<and> flushed_events (bt_metrics (sys_batcher s)) = length (flushed_of h)
   \<and> dropped_events (bt_metrics (sys_batcher s)) + uncounted False s = length (rejected_of h) + length (discarded_of h)"

text \<open>Each flushed batch was handed to every sink, and the counters of the database count its writes.\<close>

definition sinks_inv :: "string list \<Rightarrow> 'e blabel list \<Rightarrow> ('e, 'p) bsystem \<Rightarrow> bool" where
  "sinks_inv sinks h s \<longleftrightarrow> bt_sinks (sys_batcher s) = sinks
   \<and> list_all (\<lambda>(batch, rs). batch = [] \<or> length rs = length sinks) (flushes_of h)
   \<and> tidb_successes (bt_metrics (sys_batcher s)) = count_list (sink_writes_of h) (''tidb'', True)
   \<and> tidb_failures (bt_metrics (sys_batcher s)) = count_list (sink_writes_of h) (''tidb'', False)"

lemma enqueue_locked_metrics:
  "enqueue_locked est es b = (b', ok, wakes) \<Longrightarrow> bt_metrics b' = bt_metrics b \<and> bt_sinks b' = bt_sinks b
   \<and> map fst (bt_queue b') = map fst (bt_queue b) @ (if ok then es else [])"
  using enqueue_locked_queue [of est es b]
  by (auto simp: enqueue_locked_def Let_def split: if_splits)

lemma in_flight_simps [simp]:
  "in_flight (s\<lparr>sys_batcher := b\<rparr>) = in_flight s" "in_flight (s\<lparr>signallers := n\<rparr>) = in_flight s"
  "in_flight (s\<lparr>counting := cs\<rparr>) = in_flight s"
  "in_flight (s\<lparr>sys_pc := Writing og batch rs\<rparr>) = batch"
  "in_flight (s\<lparr>sys_pc := resume og\<rparr>) = []" "in_flight (s\<lparr>sys_pc := Selecting\<rparr>) = []"
  "in_flight (s\<lparr>sys_pc := Woken\<rparr>) = []" "in_flight (s\<lparr>sys_pc := Draining\<rparr>) = []"
  "in_flight (s\<lparr>sys_pc := Exited\<rparr>) = []"
  by (cases og; simp add: in_flight_def)+

lemma uncounted_simps [simp]:
  "uncounted ok (s\<lparr>sys_batcher := b\<rparr>) = uncounted ok s" "uncounted ok (s\<lparr>signallers := n\<rparr>) = uncounted ok s"
  "uncounted ok (s\<lparr>sys_pc := pc\<rparr>) = uncounted ok s"
  "uncounted ok (s\<lparr>counting := cs\<rparr>) = sum_list (map (\<lambda>(n, ok', wakes). if ok' = ok then n else 0) cs)"
  by (simp_all add: uncounted_def)

lemma in_flight_pc:
  "sys_pc s = Selecting \<Longrightarrow> in_flight s = []" "sys_pc s = Woken \<Longrightarrow> in_flight s = []"
  "sys_pc s = Absent \<Longrightarrow> in_flight s = []" "sys_pc s = Exited \<Longrightarrow> in_flight s = []"
  "sys_pc s = Draining \<Longrightarrow> in_flight s = []" "sys_pc s = Writing og batch rs \<Longrightarrow> in_flight s = batch"
  by (simp_all add: in_flight_def)

lemma record_sink_result_keeps [simp]:
  "accepted_events (record_sink_result nm ok m) = accepted_events m"
  "flushed_events (record_sink_result nm ok m) = flushed_events m"
  "dropped_events (record_sink_result nm ok m) = dropped_events m"
  by (simp_all add: record_sink_result_def)

lemma take_batch_history:
  assumes "history_inv h s" "take_batch (sys_batcher s) = (b, batch)" "in_flight s = []" "sys_pc s \<noteq> Exited"
  shows "history_inv (h @ [Internal]) (s\<lparr>sys_batcher := b, sys_pc := Writing og batch []\<rparr>)"
  using assms take_batch_content [of "sys_batcher s"]
  by (auto simp: history_inv_def queued_events_def)

lemma bstep_history: "bstep est s l s' \<Longrightarrow> control_inv s \<Longrightarrow> history_inv h s \<Longrightarrow> history_inv (h @ [l]) s'"
proof (induction rule: bstep.induct)
  case (enqueue_step es s b ok wakes)
  have "bt_closed (sys_batcher s) \<Longrightarrow> \<not> ok" using enqueue_locked_control [OF enqueue_step(1)] by simp
  then have "ok \<Longrightarrow> discarded_of h = []" using enqueue_step(2,3) by (auto simp: history_inv_def control_inv_def)
  then show ?case using enqueue_locked_metrics [OF enqueue_step(1)] enqueue_step(3)
    by (cases ok) (simp_all add: history_inv_def queued_events_def uncounted_def)
next
  case (count_step s before n ok wakes after)
  then show ?case by (auto simp: history_inv_def queued_events_def uncounted_def)
next
  case (start_step s b launched)
  have "launched \<Longrightarrow> sys_pc s = Absent" using start_step start_fields by (auto simp: control_inv_def)
  then show ?case using start_fields [OF start_step(1)] start_step(3)
    by (cases launched) (auto simp: history_inv_def queued_events_def in_flight_pc)
next
  case (threshold_step s b batch)
  then show ?case by (intro take_batch_history) (simp_all add: in_flight_pc)
next
  case (tick_step s b batch)
  then show ?case by (intro take_batch_history) (simp_all add: in_flight_pc)
next
  case (drain_step s b batch)
  then show ?case by (intro take_batch_history) (simp_all add: in_flight_pc)
next
  case (exit_step s expired)
  then have "discarded_of h = []" by (auto simp: history_inv_def)
  then show ?case using exit_step by (auto simp: history_inv_def queued_events_def in_flight_pc)
qed (auto simp: history_inv_def queued_events_def in_flight_pc)

lemma take_batch_sinks: "take_batch b = (b', batch) \<Longrightarrow> bt_sinks b' = bt_sinks b"
  by (auto simp: take_batch_def split: if_splits prod.splits)

lemma bstep_sinks: "bstep est s l s' \<Longrightarrow> sinks_inv sinks h s \<Longrightarrow> sinks_inv sinks (h @ [l]) s'"
proof (induction rule: bstep.induct)
  case (enqueue_step es s b ok wakes)
  then show ?case using enqueue_locked_metrics [OF enqueue_step(1)] by (simp add: sinks_inv_def)
next
  case (start_step s b launched)
  then have "bt_sinks b = bt_sinks (sys_batcher s)" by (auto simp: start_def split: if_splits)
  then show ?case using start_fields [OF start_step(1)] start_step(2) by (simp add: sinks_inv_def)
next
  case (sink_step s og batch rs nm ok)
  then show ?case by (auto simp: sinks_inv_def count_list_append record_sink_result_def)
qed (auto simp: sinks_inv_def take_batch_sinks signal_def close_batcher_def)

section \<open>No wake-up is lost\<close>

definition bytes_ok :: "('e, 'p) batcher \<Rightarrow> bool" where
  "bytes_ok b \<longleftrightarrow> list_all (\<lambda>n. 0 \<le> n) (map snd (bt_queue b))"

definition wake_inv :: "('e, 'p) bsystem \<Rightarrow> bool" where
  "wake_inv s \<longleftrightarrow> bytes_ok (sys_batcher s)
     \<and> (threshold_reached (sys_batcher s) \<longrightarrow> awake s \<or> draining (sys_pc s))"

lemma sum_nonneg_take: "list_all (\<lambda>n. 0 \<le> n) xs \<Longrightarrow> 0 \<le> sum_list (take k xs)" for xs :: "int list"
  by (intro sum_list_nonneg) (auto simp: list_all_iff dest: in_set_takeD)

lemma take_batch_threshold:
  assumes "take_batch b = (b', batch)" "bytes_ok b"
  shows "bytes_ok b'" "threshold_reached b' \<Longrightarrow> threshold_reached b"
proof -
  from assms(1) obtain k where k: "b' = b\<lparr>bt_queue := drop k (bt_queue b),
      bt_pending_bytes := bt_pending_bytes b - sum_list (map snd (take k (bt_queue b)))\<rparr>"
    by (rule take_batch_parts)
  have "0 \<le> sum_list (map snd (take k (bt_queue b)))"
    using sum_nonneg_take [of "map snd (bt_queue b)" k] assms(2) by (simp add: bytes_ok_def take_map)
  then show "threshold_reached b' \<Longrightarrow> threshold_reached b"
    by (auto simp: k threshold_reached_def)
  have "bt_queue b' = drop k (bt_queue b)" by (simp add: k)
  then show "bytes_ok b'"
    using assms(2) set_drop_subset [of k "map snd (bt_queue b)"]
    unfolding bytes_ok_def list_all_iff by (simp only: drop_map) blast
qed

lemma enqueue_locked_threshold:
  assumes "enqueue_locked est es b = (b', ok, wakes)" "\<And>e. 0 \<le> est e"
  shows "bytes_ok b \<Longrightarrow> bytes_ok b'" "threshold_reached b' \<Longrightarrow> wakes \<or> threshold_reached b"
  using assms by (auto simp: enqueue_locked_def Let_def bytes_ok_def threshold_reached_def
      list.pred_map o_def list.pred_True split: if_splits)

lemma awake_simps:
  "awake (s\<lparr>sys_batcher := b\<rparr>) = (bt_wake b \<or> signal_due s
     \<or> (case sys_pc s of Woken \<Rightarrow> True | Writing From_Wake _ _ \<Rightarrow> True | _ \<Rightarrow> False))"
  by (simp add: awake_def signal_due_def)

lemma signal_due_simps [simp]:
  "signal_due (s\<lparr>sys_batcher := b\<rparr>) = signal_due s" "signal_due (s\<lparr>sys_pc := pc\<rparr>) = signal_due s"
  by (simp_all add: signal_due_def)

lemma bstep_wake:
  "bstep est s l s' \<Longrightarrow> (\<And>e. 0 \<le> est e) \<Longrightarrow> control_inv s \<Longrightarrow> batcher_inv (sys_batcher s) \<Longrightarrow>
   wake_inv s \<Longrightarrow> wake_inv s'"
proof (induction rule: bstep.induct)
  case (enqueue_step es s b ok wakes)
  then show ?case
    using enqueue_locked_threshold [OF enqueue_step(1,2)] enqueue_locked_control [OF enqueue_step(1)]
    by (auto simp: wake_inv_def awake_def signal_due_def)
next
  case (count_step s before n ok wakes after)
  then show ?case by (auto simp: wake_inv_def awake_def signal_due_def bytes_ok_def threshold_reached_def)
next
  case (start_step s b launched)
  have "launched \<Longrightarrow> sys_pc s = Absent" using start_step start_fields by (auto simp: control_inv_def)
  then show ?case using start_fields [OF start_step(1)] start_step(5)
    by (auto simp: wake_inv_def awake_def bytes_ok_def threshold_reached_def)
next
  case (threshold_step s b batch)
  then show ?case using take_batch_threshold [OF threshold_step(3)] by (auto simp: wake_inv_def awake_def)
next
  case (tick_step s b batch)
  then show ?case using take_batch_threshold [OF tick_step(2)] by (auto simp: wake_inv_def awake_def)
next
  case (drain_step s b batch)
  then show ?case using take_batch_threshold [OF drain_step(3)] by (auto simp: wake_inv_def)
next
  case (sink_step s og batch rs nm ok)
  then show ?case by (cases og) (auto simp: wake_inv_def awake_def bytes_ok_def threshold_reached_def)
next
  case (flush_step s og batch rs)
  then show ?case by (cases og) (auto simp: wake_inv_def awake_def bytes_ok_def threshold_reached_def)
next
  case (exit_step s expired)
  then show ?case by (auto simp: wake_inv_def bytes_ok_def)
qed (auto simp: wake_inv_def awake_def signal_due_def bytes_ok_def threshold_reached_def signal_def)

section \<open>Reachable states\<close>

lemma reachable_inv:
  "reachable est (new_system c sinks) h s \<Longrightarrow> config_ok c \<Longrightarrow>
   batcher_inv (sys_batcher s) \<and> control_inv s \<and> history_inv h s \<and> sinks_inv sinks h s"
proof (induction rule: reachable.induct)
  case here
  then show ?case using new_batcher_inv [of c]
    by (simp add: new_system_def control_inv_def history_inv_def sinks_inv_def new_batcher_def new_metrics_def
        in_flight_def queued_events_def uncounted_def)
next
  case (further h s l s')
  then show ?case using bstep_inv bstep_control bstep_history bstep_sinks by blast
qed

lemma reachable_wake:
  "reachable est (new_system c sinks) h s \<Longrightarrow> config_ok c \<Longrightarrow> (\<And>e. 0 \<le> est e) \<Longrightarrow> wake_inv s"
proof (induction rule: reachable.induct)
  case here
  then show ?case
    by (simp add: new_system_def wake_inv_def new_batcher_def bytes_ok_def threshold_reached_def config_ok_def)
next
  case (further h s l s')
  then show ?case using bstep_wake reachable_inv by blast
qed

section \<open>Properties\<close>

definition sample_batcher_config :: "string telemetry_config" where
  "sample_batcher_config = (default_config (\<lambda>_. ''x''))
     \<lparr>buffer_max_events := 3, flush_max_events := 2, flush_max_bytes := 10\<rparr>"

lemma sample_batcher_config_ok: "config_ok sample_batcher_config"
  by (simp add: sample_batcher_config_def config_ok_def default_config_def)

definition sample_state :: "(string, string) bsystem" where
  "sample_state = (new_system sample_batcher_config [''tidb''])
     \<lparr>sys_batcher := fst (enqueue_locked (\<lambda>e. int (length e)) [''abc'', ''de''] (new_batcher sample_batcher_config [''tidb''] new_metrics)),
      counting := [(2, True, True)]\<rparr>"

lemma sample_reachable:
  "reachable (\<lambda>e. int (length e)) (new_system sample_batcher_config [''tidb''])
     [Did_Enqueue [''abc'', ''de''] True] sample_state"
proof -
  let ?s = "new_system sample_batcher_config [''tidb''] :: (string, string) bsystem"
  have e: "enqueue_locked (\<lambda>e. int (length e)) [''abc'', ''de''] (sys_batcher ?s) = (sys_batcher sample_state, True, True)"
    by (simp add: enqueue_locked_def Let_def new_batcher_def sample_batcher_config_def threshold_reached_def
        sample_state_def default_config_def new_system_def)
  have "bstep (\<lambda>e. int (length e)) ?s (Did_Enqueue [''abc'', ''de''] True) sample_state"
    using bstep.enqueue_step [OF e] by (simp add: sample_state_def new_system_def numeral_2_eq_2)
  from reachable.further [OF reachable.here this] show ?thesis by simp
qed

lemma sample_state_view:
  "queued_events sample_state = [''abc'', ''de'']" "threshold_reached (sys_batcher sample_state)"
  by (simp_all add: sample_state_def queued_events_def enqueue_locked_def Let_def new_batcher_def new_system_def
      sample_batcher_config_def default_config_def threshold_reached_def)

text \<open>In every reachable state, whatever the interleaving of requests, flushes and shutdown, the
  queue holds at most \<open>BufferMaxEvents\<close> events and \<open>pendingBytes\<close> is the sum of their sizes.\<close>

theorem batcher_bounded:
  assumes "reachable est (new_system c sinks) h s" "config_ok c"
  shows "batcher_inv (sys_batcher s) \<and> length (queued_events s) \<le> nat (buffer_max_events (bt_config (sys_batcher s)))"
  using reachable_inv [OF assms] bq.bounded [of "sys_batcher s"] by (simp add: queued_events_def)

theorem batcher_bounded_witness:
  "batcher_inv (sys_batcher sample_state)"
  using batcher_bounded [OF sample_reachable sample_batcher_config_ok] by simp

text \<open>C6: No accepted event is lost, duplicated or reordered inside the batcher: at any time the
  accepted events are, in order, those of the batches handed to the sinks, those discarded by an
  expired shutdown, the batch being written and the queue.  Each flushed batch was written once to
  every sink, with the result recorded; a sink that fails is not retried and its batch still
  counts as flushed.  The counters count these events, up to the callers that have released the mutex and not yet added to theirs, and the
  database counters count the successful and the failed writes to the sink named tidb.\<close>

theorem batcher_no_loss:
  assumes "reachable est (new_system c sinks) h s" "config_ok c"
  shows "accepted_of h = concat (map fst (flushes_of h)) @ discarded_of h @ in_flight s @ queued_events s
     \<and> list_all (\<lambda>(batch, rs). batch = [] \<or> length rs = length sinks) (flushes_of h)
     \<and> accepted_events (bt_metrics (sys_batcher s)) + uncounted True s = length (accepted_of h)
     \<and> flushed_events (bt_metrics (sys_batcher s)) = length (concat (map fst (flushes_of h)))
     \<and> dropped_events (bt_metrics (sys_batcher s)) + uncounted False s
         = length (rejected_of h) + length (discarded_of h)
     \<and> tidb_successes (bt_metrics (sys_batcher s)) = count_list (sink_writes_of h) (''tidb'', True)
     \<and> tidb_failures (bt_metrics (sys_batcher s)) = count_list (sink_writes_of h) (''tidb'', False)"
  using reachable_inv [OF assms] by (simp add: history_inv_def sinks_inv_def flushed_of_def)

text \<open>A run in which a batch is taken by the ticker and its only sink fails.\<close>

definition sample_history :: "string blabel list" where
  "sample_history = [Did_Enqueue [''abc'', ''de''] True, Internal, Internal, Did_Sink ''tidb'' False,
     Did_Flush [''abc'', ''de''] [False]]"

lemma sample_run: "\<exists>s. reachable (\<lambda>e. int (length e)) (new_system sample_batcher_config [''tidb'']) sample_history s"
proof -
  let ?R = "reachable (\<lambda>e. int (length e)) (new_system sample_batcher_config [''tidb''] :: (string, string) bsystem)"
  let ?b1 = "(sys_batcher sample_state)\<lparr>bt_started := True\<rparr>"
  let ?b2 = "?b1\<lparr>bt_queue := [], bt_pending_bytes := 0\<rparr>"
  let ?batch = "[''abc'', ''de'']"
  let ?s1 = "sample_state\<lparr>sys_batcher := ?b1, sys_pc := Selecting\<rparr>"
  let ?s2 = "?s1\<lparr>sys_batcher := ?b2, sys_pc := Writing From_Tick ?batch []\<rparr>"
  have s: "start (sys_batcher sample_state) = (?b1, True)"
    by (simp add: start_def sample_state_def new_batcher_def enqueue_locked_def Let_def new_system_def
        sample_batcher_config_def default_config_def)
  have t: "take_batch (sys_batcher ?s1) = (?b2, ?batch)"
    by (simp add: take_batch_def sample_state_def new_batcher_def enqueue_locked_def Let_def new_system_def
        sample_batcher_config_def default_config_def)
  have n: "bt_sinks ?b2 = [''tidb'']"
    by (simp add: sample_state_def new_batcher_def enqueue_locked_def Let_def new_system_def
        sample_batcher_config_def default_config_def)
  have r1: "?R [Did_Enqueue ?batch True, Internal] ?s1"
    using reachable.further [OF sample_reachable bstep.start_step [OF s]] by simp
  have r2: "?R [Did_Enqueue ?batch True, Internal, Internal] ?s2"
    using reachable.further [OF r1 bstep.tick_step [OF _ t]] by simp
  have pc: "sys_pc ?s2 = Writing From_Tick ?batch []" by simp
  let ?s3 = "?s2\<lparr>sys_batcher := (sys_batcher ?s2)\<lparr>bt_metrics :=
      record_sink_result ''tidb'' False (bt_metrics (sys_batcher ?s2))\<rparr>,
    sys_pc := Writing From_Tick ?batch ([] @ [False])\<rparr>"
  have "bstep (\<lambda>e. int (length e)) ?s2 (Did_Sink ''tidb'' False) ?s3"
    by (rule bstep.sink_step [OF pc]) (use n in simp_all)
  from reachable.further [OF r2 this]
  have r3: "?R [Did_Enqueue ?batch True, Internal, Internal, Did_Sink ''tidb'' False] ?s3" by simp
  have "bstep (\<lambda>e. int (length e)) ?s3 (Did_Flush ?batch [False])
      (?s3\<lparr>sys_batcher := count_flushed (length ?batch) (sys_batcher ?s3), sys_pc := resume From_Tick\<rparr>)"
    by (rule bstep.flush_step) (use n in simp_all)
  from reachable.further [OF r3 this] show ?thesis
    unfolding sample_history_def by auto
qed

theorem batcher_no_loss_witness:
  "\<exists>s. reachable (\<lambda>e. int (length e)) (new_system sample_batcher_config [''tidb'']) sample_history s
     \<and> queued_events s = [] \<and> flushed_events (bt_metrics (sys_batcher s)) = 2
     \<and> tidb_successes (bt_metrics (sys_batcher s)) = 0 \<and> tidb_failures (bt_metrics (sys_batcher s)) = 1"
proof -
  obtain s :: "(string, string) bsystem" where r: "reachable (\<lambda>e. int (length e))
      (new_system sample_batcher_config [''tidb'']) sample_history s" using sample_run by blast
  show ?thesis using batcher_no_loss [OF r sample_batcher_config_ok] r
    by (intro exI [of _ s]) (simp add: sample_history_def)
qed

text \<open>C34: No wake-up is lost: whenever a flush threshold is reached, a wake-up token or a caller
  about to send one exists, or the flush loop is in its threshold loop or draining.\<close>

theorem batcher_no_lost_wakeup:
  assumes "reachable est (new_system c sinks) h s" "config_ok c" "\<And>e. 0 \<le> est e"
    and "threshold_reached (sys_batcher s)"
  shows "awake s \<or> draining (sys_pc s)"
  using reachable_wake [OF assms(1-3)] assms(4) by (simp add: wake_inv_def)

theorem batcher_no_lost_wakeup_witness:
  "threshold_reached (sys_batcher sample_state) \<and> (awake sample_state \<or> draining (sys_pc sample_state))"
  using batcher_no_lost_wakeup [OF sample_reachable sample_batcher_config_ok _ sample_state_view(2)]
    sample_state_view(2) by simp

text \<open>A batch is the longest non-empty prefix of the queue within the two flush limits; only a
  single event may exceed the byte limit.\<close>

theorem take_batch_longest_prefix:
  assumes "batcher_inv b" "bt_queue b \<noteq> []" "take_batch b = (b', batch)"
  shows "\<exists>k. 0 < k \<and> batch = map fst (take k (bt_queue b)) \<and> bt_queue b' = drop k (bt_queue b)
     \<and> int k \<le> flush_max_events (bt_config b)
     \<and> (k = 1 \<or> sum_list (map snd (take k (bt_queue b))) \<le> flush_max_bytes (bt_config b))
     \<and> (k < length (bt_queue b) \<longrightarrow> int k = flush_max_events (bt_config b)
          \<or> sum_list (map snd (take (Suc k) (bt_queue b))) > flush_max_bytes (bt_config b))"
proof -
  let ?q = "bt_queue b" and ?me = "flush_max_events (bt_config b)" and ?mb = "flush_max_bytes (bt_config b)"
  obtain k where b': "bt_queue b' = drop k ?q" and batch: "batch = map fst (take k ?q)"
    and t: "take_count ?me ?mb 0 0 ?q = (k, sum_list (map snd (take k ?q)))"
    by (rule take_batch_parts [OF assms(3)]) (use assms(2) in auto)
  have me: "0 < ?me" using assms(1) by (simp add: batcher_inv_def)
  have "0 < k" using take_count_pos [OF me assms(2), of ?mb 0] t by simp
  moreover have ek: "int k \<le> ?me" using take_count_events [OF t] me by auto
  moreover have "k = 1 \<or> sum_list (map snd (take k ?q)) \<le> ?mb"
  proof -
    obtain e n q where q: "?q = (e, n) # q" using assms(2) by (cases "?q") auto
    obtain k' t' where r: "take_count ?me ?mb 1 n q = (k', t')" by fastforce
    have "k = Suc k'" "t' = sum_list (map snd (take k ?q))" using t q r me by simp_all
    then show ?thesis using take_count_bytes [OF r] by auto
  qed
  moreover have "k < length ?q \<longrightarrow> int k = ?me \<or> sum_list (map snd (take (Suc k) ?q)) > ?mb"
    using take_count_maximal [OF t] ek by (auto simp: take_Suc_conv_app_nth)
  ultimately show ?thesis using b' batch by blast
qed

theorem take_batch_longest_prefix_witness:
  "\<exists>k. 0 < k \<and> snd (take_batch (sys_batcher sample_state)) = take k [''abc'', ''de'']"
proof -
  have "batcher_inv (sys_batcher sample_state)"
    using reachable_inv [OF sample_reachable sample_batcher_config_ok] by simp
  moreover have "bt_queue (sys_batcher sample_state) \<noteq> []"
    using sample_state_view(1) by (auto simp: queued_events_def)
  ultimately show ?thesis
    using take_batch_longest_prefix [of "sys_batcher sample_state" "fst (take_batch (sys_batcher sample_state))"
        "snd (take_batch (sys_batcher sample_state))"] sample_state_view(1)
    by (auto simp: queued_events_def simp flip: take_map)
qed

text \<open>The threshold loop ends, below both thresholds, with every event flushed or still queued.\<close>

theorem wake_loop_terminates:
  assumes "batcher_inv b"
  shows "\<exists>b'. wake_loop ok 0 b = Some b' \<and> batcher_inv b' \<and> \<not> threshold_reached b'
     \<and> flushed_events (bt_metrics b') + pending b' = flushed_events (bt_metrics b) + pending b"
  using wake_loop_ends [OF assms] .

theorem wake_loop_terminates_witness:
  "\<exists>b'. wake_loop (\<lambda>_ _. True) 0 (sys_batcher sample_state) = Some b' \<and> \<not> threshold_reached b'"
  using wake_loop_terminates reachable_inv [OF sample_reachable sample_batcher_config_ok] by blast

text \<open>Shutdown terminates with an empty queue after at most one round per event, every event
  flushed or counted as dropped, and drops none when the deadline does not pass.\<close>

theorem flush_all_terminates:
  assumes "batcher_inv b"
  shows "\<exists>b'. flush_all ok expired b = Some b' \<and> bt_queue b' = [] \<and> bt_pending_bytes b' = 0
     \<and> flushed_events (bt_metrics b') + dropped_events (bt_metrics b')
         = flushed_events (bt_metrics b) + dropped_events (bt_metrics b) + pending b
     \<and> ((\<forall>n \<le> pending b. \<not> expired n) \<longrightarrow> dropped_events (bt_metrics b') = dropped_events (bt_metrics b))"
proof -
  obtain b1 n where r: "drain_loop ok expired 0 b = Some b1" "batcher_inv b1"
    "pending b1 = 0 \<or> expired n" "n \<le> pending b"
    "flushed_events (bt_metrics b1) + pending b1 = flushed_events (bt_metrics b) + pending b"
    "dropped_events (bt_metrics b1) = dropped_events (bt_metrics b)"
    using drain_loop_ends [OF assms, of ok expired 0] by auto
  then have "flush_all ok expired b = Some (end_drain b1)" by (simp add: flush_all_def)
  moreover have "(\<forall>n \<le> pending b. \<not> expired n) \<longrightarrow> pending b1 = 0" using r(3,4) by blast
  ultimately show ?thesis using r by (auto simp: pending_def)
qed

theorem flush_all_terminates_witness:
  "\<exists>b'. flush_all (\<lambda>_ _. False) (\<lambda>_. False) (sys_batcher sample_state) = Some b' \<and> bt_queue b' = []
     \<and> dropped_events (bt_metrics b') = dropped_events (bt_metrics (sys_batcher sample_state))"
  using flush_all_terminates [of "sys_batcher sample_state" "\<lambda>_ _. False" "\<lambda>_. False"]
    reachable_inv [OF sample_reachable sample_batcher_config_ok] by auto

end
