(* ===== verification/Event_Validation.thy ===== *)
theory Event_Validation
  imports Telemetry_Config
begin

text \<open>
  Validation of telemetry events (\<open>internal/telemetrybackend/event.go\<close>).  The JSON reader
  and writer of \<open>encoding/json\<close> and the RFC 3339 parser of \<open>time\<close> are arguments: \<open>decode\<close> the
  strict decoding of a request, \<open>parse\<close> the untyped value of a text, \<open>encode\<close> its printing,
  \<open>time_of\<close> the instant of a time stamp.  The regular expressions are written as predicates.
\<close>

section \<open>Data\<close>

datatype json =
    J_Null | J_Bool bool | J_Num string | J_Str string
  | J_Arr "json list" | J_Obj "(string \<times> json) list"

record event =
  ev_id :: string
  ev_name :: string
  ev_occurred_at :: int
  ev_received_at :: int
  ev_installation_id :: string
  ev_command_path :: string
  ev_flag_names :: "string list"
  ev_exit_code :: int
  ev_error_code :: string
  ev_duration_ms :: int
  ev_cloud_provider :: string
  ev_region_code :: string
  ev_cli_version :: string
  ev_os :: string
  ev_arch :: string
  ev_install_source :: string
  ev_profile_source :: string
  ev_tag :: string
  ev_extra :: "string option"
  ev_schema_version :: int

record wire_event =
  w_id :: string
  w_name :: string
  w_occurred_at :: string
  w_installation_id :: string
  w_command_path :: string
  w_flag_names :: "string list option"
  w_exit_code :: "int option"
  w_error_code :: string
  w_duration_ms :: "int option"
  w_cloud_provider :: string
  w_region_code :: string
  w_cli_version :: string
  w_os :: string
  w_arch :: string
  w_install_source :: string
  w_profile_source :: string
  w_tag :: "string option"
  w_extra :: "string option"

record batch_request =
  br_schema_version :: int
  br_sent_at :: string
  br_events :: "wire_event list"

text \<open>The outcome of the two calls of \<open>Decode\<close>: an error, more input after the value, or the value.\<close>

datatype 'a decoded = Decode_Error | Trailing_Input | Decoded 'a

section \<open>Tables and patterns\<close>

definition disallowed_field_names :: "string list" where
  "disallowed_field_names =
     [''api_payload'', ''branch_id'', ''cluster_id'', ''command_output'', ''credential'', ''credentials'',
      ''file_content'', ''file_path'', ''flag_value'', ''flag_values'', ''hostname'', ''ip_address'',
      ''journal_id'', ''layer_id'', ''machine_id'', ''mac_address'', ''password'', ''path'', ''profile_name'',
      ''project_id'', ''raw_error'', ''request_body'', ''response_body'', ''resource_id'', ''sql'', ''sql_text'',
      ''secret'', ''tenant_id'', ''token'', ''username'']"

definition allowed_regions :: "string list" where
  "allowed_regions =
     [[], ''unknown'', ''aws-us-east-1'', ''aws-us-west-2'', ''aws-eu-central-1'', ''aws-ap-northeast-1'',
      ''aws-ap-southeast-1'', ''ali-ap-southeast-1'', ''alicloud-ap-southeast-1'', ''gcp-us-east1'',
      ''azure-centralus'']"

definition allowed_operating_systems :: "string list" where
  "allowed_operating_systems =
     [''aix'', ''android'', ''darwin'', ''dragonfly'', ''freebsd'', ''illumos'', ''ios'', ''js'', ''linux'', ''netbsd'',
      ''openbsd'', ''plan9'', ''solaris'', ''wasip1'', ''windows'']"

definition allowed_architectures :: "string list" where
  "allowed_architectures =
     [''386'', ''amd64'', ''arm'', ''arm64'', ''loong64'', ''mips'', ''mips64'', ''mips64le'', ''mipsle'', ''ppc64'',
      ''ppc64le'', ''riscv64'', ''s390x'', ''wasm'']"

text \<open>\<open>in_class extra c\<close> is a bracket expression with the letters and digits and \<open>extra\<close>.\<close>

definition in_class :: "string \<Rightarrow> char \<Rightarrow> bool" where
  "in_class extra c \<longleftrightarrow> is_alnum c \<or> c \<in> set extra"

definition repeated :: "(char \<Rightarrow> bool) \<Rightarrow> nat \<Rightarrow> nat \<Rightarrow> string \<Rightarrow> bool" where
  "repeated P lo hi s \<longleftrightarrow> lo \<le> length s \<and> length s \<le> hi \<and> list_all P s"

definition event_id_pattern :: "string \<Rightarrow> bool" where
  "event_id_pattern s \<longleftrightarrow> repeated (in_class ''_-'') 16 64 s"

definition installation_id_pattern :: "string \<Rightarrow> bool" where
  "installation_id_pattern s \<longleftrightarrow>
     (case cut_prefix s ''ti_'' of Some r \<Rightarrow> repeated (in_class ''_-'') 16 96 r | None \<Rightarrow> False)
   \<or> (case cut_prefix s ''tdc_'' of Some r \<Rightarrow> repeated (in_class ''_-'') 16 96 r | None \<Rightarrow> False)"

definition flag_name_pattern :: "string \<Rightarrow> bool" where
  "flag_name_pattern s \<longleftrightarrow>
     (case s of [] \<Rightarrow> False
      | c # r \<Rightarrow> is_lower c \<and> repeated (\<lambda>c. is_lower c \<or> is_digit c \<or> c = CHR ''-'') 0 63 r)"

text \<open>Words separated by single blanks: the program name and at most two names.\<close>

definition command_path_pattern :: "string \<Rightarrow> bool" where
  "command_path_pattern s \<longleftrightarrow>
     (case split_on (CHR '' '') s of
        [] \<Rightarrow> False
      | w # ws \<Rightarrow> (w = ''ti'' \<or> w = ''tdc'') \<and> length ws \<le> 2 \<and> list_all flag_name_pattern ws)"

definition error_code_pattern :: "string \<Rightarrow> bool" where
  "error_code_pattern s \<longleftrightarrow> repeated (in_class ''._-'') 0 64 s"

definition cli_version_pattern :: "string \<Rightarrow> bool" where
  "cli_version_pattern s \<longleftrightarrow>
     (case s of [] \<Rightarrow> False | c # r \<Rightarrow> is_alnum c \<and> repeated (in_class ''.+_-'') 0 63 r)"

section \<open>Operations\<close>

definition prohibited :: "string \<Rightarrow> bool" where
  "prohibited key \<longleftrightarrow> to_lower key \<in> set disallowed_field_names"

fun walk_for_disallowed_field :: "json \<Rightarrow> bool"
  and walk_fields :: "(string \<times> json) list \<Rightarrow> bool"
  and walk_elements :: "json list \<Rightarrow> bool" where
  "walk_for_disallowed_field (J_Obj fs) = walk_fields fs"
| "walk_for_disallowed_field (J_Arr vs) = walk_elements vs"
| "walk_for_disallowed_field _ = False"
| "walk_fields [] = False"
| "walk_fields ((k, v) # fs) = (prohibited k \<or> walk_for_disallowed_field v \<or> walk_fields fs)"
| "walk_elements [] = False"
| "walk_elements (v # vs) = (walk_for_disallowed_field v \<or> walk_elements vs)"

definition has_disallowed_field :: "(string \<Rightarrow> json option) \<Rightarrow> string \<Rightarrow> bool" where
  "has_disallowed_field parse body =
     (case parse body of None \<Rightarrow> False | Some v \<Rightarrow> walk_for_disallowed_field v)"

fun walk_for_invalid_extra :: "json \<Rightarrow> nat \<Rightarrow> bool"
  and invalid_fields :: "(string \<times> json) list \<Rightarrow> nat \<Rightarrow> bool"
  and invalid_elements :: "json list \<Rightarrow> nat \<Rightarrow> bool" where
  "walk_for_invalid_extra v depth =
     (if depth > 8 then True
      else case v of J_Obj fs \<Rightarrow> invalid_fields fs depth | J_Arr vs \<Rightarrow> invalid_elements vs depth | _ \<Rightarrow> False)"
| "invalid_fields [] depth = False"
| "invalid_fields ((k, v) # fs) depth =
     (prohibited k \<or> walk_for_invalid_extra v (depth + 1) \<or> invalid_fields fs depth)"
| "invalid_elements [] depth = False"
| "invalid_elements (v # vs) depth = (walk_for_invalid_extra v (depth + 1) \<or> invalid_elements vs depth)"

declare walk_for_invalid_extra.simps [simp del]

definition valid_string :: "string \<Rightarrow> nat \<Rightarrow> bool" where
  "valid_string s max_bytes \<longleftrightarrow> valid_utf8 s \<and> length s \<le> max_bytes"

definition invalid :: "string \<Rightarrow> go_error + 'a" where
  "invalid m = Inl (Msg (Lit m))"

definition validate_extra ::
  "(string \<Rightarrow> json decoded) \<Rightarrow> (json \<Rightarrow> string option) \<Rightarrow> string option \<Rightarrow> go_error + string option" where
  "validate_extra decode_any encode raw =
     (case raw of None \<Rightarrow> Inr None
      | Some text \<Rightarrow>
        (case decode_any text of
           Decode_Error \<Rightarrow> invalid ''invalid extra''
         | Trailing_Input \<Rightarrow> invalid ''invalid extra''
         | Decoded v \<Rightarrow>
             if walk_for_invalid_extra v 0 then invalid ''invalid extra''
             else case encode v of
               None \<Rightarrow> invalid ''invalid extra''
             | Some out \<Rightarrow> if length out > 2048 then invalid ''invalid extra'' else Inr (Some out)))"

definition validate_metadata ::
  "(string \<Rightarrow> json decoded) \<Rightarrow> (json \<Rightarrow> string option) \<Rightarrow> wire_event \<Rightarrow> int \<Rightarrow>
   go_error + (string \<times> string option)" where
  "validate_metadata decode_any encode raw schema_version =
     (if schema_version = 1 then
        (if w_tag raw \<noteq> None \<or> w_extra raw \<noteq> None
         then invalid ''metadata requires schema version 2'' else Inr ([], None))
      else
        let tag = (case w_tag raw of None \<Rightarrow> [] | Some t \<Rightarrow> t) in
        if w_tag raw \<noteq> None \<and> \<not> valid_string tag 128 then invalid ''invalid tag''
        else bind_result (validate_extra decode_any encode (w_extra raw)) (\<lambda>extra. Inr (tag, extra)))"

definition validate_event ::
  "(string \<Rightarrow> int option) \<Rightarrow> (string \<Rightarrow> json decoded) \<Rightarrow> (json \<Rightarrow> string option) \<Rightarrow>
   wire_event \<Rightarrow> int \<Rightarrow> int \<Rightarrow> go_error + event" where
  "validate_event time_of decode_any encode raw schema_version received_at =
     (if \<not> event_id_pattern (w_id raw) then invalid ''invalid event_id''
      else if w_name raw \<noteq> ''ti.command.finished'' \<and> w_name raw \<noteq> ''tdc.command.finished''
      then invalid ''invalid event_name''
      else case time_of (w_occurred_at raw) of
        None \<Rightarrow> invalid ''invalid occurred_at''
      | Some occurred_at \<Rightarrow>
      if \<not> installation_id_pattern (w_installation_id raw) then invalid ''invalid anonymous_installation_id''
      else if \<not> valid_string (w_command_path raw) 128 \<or> \<not> command_path_pattern (w_command_path raw)
      then invalid ''invalid command_path''
      else case w_flag_names raw of
        None \<Rightarrow> invalid ''invalid flag_names''
      | Some flags \<Rightarrow>
      if length flags > 64 then invalid ''invalid flag_names''
      else if \<not> list_all flag_name_pattern flags then invalid ''invalid flag_names''
      else case w_exit_code raw of
        None \<Rightarrow> invalid ''invalid exit_code''
      | Some exit_code \<Rightarrow>
      if exit_code < 0 \<or> exit_code > 255 then invalid ''invalid exit_code''
      else if \<not> error_code_pattern (w_error_code raw) then invalid ''invalid error_code''
      else case w_duration_ms raw of
        None \<Rightarrow> invalid ''invalid duration_ms''
      | Some duration \<Rightarrow>
      if duration < 0 \<or> duration > 86400000 then invalid ''invalid duration_ms''
      else if w_cloud_provider raw \<notin> set [[], ''aws'', ''alibaba_cloud'', ''gcp'', ''azure'', ''unknown'']
      then invalid ''invalid cloud_provider''
      else if w_region_code raw \<notin> set allowed_regions then invalid ''invalid region_code''
      else if \<not> cli_version_pattern (w_cli_version raw) then invalid ''invalid cli_version''
      else if w_os raw \<notin> set allowed_operating_systems then invalid ''invalid os''
      else if w_arch raw \<notin> set allowed_architectures then invalid ''invalid runtime metadata''
      else if w_install_source raw \<notin>
        set [[], ''github-release'', ''homebrew'', ''scoop'', ''source'', ''dev'', ''unknown'']
      then invalid ''invalid install_source''
      else if w_profile_source raw \<notin> set [[], ''default'', ''explicit'', ''env'', ''unknown'']
      then invalid ''invalid profile_source''
      else bind_result (validate_metadata decode_any encode raw schema_version) (\<lambda>(tag, extra).
        Inr \<lparr>ev_id = w_id raw, ev_name = w_name raw, ev_occurred_at = occurred_at,
             ev_received_at = received_at, ev_installation_id = w_installation_id raw,
             ev_command_path = w_command_path raw, ev_flag_names = flags, ev_exit_code = exit_code,
             ev_error_code = w_error_code raw, ev_duration_ms = duration,
             ev_cloud_provider = w_cloud_provider raw, ev_region_code = w_region_code raw,
             ev_cli_version = w_cli_version raw, ev_os = w_os raw, ev_arch = w_arch raw,
             ev_install_source = w_install_source raw, ev_profile_source = w_profile_source raw,
             ev_tag = tag, ev_extra = extra, ev_schema_version = schema_version\<rparr>))"

fun validate_events :: "(wire_event \<Rightarrow> go_error + event) \<Rightarrow> wire_event list \<Rightarrow> go_error + event list" where
  "validate_events check [] = Inr []"
| "validate_events check (raw # raws) =
     bind_result (check raw) (\<lambda>e. bind_result (validate_events check raws) (\<lambda>es. Inr (e # es)))"

definition decode_and_validate_batch ::
  "(string \<Rightarrow> json option) \<Rightarrow> (string \<Rightarrow> batch_request decoded) \<Rightarrow> (string \<Rightarrow> int option) \<Rightarrow>
   (string \<Rightarrow> json decoded) \<Rightarrow> (json \<Rightarrow> string option) \<Rightarrow>
   string \<Rightarrow> int \<Rightarrow> int \<Rightarrow> go_error + event list" where
  "decode_and_validate_batch parse decode time_of decode_any encode body max_events received_at =
     (if has_disallowed_field parse body then invalid ''request contains a prohibited field''
      else case decode body of
        Decode_Error \<Rightarrow> invalid ''invalid JSON schema''
      | Trailing_Input \<Rightarrow> invalid ''multiple JSON values''
      | Decoded r \<Rightarrow>
          if br_schema_version r \<noteq> 1 \<and> br_schema_version r \<noteq> 2 then invalid ''unsupported schema version''
          else if time_of (br_sent_at r) = None then invalid ''invalid sent_at''
          else if br_events r = [] \<or> int (length (br_events r)) > max_events then invalid ''invalid event count''
          else validate_events
            (\<lambda>raw. validate_event time_of decode_any encode raw (br_schema_version r) received_at) (br_events r))"

section \<open>What the walks decide\<close>

fun json_keys :: "json \<Rightarrow> string list" where
  "json_keys (J_Obj fs) = concat (map (\<lambda>(k, v). k # json_keys v) fs)"
| "json_keys (J_Arr vs) = concat (map json_keys vs)"
| "json_keys _ = []"

text \<open>The number of containers around the innermost value.\<close>

fun json_height :: "json \<Rightarrow> nat" where
  "json_height (J_Obj fs) = foldr max (map (\<lambda>(k, v). Suc (json_height v)) fs) 0"
| "json_height (J_Arr vs) = foldr max (map (\<lambda>v. Suc (json_height v)) vs) 0"
| "json_height _ = 0"

lemma walk_disallowed_iff:
  "walk_for_disallowed_field v \<longleftrightarrow> list_ex prohibited (json_keys v)"
  "walk_fields fs \<longleftrightarrow> list_ex prohibited (json_keys (J_Obj fs))"
  "walk_elements vs \<longleftrightarrow> list_ex prohibited (json_keys (J_Arr vs))"
  by (induction v and fs and vs rule: walk_for_disallowed_field_walk_fields_walk_elements.induct) auto

lemma walk_invalid_iff:
  "walk_for_invalid_extra v d \<longleftrightarrow> d + json_height v > 8 \<or> list_ex prohibited (json_keys v)"
  "d \<le> 8 \<Longrightarrow> invalid_fields fs d \<longleftrightarrow> d + json_height (J_Obj fs) > 8 \<or> list_ex prohibited (json_keys (J_Obj fs))"
  "d \<le> 8 \<Longrightarrow> invalid_elements vs d \<longleftrightarrow> d + json_height (J_Arr vs) > 8 \<or> list_ex prohibited (json_keys (J_Arr vs))"
proof (induction v d and fs d and vs d
    rule: walk_for_invalid_extra_invalid_fields_invalid_elements.induct)
  case (1 v depth)
  then show ?case by (cases v) (auto simp: walk_for_invalid_extra.simps)
next
  case (3 k v fs depth)
  then show ?case by (auto simp: max_def)
next
  case (5 v vs depth)
  then show ?case by (auto simp: max_def)
qed auto

section \<open>What is accepted\<close>

definition metadata_ok :: "event \<Rightarrow> bool" where
  "metadata_ok e \<longleftrightarrow> length (ev_tag e) \<le> 128 \<and> valid_utf8 (ev_tag e)
     \<and> (case ev_extra e of None \<Rightarrow> True | Some x \<Rightarrow> length x \<le> 2048)
     \<and> (ev_schema_version e = 1 \<longrightarrow> ev_tag e = [] \<and> ev_extra e = None)"

definition event_ok :: "event \<Rightarrow> bool" where
  "event_ok e \<longleftrightarrow> event_id_pattern (ev_id e) \<and> installation_id_pattern (ev_installation_id e)
     \<and> command_path_pattern (ev_command_path e) \<and> length (ev_command_path e) \<le> 128
     \<and> length (ev_flag_names e) \<le> 64 \<and> list_all flag_name_pattern (ev_flag_names e)
     \<and> 0 \<le> ev_exit_code e \<and> ev_exit_code e \<le> 255 \<and> error_code_pattern (ev_error_code e)
     \<and> 0 \<le> ev_duration_ms e \<and> ev_duration_ms e \<le> 86400000
     \<and> (ev_name e = ''ti.command.finished'' \<or> ev_name e = ''tdc.command.finished'')
     \<and> ev_cloud_provider e \<in> set [[], ''aws'', ''alibaba_cloud'', ''gcp'', ''azure'', ''unknown'']
     \<and> ev_install_source e \<in> set [[], ''github-release'', ''homebrew'', ''scoop'', ''source'', ''dev'', ''unknown'']
     \<and> ev_profile_source e \<in> set [[], ''default'', ''explicit'', ''env'', ''unknown'']
     \<and> ev_region_code e \<in> set allowed_regions \<and> cli_version_pattern (ev_cli_version e)
     \<and> ev_os e \<in> set allowed_operating_systems \<and> ev_arch e \<in> set allowed_architectures
     \<and> metadata_ok e"

lemma invalid_neq [simp]: "invalid m \<noteq> Inr x" "Inr x \<noteq> invalid m"
  by (simp_all add: invalid_def)

lemma validate_extra_Inr:
  "validate_extra decode_any encode raw = Inr x \<Longrightarrow>
     (raw = None \<and> x = None) \<or>
     (\<exists>text v out. raw = Some text \<and> decode_any text = Decoded v \<and> encode v = Some out \<and> x = Some out
        \<and> length out \<le> 2048 \<and> json_height v \<le> 8 \<and> \<not> list_ex prohibited (json_keys v))"
  by (auto simp: validate_extra_def walk_invalid_iff(1) split: option.splits decoded.splits if_splits)

lemma valid_utf8_Nil: "valid_utf8 []"
  by (subst valid_utf8.simps) simp

lemma validate_metadata_Inr:
  "validate_metadata decode_any encode raw version = Inr (t, x) \<Longrightarrow>
     length t \<le> 128 \<and> valid_utf8 t \<and> (case x of None \<Rightarrow> True | Some y \<Rightarrow> length y \<le> 2048)
   \<and> (version = 1 \<longrightarrow> t = [] \<and> x = None)"
  by (auto simp: validate_metadata_def valid_string_def valid_utf8_Nil dest!: validate_extra_Inr
      split: if_splits option.splits)

lemma guard_Inr:
  "(if b then invalid m else r) = Inr x \<longleftrightarrow> \<not> b \<and> r = Inr x"
  "(case opt of None \<Rightarrow> invalid m | Some y \<Rightarrow> f y) = Inr x \<longleftrightarrow> (\<exists>y. opt = Some y \<and> f y = Inr x)"
  by (auto split: option.splits)

lemma validate_event_ok:
  assumes "validate_event time_of decode_any encode raw version now = Inr e"
  shows "event_ok e \<and> ev_schema_version e = version \<and> ev_id e = w_id raw \<and> ev_received_at e = now"
proof -
  note a = assms [unfolded validate_event_def guard_Inr bind_result_eq_Inr]
  obtain t x where m: "validate_metadata decode_any encode raw version = Inr (t, x)"
    and v: "ev_tag e = t" "ev_extra e = x" "ev_schema_version e = version" "ev_id e = w_id raw" "ev_received_at e = now"
    using a by (elim exE conjE) (auto simp del: list.set)
  then have "metadata_ok e" using validate_metadata_Inr [OF m] by (auto simp: metadata_ok_def)
  then have "event_ok e"
    unfolding event_ok_def valid_string_def using a
    by (elim exE conjE) (auto simp: valid_string_def simp del: list.set split: prod.splits)
  then show ?thesis using v by simp
qed

lemma validate_events_Inr:
  "validate_events check raws = Inr es \<Longrightarrow>
   length es = length raws \<and> (\<forall>i < length raws. check (raws ! i) = Inr (es ! i))"
  by (induction raws arbitrary: es) (auto simp: less_Suc_eq_0_disj)

text \<open>The strings of an accepted event are short.\<close>

lemma cut_prefix_length: "cut_prefix s p = Some r \<Longrightarrow> length s = length p + length r"
  by (auto simp: cut_prefix_def has_prefix_iff split: if_splits)

lemma pattern_lengths:
  "event_id_pattern s \<Longrightarrow> length s \<le> 64"
  "installation_id_pattern s \<Longrightarrow> length s \<le> 100"
  "flag_name_pattern s \<Longrightarrow> length s \<le> 64"
  "error_code_pattern s \<Longrightarrow> length s \<le> 64"
  "cli_version_pattern s \<Longrightarrow> length s \<le> 64"
  by (auto simp: event_id_pattern_def installation_id_pattern_def flag_name_pattern_def error_code_pattern_def
      cli_version_pattern_def repeated_def split: option.splits list.splits dest!: cut_prefix_length)

definition event_short :: "event \<Rightarrow> bool" where
  "event_short e \<longleftrightarrow> length (ev_id e) \<le> 64 \<and> length (ev_installation_id e) \<le> 100
     \<and> length (ev_command_path e) \<le> 128 \<and> length (ev_error_code e) \<le> 64 \<and> length (ev_cli_version e) \<le> 64
     \<and> length (concat (ev_flag_names e)) \<le> 4096 \<and> length (ev_tag e) \<le> 128
     \<and> length (case ev_extra e of None \<Rightarrow> [] | Some x \<Rightarrow> x) \<le> 2048"

lemma length_concat_bound: "list_all (\<lambda>x. length x \<le> n) xs \<Longrightarrow> length (concat xs) \<le> length xs * n"
  by (induction xs) auto

lemma event_ok_short: "event_ok e \<Longrightarrow> event_short e"
proof -
  assume e: "event_ok e"
  then have "list_all (\<lambda>x. length x \<le> 64) (ev_flag_names e)"
    by (auto simp: event_ok_def list_all_iff pattern_lengths)
  then have "length (concat (ev_flag_names e)) \<le> length (ev_flag_names e) * 64"
    by (rule length_concat_bound)
  then show ?thesis
    using e by (auto simp: event_short_def event_ok_def metadata_ok_def pattern_lengths split: option.splits)
qed

lemma batch_accepted:
  assumes "decode_and_validate_batch parse decode time_of decode_any encode body max_events now = Inr es"
  shows "es \<noteq> [] \<and> int (length es) \<le> max_events
     \<and> (\<exists>r. decode body = Decoded r \<and> br_schema_version r \<in> {1, 2} \<and> map ev_id es = map w_id (br_events r)
          \<and> (\<forall>e \<in> set es. event_ok e \<and> ev_schema_version e = br_schema_version r \<and> ev_received_at e = now))
     \<and> (\<forall>v. parse body = Some v \<longrightarrow> \<not> list_ex prohibited (json_keys v))"
proof -
  obtain r where r: "decode body = Decoded r" "br_events r \<noteq> []" "int (length (br_events r)) \<le> max_events"
    "br_schema_version r \<in> {1, 2}"
    and v: "validate_events (\<lambda>raw. validate_event time_of decode_any encode raw (br_schema_version r) now) (br_events r) = Inr es"
    and d: "\<not> has_disallowed_field parse body"
    using assms by (auto simp: decode_and_validate_batch_def split: if_splits decoded.splits)
  have l: "length es = length (br_events r)" and c: "\<And>i. i < length es \<Longrightarrow>
      validate_event time_of decode_any encode (br_events r ! i) (br_schema_version r) now = Inr (es ! i)"
    using validate_events_Inr [OF v] by auto
  have "map ev_id es = map w_id (br_events r)"
  proof (rule nth_equalityI)
    show "map ev_id es ! i = map w_id (br_events r) ! i" if "i < length (map ev_id es)" for i
      using that l validate_event_ok [OF c [of i]] by simp
  qed (simp add: l)
  moreover have "event_ok e \<and> ev_schema_version e = br_schema_version r \<and> ev_received_at e = now" if "e \<in> set es" for e
    using that c validate_event_ok by (metis in_set_conv_nth)
  moreover have "es \<noteq> []" using l r(2) by auto
  moreover have "\<forall>v. parse body = Some v \<longrightarrow> \<not> list_ex prohibited (json_keys v)"
    using d by (auto simp: has_disallowed_field_def walk_disallowed_iff(1))
  ultimately show ?thesis using l r by auto
qed

section \<open>Properties\<close>

definition sample_wire :: wire_event where
  "sample_wire = \<lparr>w_id = ''0123456789abcdef'', w_name = ''ti.command.finished'', w_occurred_at = ''t'',
     w_installation_id = ''ti_0123456789abcdef'', w_command_path = ''ti fs mount'', w_flag_names = Some [''profile''],
     w_exit_code = Some 0, w_error_code = [], w_duration_ms = Some 12, w_cloud_provider = ''aws'',
     w_region_code = ''aws-us-east-1'', w_cli_version = ''1.2.3'', w_os = ''linux'', w_arch = ''arm64'',
     w_install_source = ''source'', w_profile_source = ''default'', w_tag = Some ''t'', w_extra = Some ''{}''\<rparr>"

definition sample_decode_batch :: "go_error + event list" where
  "sample_decode_batch = decode_and_validate_batch (\<lambda>_. Some (J_Obj [(''events'', J_Arr [])]))
     (\<lambda>_. Decoded \<lparr>br_schema_version = 2, br_sent_at = ''t'', br_events = [sample_wire]\<rparr>)
     (\<lambda>_. Some 5) (\<lambda>_. Decoded (J_Obj [])) (\<lambda>_. Some ''{}'') ''body'' 20 7"

lemma sample_batch_accepted: "\<exists>e. sample_decode_batch = Inr [e] \<and> ev_tag e = ''t''"
proof -
  have "(case sample_decode_batch of Inr [e] \<Rightarrow> ev_tag e = ''t'' | _ \<Rightarrow> False)"
    by code_simp
  then show ?thesis by (auto split: sum.splits list.splits)
qed



text \<open>The check of free-form metadata rejects exactly the values nested more than eight
  containers deep or with a prohibited key at any level.\<close>

theorem invalid_extra_characterised:
  "walk_for_invalid_extra v 0 = (8 < json_height v \<or> list_ex prohibited (json_keys v))"
  by (simp add: walk_invalid_iff(1))

end
