(* ===== verification/Telemetry_Server.thy ===== *)
theory Telemetry_Server
  imports Rate_Limit Batcher Event_Validation
begin

text \<open>
  The HTTP handlers of the telemetry backend (\<open>internal/telemetrybackend/server.go\<close>) and the
  statement the database sink executes (\<open>tidb.go\<close>).  The state is the configuration, the
  batcher with the shared counters and the limiter; a handler maps it and a request to the
  next state and the response.  The functions of the standard library the handlers call are
  the fields of \<open>platform\<close>.
\<close>

section \<open>State, requests and responses\<close>

record ('a, 'p) platform =
  pf_parse :: "string \<Rightarrow> json option"
  pf_decode :: "string \<Rightarrow> batch_request decoded"
  pf_time_of :: "string \<Rightarrow> int option"
  pf_decode_any :: "string \<Rightarrow> json decoded"
  pf_encode :: "json \<Rightarrow> string option"
  pf_event_bytes :: "event \<Rightarrow> int"
  pf_media_type :: "string \<Rightarrow> string option"
  pf_parse_addr :: "string \<Rightarrow> 'a option"
  pf_split_host :: "string \<Rightarrow> string option"
  pf_show_addr :: "'a \<Rightarrow> string"
  pf_contains :: "'p \<Rightarrow> 'a \<Rightarrow> bool"

record 'p server =
  srv_config :: "'p telemetry_config"
  srv_batcher :: "(event, 'p) batcher"
  srv_limiter :: rate_limiter
  srv_has_tidb :: bool

definition new_server :: "'p telemetry_config \<Rightarrow> (event, 'p) batcher \<Rightarrow> bool \<Rightarrow> 'p server" where
  "new_server c b tidb = \<lparr>srv_config = c, srv_batcher = b,
     srv_limiter = new_ip_rate_limiter (rate_limit_per_minute c) (rate_limit_burst c), srv_has_tidb = tidb\<rparr>"

text \<open>A body is its bytes and the error its reader ends with, None for the end of the stream.\<close>

record http_request =
  rq_method :: string
  rq_content_type :: string
  rq_user_agent :: string
  rq_remote_addr :: string
  rq_forwarded_for :: string
  rq_body :: string
  rq_body_error :: "go_error option"

datatype payload =
    P_Error string string
  | P_Health bool
  | P_Ready bool
  | P_Accepted nat int
  | P_Metrics "nat list"

record http_response =
  rs_status :: int
  rs_allow :: "string option"
  rs_payload :: payload

definition respond :: "int \<Rightarrow> payload \<Rightarrow> http_response" where
  "respond status p = \<lparr>rs_status = status, rs_allow = None, rs_payload = p\<rparr>"

definition method_not_allowed :: "string \<Rightarrow> http_response" where
  "method_not_allowed allowed = \<lparr>rs_status = 405, rs_allow = Some allowed,
     rs_payload = P_Error ''method_not_allowed'' ''HTTP method is not allowed''\<rparr>"

section \<open>Handlers\<close>

definition valid_content_type :: "('a, 'p) platform \<Rightarrow> string \<Rightarrow> bool" where
  "valid_content_type pf raw = (pf_media_type pf raw = Some ''application/json'')"

definition valid_user_agent :: "string \<Rightarrow> bool" where
  "valid_user_agent v =
     (if has_prefix v ''ti/'' then
        length v > 3 \<and> length v \<le> 128 \<and> \<not> contains_any v [char_of (13::nat), char_of (10::nat), char_of (9::nat), CHR '' '']
      else if has_prefix v ''tdc/'' then
        length v > 4 \<and> length v \<le> 128 \<and> \<not> contains_any v [char_of (13::nat), char_of (10::nat), char_of (9::nat), CHR '' '']
      else False)"

text \<open>\<open>LimitReader(reader, maxBytes + 1)\<close>, where the addition can wrap, then the size test.\<close>

definition read_limited_body :: "string \<Rightarrow> go_error option \<Rightarrow> int \<Rightarrow> go_error + string" where
  "read_limited_body content err max_bytes =
     (let limit = wrap64 (max_bytes + 1) in
      let read_all = (if limit \<le> 0 then Inr []
                      else if int (length content) \<ge> limit then Inr (take (nat limit) content)
                      else case err of Some e \<Rightarrow> Inl e | None \<Rightarrow> Inr content) in
      bind_result read_all (\<lambda>body.
        if int (length body) > max_bytes then Inl (Sentinel Err_Body_Too_Large) else Inr body))"

definition update_metrics :: "(metrics \<Rightarrow> metrics) \<Rightarrow> 'p server \<Rightarrow> 'p server" where
  "update_metrics f s = s\<lparr>srv_batcher := (srv_batcher s)\<lparr>bt_metrics := f (bt_metrics (srv_batcher s))\<rparr>\<rparr>"

definition reject :: "int \<Rightarrow> string \<Rightarrow> string \<Rightarrow> 'p server \<Rightarrow> 'p server \<times> http_response" where
  "reject status code msg s =
     (update_metrics (\<lambda>m. let m1 = m\<lparr>rejected_requests := rejected_requests m + 1\<rparr> in
        if status = 429 then m1\<lparr>rate_limited := rate_limited m1 + 1\<rparr> else m1) s,
      respond status (P_Error code msg))"

definition request_ip :: "('a, 'p) platform \<Rightarrow> 'p server \<Rightarrow> http_request \<Rightarrow> string" where
  "request_ip pf s r = client_ip (pf_parse_addr pf) (pf_split_host pf) (pf_show_addr pf) (pf_contains pf)
     (rq_remote_addr r) (rq_forwarded_for r) (trusted_proxy_cidrs (srv_config s))"

text \<open>\<open>handleBatch\<close>, first the part behind the rate limit.\<close>

definition handle_admitted :: "('a, 'p) platform \<Rightarrow> int \<Rightarrow> 'p server \<Rightarrow> http_request \<Rightarrow> 'p server \<times> http_response" where
  "handle_admitted pf now s r =
     (case read_limited_body (rq_body r) (rq_body_error r) (max_body_bytes (srv_config s)) of
        Inl e \<Rightarrow>
          if errors_is e Err_Body_Too_Large
          then reject 413 ''request_too_large'' ''request body is too large'' s
          else reject 400 ''invalid_request'' ''request body is invalid'' s
      | Inr body \<Rightarrow>
          (case decode_and_validate_batch (pf_parse pf) (pf_decode pf) (pf_time_of pf) (pf_decode_any pf)
              (pf_encode pf) body (max_events_per_request (srv_config s)) now of
             Inl _ \<Rightarrow> reject 400 ''invalid_request'' ''schema validation failed'' s
           | Inr events \<Rightarrow>
               (case enqueue (pf_event_bytes pf) events (srv_batcher s) of (b, ok) \<Rightarrow>
                  let s2 = s\<lparr>srv_batcher := b\<rparr> in
                  if \<not> ok then reject 503 ''buffer_full'' ''telemetry buffer is full'' s2
                  else (s2, respond 202 (P_Accepted (length events) (ev_schema_version (hd events)))))))"

definition handle_batch :: "('a, 'p) platform \<Rightarrow> int \<Rightarrow> 'p server \<Rightarrow> http_request \<Rightarrow> 'p server \<times> http_response" where
  "handle_batch pf now s r =
     (if rq_method r \<noteq> ''POST'' then (s, method_not_allowed ''POST'')
      else if \<not> valid_content_type pf (rq_content_type r) \<or> \<not> valid_user_agent (rq_user_agent r) then
        reject 400 ''invalid_request'' ''request headers are invalid'' s
      else case rl_allow (srv_limiter s) now (request_ip pf s r) of (limiter, allowed) \<Rightarrow>
        let s1 = s\<lparr>srv_limiter := limiter\<rparr> in
        if \<not> allowed then reject 429 ''rate_limited'' ''request rate limit exceeded'' s1
        else handle_admitted pf now s1 r)"

definition handle_health :: "'p server \<Rightarrow> http_request \<Rightarrow> 'p server \<times> http_response" where
  "handle_health s r =
     (if rq_method r \<noteq> ''GET'' then (s, method_not_allowed ''GET'') else (s, respond 200 (P_Health True)))"

text \<open>\<open>ping\<close> is the result of the database check.\<close>

definition handle_ready :: "bool \<Rightarrow> 'p server \<Rightarrow> http_request \<Rightarrow> 'p server \<times> http_response" where
  "handle_ready ping s r =
     (if rq_method r \<noteq> ''GET'' then (s, method_not_allowed ''GET'')
      else let ready = (srv_has_tidb s \<and> ping) in
        (s, respond (if ready then 200 else 503) (P_Ready ready)))"

definition handle_metrics :: "'p server \<Rightarrow> http_request \<Rightarrow> 'p server \<times> http_response" where
  "handle_metrics s r =
     (if rq_method r \<noteq> ''GET'' then (s, method_not_allowed ''GET'')
      else let m = bt_metrics (srv_batcher s) in
        (s, respond 200 (P_Metrics
          [accepted_events m, rejected_requests m, rate_limited m, pending (srv_batcher s),
           dropped_events m, flushed_events m, tidb_successes m, tidb_failures m])))"

section \<open>The statement of the database sink\<close>

datatype sql_arg = Arg_Str string | Arg_Int int | Arg_Time int | Arg_Null

text \<open>\<open>show_flags\<close> is the JSON text of the flag names, which always encodes.\<close>

definition event_args :: "(string list \<Rightarrow> string) \<Rightarrow> event \<Rightarrow> sql_arg list" where
  "event_args show_flags e =
     [Arg_Str (ev_id e), Arg_Time (ev_received_at e), Arg_Time (ev_occurred_at e),
      Arg_Str (ev_installation_id e), Arg_Str (ev_name e), Arg_Str (ev_command_path e),
      Arg_Str (show_flags (ev_flag_names e)), Arg_Int (ev_exit_code e), Arg_Str (ev_error_code e),
      Arg_Int (ev_duration_ms e), Arg_Str (ev_cloud_provider e), Arg_Str (ev_region_code e),
      Arg_Str (ev_cli_version e), Arg_Str (ev_os e), Arg_Str (ev_arch e), Arg_Str (ev_install_source e),
      Arg_Str (ev_profile_source e), Arg_Str (ev_tag e),
      (case ev_extra e of None \<Rightarrow> Arg_Null | Some x \<Rightarrow> Arg_Str x), Arg_Int (ev_schema_version e)]"

definition placeholders :: string where
  "placeholders = ''(?, ?, ?, ?, ?, ?, ?, ?, ?, ?, ?, ?, ?, ?, ?, ?, ?, ?, ?, ?)''"

definition insert_columns :: string where
  "insert_columns = concat
     [''(event_id, received_at, occurred_at, anonymous_installation_id,'', [char_of (10::nat)],
      ''event_name, command_path, flag_names_json, exit_code, error_code, duration_ms,'', [char_of (10::nat)],
      ''cloud_provider, region_code, cli_version, os, arch, install_source,'', [char_of (10::nat)],
      ''profile_source, tag, extra_json, schema_version)'']"

text \<open>None when nothing is executed; otherwise the query and its arguments.\<close>

definition sink_statement :: "(string list \<Rightarrow> string) \<Rightarrow> event list \<Rightarrow> (string \<times> sql_arg list) option" where
  "sink_statement show_flags events =
     (if events = [] then None
      else Some (''INSERT IGNORE INTO telemetry_events '' @ insert_columns @ '' VALUES '' @
                   join_with '','' (map (\<lambda>_. placeholders) events),
                 concat (map (event_args show_flags) events)))"

section \<open>Lemmas\<close>

lemma length_event_args: "length (event_args f e) = 20"
  by (simp add: event_args_def)

lemma count_join: "count_list (join_with '','' (map (\<lambda>_. placeholders) es)) (CHR ''?'') = 20 * length es"
proof (induction es)
  case (Cons e es)
  then show ?case by (cases es) (simp_all add: join_with_Cons placeholders_def count_list_append)
qed simp

lemma sink_statement_count:
  assumes "sink_statement f es = Some (q, args)"
  shows "count_list q (CHR ''?'') = length args \<and> length args = 20 * length es"
proof -
  have "count_list insert_columns (CHR ''?'') = 0" by code_simp
  moreover have "length (concat (map (event_args f) es)) = 20 * length es"
    by (induction es) (simp_all add: length_event_args)
  ultimately show ?thesis
    using assms count_join [of es] by (auto simp: sink_statement_def count_list_append split: if_splits)
qed

definition server_inv :: "'p server \<Rightarrow> int \<Rightarrow> bool" where
  "server_inv s t \<longleftrightarrow> rl_inv (srv_limiter s) t \<and> batcher_inv (srv_batcher s) \<and> config_ok (srv_config s)"

lemma update_metrics_fields [simp]:
  "srv_limiter (update_metrics f s) = srv_limiter s" "srv_config (update_metrics f s) = srv_config s"
  "bt_queue (srv_batcher (update_metrics f s)) = bt_queue (srv_batcher s)"
  "batcher_inv (srv_batcher (update_metrics f s)) = batcher_inv (srv_batcher s)"
  "bt_metrics (srv_batcher (update_metrics f s)) = f (bt_metrics (srv_batcher s))"
  by (simp_all add: update_metrics_def batcher_inv_def)

lemma reject_fields [simp]:
  "srv_limiter (fst (reject st c m s)) = srv_limiter s" "srv_config (fst (reject st c m s)) = srv_config s"
  "bt_queue (srv_batcher (fst (reject st c m s))) = bt_queue (srv_batcher s)"
  "batcher_inv (srv_batcher (fst (reject st c m s))) = batcher_inv (srv_batcher s)"
  "rs_status (snd (reject st c m s)) = st"
  "rejected_requests (bt_metrics (srv_batcher (fst (reject st c m s)))) = rejected_requests (bt_metrics (srv_batcher s)) + 1"
  "rate_limited (bt_metrics (srv_batcher (fst (reject st c m s)))) =
     rate_limited (bt_metrics (srv_batcher s)) + (if st = 429 then 1 else 0)"
  "accepted_events (bt_metrics (srv_batcher (fst (reject st c m s)))) = accepted_events (bt_metrics (srv_batcher s))"
  "dropped_events (bt_metrics (srv_batcher (fst (reject st c m s)))) = dropped_events (bt_metrics (srv_batcher s))"
  by (simp_all add: reject_def respond_def Let_def)

lemma read_limited_body_bound:
  "read_limited_body content err mx = Inr body \<Longrightarrow> int (length body) \<le> mx \<and> has_prefix content body"
  by (auto simp: read_limited_body_def Let_def has_prefix_def min_def split: if_splits option.splits)

lemma read_limited_body_complete:
  "0 < mx \<Longrightarrow> mx < max_int64 \<Longrightarrow> int (length content) \<le> mx \<Longrightarrow> read_limited_body content None mx = Inr content"
  by (simp add: read_limited_body_def Let_def wrap64_id in_int64_def min_int64_def max_int64_def)

lemma enqueue_metrics:
  "enqueue est es b = (b', ok) \<Longrightarrow>
     rejected_requests (bt_metrics b') = rejected_requests (bt_metrics b)
   \<and> rate_limited (bt_metrics b') = rate_limited (bt_metrics b)
   \<and> accepted_events (bt_metrics b') = accepted_events (bt_metrics b) + (if ok then length es else 0)
   \<and> dropped_events (bt_metrics b') = dropped_events (bt_metrics b) + (if ok then 0 else length es)
   \<and> map fst (bt_queue b') = map fst (bt_queue b) @ (if ok then es else [])
   \<and> (batcher_inv b \<longrightarrow> batcher_inv b')"
proof -
  assume e: "enqueue est es b = (b', ok)"
  have "batcher_inv b \<longrightarrow> batcher_inv b'"
    using e enqueue_locked_inv [of b est es] by (auto simp: enqueue_eq Let_def split: if_splits)
  then show ?thesis using e enqueue_locked_queue [of est es b]
    by (auto simp: enqueue_eq enqueue_locked_def count_enqueue_def Let_def add_dropped_def split: if_splits)
qed

lemma enqueue_refused:
  "enqueue est es b = (b', False) \<Longrightarrow> es \<noteq> [] \<Longrightarrow>
   bt_closed b \<or> buffer_max_events (bt_config b) < int (length (bt_queue b) + length es)"
  by (auto simp: enqueue_eq enqueue_locked_def Let_def split: if_splits)

definition refusal :: "int \<Rightarrow> 'p server \<Rightarrow> 'p server \<times> http_response \<Rightarrow> bool" where
  "refusal st s x \<longleftrightarrow> (\<exists>code msg. x = reject st code msg s)"

lemma refusalI: "reject st code msg s = x \<Longrightarrow> refusal st s x"
  by (auto simp: refusal_def)

lemma refusal_status:
  "refusal st s0 (s', resp) \<Longrightarrow> rs_status resp = st \<and> (\<exists>code msg. s' = fst (reject st code msg s0))"
  unfolding refusal_def by (metis fst_conv reject_fields(5) snd_conv)

text \<open>The ways a batch request can end: a refusal, or the events appended to the queue.\<close>

lemma handle_admitted_cases:
  assumes "handle_admitted pf now s r = (s', resp)"
  obtains
    (rejected) st where "st = 400 \<or> st = 413" "refusal st s (s', resp)"
  | (full) body es b where
      "read_limited_body (rq_body r) (rq_body_error r) (max_body_bytes (srv_config s)) = Inr body"
      "decode_and_validate_batch (pf_parse pf) (pf_decode pf) (pf_time_of pf) (pf_decode_any pf)
         (pf_encode pf) body (max_events_per_request (srv_config s)) now = Inr es"
      "enqueue (pf_event_bytes pf) es (srv_batcher s) = (b, False)"
      "refusal 503 (s\<lparr>srv_batcher := b\<rparr>) (s', resp)"
  | (accepted) body es b where
      "read_limited_body (rq_body r) (rq_body_error r) (max_body_bytes (srv_config s)) = Inr body"
      "decode_and_validate_batch (pf_parse pf) (pf_decode pf) (pf_time_of pf) (pf_decode_any pf)
         (pf_encode pf) body (max_events_per_request (srv_config s)) now = Inr es"
      "enqueue (pf_event_bytes pf) es (srv_batcher s) = (b, True)"
      "s' = s\<lparr>srv_batcher := b\<rparr>" "rs_status resp = 202"
proof (cases "read_limited_body (rq_body r) (rq_body_error r) (max_body_bytes (srv_config s))")
  case (Inl e)
  show ?thesis
  proof (cases "errors_is e Err_Body_Too_Large")
    case True
    with Inl assms show ?thesis by (intro rejected [of 413]) (auto simp: handle_admitted_def intro: refusalI)
  next
    case False
    with Inl assms show ?thesis by (intro rejected [of 400]) (auto simp: handle_admitted_def intro: refusalI)
  qed
next
  case (Inr body)
  note b = Inr
  show ?thesis
  proof (cases "decode_and_validate_batch (pf_parse pf) (pf_decode pf) (pf_time_of pf) (pf_decode_any pf)
      (pf_encode pf) body (max_events_per_request (srv_config s)) now")
    case (Inl e)
    with b assms show ?thesis by (intro rejected [of 400]) (auto simp: handle_admitted_def intro: refusalI)
  next
    case (Inr es)
    obtain q ok where q: "enqueue (pf_event_bytes pf) es (srv_batcher s) = (q, ok)" by fastforce
    show ?thesis
    proof (cases ok)
      case True
      with b Inr q assms show ?thesis by (intro accepted) (auto simp: handle_admitted_def Let_def respond_def)
    next
      case False
      with b Inr q assms show ?thesis by (intro full) (auto simp: handle_admitted_def Let_def intro: refusalI)
    qed
  qed
qed

lemma handle_batch_cases:
  assumes "handle_batch pf now s r = (s', resp)"
  obtains
    (wrong_verb) "s' = s" "rs_status resp = 405"
  | (headers) "refusal 400 s (s', resp)"
  | (limited) l' where "rl_allow (srv_limiter s) now (request_ip pf s r) = (l', False)"
      "refusal 429 (s\<lparr>srv_limiter := l'\<rparr>) (s', resp)"
  | (admitted) l' where "rl_allow (srv_limiter s) now (request_ip pf s r) = (l', True)"
      "handle_admitted pf now (s\<lparr>srv_limiter := l'\<rparr>) r = (s', resp)"
proof -
  obtain l' allowed where l: "rl_allow (srv_limiter s) now (request_ip pf s r) = (l', allowed)" by fastforce
  consider "rq_method r \<noteq> ''POST''"
    | "rq_method r = ''POST''" "\<not> valid_content_type pf (rq_content_type r) \<or> \<not> valid_user_agent (rq_user_agent r)"
    | "rq_method r = ''POST''" "valid_content_type pf (rq_content_type r)" "valid_user_agent (rq_user_agent r)"
      "\<not> allowed"
    | "rq_method r = ''POST''" "valid_content_type pf (rq_content_type r)" "valid_user_agent (rq_user_agent r)"
      "allowed"
    by blast
  then show ?thesis
  proof cases
    case 1
    with assms show ?thesis by (intro wrong_verb) (auto simp: handle_batch_def method_not_allowed_def)
  next
    case 2
    with assms show ?thesis by (intro headers) (auto simp: handle_batch_def intro: refusalI)
  next
    case 3
    with assms l show ?thesis by (intro limited) (auto simp: handle_batch_def intro: refusalI)
  next
    case 4
    with assms l show ?thesis by (intro admitted) (auto simp: handle_batch_def)
  qed
qed

lemma enqueue_ok_nonempty: "enqueue est es b = (b', True) \<Longrightarrow> es \<noteq> []"
  by (auto simp: enqueue_eq enqueue_locked_def count_enqueue_def)

definition shown_queue :: "'p server \<Rightarrow> event list" where
  "shown_queue s = map fst (bt_queue (srv_batcher s))"

lemma shown_queue_limiter [simp]: "shown_queue (s\<lparr>srv_limiter := l\<rparr>) = shown_queue s"
  by (simp add: shown_queue_def)

definition counted :: "'p server \<Rightarrow> int \<Rightarrow> 'p server \<Rightarrow> bool" where
  "counted s st s' \<longleftrightarrow> (let m = bt_metrics (srv_batcher s); m' = bt_metrics (srv_batcher s') in
      st \<in> {202, 400, 405, 413, 429, 503}
    \<and> rejected_requests m' = rejected_requests m + (if st \<in> {202, 405} then 0 else 1)
    \<and> rate_limited m' = rate_limited m + (if st = 429 then 1 else 0)
    \<and> accepted_events m' + length (shown_queue s) = accepted_events m + length (shown_queue s')
    \<and> (st = 202 \<longleftrightarrow> shown_queue s' \<noteq> shown_queue s))"

text \<open>The drop counter moves only with status 503, by the size of the decoded batch, and that
  answer is given only when the batcher is closed or the batch does not fit.\<close>

definition drops_counted :: "('a, 'p) platform \<Rightarrow> int \<Rightarrow> http_request \<Rightarrow> 'p server \<Rightarrow> int \<Rightarrow> 'p server \<Rightarrow> bool" where
  "drops_counted pf now r s st s' \<longleftrightarrow>
     (let m = bt_metrics (srv_batcher s); m' = bt_metrics (srv_batcher s') in
      if st = 503 then \<exists>body es.
          read_limited_body (rq_body r) (rq_body_error r) (max_body_bytes (srv_config s)) = Inr body
        \<and> decode_and_validate_batch (pf_parse pf) (pf_decode pf) (pf_time_of pf) (pf_decode_any pf)
            (pf_encode pf) body (max_events_per_request (srv_config s)) now = Inr es
        \<and> dropped_events m' = dropped_events m + length es \<and> es \<noteq> []
        \<and> (bt_closed (srv_batcher s)
           \<or> buffer_max_events (bt_config (srv_batcher s)) < int (length (bt_queue (srv_batcher s)) + length es))
      else dropped_events m' = dropped_events m)"

lemma drops_counted_refusal:
  assumes "refusal st s0 (s', resp)" "st \<noteq> 503"
    "dropped_events (bt_metrics (srv_batcher s0)) = dropped_events (bt_metrics (srv_batcher s))"
  shows "drops_counted pf now r s (rs_status resp) s'"
proof -
  obtain code msg where "s' = fst (reject st code msg s0)" "rs_status resp = st"
    using refusal_status [OF assms(1)] by blast
  then show ?thesis using assms(2,3) by (simp add: drops_counted_def)
qed

lemma handle_admitted_drops:
  assumes "handle_admitted pf now (s\<lparr>srv_limiter := l'\<rparr>) r = (s', resp)"
  shows "drops_counted pf now r s (rs_status resp) s'"
  using assms
proof (cases rule: handle_admitted_cases)
  case (rejected st)
  then show ?thesis by (intro drops_counted_refusal [OF rejected(2)]) auto
next
  case (full body es b)
  have ne: "es \<noteq> []" using batch_accepted [OF full(2)] by auto
  have d: "dropped_events (bt_metrics b) = dropped_events (bt_metrics (srv_batcher s)) + length es"
    using enqueue_metrics [OF full(3)] by simp
  have f: "bt_closed (srv_batcher s) \<or>
      buffer_max_events (bt_config (srv_batcher s)) < int (length (bt_queue (srv_batcher s)) + length es)"
    using enqueue_refused [OF full(3) ne] by simp
  obtain code msg where s': "s' = fst (reject 503 code msg (s\<lparr>srv_limiter := l', srv_batcher := b\<rparr>))"
    and st: "rs_status resp = 503"
    using refusal_status [OF full(4)] by auto
  show ?thesis unfolding drops_counted_def Let_def st
    using full(1,2) d f ne by (simp add: s')
next
  case (accepted body es b)
  then show ?thesis using enqueue_metrics [OF accepted(3)] by (simp add: drops_counted_def)
qed

lemma counted_refusal:
  assumes "refusal st s0 (s', resp)" "st = 400 \<or> st = 413 \<or> st = 429 \<or> st = 503" "shown_queue s0 = shown_queue s"
    "rejected_requests (bt_metrics (srv_batcher s0)) = rejected_requests (bt_metrics (srv_batcher s))"
    "rate_limited (bt_metrics (srv_batcher s0)) = rate_limited (bt_metrics (srv_batcher s))"
    "accepted_events (bt_metrics (srv_batcher s0)) = accepted_events (bt_metrics (srv_batcher s))"
  shows "counted s (rs_status resp) s'"
proof -
  obtain code msg where s': "s' = fst (reject st code msg s0)" and st: "rs_status resp = st"
    using refusal_status [OF assms(1)] by blast
  have q: "shown_queue s' = shown_queue s" using assms(3) by (simp add: shown_queue_def s')
  have n: "(st = 202) = False" "(st = 405) = False" using assms(2) by auto
  have "st \<in> {202, 400, 405, 413, 429, 503}" using assms(2) by auto
  then show ?thesis
    unfolding counted_def Let_def st q by (simp add: s' n assms(4-6))
qed

lemma refusal_inv:
  assumes "refusal st s0 (s', resp)" "server_inv s0 now"
  shows "server_inv s' now \<and> shown_queue s' = shown_queue s0"
proof -
  obtain code msg where s': "s' = fst (reject st code msg s0)"
    using refusal_status [OF assms(1)] by blast
  show ?thesis using assms(2) by (simp add: s' server_inv_def shown_queue_def)
qed

lemma handle_admitted_counted:
  assumes "handle_admitted pf now (s\<lparr>srv_limiter := l'\<rparr>) r = (s', resp)"
  shows "counted s (rs_status resp) s'"
  using assms
proof (cases rule: handle_admitted_cases)
  case (rejected st)
  then show ?thesis by (intro counted_refusal [OF rejected(2)]) auto
next
  case (full body es b)
  then show ?thesis using enqueue_metrics [OF full(3)]
    by (intro counted_refusal [OF full(4)]) (simp_all add: shown_queue_def)
next
  case (accepted body es b)
  have q: "shown_queue s' = shown_queue s @ es"
    using enqueue_metrics [OF accepted(3)] accepted(4) by (simp add: shown_queue_def)
  show ?thesis using enqueue_metrics [OF accepted(3)] enqueue_ok_nonempty [OF accepted(3)] accepted(4,5)
    unfolding counted_def q by simp
qed

lemma handle_admitted_inv:
  assumes "server_inv s now" "handle_admitted pf now s r = (s', resp)"
  shows "server_inv s' now \<and>
    (if rs_status resp = 202 then \<exists>body es. shown_queue s' = shown_queue s @ es \<and> es \<noteq> []
        \<and> int (length es) \<le> max_events_per_request (srv_config s) \<and> list_all event_ok es
        \<and> int (length body) \<le> max_body_bytes (srv_config s) \<and> has_prefix (rq_body r) body
     else shown_queue s' = shown_queue s)"
  using assms(2)
proof (cases rule: handle_admitted_cases)
  case (rejected st)
  have "rs_status resp \<noteq> 202" using refusal_status [OF rejected(2)] rejected(1) by linarith
  then show ?thesis using refusal_inv [OF rejected(2) assms(1)] by simp
next
  case (full body es b)
  have "server_inv (s\<lparr>srv_batcher := b\<rparr>) now" "shown_queue (s\<lparr>srv_batcher := b\<rparr>) = shown_queue s"
    using enqueue_metrics [OF full(3)] assms(1) by (simp_all add: server_inv_def shown_queue_def)
  then show ?thesis using refusal_inv [OF full(4)] refusal_status [OF full(4)] by simp
next
  case (accepted body es b)
  have "batcher_inv b" using enqueue_metrics [OF accepted(3)] assms(1) by (simp only: server_inv_def)
  then have "server_inv s' now" using assms(1) accepted(4) by (simp add: server_inv_def)
  moreover have "shown_queue s' = shown_queue s @ es"
    using enqueue_metrics [OF accepted(3)] accepted(4) by (simp add: shown_queue_def)
  moreover have "list_all event_ok es" "es \<noteq> []" "int (length es) \<le> max_events_per_request (srv_config s)"
    using batch_accepted [OF accepted(2)] by (auto simp: list_all_iff)
  ultimately show ?thesis using accepted(5) read_limited_body_bound [OF accepted(1)] by auto
qed

lemma handle_batch_405:
  assumes "handle_batch pf now s r = (s', resp)"
  shows "rs_status resp = 405 \<longleftrightarrow> rq_method r \<noteq> ''POST''"
proof (cases "rq_method r = ''POST''")
  case True
  have n: "rs_status resp \<noteq> 405" if "refusal st s0 (s', resp)" "st \<noteq> 405" for st s0
    using refusal_status [OF that(1)] that(2) by simp
  from assms have "rs_status resp \<noteq> 405"
  proof (cases rule: handle_batch_cases)
    case wrong_verb
    then show ?thesis using assms True by (auto simp: handle_batch_def Let_def reject_def respond_def
        handle_admitted_def split: prod.splits sum.splits if_splits)
  next
    case headers
    then show ?thesis by (rule n) simp
  next
    case (limited l')
    from limited(2) show ?thesis by (rule n) simp
  next
    case (admitted l')
    from admitted(2) show ?thesis
      by (cases rule: handle_admitted_cases) (auto dest: n)
  qed
  then show ?thesis using True by simp
next
  case False
  then show ?thesis using assms by (auto simp: handle_batch_def method_not_allowed_def)
qed

section \<open>Properties\<close>

text \<open>C36: The counters account for every batch request: the status is one of six, the accepted
  events grow exactly by those queued and only with status 202, and each refusal but a wrong
  method, which is answered 405 and changes no counter, adds one to the rejected requests, a
  refusal by the limiter also to the rate-limited ones.  The drop counter moves only with status
  503, by the number of events of the decoded batch, and 503 is given only when the batcher is
  closed or the batch does not fit in the buffer.\<close>

theorem handle_batch_accounting:
  "let (s', resp) = handle_batch pf now s r; m = bt_metrics (srv_batcher s); m' = bt_metrics (srv_batcher s')
   in rs_status resp \<in> {202, 400, 405, 413, 429, 503}
    \<and> rejected_requests m' = rejected_requests m + (if rs_status resp \<in> {202, 405} then 0 else 1)
    \<and> rate_limited m' = rate_limited m + (if rs_status resp = 429 then 1 else 0)
    \<and> accepted_events m' + length (shown_queue s) = accepted_events m + length (shown_queue s')
    \<and> (rs_status resp = 202 \<longleftrightarrow> shown_queue s' \<noteq> shown_queue s)
    \<and> (rs_status resp = 405 \<longleftrightarrow> rq_method r \<noteq> ''POST'')
    \<and> drops_counted pf now r s (rs_status resp) s'"
proof -
  obtain s' resp where h: "handle_batch pf now s r = (s', resp)" by fastforce
  from h have "counted s (rs_status resp) s' \<and> drops_counted pf now r s (rs_status resp) s'"
  proof (cases rule: handle_batch_cases)
    case wrong_verb
    then show ?thesis by (simp add: counted_def drops_counted_def)
  next
    case headers
    then show ?thesis by (intro conjI counted_refusal [OF headers] drops_counted_refusal [OF headers]) auto
  next
    case (limited l')
    then show ?thesis
      by (intro conjI counted_refusal [OF limited(2)] drops_counted_refusal [OF limited(2)]) auto
  next
    case (admitted l')
    from admitted(2) show ?thesis by (intro conjI handle_admitted_counted handle_admitted_drops)
  qed
  moreover have "rs_status resp = 405 \<longleftrightarrow> rq_method r \<noteq> ''POST''" using h by (rule handle_batch_405)
  ultimately show ?thesis by (simp only: h counted_def Let_def prod.case)
qed

text \<open>The service admits only validated events: a request keeps the invariants of the limiter and
  of the queue, and appends to the queue either nothing or one whole batch of events that all
  passed validation, read from a body within the limit.\<close>

theorem handle_batch_admits_valid:
  assumes "server_inv s t" "t \<le> now" "handle_batch pf now s r = (s', resp)"
  shows "server_inv s' now \<and>
    (if rs_status resp = 202 then \<exists>body es. shown_queue s' = shown_queue s @ es \<and> es \<noteq> []
        \<and> int (length es) \<le> max_events_per_request (srv_config s) \<and> list_all event_ok es
        \<and> int (length body) \<le> max_body_bytes (srv_config s) \<and> has_prefix (rq_body r) body
     else shown_queue s' = shown_queue s)"
proof -
  have now: "server_inv s now" using assms(1,2) rl_inv_mono by (auto simp: server_inv_def)
  from assms(3) show ?thesis
proof (cases rule: handle_batch_cases)
  case wrong_verb
  then show ?thesis using now by simp
next
  case headers
  then show ?thesis using refusal_inv [OF headers now] refusal_status [OF headers] by simp
next
  case (limited l')
  have "server_inv (s\<lparr>srv_limiter := l'\<rparr>) now"
    using assms(1) rl_allow_step(1) [OF _ assms(2) limited(1)] by (simp add: server_inv_def)
  from refusal_inv [OF limited(2) this] show ?thesis using refusal_status [OF limited(2)] by simp
next
  case (admitted l')
  have "server_inv (s\<lparr>srv_limiter := l'\<rparr>) now"
    using assms(1) rl_allow_step(1) [OF _ assms(2) admitted(1)] by (simp add: server_inv_def)
  from handle_admitted_inv [OF this admitted(2)] show ?thesis by auto
qed
qed

text \<open>The statement of the database sink has one placeholder per argument, twenty per event.\<close>

theorem sink_statement_arity:
  assumes "sink_statement f es = Some (q, args)"
  shows "count_list q (CHR ''?'') = length args \<and> length args = 20 * length es"
  using sink_statement_count [OF assms] .


section \<open>Witnesses\<close>

definition sample_platform :: "(string, string) platform" where
  "sample_platform = \<lparr>pf_parse = \<lambda>_. Some (J_Obj []),
     pf_decode = \<lambda>_. Decoded \<lparr>br_schema_version = 2, br_sent_at = ''t'', br_events = [sample_wire]\<rparr>,
     pf_time_of = \<lambda>_. Some 5, pf_decode_any = \<lambda>_. Decoded (J_Obj []), pf_encode = \<lambda>_. Some ''{}'',
     pf_event_bytes = \<lambda>_. 100, pf_media_type = Some, pf_parse_addr = Some, pf_split_host = Some,
     pf_show_addr = id, pf_contains = (=)\<rparr>"

definition sample_server :: "string server" where
  "sample_server = new_server sample_batcher_config (new_batcher sample_batcher_config [''tidb''] new_metrics) True"

definition sample_request :: http_request where
  "sample_request = \<lparr>rq_method = ''POST'', rq_content_type = ''application/json'', rq_user_agent = ''ti/1.0'',
     rq_remote_addr = ''10.0.0.1'', rq_forwarded_for = [], rq_body = ''{...}'', rq_body_error = None\<rparr>"

lemma sample_server_inv: "server_inv sample_server 0"
  using new_batcher_inv [OF sample_batcher_config_ok] sample_batcher_config_ok new_limiter_inv
  by (simp add: sample_server_def new_server_def server_inv_def config_ok_def)

theorem handle_batch_admits_valid_witness:
  "rs_status (snd (handle_batch sample_platform 5 sample_server sample_request)) = 202 \<and>
   server_inv (fst (handle_batch sample_platform 5 sample_server sample_request)) 5"
proof -
  have "rs_status (snd (handle_batch sample_platform 5 sample_server sample_request)) = 202" by code_simp
  then show ?thesis
    using handle_batch_admits_valid [OF sample_server_inv, of 5 sample_platform sample_request]
    by (metis prod.collapse zero_le_numeral)
qed

definition sample_event :: event where
  "sample_event = \<lparr>ev_id = ''i'', ev_name = ''n'', ev_occurred_at = 1, ev_received_at = 2,
     ev_installation_id = ''x'', ev_command_path = ''ti'', ev_flag_names = [], ev_exit_code = 0, ev_error_code = [],
     ev_duration_ms = 0, ev_cloud_provider = [], ev_region_code = [], ev_cli_version = ''1'', ev_os = ''linux'',
     ev_arch = ''arm'', ev_install_source = [], ev_profile_source = [], ev_tag = [], ev_extra = None,
     ev_schema_version = 1\<rparr>"

theorem sink_statement_arity_witness:
  "\<exists>q args. sink_statement concat [sample_event, sample_event] = Some (q, args) \<and> length args = 40
     \<and> count_list q (CHR ''?'') = 40"
proof -
  obtain q args where q: "sink_statement concat [sample_event, sample_event] = Some (q, args)"
    by (simp add: sink_statement_def)
  show ?thesis using sink_statement_arity [OF q] q by simp
qed

end
