(* ===== verification/Sql_Single.thy ===== *)
theory Sql_Single
  imports Go_Errors
begin

text \<open>
  The guard of \<open>execute-sql-statement\<close> (\<open>internal/db/sqlsingle/sqlsingle.go\<close>): one pass
  over the bytes that follows quotes and escapes and allows one terminating semicolon.  The
  reference is a splitter at the semicolons outside quotes; a second reference also knows
  the comments of MySQL and shows what the guard does not see.
\<close>

section \<open>The scanner\<close>

record scan_state =
  sc_single :: bool
  sc_double :: bool
  sc_backtick :: bool
  sc_escaped :: bool
  sc_seen :: bool

definition is_sql_space :: "char \<Rightarrow> bool" where
  "is_sql_space c \<longleftrightarrow> c = CHR '' '' \<or> c = CHR 0x0A \<or> c = CHR 0x0D \<or> c = CHR 0x09"

definition scan_start :: scan_state where
  "scan_start = \<lparr>sc_single = False, sc_double = False, sc_backtick = False, sc_escaped = False, sc_seen = False\<rparr>"

fun scan :: "scan_state \<Rightarrow> string \<Rightarrow> bool" where
  "scan st [] \<longleftrightarrow> \<not> sc_single st \<and> \<not> sc_double st \<and> \<not> sc_backtick st"
| "scan st (c # s) \<longleftrightarrow>
     (if sc_escaped st then scan (st\<lparr>sc_escaped := False\<rparr>) s
      else if (sc_single st \<or> sc_double st) \<and> c = CHR 0x5C then scan (st\<lparr>sc_escaped := True\<rparr>) s
      else if sc_single st then scan (if c = CHR 0x27 then st\<lparr>sc_single := False\<rparr> else st) s
      else if sc_double st then scan (if c = CHR 0x22 then st\<lparr>sc_double := False\<rparr> else st) s
      else if sc_backtick st then scan (if c = CHR 0x60 then st\<lparr>sc_backtick := False\<rparr> else st) s
      else if c = CHR 0x27 then
        (if sc_seen st \<and> trim_space (c # s) \<noteq> [] then False else scan (st\<lparr>sc_single := True\<rparr>) s)
      else if c = CHR 0x22 then
        (if sc_seen st \<and> trim_space (c # s) \<noteq> [] then False else scan (st\<lparr>sc_double := True\<rparr>) s)
      else if c = CHR 0x60 then
        (if sc_seen st \<and> trim_space (c # s) \<noteq> [] then False else scan (st\<lparr>sc_backtick := True\<rparr>) s)
      else if c = CHR '';'' then (if sc_seen st then False else scan (st\<lparr>sc_seen := True\<rparr>) s)
      else if sc_seen st \<and> \<not> is_sql_space c then False
      else scan st s)"

definition is_single :: "string \<Rightarrow> bool" where
  "is_single statement = scan scan_start statement"

definition validate_sql :: "string \<Rightarrow> go_error + unit" where
  "validate_sql statement =
     (if trim_space statement = [] then Inl (app_new ''db.sql_missing'' ''usage'' 2 (Lit ''--sql is required''))
      else if \<not> is_single statement then
        Inl (app_new ''db.sql_multiple_statements'' ''usage'' 2
          (Lit ''execute-sql-statement accepts exactly one SQL statement''))
      else Inr ())"

section \<open>The reference\<close>

text \<open>
  Where a byte stands: outside quotes, inside a quote with the given closing byte, or after
  a backslash in one.
\<close>

datatype sql_mode = Plain | Quoted char | After_Backslash char

fun next_mode :: "sql_mode \<Rightarrow> char \<Rightarrow> sql_mode" where
  "next_mode Plain c = (if c \<in> {CHR 0x27, CHR 0x22, CHR 0x60} then Quoted c else Plain)"
| "next_mode (Quoted q) c =
     (if c = CHR 0x5C \<and> q \<noteq> CHR 0x60 then After_Backslash q else if c = q then Plain else Quoted q)"
| "next_mode (After_Backslash q) c = Quoted q"

text \<open>The pieces between the semicolons outside quotes, and the mode at the end.\<close>

fun sql_pieces :: "sql_mode \<Rightarrow> string \<Rightarrow> string list" where
  "sql_pieces m [] = [[]]"
| "sql_pieces m (c # s) =
     (if m = Plain \<and> c = CHR '';'' then [] # sql_pieces Plain s
      else (case sql_pieces (next_mode m c) s of [] \<Rightarrow> [[c]] | p # ps \<Rightarrow> (c # p) # ps))"

definition end_mode :: "sql_mode \<Rightarrow> string \<Rightarrow> sql_mode" where
  "end_mode m s = foldl next_mode m s"

definition one_statement :: "string \<Rightarrow> bool" where
  "one_statement s \<longleftrightarrow> end_mode Plain s = Plain \<and>
     (case sql_pieces Plain s of [p] \<Rightarrow> True | [p, q] \<Rightarrow> list_all is_sql_space q | _ \<Rightarrow> False)"

text \<open>The scanner's flags of a mode.\<close>

fun flags_of :: "sql_mode \<Rightarrow> bool \<Rightarrow> scan_state" where
  "flags_of Plain seen = scan_start\<lparr>sc_seen := seen\<rparr>"
| "flags_of (Quoted q) seen = scan_start\<lparr>sc_single := (q = CHR 0x27), sc_double := (q = CHR 0x22),
     sc_backtick := (q = CHR 0x60), sc_seen := seen\<rparr>"
| "flags_of (After_Backslash q) seen = scan_start\<lparr>sc_single := (q = CHR 0x27), sc_double := (q = CHR 0x22),
     sc_backtick := (q = CHR 0x60), sc_escaped := True, sc_seen := seen\<rparr>"

fun mode_ok :: "sql_mode \<Rightarrow> bool" where
  "mode_ok Plain = True"
| "mode_ok (Quoted q) = (q \<in> {CHR 0x27, CHR 0x22, CHR 0x60})"
| "mode_ok (After_Backslash q) = (q \<in> {CHR 0x27, CHR 0x22})"

lemma mode_ok_next: "mode_ok m \<Longrightarrow> mode_ok (next_mode m c)"
  by (cases m) auto

lemma sql_pieces_not_Nil [simp]: "sql_pieces m s \<noteq> []"
  by (induction s arbitrary: m) (auto split: list.splits)

lemma scan_seen:
  "scan (flags_of Plain True) s \<longleftrightarrow> list_all is_sql_space s"
proof (induction s)
  case (Cons c s)
  have quote: "trim_space (c # s) \<noteq> []" if "c \<in> {CHR 0x27, CHR 0x22, CHR 0x60}"
  proof
    assume "trim_space (c # s) = []"
    then show False using that trim_space_keeps [of c "c # s"] by (auto simp: is_graphic_def byte_of_def)
  qed
  have sp: "\<not> is_sql_space c" if "c \<in> {CHR 0x27, CHR 0x22, CHR 0x60, CHR '';''}"
    using that by (auto simp: is_sql_space_def)
  show ?case
  proof (cases "c \<in> {CHR 0x27, CHR 0x22, CHR 0x60, CHR '';''}")
    case True
    then show ?thesis using quote sp by (auto simp: scan_start_def simp del: scan.simps(2)) (simp_all add: scan_start_def)
  next
    case False
    then show ?thesis using Cons.IH by (auto simp: scan_start_def)
  qed
qed (simp add: scan_start_def)

lemma scan_step:
  assumes "mode_ok m" "m \<noteq> Plain \<or> c \<noteq> CHR '';''"
  shows "scan (flags_of m False) (c # s) \<longleftrightarrow> scan (flags_of (next_mode m c) False) s"
proof (cases m)
  case Plain
  then show ?thesis using assms by (auto simp: scan_start_def)
next
  case (Quoted q)
  then show ?thesis using assms by (auto simp: scan_start_def)
next
  case (After_Backslash q)
  then show ?thesis using assms by (auto simp: scan_start_def)
qed

lemma sql_pieces_plain:
  "list_all is_sql_space s \<Longrightarrow> sql_pieces Plain s = [s] \<and> end_mode Plain s = Plain"
  by (induction s) (auto simp: end_mode_def is_sql_space_def)

lemma spaces_pieces:
  "end_mode m s = Plain \<Longrightarrow> mode_ok m \<Longrightarrow> sql_pieces m s = [q] \<Longrightarrow> list_all is_sql_space q \<Longrightarrow> m = Plain \<and> s = q"
proof (induction s arbitrary: m q)
  case Nil
  then show ?case by (simp add: end_mode_def)
next
  case (Cons c s)
  then have nt: "\<not> (m = Plain \<and> c = CHR '';'')" by (auto split: list.splits)
  then obtain q' where q': "sql_pieces (next_mode m c) s = [q']" "q = c # q'"
    using Cons.prems(3) by (cases "sql_pieces (next_mode m c) s") auto
  have ih: "next_mode m c = Plain" "s = q'"
    using Cons.IH [of "next_mode m c" q'] Cons.prems q' by (auto simp: end_mode_def mode_ok_next)
  have "is_sql_space c" using Cons.prems(4) q' by simp
  then show ?case using ih q' Cons.prems(2) by (cases m) (auto simp: is_sql_space_def split: if_splits)
qed

lemma scan_pieces:
  "mode_ok m \<Longrightarrow> scan (flags_of m False) s \<longleftrightarrow>
     end_mode m s = Plain \<and>
     (case sql_pieces m s of [p] \<Rightarrow> True | [p, q] \<Rightarrow> list_all is_sql_space q | _ \<Rightarrow> False)"
proof (induction s arbitrary: m)
  case Nil
  then show ?case by (cases m) (auto simp: end_mode_def scan_start_def)
next
  case (Cons c s)
  show ?case
  proof (cases "m = Plain \<and> c = CHR '';''")
    case True
    have scan: "scan (flags_of m False) (c # s) \<longleftrightarrow> list_all is_sql_space s"
      using True scan_seen [of s] by (simp add: scan_start_def is_sql_space_def)
    have "list_all is_sql_space s \<longleftrightarrow> end_mode Plain s = Plain \<and> (\<exists>q. sql_pieces Plain s = [q] \<and> list_all is_sql_space q)"
      using sql_pieces_plain [of s] spaces_pieces [of Plain s] by auto
    then show ?thesis
      unfolding scan using True by (auto simp: end_mode_def split: list.splits)
  next
    case False
    have ok: "mode_ok (next_mode m c)" by (rule mode_ok_next [OF Cons.prems])
    have e: "end_mode m (c # s) = end_mode (next_mode m c) s" by (simp add: end_mode_def)
    have "scan (flags_of m False) (c # s) \<longleftrightarrow> scan (flags_of (next_mode m c) False) s"
      using scan_step [OF Cons.prems] False by blast
    then show ?thesis
      unfolding e Cons.IH [OF ok] using False
      by (cases "sql_pieces (next_mode m c) s") (auto split: list.splits)
  qed
qed

section \<open>Comments\<close>

text \<open>
  MySQL also has comments: from \<open>#\<close> or \<open>-- \<close> to the end of the line, and from \<open>/*\<close> to
  \<open>*/\<close>.  \<open>mysql_statements\<close> splits with them: the pieces outside comments, without the empty ones.
\<close>

datatype mysql_mode = Code sql_mode | Line_Comment | Block_Comment

fun mysql_pieces :: "mysql_mode \<Rightarrow> string \<Rightarrow> string list" where
  "mysql_pieces m [] = [[]]"
| "mysql_pieces Line_Comment (c # s) = mysql_pieces (if c = CHR 0x0A then Code Plain else Line_Comment) s"
| "mysql_pieces Block_Comment (c # s) =
     (if has_prefix (c # s) ''*/'' then mysql_pieces (Code Plain) (tl s) else mysql_pieces Block_Comment s)"
| "mysql_pieces (Code m) (c # s) =
     (if m = Plain \<and> (c = CHR ''#'' \<or> has_prefix (c # s) ''-- '') then mysql_pieces Line_Comment s
      else if m = Plain \<and> has_prefix (c # s) ''/*'' then mysql_pieces Block_Comment (tl s)
      else if m = Plain \<and> c = CHR '';'' then [] # mysql_pieces (Code Plain) s
      else (case mysql_pieces (Code (next_mode m c)) s of [] \<Rightarrow> [[c]] | p # ps \<Rightarrow> (c # p) # ps))"

definition mysql_statements :: "string \<Rightarrow> string list" where
  "mysql_statements s = filter (\<lambda>p. trim_space p \<noteq> []) (mysql_pieces (Code Plain) s)"

text \<open>A statement, a comment with a quote, a second statement, a comment with a quote.\<close>

definition hidden_statement :: string where
  "hidden_statement = ''select 1 -- '' @ [CHR 0x27, CHR 0x0A] @ ''; drop table t -- '' @ [CHR 0x27]"

section \<open>Properties\<close>

text \<open>C33: The one-pass scanner accepts a statement exactly when the reference does: all quotes
  are closed, and splitting at the semicolons outside quotes gives one piece, or two of which
  the second holds only blanks.\<close>

theorem is_single_reference: "is_single s \<longleftrightarrow> one_statement s"
  using scan_pieces [of Plain s] by (simp add: is_single_def one_statement_def scan_start_def)

text \<open>The scanner does not know comments: it accepts a text that holds two statements for
  MySQL, because the quotes in two comments look to it like one string that contains the
  semicolon; and it rejects a single statement with an apostrophe in its comment.\<close>

theorem is_single_misses_comments:
  "validate_sql hidden_statement = Inr () \<and> mysql_statements hidden_statement = [''select 1 '', '' drop table t '']
   \<and> validate_sql (''select 1 -- it'' @ CHR 0x27 # ''s'') \<noteq> Inr ()
   \<and> mysql_statements (''select 1 -- it'' @ CHR 0x27 # ''s'') = [''select 1 '']"
  by code_simp

end
