(* ===== verification/Part_Uploader.thy ===== *)
theory Part_Uploader
  imports Upload_Parts
begin

text \<open>
  The concurrent upload of the parts of a plan (\<open>UploadPlanPartsWithProgress\<close> with its buffer
  pool and \<open>sendUploadErr\<close>, \<open>internal/api/fs/upload.go\<close>) as a step relation: the scheduling
  loop, one goroutine per part, the semaphore, the pool of buffers, the error channel of
  capacity one and the context.  A step is one channel operation or one request; the choices of
  \<open>select\<close> are the choices of the relation.
\<close>

section \<open>State\<close>

datatype phase = Waiting | Started | Holding | Uploaded | Failed | Gave_Up

datatype loop_state = Checking | Acquiring | Joining | Leaving go_error | Returned "go_error option" | Crashed

record uploader =
  up_pc :: loop_state
  up_next :: nat
  up_phase :: "nat \<Rightarrow> phase"
  up_sem :: nat
  up_pool :: nat
  up_err :: "go_error option"
  up_ctx :: "sentinel option"
  up_parent :: bool

definition start_uploader :: "nat \<Rightarrow> uploader" where
  "start_uploader par = \<lparr>up_pc = Checking, up_next = 0, up_phase = (\<lambda>_. Waiting), up_sem = 0,
     up_pool = par, up_err = None, up_ctx = None, up_parent = False\<rparr>"

definition active :: "phase \<Rightarrow> bool" where
  "active p \<longleftrightarrow> p = Started \<or> p = Holding"

definition quiet :: "nat \<Rightarrow> uploader \<Rightarrow> bool" where
  "quiet n s \<longleftrightarrow> (\<forall>i < n. \<not> active (up_phase s i))"

definition cancel_ctx :: "sentinel \<Rightarrow> uploader \<Rightarrow> uploader" where
  "cancel_ctx c s = s\<lparr>up_ctx := (case up_ctx s of None \<Rightarrow> Some c | Some d \<Rightarrow> Some d)\<rparr>"

definition set_phase :: "nat \<Rightarrow> phase \<Rightarrow> uploader \<Rightarrow> uploader" where
  "set_phase i p s = s\<lparr>up_phase := (up_phase s)(i := p)\<rparr>"

text \<open>The possible results of \<open>sendUploadErr\<close>: sent, or dropped when the channel is full or the
  context is done.\<close>

inductive send_err :: "go_error \<Rightarrow> uploader \<Rightarrow> uploader \<Rightarrow> bool" where
  sent: "up_err s = None \<Longrightarrow> send_err e s (s\<lparr>up_err := Some e\<rparr>)"
| dropped: "up_err s \<noteq> None \<or> up_ctx s \<noteq> None \<Longrightarrow> send_err e s s"

text \<open>\<open>n\<close> parts of the sizes \<open>sz\<close>, \<open>par\<close> slots, buffers of \<open>std\<close> bytes.  A goroutine that holds
  a buffer slices it to the size of its part, which panics for a part larger than the buffer:
  the process ends in the state \<open>Crashed\<close>.  The read and the request of a part that fits are
  one step, so they are taken to end.\<close>

inductive ustep :: "nat \<Rightarrow> nat \<Rightarrow> int \<Rightarrow> (nat \<Rightarrow> int) \<Rightarrow> uploader \<Rightarrow> uploader \<Rightarrow> bool" for n par std sz where
  see_error: "up_pc s = Checking \<Longrightarrow> up_next s < n \<Longrightarrow> up_err s = Some e \<Longrightarrow>
     ustep n par std sz s (cancel_ctx Ctx_Canceled (s\<lparr>up_pc := Leaving e, up_err := None\<rparr>))"
| no_error: "up_pc s = Checking \<Longrightarrow> up_next s < n \<Longrightarrow> up_err s = None \<Longrightarrow>
     ustep n par std sz s (s\<lparr>up_pc := Acquiring\<rparr>)"
| all_started: "up_pc s = Checking \<Longrightarrow> up_next s = n \<Longrightarrow> ustep n par std sz s (s\<lparr>up_pc := Joining\<rparr>)"
| acquire: "up_pc s = Acquiring \<Longrightarrow> up_sem s < par \<Longrightarrow>
     ustep n par std sz s (set_phase (up_next s) Started
       (s\<lparr>up_pc := Checking, up_sem := up_sem s + 1, up_next := up_next s + 1\<rparr>))"
| acquire_cancelled: "up_pc s = Acquiring \<Longrightarrow> up_ctx s = Some c \<Longrightarrow>
     ustep n par std sz s (s\<lparr>up_pc := Leaving (Sentinel c)\<rparr>)"
| leave: "up_pc s = Leaving e \<Longrightarrow> quiet n s \<Longrightarrow> ustep n par std sz s (s\<lparr>up_pc := Returned (Some e)\<rparr>)"
| join: "up_pc s = Joining \<Longrightarrow> quiet n s \<Longrightarrow>
     ustep n par std sz s (s\<lparr>up_pc := Returned (up_err s), up_err := None\<rparr>)"
| invalid_size: "up_pc s \<noteq> Crashed \<Longrightarrow> i < n \<Longrightarrow> up_phase s i = Started \<Longrightarrow> sz i < 0 \<Longrightarrow> send_err e s t \<Longrightarrow>
     ustep n par std sz s (cancel_ctx Ctx_Canceled (set_phase i Failed (t\<lparr>up_sem := up_sem t - 1\<rparr>)))"
| get_buffer: "up_pc s \<noteq> Crashed \<Longrightarrow> i < n \<Longrightarrow> up_phase s i = Started \<Longrightarrow> 0 \<le> sz i \<Longrightarrow> up_pool s > 0 \<Longrightarrow>
     ustep n par std sz s (set_phase i Holding (s\<lparr>up_pool := up_pool s - 1\<rparr>))"
| give_up: "up_pc s \<noteq> Crashed \<Longrightarrow> i < n \<Longrightarrow> up_phase s i = Started \<Longrightarrow> 0 \<le> sz i \<Longrightarrow> up_ctx s \<noteq> None \<Longrightarrow>
     ustep n par std sz s (set_phase i Gave_Up (s\<lparr>up_sem := up_sem s - 1\<rparr>))"
| oversized: "up_pc s \<noteq> Crashed \<Longrightarrow> i < n \<Longrightarrow> up_phase s i = Holding \<Longrightarrow> sz i > std \<Longrightarrow>
     ustep n par std sz s (s\<lparr>up_pc := Crashed\<rparr>)"
| part_done: "up_pc s \<noteq> Crashed \<Longrightarrow> i < n \<Longrightarrow> up_phase s i = Holding \<Longrightarrow> sz i \<le> std \<Longrightarrow>
     ustep n par std sz s (set_phase i Uploaded (s\<lparr>up_sem := up_sem s - 1, up_pool := up_pool s + 1\<rparr>))"
| part_failed: "up_pc s \<noteq> Crashed \<Longrightarrow> i < n \<Longrightarrow> up_phase s i = Holding \<Longrightarrow> sz i \<le> std \<Longrightarrow> send_err e s t \<Longrightarrow>
     ustep n par std sz s (cancel_ctx Ctx_Canceled
       (set_phase i Failed (t\<lparr>up_sem := up_sem t - 1, up_pool := up_pool t + 1\<rparr>)))"
| parent_done: "up_pc s \<noteq> Crashed \<Longrightarrow> \<not> up_parent s \<Longrightarrow>
     ustep n par std sz s (cancel_ctx c (s\<lparr>up_parent := True\<rparr>))"

inductive ureach :: "nat \<Rightarrow> nat \<Rightarrow> int \<Rightarrow> (nat \<Rightarrow> int) \<Rightarrow> uploader \<Rightarrow> bool" for n par std sz where
  start: "ureach n par std sz (start_uploader par)"
| step: "ureach n par std sz s \<Longrightarrow> ustep n par std sz s t \<Longrightarrow> ureach n par std sz t"

section \<open>Resources\<close>

definition busy :: "nat \<Rightarrow> uploader \<Rightarrow> nat" where
  "busy n s = card {i. i < n \<and> active (up_phase s i)}"

definition holders :: "nat \<Rightarrow> uploader \<Rightarrow> nat" where
  "holders n s = card {i. i < n \<and> up_phase s i = Holding}"

definition prefix_started :: "uploader \<Rightarrow> bool" where
  "prefix_started s \<longleftrightarrow> (\<forall>i. i < up_next s \<longleftrightarrow> up_phase s i \<noteq> Waiting)"

lemma prefix_startedD: "prefix_started s \<Longrightarrow> up_phase s i \<noteq> Waiting \<Longrightarrow> i < up_next s"
  by (simp add: prefix_started_def)

lemma prefix_started_next: "prefix_started s \<Longrightarrow> up_phase s (up_next s) = Waiting"
  unfolding prefix_started_def by blast

definition resource_inv :: "nat \<Rightarrow> nat \<Rightarrow> uploader \<Rightarrow> bool" where
  "resource_inv n par s \<longleftrightarrow> up_sem s = busy n s \<and> up_sem s \<le> par \<and> up_pool s + holders n s = par
     \<and> up_next s \<le> n \<and> (up_pc s = Acquiring \<longrightarrow> up_next s < n)
     \<and> prefix_started s"

lemma cancel_ctx_fields [simp]:
  "up_pc (cancel_ctx c s) = up_pc s" "up_next (cancel_ctx c s) = up_next s"
  "up_phase (cancel_ctx c s) = up_phase s" "up_sem (cancel_ctx c s) = up_sem s"
  "up_pool (cancel_ctx c s) = up_pool s" "up_err (cancel_ctx c s) = up_err s"
  "up_parent (cancel_ctx c s) = up_parent s" "up_ctx (cancel_ctx c s) \<noteq> None"
  by (simp_all add: cancel_ctx_def split: option.splits)

lemma set_phase_fields [simp]:
  "up_pc (set_phase i p s) = up_pc s" "up_next (set_phase i p s) = up_next s"
  "up_phase (set_phase i p s) = (up_phase s)(i := p)" "up_sem (set_phase i p s) = up_sem s"
  "up_pool (set_phase i p s) = up_pool s" "up_err (set_phase i p s) = up_err s"
  "up_parent (set_phase i p s) = up_parent s" "up_ctx (set_phase i p s) = up_ctx s"
  by (simp_all add: set_phase_def)

lemma send_err_fields:
  assumes "send_err e s t"
  shows "up_pc t = up_pc s" "up_next t = up_next s" "up_phase t = up_phase s" "up_sem t = up_sem s"
    "up_pool t = up_pool s" "up_ctx t = up_ctx s" "up_parent t = up_parent s"
    "up_err s \<noteq> None \<Longrightarrow> up_err t = up_err s" "up_err t \<noteq> None \<or> up_ctx s \<noteq> None"
  using assms by (auto elim!: send_err.cases)

lemma prefix_started_set_phase:
  "prefix_started s \<Longrightarrow> up_phase s i \<noteq> Waiting \<Longrightarrow> p \<noteq> Waiting \<Longrightarrow> up_phase t = up_phase s \<Longrightarrow>
   up_next t = up_next s \<Longrightarrow> prefix_started (set_phase i p t)"
  unfolding prefix_started_def by auto

lemma prefix_started_cong:
  "prefix_started s \<Longrightarrow> up_phase t = up_phase s \<Longrightarrow> up_next t = up_next s \<Longrightarrow> prefix_started t"
  unfolding prefix_started_def by simp

lemma finite_below [simp]: "finite {i. i < (n::nat) \<and> P i}"
  by simp

lemma card_insert_phase:
  assumes "i < n" "\<not> P (f i)" "P p"
  shows "card {j. j < n \<and> P ((f(i := p)) j)} = Suc (card {j. j < (n::nat) \<and> P (f j)})"
proof -
  have "{j. j < n \<and> P ((f(i := p)) j)} = insert i {j. j < n \<and> P (f j)}" using assms by auto
  moreover have "i \<notin> {j. j < n \<and> P (f j)}" using assms by simp
  ultimately show ?thesis by simp
qed

lemma card_remove_phase:
  assumes "i < n" "P (f i)" "\<not> P p"
  shows "Suc (card {j. j < n \<and> P ((f(i := p)) j)}) = card {j. j < (n::nat) \<and> P (f j)}"
proof -
  have "{j. j < n \<and> P (f j)} = insert i {j. j < n \<and> P ((f(i := p)) j)}" using assms by auto
  moreover have "i \<notin> {j. j < n \<and> P ((f(i := p)) j)}" using assms by simp
  ultimately show ?thesis by simp
qed

lemma card_same_phase:
  assumes "P (f i) = P p"
  shows "card {j. j < n \<and> P ((f(i := p)) j)} = card {j. j < (n::nat) \<and> P (f j)}"
proof -
  have "{j. j < n \<and> P ((f(i := p)) j)} = {j. j < n \<and> P (f j)}" using assms by auto
  then show ?thesis by simp
qed

lemma busy_set_phase:
  assumes "i < n"
  shows "active p \<Longrightarrow> \<not> active (up_phase s i) \<Longrightarrow> busy n (set_phase i p s) = Suc (busy n s)"
    "\<not> active p \<Longrightarrow> active (up_phase s i) \<Longrightarrow> Suc (busy n (set_phase i p s)) = busy n s"
    "active p = active (up_phase s i) \<Longrightarrow> busy n (set_phase i p s) = busy n s"
  unfolding busy_def set_phase_fields
  using card_insert_phase [of i n active "up_phase s" p] card_remove_phase [of i n active "up_phase s" p]
    card_same_phase [of active "up_phase s" i p n] assms by auto

lemma holders_set_phase:
  assumes "i < n"
  shows "up_phase s i \<noteq> Holding \<Longrightarrow> holders n (set_phase i Holding s) = Suc (holders n s)"
    "p \<noteq> Holding \<Longrightarrow> up_phase s i = Holding \<Longrightarrow> Suc (holders n (set_phase i p s)) = holders n s"
    "p \<noteq> Holding \<Longrightarrow> up_phase s i \<noteq> Holding \<Longrightarrow> holders n (set_phase i p s) = holders n s"
  unfolding holders_def set_phase_fields
  using card_insert_phase [of i n "\<lambda>x. x = Holding" "up_phase s" Holding]
    card_remove_phase [of i n "\<lambda>x. x = Holding" "up_phase s" p]
    card_same_phase [of "\<lambda>x. x = Holding" "up_phase s" i p n] assms by auto

lemma count_cong:
  "up_phase s = up_phase t \<Longrightarrow> busy n s = busy n t \<and> holders n s = holders n t"
  by (simp add: busy_def holders_def)

lemma active_simps [simp]: "active Started" "active Holding" "\<not> active Waiting" "\<not> active Uploaded"
  "\<not> active Failed" "\<not> active Gave_Up"
  by (simp_all add: active_def)

text \<open>A goroutine ends: its token returns to the semaphore and a buffer it holds to the pool.\<close>

lemma resource_release:
  assumes "resource_inv n par s" "i < n" "active (up_phase s i)" "\<not> active p" "p \<noteq> Waiting"
    and "up_phase t = up_phase s" "up_next t = up_next s" "up_pc t = up_pc s" "up_sem t = up_sem s - 1"
    and "up_pool t = up_pool s + (if up_phase s i = Holding then 1 else 0)"
  shows "resource_inv n par (set_phase i p t)"
proof -
  have "Suc (busy n (set_phase i p t)) = busy n s"
    using busy_set_phase(2) [of i n p t] assms(2-4,6) count_cong [of t s n] by simp
  moreover have "holders n (set_phase i p t) + (if up_phase s i = Holding then 1 else 0) = holders n s"
    using holders_set_phase(2,3) [OF assms(2), of p t] assms(3,4,6) count_cong [of t s n]
    by (cases "up_phase s i = Holding") (auto simp: active_def)
  moreover have "prefix_started (set_phase i p t)"
    using assms(1,3,5) by (intro prefix_started_set_phase [OF _ _ _ assms(6,7)]) (auto simp: resource_inv_def active_def)
  ultimately show ?thesis
    using assms(1,7-10) by (auto simp: resource_inv_def split: if_splits)
qed

lemma resource_cancel [simp]: "resource_inv n par (cancel_ctx c s) = resource_inv n par s"
  using count_cong [of "cancel_ctx c s" s n] by (simp add: resource_inv_def prefix_started_def)

lemma ustep_resources: "ustep n par std sz s t \<Longrightarrow> resource_inv n par s \<Longrightarrow> resource_inv n par t"
proof (induction rule: ustep.induct)
  case (acquire s)
  let ?s = "s\<lparr>up_pc := Checking, up_sem := up_sem s + 1, up_next := up_next s + 1\<rparr>"
  have n: "up_next s < n" "up_phase s (up_next s) = Waiting"
    using acquire prefix_started_next by (auto simp: resource_inv_def)
  have "busy n (set_phase (up_next s) Started ?s) = Suc (busy n s)"
    using busy_set_phase(1) [OF n(1), of Started ?s] n(2) count_cong [of ?s s n] by simp
  moreover have "holders n (set_phase (up_next s) Started ?s) = holders n s"
    using holders_set_phase(3) [OF n(1), of Started ?s] n(2) count_cong [of ?s s n] by simp
  moreover have "prefix_started (set_phase (up_next s) Started ?s)"
    using acquire(3) unfolding resource_inv_def prefix_started_def by (auto simp: less_Suc_eq)
  ultimately show ?case using acquire n(1) by (auto simp: resource_inv_def)
next
  case (invalid_size s i e t)
  have "resource_inv n par (set_phase i Failed (t\<lparr>up_sem := up_sem t - 1\<rparr>))"
    by (rule resource_release [OF invalid_size(6,2)])
      (simp_all add: invalid_size(3) send_err_fields [OF invalid_size(5)])
  then show ?case by simp
next
  case (get_buffer s i)
  let ?s = "s\<lparr>up_pool := up_pool s - 1\<rparr>"
  have "busy n (set_phase i Holding ?s) = busy n s"
    using busy_set_phase(3) [OF get_buffer(2), of Holding ?s] get_buffer(3) count_cong [of ?s s n] by simp
  moreover have "holders n (set_phase i Holding ?s) = Suc (holders n s)"
    using holders_set_phase(1) [OF get_buffer(2), of ?s] get_buffer(3) count_cong [of ?s s n] by simp
  moreover have "prefix_started (set_phase i Holding ?s)"
    using get_buffer by (intro prefix_started_set_phase [of s]) (auto simp: resource_inv_def)
  ultimately show ?case using get_buffer by (auto simp: resource_inv_def)
next
  case (give_up s i)
  show ?case
    by (rule resource_release [OF give_up(6,2)]) (simp_all add: give_up(3))
next
  case (part_done s i)
  show ?case
    by (rule resource_release [OF part_done(5,2)]) (simp_all add: part_done(3))
next
  case (part_failed s i e t)
  have "resource_inv n par (set_phase i Failed (t\<lparr>up_sem := up_sem t - 1, up_pool := up_pool t + 1\<rparr>))"
    by (rule resource_release [OF part_failed(6,2)])
      (simp_all add: part_failed(3) send_err_fields [OF part_failed(5)])
  then show ?case by simp
qed (auto simp: resource_inv_def busy_def holders_def elim: prefix_started_cong)

section \<open>A failure is never forgotten\<close>

definition trouble :: "uploader \<Rightarrow> bool" where
  "trouble s \<longleftrightarrow> up_ctx s \<noteq> None \<or> (\<exists>i. up_phase s i = Failed \<or> up_phase s i = Gave_Up)"

definition reported :: "uploader \<Rightarrow> bool" where
  "reported s \<longleftrightarrow> up_parent s \<or> up_err s \<noteq> None
     \<or> (case up_pc s of Leaving _ \<Rightarrow> True | Returned (Some _) \<Rightarrow> True | Crashed \<Rightarrow> True | _ \<Rightarrow> False)"

definition report_inv :: "nat \<Rightarrow> uploader \<Rightarrow> bool" where
  "report_inv n s \<longleftrightarrow> (trouble s \<longrightarrow> reported s)
     \<and> (up_pc s = Joining \<or> up_pc s = Returned None \<longrightarrow> up_next s = n)
     \<and> (up_pc s = Returned None \<longrightarrow> up_err s = None)
     \<and> (case up_pc s of Returned _ \<Rightarrow> quiet n s | _ \<Rightarrow> True)"

lemma ustep_report: "ustep n par std sz s t \<Longrightarrow> report_inv n s \<Longrightarrow> report_inv n t"
proof (induction rule: ustep.induct)
  case (acquire s)
  then show ?case by (auto simp: report_inv_def trouble_def reported_def split: if_splits)
next
  case (invalid_size s i e t)
  have "trouble s \<longrightarrow> reported s" using invalid_size by (simp add: report_inv_def)
  then show ?case
    using invalid_size send_err_fields [OF invalid_size(5)]
    by (auto simp: report_inv_def trouble_def reported_def quiet_def split: loop_state.splits option.splits)
next
  case (part_failed s i e t)
  then show ?case
    using send_err_fields [OF part_failed(5)]
    by (auto simp: report_inv_def trouble_def reported_def quiet_def split: loop_state.splits option.splits)
next
  case (join s)
  then show ?case by (auto simp: report_inv_def trouble_def reported_def quiet_def split: option.splits)
qed (auto simp: report_inv_def trouble_def reported_def quiet_def split: loop_state.splits option.splits if_splits)

section \<open>The upload ends\<close>

fun phase_rank :: "phase \<Rightarrow> nat" where
  "phase_rank Waiting = 3"
| "phase_rank Started = 2"
| "phase_rank Holding = 1"
| "phase_rank _ = 0"

fun pc_rank :: "loop_state \<Rightarrow> nat" where
  "pc_rank Checking = 4"
| "pc_rank Acquiring = 3"
| "pc_rank (Returned _) = 1"
| "pc_rank Crashed = 0"
| "pc_rank _ = 2"

definition work :: "nat \<Rightarrow> uploader \<Rightarrow> nat" where
  "work n s = 4 * (\<Sum>i<n. phase_rank (up_phase s i)) + pc_rank (up_pc s) + (if up_parent s then 0 else 1)"

lemma sum_rank_update:
  assumes "i < n" "phase_rank p < phase_rank (f i)"
  shows "(\<Sum>j<n. phase_rank ((f(i := p)) j)) < (\<Sum>j<(n::nat). phase_rank (f j))"
  by (rule sum_strict_mono_ex1) (use assms in \<open>auto intro!: bexI [of _ i]\<close>)

lemma work_set_phase:
  assumes "i < n" "phase_rank p < phase_rank (up_phase s i)" "up_phase t = up_phase s"
    and "up_parent t = up_parent s" "pc_rank (up_pc t) \<le> pc_rank (up_pc s) + 3"
  shows "work n (set_phase i p t) < work n s"
  using sum_rank_update [of i n p "up_phase s"] assms by (simp add: work_def)

lemma work_cancel [simp]: "work n (cancel_ctx c s) = work n s"
  by (simp add: work_def)

lemma ustep_decreases: "ustep n par std sz s t \<Longrightarrow> resource_inv n par s \<Longrightarrow> work n t < work n s"
proof (induction rule: ustep.induct)
  case (acquire s)
  then have "up_next s < n" "up_phase s (up_next s) = Waiting"
    using prefix_started_next by (auto simp: resource_inv_def)
  then show ?case using acquire by (intro work_set_phase) auto
next
  case (invalid_size s i e t)
  note f = send_err_fields [OF invalid_size(5)]
  have "work n (set_phase i Failed (t\<lparr>up_sem := up_sem t - 1\<rparr>)) < work n s"
    using invalid_size(2,3) by (intro work_set_phase) (simp_all add: f)
  then show ?case by simp
next
  case (part_failed s i e t)
  note f = send_err_fields [OF part_failed(5)]
  have "work n (set_phase i Failed (t\<lparr>up_sem := up_sem t - 1, up_pool := up_pool t + 1\<rparr>)) < work n s"
    using part_failed(2,3) by (intro work_set_phase) (simp_all add: f)
  then show ?case by simp
next
  case (get_buffer s i)
  then show ?case by (intro work_set_phase) simp_all
next
  case (give_up s i)
  then show ?case by (intro work_set_phase) simp_all
next
  case (part_done s i)
  then show ?case by (intro work_set_phase) simp_all
next
  case (oversized s i)
  then show ?case by (cases "up_pc s") (simp_all add: work_def)
qed (simp_all add: work_def)

text \<open>A goroutine that has started can always go on, or another one holds its buffer and can end.\<close>

lemma worker_progress:
  assumes "resource_inv n par s" "0 < par" "i < n" "active (up_phase s i)" and nc: "up_pc s \<noteq> Crashed"
  shows "\<exists>t. ustep n par std sz s t \<and> up_parent t = up_parent s"
proof -
  have holder: ?thesis if "j < n" "up_phase s j = Holding" for j
  proof (cases "sz j \<le> std")
    case True
    from ustep.part_done [where sz = sz and std = std and i = j, OF nc that True, of par] show ?thesis by fastforce
  next
    case False
    then have "std < sz j" by simp
    from ustep.oversized [where sz = sz and std = std and i = j, OF nc that this, of par] show ?thesis by fastforce
  qed
  show ?thesis
  proof (cases "up_phase s i = Holding")
    case True
    then show ?thesis using holder assms(3) by blast
  next
    case False
    then have st: "up_phase s i = Started" using assms(4) by (simp add: active_def)
    consider "sz i < 0" | "0 \<le> sz i" "up_pool s > 0" | "0 \<le> sz i" "up_pool s = 0" by linarith
    then show ?thesis
    proof cases
      case 1
      show ?thesis
      proof (cases "up_err s")
        case None
        have "send_err (Msg (Lit [])) s (s\<lparr>up_err := Some (Msg (Lit []))\<rparr>)" by (rule send_err.sent [OF None])
        from ustep.invalid_size [where std = std and sz = sz and i = i, OF nc assms(3) st 1 this] show ?thesis by fastforce
      next
        case (Some e)
        then have "send_err (Msg (Lit [])) s s" by (intro send_err.dropped) simp
        from ustep.invalid_size [where std = std and sz = sz and i = i, OF nc assms(3) st 1 this] show ?thesis by fastforce
      qed
    next
      case 2
      from ustep.get_buffer [where std = std and sz = sz and i = i, OF nc assms(3) st 2] show ?thesis by fastforce
    next
      case 3
      then have "holders n s = par" using assms(1) by (simp add: resource_inv_def)
      then have "{j. j < n \<and> up_phase s j = Holding} \<noteq> {}"
        using assms(2) unfolding holders_def by (metis card.empty less_irrefl)
      then show ?thesis using holder by blast
    qed
  qed
qed

lemma uploader_progress:
  assumes "resource_inv n par s" "0 < par" "\<And>r. up_pc s \<noteq> Returned r" and nc: "up_pc s \<noteq> Crashed"
  shows "\<exists>t. ustep n par std sz s t \<and> up_parent t = up_parent s"
proof -
  have wait: ?thesis if "\<not> quiet n s"
    using that worker_progress [OF assms(1,2) _ _ nc] by (auto simp: quiet_def)
  show ?thesis
  proof (cases "up_pc s")
    case Checking
    show ?thesis
    proof (cases "up_next s < n")
      case True
      show ?thesis
      proof (cases "up_err s")
        case None
        from ustep.no_error [OF Checking True None] show ?thesis by fastforce
      next
        case (Some e)
        from ustep.see_error [OF Checking True Some] show ?thesis by fastforce
      qed
    next
      case False
      then have "up_next s = n" using assms(1) by (simp add: resource_inv_def)
      from ustep.all_started [OF Checking this] show ?thesis by fastforce
    qed
  next
    case Acquiring
    show ?thesis
    proof (cases "up_sem s < par")
      case True
      from ustep.acquire [OF Acquiring True] show ?thesis by fastforce
    next
      case False
      then have "busy n s \<noteq> 0" using assms(1,2) by (simp add: resource_inv_def)
      then have "\<not> quiet n s" by (auto simp: busy_def quiet_def)
      then show ?thesis by (rule wait)
    qed
  next
    case Joining
    show ?thesis
    proof (cases "quiet n s")
      case True
      from ustep.join [OF Joining True] show ?thesis by fastforce
    qed (rule wait)
  next
    case (Leaving e)
    show ?thesis
    proof (cases "quiet n s")
      case True
      from ustep.leave [OF Leaving True] show ?thesis by fastforce
    qed (rule wait)
  next
    case (Returned r)
    with assms(3) show ?thesis by blast
  next
    case Crashed
    with nc show ?thesis by blast
  qed
qed

lemma ustep_crash:
  "ustep n par std sz s t \<Longrightarrow> up_pc s = Crashed \<longrightarrow> (\<exists>i<n. std < sz i) \<Longrightarrow> up_pc t = Crashed \<longrightarrow> (\<exists>i<n. std < sz i)"
proof (induction rule: ustep.induct)
  case (invalid_size s i e t)
  then show ?case using send_err_fields(1) [OF invalid_size(5)] by auto
next
  case (part_failed s i e t)
  then show ?case using send_err_fields(1) [OF part_failed(5)] by auto
qed auto

lemma ureach_crash: "ureach n par std sz s \<Longrightarrow> up_pc s = Crashed \<longrightarrow> (\<exists>i<n. std < sz i)"
proof (induction rule: ureach.induct)
  case start
  then show ?case by (simp add: start_uploader_def)
qed (rule ustep_crash)

lemma ureach_resources: "ureach n par std sz s \<Longrightarrow> resource_inv n par s"
proof (induction rule: ureach.induct)
  case start
  show ?case by (simp add: resource_inv_def start_uploader_def busy_def holders_def prefix_started_def)
qed (rule ustep_resources)

lemma ureach_report: "ureach n par std sz s \<Longrightarrow> report_inv n s"
proof (induction rule: ureach.induct)
  case start
  show ?case by (simp add: report_inv_def start_uploader_def trouble_def)
qed (rule ustep_report)

lemma usteps_bounded:
  "(ustep n par std sz ^^ k) s t \<Longrightarrow> ureach n par std sz s \<Longrightarrow> ureach n par std sz t \<and> k + work n t \<le> work n s"
proof (induction k arbitrary: t)
  case (Suc k)
  then obtain u where u: "(ustep n par std sz ^^ k) s u" "ustep n par std sz u t" by auto
  then have "ureach n par std sz u" "k + work n u \<le> work n s" using Suc by auto
  then show ?case
    using u(2) ustep_decreases [OF u(2)] ureach_resources ureach.step by fastforce
qed simp

lemma work_bound: "work n s \<le> 12 * n + 5"
proof -
  have "(\<Sum>i<n. phase_rank (up_phase s i)) \<le> (\<Sum>i<n. 3)"
  proof (rule sum_mono)
    fix i
    show "phase_rank (up_phase s i) \<le> 3" by (cases "up_phase s i") simp_all
  qed
  moreover have "pc_rank (up_pc s) \<le> 4" by (cases "up_pc s") simp_all
  ultimately show ?thesis by (simp add: work_def)
qed

section \<open>Properties\<close>

text \<open>C5: If the upload of the parts returns without an error and the caller did not cancel it,
  every part was uploaded, whatever the interleaving; and when it returns, with or without an
  error, all semaphore tokens and buffers are back.\<close>

theorem part_upload_complete:
  assumes "ureach n par std sz s" "up_pc s = Returned r"
  shows "up_sem s = 0 \<and> up_pool s = par
     \<and> (r = None \<and> \<not> up_parent s \<longrightarrow> (\<forall>i < n. up_phase s i = Uploaded))"
proof -
  have res: "resource_inv n par s" and rep: "report_inv n s"
    using assms(1) ureach_resources ureach_report by auto
  have q: "quiet n s" using rep assms(2) by (simp add: report_inv_def)
  then have "busy n s = 0" "holders n s = 0" by (auto simp: busy_def holders_def quiet_def active_def)
  then have "up_sem s = 0 \<and> up_pool s = par" using res by (simp add: resource_inv_def)
  moreover have "up_phase s i = Uploaded" if "r = None" "\<not> up_parent s" "i < n" for i
  proof -
    have "\<not> trouble s"
      using rep assms(2) that res unfolding report_inv_def reported_def
      by (auto simp: resource_inv_def)
    moreover have "up_phase s i \<noteq> Waiting"
      using rep res assms(2) that by (auto simp: report_inv_def resource_inv_def prefix_started_def)
    moreover have "\<not> active (up_phase s i)" using q that by (simp add: quiet_def)
    ultimately show ?thesis
      by (cases "up_phase s i") (auto simp: trouble_def active_def)
  qed
  ultimately show ?thesis by blast
qed

text \<open>C37: The upload of the parts cannot hang and cannot run forever, with at least one slot and
  every read and request ending: at each moment it has returned, or the process has crashed
  because a part is larger than the buffers, or some step is possible without the caller's help,
  and every run is finite, with a bound linear in the number of parts.\<close>

theorem part_upload_terminates:
  assumes "ureach n par std sz s" "0 < par"
  shows "((\<exists>r. up_pc s = Returned r) \<or> up_pc s = Crashed \<and> (\<exists>i<n. std < sz i)
       \<or> (\<exists>t. ustep n par std sz s t \<and> up_parent t = up_parent s))
     \<and> (\<forall>k t. (ustep n par std sz ^^ k) s t \<longrightarrow> k + work n t \<le> work n s) \<and> work n s \<le> 12 * n + 5"
proof -
  have "(\<exists>r. up_pc s = Returned r) \<or> up_pc s = Crashed \<and> (\<exists>i<n. std < sz i)
       \<or> (\<exists>t. ustep n par std sz s t \<and> up_parent t = up_parent s)"
    using uploader_progress [OF ureach_resources [OF assms(1)] assms(2)] ureach_crash [OF assms(1)] by blast
  then show ?thesis using usteps_bounded [OF _ assms(1)] work_bound by blast
qed

section \<open>Concrete runs\<close>

text \<open>Two parts, one slot.\<close>

definition run_state :: "loop_state \<Rightarrow> nat \<Rightarrow> phase \<Rightarrow> phase \<Rightarrow> nat \<Rightarrow> nat \<Rightarrow> go_error option \<Rightarrow> sentinel option \<Rightarrow> uploader" where
  "run_state pc nx p0 p1 sem pool err ctx = \<lparr>up_pc = pc, up_next = nx, up_phase = (\<lambda>_. Waiting)(0 := p0, 1 := p1),
     up_sem = sem, up_pool = pool, up_err = err, up_ctx = ctx, up_parent = False\<rparr>"

lemma run_start: "run_state Checking 0 Waiting Waiting 0 1 None None = start_uploader 1"
  by (auto simp: run_state_def start_uploader_def)

lemmas run_simps = run_state_def set_phase_def cancel_ctx_def fun_upd_twist numeral_2_eq_2

text \<open>Up to the moment both parts compete for the slot; the steps are those of any run of two parts
  of at most eight bytes.\<close>

lemma run_first:
  assumes "0 \<le> sz 0"
  shows "ureach 2 1 8 sz (run_state Acquiring 1 Holding Waiting 1 0 None None)"
proof -
  let ?R = "ureach 2 1 8 sz"
  have 0: "?R (run_state Checking 0 Waiting Waiting 0 1 None None)"
    unfolding run_start by (rule ureach.start)
  have 1: "?R (run_state Acquiring 0 Waiting Waiting 0 1 None None)"
    by (rule ureach.step [OF 0]) (use ustep.no_error [of "run_state Checking 0 Waiting Waiting 0 1 None None" 2 1 8 sz] in \<open>simp add: run_simps\<close>)
  have 2: "?R (run_state Checking 1 Started Waiting 1 1 None None)"
    by (rule ureach.step [OF 1]) (use ustep.acquire [of "run_state Acquiring 0 Waiting Waiting 0 1 None None" 1 2 8 sz] in \<open>simp add: run_simps\<close>)
  have 3: "?R (run_state Acquiring 1 Started Waiting 1 1 None None)"
    by (rule ureach.step [OF 2]) (use ustep.no_error [of "run_state Checking 1 Started Waiting 1 1 None None" 2 1 8 sz] in \<open>simp add: run_simps\<close>)
  show ?thesis
    by (rule ureach.step [OF 3]) (use ustep.get_buffer [of "run_state Acquiring 1 Started Waiting 1 1 None None" 0 2 sz 1 8] assms in \<open>simp add: run_simps\<close>)
qed

text \<open>The first part fails with \<open>e\<close> while the loop waits for the slot.\<close>

lemma run_returns:
  assumes "0 \<le> sz 0" "sz 0 \<le> 8"
  shows "ureach 2 1 8 sz (run_state (Returned (Some (Sentinel Ctx_Canceled))) 1 Failed Waiting 0 1 (Some e) (Some Ctx_Canceled))"
proof -
  let ?R = "ureach 2 1 8 sz"
  let ?h = "run_state Acquiring 1 Holding Waiting 1 0 None None"
  let ?l = "run_state (Leaving (Sentinel Ctx_Canceled)) 1 Failed Waiting 0 1 (Some e) (Some Ctx_Canceled)"
  have s: "send_err e ?h (run_state Acquiring 1 Holding Waiting 1 0 (Some e) None)"
    using send_err.sent [of ?h e] by (simp add: run_state_def)
  have 5: "?R (run_state Acquiring 1 Failed Waiting 0 1 (Some e) (Some Ctx_Canceled))"
    by (rule ureach.step [OF run_first [of sz, OF assms(1)]])
      (use ustep.part_failed [OF _ _ _ _ s, of 0 2 sz 8 1] assms(2) in \<open>simp add: run_simps\<close>)
  have 6: "?R ?l"
    by (rule ureach.step [OF 5]) (use ustep.acquire_cancelled [of "run_state Acquiring 1 Failed Waiting 0 1 (Some e) (Some Ctx_Canceled)" Ctx_Canceled 2 1 8 sz] in \<open>simp add: run_simps\<close>)
  have "quiet 2 ?l" by (auto simp: quiet_def run_state_def)
  then show ?thesis
    by (intro ureach.step [OF 6]) (use ustep.leave [of ?l "Sentinel Ctx_Canceled" 2 1 8 sz] in \<open>simp add: run_simps\<close>)
qed

text \<open>Both parts are uploaded.\<close>

lemma run_succeeds:
  "ureach 2 1 8 (\<lambda>_. 4) (run_state (Returned None) 2 Uploaded Uploaded 0 1 None None)"
proof -
  let ?sz = "\<lambda>_. 4 :: int"
  let ?R = "ureach 2 1 8 ?sz"
  have 5: "?R (run_state Acquiring 1 Uploaded Waiting 0 1 None None)"
    by (rule ureach.step [OF run_first [of ?sz]])
      (use ustep.part_done [of "run_state Acquiring 1 Holding Waiting 1 0 None None" 0 2 ?sz 8 1] in \<open>simp_all add: run_simps\<close>)
  have 6: "?R (run_state Checking 2 Uploaded Started 1 1 None None)"
    by (rule ureach.step [OF 5]) (use ustep.acquire [of "run_state Acquiring 1 Uploaded Waiting 0 1 None None" 1 2 8 ?sz] in \<open>simp add: run_simps\<close>)
  have 7: "?R (run_state Checking 2 Uploaded Holding 1 0 None None)"
    by (rule ureach.step [OF 6]) (use ustep.get_buffer [of "run_state Checking 2 Uploaded Started 1 1 None None" 1 2 ?sz 1 8] in \<open>simp add: run_simps\<close>)
  have 8: "?R (run_state Checking 2 Uploaded Uploaded 0 1 None None)"
    by (rule ureach.step [OF 7])
      (use ustep.part_done [of "run_state Checking 2 Uploaded Holding 1 0 None None" 1 2 ?sz 8 1] in \<open>simp add: run_simps\<close>)
  have 9: "?R (run_state Joining 2 Uploaded Uploaded 0 1 None None)"
    by (rule ureach.step [OF 8]) (use ustep.all_started [of "run_state Checking 2 Uploaded Uploaded 0 1 None None" 2 1 8 ?sz] in \<open>simp add: run_simps\<close>)
  have "quiet 2 (run_state Joining 2 Uploaded Uploaded 0 1 None None)" by (auto simp: quiet_def run_state_def)
  then show ?thesis
    by (intro ureach.step [OF 9]) (use ustep.join [of "run_state Joining 2 Uploaded Uploaded 0 1 None None" 2 1 8 ?sz] in \<open>simp add: run_simps\<close>)
qed

lemma interrupted_exit:
  "exit_code_for (normalize_error q (Some (Sentinel Ctx_Canceled))) = 130"
  by (simp add: normalize_error_def as_app_def as_converted_def)
    (simp add: exit_code_for_def app_new_def)

theorem part_upload_complete_witness:
  "\<exists>s. ureach 2 1 8 (\<lambda>_. 4) s \<and> up_pc s = Returned None \<and> \<not> up_parent s
     \<and> up_phase s 0 = Uploaded \<and> up_phase s 1 = Uploaded \<and> up_pool s = 1"
proof -
  let ?s = "run_state (Returned None) 2 Uploaded Uploaded 0 1 None None"
  have "up_pc ?s = Returned None" "\<not> up_parent ?s" by (simp_all add: run_state_def)
  with part_upload_complete [OF run_succeeds this(1)] run_succeeds show ?thesis
    by (intro exI [of _ ?s]) simp
qed

theorem part_upload_terminates_witness:
  "\<exists>t. ustep 2 1 8 (\<lambda>_. 4) (start_uploader 1) t"
  using part_upload_terminates [OF ureach.start, of 1 2 8 "\<lambda>_. 4"] by (auto simp: start_uploader_def)

text \<open>The failure of a part can be reported as an interruption: for every error \<open>e\<close> of a part
  there is a run that nobody cancelled and whose result is \<open>context.Canceled\<close>, which the
  command line turns into exit code 130 and the text \<open>interrupted\<close>, while \<open>e\<close> stays in the channel.\<close>

theorem part_failure_reported_as_interrupt:
  "\<exists>s. ureach 2 1 8 (\<lambda>_. 4) s \<and> \<not> up_parent s \<and> up_phase s 0 = Failed \<and> up_err s = Some e
     \<and> up_pc s = Returned (Some (Sentinel Ctx_Canceled))
     \<and> exit_code_for (normalize_error q (Some (Sentinel Ctx_Canceled))) = 130"
  using run_returns [of "\<lambda>_. 4" e] interrupted_exit by (fastforce simp: run_state_def)

text \<open>A part larger than the buffers ends the process: the plan comes from the server.\<close>

theorem oversized_part_crashes:
  "\<exists>s. ureach 2 1 8 (\<lambda>_. 9) s \<and> up_pc s = Crashed"
proof -
  let ?h = "run_state Acquiring 1 Holding Waiting 1 0 None None"
  have "ustep 2 1 8 (\<lambda>_. 9) ?h (?h\<lparr>up_pc := Crashed\<rparr>)"
    by (rule ustep.oversized [of _ 0]) (simp_all add: run_state_def)
  from ureach.step [OF run_first this] show ?thesis by fastforce
qed

end
