(* ===== verification/Api_Client.thy ===== *)
theory Api_Client
  imports Go_Errors
begin

text \<open>
  The HTTP client all services share (\<open>internal/api/client.go\<close>): the retry loop \<open>do\<close>, the
  three ways to run a request, and the translation of a status into an error with its exit
  code.  The transport is a parameter: the outcome of the \<open>i\<close>-th send of a request.  So are
  the JSON decoder and the redactor.
\<close>

section \<open>The client\<close>

record api_client =
  ac_profile :: string
  ac_permission :: string
  ac_action :: string
  ac_provider :: string
  ac_region :: string
  ac_is_fs :: bool
  ac_max_retries :: int
  ac_bearer :: bool

definition default_max_retries :: int where "default_max_retries = 2"

definition effective_retries :: "int \<Rightarrow> int" where
  "effective_retries n = (if n = 0 then default_max_retries else if n < 0 then 0 else n)"

text \<open>\<open>url_ok\<close> says whether \<open>url.Parse\<close> finds a scheme and a host.\<close>

definition new_client :: "(string \<Rightarrow> bool) \<Rightarrow> string \<Rightarrow> api_client \<Rightarrow> go_error + api_client" where
  "new_client url_ok base_url opts =
     (if base_url = [] then
        Inl (app_new ''api.missing_endpoint'' ''config'' 2 (Lit ''internal API endpoint is missing''))
      else if \<not> url_ok base_url then
        Inl (app_new ''api.invalid_endpoint'' ''config'' 2 (Fmt ''invalid internal endpoint %q'' [Lit base_url]))
      else Inr (opts\<lparr>ac_max_retries := effective_retries (ac_max_retries opts), ac_bearer := False\<rparr>))"

definition new_bearer_client ::
  "(string \<Rightarrow> bool) \<Rightarrow> string \<Rightarrow> string \<Rightarrow> api_client \<Rightarrow> go_error + api_client" where
  "new_bearer_client url_ok api_key base_url opts =
     (if trim_space api_key = [] then
        Inl (app_new ''auth.missing_fs_api_key'' ''authentication'' 3
          (Fmt ''authentication required: missing fs_api_key for profile %q. Create or configure a ti fs resource first.''
             [Lit (ac_profile opts)]))
      else bind_result (new_client url_ok base_url opts) (\<lambda>c. Inr (c\<lparr>ac_bearer := True\<rparr>)))"

text \<open>The path \<open>resolveURL\<close> joins to the base, for parsed paths.\<close>

definition join_url_path :: "string \<Rightarrow> string \<Rightarrow> string" where
  "join_url_path base p =
     rev (dropWhile (\<lambda>c. c = CHR ''/'') (rev base)) @ ''/'' @ dropWhile (\<lambda>c. c = CHR ''/'') p"

section \<open>Sending with retries\<close>

record http_reply =
  rp_status :: int
  rp_body :: string
  rp_request_id :: string

datatype outcome = Net_Error go_error | Reply http_reply

definition retryable :: "int \<Rightarrow> bool" where
  "retryable status \<longleftrightarrow> status = 429 \<or> status \<ge> 500"

definition retryable_request :: "string \<Rightarrow> bool" where
  "retryable_request meth \<longleftrightarrow> meth \<in> {''GET'', ''HEAD'', ''OPTIONS'', ''TRACE''}"

text \<open>A response whose body was read to the end and closed before the next attempt.\<close>

definition drained :: "http_reply \<Rightarrow> http_reply" where
  "drained r = r\<lparr>rp_body := []\<rparr>"

text \<open>
  The loop with \<open>left\<close> attempts to go, after \<open>sent\<close> sends: \<open>send i\<close> is what the transport
  answers to the \<open>i\<close>-th send and \<open>rebuild i\<close> the error of \<open>GetBody\<close>, if any.  The number of
  sends is part of the result.
\<close>

fun do_loop ::
  "(nat \<Rightarrow> outcome) \<Rightarrow> (nat \<Rightarrow> go_error option) \<Rightarrow> bool \<Rightarrow> nat \<Rightarrow> nat \<Rightarrow> http_reply option \<Rightarrow> go_error option \<Rightarrow>
   (go_error option + http_reply) \<times> nat" where
  "do_loop send rebuild can_retry 0 sent last_res last_err =
     ((case last_res of Some r \<Rightarrow> Inr r | None \<Rightarrow> Inl last_err), sent)"
| "do_loop send rebuild can_retry (Suc left) sent last_res last_err =
     (case (if sent > 0 then rebuild sent else None) of
        Some e \<Rightarrow> (Inl (Some e), sent)
      | None \<Rightarrow>
          (case send sent of
             Net_Error e \<Rightarrow>
               if \<not> can_retry then (Inl (Some e), Suc sent)
               else do_loop send rebuild can_retry left (Suc sent) last_res (Some e)
           | Reply r \<Rightarrow>
               if \<not> can_retry \<or> \<not> retryable (rp_status r) \<or> left = 0 then (Inr r, Suc sent)
               else do_loop send rebuild can_retry left (Suc sent) (Some (drained r)) last_err))"

definition attempts_of :: "api_client \<Rightarrow> nat" where
  "attempts_of c = nat (if ac_max_retries c + 1 < 1 then 1 else ac_max_retries c + 1)"

definition do_request ::
  "api_client \<Rightarrow> string \<Rightarrow> (nat \<Rightarrow> outcome) \<Rightarrow> (nat \<Rightarrow> go_error option) \<Rightarrow> (go_error option + http_reply) \<times> nat" where
  "do_request c meth send rebuild =
     do_loop send rebuild (retryable_request meth) (attempts_of c) 0 None None"

section \<open>Errors of a status\<close>

record remote_error =
  er_message :: string
  er_code :: string
  er_details :: string
  er_action_type :: string

record api_error =
  ae_code :: string
  ae_category :: string
  ae_exit :: int
  ae_status :: int
  ae_request_id :: string
  ae_message :: gotext
  ae_body :: string
  ae_remote_code :: string
  ae_remote_details :: string
  ae_remote_action :: string

definition to_go_error :: "api_error \<Rightarrow> go_error" where
  "to_go_error a = ApiErr (ae_code a) (ae_category a) (ae_exit a) (ae_status a) (ae_message a) (ae_body a) None"

definition message_or_default :: "string \<Rightarrow> gotext \<Rightarrow> gotext" where
  "message_or_default m fallback = (if m \<noteq> [] then Lit m else fallback)"

definition profile_name :: "string \<Rightarrow> string" where
  "profile_name n = (if n = [] then ''default'' else n)"

definition permission_denied_message :: "string \<Rightarrow> string \<Rightarrow> string \<Rightarrow> string \<Rightarrow> string \<Rightarrow> gotext" where
  "permission_denied_message profile permission action0 provider region =
     (let action = (if action0 = [] then permission else action0);
          location0 = (if region \<noteq> [] then provider @ ''/'' @ region else provider);
          location = (if location0 = [] then ''the selected scope'' else location0) in
      Fmt ''permission denied: profile %q is not allowed to %s in %s. Ask an organization admin for %s permission or use another profile.''
        [Lit profile, Lit action, Lit location, Lit permission])"

text \<open>The message of a 403 from the file-system service, by permission.\<close>

definition fs_forbidden_message :: "api_client \<Rightarrow> gotext \<Rightarrow> gotext" where
  "fs_forbidden_message c m =
     (if ac_permission c = ''fs.token.issue_scoped'' then
        Lit ''permission denied: generating a scoped file system token requires an owner FS token; TI_FS_TOKEN or --fs-token currently contains a scoped token or another token without owner permission''
      else if ac_permission c = ''fs.token.list'' \<or> ac_permission c = ''fs.token.delete'' then
        (if ac_bearer c then Lit ''permission denied: this token management operation requires an owner FS token; TI_FS_TOKEN or --fs-token currently contains a scoped token or another token without owner permission'' else m)
      else if ac_permission c = ''fs.token.enable'' \<or> ac_permission c = ''fs.token.disable'' then
        (if ac_bearer c then Lit ''permission denied: enabling or disabling a token requires an owner FS token and the target must be an fs_scoped token'' else m)
      else if ac_permission c = ''fs.file.read'' \<or> ac_permission c = ''fs.file.write'' \<or> ac_permission c = ''fs.mount'' then
        Lit ''permission denied: the selected FS token does not allow this operation or path; use an owner token or a scoped token whose prefix and operations include the request''
      else m)"

definition forbidden_message :: "api_client \<Rightarrow> string \<Rightarrow> gotext" where
  "forbidden_message c remote_text =
     (let m = permission_denied_message (profile_name (ac_profile c)) (ac_permission c) (ac_action c)
                (ac_provider c) (ac_region c) in
      if ac_is_fs c then
        (let m' = fs_forbidden_message c m in
         if \<not> ac_bearer c \<and> remote_text \<noteq> [] then Fmt ''%s Backend: %s'' [m', Lit remote_text] else m')
      else m)"

definition unauthorized_message :: "api_client \<Rightarrow> gotext" where
  "unauthorized_message c =
     (if ac_is_fs c \<and> ac_bearer c then
        Fmt ''authentication failed: ti fs rejected the selected token for profile %q. It might be disabled, expired, refreshed elsewhere, or revoked; generate or import a valid token and try again.''
          [Lit (profile_name (ac_profile c))]
      else
        Fmt ''authentication failed: TiDB Cloud rejected the API key pair for profile %q. Check ~/.ti/credentials or create a new API key.''
          [Lit (profile_name (ac_profile c))])"

definition status_error ::
  "(string \<Rightarrow> string) \<Rightarrow> (string \<Rightarrow> remote_error) \<Rightarrow> api_client \<Rightarrow> string \<Rightarrow> string \<Rightarrow> http_reply \<Rightarrow> api_error" where
  "status_error redact parse_remote c meth path res =
     (let body = redact (take 65536 (rp_body res));
          remote = parse_remote body;
          remote_text = er_message remote;
          err = (\<lambda>code category exit m. \<lparr>ae_code = code, ae_category = category, ae_exit = exit,
                   ae_status = rp_status res, ae_request_id = rp_request_id res, ae_message = m, ae_body = body,
                   ae_remote_code = [], ae_remote_details = [], ae_remote_action = []\<rparr>);
          status = rp_status res in
      if status = 400 then
        (let m = (if remote_text \<noteq> [] then remote_text
                  else ''remote API rejected the request: check command flags and try again'');
             low = to_lower m in
         if contains_str low ''quota'' \<or> contains_str low ''capacity'' \<or> contains_str low ''limit''
         then err ''api.quota_or_capacity'' ''api'' 2 (Lit (''quota or capacity limit hit: '' @ m))
         else err ''api.invalid_request'' ''api'' 2 (Lit m))
      else if status = 401 then
        err ''auth.invalid_credentials'' ''authentication'' 3 (unauthorized_message c)
      else if status = 403 then
        err ''authz.permission_denied'' ''authorization'' 4 (forbidden_message c remote_text)
      else if status = 404 then
        err ''api.not_found'' ''api'' 5 (Fmt ''remote resource not found: %s %s'' [Lit meth, Lit path])
      else if status = 405 \<or> status = 501 then
        err ''api.contract_gap'' ''api'' 1
          (Fmt ''API gap: %s %s is not available from the remote service; keep this command behind its service-specific client until the API contract is confirmed'' [Lit meth, Lit path])
      else if status = 402 then
        (err ''api.payment_required'' ''api'' 1
          (Fmt ''payment required: %s'' [message_or_default remote_text
             (Lit ''the remote service rejected the request because payment could not be processed'')]))
          \<lparr>ae_remote_code := er_code remote, ae_remote_details := er_details remote,
           ae_remote_action := er_action_type remote\<rparr>
      else if status = 429 then
        err ''api.rate_limited'' ''api'' 1 (message_or_default remote_text (Lit ''API rate limit exceeded: retry later''))
      else if status = 409 then
        (let m = (if remote_text \<noteq> [] then remote_text
                  else ''remote lifecycle conflict: inspect the resource state and retry only when safe'') in
         err ''api.conflict'' ''api'' 1
           (if ac_permission c = ''fs.token.enable'' \<and> contains_str (to_lower m) ''expired''
            then Lit ''the token is expired and cannot be enabled; generate a new token instead'' else Lit m))
      else err ''api.remote_error'' ''api'' 1
        (message_or_default remote_text (Fmt ''API request failed with HTTP %d'' [Lit (int_digits status)])))"

section \<open>Running a request\<close>

definition network_error :: "go_error option \<Rightarrow> go_error" where
  "network_error cause = ApiErr ''api.network_error'' ''api'' 1 0
     (Lit ''API request failed: check network connectivity and try again'') [] cause"

definition decode_error :: "int \<Rightarrow> go_error \<Rightarrow> go_error" where
  "decode_error status cause = ApiErr ''api.decode_response'' ''api'' 1 status
     (Lit ''API response was not valid JSON'') [] (Some cause)"

text \<open>\<open>DoJSON\<close>: the decoder is None when the caller passes no output value.\<close>

definition do_json ::
  "(string \<Rightarrow> string) \<Rightarrow> (string \<Rightarrow> remote_error) \<Rightarrow> (string \<Rightarrow> go_error + 'a) option \<Rightarrow> api_client \<Rightarrow> string \<Rightarrow> string \<Rightarrow>
   (nat \<Rightarrow> outcome) \<Rightarrow> (nat \<Rightarrow> go_error option) \<Rightarrow> go_error + 'a option" where
  "do_json redact parse_remote decode c meth path send rebuild =
     (case fst (do_request c meth send rebuild) of
        Inl e \<Rightarrow> Inl (network_error e)
      | Inr res \<Rightarrow>
          if rp_status res < 200 \<or> rp_status res \<ge> 300
          then Inl (to_go_error (status_error redact parse_remote c meth path res))
          else (case decode of
                  None \<Rightarrow> Inr None
                | Some d \<Rightarrow> (case d (rp_body res) of
                               Inl e \<Rightarrow> Inl (decode_error (rp_status res) e)
                             | Inr x \<Rightarrow> Inr (Some x))))"

definition do_raw ::
  "(string \<Rightarrow> string) \<Rightarrow> (string \<Rightarrow> remote_error) \<Rightarrow> api_client \<Rightarrow> string \<Rightarrow> string \<Rightarrow>
   (nat \<Rightarrow> outcome) \<Rightarrow> (nat \<Rightarrow> go_error option) \<Rightarrow> go_error + http_reply" where
  "do_raw redact parse_remote c meth path send rebuild =
     (case fst (do_request c meth send rebuild) of
        Inl e \<Rightarrow> Inl (network_error e)
      | Inr res \<Rightarrow>
          if rp_status res < 200 \<or> rp_status res \<ge> 300
          then Inl (to_go_error (status_error redact parse_remote c meth path res)) else Inr res)"

definition do_raw_no_redirect ::
  "(string \<Rightarrow> string) \<Rightarrow> (string \<Rightarrow> remote_error) \<Rightarrow> api_client \<Rightarrow> string \<Rightarrow> string \<Rightarrow>
   (nat \<Rightarrow> outcome) \<Rightarrow> (nat \<Rightarrow> go_error option) \<Rightarrow> go_error + http_reply" where
  "do_raw_no_redirect redact parse_remote c meth path send rebuild =
     (case fst (do_request c meth send rebuild) of
        Inl e \<Rightarrow> Inl (network_error e)
      | Inr res \<Rightarrow>
          if rp_status res \<ge> 400 \<or> rp_status res < 200
          then Inl (to_go_error (status_error redact parse_remote c meth path res)) else Inr res)"

section \<open>Lemmas\<close>

lemma do_loop_sent:
  "sent \<le> snd (do_loop send rebuild can_retry left sent lr le)
   \<and> snd (do_loop send rebuild can_retry left sent lr le) \<le> sent + left"
proof (induction send rebuild can_retry left sent lr le rule: do_loop.induct)
  case (2 send rebuild can_retry left sent lr le)
  show ?case
  proof (cases "if sent > 0 then rebuild sent else None")
    case None
    then show ?thesis
      using 2(1) [OF None] 2(2) [OF None]
      by (auto split: outcome.splits)
  qed simp
qed simp

lemma do_loop_once: "0 < left \<Longrightarrow> snd (do_loop send rebuild False left 0 lr le) = 1"
  by (cases left) (auto split: outcome.splits)

text \<open>The first response that is not retryable ends the loop.\<close>

lemma do_loop_first:
  assumes "\<forall>j. sent \<le> j \<and> j < i \<longrightarrow> (case send j of Net_Error _ \<Rightarrow> True | Reply r \<Rightarrow> retryable (rp_status r))"
    and "send i = Reply r" "\<not> retryable (rp_status r)" "sent \<le> i" "i < sent + left"
  shows "do_loop send (\<lambda>_. None) True left sent lr le = (Inr r, Suc i)"
  using assms
proof (induction left arbitrary: sent lr le)
  case (Suc left)
  show ?case
  proof (cases "sent = i")
    case True
    then show ?thesis using Suc.prems by simp
  next
    case False
    then have lt: "Suc sent \<le> i" using Suc.prems(4) by simp
    have "i < Suc sent + left" using Suc.prems(5) by simp
    then have pos: "left \<noteq> 0" using lt by simp
    have ih: "do_loop send (\<lambda>_. None) True left (Suc sent) lr' le' = (Inr r, Suc i)" for lr' le'
      by (rule Suc.IH) (use Suc.prems lt in auto)
    show ?thesis
    proof (cases "send sent")
      case (Net_Error e)
      then show ?thesis by (simp add: ih)
    next
      case (Reply q)
      then have "retryable (rp_status q)" using Suc.prems(1) lt by (metis Suc_le_lessD order_refl outcome.simps(6))
      then show ?thesis by (simp add: ih Reply pos)
    qed
  qed
qed simp

lemma do_loop_net_errors:
  assumes "\<forall>j. sent \<le> j \<longrightarrow> (\<exists>e. send j = Net_Error e)"
  shows "fst (do_loop send (\<lambda>_. None) True left sent (Some r) le) = Inr r"
  using assms
proof (induction left arbitrary: sent le)
  case (Suc left)
  obtain e where "send sent = Net_Error e" using Suc.prems(1) by blast
  then show ?case using Suc.IH [of "Suc sent" "Some e"] Suc.prems(1) by simp
qed simp

lemma do_loop_result:
  "0 < left \<or> le \<noteq> None \<or> lr \<noteq> None \<Longrightarrow> fst (do_loop send rebuild can_retry left sent lr le) \<noteq> Inl None"
proof (induction send rebuild can_retry left sent lr le rule: do_loop.induct)
  case (2 send rebuild can_retry left sent lr le)
  then show ?case by (auto split: outcome.splits option.splits)
qed (auto split: option.splits)

lemma attempts_pos: "0 < attempts_of c"
  by (auto simp: attempts_of_def)

section \<open>Properties\<close>

text \<open>The exit code of a status, as the command line documents it.\<close>

definition exit_code_of_status :: "int \<Rightarrow> int" where
  "exit_code_of_status status =
     (if status = 400 then 2 else if status = 401 then 3 else if status = 403 then 4
      else if status = 404 then 5 else 1)"

lemma exit_code_to_go_error: "0 < ae_exit a \<Longrightarrow> exit_code_for (Some (to_go_error a)) = ae_exit a"
  by (simp add: exit_code_for_def to_go_error_def as_app_def as_converted_def as_api_def)

lemma status_error_exit: "ae_exit (status_error redact parse c meth path res) = exit_code_of_status (rp_status res)"
  by (simp add: status_error_def exit_code_of_status_def Let_def)

lemma exit_code_of_status_pos: "0 < exit_code_of_status status"
  by (simp add: exit_code_of_status_def)

text \<open>A request is sent at least once and at most one time more than the number of
  retries, and a request whose method is not safe to repeat is sent exactly once.\<close>

theorem do_request_sends:
  "1 \<le> snd (do_request c meth send rebuild) \<and> snd (do_request c meth send rebuild) \<le> attempts_of c
   \<and> (if retryable_request meth then True else snd (do_request c meth send rebuild) = 1)"
proof -
  obtain k where k: "attempts_of c = Suc k" using attempts_pos [of c] by (cases "attempts_of c") auto
  have "1 \<le> snd (do_loop send rebuild (retryable_request meth) (Suc k) 0 None None)"
    using do_loop_sent [of 1 send rebuild "retryable_request meth" k]
    by (auto split: outcome.splits)
  then show ?thesis
    using do_loop_sent [of 0 send rebuild "retryable_request meth" "attempts_of c" None None]
      do_loop_once [of "attempts_of c" send rebuild None None] attempts_pos [of c] k
    by (auto simp: do_request_def)
qed

text \<open>The first answer that is neither a network error nor a retryable status is the
  result of a repeatable request, when it comes within the attempts, and the request is
  sent no further.\<close>

theorem do_request_first_answer:
  assumes "retryable_request meth" "i < attempts_of c" "\<forall>j. rebuild j = None"
    and "\<forall>j<i. (case send j of Net_Error _ \<Rightarrow> True | Reply r \<Rightarrow> retryable (rp_status r))"
    and "send i = Reply r" "\<not> retryable (rp_status r)"
  shows "do_request c meth send rebuild = (Inr r, Suc i)"
proof -
  have "rebuild = (\<lambda>_. None)" using assms(3) by auto
  then show ?thesis
    unfolding do_request_def using assms do_loop_first [of 0 i send r "attempts_of c" None None] by simp
qed

definition sample_client :: api_client where
  "sample_client = \<lparr>ac_profile = ''default'', ac_permission = ''fs.file.read'', ac_action = [],
     ac_provider = ''aws'', ac_region = ''us-east-1'', ac_is_fs = True, ac_max_retries = 2, ac_bearer = True\<rparr>"

definition sample_send :: "nat \<Rightarrow> outcome" where
  "sample_send i = (if i = 0 then Net_Error (Sentinel Err_Eof)
     else if i = 1 then Reply \<lparr>rp_status = 503, rp_body = ''busy'', rp_request_id = ''a''\<rparr>
     else Reply \<lparr>rp_status = 200, rp_body = ''ok'', rp_request_id = ''b''\<rparr>)"

theorem do_request_first_answer_witness:
  "do_request sample_client ''GET'' sample_send (\<lambda>_. None)
     = (Inr \<lparr>rp_status = 200, rp_body = ''ok'', rp_request_id = ''b''\<rparr>, 3)"
proof -
  have "\<forall>j<2. (case sample_send j of Net_Error _ \<Rightarrow> True | Reply r \<Rightarrow> retryable (rp_status r))"
    by (auto simp: sample_send_def retryable_def)
  then have "do_request sample_client ''GET'' sample_send (\<lambda>_. None)
      = (Inr \<lparr>rp_status = 200, rp_body = ''ok'', rp_request_id = ''b''\<rparr>, Suc 2)"
    by (intro do_request_first_answer)
      (simp_all add: retryable_request_def attempts_of_def sample_client_def sample_send_def retryable_def)
  then show ?thesis by simp
qed

text \<open>When a retryable response is followed only by network errors, the request does not
  fail as a network error: the earlier response is returned, although its body was already
  read and closed, so the error of the status is built from an empty body.\<close>

theorem do_request_stale_response:
  assumes "retryable_request meth" "2 \<le> attempts_of c" "\<forall>j. rebuild j = None"
    and "send 0 = Reply r" "retryable (rp_status r)" "\<forall>j\<ge>1. \<exists>e. send j = Net_Error e"
  shows "fst (do_request c meth send rebuild) = Inr (drained r)
    \<and> do_raw redact parse_remote c meth path send rebuild
      = Inl (to_go_error (status_error redact parse_remote c meth path (r\<lparr>rp_body := []\<rparr>)))"
proof -
  obtain k where k: "attempts_of c = Suc (Suc k)"
    using le_Suc_ex [OF assms(2)] by auto
  have rb: "rebuild = (\<lambda>_. None)" using assms(3) by auto
  have "fst (do_loop send (\<lambda>_. None) True (Suc k) (Suc 0) (Some (drained r)) None) = Inr (drained r)"
    using assms(6) by (intro do_loop_net_errors) auto
  then have d: "fst (do_request c meth send rebuild) = Inr (drained r)"
    unfolding do_request_def k rb using assms(1,4,5) by simp
  have "rp_status r < 200 \<or> rp_status r \<ge> 300" using assms(5) by (auto simp: retryable_def)
  then show ?thesis using d by (auto simp: do_raw_def drained_def)
qed

definition failing_send :: "nat \<Rightarrow> outcome" where
  "failing_send i = (if i = 0 then Reply \<lparr>rp_status = 503, rp_body = ''busy'', rp_request_id = ''a''\<rparr>
     else Net_Error (Sentinel Err_Eof))"

theorem do_request_stale_response_witness:
  "fst (do_request sample_client ''GET'' failing_send (\<lambda>_. None))
     = Inr \<lparr>rp_status = 503, rp_body = [], rp_request_id = ''a''\<rparr>"
proof -
  have m: "retryable_request ''GET''" by (simp add: retryable_request_def)
  have a: "2 \<le> attempts_of sample_client" by (simp add: attempts_of_def sample_client_def)
  have s: "failing_send 0 = Reply \<lparr>rp_status = 503, rp_body = ''busy'', rp_request_id = ''a''\<rparr>"
    by (simp add: failing_send_def)
  have r: "retryable (rp_status \<lparr>rp_status = 503, rp_body = ''busy'', rp_request_id = ''a''\<rparr>)"
    by (simp add: retryable_def)
  have f: "\<forall>j\<ge>1. \<exists>e. failing_send j = Net_Error e" by (auto simp: failing_send_def)
  show ?thesis
    using do_request_stale_response [where rebuild = "\<lambda>_. None", OF m a _ s r f] by (simp add: drained_def)
qed

text \<open>A JSON call returns a value only for a status in the 200s whose body decodes; for
  every other status the command exits with the code of that status (2 for 400, 3 for 401,
  4 for 403, 5 for 404, otherwise 1), whatever the body says.\<close>

theorem do_json_exit_codes:
  assumes "fst (do_request c meth send rebuild) = Inr res"
  shows "(case do_json redact parse_remote decode c meth path send rebuild of
            Inl e \<Rightarrow> (if 200 \<le> rp_status res \<and> rp_status res < 300
                      then (\<exists>d cause. decode = Some d \<and> d (rp_body res) = Inl cause \<and> e = decode_error (rp_status res) cause)
                      else exit_code_for (Some e) = exit_code_of_status (rp_status res))
          | Inr v \<Rightarrow> 200 \<le> rp_status res \<and> rp_status res < 300
                 \<and> (case decode of None \<Rightarrow> v = None | Some d \<Rightarrow> (\<exists>x. v = Some x \<and> d (rp_body res) = Inr x)))"
  using assms
  by (auto simp: do_json_def exit_code_to_go_error status_error_exit exit_code_of_status_pos split: option.splits sum.splits)

theorem do_json_exit_codes_witness:
  "exit_code_for (Some (to_go_error (status_error id (\<lambda>_. \<lparr>er_message = [], er_code = [], er_details = [], er_action_type = []\<rparr>)
       sample_client ''POST'' ''/v1'' \<lparr>rp_status = 403, rp_body = [], rp_request_id = []\<rparr>))) = 4"
proof -
  let ?send = "\<lambda>_. Reply \<lparr>rp_status = 403, rp_body = [], rp_request_id = []\<rparr>"
  let ?parse = "\<lambda>_. \<lparr>er_message = [], er_code = [], er_details = [], er_action_type = []\<rparr>"
  have d: "fst (do_request sample_client ''POST'' ?send (\<lambda>_. None))
      = Inr \<lparr>rp_status = 403, rp_body = [], rp_request_id = []\<rparr>"
    by (simp add: do_request_def attempts_of_def sample_client_def retryable_request_def numeral_3_eq_3)
  then have j: "do_json id ?parse (None :: (string \<Rightarrow> go_error + unit) option) sample_client ''POST'' ''/v1'' ?send (\<lambda>_. None)
      = Inl (to_go_error (status_error id ?parse sample_client ''POST'' ''/v1'' \<lparr>rp_status = 403, rp_body = [], rp_request_id = []\<rparr>))"
    by (simp add: do_json_def)
  show ?thesis
    using do_json_exit_codes [OF d, where redact = id and parse_remote = ?parse
      and decode = "None :: (string \<Rightarrow> go_error + unit) option" and path = "''/v1''"]
    unfolding j by (simp add: exit_code_of_status_def)
qed

end
