(* ===== verification/Data_Plane.thy ===== *)
theory Data_Plane
  imports Remote_Paths Upload_Parts "HOL-Library.Multiset"
begin

text \<open>
  The transfer helpers of \<open>internal/fs/data.go\<close>: appending a local file in parts, the walk
  over a remote tree, the checks before a write, and the parsing of modes and tags.  The
  answers of the service are arguments.  The goroutines of \<open>UploadPatchParts\<close> call the
  read function of an append in an order they choose; that order is the argument \<open>schedule\<close>.
\<close>

section \<open>Appending\<close>

text \<open>A part of the append plan: its size and the bytes the object already has in it.\<close>

record append_part =
  ap_size :: int
  ap_original :: string

text \<open>The closure of \<open>appendLocalFileToRemote\<close>: it reads the source at the shared \<open>offset\<close>.\<close>

definition append_read_part :: "string \<Rightarrow> int \<Rightarrow> append_part \<Rightarrow> go_error + (string \<times> int)" where
  "append_read_part source offset p =
     (let original = ap_original p; need = ap_size p - int (length original) in
      if int (length original) > ap_size p then
        Inl (Msg (Lit ''original part data length exceeds final part size''))
      else if need > 0 then
        (let got = take (nat need) (drop (nat offset) source) in
         if int (length got) \<noteq> need then Inl (Msg (Lit ''short append read''))
         else Inr (original @ got, offset + int (length got)))
      else Inr (original, offset))"

text \<open>The calls in the order of the schedule, collecting what each part uploads.\<close>

fun run_append_reads ::
  "string \<Rightarrow> append_part list \<Rightarrow> nat list \<Rightarrow> int \<Rightarrow> (nat \<rightharpoonup> string) \<Rightarrow> go_error + ((nat \<rightharpoonup> string) \<times> int)" where
  "run_append_reads source parts [] offset m = Inr (m, offset)"
| "run_append_reads source parts (i # schedule) offset m =
     bind_result (append_read_part source offset (parts ! i)) (\<lambda>(d, offset').
       run_append_reads source parts schedule offset' (m(i \<mapsto> d)))"

datatype append_outcome =
    Append_Failed go_error
  | Append_Rewrite
  | Appended "nat \<rightharpoonup> string"

definition should_rewrite_append :: "(string \<Rightarrow> string) \<Rightarrow> go_error \<Rightarrow> bool" where
  "should_rewrite_append q e = (case as_api e of None \<Rightarrow> False | Some a \<Rightarrow>
     (if err_status a \<noteq> 400 then False
      else contains_str (api_search_text q a) ''file is not s3-stored''
         \<or> contains_str (api_search_text q a) ''s3 not configured''
         \<or> contains_str (api_search_text q a) ''unknown post action''))"

text \<open>From the plan on: the uploads, the size check and the completion.\<close>

definition append_with_plan ::
  "(string \<Rightarrow> string) \<Rightarrow> string \<Rightarrow> go_error + append_part list \<Rightarrow> nat list \<Rightarrow> go_error option \<Rightarrow> append_outcome" where
  "append_with_plan q source plan schedule completed =
     (case plan of
        Inl e \<Rightarrow> if should_rewrite_append q e then Append_Rewrite else Append_Failed e
      | Inr parts \<Rightarrow>
          (case run_append_reads source parts schedule 0 (\<lambda>_. None) of
             Inl e \<Rightarrow> Append_Failed e
           | Inr (m, offset) \<Rightarrow>
               if offset \<noteq> int (length source)
               then Append_Failed (app_new ''fs.append_size_mismatch'' ''runtime'' 1
                 (Lit ''append source size mismatch: bytes remaining''))
               else (case completed of Some e \<Rightarrow> Append_Failed e | None \<Rightarrow> Appended m)))"

text \<open>What the service stores: the uploaded parts in the order of their numbers.\<close>

definition appended_tail :: "append_part list \<Rightarrow> (nat \<rightharpoonup> string) \<Rightarrow> string" where
  "appended_tail parts m = concat (map (\<lambda>i. case m i of None \<Rightarrow> [] | Some d \<Rightarrow> d) [0..<length parts])"

definition rewrite_append :: "string \<Rightarrow> string \<Rightarrow> string" where
  "rewrite_append existing appended = existing @ appended"

section \<open>Checks before a write\<close>

definition is_conflict :: "go_error \<Rightarrow> bool" where
  "is_conflict e = (case as_api e of None \<Rightarrow> False | Some a \<Rightarrow> err_status a = 409)"

text \<open>\<open>stat\<close> is the answer to \<open>client.Stat\<close>: whether the target is a directory.\<close>

definition ensure_remote_target_can_write :: "bool \<Rightarrow> string \<Rightarrow> go_error + bool \<Rightarrow> go_error option" where
  "ensure_remote_target_can_write overwrite path stat =
     (if overwrite then None
      else case stat of
        Inr _ \<Rightarrow> Some (app_new ''fs.target_exists'' ''usage'' 2
          (Fmt ''remote target %q already exists; pass --overwrite to replace it'' [Lit path]))
      | Inl e \<Rightarrow> if is_api_not_found e then None else Some e)"

definition not_a_directory :: "string \<Rightarrow> go_error" where
  "not_a_directory path = app_new ''fs.target_exists'' ''usage'' 2
     (Fmt ''remote target %q already exists and is not a directory'' [Lit path])"

definition ensure_remote_directory ::
  "string \<Rightarrow> go_error + bool \<Rightarrow> go_error option \<Rightarrow> go_error + bool \<Rightarrow> go_error option" where
  "ensure_remote_directory path stat mkdir stat_again =
     (case stat of
        Inr is_dir \<Rightarrow> if is_dir then None else Some (not_a_directory path)
      | Inl e \<Rightarrow>
          if \<not> is_api_not_found e then Some e
          else case mkdir of
            None \<Rightarrow> None
          | Some me \<Rightarrow>
              if \<not> is_conflict me then Some me
              else case stat_again of
                Inl se \<Rightarrow> Some se
              | Inr is_dir \<Rightarrow> if is_dir then None else Some (not_a_directory path))"

section \<open>Modes, flags and tags\<close>

definition octal_digits :: "bool \<Rightarrow> string \<Rightarrow> int option" where
  "octal_digits neg ds =
     (if ds = [] \<or> \<not> list_all (\<lambda>c. 48 \<le> byte_of c \<and> byte_of c \<le> 55) ds then None
      else let v = foldl (\<lambda>n c. n * 8 + (int (byte_of c) - 48)) 0 ds; w = (if neg then - v else v) in
        if in_int64 w then Some w else None)"

fun parse_octal :: "string \<Rightarrow> int option" where
  "parse_octal [] = None"
| "parse_octal (c # s) =
     (if c = CHR ''-'' then octal_digits True s else if c = CHR ''+'' then octal_digits False s
      else octal_digits False (c # s))"

definition parse_mode :: "string \<Rightarrow> go_error + int" where
  "parse_mode value =
     (let v = trim_space value in
      if v = [] then Inr 0
      else case parse_octal v of
        None \<Rightarrow> Inl (app_new ''fs.invalid_mode'' ''usage'' 2 (Lit ''--mode must be an octal value such as 0755''))
      | Some m \<Rightarrow>
          if m < 0 then Inl (app_new ''fs.invalid_mode'' ''usage'' 2 (Lit ''--mode must be an octal value such as 0755''))
          else Inr m)"

definition parse_required_mode :: "string \<Rightarrow> string \<Rightarrow> go_error + int" where
  "parse_required_mode value flag =
     bind_result (parse_mode value) (\<lambda>m.
       if trim_space value = [] then
         Inl (app_new ''fs.missing_mode'' ''usage'' 2 (Lit (flag @ '' is required'')))
       else if m > 4095 then
         Inl (app_new ''fs.invalid_mode'' ''usage'' 2 (Lit (flag @ '' must be an octal permission value such as 0644'')))
       else Inr m)"

record copy_options =
  co_from_local :: string
  co_to_local :: string
  co_from_remote :: string
  co_to_remote :: string
  co_from_stdin :: bool
  co_to_stdout :: bool
  co_layer_id :: string
  co_overwrite :: bool
  co_create_parents :: bool
  co_append :: bool
  co_recursive :: bool
  co_resume :: bool
  co_tags :: "(string \<times> string) list"
  co_description :: string

definition invalid_copy_flags :: "string \<Rightarrow> go_error option" where
  "invalid_copy_flags m = Some (app_new ''fs.invalid_copy_flags'' ''usage'' 2 (Lit m))"

definition validate_copy_metadata_flags :: "copy_options \<Rightarrow> go_error option" where
  "validate_copy_metadata_flags c =
     (if \<not> (co_tags c \<noteq> [] \<or> trim_space (co_description c) \<noteq> []) then None
      else if co_recursive c then invalid_copy_flags ''--tag and --description cannot be combined with --recursive''
      else if co_append c then invalid_copy_flags ''--tag and --description cannot be combined with --append''
      else if co_resume c \<and> trim_space (co_description c) \<noteq> [] then
        invalid_copy_flags ''--description cannot be combined with --resume''
      else if trim_space (co_to_remote c) = [] then
        invalid_copy_flags ''--tag and --description are only supported for uploads to --to-remote''
      else if trim_space (co_from_remote c) \<noteq> [] then
        invalid_copy_flags ''--tag and --description are only supported for local or stdin uploads''
      else if co_layer_id c \<noteq> [] then
        invalid_copy_flags ''--tag and --description cannot be combined with --layer-id''
      else None)"

definition cut_at :: "char \<Rightarrow> string \<Rightarrow> (string \<times> string) option" where
  "cut_at c s = (if c \<in> set s then Some (takeWhile (\<lambda>x. x \<noteq> c) s, tl (dropWhile (\<lambda>x. x \<noteq> c) s)) else None)"

text \<open>The map built so far is an association list, the latest key first.\<close>

fun parse_file_tags :: "string list \<Rightarrow> (string \<times> string) list \<Rightarrow> go_error + (string \<times> string) list" where
  "parse_file_tags [] out = Inr out"
| "parse_file_tags (raw # raws) out =
     (case cut_at (CHR ''='') raw of
        None \<Rightarrow> Inl (app_new ''fs.invalid_tag'' ''usage'' 2 (Fmt ''invalid tag %q; expected key=value'' [Lit raw]))
      | Some (k0, v0) \<Rightarrow>
          let k = trim_space k0; v = trim_space v0 in
          if k = [] then Inl (app_new ''fs.invalid_tag'' ''usage'' 2 (Fmt ''invalid tag %q; key is empty'' [Lit raw]))
          else if map_of out k \<noteq> None then
            Inl (app_new ''fs.duplicate_tag'' ''usage'' 2 (Fmt ''duplicate tag %q'' [Lit k]))
          else parse_file_tags raws ((k, v) # out))"

section \<open>Remote trees\<close>

definition remote_join :: "string \<Rightarrow> string \<Rightarrow> go_error + string" where
  "remote_join root rel =
     bind_result (normalize_remote_path root) (\<lambda>r.
       let rel' = trim_prefix (path_clean (''/'' @ rel)) ''/'' in
       if rel' = ''.'' \<or> rel' = [] then Inr r
       else normalize_remote_path (path_join [r, rel']))"

record remote_entry =
  re_name :: string
  re_is_dir :: bool
  re_size :: int

definition walk_root :: "string \<Rightarrow> string" where
  "walk_root root = (if trim_suffix root ''/'' = [] then ''/'' else trim_suffix root ''/'')"

text \<open>
  \<open>walkRemoteTree\<close> with the service's listings \<open>ls\<close> and a visitor that changes a state, kept
  when a visit fails; the fuel bounds the depth, None means it ran out.
\<close>

function walk_tree ::
    "nat \<Rightarrow> (string \<Rightarrow> go_error + remote_entry list) \<Rightarrow> ('s \<Rightarrow> string \<Rightarrow> remote_entry \<Rightarrow> go_error option \<times> 's) \<Rightarrow>
     string \<Rightarrow> 's \<Rightarrow> (go_error option \<times> 's) option"
  and walk_entries ::
    "nat \<Rightarrow> (string \<Rightarrow> go_error + remote_entry list) \<Rightarrow> ('s \<Rightarrow> string \<Rightarrow> remote_entry \<Rightarrow> go_error option \<times> 's) \<Rightarrow>
     string \<Rightarrow> remote_entry list \<Rightarrow> 's \<Rightarrow> (go_error option \<times> 's) option" where
  "walk_tree 0 ls visit root s = None"
| "walk_tree (Suc f) ls visit root s =
     (case ls (walk_root root) of
        Inl e \<Rightarrow> Some (Some e, s)
      | Inr es \<Rightarrow> walk_entries f ls visit (walk_root root) es s)"
| "walk_entries f ls visit root [] s = Some (None, s)"
| "walk_entries f ls visit root (e # es) s =
     (case remote_join root (re_name e) of
        Inl err \<Rightarrow> Some (Some err, s)
      | Inr child \<Rightarrow>
          (case visit s child e of
             (Some err, s1) \<Rightarrow> Some (Some err, s1)
           | (None, s1) \<Rightarrow>
               if re_is_dir e then
                 (case walk_tree f ls visit child s1 of
                    None \<Rightarrow> None
                  | Some (Some err, s2) \<Rightarrow> Some (Some err, s2)
                  | Some (None, s2) \<Rightarrow> walk_entries f ls visit root es s2)
               else walk_entries f ls visit root es s1))"
  by pat_completeness auto
termination
  by (relation "measures [case_sum (\<lambda>(f, _). 2 * f) (\<lambda>(f, _). 2 * f + 1),
                          case_sum (\<lambda>_. 0) (\<lambda>(f, _, _, _, es, _). length es)]") auto

text \<open>The local path of a visited remote path in \<open>copyRemoteTreeToLocal\<close>.\<close>

definition download_path :: "string \<Rightarrow> string \<Rightarrow> string \<Rightarrow> string" where
  "download_path source_root target_root remote_path =
     path_join [target_root, trim_prefix (trim_prefix remote_path source_root) ''/'']"

section \<open>Lemmas on remote trees\<close>

text \<open>Paths at or below the directory with the components \<open>cs\<close>.\<close>

definition below :: "string list \<Rightarrow> string \<Rightarrow> bool" where
  "below cs p \<longleftrightarrow> (\<exists>ds. clean_list ds \<and> p = abs_path (cs @ ds))"

lemma remote_join_below:
  assumes "clean_list cs" "remote_join (abs_path cs) rel = Inr p"
  shows "below cs p"
proof -
  obtain r where r: "normalize_remote_path (abs_path cs) = Inr r"
    using assms(2) by (auto simp: remote_join_def)
  then have nc: "\<not> list_ex is_control (abs_path cs)"
    by (auto simp: normalize_remote_path_def split: if_splits)
  then have req: "r = abs_path cs"
    using r normalize_remote_path_id [OF _ nc] assms(1) by (auto simp: normal_path_def)
  have "has_prefix (CHR ''/'' # rel) ''/''" by simp
  then obtain ds where ds: "clean_list ds" "path_clean (CHR ''/'' # rel) = abs_path ds"
    by (rule path_clean_rooted)
  have w: "trim_prefix (abs_path ds) ''/'' = join_with ''/'' ds"
    by (simp add: abs_path_def trim_prefix_def)
  show ?thesis
  proof (cases "ds = []")
    case True
    then have "p = abs_path cs" using assms(2) r req ds w by (simp add: remote_join_def)
    then show ?thesis unfolding below_def by (metis append_Nil2 clean_list_simps(1))
  next
    case False
    then have ne: "join_with ''/'' ds \<noteq> []" using join_clean_end [OF ds(1)] by blast
    have dot: "join_with ''/'' ds \<noteq> ''.''"
    proof
      assume "join_with ''/'' ds = ''.''"
      then have "split_on (CHR ''/'') (join_with ''/'' ds) = [''.'']" by simp
      moreover have "split_on (CHR ''/'') (join_with ''/'' ds) = ds"
        using False ds(1) by (intro split_join) (auto simp: clean_list_def list_all_iff clean_comp_def)
      ultimately show False using ds(1) by (simp add: clean_comp_def)
    qed
    have np: "normal_path (abs_path cs)" using assms(1) by (auto simp: normal_path_def)
    have j: "path_join [abs_path cs, join_with ''/'' ds] = abs_path (cs @ ds)"
      using path_join2 [OF np ne] path_clean_append [of "abs_path cs" cs ds] path_clean_abs assms(1) ds(1) False
      by simp
    then have n: "normalize_remote_path (abs_path (cs @ ds)) = Inr p"
      using assms(2) r req ds w dot ne by (simp add: remote_join_def)
    then have "\<not> list_ex is_control (abs_path (cs @ ds))"
      by (auto simp: normalize_remote_path_def split: if_splits)
    then have "p = abs_path (cs @ ds)"
      using n normalize_remote_path_id [of "abs_path (cs @ ds)"] assms(1) ds(1)
        normal_path_def [of "abs_path (cs @ ds)"] by (metis Inr_inject clean_list_simps(3))
    then show ?thesis unfolding below_def using ds(1) by blast
  qed
qed

lemma below_trans: "below cs (abs_path ds') \<Longrightarrow> ds' = cs @ ds \<Longrightarrow> below ds' p \<Longrightarrow> clean_list ds \<Longrightarrow> below cs p"
  by (auto simp: below_def) (metis clean_list_simps(3))

lemma walk_root_abs: "clean_list cs \<Longrightarrow> walk_root (abs_path cs) = abs_path cs"
proof (cases "cs = []")
  case True
  then show ?thesis by (simp add: abs_path_Nil walk_root_def trim_suffix_def has_suffix_def)
next
  case False
  assume "clean_list cs"
  then show ?thesis using False by (simp add: walk_root_def trim_suffix_def abs_path_no_trailing)
qed

lemma walk_root_idem [simp]: "clean_list cs \<Longrightarrow> cs \<noteq> [] \<Longrightarrow> walk_root (abs_path cs @ ''/'') = abs_path cs"
  by (simp add: walk_root_def)

lemma walk_invariant:
  assumes "\<And>s p e r s'. I s \<Longrightarrow> below cs p \<Longrightarrow> visit s p e = (r, s') \<Longrightarrow> I s'" and cs: "clean_list cs"
  shows "\<And>ds. root = abs_path (cs @ ds) \<Longrightarrow> clean_list ds \<Longrightarrow> I s \<Longrightarrow>
           walk_tree f ls visit root s = Some (r, s') \<Longrightarrow> I s'"
    and "\<And>ds. root = abs_path (cs @ ds) \<Longrightarrow> clean_list ds \<Longrightarrow> I s \<Longrightarrow>
           walk_entries f ls visit root es s = Some (r, s') \<Longrightarrow> I s'"
  using assms(1)
proof (induction f ls visit root s and f ls visit root es s
       arbitrary: r s' and r s' rule: walk_tree_walk_entries.induct)
  case (1 ls visit root s)
  then show ?case by simp
next
  case (2 f ls visit root s)
  have w: "walk_root root = root" using 2(2,3) cs by (simp add: walk_root_abs)
  show ?case
  proof (cases "ls root")
    case (Inl e)
    then show ?thesis using 2(4,5) w by simp
  next
    case (Inr es)
    then have "walk_entries f ls visit root es s = Some (r, s')" using 2(5) w by simp
    then show ?thesis by (rule 2(1) [unfolded w, OF Inr 2(2-4) _ 2(6)])
  qed
next
  case (3 f ls visit root s)
  then show ?case by (metis Pair_inject option.inject walk_entries.simps(1))
next
  case (4 f ls visit root e es s)
  show ?case
  proof (cases "remote_join root (re_name e)")
    case (Inl err)
    then show ?thesis using 4(6,7) by simp
  next
    case (Inr child)
    then obtain ds' where ds': "clean_list ds'" "child = abs_path (cs @ ds @ ds')"
      using remote_join_below [of "cs @ ds"] 4(4,5) cs by (auto simp: below_def)
    then have "clean_list (ds @ ds')" using 4(5) by simp
    then have b: "below cs child" using ds'(2) unfolding below_def by blast
    obtain r1 s1 where v: "visit s child e = (r1, s1)" by force
    then have I1: "I s1" using b 4(6,8) by blast
    show ?thesis
    proof (cases r1)
      case (Some a)
      then show ?thesis using 4(7) I1 v Inr by simp
    next
      case None
      show ?thesis
      proof (cases "re_is_dir e")
        case False
        then show ?thesis using 4(3) [OF Inr v [symmetric] None False 4(4,5) I1 _ 4(8)] 4(7) v None Inr by simp
      next
        case True
        then obtain r2 s2 where w: "walk_tree f ls visit child s1 = Some (r2, s2)"
          using 4(7) v None Inr by (auto split: option.splits)
        then have I2: "I s2"
          using 4(1) [OF Inr v [symmetric] None True] 4(5,8) I1 ds' by (metis clean_list_simps(3))
        show ?thesis
        proof (cases r2)
          case (Some a)
          then show ?thesis using 4(7) v None Inr w True I2 by simp
        next
          case n2: None
          then have "walk_entries f ls visit root es s2 = Some (r, s')"
            using 4(7) v None Inr w True by simp
          then show ?thesis
            by (rule 4(2) [OF Inr v [symmetric] None True w refl n2 4(4,5) I2]) (rule 4(8))
        qed
      qed
    qed
  qed
qed

lemma walk_enough_fuel:
  assumes "\<And>r es e child. ls r = Inr es \<Longrightarrow> e \<in> set es \<Longrightarrow> re_is_dir e \<Longrightarrow>
      remote_join r (re_name e) = Inr child \<Longrightarrow> rank (walk_root child) < rank r"
  shows "rank (walk_root root) < f \<Longrightarrow> walk_tree f ls visit root s \<noteq> None"
    and "(\<forall>e\<in>set es. re_is_dir e \<longrightarrow> (\<forall>child. remote_join root (re_name e) = Inr child \<longrightarrow>
           rank (walk_root child) < f)) \<Longrightarrow> walk_entries f ls visit root es s \<noteq> None"
  using assms
proof (induction f ls visit root s and f ls visit root es s rule: walk_tree_walk_entries.induct)
  case (2 f ls visit root s)
  show ?case
  proof (cases "ls (walk_root root)")
    case (Inr es)
    have "\<forall>e\<in>set es. re_is_dir e \<longrightarrow> (\<forall>child. remote_join (walk_root root) (re_name e) = Inr child \<longrightarrow>
           rank (walk_root child) < f)"
    proof (intro ballI impI allI)
      fix e child
      assume "e \<in> set es" "re_is_dir e" "remote_join (walk_root root) (re_name e) = Inr child"
      then have "rank (walk_root child) < rank (walk_root root)" using 2(3) [OF Inr] by blast
      then show "rank (walk_root child) < f" using 2(2) by simp
    qed
    then show ?thesis using 2(1) [OF Inr] 2(3) Inr by simp
  qed simp
next
  case (4 f ls visit root e es s)
  then show ?case by (fastforce split: sum.splits prod.splits option.splits)
qed auto

section \<open>Lemmas on appending\<close>

definition append_need :: "append_part \<Rightarrow> int" where
  "append_need p = ap_size p - int (length (ap_original p))"

definition part_or_empty :: "(nat \<rightharpoonup> string) \<Rightarrow> nat \<Rightarrow> string" where
  "part_or_empty m i = (case m i of None \<Rightarrow> [] | Some d \<Rightarrow> d)"

lemma appended_tail_alt: "appended_tail parts m = concat (map (part_or_empty m) [0..<length parts])"
  by (simp add: appended_tail_def part_or_empty_def [abs_def])

lemma append_read_part_enough:
  assumes "0 \<le> append_need p" "0 \<le> offset" "offset + append_need p \<le> int (length source)"
  shows "append_read_part source offset p
    = Inr (ap_original p @ take (nat (append_need p)) (drop (nat offset) source), offset + append_need p)"
  using assms by (auto simp: append_read_part_def append_need_def Let_def)

lemma run_append_reads_in_order:
  assumes "\<forall>q\<in>set ps. ap_original q = [] \<and> 0 \<le> append_need q" "0 \<le> offset"
    and "offset + sum_list (map append_need ps) \<le> int (length source)" "parts = pre @ ps"
  shows "\<exists>m'. run_append_reads source parts [length pre..<length parts] offset m
            = Inr (m', offset + sum_list (map append_need ps))
          \<and> (\<forall>j<length pre. m' j = m j)
          \<and> concat (map (part_or_empty m') [length pre..<length parts])
            = take (nat (sum_list (map append_need ps))) (drop (nat offset) source)"
  using assms
proof (induction ps arbitrary: pre offset m)
  case Nil
  then show ?case by auto
next
  case (Cons p ps)
  let ?d = "take (nat (append_need p)) (drop (nat offset) source)"
  have ge: "0 \<le> sum_list (map append_need ps)"
    using Cons.prems(1) by (intro sum_list_nonneg) auto
  have rd: "append_read_part source offset p = Inr (?d, offset + append_need p)"
    using append_read_part_enough [of p offset source] Cons.prems(1-3) ge by auto
  have up: "[length pre..<length parts] = length pre # [length (pre @ [p])..<length parts]"
  proof -
    have lt: "length pre < length parts" and len: "length (pre @ [p]) = Suc (length pre)"
      using Cons.prems(4) by simp_all
    show ?thesis by (simp only: len upt_conv_Cons [OF lt])
  qed
  obtain m' where m': "run_append_reads source parts [length (pre @ [p])..<length parts] (offset + append_need p)
            (m(length pre \<mapsto> ?d)) = Inr (m', offset + append_need p + sum_list (map append_need ps))"
      "\<forall>j<length (pre @ [p]). m' j = (m(length pre \<mapsto> ?d)) j"
      "concat (map (part_or_empty m') [length (pre @ [p])..<length parts])
        = take (nat (sum_list (map append_need ps))) (drop (nat (offset + append_need p)) source)"
  proof -
    have a: "\<forall>q\<in>set ps. ap_original q = [] \<and> 0 \<le> append_need q" "0 \<le> offset + append_need p"
      "offset + append_need p + sum_list (map append_need ps) \<le> int (length source)" "parts = (pre @ [p]) @ ps"
      using Cons.prems by auto
    show thesis using Cons.IH [OF a, of "m(length pre \<mapsto> ?d)"] that by blast
  qed
  have nth: "parts ! length pre = p" using Cons.prems(4) by simp
  have "part_or_empty m' (length pre) = ?d" using m'(2) by (simp add: part_or_empty_def)
  moreover have "?d @ take (nat (sum_list (map append_need ps))) (drop (nat (offset + append_need p)) source)
      = take (nat (sum_list (map append_need (p # ps)))) (drop (nat offset) source)"
    using Cons.prems(1,2) ge
    by (simp add: nat_add_distrib take_add) (simp add: drop_drop add.commute nat_add_distrib)
  ultimately show ?case
    using m' rd nth unfolding up by (intro exI [of _ m']) (auto simp: add.assoc simp del: upt_Suc)
qed

section \<open>Properties\<close>

text \<open>Appending part by part, in the order of the plan, succeeds and the stored parts
  are the bytes the object already had in its last part followed by the whole source, when the
  sizes of the plan add up.\<close>

theorem append_in_order_correct:
  assumes "plan = Inr (p # ps)" "\<forall>q\<in>set ps. ap_original q = []"
    and "\<forall>q\<in>set (p # ps). int (length (ap_original q)) \<le> ap_size q"
    and "sum_list (map ap_size (p # ps)) = int (length (ap_original p)) + int (length source)"
  shows "\<exists>m. append_with_plan q source plan [0..<length (p # ps)] None = Appended m
           \<and> appended_tail (p # ps) m = ap_original p @ source"
proof -
  let ?parts = "p # ps"
  have need: "\<forall>q\<in>set ps. ap_original q = [] \<and> 0 \<le> append_need q" "0 \<le> append_need p"
    using assms(2,3) by (auto simp: append_need_def)
  have sum: "append_need p + sum_list (map append_need ps) = int (length source)"
  proof -
    have "sum_list (map append_need ps) = sum_list (map ap_size ps)"
      using assms(2) by (intro arg_cong [where f = sum_list] map_cong) (auto simp: append_need_def)
    then show ?thesis using assms(4) by (simp add: append_need_def)
  qed
  have ge: "0 \<le> sum_list (map append_need ps)" using need by (intro sum_list_nonneg) auto
  have rd: "append_read_part source 0 p
      = Inr (ap_original p @ take (nat (append_need p)) source, append_need p)"
    using append_read_part_enough [of p 0 source] need ge sum by simp
  let ?d = "ap_original p @ take (nat (append_need p)) source"
  obtain m' where m': "run_append_reads source ?parts [1..<length ?parts] (append_need p) [0 \<mapsto> ?d]
        = Inr (m', append_need p + sum_list (map append_need ps))"
      "\<forall>j<1. m' j = [0 \<mapsto> ?d] j"
      "concat (map (part_or_empty m') [1..<length ?parts])
        = take (nat (sum_list (map append_need ps))) (drop (nat (append_need p)) source)"
    using run_append_reads_in_order [of ps "append_need p" source ?parts "[p]" "[0 \<mapsto> ?d]"] need sum by auto
  have up: "[0..<length ?parts] = 0 # [1..<length ?parts]"
    using upt_conv_Cons [of 0 "length ?parts"] by simp
  have run: "run_append_reads source ?parts [0..<length ?parts] 0 (\<lambda>_. None) = Inr (m', int (length source))"
    using m'(1) rd sum unfolding up by (simp del: upt_Suc)
  have "nat (sum_list (map append_need ps)) = length source - nat (append_need p)"
    using sum need(2) by linarith
  then have "appended_tail ?parts m' = ap_original p @ source"
    using m'(2,3) unfolding appended_tail_alt up by (simp add: part_or_empty_def del: upt_Suc)
  then show ?thesis
    using run unfolding assms(1) append_with_plan_def by (intro exI [of _ m']) simp
qed

theorem append_in_order_correct_witness:
  "\<exists>m. append_with_plan id ''cdef'' (Inr [\<lparr>ap_size = 3, ap_original = ''ab''\<rparr>, \<lparr>ap_size = 3, ap_original = []\<rparr>])
          [0, 1] None = Appended m
     \<and> appended_tail [\<lparr>ap_size = 3, ap_original = ''ab''\<rparr>, \<lparr>ap_size = 3, ap_original = []\<rparr>] m = ''abcdef''"
  using append_in_order_correct [OF refl, where p = "\<lparr>ap_size = 3, ap_original = ''ab''\<rparr>"
      and ps = "[\<lparr>ap_size = 3, ap_original = []\<rparr>]" and source = "''cdef''" and q = id]
  by (simp add: upt_rec)

text \<open>The read function of an append takes the next bytes of the source in the order in which
  it is called, and its calls run in concurrent goroutines: there is a plan and an order of the
  calls, each part read exactly once, for which the append completes without an error
  although the stored bytes are not the source.\<close>

theorem append_out_of_order_scrambles:
  "\<exists>source parts schedule m. mset schedule = mset [0..<length parts]
     \<and> sum_list (map ap_size parts) = int (length source) \<and> list_all (\<lambda>q. ap_original q = []) parts
     \<and> append_with_plan id source (Inr parts) schedule None = Appended m
     \<and> appended_tail parts m \<noteq> source"
proof (intro exI conjI)
  let ?parts = "[\<lparr>ap_size = 2, ap_original = []\<rparr>, \<lparr>ap_size = 2, ap_original = []\<rparr>] :: append_part list"
  show "mset [1, 0] = mset [0..<length ?parts]" by (simp add: upt_rec)
  show "sum_list (map ap_size ?parts) = int (length ''abcd'')" by simp
  show "list_all (\<lambda>q. ap_original q = []) ?parts" by simp
  show "append_with_plan id ''abcd'' (Inr ?parts) [1, 0] None = Appended [1 \<mapsto> ''ab'', 0 \<mapsto> ''cd'']"
    by (simp add: append_with_plan_def append_read_part_def)
  show "appended_tail ?parts [1 \<mapsto> ''ab'', 0 \<mapsto> ''cd''] \<noteq> ''abcd''"
    by (simp add: appended_tail_def)
qed

text \<open>A walk over a remote tree only visits paths inside the tree, whatever names the
  service lists: an invariant that visits inside the tree keep holds of the state after the walk,
  also when the walk fails.\<close>

theorem walk_tree_stays_inside:
  assumes "clean_list cs" "I s" "walk_tree f ls visit (abs_path cs) s = Some (r, s')"
    and "\<And>s p e r s'. I s \<Longrightarrow> in_tree (abs_path cs) p \<Longrightarrow> visit s p e = (r, s') \<Longrightarrow> I s'"
  shows "I s'"
proof -
  have tree: "in_tree (abs_path cs) p" if b: "below cs p" for p
  proof -
    obtain ds where ds: "clean_list ds" "p = abs_path (cs @ ds)" using b unfolding below_def by blast
    show ?thesis
    proof (cases "ds = [] \<or> cs = []")
      case True
      then show ?thesis using ds by (auto simp: in_tree_def abs_path_Nil tree_prefix_def has_suffix_def)
    next
      case False
      then have "p = tree_prefix (abs_path cs) @ join_with ''/'' ds"
        using ds abs_path_append [of ds cs] assms(1) by (simp add: tree_prefix_abs) (simp add: abs_path_def)
      then show ?thesis by (simp add: in_tree_def)
    qed
  qed
  have step: "I s'" if "I s" "below cs p" "visit s p e = (r, s')" for s p e r s'
    using assms(4) tree that by blast
  show ?thesis
    by (rule walk_invariant(1) [where I = I and visit = visit and cs = cs and ds = "[]" and s = s, OF step assms(1) _ _ assms(2)])
      (use assms(3) in simp_all)
qed

text \<open>A directory that lists an escaping name and a directory.\<close>

fun example_listing :: "string \<Rightarrow> go_error + remote_entry list" where
  "example_listing p =
     (if p = ''/w'' then Inr [\<lparr>re_name = ''../etc'', re_is_dir = False, re_size = 1\<rparr>,
                           \<lparr>re_name = ''d'', re_is_dir = True, re_size = 0\<rparr>]
      else Inr [])"

definition record_visit :: "string list \<Rightarrow> string \<Rightarrow> remote_entry \<Rightarrow> go_error option \<times> string list" where
  "record_visit s p e = (None, s @ [p])"

theorem walk_tree_stays_inside_witness:
  "walk_tree 3 example_listing record_visit ''/w'' [] = Some (None, [''/w/etc'', ''/w/d''])
   \<and> list_all (in_tree ''/w'') [''/w/etc'', ''/w/d'']"
proof -
  have w: "walk_tree 3 example_listing record_visit ''/w'' [] = Some (None, [''/w/etc'', ''/w/d''])"
    by code_simp
  have a: "abs_path [''w''] = ''/w''" "clean_list [''w'']" by (simp_all add: abs_path_def clean_comp_def)
  have "list_all (in_tree ''/w'') [''/w/etc'', ''/w/d'']"
    using walk_tree_stays_inside [of "[''w'']" "list_all (in_tree ''/w'')" "[]", unfolded a(1), OF a(2) _ w]
    by (auto simp: record_visit_def)
  then show ?thesis using w by blast
qed

text \<open>The walk ends on every finite tree: with listings in which a subdirectory has a
  smaller rank than its directory, fuel above the rank of the root gives a result.\<close>

theorem walk_tree_terminates:
  assumes "\<And>r es e child. ls r = Inr es \<Longrightarrow> e \<in> set es \<Longrightarrow> re_is_dir e \<Longrightarrow>
      remote_join r (re_name e) = Inr child \<Longrightarrow> rank (walk_root child) < rank r"
    and "rank (walk_root root) < f"
  shows "\<exists>r s'. walk_tree f ls visit root s = Some (r, s')"
  using walk_enough_fuel(1) [of ls rank root f visit s] assms by (metis option.exhaust surj_pair)

theorem walk_tree_terminates_witness:
  "\<exists>r s'. walk_tree 3 example_listing record_visit ''/w'' [] = Some (r, s')"
proof -
  have j: "remote_join ''/w'' ''d'' = Inr ''/w/d''" by code_simp
  have w: "walk_root ''/w/d'' = ''/w/d''" "walk_root ''/w'' = ''/w''" by code_simp+
  show ?thesis
    by (rule walk_tree_terminates [where rank = "\<lambda>p. if p = ''/w'' then 2 else if p = ''/w/d'' then 1 else 0"])
      (auto simp: j w split: if_splits)
qed

lemma parse_file_tags_inv:
  "parse_file_tags raws out = Inr tags \<Longrightarrow> distinct (map fst out) \<Longrightarrow> \<forall>k\<in>fst ` set out. k \<noteq> [] \<Longrightarrow>
     distinct (map fst tags) \<and> length tags = length raws + length out \<and> (\<forall>k\<in>fst ` set tags. k \<noteq> [])
     \<and> (\<forall>k v. map_of out k = Some v \<longrightarrow> map_of tags k = Some v)
     \<and> (\<forall>raw\<in>set raws. \<exists>k v. cut_at (CHR ''='') raw = Some (k, v) \<and> map_of tags (trim_space k) = Some (trim_space v))"
proof (induction raws arbitrary: out)
  case Nil
  then show ?case by simp
next
  case (Cons raw raws)
  obtain k v where c: "cut_at (CHR ''='') raw = Some (k, v)"
    using Cons.prems(1) by (auto split: option.splits)
  have k: "trim_space k \<noteq> []" "map_of out (trim_space k) = None"
    "parse_file_tags raws ((trim_space k, trim_space v) # out) = Inr tags"
    using Cons.prems(1) c by (auto simp: Let_def split: if_splits)
  have nk: "trim_space k \<notin> fst ` set out" using k(2) by (simp add: map_of_eq_None_iff)
  note ih = Cons.IH [OF k(3)]
  have d: "distinct (map fst ((trim_space k, trim_space v) # out))"
    "\<forall>x\<in>fst ` set ((trim_space k, trim_space v) # out). x \<noteq> []"
    using Cons.prems(2,3) k(1) nk by auto
  have keep: "map_of tags x = Some y" if "map_of out x = Some y" for x y
  proof -
    have "x \<noteq> trim_space k" using that k(2) by auto
    then show ?thesis using ih [OF d] that by simp
  qed
  show ?case using ih [OF d] keep c by auto
qed

text \<open>A tag list that parses gives one value to each key, no key is empty, and every
  argument \<open>key=value\<close> is found under its trimmed key; duplicates are errors, so the number of
  tags is the number of arguments.\<close>

theorem parse_file_tags_correct:
  assumes "parse_file_tags raws [] = Inr tags"
  shows "distinct (map fst tags) \<and> length tags = length raws \<and> [] \<notin> fst ` set tags
    \<and> (\<forall>raw\<in>set raws. \<exists>k v. cut_at (CHR ''='') raw = Some (k, v) \<and> map_of tags (trim_space k) = Some (trim_space v))"
  using parse_file_tags_inv [OF assms] by auto

theorem parse_file_tags_correct_witness:
  "parse_file_tags [''team = db'', ''env=a=b''] [] = Inr [(''env'', ''a=b''), (''team'', ''db'')]
   \<and> distinct (map fst [(''env'', ''a=b''), (''team'', ''db'')])"
proof -
  have h: "parse_file_tags [''team = db'', ''env=a=b''] [] = Inr [(''env'', ''a=b''), (''team'', ''db'')]"
    by code_simp
  show ?thesis using h parse_file_tags_correct [OF h] by blast
qed

end
