(* ===== verification/Companion.thy ===== *)
theory Companion
  imports Data_Plane "HOL-Library.List_Lexorder" "HOL-Library.Char_ord"
begin

text \<open>
  The commands on files, which \<open>internal/fs/drive9_companion.go\<close> delegates to the companion
  binary: the argument vectors it builds, the retries around a run, and the parsing of what
  the companion prints.  The companion is a parameter: what it prints and with which error
  it ends, for an argument vector and the number of earlier runs of the same command.
\<close>

type_synonym companion = "string list \<Rightarrow> nat \<Rightarrow> string \<times> go_error option"

section \<open>Reading an error of the companion\<close>

definition error_string :: "(string \<Rightarrow> string) \<Rightarrow> go_error \<Rightarrow> string" where
  "error_string q e = to_lower (render q (error_text e))"

definition is_drive9_not_found :: "(string \<Rightarrow> string) \<Rightarrow> go_error \<Rightarrow> bool" where
  "is_drive9_not_found q e = contains_str (error_string q e) ''not found''"

definition is_transient_drive9_error :: "(string \<Rightarrow> string) \<Rightarrow> go_error \<Rightarrow> bool" where
  "is_transient_drive9_error q e = list_ex (contains_str (error_string q e))
     ['' eof'', '': eof'', ''connection reset'', ''connection refused'', ''tls handshake timeout'',
      ''i/o timeout'', ''timeout awaiting response headers'', ''unexpected eof'', ''server closed idle connection'']"

definition is_drive9_readiness_error :: "(string \<Rightarrow> string) \<Rightarrow> go_error \<Rightarrow> bool" where
  "is_drive9_readiness_error q e = list_ex (contains_str (error_string q e))
     [''storage backend unavailable'', ''http 503'', ''provision'', ''service unavailable'', ''connection refused'',
      ''connection reset'', ''no such host'', ''network connectivity'', '': eof'', ''i/o timeout'',
      ''timeout awaiting response headers'', ''unexpected eof'']"

section \<open>Retries\<close>

text \<open>
  \<open>run i\<close> is the \<open>i\<close>-th run of the command and \<open>sleep i\<close> the error of the pause after it,
  when the context ends there.  The loops return with the number of runs.
\<close>

fun retry_loop ::
  "(go_error \<Rightarrow> bool) \<Rightarrow> (nat \<Rightarrow> 'a \<times> go_error option) \<Rightarrow> (nat \<Rightarrow> go_error option) \<Rightarrow> nat \<Rightarrow> nat \<Rightarrow>
   ('a \<times> go_error option) \<times> nat" where
  "retry_loop transient run sleep 0 attempt = (run attempt, Suc attempt)"
| "retry_loop transient run sleep (Suc left) attempt =
     (case run attempt of
        (r, None) \<Rightarrow> ((r, None), Suc attempt)
      | (r, Some e) \<Rightarrow>
          if \<not> transient e then ((r, Some e), Suc attempt)
          else (case sleep attempt of
                  Some c \<Rightarrow> ((r, Some c), Suc attempt)
                | None \<Rightarrow> retry_loop transient run sleep left (Suc attempt)))"

definition run_transient_retry ::
  "(string \<Rightarrow> string) \<Rightarrow> companion \<Rightarrow> (nat \<Rightarrow> go_error option) \<Rightarrow> string list \<Rightarrow> string \<times> go_error option" where
  "run_transient_retry q tool sleep args = fst (retry_loop (is_transient_drive9_error q) (tool args) sleep 2 0)"

text \<open>A delete is repeated after a transient error; not finding the object then is success.\<close>

fun delete_loop ::
  "(go_error \<Rightarrow> bool) \<Rightarrow> (go_error \<Rightarrow> bool) \<Rightarrow> (nat \<Rightarrow> go_error option) \<Rightarrow> (nat \<Rightarrow> go_error option) \<Rightarrow>
   nat \<Rightarrow> nat \<Rightarrow> bool \<Rightarrow> go_error option \<times> nat" where
  "delete_loop transient not_found run sleep left attempt saw =
     (case run attempt of
        None \<Rightarrow> (None, Suc attempt)
      | Some e \<Rightarrow>
          if saw \<and> not_found e then (None, Suc attempt)
          else if \<not> transient e then (Some e, Suc attempt)
          else (case left of
                  0 \<Rightarrow> (Some e, Suc attempt)
                | Suc left' \<Rightarrow>
                    (case sleep attempt of
                       Some c \<Rightarrow> (Some c, Suc attempt)
                     | None \<Rightarrow> delete_loop transient not_found run sleep left' (Suc attempt) True)))"

declare delete_loop.simps [simp del]

definition run_idempotent_delete ::
  "(string \<Rightarrow> string) \<Rightarrow> companion \<Rightarrow> (nat \<Rightarrow> go_error option) \<Rightarrow> string list \<Rightarrow> go_error option \<times> nat" where
  "run_idempotent_delete q tool sleep args =
     delete_loop (is_transient_drive9_error q) (is_drive9_not_found q) (\<lambda>i. snd (tool args i)) sleep 2 0 False"

section \<open>Waiting for a new file system\<close>

text \<open>Why the wait ends: the caller's context, or its own deadline.\<close>

datatype wait_state = Waiting_On | Parent_Done go_error | Deadline_Reached

definition ready_wait_context_error :: "string \<Rightarrow> string \<Rightarrow> wait_state \<Rightarrow> go_error option" where
  "ready_wait_context_error name timeout w = (case w of
     Parent_Done e \<Rightarrow> Some (app_wrap ''fs.ready_wait_canceled'' ''runtime'' 1
       (Fmt ''waiting for ti fs resource %q to become ready was canceled; the resource and its local credentials were not deleted'' [Lit name]) e)
   | Deadline_Reached \<Rightarrow> Some (app_new ''fs.ready_wait_timeout'' ''runtime'' 1
       (Fmt ''ti fs resource %q did not become ready within %s; the resource and its local credentials were not deleted'' [Lit name, Lit timeout]))
   | Waiting_On \<Rightarrow> None)"

text \<open>
  The polling loop: the result of the \<open>i\<close>-th poll, the state of the contexts right after it, and
  the state when the pause after it ends.  None when it never ends.
\<close>

partial_function (option) ready_wait ::
  "(go_error \<Rightarrow> bool) \<Rightarrow> string \<Rightarrow> string \<Rightarrow> (nat \<Rightarrow> go_error option) \<Rightarrow> (nat \<Rightarrow> wait_state) \<Rightarrow> (nat \<Rightarrow> wait_state) \<Rightarrow>
   nat \<Rightarrow> go_error option option" where
  "ready_wait readiness name timeout poll after pause i =
     (case poll i of
        None \<Rightarrow> Some None
      | Some e \<Rightarrow>
          (case ready_wait_context_error name timeout (after i) of
             Some w \<Rightarrow> Some (Some w)
           | None \<Rightarrow>
               if \<not> readiness e then
                 Some (Some (app_wrap ''fs.ready_wait_failed'' ''runtime'' 1
                   (Fmt ''ti fs resource %q was provisioned and its credentials were stored, but its Drive9 data plane readiness check failed'' [Lit name]) e))
               else if pause i \<noteq> Waiting_On then Some (ready_wait_context_error name timeout (pause i))
               else ready_wait readiness name timeout poll after pause (Suc i)))"

section \<open>Arguments\<close>

definition drive9_remote :: "string \<Rightarrow> string" where
  "drive9_remote remote_path0 =
     (let p = trim_space remote_path0 in
      if p = ''-'' \<or> has_prefix p '':'' then p
      else if \<not> has_prefix p ''/'' then '':/'' @ p
      else CHR '':'' # p)"

definition append_flag_value :: "string list \<Rightarrow> string \<Rightarrow> string \<Rightarrow> string list" where
  "append_flag_value args flag value =
     (if trim_space value = [] then args else args @ [flag, trim_space value])"

definition sorted_keys :: "(string \<times> string) list \<Rightarrow> string list" where
  "sorted_keys tags = sort (map fst tags)"

definition tag_args :: "(string \<times> string) list \<Rightarrow> string list" where
  "tag_args tags = concat (map (\<lambda>k. [''--tag'', k @ ''='' @ (case map_of tags k of None \<Rightarrow> [] | Some v \<Rightarrow> v)])
     (sorted_keys tags))"

text \<open>The flags of a copy, before its two operands.\<close>

definition copy_flags :: "copy_options \<Rightarrow> string list" where
  "copy_flags c =
     append_flag_value
       (append_flag_value
          ([''fs'', ''cp''] @ (if co_resume c then [''--resume''] else []) @ (if co_append c then [''--append''] else [])
            @ (if co_recursive c then [''--recursive''] else []))
          ''--layer'' (co_layer_id c)
        @ tag_args (co_tags c))
       ''--description'' (co_description c)"

text \<open>The operands: what the command reports as source and target, and what the companion gets.\<close>

definition copy_operands :: "copy_options \<Rightarrow> go_error + (string \<times> string \<times> string \<times> string)" where
  "copy_operands c =
     (if co_from_stdin c \<and> co_to_remote c \<noteq> [] then
        bind_result (normalize_remote_path (co_to_remote c)) (\<lambda>t. Inr (''-'', t, ''-'', drive9_remote t))
      else if co_from_local c \<noteq> [] \<and> co_to_remote c \<noteq> [] then
        bind_result (normalize_remote_path (co_to_remote c)) (\<lambda>t.
          Inr (co_from_local c, t, co_from_local c, drive9_remote t))
      else if co_from_remote c \<noteq> [] \<and> co_to_stdout c then
        bind_result (normalize_remote_path (co_from_remote c)) (\<lambda>s. Inr (s, ''-'', drive9_remote s, ''-''))
      else if co_from_remote c \<noteq> [] \<and> co_to_local c \<noteq> [] then
        bind_result (normalize_remote_path (co_from_remote c)) (\<lambda>s.
          Inr (s, co_to_local c, drive9_remote s, co_to_local c))
      else if co_from_remote c \<noteq> [] \<and> co_to_remote c \<noteq> [] then
        bind_result (normalize_remote_path (co_from_remote c)) (\<lambda>s.
          bind_result (normalize_remote_path (co_to_remote c)) (\<lambda>t. Inr (s, t, drive9_remote s, drive9_remote t)))
      else Inl (app_new ''fs.invalid_copy_flags'' ''usage'' 2 (Lit ''copy-file requires exactly one source/target pair'')))"

definition drive9_copy_args :: "copy_options \<Rightarrow> go_error + (string list \<times> string \<times> string)" where
  "drive9_copy_args c =
     (if co_recursive c \<and> trim_space (co_layer_id c) \<noteq> [] then
        Inl (app_new ''fs.recursive_layer_copy_unsupported'' ''usage'' 2
          (Lit ''--recursive cannot be combined with --layer-id; mount the layer with --driver fuse and copy the directory through the mounted path''))
      else bind_result (copy_operands c) (\<lambda>(source, target, a, b). Inr (copy_flags c @ [a, b], source, target)))"

section \<open>Commands on files\<close>

record file_result =
  fo_operation :: string
  fo_source :: string
  fo_target :: string
  fo_status :: string

text \<open>A run whose output is not used.\<close>

definition finish :: "string \<times> go_error option \<Rightarrow> file_result \<Rightarrow> go_error + file_result" where
  "finish out res = (case snd out of Some e \<Rightarrow> Inl e | None \<Rightarrow> Inr res)"

definition ensure_upload_target_absent ::
  "(string \<Rightarrow> string) \<Rightarrow> companion \<Rightarrow> (nat \<Rightarrow> go_error option) \<Rightarrow> copy_options \<Rightarrow> go_error option" where
  "ensure_upload_target_absent q tool sleep c =
     (if co_overwrite c \<or> co_append c \<or> co_resume c then None
      else let target = (if co_from_stdin c \<and> co_to_remote c \<noteq> [] then co_to_remote c
                         else if co_from_local c \<noteq> [] \<and> co_to_remote c \<noteq> [] then co_to_remote c else []) in
        if target = [] then None
        else case normalize_remote_path target of
          Inl e \<Rightarrow> Some e
        | Inr p \<Rightarrow>
            (case snd (run_transient_retry q tool sleep [''fs'', ''stat'', ''--output'', ''json'', drive9_remote p]) of
               None \<Rightarrow> Some (app_new ''fs.target_exists'' ''usage'' 2
                 (Fmt ''remote target %q already exists; pass --overwrite to replace it'' [Lit p]))
             | Some e \<Rightarrow> if is_drive9_not_found q e then None else Some e))"

text \<open>\<open>mkdir\<close> is the error of creating the parents of the local target.\<close>

definition drive9_copy_file ::
  "(string \<Rightarrow> string) \<Rightarrow> companion \<Rightarrow> (nat \<Rightarrow> go_error option) \<Rightarrow> go_error option \<Rightarrow> copy_options \<Rightarrow> go_error + file_result" where
  "drive9_copy_file q tool sleep mkdir c =
     bind_result (drive9_copy_args c) (\<lambda>(args, source, target).
       case ensure_upload_target_absent q tool sleep c of
         Some e \<Rightarrow> Inl e
       | None \<Rightarrow>
           (case (if co_create_parents c \<and> trim_space (co_to_local c) \<noteq> [] then mkdir else None) of
              Some e \<Rightarrow> Inl (app_wrap ''fs.create_local_parent'' ''runtime'' 1
                (Fmt ''create parent directories for %q'' [Lit (co_to_local c)]) e)
            | None \<Rightarrow>
                finish (if co_from_stdin c \<or> co_to_stdout c \<or> co_append c then tool args 0
                        else run_transient_retry q tool sleep args)
                  \<lparr>fo_operation = ''copy_file'', fo_source = source, fo_target = target,
                   fo_status = (if co_resume c then ''resumed'' else if co_append c then ''appended'' else ''copied'')\<rparr>))"

text \<open>Reading a file: a byte window is passed on when one was asked for.\<close>

definition drive9_read_file ::
  "(string \<Rightarrow> string) \<Rightarrow> companion \<Rightarrow> (nat \<Rightarrow> go_error option) \<Rightarrow> string \<Rightarrow> (int \<times> int) option \<Rightarrow> go_error + string" where
  "drive9_read_file q tool sleep path window =
     bind_result (normalize_remote_path path) (\<lambda>p.
       let args = [''fs'', ''cat'']
             @ (case window of None \<Rightarrow> [] | Some (off, len) \<Rightarrow> [''--offset'', int_digits off, ''--length'', int_digits len])
             @ [drive9_remote p];
           out = run_transient_retry q tool sleep args in
       case snd out of Some e \<Rightarrow> Inl e | None \<Rightarrow> Inr (fst out))"

definition drive9_move_file :: "companion \<Rightarrow> string \<Rightarrow> string \<Rightarrow> go_error + file_result" where
  "drive9_move_file tool from to =
     bind_result (normalize_remote_path from) (\<lambda>s.
     bind_result (normalize_remote_path to) (\<lambda>t.
       finish (tool [''fs'', ''mv'', drive9_remote s, drive9_remote t] 0)
         \<lparr>fo_operation = ''move_file'', fo_source = s, fo_target = t, fo_status = ''moved''\<rparr>))"

definition delete_args :: "bool \<Rightarrow> string \<Rightarrow> string list" where
  "delete_args rec p = [''fs'', ''rm''] @ (if rec then [''--recursive''] else []) @ [drive9_remote p]"

definition drive9_delete_file :: "companion \<Rightarrow> bool \<Rightarrow> string \<Rightarrow> go_error + file_result" where
  "drive9_delete_file tool rec path =
     bind_result (normalize_remote_path path) (\<lambda>p.
       finish (tool (delete_args rec p) 0)
         \<lparr>fo_operation = ''delete_file'', fo_source = [], fo_target = p, fo_status = ''deleted''\<rparr>)"

definition drive9_create_directory :: "companion \<Rightarrow> string \<Rightarrow> string \<Rightarrow> go_error + file_result" where
  "drive9_create_directory tool mode path =
     bind_result (normalize_remote_path path) (\<lambda>p.
     bind_result (if trim_space mode \<noteq> [] then parse_mode mode else Inr 0) (\<lambda>_.
       finish (tool [''fs'', ''mkdir'', drive9_remote p] 0)
         \<lparr>fo_operation = ''create_directory'', fo_source = [], fo_target = p, fo_status = ''created''\<rparr>))"

definition drive9_chmod_file ::
  "(string \<Rightarrow> string) \<Rightarrow> companion \<Rightarrow> (nat \<Rightarrow> go_error option) \<Rightarrow> string \<Rightarrow> string \<Rightarrow> go_error + file_result" where
  "drive9_chmod_file q tool sleep mode path =
     bind_result (normalize_remote_path path) (\<lambda>p.
     bind_result (parse_required_mode mode ''--mode'') (\<lambda>_.
       finish (run_transient_retry q tool sleep [''fs'', ''chmod'', mode, drive9_remote p])
         \<lparr>fo_operation = ''chmod_file'', fo_source = [], fo_target = p, fo_status = ''updated''\<rparr>))"

definition drive9_symlink_file :: "companion \<Rightarrow> string \<Rightarrow> string \<Rightarrow> go_error + file_result" where
  "drive9_symlink_file tool target link =
     (if trim_space target = [] then
        Inl (app_new ''fs.missing_symlink_target'' ''usage'' 2 (Lit ''--target is required''))
      else bind_result (normalize_remote_path link) (\<lambda>l.
        finish (tool [''fs'', ''symlink'', target, drive9_remote l] 0)
          \<lparr>fo_operation = ''create_symlink'', fo_source = target, fo_target = l, fo_status = ''created''\<rparr>))"

definition drive9_hardlink_file :: "companion \<Rightarrow> string \<Rightarrow> string \<Rightarrow> go_error + file_result" where
  "drive9_hardlink_file tool source link =
     bind_result (normalize_remote_path source) (\<lambda>s.
     bind_result (normalize_remote_path link) (\<lambda>l.
       finish (tool [''fs'', ''hardlink'', drive9_remote s, drive9_remote l] 0)
         \<lparr>fo_operation = ''create_hardlink'', fo_source = s, fo_target = l, fo_status = ''created''\<rparr>))"

section \<open>Parsing what the companion prints\<close>

record file_entry =
  fe_name :: string
  fe_size :: int
  fe_is_dir :: bool

definition trim_left_spaces :: "string \<Rightarrow> string" where
  "trim_left_spaces s = dropWhile (\<lambda>c. c = CHR '' '') s"

text \<open>A line of \<open>fs ls -l\<close>: kind, size and name, padded with blanks.\<close>

definition parse_ls_line :: "string \<Rightarrow> file_entry option" where
  "parse_ls_line line =
     (let rest = trim_left_spaces line in
      if length rest < 2 then None
      else case cut_at (CHR '' '') (trim_left_spaces (tl rest)) of
        None \<Rightarrow> None
      | Some (size_text, n) \<Rightarrow>
          (case parse_int size_text of
             None \<Rightarrow> None
           | Some k \<Rightarrow> Some \<lparr>fe_name = trim_left_spaces n, fe_size = k, fe_is_dir = (hd rest = CHR ''d'')\<rparr>))"

definition parse_drive9_ls :: "string \<Rightarrow> file_entry list" where
  "parse_drive9_ls raw = List.map_filter parse_ls_line (split_on (CHR 0x0A) (trim_space raw))"

definition drive9_list_files :: "companion \<Rightarrow> string \<Rightarrow> go_error + (string \<times> file_entry list)" where
  "drive9_list_files tool path =
     bind_result (normalize_remote_path (default_remote_path path)) (\<lambda>p.
       case tool [''fs'', ''ls'', ''-l'', drive9_remote p] 0 of
         (out, Some e) \<Rightarrow> Inl e
       | (out, None) \<Rightarrow> Inr (p, parse_drive9_ls out))"

definition before_tab :: "string \<Rightarrow> string" where
  "before_tab s = takeWhile (\<lambda>c. c \<noteq> CHR 0x09) s"

definition parse_path_line :: "string \<Rightarrow> string \<times> string" where
  "parse_path_line line = (let p = trim_prefix (trim_space (before_tab line)) '':'' in (p, path_base p))"

text \<open>The lines up to the limit; a limit of 0 or less is none.\<close>

fun path_lines :: "nat option \<Rightarrow> string list \<Rightarrow> (string \<times> string) list" where
  "path_lines limit [] = []"
| "path_lines limit (l # ls) =
     (let line = trim_space l in
      if line = [] then path_lines limit ls
      else parse_path_line line #
        (case limit of None \<Rightarrow> path_lines None ls
         | Some n \<Rightarrow> if n \<le> 1 then [] else path_lines (Some (n - 1)) ls))"

definition parse_drive9_paths :: "string \<Rightarrow> int \<Rightarrow> (string \<times> string) list" where
  "parse_drive9_paths raw limit =
     path_lines (if limit > 0 then Some (nat limit) else None) (split_on (CHR 0x0A) (trim_space raw))"

definition drive9_search_file_content ::
  "companion \<Rightarrow> string \<Rightarrow> string \<Rightarrow> string \<Rightarrow> int \<Rightarrow> go_error + (string \<times> (string \<times> string) list)" where
  "drive9_search_file_content tool path pattern layer limit =
     bind_result (normalize_remote_path (default_remote_path path)) (\<lambda>p.
       if trim_space pattern = [] then
         Inl (app_new ''fs.missing_pattern'' ''usage'' 2 (Lit ''--pattern is required''))
       else case tool ([''fs'', ''grep''] @ (if trim_space layer \<noteq> [] then [''--layer'', trim_space layer] else [])
              @ [pattern, drive9_remote p]) 0 of
         (out, Some e) \<Rightarrow> Inl e
       | (out, None) \<Rightarrow> Inr (p, parse_drive9_paths out limit))"

record find_options =
  fi_path :: string
  fi_resource_type :: string
  fi_pattern :: string
  fi_tag :: string
  fi_layer :: string
  fi_newer :: string
  fi_older :: string
  fi_min :: int
  fi_max :: int
  fi_limit :: int

definition find_args :: "find_options \<Rightarrow> string \<Rightarrow> string list" where
  "find_args o' p =
     [''fs'', ''find'', drive9_remote p]
     @ (if fi_pattern o' \<noteq> [] then [''-name'', fi_pattern o'] else [])
     @ (if fi_tag o' \<noteq> [] then [''-tag'', fi_tag o'] else [])
     @ (if fi_layer o' \<noteq> [] then [''--layer'', fi_layer o'] else [])
     @ (if fi_newer o' \<noteq> [] then [''-newer'', fi_newer o'] else [])
     @ (if fi_older o' \<noteq> [] then [''-older'', fi_older o'] else [])
     @ (if fi_min o' > 0 then [''-size'', CHR ''+'' # int_digits (fi_min o')] else [])
     @ (if fi_max o' > 0 then [''-size'', CHR ''-'' # int_digits (fi_max o')] else [])"

definition drive9_find_files :: "companion \<Rightarrow> find_options \<Rightarrow> go_error + (string \<times> (string \<times> string) list)" where
  "drive9_find_files tool o' =
     (if trim_space (fi_resource_type o') \<noteq> [] then
        Inl (app_new ''fs.unsupported_find_flag'' ''usage'' 2
          (Lit ''--resource-type is not supported by the Drive9 companion CLI''))
      else bind_result (normalize_remote_path (default_remote_path (fi_path o'))) (\<lambda>p.
        case tool (find_args o' p) 0 of
          (out, Some e) \<Rightarrow> Inl e
        | (out, None) \<Rightarrow> Inr (p, parse_drive9_paths out (fi_limit o'))))"

text \<open>The words of the help text of \<open>fs layer\<close>.\<close>

definition help_separator :: "char \<Rightarrow> bool" where
  "help_separator c \<longleftrightarrow> c \<in> {CHR ''<'', CHR ''>'', CHR ''|'', CHR '' '', CHR 0x09, CHR 0x0D, CHR 0x0A}"

definition layer_help_has_command :: "string \<Rightarrow> string \<Rightarrow> bool" where
  "layer_help_has_command help word \<longleftrightarrow> word \<in> set (fields_func help_separator [] help)"

definition incompatible_drive9_error :: "go_error option \<Rightarrow> go_error" where
  "incompatible_drive9_error cause =
     (let m = Lit ''the installed ti-drive9 companion does not support filesystem layer fork workflows; update or reinstall ti after a compatible companion release is available'' in
      case cause of Some e \<Rightarrow> app_wrap ''fs.companion_incompatible'' ''runtime'' 1 m e
      | None \<Rightarrow> app_new ''fs.companion_incompatible'' ''runtime'' 1 m)"

definition layer_capabilities :: "string list" where
  "layer_capabilities = [''layer-fork'', ''layer-chain'', ''layer-delete'']"

definition mount_capabilities :: "string list" where
  "mount_capabilities = [''layer-mount'', ''checkpoint-mount'']"

definition capability_available :: "string \<Rightarrow> string \<Rightarrow> string \<Rightarrow> bool" where
  "capability_available layer_help mount_help cap =
     (if cap = ''layer-fork'' then layer_help_has_command layer_help ''fork''
      else if cap = ''layer-chain'' then layer_help_has_command layer_help ''chain''
      else if cap = ''layer-delete'' then layer_help_has_command layer_help ''delete''
      else if cap = ''layer-mount'' then
        contains_str mount_help ''-layer string'' \<or> contains_str mount_help ''--layer string''
      else if cap = ''checkpoint-mount'' then
        contains_str mount_help ''-checkpoint string'' \<or> contains_str mount_help ''--checkpoint string''
      else False)"

text \<open>The help texts are standard output and error joined by a newline.\<close>

definition require_drive9_capabilities :: "companion \<Rightarrow> string list \<Rightarrow> go_error option" where
  "require_drive9_capabilities tool caps =
     (case find (\<lambda>c. c \<notin> set (layer_capabilities @ mount_capabilities)) caps of
        Some c \<Rightarrow> Some (app_new ''fs.companion_capability_unknown'' ''runtime'' 1
          (Fmt ''unknown ti fs companion capability %q'' [Lit c]))
      | None \<Rightarrow>
          (case (if list_ex (\<lambda>c. c \<in> set layer_capabilities) caps then tool [''fs'', ''layer'', ''help''] 0 else ([], None)) of
             (_, Some e) \<Rightarrow> Some (incompatible_drive9_error (Some e))
           | (layer_help, None) \<Rightarrow>
               (case (if list_ex (\<lambda>c. c \<in> set mount_capabilities) caps then tool [''mount'', ''--help''] 0 else ([], None)) of
                  (_, Some e) \<Rightarrow> Some (incompatible_drive9_error (Some e))
                | (mount_help, None) \<Rightarrow>
                    if list_all (capability_available layer_help mount_help) caps then None
                    else Some (incompatible_drive9_error None))))"

fun vault_grant_scopes :: "string list \<Rightarrow> go_error + string list" where
  "vault_grant_scopes [] = Inr []"
| "vault_grant_scopes (s # ss) =
     (let scope = trim_space s in
      if scope = [] then Inl (app_new ''vault.missing_scope'' ''usage'' 2 (Lit ''--scope cannot be empty''))
      else if has_prefix scope ''/n/vault/'' then
        (let t = trim_prefix scope ''/n/vault/'' in
         if t = [] then Inl (app_new ''vault.invalid_scope'' ''usage'' 2 (Lit ''--scope must include a secret name''))
         else bind_result (vault_grant_scopes ss) (\<lambda>out. Inr (t # out)))
      else if has_prefix scope ''/'' then
        Inl (app_new ''vault.invalid_scope'' ''usage'' 2
          (Lit ''--scope must be <secret>[/<field>] or /n/vault/<secret>[/<field>]''))
      else bind_result (vault_grant_scopes ss) (\<lambda>out. Inr (scope # out)))"

definition drive9_vault_grant_scopes :: "string list \<Rightarrow> go_error + string list" where
  "drive9_vault_grant_scopes scopes =
     (if scopes = [] then Inl (app_new ''vault.missing_scope'' ''usage'' 2 (Lit ''at least one --scope is required''))
      else vault_grant_scopes scopes)"

section \<open>Lemmas\<close>

definition transient_run :: "(go_error \<Rightarrow> bool) \<Rightarrow> 'a \<times> go_error option \<Rightarrow> bool" where
  "transient_run transient out = (case snd out of None \<Rightarrow> False | Some e \<Rightarrow> transient e)"

lemma retry_loop_spec:
  assumes "retry_loop transient run sleep left attempt = (out, n)"
  shows "attempt < n \<and> n \<le> Suc (attempt + left)
    \<and> (\<forall>i. attempt \<le> i \<and> Suc i < n \<longrightarrow> transient_run transient (run i) \<and> sleep i = None)
    \<and> (out = run (n - 1) \<or> (\<exists>c. sleep (n - 1) = Some c \<and> out = (fst (run (n - 1)), Some c)))"
  using assms
proof (induction transient run sleep left attempt rule: retry_loop.induct)
  case (1 transient run sleep attempt)
  then show ?case by auto
next
  case (2 transient run sleep left attempt)
  obtain r x where r: "run attempt = (r, x)" by force
  show ?case
  proof (cases x)
    case None
    then show ?thesis using 2(2) r by auto
  next
    case (Some e)
    show ?thesis
    proof (cases "transient e \<and> sleep attempt = None")
      case False
      then show ?thesis using 2(2) r Some by (auto split: if_splits option.splits)
    next
      case True
      then have next_loop: "retry_loop transient run sleep left (Suc attempt) = (out, n)"
        using 2(2) r Some by simp
      note ih = 2(1) [OF r [symmetric] Some _ _ next_loop]
      have ih': "Suc attempt < n \<and> n \<le> Suc (Suc attempt + left)
        \<and> (\<forall>i. Suc attempt \<le> i \<and> Suc i < n \<longrightarrow> transient_run transient (run i) \<and> sleep i = None)
        \<and> (out = run (n - 1) \<or> (\<exists>c. sleep (n - 1) = Some c \<and> out = (fst (run (n - 1)), Some c)))"
        by (rule ih) (use True in simp_all)
      have t0: "transient_run transient (run attempt) \<and> sleep attempt = None"
        using True r Some by (simp add: transient_run_def)
      have "transient_run transient (run i) \<and> sleep i = None" if "attempt \<le> i" "Suc i < n" for i
        using that ih' t0 by (cases "i = attempt") auto
      then show ?thesis using ih' by auto
    qed
  qed
qed

lemma delete_loop_spec:
  assumes "delete_loop transient not_found run sleep left attempt saw = (res, n)"
  shows "attempt < n \<and> n \<le> Suc (attempt + left)
    \<and> (\<forall>i. attempt \<le> i \<and> Suc i < n \<longrightarrow> (\<exists>e. run i = Some e \<and> transient e))
    \<and> (res = None \<longrightarrow> run (n - 1) = None
         \<or> (saw \<or> Suc attempt < n) \<and> (\<exists>e. run (n - 1) = Some e \<and> not_found e))"
  using assms
proof (induction left arbitrary: attempt saw)
  case 0
  then show ?case
    by (subst (asm) delete_loop.simps) (auto split: option.splits if_splits)
next
  case (Suc left)
  show ?case
  proof (cases "\<exists>e. run attempt = Some e \<and> \<not> (saw \<and> not_found e) \<and> transient e \<and> sleep attempt = None")
    case False
    then show ?thesis
      using Suc.prems by (subst (asm) delete_loop.simps) (auto split: option.splits if_splits)
  next
    case True
    then obtain e where e: "run attempt = Some e" "\<not> (saw \<and> not_found e)" "transient e" "sleep attempt = None"
      by blast
    then have nl: "delete_loop transient not_found run sleep left (Suc attempt) True = (res, n)"
      using Suc.prems by (subst (asm) delete_loop.simps) (simp split: if_splits)
    note ih = Suc.IH [OF nl]
    have "\<exists>e. run i = Some e \<and> transient e" if "attempt \<le> i" "Suc i < n" for i
      using that ih e by (cases "i = attempt") auto
    then show ?thesis using ih by auto
  qed
qed

lemma drive9_remote_exact:
  assumes "normalize_remote_path v = Inr p" "trim_space p = p"
  shows "drive9_remote p = CHR '':'' # p"
proof -
  have "normal_path p" by (rule normalize_remote_path_normal [OF assms(1)])
  then have "has_prefix p ''/''" by (auto elim: normal_pathE)
  then show ?thesis
    using assms(2) by (cases p) (auto simp: drive9_remote_def)
qed

text \<open>A line of the listing as the companion prints it.\<close>

definition ls_line :: "nat \<Rightarrow> nat \<Rightarrow> file_entry \<Rightarrow> string" where
  "ls_line j k e = (if fe_is_dir e then CHR ''d'' else CHR ''-'') # replicate (Suc j) (CHR '' '')
     @ int_digits (fe_size e) @ replicate (Suc k) (CHR '' '') @ fe_name e"

definition listable :: "file_entry \<Rightarrow> bool" where
  "listable e \<longleftrightarrow> fe_name e \<noteq> [] \<and> hd (fe_name e) \<noteq> CHR '' '' \<and> CHR 0x0A \<notin> set (fe_name e) \<and> in_int64 (fe_size e)"

lemma trim_left_spaces_replicate [simp]:
  "trim_left_spaces (replicate k (CHR '' '') @ s) = trim_left_spaces s"
  by (induction k) (auto simp: trim_left_spaces_def)

lemma trim_left_spaces_id: "s = [] \<or> hd s \<noteq> CHR '' '' \<Longrightarrow> trim_left_spaces s = s"
  by (cases s) (auto simp: trim_left_spaces_def)

lemma int_digits_no_space: "CHR '' '' \<notin> set (int_digits n)" "CHR 0x0A \<notin> set (int_digits n)"
  using int_digits_chars [of "CHR '' ''" n] int_digits_chars [of "CHR 0x0A" n]
  by (auto simp: is_digit_def byte_of_def)

lemma cut_at_append: "c \<notin> set a \<Longrightarrow> cut_at c (a @ c # b) = Some (a, b)"
  by (auto simp: cut_at_def takeWhile_tail dropWhile_append)

lemma parse_ls_line_print:
  assumes "listable e"
  shows "parse_ls_line (ls_line j k e) = Some e"
proof -
  let ?kind = "if fe_is_dir e then CHR ''d'' else CHR ''-''"
  have nodig: "hd (int_digits (fe_size e)) \<noteq> CHR '' ''"
    using int_digits_no_space(1) [of "fe_size e"] int_digits_not_Nil by (metis hd_in_set)
  have l: "trim_left_spaces (ls_line j k e) = ls_line j k e"
    by (rule trim_left_spaces_id) (simp add: ls_line_def)
  have rest: "trim_left_spaces (tl (ls_line j k e))
      = int_digits (fe_size e) @ CHR '' '' # replicate k (CHR '' '') @ fe_name e"
    using nodig trim_left_spaces_replicate [of "Suc j"] by (simp add: ls_line_def trim_left_spaces_id)
  have nm: "trim_left_spaces (replicate k (CHR '' '') @ fe_name e) = fe_name e"
    using assms by (simp add: trim_left_spaces_id listable_def)
  have two: "\<not> length (ls_line j k e) < 2" by (simp add: ls_line_def)
  have h: "(hd (ls_line j k e) = CHR ''d'') = fe_is_dir e" by (simp add: ls_line_def)
  show ?thesis
    using assms two h nm cut_at_append [OF int_digits_no_space(1)]
    by (simp add: parse_ls_line_def l rest parse_int_digits listable_def)
qed

lemma ls_line_no_newline: "listable e \<Longrightarrow> CHR 0x0A \<notin> set (ls_line j k e)"
  using int_digits_no_space(2) by (auto simp: ls_line_def listable_def)

lemma trim_space_newline:
  assumes "s \<noteq> []" "is_graphic (hd s)" "is_graphic (last s)"
  shows "trim_space (s @ [CHR 0x0A]) = s"
proof -
  have "trim_left (s @ [CHR 0x0A]) = s @ [CHR 0x0A]"
    unfolding trim_left_def using assms by (intro trim_front_stop space_width_graphic) auto
  moreover have "trim_front space_width_rev (rev (s @ [CHR 0x0A])) = rev s"
  proof -
    have "space_width_rev (rev (s @ [CHR 0x0A])) = 1" by (simp add: is_ascii_space_def byte_of_def)
    then have "trim_front space_width_rev (rev (s @ [CHR 0x0A])) = trim_front space_width_rev (rev s)"
      by (subst trim_front_step) simp_all
    also have "\<dots> = rev s"
      using assms by (intro trim_front_stop space_width_rev_graphic) (auto simp: hd_rev)
    finally show ?thesis .
  qed
  ultimately show ?thesis by (simp add: trim_space_def trim_right_def)
qed

definition wait_codes :: "string set" where
  "wait_codes = {''fs.ready_wait_canceled'', ''fs.ready_wait_timeout'', ''fs.ready_wait_failed''}"

lemma code_for_app_wrap [simp]: "code_for (Some (app_wrap c cat x m e)) = c"
  by (simp add: code_for_def) (simp add: app_wrap_def)

lemma ready_wait_context_error_code:
  "ready_wait_context_error name timeout w = Some e \<Longrightarrow> code_for (Some e) \<in> wait_codes"
  by (cases w) (auto simp: ready_wait_context_error_def wait_codes_def)

lemma ready_wait_context_error_Some:
  "w \<noteq> Waiting_On \<Longrightarrow> \<exists>e. ready_wait_context_error name timeout w = Some e"
  by (cases w) (auto simp: ready_wait_context_error_def)

lemma ready_wait_result:
  assumes "poll (i + d) = None \<or> after (i + d) \<noteq> Waiting_On \<or> pause (i + d) \<noteq> Waiting_On"
  shows "\<exists>r. ready_wait readiness name timeout poll after pause i = Some r
    \<and> (case r of None \<Rightarrow> \<exists>j. poll j = None | Some e \<Rightarrow> code_for (Some e) \<in> wait_codes)"
  using assms
proof (induction d arbitrary: i)
  case base: 0
  consider "poll i = None" | e where "poll i = Some e" by (cases "poll i") auto
  then show ?case
  proof cases
    case 1
    then show ?thesis by (subst ready_wait.simps) auto
  next
    case (2 e)
    show ?thesis
    proof (cases "after i = Waiting_On")
      case False
      then obtain w where "ready_wait_context_error name timeout (after i) = Some w"
        using ready_wait_context_error_Some by blast
      then show ?thesis using 2 ready_wait_context_error_code by (subst ready_wait.simps) auto
    next
      case True
      then have p: "pause i \<noteq> Waiting_On" using base 2 by simp
      then obtain w where "ready_wait_context_error name timeout (pause i) = Some w"
        using ready_wait_context_error_Some by blast
      then show ?thesis
        using 2 True p ready_wait_context_error_code
        by (subst ready_wait.simps) (auto simp: ready_wait_context_error_def [of _ _ Waiting_On] wait_codes_def)
    qed
  qed
next
  case (Suc d)
  have next_wait: "\<exists>r. ready_wait readiness name timeout poll after pause (Suc i) = Some r
    \<and> (case r of None \<Rightarrow> \<exists>j. poll j = None | Some e \<Rightarrow> code_for (Some e) \<in> wait_codes)"
    by (rule Suc.IH) (use Suc.prems in simp)
  consider "poll i = None" | e w where "poll i = Some e" "ready_wait_context_error name timeout (after i) = Some w"
    | e where "poll i = Some e" "ready_wait_context_error name timeout (after i) = None"
    by (cases "poll i"; cases "ready_wait_context_error name timeout (after i)") auto
  then show ?case
  proof cases
    case 1
    then show ?thesis by (subst ready_wait.simps) auto
  next
    case 2
    then show ?thesis using ready_wait_context_error_code [OF 2(2)] by (subst ready_wait.simps) auto
  next
    case (3 e)
    show ?thesis
    proof (cases "pause i = Waiting_On")
      case True
      then show ?thesis using 3 next_wait by (subst ready_wait.simps) (auto simp: wait_codes_def)
    next
      case False
      then obtain w where "ready_wait_context_error name timeout (pause i) = Some w"
        using ready_wait_context_error_Some by blast
      then show ?thesis
        using 3 False ready_wait_context_error_code by (subst ready_wait.simps) (auto simp: wait_codes_def)
    qed
  qed
qed

lemma path_lines_limit: "length (path_lines (Some n) ls) \<le> max 1 n"
proof (induction ls arbitrary: n)
  case (Cons l ls)
  show ?case
  proof (cases "trim_space l = [] \<or> n \<le> 1")
    case True
    then show ?thesis using Cons.IH [of n] by (auto simp: Let_def)
  next
    case False
    then show ?thesis using Cons.IH [of "n - 1"] by (auto simp: Let_def)
  qed
qed simp

section \<open>Properties\<close>

text \<open>A normalised remote path without blanks at its ends reaches the companion as it is,
  after a colon, so two such paths never name the same object.\<close>

theorem drive9_remote_faithful:
  assumes "normalize_remote_path v = Inr p" "trim_space p = p"
    and "normalize_remote_path w = Inr r" "trim_space r = r"
  shows "drive9_remote p = CHR '':'' # p \<and> (drive9_remote p = drive9_remote r) = (p = r)"
  using drive9_remote_exact [OF assms(1,2)] drive9_remote_exact [OF assms(3,4)] by simp

theorem drive9_remote_faithful_witness:
  "drive9_remote ''/a/b'' = '':/a/b'' \<and> drive9_remote ''/a/b'' \<noteq> drive9_remote ''/a/c''"
proof -
  have n: "normalize_remote_path ''a//b'' = Inr ''/a/b''" "trim_space ''/a/b'' = ''/a/b''"
    "normalize_remote_path ''/a/c'' = Inr ''/a/c''" "trim_space ''/a/c'' = ''/a/c''" by code_simp+
  have d: "''/a/b'' \<noteq> ''/a/c''" by simp
  show ?thesis using drive9_remote_faithful [OF n] d by argo
qed

text \<open>Blanks at the end of a path are significant for the service but not for the
  translation: deleting the object \<open>'/a '\<close> runs the command that deletes \<open>'/a'\<close> and reports the
  deletion of \<open>'/a '\<close>.\<close>

theorem drive9_delete_other_object:
  "normalize_remote_path ''/a '' = Inr ''/a '' \<and> normalize_remote_path ''/a'' = Inr ''/a''
   \<and> drive9_delete_file tool rec ''/a '' = finish (tool (delete_args rec ''/a'') 0)
       \<lparr>fo_operation = ''delete_file'', fo_source = [], fo_target = ''/a '', fo_status = ''deleted''\<rparr>"
proof -
  have n: "normalize_remote_path ''/a '' = Inr ''/a ''" "normalize_remote_path ''/a'' = Inr ''/a''"
    "drive9_remote ''/a '' = '':/a''" "drive9_remote ''/a'' = '':/a''"
    by code_simp+
  then show ?thesis by (simp add: drive9_delete_file_def delete_args_def)
qed

text \<open>The retry loop runs the companion at most three times, only goes on after a transient
  error, and returns the outcome of the last run, or the error of the context that ended the
  pause after it.\<close>

theorem run_transient_retry_sound:
  "\<exists>n. 1 \<le> n \<and> n \<le> 3
     \<and> list_all (\<lambda>i. transient_run (is_transient_drive9_error q) (tool args i) \<and> sleep i = None) [0..<n - 1]
     \<and> (run_transient_retry q tool sleep args = tool args (n - 1)
        \<or> (\<exists>c. sleep (n - 1) = Some c
             \<and> run_transient_retry q tool sleep args = (fst (tool args (n - 1)), Some c)))"
proof -
  obtain out n where ol: "retry_loop (is_transient_drive9_error q) (tool args) sleep 2 0 = (out, n)"
    by (rule prod.exhaust)
  show ?thesis
    using retry_loop_spec [OF ol] ol
    by (intro exI [of _ n]) (auto simp: run_transient_retry_def list_all_iff)
qed

text \<open>C40: A repeated delete reports success only when a run of the companion deleted the object,
  or when a run found it gone after an earlier run of the same delete failed transiently; it
  runs at most three times.\<close>

theorem idempotent_delete_sound:
  assumes "run_idempotent_delete q tool sleep args = (None, n)"
  shows "1 \<le> n \<and> n \<le> 3
    \<and> (snd (tool args (n - 1)) = None
       \<or> 2 \<le> n \<and> (\<exists>e. snd (tool args (n - 1)) = Some e \<and> is_drive9_not_found q e)
         \<and> (\<exists>e. snd (tool args 0) = Some e \<and> is_transient_drive9_error q e))"
  using delete_loop_spec [OF assms [unfolded run_idempotent_delete_def]] by auto

text \<open>A companion whose connection breaks and which then does not find the object.\<close>

definition flaky_tool :: companion where
  "flaky_tool args i = ([], Some (Msg (Lit (if i = 0 then ''read: connection reset'' else ''object not found''))))"

theorem idempotent_delete_sound_witness:
  "run_idempotent_delete id flaky_tool (\<lambda>_. None) [''fs''] = (None, 2)
   \<and> (\<exists>e. snd (flaky_tool [''fs''] 1) = Some e \<and> is_drive9_not_found id e)"
proof -
  have h: "run_idempotent_delete id flaky_tool (\<lambda>_. None) [''fs''] = (None, 2)" by code_simp
  show ?thesis using idempotent_delete_sound [OF h] h by (simp add: flaky_tool_def)
qed

text \<open>Printing a directory listing line by line and parsing it gives the entries back, for
  names that do not start with a blank and hold no line break, when the last name ends with a
  visible ASCII character.\<close>

theorem ls_round_trip:
  assumes "list_all listable es" "es \<noteq> []" "is_graphic (last (fe_name (last es)))"
  shows "parse_drive9_ls (join_with [CHR 0x0A] (map (ls_line j k) es) @ [CHR 0x0A]) = es"
proof -
  let ?ls = "map (ls_line j k) es" and ?s = "join_with [CHR 0x0A] (map (ls_line j k) es)"
  have ends: "is_graphic (hd (ls_line j k e))" "ls_line j k e \<noteq> []" for e
    by (simp_all add: ls_line_def is_graphic_def byte_of_def)
  have hd: "?s \<noteq> [] \<and> is_graphic (hd ?s)" if "es \<noteq> []"
    using that ends by (cases es; cases "tl es") auto
  have lst: "last ?s = last (fe_name (last es))"
    using assms(1,2)
  proof (induction es)
    case (Cons e es)
    then show ?case by (cases es) (auto simp: ls_line_def listable_def join_with_Cons)
  qed simp
  have t: "trim_space (?s @ [CHR 0x0A]) = ?s"
    using trim_space_newline hd [OF assms(2)] lst assms(3) by simp
  have sp: "split_on (CHR 0x0A) ?s = ?ls"
    using assms(1,2) ls_line_no_newline by (intro split_join) (auto simp: list_all_iff)
  have "List.map_filter parse_ls_line ?ls = es"
    using assms(1) by (induction es) (auto simp: List.map_filter_simps parse_ls_line_print)
  then show ?thesis unfolding parse_drive9_ls_def t sp .
qed

theorem ls_round_trip_witness:
  "parse_drive9_ls (join_with [CHR 0x0A] (map (ls_line 2 3)
       [\<lparr>fe_name = ''my file'', fe_size = 12, fe_is_dir = False\<rparr>, \<lparr>fe_name = ''d'', fe_size = 0, fe_is_dir = True\<rparr>])
       @ [CHR 0x0A])
   = [\<lparr>fe_name = ''my file'', fe_size = 12, fe_is_dir = False\<rparr>, \<lparr>fe_name = ''d'', fe_size = 0, fe_is_dir = True\<rparr>]"
  by (rule ls_round_trip)
    (simp_all add: listable_def in_int64_def min_int64_def max_int64_def is_graphic_def byte_of_def)

text \<open>Waiting for a new file system ends as soon as a poll succeeds or a context is done, and
  reports readiness only when some poll succeeded; otherwise its error is one of the three of
  the wait.\<close>

theorem ready_wait_ends_sound:
  assumes "poll k = None \<or> after k \<noteq> Waiting_On \<or> pause k \<noteq> Waiting_On"
  shows "\<exists>r. ready_wait readiness name timeout poll after pause 0 = Some r
    \<and> (case r of None \<Rightarrow> \<exists>j. poll j = None | Some e \<Rightarrow> code_for (Some e) \<in> wait_codes)"
  using ready_wait_result [of poll 0 k after pause] assms by simp

definition sample_poll :: "nat \<Rightarrow> go_error option" where
  "sample_poll i = (if i < 3 then Some (Msg (Lit ''http 503'')) else None)"

theorem ready_wait_ends_sound_witness:
  "\<exists>r. ready_wait (is_drive9_readiness_error id) ''fs'' ''10m0s'' sample_poll (\<lambda>_. Waiting_On) (\<lambda>_. Waiting_On) 0 = Some r
    \<and> (case r of None \<Rightarrow> \<exists>j. sample_poll j = None | Some e \<Rightarrow> code_for (Some e) \<in> wait_codes)"
  by (rule ready_wait_ends_sound [of _ 3]) (simp add: sample_poll_def)

text \<open>An upload without \<open>--overwrite\<close>, \<open>--append\<close> or \<open>--resume\<close> to a target the companion
  can stat is refused with \<open>fs.target_exists\<close>, whatever the copy would have done: it is not run.\<close>

theorem copy_refuses_existing_target:
  assumes "\<not> co_overwrite c" "\<not> co_append c" "\<not> co_resume c" "\<not> co_recursive c"
    and "co_from_local c \<noteq> []" "co_to_remote c \<noteq> []" "normalize_remote_path (co_to_remote c) = Inr p"
    and "snd (tool [''fs'', ''stat'', ''--output'', ''json'', drive9_remote p] 0) = None"
  shows "\<exists>e. drive9_copy_file q tool sleep mkdir c = Inl e \<and> code_for (Some e) = ''fs.target_exists''"
proof -
  let ?args = "[''fs'', ''stat'', ''--output'', ''json'', drive9_remote p]"
  obtain r where "tool ?args 0 = (r, None)" using assms(8) by (cases "tool ?args 0") auto
  then have "snd (run_transient_retry q tool sleep ?args) = None"
    by (simp add: run_transient_retry_def numeral_2_eq_2)
  then have e: "ensure_upload_target_absent q tool sleep c = Some (app_new ''fs.target_exists'' ''usage'' 2
      (Fmt ''remote target %q already exists; pass --overwrite to replace it'' [Lit p]))"
    using assms by (simp add: ensure_upload_target_absent_def Let_def)
  have "\<exists>args s t. drive9_copy_args c = Inr (args, s, t)"
    using assms by (simp add: drive9_copy_args_def copy_operands_def)
  then show ?thesis using e by (auto simp: drive9_copy_file_def)
qed

theorem copy_refuses_existing_target_witness:
  "\<exists>e. drive9_copy_file id (\<lambda>_ _. (''{}'', None)) (\<lambda>_. None) None
      \<lparr>co_from_local = ''a.txt'', co_to_local = [], co_from_remote = [], co_to_remote = ''/a.txt'',
       co_from_stdin = False, co_to_stdout = False, co_layer_id = [], co_overwrite = False,
       co_create_parents = False, co_append = False, co_recursive = False, co_resume = False,
       co_tags = [], co_description = []\<rparr> = Inl e \<and> code_for (Some e) = ''fs.target_exists''"
proof -
  have "normalize_remote_path ''/a.txt'' = Inr ''/a.txt''" by code_simp
  then show ?thesis by (intro copy_refuses_existing_target) simp_all
qed

text \<open>A scope that starts with a slash is rejected unless it names the vault tree, but the
  prefix is removed before the check: \<open>/n/vault//etc\<close> is accepted as the scope \<open>/etc\<close>, which
  the same list refuses when it is given directly.\<close>

theorem vault_scope_slash_bypass:
  "drive9_vault_grant_scopes [''/n/vault//etc''] = Inr [''/etc''] \<and> \<not> is_ok (drive9_vault_grant_scopes [''/etc''])"
  by code_simp

end
