(* ===== verification/Webdav.thy ===== *)
theory Webdav
  imports Meta_Store
begin

text \<open>
  The WebDAV mount (\<open>internal/fs/webdavfs.go\<close>): the file system that maps WebDAV names to
  paths of the service, the open file with its bytes and offset, and the store of the
  properties clients attach to paths.  The client of the service is a record of its calls over
  the state \<open>'s\<close> of the service.  A property of the WebDAV library has a name and a body
  \<open>'x\<close> the code never looks into.  The mutex of the property store makes every operation on
  it one step; the maps are association lists, whose order stands for the order Go visits them.
\<close>

section \<open>Dead properties\<close>

type_synonym xml_name = "string \<times> string"

record 'x dav_property =
  pr_name :: xml_name
  pr_body :: 'x

record 'x prop_patch =
  pp_remove :: bool
  pp_props :: "'x dav_property list"

record prop_stat =
  ps_status :: int
  ps_names :: "xml_name list"

type_synonym 'x path_props = "(xml_name \<times> 'x dav_property) list"
type_synonym 'x prop_store = "(string \<times> 'x path_props) list"

text \<open>A store that was never made (nil) is None.\<close>

definition new_dead_prop_store :: "'x prop_store option" where
  "new_dead_prop_store = Some []"

definition dead_props :: "'x prop_store option \<Rightarrow> string \<Rightarrow> 'x path_props option" where
  "dead_props st name =
     (case st of None \<Rightarrow> None
      | Some d \<Rightarrow> (case map_of d name of
            None \<Rightarrow> None
          | Some current \<Rightarrow> if current = [] then None else Some current))"

definition prop_patch_status :: "int \<Rightarrow> 'x prop_patch list \<Rightarrow> prop_stat" where
  "prop_patch_status status patches =
     \<lparr>ps_status = status, ps_names = concat (map (\<lambda>p. map pr_name (pp_props p)) patches)\<rparr>"

definition forbidden_prop_patch :: "'x prop_patch list \<Rightarrow> prop_stat list" where
  "forbidden_prop_patch patches = [prop_patch_status 403 patches]"

fun patch_current :: "bool \<Rightarrow> 'x dav_property list \<Rightarrow> 'x path_props \<Rightarrow> 'x path_props" where
  "patch_current remove [] current = current"
| "patch_current remove (p # ps) current =
     patch_current remove ps
       (if remove then AList.delete (pr_name p) current else AList.update (pr_name p) p current)"

fun apply_patches :: "'x prop_patch list \<Rightarrow> 'x path_props \<Rightarrow> 'x path_props" where
  "apply_patches [] current = current"
| "apply_patches (p # ps) current = apply_patches ps (patch_current (pp_remove p) (pp_props p) current)"

definition patch_store :: "'x prop_store \<Rightarrow> string \<Rightarrow> 'x prop_patch list \<Rightarrow> 'x prop_store" where
  "patch_store d name patches =
     (let current = apply_patches patches (case map_of d name of None \<Rightarrow> [] | Some c \<Rightarrow> c)
      in if current = [] then AList.delete name d else AList.update name current d)"

definition patch_props ::
  "'x prop_store option \<Rightarrow> string \<Rightarrow> 'x prop_patch list \<Rightarrow> 'x prop_store option \<times> prop_stat list" where
  "patch_props st name patches =
     (map_option (\<lambda>d. patch_store d name patches) st, [prop_patch_status 200 patches])"

definition delete_tree_store :: "'x prop_store \<Rightarrow> string \<Rightarrow> 'x prop_store" where
  "delete_tree_store d name =
     filter (\<lambda>(k, _). \<not> (k = name \<or> has_prefix k (tree_prefix name))) d"

definition delete_tree :: "'x prop_store option \<Rightarrow> string \<Rightarrow> 'x prop_store option" where
  "delete_tree st name = map_option (\<lambda>d. delete_tree_store d name) st"

text \<open>\<open>renameTree\<close>: the entries of the tree are collected under their new names and removed, then
  the collected ones are added.\<close>

fun collect_updates :: "string \<Rightarrow> string \<Rightarrow> 'x prop_store \<Rightarrow> 'x prop_store \<Rightarrow> 'x prop_store" where
  "collect_updates s t [] acc = acc"
| "collect_updates s t ((k, ps) # d) acc =
     collect_updates s t d
       (if k = s then AList.update t ps acc
        else if has_prefix k (tree_prefix s) then AList.update (t @ trim_prefix k s) ps acc
        else acc)"

definition rename_tree_store :: "'x prop_store \<Rightarrow> string \<Rightarrow> string \<Rightarrow> 'x prop_store" where
  "rename_tree_store d s t =
     (if s = t then d
      else fold (\<lambda>(k, ps). AList.update k ps) (collect_updates s t d []) (delete_tree_store d s))"

definition rename_tree :: "'x prop_store option \<Rightarrow> string \<Rightarrow> string \<Rightarrow> 'x prop_store option" where
  "rename_tree st s t = map_option (\<lambda>d. rename_tree_store d s t) st"

section \<open>Open files\<close>

record open_mode =
  om_wronly :: bool
  om_rdwr :: bool
  om_append :: bool
  om_create :: bool
  om_trunc :: bool
  om_excl :: bool

definition om_write :: "open_mode \<Rightarrow> bool" where
  "om_write fl \<longleftrightarrow> om_wronly fl \<or> om_rdwr fl \<or> om_append fl \<or> om_create fl \<or> om_trunc fl"

record dav_file =
  df_remote_path :: string
  df_prop_path :: string
  df_info :: "file_info option"
  df_entries :: "file_info list"
  df_data :: string
  df_offset :: int
  df_writable :: bool
  df_read_only :: bool
  df_closed :: bool

record listed_file =
  lf_name :: string
  lf_size :: int
  lf_is_dir :: bool
  lf_mtime :: int

record 's dav_client =
  dc_stat_metadata :: "'s \<Rightarrow> string \<Rightarrow> go_error + stat_metadata_response"
  dc_stat :: "'s \<Rightarrow> string \<Rightarrow> go_error + stat_response"
  dc_list :: "'s \<Rightarrow> string \<Rightarrow> go_error + listed_file list"
  dc_read :: "'s \<Rightarrow> string \<Rightarrow> go_error + string"
  dc_write :: "'s \<Rightarrow> string \<Rightarrow> string \<Rightarrow> 's \<times> go_error option"
  dc_mkdir :: "'s \<Rightarrow> string \<Rightarrow> int \<Rightarrow> 's \<times> go_error option"
  dc_delete :: "'s \<Rightarrow> string \<Rightarrow> bool \<Rightarrow> 's \<times> go_error option"
  dc_rename :: "'s \<Rightarrow> string \<Rightarrow> string \<Rightarrow> 's \<times> go_error option"

definition dav_close :: "'s dav_client \<Rightarrow> 's \<Rightarrow> dav_file \<Rightarrow> 's \<times> dav_file \<times> go_error option" where
  "dav_close c s f =
     (if df_closed f then (s, f, None)
      else let g = f\<lparr>df_closed := True\<rparr> in
        if \<not> df_writable f then (s, g, None)
        else case dc_write c s (df_remote_path f) (df_data f) of
          (s', Some e) \<Rightarrow> (s', g, Some (map_webdav_error e))
        | (s', None) \<Rightarrow> (s', g, None))"

text \<open>\<open>Read\<close> fills a buffer of \<open>n\<close> bytes and returns what it copied.\<close>

definition dav_read :: "dav_file \<Rightarrow> nat \<Rightarrow> dav_file \<times> (go_error + string)" where
  "dav_read f n =
     (if (case df_info f of Some i \<Rightarrow> info_is_dir i | None \<Rightarrow> False) then (f, Inl (Sentinel Err_Invalid))
      else if df_offset f \<ge> int (length (df_data f)) then (f, Inl (Sentinel Err_Eof))
      else let out = take n (drop (nat (df_offset f)) (df_data f))
        in (f\<lparr>df_offset := df_offset f + int (length out)\<rparr>, Inr out))"

text \<open>\<open>io.SeekStart\<close>, \<open>io.SeekCurrent\<close> and \<open>io.SeekEnd\<close> are 0, 1 and 2.\<close>

definition dav_seek :: "dav_file \<Rightarrow> int \<Rightarrow> int \<Rightarrow> dav_file \<times> (go_error + int)" where
  "dav_seek f offset whence =
     (let target = (if whence = 0 then Some offset
            else if whence = 1 then Some (wrap64 (df_offset f + offset))
            else if whence = 2 then Some (wrap64 (int (length (df_data f)) + offset))
            else None)
      in case target of
        None \<Rightarrow> (f, Inl (Sentinel Err_Invalid))
      | Some n \<Rightarrow> if n < 0 then (f, Inl (Sentinel Err_Invalid)) else (f\<lparr>df_offset := n\<rparr>, Inr n))"

definition dav_readdir :: "dav_file \<Rightarrow> int \<Rightarrow> (dav_file \<times> (go_error + file_info list)) run" where
  "dav_readdir f count =
     (if (case df_info f of Some i \<Rightarrow> \<not> info_is_dir i | None \<Rightarrow> True) then Returns (f, Inl (Sentinel Err_Invalid))
      else let n = int (length (df_entries f)); start = df_offset f in
        if start \<ge> n \<and> count > 0 then Returns (f, Inl (Sentinel Err_Eof))
        else let e = (if count > 0 \<and> wrap64 (start + count) < n then wrap64 (start + count) else n) in
          if e < start then Panic
          else Returns (f\<lparr>df_offset := e\<rparr>, Inr (take (nat (e - start)) (drop (nat start) (df_entries f)))))"

definition data_info :: "int \<Rightarrow> string \<Rightarrow> string \<Rightarrow> file_info" where
  "data_info now p data =
     \<lparr>fi_name = path_base p, fi_size = int (length data), fi_mode = 0x1A4, fi_mod_time = now\<rparr>"

definition dav_file_stat :: "int \<Rightarrow> dav_file \<Rightarrow> file_info" where
  "dav_file_stat now f = (case df_info f of Some i \<Rightarrow> i | None \<Rightarrow> data_info now (df_remote_path f) (df_data f))"

definition dav_write :: "int \<Rightarrow> dav_file \<Rightarrow> string \<Rightarrow> (dav_file \<times> (go_error + int)) run" where
  "dav_write now f bs =
     (if \<not> df_writable f then Returns (f, Inl (Sentinel Err_Permission))
      else if df_offset f < 0 then Returns (f, Inl (Sentinel Err_Invalid))
      else let e = wrap64 (df_offset f + int (length bs)); n = int (length (df_data f));
               d = (if e > n then df_data f @ replicate (nat (e - n)) (CHR 0x00) else df_data f)
        in if e > n \<and> e > max_alloc then Panic
           else if e < df_offset f then Panic
           else let data = take (nat (df_offset f)) d @ bs @ drop (nat e) d
             in Returns (f\<lparr>df_data := data, df_offset := e, df_info := Some (data_info now (df_remote_path f) data)\<rparr>,
                  Inr (int (length bs))))"

definition dav_dead_props :: "'x prop_store option \<Rightarrow> dav_file \<Rightarrow> 'x path_props option" where
  "dav_dead_props st f = dead_props st (df_prop_path f)"

definition dav_patch ::
  "'x prop_store option \<Rightarrow> dav_file \<Rightarrow> 'x prop_patch list \<Rightarrow> 'x prop_store option \<times> prop_stat list" where
  "dav_patch st f patches =
     (if df_read_only f then (st, forbidden_prop_patch patches) else patch_props st (df_prop_path f) patches)"

section \<open>The file system\<close>

record 's dav_fs =
  fs_client :: "'s dav_client"
  fs_root :: string
  fs_read_only :: bool

definition new_remote_webdav_fs :: "'s dav_client \<Rightarrow> string \<Rightarrow> bool \<Rightarrow> 's dav_fs \<times> 'x prop_store option" where
  "new_remote_webdav_fs c root ro =
     (\<lparr>fs_client = c,
       fs_root = (case normalize_remote_path (default_remote_path root) of Inl _ \<Rightarrow> ''/'' | Inr r \<Rightarrow> r),
       fs_read_only = ro\<rparr>, new_dead_prop_store)"

text \<open>\<open>pathErr\<close>, for an error that is there.\<close>

definition path_err :: "string \<Rightarrow> string \<Rightarrow> go_error \<Rightarrow> go_error" where
  "path_err op name e = PathErr op name e"

definition dav_mkdir :: "'s dav_fs \<Rightarrow> 's \<Rightarrow> string \<Rightarrow> 32 word \<Rightarrow> 's \<times> go_error option" where
  "dav_mkdir fs s name perm =
     (if fs_read_only fs then (s, Some (path_err ''mkdir'' name (Sentinel Err_Permission)))
      else case webdav_remote_path (fs_root fs) name of
        Inl e \<Rightarrow> (s, Some (path_err ''mkdir'' name e))
      | Inr p \<Rightarrow>
        (case dc_mkdir (fs_client fs) s p (uint (perm AND perm_mask)) of
           (s', Some e) \<Rightarrow> (s', Some (path_err ''mkdir'' name (map_webdav_error e)))
         | (s', None) \<Rightarrow> (s', None)))"

definition dav_stat_path :: "'s dav_fs \<Rightarrow> 's \<Rightarrow> int \<Rightarrow> string \<Rightarrow> go_error + file_info" where
  "dav_stat_path fs s now p =
     (case dc_stat_metadata (fs_client fs) s p of
        Inr m \<Rightarrow> Inr (file_info_from_metadata now p m)
      | Inl e \<Rightarrow>
        if is_api_not_found e then Inl (Sentinel Err_Not_Exist)
        else if should_fallback_stat e then
          (case dc_stat (fs_client fs) s p of
             Inr st \<Rightarrow> Inr (file_info_from_stat now p st)
           | Inl e2 \<Rightarrow> if is_api_not_found e2 then Inl (Sentinel Err_Not_Exist) else Inl (map_webdav_error e2))
        else Inl (map_webdav_error e))"

text \<open>\<open>sort.Slice\<close> is not stable; entries of one name keep their order here.\<close>

definition dav_read_dir :: "'s dav_fs \<Rightarrow> 's \<Rightarrow> int \<Rightarrow> string \<Rightarrow> go_error + file_info list" where
  "dav_read_dir fs s now p =
     (case dc_list (fs_client fs) s p of
        Inl e \<Rightarrow> Inl (map_webdav_error e)
      | Inr es \<Rightarrow> Inr (sort_key info_name (map (\<lambda>e.
          \<lparr>fi_name = lf_name e, fi_size = lf_size e,
           fi_mode = (if lf_is_dir e then mode_dir OR 0x1ED else 0x1A4),
           fi_mod_time = unix_mod_time now (lf_mtime e)\<rparr>) es)))"

definition dav_open_file :: "'s dav_fs \<Rightarrow> 's \<Rightarrow> int \<Rightarrow> string \<Rightarrow> open_mode \<Rightarrow> go_error + dav_file" where
  "dav_open_file fs s now name fl =
     (case webdav_remote_path (fs_root fs) name of
        Inl e \<Rightarrow> Inl (path_err ''open'' name e)
      | Inr p \<Rightarrow>
        if om_write fl \<and> fs_read_only fs then Inl (path_err ''open'' name (Sentinel Err_Permission))
        else
          (let st = dav_stat_path fs s now p;
               missing = (case st of Inl e \<Rightarrow> errors_is e Err_Not_Exist | Inr _ \<Rightarrow> False)
           in case st of
             Inr i \<Rightarrow>
               if info_is_dir i then
                 (case dav_read_dir fs s now p of
                    Inl e \<Rightarrow> Inl (path_err ''readdir'' name e)
                  | Inr es \<Rightarrow> Inr \<lparr>df_remote_path = [], df_prop_path = p, df_info = Some i, df_entries = es,
                      df_data = [], df_offset = 0, df_writable = False, df_read_only = fs_read_only fs, df_closed = False\<rparr>)
               else if om_excl fl \<and> om_create fl then Inl (path_err ''open'' name (Sentinel Err_Exist))
               else
                 (case (if om_write fl \<and> om_trunc fl then Inr [] else dc_read (fs_client fs) s p) of
                    Inl e \<Rightarrow> Inl (path_err ''read'' name (map_webdav_error e))
                  | Inr data \<Rightarrow> Inr \<lparr>df_remote_path = p, df_prop_path = p, df_info = Some i, df_entries = [],
                      df_data = data, df_offset = (if om_append fl then int (length data) else 0),
                      df_writable = om_write fl, df_read_only = fs_read_only fs, df_closed = False\<rparr>)
           | Inl e \<Rightarrow>
               if \<not> missing then Inl (path_err ''open'' name e)
               else if \<not> om_write fl then Inl (path_err ''open'' name e)
               else Inr \<lparr>df_remote_path = p, df_prop_path = p, df_info = Some (data_info now p []), df_entries = [],
                      df_data = [], df_offset = 0, df_writable = True, df_read_only = fs_read_only fs, df_closed = False\<rparr>))"

definition dav_remove_all ::
  "'s dav_fs \<Rightarrow> 's \<Rightarrow> 'x prop_store option \<Rightarrow> string \<Rightarrow> 's \<times> 'x prop_store option \<times> go_error option" where
  "dav_remove_all fs s st name =
     (if fs_read_only fs then (s, st, Some (path_err ''remove'' name (Sentinel Err_Permission)))
      else case webdav_remote_path (fs_root fs) name of
        Inl e \<Rightarrow> (s, st, Some (path_err ''remove'' name e))
      | Inr p \<Rightarrow>
        if p = fs_root fs then (s, st, Some (path_err ''remove'' name (Sentinel Err_Invalid)))
        else case dc_delete (fs_client fs) s p True of
          (s', Some e) \<Rightarrow> (s', st, Some (path_err ''remove'' name (map_webdav_error e)))
        | (s', None) \<Rightarrow> (s', delete_tree st p, None))"

definition dav_rename ::
  "'s dav_fs \<Rightarrow> 's \<Rightarrow> 'x prop_store option \<Rightarrow> string \<Rightarrow> string \<Rightarrow> 's \<times> 'x prop_store option \<times> go_error option" where
  "dav_rename fs s st old new =
     (if fs_read_only fs then (s, st, Some (path_err ''rename'' old (Sentinel Err_Permission)))
      else case webdav_remote_path (fs_root fs) old of
        Inl e \<Rightarrow> (s, st, Some (path_err ''rename'' old e))
      | Inr op \<Rightarrow>
        (case webdav_remote_path (fs_root fs) new of
           Inl e \<Rightarrow> (s, st, Some (path_err ''rename'' new e))
         | Inr np \<Rightarrow>
           (case dc_rename (fs_client fs) s op np of
              (s', Some e) \<Rightarrow> (s', st, Some (path_err ''rename'' old (map_webdav_error e)))
            | (s', None) \<Rightarrow> (s', rename_tree st op np, None))))"

definition dav_stat :: "'s dav_fs \<Rightarrow> 's \<Rightarrow> int \<Rightarrow> string \<Rightarrow> go_error + file_info" where
  "dav_stat fs s now name =
     (case webdav_remote_path (fs_root fs) name of
        Inl e \<Rightarrow> Inl (path_err ''stat'' name e)
      | Inr p \<Rightarrow> (case dav_stat_path fs s now p of Inl e \<Rightarrow> Inl (path_err ''stat'' name e) | Inr i \<Rightarrow> Inr i))"

section \<open>The property store as a tree of entries\<close>

definition props_ok :: "'x prop_store \<Rightarrow> bool" where
  "props_ok d \<longleftrightarrow> distinct (map fst d) \<and> list_all (\<lambda>(_, ps). ps \<noteq> []) d"

lemma props_ok_iff: "props_ok d \<longleftrightarrow> distinct (map fst d) \<and> (\<forall>k ps. map_of d k = Some ps \<longrightarrow> ps \<noteq> [])"
proof (cases "distinct (map fst d)")
  case True
  then have "map_of d k = Some ps \<longleftrightarrow> (k, ps) \<in> set d" for k ps by simp
  then show ?thesis by (auto simp: props_ok_def list_all_iff)
qed (simp add: props_ok_def)

lemma dead_props_ok: "props_ok d \<Longrightarrow> dead_props (Some d) p = map_of d p"
  by (auto simp: dead_props_def props_ok_iff split: option.splits)

lemma collect_updates_move:
  "collect_updates s t d acc = move_entries s t (filter (\<lambda>(k, _). in_tree s k) d) acc"
  by (induction s t d acc rule: collect_updates.induct) (auto simp: in_tree_def)

lemma map_of_fold_update: "map_of (fold (\<lambda>(k, e). AList.update k e) kvs d) = map_of d ++ map_of (rev kvs)"
  by (induction kvs arbitrary: d) (auto simp: fun_eq_iff map_add_def update_conv split: option.splits)

lemma distinct_fold_update:
  "distinct (map fst d) \<Longrightarrow> distinct (map fst (fold (\<lambda>(k, e). AList.update k e) kvs d))"
  by (induction kvs arbitrary: d) (auto simp: distinct_update)

lemma map_of_filter_key: "map_of (filter (\<lambda>(k, _). P k) d) q = (if P q then map_of d q else None)"
  by (induction d) auto

lemma map_of_delete_tree: "map_of (delete_tree_store d p) q = (if in_tree p q then None else map_of d q)"
  by (simp add: delete_tree_store_def map_of_filter_key in_tree_def)

lemma distinct_filter_keys: "distinct (map fst d) \<Longrightarrow> distinct (map fst (filter P d))"
  by (induction d) auto

lemma delete_tree_good: "props_ok d \<Longrightarrow> props_ok (delete_tree_store d p)"
  by (simp add: props_ok_iff map_of_delete_tree) (simp add: delete_tree_store_def distinct_filter_keys)

lemma rename_tree_map:
  assumes "distinct (map fst d)" "\<not> has_suffix s ''/''" "\<not> has_suffix t ''/''" "s \<noteq> t"
  shows "map_of (rename_tree_store d s t) q =
    (if in_tree t q \<and> in_tree s (retarget_path t s q) \<and> map_of d (retarget_path t s q) \<noteq> None
     then map_of d (retarget_path t s q)
     else if in_tree s q then None else map_of d q)"
proof -
  let ?es = "filter (\<lambda>(k, _). in_tree s k) d"
  let ?us = "collect_updates s t d []"
  have mem: "in_tree s k" if "k \<in> fst ` set ?es" for k using that by auto
  have "inj_on (retarget_path s t) (fst ` set ?es)"
    using mem retarget_in_tree(2) [OF assms(2,3)] by (intro inj_onI) metis
  note ren = map_of_rename [OF distinct_filter_keys [OF assms(1)] this]
  have "distinct (map fst ?us)" by (simp add: collect_updates_move move_entries_distinct)
  moreover have "map_of ?us = map_of (map (\<lambda>(k, e). (retarget_path s t k, e)) ?es)"
    using ren(1) by (simp add: collect_updates_move move_entries_map map_of_rev_distinct)
  ultimately have u: "map_of (rev ?us) = map_of (map (\<lambda>(k, e). (retarget_path s t k, e)) ?es)"
    by (simp add: map_of_rev_distinct)
  have es: "map_of ?es k = (if in_tree s k then map_of d k else None)" for k
    by (rule map_of_filter_key)
  have one: "map_of (rev ?us) q =
      (if in_tree t q \<and> in_tree s (retarget_path t s q) then map_of d (retarget_path t s q) else None)"
  proof (rule option_eqI)
    fix e
    have "map_of (rev ?us) q = Some e \<longleftrightarrow> (\<exists>k. retarget_path s t k = q \<and> in_tree s k \<and> map_of d k = Some e)"
      unfolding u ren(2) es by auto
    also have "\<dots> \<longleftrightarrow> in_tree t q \<and> in_tree s (retarget_path t s q) \<and> map_of d (retarget_path t s q) = Some e"
    proof
      assume "\<exists>k. retarget_path s t k = q \<and> in_tree s k \<and> map_of d k = Some e"
      then obtain k where "retarget_path s t k = q" "in_tree s k" "map_of d k = Some e" by blast
      then show "in_tree t q \<and> in_tree s (retarget_path t s q) \<and> map_of d (retarget_path t s q) = Some e"
        using retarget_in_tree [OF assms(2,3)] by metis
    next
      assume "in_tree t q \<and> in_tree s (retarget_path t s q) \<and> map_of d (retarget_path t s q) = Some e"
      then show "\<exists>k. retarget_path s t k = q \<and> in_tree s k \<and> map_of d k = Some e"
        using retarget_in_tree [OF assms(3,2)] by metis
    qed
    finally show "map_of (rev ?us) q = Some e \<longleftrightarrow>
      (if in_tree t q \<and> in_tree s (retarget_path t s q) then map_of d (retarget_path t s q) else None) = Some e"
      by (cases "in_tree t q"; cases "in_tree s (retarget_path t s q)") simp_all
  qed
  show ?thesis
    using assms(4) by (auto simp: rename_tree_store_def map_of_fold_update map_add_def one map_of_delete_tree
        split: option.splits)
qed

lemma rename_tree_good:
  assumes "props_ok d" "\<not> has_suffix s ''/''" "\<not> has_suffix t ''/''"
  shows "props_ok (rename_tree_store d s t)"
proof (cases "s = t")
  case False
  have "distinct (map fst (rename_tree_store d s t))"
    using assms(1) False by (simp add: rename_tree_store_def distinct_fold_update props_ok_def
        delete_tree_store_def distinct_filter_keys)
  moreover have "ps \<noteq> []" if "map_of (rename_tree_store d s t) k = Some ps" for k ps
    using that assms(1) rename_tree_map [OF _ assms(2,3) False, of d k]
    by (auto simp: props_ok_iff split: if_splits)
  ultimately show ?thesis by (simp add: props_ok_iff)
qed (simp add: rename_tree_store_def assms(1))

lemma rename_tree_view:
  assumes "props_ok d" "\<not> has_suffix s ''/''" "\<not> has_suffix t ''/''" "\<And>k. in_tree t k \<Longrightarrow> map_of d k = None"
  shows "map_of (rename_tree_store d s t) q =
    (if in_tree t q then (if in_tree s (retarget_path t s q) then map_of d (retarget_path t s q) else None)
     else if in_tree s q then None else map_of d q)"
proof (cases "s = t")
  case True
  then show ?thesis using assms(4) retarget_in_tree(1) [OF assms(3,3), of q]
    by (auto simp: rename_tree_store_def)
next
  case False
  then show ?thesis
    using rename_tree_map [OF _ assms(2,3) False, of d q] assms(1) assms(4) [of q]
      retarget_in_tree(1) [OF assms(3,2), of q]
    by (cases "in_tree t q"; cases "map_of d (retarget_path t s q)")
      (simp_all add: props_ok_def del: map_of_eq_None_iff not_None_eq)
qed

lemma update_good: "props_ok d \<Longrightarrow> e \<noteq> [] \<Longrightarrow> props_ok (AList.update p e d)"
  by (auto simp: props_ok_iff distinct_update update_conv split: if_splits)

interpretation dp: tree_map map_of props_ok "\<lambda>ps. ps \<noteq> []" "\<lambda>p. \<not> has_suffix p ''/''"
  "\<lambda>d p e. AList.update p e d" delete_tree_store rename_tree_store
  by unfold_locales
    (simp_all add: update_good update_conv' delete_tree_good map_of_delete_tree rename_tree_good rename_tree_view)

text \<open>Patches as a function of the name: the last patch that mentions it decides.\<close>

fun set_props :: "bool \<Rightarrow> 'x dav_property list \<Rightarrow> (xml_name \<Rightarrow> 'x dav_property option) \<Rightarrow> xml_name \<Rightarrow> 'x dav_property option" where
  "set_props remove [] v = v"
| "set_props remove (p # ps) v = set_props remove ps (v(pr_name p := (if remove then None else Some p)))"

definition patched_view ::
  "'x prop_patch list \<Rightarrow> (xml_name \<Rightarrow> 'x dav_property option) \<Rightarrow> xml_name \<Rightarrow> 'x dav_property option" where
  "patched_view patches v = foldl (\<lambda>v p. set_props (pp_remove p) (pp_props p) v) v patches"

lemma patch_current_map: "map_of (patch_current r ps cur) = set_props r ps (map_of cur)"
  by (induction r ps cur rule: patch_current.induct) (simp_all add: update_conv' delete_conv' fun_upd_def)

lemma apply_patches_map: "map_of (apply_patches ps cur) = patched_view ps (map_of cur)"
  by (induction ps cur rule: apply_patches.induct) (simp_all add: patched_view_def patch_current_map)

lemma patch_store_good:
  assumes "props_ok d" shows "props_ok (patch_store d p ps)"
proof -
  have "distinct (map fst (AList.delete p d))" using assms by (simp add: props_ok_def distinct_delete)
  moreover have "map_of (AList.delete p d) k = Some x \<Longrightarrow> x \<noteq> []" for k x
    using assms by (auto simp: props_ok_iff delete_conv' split: if_splits)
  ultimately have "props_ok (AList.delete p d)" by (simp add: props_ok_iff)
  then show ?thesis using assms by (simp add: patch_store_def Let_def update_good)
qed

definition found_props :: "'x path_props option \<Rightarrow> xml_name \<Rightarrow> 'x dav_property option" where
  "found_props r n = (case r of None \<Rightarrow> None | Some ps \<Rightarrow> map_of ps n)"

lemma patch_store_view:
  "found_props (map_of (patch_store d p ps) q) =
     (if q = p then patched_view ps (found_props (map_of d p)) else found_props (map_of d q))"
proof -
  let ?c = "apply_patches ps (case map_of d p of None \<Rightarrow> [] | Some c \<Rightarrow> c)"
  have c: "map_of ?c = patched_view ps (found_props (map_of d p))"
    by (cases "map_of d p") (simp_all add: apply_patches_map found_props_def [abs_def])
  have none: "?c = [] \<Longrightarrow> patched_view ps (found_props (map_of d p)) = Map.empty"
    by (simp flip: c)
  show ?thesis
    by (rule ext) (use none in \<open>auto simp: patch_store_def Let_def found_props_def [of "Some _"] delete_conv' update_conv'
        fun_upd_def c found_props_def [of None]\<close>)
qed

section \<open>Paths stay below the root\<close>

lemma normalize_abs: "clean_list cs \<Longrightarrow> normalize_remote_path (abs_path cs) = Inr p \<Longrightarrow> p = abs_path cs"
proof -
  assume cs: "clean_list cs" and p: "normalize_remote_path (abs_path cs) = Inr p"
  have "\<not> list_ex is_control (abs_path cs)"
    using p by (auto simp: normalize_remote_path_def split: if_splits)
  moreover have "normal_path (abs_path cs)" using cs by (auto simp: normal_path_def)
  ultimately show ?thesis using normalize_remote_path_id p by simp
qed

lemma webdav_remote_path_below:
  assumes "normal_path root" "webdav_remote_path root name = Inr p"
  shows "p = root \<or> (normal_path p \<and> has_prefix p (tree_prefix root) \<and> p \<noteq> tree_prefix root)"
proof -
  let ?n = "CHR ''/'' # dropWhile (\<lambda>c. c = CHR ''/'') name"
  have "has_prefix ?n ''/''" by simp
  then obtain cs where cs: "clean_list cs" "path_clean ?n = abs_path cs" by (rule path_clean_rooted)
  from assms(1) obtain rs where rs: "clean_list rs" "root = abs_path rs \<or> rs \<noteq> [] \<and> root = abs_path rs @ ''/''"
    "path_clean root = abs_path rs" "has_prefix root ''/''" "root = ''/'' \<longleftrightarrow> rs = []"
    by (rule normal_pathE)
  show ?thesis
  proof (cases "cs = []")
    case True
    then show ?thesis using assms(2) cs by (auto simp: webdav_remote_path_def Let_def abs_path_Nil split: if_splits)
  next
    case False
    have ne: "join_with ''/'' cs \<noteq> []" using cs(1) False by (cases cs; cases "tl cs") (auto simp: clean_comp_def)
    have nr: "abs_path cs \<noteq> ''/''" using abs_path_eq_root [OF cs(1)] False by blast
    have hd: "hd (join_with ''/'' cs) \<noteq> CHR ''/''" 
      using cs(1) False by (cases cs; cases "tl cs") (auto simp: clean_comp_def dest: hd_in_set)
    have strip: "dropWhile (\<lambda>c. c = CHR ''/'') (abs_path cs) = join_with ''/'' cs"
      using ne hd by (cases "join_with ''/'' cs") (simp_all add: abs_path_def)
    have cat: "path_join [root, join_with ''/'' cs] = abs_path (rs @ cs)"
      using path_join2 [OF assms(1) ne] path_clean_append [OF rs(4,3,1) cs(1) False] by simp
    have "normalize_remote_path (abs_path (rs @ cs)) = Inr p"
      using assms(2) cs(2) nr rs(5) strip cat by (auto simp: webdav_remote_path_def Let_def split: if_splits)
    then have p: "p = abs_path (rs @ cs)" using normalize_abs rs(1) cs(1) by simp
    have "tree_prefix root = (if rs = [] then ''/'' else abs_path rs @ ''/'')"
      using rs(2,5) tree_prefix_abs [OF rs(1)]
      by (auto simp: tree_prefix_def abs_path_Nil has_suffix_def)
    moreover have "p = (if rs = [] then ''/'' else abs_path rs @ ''/'') @ join_with ''/'' cs"
      using p abs_path_append [OF False, of rs] by (simp add: abs_path_def)
    moreover have "clean_list (rs @ cs)" using rs(1) cs(1) by (simp add: clean_list_def)
    then have "normal_path p" unfolding normal_path_def p by blast
    ultimately show ?thesis using ne by simp
  qed
qed

lemma webdav_remote_path_in_tree:
  "normal_path root \<Longrightarrow> webdav_remote_path root name = Inr p \<Longrightarrow> in_tree root p"
  using webdav_remote_path_below by (auto simp: in_tree_def)

lemma dav_root_normal: "normal_path (fs_root (fst (new_remote_webdav_fs c root ro)))"
proof -
  have "normal_path ''/''" by (auto simp: normal_path_def abs_path_Nil intro: exI [of _ "[]"])
  then show ?thesis
    by (auto simp: new_remote_webdav_fs_def normalize_remote_path_normal split: sum.splits)
qed

section \<open>Sessions of an open file\<close>

datatype dav_op = Op_Read nat | Op_Seek int int | Op_Write string

text \<open>The arguments are Go values.\<close>

fun op_typed :: "dav_op \<Rightarrow> bool" where
  "op_typed (Op_Read n) = True"
| "op_typed (Op_Seek off whence) = in_int64 off"
| "op_typed (Op_Write bs) = (int (length bs) \<le> max_int64)"

fun dav_ops :: "int \<Rightarrow> dav_op list \<Rightarrow> dav_file \<Rightarrow> dav_file run" where
  "dav_ops now [] f = Returns f"
| "dav_ops now (Op_Read n # ops) f = dav_ops now ops (fst (dav_read f n))"
| "dav_ops now (Op_Seek off whence # ops) f = dav_ops now ops (fst (dav_seek f off whence))"
| "dav_ops now (Op_Write bs # ops) f =
     (case dav_write now f bs of Panic \<Rightarrow> Panic | Returns (g, _) \<Rightarrow> dav_ops now ops g)"

text \<open>The reference: a byte sequence and a position, without bounds of the machine.\<close>

definition put_at :: "string \<Rightarrow> nat \<Rightarrow> string \<Rightarrow> string" where
  "put_at d pos bs =
     (let padded = d @ replicate (pos - length d) (CHR 0x00)
      in take pos padded @ bs @ drop (pos + length bs) padded)"

definition seek_target :: "string \<Rightarrow> nat \<Rightarrow> int \<Rightarrow> int \<Rightarrow> int option" where
  "seek_target d pos off whence =
     (let t = (if whence = 0 then Some off else if whence = 1 then Some (int pos + off)
               else if whence = 2 then Some (int (length d) + off) else None)
      in case t of None \<Rightarrow> None | Some x \<Rightarrow> if 0 \<le> x \<and> x \<le> max_int64 then Some x else None)"

fun ref_op :: "dav_op \<Rightarrow> string \<times> nat \<Rightarrow> string \<times> nat" where
  "ref_op (Op_Read n) (d, pos) = (d, pos + min n (length d - pos))"
| "ref_op (Op_Seek off whence) (d, pos) =
     (d, case seek_target d pos off whence of None \<Rightarrow> pos | Some x \<Rightarrow> nat x)"
| "ref_op (Op_Write bs) (d, pos) = (put_at d pos bs, pos + length bs)"

definition file_ok :: "dav_file \<Rightarrow> bool" where
  "file_ok f \<longleftrightarrow> df_writable f \<and> 0 \<le> df_offset f \<and> df_offset f \<le> max_int64
     \<and> int (length (df_data f)) \<le> max_int64 \<and> (case df_info f of Some i \<Rightarrow> \<not> info_is_dir i | None \<Rightarrow> True)"

definition file_view :: "dav_file \<Rightarrow> string \<times> nat" where
  "file_view f = (df_data f, nat (df_offset f))"

lemma dav_read_view:
  assumes "file_ok f" shows "file_ok (fst (dav_read f n))"
    "file_view (fst (dav_read f n)) = ref_op (Op_Read n) (file_view f)"
  using assms by (auto simp: dav_read_def file_ok_def file_view_def Let_def split: option.splits)

lemma wrap_sum_negative:
  "0 \<le> a \<Longrightarrow> a \<le> max_int64 \<Longrightarrow> b \<le> max_int64 \<Longrightarrow> max_int64 < a + b \<Longrightarrow> wrap64 (a + b) < 0"
  using wrap64_overflow [of "a + b"] by (simp add: max_int64_def)

lemma wrap_sum: "in_int64 (a + b) \<Longrightarrow> wrap64 (a + b) = a + b" by simp

lemma dav_seek_view:
  assumes "file_ok f" "in_int64 off"
  shows "file_ok (fst (dav_seek f off w))"
    "file_view (fst (dav_seek f off w)) = ref_op (Op_Seek off w) (file_view f)"
proof -
  have wr: "(0 \<le> a + off \<and> a + off \<le> max_int64 \<and> wrap64 (a + off) = a + off) \<or>
      (\<not> (0 \<le> a + off \<and> a + off \<le> max_int64) \<and> wrap64 (a + off) < 0)"
    if "0 \<le> a" "a \<le> max_int64" for a
  proof (cases "a + off \<le> max_int64")
    case True
    then have "in_int64 (a + off)" using that assms(2) by (auto simp: in_int64_def)
    then show ?thesis using True by (cases "0 \<le> a + off") auto
  next
    case False
    then show ?thesis using wrap_sum_negative [of a off] that assms(2) by (auto simp: in_int64_def)
  qed
  have off: "off \<le> max_int64" using assms(2) by (simp add: in_int64_def)
  note w1 = wr [of "df_offset f"] and w2 = wr [of "int (length (df_data f))"]
  have rng: "wrap64 x \<le> max_int64" for x using wrap64_range [of x] by (simp add: in_int64_def)
  show "file_ok (fst (dav_seek f off w))"
    using assms(1) off rng by (simp add: dav_seek_def file_ok_def Let_def)
  have "df_offset f = int (nat (df_offset f))" using assms(1) by (simp add: file_ok_def)
  then show "file_view (fst (dav_seek f off w)) = ref_op (Op_Seek off w) (file_view f)"
    using assms(1) w1 w2 off
    by (auto simp: dav_seek_def file_ok_def file_view_def seek_target_def Let_def)
qed

lemma data_info_not_dir: "\<not> info_is_dir (data_info now p d)"
  by (simp add: info_is_dir_def data_info_def mode_dir_def)

lemma dav_write_view:
  assumes "file_ok f" "int (length bs) \<le> max_int64" "dav_write now f bs = Returns (g, r)"
  shows "file_ok g" "file_view g = ref_op (Op_Write bs) (file_view f)"
    "df_remote_path g = df_remote_path f" "df_closed g = df_closed f"
proof -
  let ?e = "df_offset f + int (length bs)"
  have f: "df_writable f" "0 \<le> df_offset f" "df_offset f \<le> max_int64" "int (length (df_data f)) \<le> max_int64"
    using assms(1) by (simp_all add: file_ok_def)
  have le: "?e \<le> max_int64"
  proof (rule ccontr)
    assume "\<not> ?e \<le> max_int64"
    then have "wrap64 ?e < 0" using wrap_sum_negative f assms(2) by simp
    then show False using assms(3) f by (simp add: dav_write_def Let_def)
  qed
  then have e: "wrap64 ?e = ?e" using f by (intro wrap64_id) (simp add: in_int64_def min_int64_def)
  obtain pos where pos: "df_offset f = int pos" using f(2) nonneg_int_cases by blast
  let ?d = "if ?e > int (length (df_data f))
    then df_data f @ replicate (nat (?e - int (length (df_data f)))) (CHR 0x00) else df_data f"
  have g: "g = f\<lparr>df_data := take pos ?d @ bs @ drop (nat ?e) ?d, df_offset := ?e,
      df_info := Some (data_info now (df_remote_path f) (take pos ?d @ bs @ drop (nat ?e) ?d))\<rparr>"
    using assms(3) f e by (simp add: dav_write_def Let_def pos split: if_splits)
  have ne: "nat ?e = pos + length bs" using pos by simp
  have rd: "take pos ?d @ bs @ drop (nat ?e) ?d = put_at (df_data f) pos bs"
    by (auto simp: put_at_def Let_def pos nat_add_distrib not_less)
  show v: "file_view g = ref_op (Op_Write bs) (file_view f)"
    using rd by (simp add: g file_view_def pos nat_add_distrib)
  have "length (df_data g) \<le> max (length (df_data f)) (pos + length bs)"
    using rd by (simp add: g put_at_def Let_def)
  then have "int (length (df_data g)) \<le> max_int64" using f(4) le pos by linarith
  then show "file_ok g" using f le by (simp add: g file_ok_def data_info_not_dir)
  show "df_remote_path g = df_remote_path f" "df_closed g = df_closed f" by (simp_all add: g)
qed

lemma dav_ops_view:
  assumes "file_ok f" "list_all op_typed ops" "dav_ops now ops f = Returns g"
  shows "file_ok g \<and> file_view g = fold ref_op ops (file_view f)
    \<and> df_remote_path g = df_remote_path f \<and> df_closed g = df_closed f"
  using assms
proof (induction now ops f rule: dav_ops.induct)
  case (2 now n ops f)
  have "df_remote_path (fst (dav_read f n)) = df_remote_path f" "df_closed (fst (dav_read f n)) = df_closed f"
    by (simp_all add: dav_read_def Let_def)
  then show ?case using 2 dav_read_view [of f n] by simp
next
  case (3 now off whence ops f)
  have "df_remote_path (fst (dav_seek f off whence)) = df_remote_path f"
    "df_closed (fst (dav_seek f off whence)) = df_closed f"
    by (simp_all add: dav_seek_def Let_def split: option.splits)
  then show ?case using 3 dav_seek_view [of f off whence] by simp
next
  case (4 now bs ops f)
  then obtain h r where h: "dav_write now f bs = Returns (h, r)" by (auto split: run.splits)
  then show ?case using 4 dav_write_view [of f bs now h r] by (auto simp: h)
qed simp

section \<open>Properties\<close>

text \<open>A small service for the examples: a map from paths to bytes.\<close>

definition demo_error :: "int \<Rightarrow> go_error" where
  "demo_error st = ApiErr ''api.error'' ''api'' 1 st (Lit ''error'') [] None"

definition demo_client :: "(string \<Rightarrow> string option) dav_client" where
  "demo_client =
     \<lparr>dc_stat_metadata = (\<lambda>s p. case s p of None \<Rightarrow> Inl (demo_error 404)
        | Some d \<Rightarrow> Inr \<lparr>sm_size = int (length d), sm_is_dir = False, sm_resource_id = p, sm_revision = 1, sm_mtime = 1\<rparr>),
      dc_stat = (\<lambda>s p. Inl (demo_error 404)),
      dc_list = (\<lambda>s p. Inl (demo_error 404)),
      dc_read = (\<lambda>s p. case s p of None \<Rightarrow> Inl (demo_error 404) | Some d \<Rightarrow> Inr d),
      dc_write = (\<lambda>s p d. (s(p \<mapsto> d), None)),
      dc_mkdir = (\<lambda>s p m. (s, None)),
      dc_delete = (\<lambda>s p r. (\<lambda>q. if in_tree p q then None else s q, None)),
      dc_rename = (\<lambda>s p q. (s(q := s p, p := None), None))\<rparr>"

definition demo_fs :: "(string \<Rightarrow> string option) dav_fs" where
  "demo_fs = \<lparr>fs_client = demo_client, fs_root = ''/w'', fs_read_only = False\<rparr>"

definition rdwr :: open_mode where
  "rdwr = \<lparr>om_wronly = False, om_rdwr = True, om_append = False, om_create = False, om_trunc = False, om_excl = False\<rparr>"

definition demo_info :: "string \<Rightarrow> file_info" where
  "demo_info d = file_info_from_metadata 0 ''/w/a''
     \<lparr>sm_size = int (length d), sm_is_dir = False, sm_resource_id = ''/w/a'', sm_revision = 1, sm_mtime = 1\<rparr>"

definition demo_file :: "string \<Rightarrow> dav_file" where
  "demo_file d = \<lparr>df_remote_path = ''/w/a'', df_prop_path = ''/w/a'', df_info = Some (demo_info d), df_entries = [],
     df_data = d, df_offset = 0, df_writable = True, df_read_only = False, df_closed = False\<rparr>"

lemma demo_info_not_dir: "\<not> info_is_dir (demo_info d)"
  by (simp add: demo_info_def file_info_from_metadata_def info_is_dir_def mode_dir_def)

lemma demo_path: "webdav_remote_path ''/w'' ''a'' = Inr ''/w/a''"
  by code_simp

lemma demo_open: "dav_open_file demo_fs [''/w/a'' \<mapsto> d] 0 ''a'' rdwr = Inr (demo_file d)"
  using demo_info_not_dir [of d]
  by (simp add: dav_open_file_def demo_fs_def demo_path demo_client_def dav_stat_path_def rdwr_def om_write_def
      demo_file_def demo_info_def)

text \<open>C14: What a WebDAV session writes is what the service gets: for a file opened for writing, after
  any reads, seeks and writes that do not panic, a close that reports success has sent the
  bytes the reference file has after the same operations, starting from nothing if the file
  was truncated or missing and from the bytes of the service otherwise, to the path of the
  name, in one write.\<close>

theorem dav_session_stored:
  assumes "dav_open_file fs s now name fl = Inr f" "df_writable f"
    and "int (length (df_data f)) \<le> max_int64" "list_all op_typed ops"
    and "dav_ops now2 ops f = Returns g" "dav_close (fs_client fs) s2 g = (s3, h, None)"
  shows "\<exists>p. webdav_remote_path (fs_root fs) name = Inr p
    \<and> dc_write (fs_client fs) s2 p
        (fst (fold ref_op ops (df_data f, if om_append fl then length (df_data f) else 0))) = (s3, None)
    \<and> (if om_trunc fl \<or> \<not> is_ok (dav_stat_path fs s now p) then df_data f = []
       else dc_read (fs_client fs) s p = Inr (df_data f))"
proof -
  obtain p where p: "webdav_remote_path (fs_root fs) name = Inr p"
    using assms(1) by (auto simp: dav_open_file_def split: sum.splits)
  have f: "df_remote_path f = p" "\<not> df_closed f" "df_offset f = (if om_append fl then int (length (df_data f)) else 0)"
    "case df_info f of Some i \<Rightarrow> \<not> info_is_dir i | None \<Rightarrow> True"
    "if om_trunc fl \<or> \<not> is_ok (dav_stat_path fs s now p) then df_data f = []
       else dc_read (fs_client fs) s p = Inr (df_data f)"
    using assms(1,2)
    by (auto simp: dav_open_file_def p om_write_def Let_def data_info_not_dir
        split: sum.splits if_splits)
  have ok: "file_ok f" using f(3,4) assms(2,3) by (auto simp: file_ok_def max_int64_def)
  have v: "file_view f = (df_data f, if om_append fl then length (df_data f) else 0)"
    using f(3) by (simp add: file_view_def)
  note r = dav_ops_view [OF ok assms(4,5)]
  have "df_writable g" using r by (simp add: file_ok_def)
  moreover have "df_data g = fst (fold ref_op ops (file_view f))"
    using r by (metis file_view_def fst_conv)
  ultimately have "dc_write (fs_client fs) s2 p (fst (fold ref_op ops (file_view f))) = (s3, None)"
    using assms(6) r f(1,2) by (auto simp: dav_close_def Let_def split: prod.splits option.splits)
  with p f(5) v show ?thesis by auto
qed

theorem dav_session_stored_witness:
  "\<exists>f g h s3. dav_open_file demo_fs [''/w/a'' \<mapsto> ''abc''] 0 ''a'' rdwr = Inr f
     \<and> dav_ops 0 [Op_Read 1, Op_Write ''X'', Op_Seek 2 2, Op_Write ''Z''] f = Returns g
     \<and> dav_close demo_client Map.empty g = (s3, h, None)
     \<and> s3 ''/w/a'' = Some [CHR ''a'', CHR ''X'', CHR ''c'', CHR 0x00, CHR 0x00, CHR ''Z'']"
proof -
  let ?ops = "[Op_Read 1, Op_Write ''X'', Op_Seek 2 2, Op_Write ''Z'']"
  let ?f = "demo_file ''abc''"
  note o = demo_open [of "''abc''"] and p = demo_path
  obtain g where g: "dav_ops 0 ?ops ?f = Returns g"
    by (cases "dav_ops 0 ?ops ?f") (auto simp: max_alloc_def dav_write_def dav_read_def dav_seek_def demo_file_def demo_info_not_dir Let_def wrap64_def)
  let ?d = "[CHR ''a'', CHR ''X'', CHR ''c'', CHR 0x00, CHR 0x00, CHR ''Z'']"
  obtain h s3 where h: "dav_close demo_client Map.empty g = (s3, h, None)"
    by (cases "df_closed g"; cases "df_writable g") (auto simp: dav_close_def demo_client_def)
  have d: "fst (fold ref_op ?ops (''abc'', 0)) = ?d" by code_simp
  have "dav_close (fs_client demo_fs) Map.empty g = (s3, h, None)" using h by (simp add: demo_fs_def)
  then have "\<exists>p. webdav_remote_path (fs_root demo_fs) ''a'' = Inr p
    \<and> dc_write (fs_client demo_fs) Map.empty p (fst (fold ref_op ?ops (''abc'', 0))) = (s3, None)"
    using dav_session_stored [OF o _ _ _ g, of Map.empty s3 h]
    by (auto simp: demo_file_def rdwr_def max_int64_def in_int64_def min_int64_def simp del: fold.simps)
  then have "s3 ''/w/a'' = Some ?d"
    using p unfolding d by (auto simp: demo_fs_def demo_client_def)
  with o g h show ?thesis by blast
qed

text \<open>\<open>fenced root c x\<close> answers like \<open>c\<close> below the root and like any other client \<open>x\<close> outside: an
  operation that gives the same result with both makes no call outside the tree.\<close>

definition fenced :: "string \<Rightarrow> 's dav_client \<Rightarrow> 's dav_client \<Rightarrow> 's dav_client" where
  "fenced root c x =
     \<lparr>dc_stat_metadata = (\<lambda>s p. if in_tree root p then dc_stat_metadata c s p else dc_stat_metadata x s p),
      dc_stat = (\<lambda>s p. if in_tree root p then dc_stat c s p else dc_stat x s p),
      dc_list = (\<lambda>s p. if in_tree root p then dc_list c s p else dc_list x s p),
      dc_read = (\<lambda>s p. if in_tree root p then dc_read c s p else dc_read x s p),
      dc_write = (\<lambda>s p d. if in_tree root p then dc_write c s p d else dc_write x s p d),
      dc_mkdir = (\<lambda>s p m. if in_tree root p then dc_mkdir c s p m else dc_mkdir x s p m),
      dc_delete = (\<lambda>s p r. if in_tree root p then dc_delete c s p r else dc_delete x s p r),
      dc_rename = (\<lambda>s p q. if in_tree root p \<and> in_tree root q then dc_rename c s p q else dc_rename x s p q)\<rparr>"

definition fenced_fs :: "'s dav_client \<Rightarrow> 's dav_fs \<Rightarrow> 's dav_fs" where
  "fenced_fs x fs = fs\<lparr>fs_client := fenced (fs_root fs) (fs_client fs) x\<rparr>"

lemma fenced_calls [simp]:
  "in_tree root p \<Longrightarrow> dc_stat_metadata (fenced root c x) s p = dc_stat_metadata c s p"
  "in_tree root p \<Longrightarrow> dc_stat (fenced root c x) s p = dc_stat c s p"
  "in_tree root p \<Longrightarrow> dc_list (fenced root c x) s p = dc_list c s p"
  "in_tree root p \<Longrightarrow> dc_read (fenced root c x) s p = dc_read c s p"
  "in_tree root p \<Longrightarrow> dc_write (fenced root c x) s p d = dc_write c s p d"
  "in_tree root p \<Longrightarrow> dc_mkdir (fenced root c x) s p m = dc_mkdir c s p m"
  "in_tree root p \<Longrightarrow> dc_delete (fenced root c x) s p r = dc_delete c s p r"
  "in_tree root p \<Longrightarrow> in_tree root q \<Longrightarrow> dc_rename (fenced root c x) s p q = dc_rename c s p q"
  by (simp_all add: fenced_def)

lemma fenced_fs_sel [simp]:
  "fs_root (fenced_fs x fs) = fs_root fs" "fs_read_only (fenced_fs x fs) = fs_read_only fs"
  "fs_client (fenced_fs x fs) = fenced (fs_root fs) (fs_client fs) x"
  by (simp_all add: fenced_fs_def)

lemma dav_stat_path_fenced:
  "in_tree (fs_root fs) p \<Longrightarrow> dav_stat_path (fenced_fs x fs) s now p = dav_stat_path fs s now p"
  "in_tree (fs_root fs) p \<Longrightarrow> dav_read_dir (fenced_fs x fs) s now p = dav_read_dir fs s now p"
  by (simp_all add: dav_stat_path_def dav_read_dir_def cong: sum.case_cong if_cong)

lemma dav_open_path:
  assumes "dav_open_file fs s now name fl = Inr f" "df_writable f"
  shows "webdav_remote_path (fs_root fs) name = Inr (df_remote_path f)"
  using assms by (auto simp: dav_open_file_def Let_def split: sum.splits if_splits)

lemma dav_ops_path:
  "dav_ops now ops f = Returns g \<Longrightarrow> df_remote_path g = df_remote_path f \<and> df_writable g = df_writable f"
proof (induction now ops f rule: dav_ops.induct)
  case (2 now n ops f)
  then show ?case by (auto simp: dav_read_def Let_def split: if_splits)
next
  case (3 now off whence ops f)
  then show ?case by (auto simp: dav_seek_def Let_def split: if_splits option.splits)
next
  case (4 now bs ops f)
  then obtain h r where h: "dav_write now f bs = Returns (h, r)" by (auto split: run.splits)
  then have "df_remote_path h = df_remote_path f \<and> df_writable h = df_writable f"
    by (auto simp: dav_write_def Let_def split: if_splits)
  then show ?case using 4 h by auto
qed simp

lemma dav_close_fenced:
  assumes "normal_path (fs_root fs)" "dav_open_file fs s now name fl = Inr f" "dav_ops now2 ops f = Returns g"
  shows "dav_close (fenced (fs_root fs) (fs_client fs) x) s2 g = dav_close (fs_client fs) s2 g"
proof (cases "df_writable g")
  case True
  then have "webdav_remote_path (fs_root fs) name = Inr (df_remote_path g)"
    using dav_open_path [OF assms(2)] dav_ops_path [OF assms(3)] by simp
  then have "in_tree (fs_root fs) (df_remote_path g)" by (rule webdav_remote_path_in_tree [OF assms(1)])
  then show ?thesis by (simp add: dav_close_def Let_def)
qed (simp add: dav_close_def Let_def)

text \<open>C15: A WebDAV mount stays below its root.  The root a mount is made with is a normal path,
  every path a name leads to is the root or lies below it, and no operation makes a call outside
  the tree: opening, reading a directory, stat, mkdir, removal, rename and the closing of an open
  file give the same results whatever a client does with paths outside the root.  A removal
  deletes only strictly below the root.\<close>

theorem dav_paths_confined:
  fixes st :: "'x prop_store option"
  assumes "fs_root fs = fs_root (fst (new_remote_webdav_fs c0 root ro :: 's dav_fs \<times> 'x prop_store option))"
  shows "(case webdav_remote_path (fs_root fs) name of Inl _ \<Rightarrow> True | Inr p \<Rightarrow> in_tree (fs_root fs) p)
    \<and> dav_open_file (fenced_fs x fs) s now name fl = dav_open_file fs s now name fl
    \<and> dav_stat (fenced_fs x fs) s now name = dav_stat fs s now name
    \<and> dav_mkdir (fenced_fs x fs) s name perm = dav_mkdir fs s name perm
    \<and> dav_remove_all (fenced_fs x fs) s st name = dav_remove_all fs s st name
    \<and> dav_rename (fenced_fs x fs) s st name name2 = dav_rename fs s st name name2
    \<and> (\<forall>f now2 ops g s2. dav_open_file fs s now name fl = Inr f \<longrightarrow> dav_ops now2 ops f = Returns g \<longrightarrow>
         dav_close (fenced (fs_root fs) (fs_client fs) x) s2 g = dav_close (fs_client fs) s2 g)
    \<and> (fst (dav_remove_all fs s st name) = s \<or>
       (\<exists>p. has_prefix p (tree_prefix (fs_root fs)) \<and> p \<noteq> tree_prefix (fs_root fs)
          \<and> fst (dav_remove_all fs s st name) = fst (dc_delete (fs_client fs) s p True)))"
proof -
  have n: "normal_path (fs_root fs)" by (simp add: assms dav_root_normal)
  note tree = webdav_remote_path_in_tree [OF n]
  have "case webdav_remote_path (fs_root fs) name of Inl _ \<Rightarrow> True | Inr p \<Rightarrow> in_tree (fs_root fs) p"
    using tree by (auto split: sum.splits)
  moreover have "dav_open_file (fenced_fs x fs) s now name fl = dav_open_file fs s now name fl"
  proof (cases "webdav_remote_path (fs_root fs) name")
    case (Inr p)
    then show ?thesis using tree [OF Inr] by (simp add: dav_open_file_def dav_stat_path_fenced cong: sum.case_cong if_cong)
  qed (simp add: dav_open_file_def)
  moreover have "dav_stat (fenced_fs x fs) s now name = dav_stat fs s now name"
    using tree by (auto simp: dav_stat_def dav_stat_path_fenced split: sum.split)
  moreover have "dav_mkdir (fenced_fs x fs) s name perm = dav_mkdir fs s name perm"
    using tree by (auto simp: dav_mkdir_def split: sum.split)
  moreover have "dav_remove_all (fenced_fs x fs) s st name = dav_remove_all fs s st name"
    using tree by (auto simp: dav_remove_all_def split: sum.split)
  moreover have "dav_rename (fenced_fs x fs) s st name name2 = dav_rename fs s st name name2"
    using tree by (auto simp: dav_rename_def split: sum.split)
  moreover have "fst (dav_remove_all fs s st name) = s \<or>
       (\<exists>p. has_prefix p (tree_prefix (fs_root fs)) \<and> p \<noteq> tree_prefix (fs_root fs)
          \<and> fst (dav_remove_all fs s st name) = fst (dc_delete (fs_client fs) s p True))"
  proof (cases "webdav_remote_path (fs_root fs) name")
    case (Inr p)
    then show ?thesis
      using webdav_remote_path_below [OF n Inr]
      by (cases "dc_delete (fs_client fs) s p True")
        (auto simp: dav_remove_all_def intro!: exI [of _ p] split: option.splits)
  qed (simp add: dav_remove_all_def)
  ultimately show ?thesis using dav_close_fenced [OF n] by blast
qed

definition blank_root :: "(string \<Rightarrow> string option) dav_fs \<times> nat prop_store option" where
  "blank_root = new_remote_webdav_fs demo_client '' /w'' False"

theorem dav_paths_confined_witness:
  "in_tree (fs_root (fst blank_root)) ''/ /w/a''
   \<and> dav_stat (fenced_fs (demo_client\<lparr>dc_stat_metadata := \<lambda>s p. Inl (demo_error 500)\<rparr>) (fst blank_root)) Map.empty 0 ''../a''
     = dav_stat (fst blank_root) Map.empty 0 ''../a''"
proof -
  have "webdav_remote_path (fs_root (fst blank_root)) ''../a'' = Inr ''/ /w/a''" by code_simp
  then show ?thesis
    using dav_paths_confined [of "fst blank_root" demo_client "'' /w''" False "''../a''"
        "demo_client\<lparr>dc_stat_metadata := \<lambda>s p. Inl (demo_error 500)\<rparr>" Map.empty 0 _ 0 "snd blank_root" "[]"]
    by (simp add: blank_root_def)
qed

text \<open>The properties of a path follow it: in a well-formed store, after a rename from one place to
  another that has no properties below it, every path of the moved tree has under its new name
  exactly the properties it had, no path of the source has any, the other paths keep theirs,
  and the store stays well-formed.\<close>

theorem dav_props_follow_rename:
  assumes "props_ok d" "\<not> has_suffix s ''/''" "\<not> has_suffix t ''/''" "in_tree s p"
    and "\<And>k. in_tree t k \<Longrightarrow> dead_props (Some d) k = None" "\<And>k. in_tree s k \<Longrightarrow> \<not> in_tree t k"
  shows "dead_props (rename_tree (Some d) s t) (retarget_path s t p) = dead_props (Some d) p
    \<and> dead_props (rename_tree (Some d) s t) p = None
    \<and> (if in_tree s q \<or> in_tree t q then True else dead_props (rename_tree (Some d) s t) q = dead_props (Some d) q)
    \<and> props_ok (rename_tree_store d s t)"
proof -
  have t: "map_of d k = None" if "in_tree t k" for k
    using assms(5) [OF that] by (simp add: dead_props_ok [OF assms(1)])
  have g: "props_ok (rename_tree_store d s t)" by (rule rename_tree_good [OF assms(1-3)])
  have v: "map_of (rename_tree_store d s t) r =
    (if in_tree t r then (if in_tree s (retarget_path t s r) then map_of d (retarget_path t s r) else None)
     else if in_tree s r then None else map_of d r)" for r
    by (rule rename_tree_view [OF assms(1-3)]) (use t in simp)
  have "map_of (rename_tree_store d s t) (retarget_path s t p) = map_of d p"
    by (rule dp.move_target [OF assms(1-3) _ assms(4)]) (use t in simp)
  then show ?thesis
    using g v [of p] v [of q] assms(4,6) by (auto simp: rename_tree_def dead_props_ok [OF g] dead_props_ok [OF assms(1)])
qed

definition color_prop :: "string \<Rightarrow> string dav_property" where
  "color_prop v = \<lparr>pr_name = (''x:'', ''color''), pr_body = v\<rparr>"

theorem dav_props_follow_rename_witness:
  "dead_props (rename_tree (Some [(''/a/x'', [((''x:'', ''color''), color_prop ''red'')])]) ''/a'' ''/b'') ''/b/x''
     = Some [((''x:'', ''color''), color_prop ''red'')]"
proof -
  let ?d = "[(''/a/x'', [((''x:'', ''color''), color_prop ''red'')])]"
  have ok: "props_ok ?d" by (simp add: props_ok_def)
  have n: "\<not> has_suffix ''/a'' ''/''" "\<not> has_suffix ''/b'' ''/''" "in_tree ''/a'' ''/a/x''" by code_simp+
  have t: "in_tree ''/b'' k \<Longrightarrow> dead_props (Some ?d) k = None" for k
    by (auto simp: in_tree_plain [OF n(2)] dead_props_def)
  have a: "in_tree ''/a'' k \<Longrightarrow> \<not> in_tree ''/b'' k" for k
    by (auto simp: in_tree_plain [OF n(2)] in_tree_plain [OF n(1)])
  have p: "retarget_path ''/a'' ''/b'' ''/a/x'' = ''/b/x''" by code_simp
  show ?thesis
    using dav_props_follow_rename [OF ok n t a] by (simp add: p dead_props_def)
qed

text \<open>Setting a property rewrites the file: the library opens a file for reading and writing to
  change its properties, and closing it uploads the bytes read at the opening, so whatever
  another client stored in between is replaced by the old bytes.\<close>

theorem dav_close_reverts_other_client:
  assumes "\<And>s p d s'. dc_write (fs_client fs) s p d = (s', None) \<Longrightarrow> dc_read (fs_client fs) s' p = Inr d"
    and "webdav_remote_path (fs_root fs) name = Inr p"
    and "dav_open_file fs s now name rdwr = Inr f" "dc_read (fs_client fs) s p = Inr old" "df_writable f"
    and "dav_close (fs_client fs) s2 f = (s3, g, None)" "is_ok (dav_stat_path fs s now p)"
  shows "dc_read (fs_client fs) s3 p = Inr old"
proof -
  have f: "df_remote_path f = p" "\<not> df_closed f" "df_data f = old"
    using assms(2-5,7) by (auto simp: dav_open_file_def rdwr_def om_write_def Let_def split: sum.splits if_splits)
  then have "dc_write (fs_client fs) s2 p old = (s3, None)"
    using assms(5,6) by (auto simp: dav_close_def Let_def split: prod.splits option.splits)
  then show ?thesis by (rule assms(1))
qed

theorem dav_close_reverts_other_client_witness:
  "\<exists>f g s3. dav_open_file demo_fs [''/w/a'' \<mapsto> ''old''] 0 ''a'' rdwr = Inr f
     \<and> dav_close demo_client [''/w/a'' \<mapsto> ''new''] f = (s3, g, None)
     \<and> dc_read demo_client s3 ''/w/a'' = Inr ''old''"
proof -
  let ?s = "[''/w/a'' \<mapsto> ''old''] :: string \<Rightarrow> string option"
  let ?f = "demo_file ''old''"
  note o = demo_open [of "''old''"]
  have p: "webdav_remote_path (fs_root demo_fs) ''a'' = Inr ''/w/a''" by (simp add: demo_fs_def demo_path)
  have st: "is_ok (dav_stat_path demo_fs ?s 0 ''/w/a'')"
    by (simp add: dav_stat_path_def demo_fs_def demo_client_def)
  have law: "dc_write (fs_client demo_fs) s p d = (s', None) \<Longrightarrow> dc_read (fs_client demo_fs) s' p = Inr d" for s p d s'
    by (auto simp: demo_fs_def demo_client_def)
  have rd: "dc_read (fs_client demo_fs) ?s ''/w/a'' = Inr ''old''" by (simp add: demo_fs_def demo_client_def)
  obtain s3 g where c: "dav_close demo_client [''/w/a'' \<mapsto> ''new''] ?f = (s3, g, None)"
    by (simp add: dav_close_def demo_client_def demo_file_def)
  then have c': "dav_close (fs_client demo_fs) [''/w/a'' \<mapsto> ''new''] ?f = (s3, g, None)" by (simp add: demo_fs_def)
  have "dc_read (fs_client demo_fs) s3 ''/w/a'' = Inr ''old''"
    by (rule dav_close_reverts_other_client [OF law p o rd _ c']) (simp_all add: st demo_file_def)
  then have "dc_read demo_client s3 ''/w/a'' = Inr ''old''" by (simp add: demo_fs_def)
  with o c show ?thesis by blast
qed

text \<open>A directory can be sought past its entries, and a listing of all of them then panics.\<close>

theorem dav_readdir_after_seek_panics:
  assumes "df_info f = Some i" "info_is_dir i" "int (length (df_entries f)) < off" "off \<le> max_int64"
  shows "dav_readdir (fst (dav_seek f off 0)) 0 = Panic"
  using assms by (simp add: dav_readdir_def dav_seek_def Let_def)

end
