(* ===== verification/Self_Update.thy ===== *)
theory Self_Update
  imports Go_Errors Remote_Paths
begin

text \<open>
  The self-update of the command line (\<open>internal/update/update.go\<close>): versions, release
  metadata and checksum files, and the replacement of the running binary and its companion on
  disk.  The machine is a map from paths to file contents with a counter of the system calls
  made and a log of all earlier maps, so that what a crash between two calls leaves behind can
  be stated; each call can fail.  HTTP, JSON, archives, SHA-256 and running a program are
  parameters.
\<close>

section \<open>Versions\<close>

definition err_no_comparable_version :: go_error where
  "err_no_comparable_version = Msg (Lit ''version is not a comparable semver'')"

definition before_suffix :: "string \<Rightarrow> string" where
  "before_suffix v = takeWhile (\<lambda>c. c \<noteq> CHR ''-'' \<and> c \<noteq> CHR ''+'') v"

definition parse_version :: "string \<Rightarrow> go_error + int \<times> int \<times> int" where
  "parse_version value =
     (let v = trim_space (trim_prefix value ''v'') in
      if v = [] \<or> v = ''dev'' then Inl err_no_comparable_version
      else case map parse_int (split_on (CHR ''.'') (before_suffix v)) of
        [Some a, Some b, Some c] \<Rightarrow> Inr (a, b, c)
      | _ \<Rightarrow> Inl err_no_comparable_version)"

definition compare_versions :: "string \<Rightarrow> string \<Rightarrow> go_error + int" where
  "compare_versions l r =
     (case parse_version l of Inl e \<Rightarrow> Inl e | Inr (a, b, c) \<Rightarrow>
      (case parse_version r of Inl e \<Rightarrow> Inl e | Inr (a', b', c') \<Rightarrow>
        Inr (if a < a' then -1 else if a > a' then 1
             else if b < b' then -1 else if b > b' then 1
             else if c < c' then -1 else if c > c' then 1 else 0)))"

definition update_available :: "string \<Rightarrow> string \<Rightarrow> bool \<times> bool" where
  "update_available current latest =
     (case compare_versions current latest of Inl _ \<Rightarrow> (True, False) | Inr c \<Rightarrow> (c < 0, True))"

definition versions_equal :: "string \<Rightarrow> string \<Rightarrow> bool" where
  "versions_equal l r =
     (case compare_versions l r of Inl _ \<Rightarrow> trim_prefix l ''v'' = trim_prefix r ''v'' | Inr c \<Rightarrow> c = 0)"

definition normalize_tag :: "string \<Rightarrow> string" where
  "normalize_tag value = (let v = trim_space value in if has_prefix v ''v'' then v else CHR ''v'' # v)"

section \<open>Install sources and artifacts\<close>

record version_info =
  vi_version :: string
  vi_os :: string
  vi_arch :: string
  vi_source :: string
  vi_channel :: string

record install_source =
  is_name :: string
  is_owned :: bool
  is_managed :: bool

definition normalized_install_source :: "string \<Rightarrow> string" where
  "normalized_install_source source = (let s = trim_space (to_lower source) in if s = [] then ''unknown'' else s)"

text \<open>\<open>filepath.ToSlash\<close> changes nothing on the systems where the separator is a slash.\<close>

definition detect_install_source :: "string \<Rightarrow> string \<Rightarrow> install_source" where
  "detect_install_source source p =
     (let lower = to_lower (map (\<lambda>c. if c = CHR 0x5C then CHR ''/'' else c) p);
          name = (if contains_str lower ''/homebrew/cellar/ti-cli/'' \<or> contains_str lower ''/cellar/ti-cli/'' then ''homebrew''
                  else if contains_str lower ''/scoop/apps/ti-cli/'' then ''scoop''
                  else normalized_install_source source)
      in if name \<in> {''archive'', ''script''} then \<lparr>is_name = name, is_owned = True, is_managed = False\<rparr>
         else if name \<in> {''homebrew'', ''scoop'', ''winget''} then \<lparr>is_name = name, is_owned = False, is_managed = True\<rparr>
         else if name = [] then \<lparr>is_name = ''unknown'', is_owned = False, is_managed = False\<rparr>
         else \<lparr>is_name = name, is_owned = False, is_managed = False\<rparr>)"

definition upd_error :: "string \<Rightarrow> gotext \<Rightarrow> go_error" where
  "upd_error code m = app_new code ''runtime'' 1 m"

definition upd_wrap :: "string \<Rightarrow> string \<Rightarrow> go_error \<Rightarrow> go_error" where
  "upd_wrap code m e = app_wrap code ''runtime'' 1 (Lit m) e"

definition managed_install_error :: "string \<Rightarrow> go_error" where
  "managed_install_error source =
     (let command = (if source = ''homebrew'' then ''brew upgrade tidbcloud/tap/ti-cli''
            else if source = ''scoop'' then ''scoop update ti-cli''
            else if source = ''winget'' then ''winget upgrade TiDBCloud.TiCLI''
            else ''use the package manager that installed ti'')
      in upd_error ''update.managed_install'' (Fmt ''ti is managed by %s; update it with `%s`'' [Lit source, Lit command]))"

definition release_channel :: "version_info \<Rightarrow> string" where
  "release_channel info = (let c = trim_space (vi_channel info) in if c = [] then ''stable'' else c)"

definition unsupported_target :: "string \<Rightarrow> string \<Rightarrow> go_error" where
  "unsupported_target os arch = upd_error ''update.unsupported_target''
     (Fmt ''no ti release artifact is defined for %s/%s'' [Lit os, Lit arch])"

text \<open>\<open>host\<close> is \<open>runtime.GOOS\<close> and \<open>runtime.GOARCH\<close>.\<close>

definition artifact_name :: "string \<times> string \<Rightarrow> string \<Rightarrow> string \<Rightarrow> go_error + string" where
  "artifact_name host os0 arch0 =
     (let os = (if os0 = [] then fst host else os0); arch = (if arch0 = [] then snd host else arch0) in
      if os = ''darwin'' \<or> os = ''linux'' then
        (if arch \<noteq> ''amd64'' \<and> arch \<noteq> ''arm64'' then Inl (unsupported_target os arch)
         else Inr (''ti_'' @ os @ ''_'' @ arch @ ''.tar.gz''))
      else if os = ''windows'' then
        (if arch \<noteq> ''amd64'' then Inl (unsupported_target os arch)
         else Inr (''ti_'' @ os @ ''_'' @ arch @ ''.zip''))
      else Inl (unsupported_target os arch))"

definition drive9_artifact_name :: "string \<times> string \<Rightarrow> string \<Rightarrow> string \<Rightarrow> go_error + string" where
  "drive9_artifact_name host os0 arch0 =
     (let os = (if os0 = [] then fst host else os0); arch = (if arch0 = [] then snd host else arch0) in
      if os = ''darwin'' \<or> os = ''linux'' then
        (if arch \<noteq> ''amd64'' \<and> arch \<noteq> ''arm64'' then Inl (unsupported_target os arch)
         else Inr (''drive9-'' @ os @ ''-'' @ arch))
      else if os = ''windows'' then
        (if arch \<noteq> ''amd64'' \<and> arch \<noteq> ''arm64'' then Inl (unsupported_target os arch)
         else Inr (''drive9-'' @ os @ ''-'' @ arch @ ''.exe''))
      else Inl (unsupported_target os arch))"

definition companion_binary_name :: "string \<times> string \<Rightarrow> string" where
  "companion_binary_name host = (if fst host = ''windows'' then ''ti-drive9.exe'' else ''ti-drive9'')"

text \<open>\<open>self\<close> is \<open>os.Executable()\<close>.\<close>

definition companion_path_for_executable :: "string \<times> string \<Rightarrow> go_error + string \<Rightarrow> string \<Rightarrow> string" where
  "companion_path_for_executable host self ti_path =
     (let p0 = trim_space ti_path;
          p = (if p0 = [] then (case self of Inl _ \<Rightarrow> p0 | Inr c \<Rightarrow> c) else p0)
      in if p = [] then companion_binary_name host else path_join [path_dir p, companion_binary_name host])"

definition companion_status_text :: "string \<Rightarrow> bool \<Rightarrow> string" where
  "companion_status_text p installed = (if installed then p else ''missing at '' @ p)"

section \<open>Checksums\<close>

definition is_hex_digit :: "char \<Rightarrow> bool" where
  "is_hex_digit c \<longleftrightarrow> is_digit c \<or> (97 \<le> byte_of c \<and> byte_of c \<le> 102) \<or> (65 \<le> byte_of c \<and> byte_of c \<le> 70)"

definition is_hex_sha256 :: "string \<Rightarrow> bool" where
  "is_hex_sha256 v \<longleftrightarrow> length v = 64 \<and> list_all is_hex_digit v"

definition hex_digit :: "nat \<Rightarrow> char" where
  "hex_digit n = (if n < 10 then char_of (48 + n) else char_of (87 + n))"

definition hex_encode :: "string \<Rightarrow> string" where
  "hex_encode s = concat (map (\<lambda>c. [hex_digit (byte_of c div 16), hex_digit (byte_of c mod 16)]) s)"

definition line_checksum :: "string \<Rightarrow> string \<Rightarrow> string option" where
  "line_checksum name line0 =
     (let line = trim_space line0; prefix = ''SHA256 ('' @ name @ '') = '' in
      if line = [] then None
      else case str_fields [] line of
        f # g # _ \<Rightarrow>
          if g = name \<and> is_hex_sha256 f then Some (to_lower f)
          else if has_prefix line prefix \<and> is_hex_sha256 (trim_prefix line prefix)
            then Some (to_lower (trim_prefix line prefix)) else None
      | _ \<Rightarrow> if has_prefix line prefix \<and> is_hex_sha256 (trim_prefix line prefix)
            then Some (to_lower (trim_prefix line prefix)) else None)"

fun first_checksum :: "string \<Rightarrow> string list \<Rightarrow> string option" where
  "first_checksum name [] = None"
| "first_checksum name (l # ls) =
     (case line_checksum name l of Some v \<Rightarrow> Some v | None \<Rightarrow> first_checksum name ls)"

definition checksum_for :: "string \<Rightarrow> string \<Rightarrow> go_error + string" where
  "checksum_for checksums name =
     (case first_checksum name (split_on (CHR 0x0A) checksums) of
        Some v \<Rightarrow> Inr v
      | None \<Rightarrow> Inl (upd_error ''update.checksum_missing'' (Fmt ''checksums file does not include %s'' [Lit name])))"

text \<open>\<open>strings.EqualFold\<close> of a hexadecimal string and another one.\<close>

definition verify_checksum :: "(string \<Rightarrow> string) \<Rightarrow> string \<Rightarrow> string \<Rightarrow> string \<Rightarrow> go_error option" where
  "verify_checksum sha256 data expected name =
     (if to_lower (hex_encode (sha256 data)) \<noteq> to_lower expected
      then Some (upd_error ''update.checksum_mismatch'' (Fmt ''downloaded %s failed checksum verification'' [Lit name]))
      else None)"

section \<open>Releases\<close>

record release =
  rl_tag :: string
  rl_url :: string
  rl_assets :: "(string \<times> string) list"

definition release_version :: "release \<Rightarrow> string" where
  "release_version r = trim_prefix (trim_space (rl_tag r)) ''v''"

definition release_asset :: "release \<Rightarrow> string \<Rightarrow> go_error + string \<times> string" where
  "release_asset r name =
     (case find (\<lambda>a. fst a = name) (rl_assets r) of
        Some a \<Rightarrow> Inr a
      | None \<Rightarrow> Inl (upd_error ''update.artifact_not_found''
          (Fmt ''release %s does not include required asset %q'' [Lit (rl_tag r), Lit name])))"

record http_answer =
  ha_status :: int
  ha_status_text :: string
  ha_body :: string
  ha_body_error :: "go_error option"

text \<open>The outside world of an update: building and sending a GET request, decoding release
  metadata, the environment variable with the base address, SHA-256.\<close>

record net =
  nt_build :: "string \<Rightarrow> go_error option"
  nt_get :: "string \<Rightarrow> go_error + http_answer"
  nt_decode :: "string \<Rightarrow> go_error + release"
  nt_env_base :: string
  nt_sha256 :: "string \<Rightarrow> string"

definition trim_right_slashes :: "string \<Rightarrow> string" where
  "trim_right_slashes s = rev (dropWhile (\<lambda>c. c = CHR ''/'') (rev s))"

definition default_release_base :: string where
  "default_release_base = ''https://api.github.com/repos/tidbcloud/ti-cli''"

definition new_update_client :: "net \<Rightarrow> string \<Rightarrow> string" where
  "new_update_client w base =
     (let b1 = (if trim_space base = [] then trim_right_slashes (nt_env_base w) else base);
          b2 = (if trim_space b1 = [] then default_release_base else b1)
      in trim_right_slashes b2)"

definition download :: "net \<Rightarrow> string \<Rightarrow> go_error + string" where
  "download w url =
     (case nt_build w url of
        Some e \<Rightarrow> Inl (upd_wrap ''update.invalid_url'' ''build release request'' e)
      | None \<Rightarrow>
        (case nt_get w url of
           Inl e \<Rightarrow> Inl (upd_wrap ''update.network_error'' ''download release metadata or artifact'' e)
         | Inr a \<Rightarrow>
           if ha_status a < 200 \<or> ha_status a \<ge> 300 then
             (let m = trim_space (take 512 (ha_body a));
                  message = (if m = [] then ha_status_text a else m);
                  code = (if ha_status a = 404 then ''update.release_not_found'' else ''update.network_error'')
              in Inl (upd_error code (Fmt ''download release metadata or artifact: HTTP %d: %s''
                   [Lit (int_digits (ha_status a)), Lit message])))
           else case ha_body_error a of
             Some e \<Rightarrow> Inl (upd_wrap ''update.network_error'' ''read release response'' e)
           | None \<Rightarrow> Inr (ha_body a)))"

definition get_json :: "net \<Rightarrow> string \<Rightarrow> go_error + release" where
  "get_json w url =
     (case download w url of Inl e \<Rightarrow> Inl e | Inr body \<Rightarrow>
      (case nt_decode w body of
         Inl e \<Rightarrow> Inl (upd_wrap ''update.invalid_release'' ''decode release metadata'' e)
       | Inr r \<Rightarrow> Inr r))"

definition fetch_release :: "net \<Rightarrow> string \<Rightarrow> string \<Rightarrow> go_error + release" where
  "fetch_release w base target =
     (let p = (if target \<noteq> [] \<and> target \<noteq> ''latest'' then ''/releases/tags/'' @ normalize_tag target else ''/releases/latest'')
      in case get_json w (base @ p) of Inl e \<Rightarrow> Inl e | Inr r \<Rightarrow>
        if rl_tag r = [] then Inl (upd_error ''update.invalid_release'' (Lit ''release metadata did not include tag_name''))
        else Inr r)"

record check_result =
  cr_current :: string
  cr_latest :: string
  cr_available :: bool
  cr_comparable :: bool
  cr_source :: string
  cr_channel :: string
  cr_artifact :: string
  cr_download_url :: string
  cr_release_url :: string
  cr_companion_path :: string
  cr_companion_installed :: bool

text \<open>\<open>is_file\<close> says whether a path is an existing regular file.\<close>

definition update_file_exists :: "(string \<Rightarrow> bool) \<Rightarrow> string \<Rightarrow> bool" where
  "update_file_exists is_file p \<longleftrightarrow> (if trim_space p = [] then False else is_file p)"

definition update_check ::
  "net \<Rightarrow> string \<times> string \<Rightarrow> go_error + string \<Rightarrow> (string \<Rightarrow> bool) \<Rightarrow> version_info \<Rightarrow> string \<Rightarrow> go_error + check_result" where
  "update_check w host self is_file info base0 =
     bind_result (fetch_release w (new_update_client w base0) ''latest'') (\<lambda>rel.
     bind_result (artifact_name host (vi_os info) (vi_arch info)) (\<lambda>name.
     bind_result (release_asset rel name) (\<lambda>artifact.
       let companion = companion_path_for_executable host self [];
           (available, comparable) = update_available (vi_version info) (release_version rel)
       in Inr \<lparr>cr_current = vi_version info, cr_latest = release_version rel, cr_available = available,
            cr_comparable = comparable, cr_source = normalized_install_source (vi_source info),
            cr_channel = release_channel info, cr_artifact = fst artifact, cr_download_url = snd artifact,
            cr_release_url = rl_url rel, cr_companion_path = companion,
            cr_companion_installed = update_file_exists is_file companion\<rparr>)))"

section \<open>The machine\<close>

type_synonym files = "string \<Rightarrow> string option"

record os =
  os_files :: files
  os_steps :: nat
  os_log :: "files list"

text \<open>
  \<open>oe_fail n\<close> is the failure of the \<open>n\<close>-th call, \<open>oe_random n\<close> the digits a temporary name gets
  at that call, \<open>oe_partial n\<close> how much a failing copy wrote; \<open>oe_exec\<close> runs a program, given by
  its bytes, and \<open>oe_archive\<close> lists the entries of a zip (True), each of which may not open, or
  of a compressed tar, whose list may end with an error.
\<close>

record os_env =
  oe_fail :: "nat \<Rightarrow> go_error option"
  oe_random :: "nat \<Rightarrow> string"
  oe_partial :: "nat \<Rightarrow> nat"
  oe_temp_dir :: string
  oe_is_dir :: "string \<Rightarrow> bool"
  oe_host :: "string \<times> string"
  oe_self :: "go_error + string"
  oe_eval_links :: "string \<Rightarrow> go_error + string"
  oe_exec :: "string option \<Rightarrow> string list \<Rightarrow> string \<times> go_error option"
  oe_archive :: "bool \<Rightarrow> string \<Rightarrow> go_error + (string \<times> (go_error + string)) list \<times> go_error option"

definition os_step :: "os \<Rightarrow> files \<Rightarrow> os" where
  "os_step s f = \<lparr>os_files = f, os_steps = Suc (os_steps s), os_log = os_files s # os_log s\<rparr>"

definition os_rename :: "os_env \<Rightarrow> os \<Rightarrow> string \<Rightarrow> string \<Rightarrow> os \<times> go_error option" where
  "os_rename v s a b =
     (case oe_fail v (os_steps s) of
        Some e \<Rightarrow> (os_step s (os_files s), Some e)
      | None \<Rightarrow>
        (case os_files s a of
           None \<Rightarrow> (os_step s (os_files s), Some (Sentinel Err_Not_Exist))
         | Some c \<Rightarrow> (os_step s ((os_files s)(a := None, b := Some c)), None)))"

definition os_remove :: "os_env \<Rightarrow> os \<Rightarrow> string \<Rightarrow> os \<times> go_error option" where
  "os_remove v s p =
     (case oe_fail v (os_steps s) of
        Some e \<Rightarrow> (os_step s (os_files s), Some e)
      | None \<Rightarrow>
        (case os_files s p of
           None \<Rightarrow> (os_step s (os_files s), Some (Sentinel Err_Not_Exist))
         | Some c \<Rightarrow> (os_step s ((os_files s)(p := None)), None)))"

definition os_remove_all :: "os_env \<Rightarrow> os \<Rightarrow> string \<Rightarrow> os" where
  "os_remove_all v s d =
     (case oe_fail v (os_steps s) of
        Some e \<Rightarrow> os_step s (os_files s)
      | None \<Rightarrow> os_step s (\<lambda>p. if in_tree d p then None else os_files s p))"

text \<open>A call that changes no content (chmod, sync, close, a directory made).\<close>

definition os_call :: "os_env \<Rightarrow> os \<Rightarrow> os \<times> go_error option" where
  "os_call v s = (os_step s (os_files s), oe_fail v (os_steps s))"

definition os_create_temp :: "os_env \<Rightarrow> os \<Rightarrow> string \<Rightarrow> string \<Rightarrow> os \<times> (go_error + string)" where
  "os_create_temp v s dir prefix =
     (let p = dir @ ''/'' @ prefix @ oe_random v (os_steps s) in
      case oe_fail v (os_steps s) of
        Some e \<Rightarrow> (os_step s (os_files s), Inl e)
      | None \<Rightarrow>
        if os_files s p \<noteq> None then (os_step s (os_files s), Inl (Sentinel Err_Exist))
        else (os_step s ((os_files s)(p := Some [])), Inr p))"

definition os_mkdir_temp :: "os_env \<Rightarrow> os \<Rightarrow> string \<Rightarrow> os \<times> (go_error + string)" where
  "os_mkdir_temp v s prefix =
     (let p = oe_temp_dir v @ ''/'' @ prefix @ oe_random v (os_steps s) in
      case oe_fail v (os_steps s) of
        Some e \<Rightarrow> (os_step s (os_files s), Inl e)
      | None \<Rightarrow> (os_step s (os_files s), Inr p))"

text \<open>Writing bytes to a file that is open: what a failing copy wrote stays.\<close>

definition os_copy :: "os_env \<Rightarrow> os \<Rightarrow> string \<Rightarrow> string \<Rightarrow> os \<times> go_error option" where
  "os_copy v s p data =
     (case oe_fail v (os_steps s) of
        Some e \<Rightarrow> (os_step s ((os_files s)(p := Some (take (oe_partial v (os_steps s)) data))), Some e)
      | None \<Rightarrow> (os_step s ((os_files s)(p := Some data)), None))"

text \<open>Opening a new file for writing (\<open>O_CREATE|O_EXCL\<close>).\<close>

definition os_create_excl :: "os_env \<Rightarrow> os \<Rightarrow> string \<Rightarrow> os \<times> go_error option" where
  "os_create_excl v s p =
     (case oe_fail v (os_steps s) of
        Some e \<Rightarrow> (os_step s (os_files s), Some e)
      | None \<Rightarrow>
        if os_files s p \<noteq> None then (os_step s (os_files s), Some (Sentinel Err_Exist))
        else (os_step s ((os_files s)(p := Some [])), None))"

definition os_open :: "os_env \<Rightarrow> os \<Rightarrow> string \<Rightarrow> os \<times> (go_error + string)" where
  "os_open v s p =
     (os_step s (os_files s),
      case oe_fail v (os_steps s) of
        Some e \<Rightarrow> Inl e
      | None \<Rightarrow> (case os_files s p of None \<Rightarrow> Inl (Sentinel Err_Not_Exist) | Some c \<Rightarrow> Inr c))"

section \<open>Steps of an update\<close>

definition executable_path :: "os_env \<Rightarrow> string \<Rightarrow> go_error + string" where
  "executable_path v override =
     (let p0 = trim_space override in
      case (if p0 = [] then oe_self v else Inr p0) of
        Inl e \<Rightarrow> Inl (upd_wrap ''update.executable_path'' ''resolve current executable path'' e)
      | Inr p \<Rightarrow> (case oe_eval_links v p of Inl _ \<Rightarrow> Inr p | Inr q \<Rightarrow> Inr q))"

definition is_target_writable :: "os_env \<Rightarrow> os \<Rightarrow> string \<Rightarrow> os \<times> (go_error + bool)" where
  "is_target_writable v s p =
     (case os_open v s p of
        (s1, Inl e) \<Rightarrow> (s1, Inl (upd_wrap ''update.permission_denied'' ''check current ti binary'' e))
      | (s1, Inr _) \<Rightarrow>
        if oe_is_dir v p then (s1, Inl (upd_error ''update.permission_denied'' (Lit ''current ti executable path is a directory'')))
        else
          (case os_create_temp v s1 (path_dir p) ''.ti-update-write-test-'' of
             (s2, Inl e) \<Rightarrow>
               (s2, if errors_is e Err_Permission then Inr False
                    else Inl (app_wrap ''update.permission_denied'' ''runtime'' 1
                      (Fmt ''ti cannot stage an update in %s'' [Lit (path_dir p)]) e))
           | (s2, Inr name) \<Rightarrow>
               (let (s3, _) = os_call v s2; (s4, _) = os_remove v s3 name in (s4, Inr True))))"

definition stage_binary :: "os_env \<Rightarrow> os \<Rightarrow> string \<Rightarrow> string \<Rightarrow> os \<times> (go_error + string)" where
  "stage_binary v s source target =
     (case os_open v s source of
        (s1, Inl e) \<Rightarrow> (s1, Inl (upd_wrap ''update.permission_denied'' ''open update source'' e))
      | (s1, Inr data) \<Rightarrow>
        (case os_create_temp v s1 (path_dir target) (''.'' @ path_base target @ ''.update-'') of
           (s2, Inl e) \<Rightarrow> (s2, Inl (upd_wrap ''update.permission_denied'' ''stage update binary'' e))
         | (s2, Inr staged) \<Rightarrow>
           (let abandon = (\<lambda>s m e. (fst (os_remove v (fst (os_call v s)) staged),
                  Inl (upd_wrap ''update.permission_denied'' m e)))
            in case os_call v s2 of
              (s3, Some e) \<Rightarrow> abandon s3 ''set staged update permissions'' e
            | (s3, None) \<Rightarrow>
              (case os_copy v s3 staged data of
                 (s4, Some e) \<Rightarrow> abandon s4 ''copy staged update binary'' e
               | (s4, None) \<Rightarrow>
                 (case os_call v s4 of
                    (s5, Some e) \<Rightarrow> abandon s5 ''sync staged update binary'' e
                  | (s5, None) \<Rightarrow>
                    (case os_call v s5 of
                       (s6, Some e) \<Rightarrow> abandon s6 ''close staged update binary'' e
                     | (s6, None) \<Rightarrow> (fst (os_call v s6), Inr staged)))))))"

definition validate_installed_binary :: "os_env \<Rightarrow> os \<Rightarrow> string \<Rightarrow> go_error option" where
  "validate_installed_binary v s target =
     (case oe_exec v (os_files s target) [''--version''] of
        (_, None) \<Rightarrow> None
      | (output, Some e) \<Rightarrow> Some (app_wrap ''update.validation_failed'' ''runtime'' 1
          (Fmt ''new ti binary failed --version validation: %s'' [Lit (trim_space output)]) e))"

definition backup_path :: "string \<Rightarrow> string" where
  "backup_path target = target @ ''.ti-backup''"

text \<open>The deferred function of \<open>replaceBinary\<close> that puts the old binary back.\<close>

definition put_back :: "os_env \<Rightarrow> os \<Rightarrow> string \<Rightarrow> os" where
  "put_back v s target =
     (let (s1, _) = os_remove v s target; (s2, _) = os_rename v s1 (backup_path target) target in s2)"

definition replace_binary :: "os_env \<Rightarrow> os \<Rightarrow> string \<Rightarrow> string \<Rightarrow> os \<times> go_error option" where
  "replace_binary v s new target =
     (let (s1, _) = os_remove v s (backup_path target) in
      case os_rename v s1 target (backup_path target) of
        (s2, Some e) \<Rightarrow> (s2, Some (upd_wrap ''update.permission_denied'' ''move current ti binary aside'' e))
      | (s2, None) \<Rightarrow>
        (case os_rename v s2 new target of
           (s3, Some e) \<Rightarrow> (put_back v s3 target, Some (upd_wrap ''update.permission_denied'' ''install new ti binary'' e))
         | (s3, None) \<Rightarrow>
           (case validate_installed_binary v s3 target of
              Some e \<Rightarrow> (put_back v s3 target, Some e)
            | None \<Rightarrow> (fst (os_remove v s3 (backup_path target)), None))))"

text \<open>\<open>os.Stat\<close> of \<open>replaceFile\<close> fails when the call fails or nothing is there.\<close>

definition replace_file :: "os_env \<Rightarrow> os \<Rightarrow> string \<Rightarrow> string \<Rightarrow> os \<times> go_error option" where
  "replace_file v s source target =
     (let (s1, _) = os_remove v s (backup_path target); (s2, st) = os_open v s1 target in
      if is_ok st then
        (case os_rename v s2 target (backup_path target) of
           (s3, Some e) \<Rightarrow> (s3, Some (upd_wrap ''update.permission_denied'' ''move current ti-drive9 binary aside'' e))
         | (s3, None) \<Rightarrow>
           (case os_rename v s3 source target of
              (s4, Some e) \<Rightarrow> (put_back v s4 target, Some (upd_wrap ''update.permission_denied'' ''install ti-drive9 binary'' e))
            | (s4, None) \<Rightarrow> (fst (os_remove v s4 (backup_path target)), None)))
      else
        (case os_rename v s2 source target of
           (s4, Some e) \<Rightarrow> (s4, Some (upd_wrap ''update.permission_denied'' ''install ti-drive9 binary'' e))
         | (s4, None) \<Rightarrow> (s4, None)))"

text \<open>The first entry of the archive whose last path component is the program's name.\<close>

definition write_extracted_binary :: "os_env \<Rightarrow> os \<Rightarrow> string \<Rightarrow> string \<Rightarrow> os \<times> go_error option" where
  "write_extracted_binary v s target data =
     (case os_create_excl v s target of
        (s1, Some e) \<Rightarrow> (s1, Some (upd_wrap ''update.extract_artifact'' ''create extracted ti binary'' e))
      | (s1, None) \<Rightarrow>
        (case os_copy v s1 target data of
           (s2, Some e) \<Rightarrow> (fst (os_call v s2), Some (upd_wrap ''update.extract_artifact'' ''write extracted ti binary'' e))
         | (s2, None) \<Rightarrow> (fst (os_call v s2), None)))"

definition extract_archive :: "os_env \<Rightarrow> os \<Rightarrow> bool \<Rightarrow> string \<Rightarrow> string \<Rightarrow> string \<Rightarrow> os \<times> go_error option" where
  "extract_archive v s is_zip archive name target =
     (case oe_archive v is_zip archive of
        Inl e \<Rightarrow> (s, Some (upd_wrap ''update.extract_artifact'' (if is_zip then ''open zip artifact'' else ''open tar.gz artifact'') e))
      | Inr (entries, damage) \<Rightarrow>
        (case find (\<lambda>e. path_base (fst e) = name) entries of
           Some (_, Inr data) \<Rightarrow> write_extracted_binary v s target data
         | Some (_, Inl e) \<Rightarrow> (s, Some (upd_wrap ''update.extract_artifact'' ''open zipped ti binary'' e))
         | None \<Rightarrow>
           (case damage of
              Some e \<Rightarrow> (s, Some (upd_wrap ''update.extract_artifact'' ''read tar.gz artifact'' e))
            | None \<Rightarrow> (s, Some (upd_error ''update.extract_artifact'' (Lit ''release archive did not contain ti binary''))))))"

text \<open>The result is the path of the program and the directory to clean up.\<close>

definition extract_binary :: "os_env \<Rightarrow> os \<Rightarrow> string \<Rightarrow> string \<Rightarrow> os \<times> (go_error + string \<times> string)" where
  "extract_binary v s archive artifact =
     (case os_mkdir_temp v s ''ti-update-'' of
        (s1, Inl e) \<Rightarrow> (s1, Inl (upd_wrap ''update.temp_dir'' ''create update temp directory'' e))
      | (s1, Inr dir) \<Rightarrow>
        (let is_zip = has_suffix artifact ''.zip''; name = (if is_zip then ''ti.exe'' else ''ti'');
             target = path_join [dir, name]
         in case extract_archive v s1 is_zip archive name target of
           (s2, Some e) \<Rightarrow> (os_remove_all v s2 dir, Inl e)
         | (s2, None) \<Rightarrow>
           (case os_call v s2 of
              (s3, Some e) \<Rightarrow> (os_remove_all v s3 dir,
                Inl (upd_wrap ''update.extract_artifact'' ''make downloaded ti executable'' e))
            | (s3, None) \<Rightarrow> (s3, Inr (target, dir)))))"

section \<open>The companion\<close>

definition drive9_release_base :: string where
  "drive9_release_base = ''https://drive9.ai/releases''"

definition checksum_asset_name :: string where
  "checksum_asset_name = ''ti_checksums.txt''"

definition drive9_checksum_asset_name :: string where
  "drive9_checksum_asset_name = ''checksums.txt''"

definition incompatible_companion :: "string \<Rightarrow> string \<Rightarrow> go_error option \<Rightarrow> go_error" where
  "incompatible_companion detail output cause =
     (let m0 = ''downloaded ti-drive9 companion is incompatible with this ti release: '' @ detail
            @ ''; retry after the matching companion release is published'';
          m = Lit (if output \<noteq> [] then m0 @ '': '' @ output else m0)
      in case cause of
        Some e \<Rightarrow> app_wrap ''update.companion_incompatible'' ''runtime'' 1 m e
      | None \<Rightarrow> upd_error ''update.companion_incompatible'' m)"

definition drive9_help_output :: "os_env \<Rightarrow> string option \<Rightarrow> string list \<Rightarrow> string \<times> go_error option" where
  "drive9_help_output v prog args = (case oe_exec v prog args of (out, e) \<Rightarrow> (trim_space out, e))"

definition update_help_separator :: "char \<Rightarrow> bool" where
  "update_help_separator c \<longleftrightarrow> c \<in> {CHR ''<'', CHR ''>'', CHR ''|'', CHR '' '', CHR 0x09, CHR 0x0D, CHR 0x0A}"

definition drive9_help_has_token :: "string \<Rightarrow> string \<Rightarrow> bool" where
  "drive9_help_has_token help token \<longleftrightarrow> token \<in> set (fields_func update_help_separator [] help)"

definition drive9_help_has_flag :: "string \<Rightarrow> string \<Rightarrow> bool" where
  "drive9_help_has_flag help flag \<longleftrightarrow>
     list_ex (\<lambda>f. dropWhile (\<lambda>c. c = CHR ''-'') f = flag) (str_fields [] help)"

definition validate_drive9_companion :: "os_env \<Rightarrow> string option \<Rightarrow> go_error option" where
  "validate_drive9_companion v prog =
     (case drive9_help_output v prog [''fs'', ''layer'', ''help''] of
        (layer, Some e) \<Rightarrow> Some (incompatible_companion ''read filesystem layer command surface'' layer (Some e))
      | (layer, None) \<Rightarrow>
        (case find (\<lambda>c. \<not> drive9_help_has_token layer c) [''fork'', ''chain'', ''delete''] of
           Some c \<Rightarrow> Some (incompatible_companion (''missing `drive9 fs layer '' @ c @ ''`'') layer None)
         | None \<Rightarrow>
           (case drive9_help_output v prog [''mount'', ''--help''] of
              (mount, Some e) \<Rightarrow> Some (incompatible_companion ''read filesystem mount command surface'' mount (Some e))
            | (mount, None) \<Rightarrow>
              (case find (\<lambda>f. \<not> drive9_help_has_flag mount f) [''layer'', ''checkpoint''] of
                 Some f \<Rightarrow> Some (incompatible_companion (''missing `drive9 mount --'' @ f @ ''`'') mount None)
               | None \<Rightarrow>
                 (case drive9_help_output v prog [''exec'', ''--help''] of
                    (_, Some e) \<Rightarrow> Some (incompatible_companion ''missing `drive9 exec` Runtime command'' [] (Some e))
                  | (_, None) \<Rightarrow> None)))))"

text \<open>The verified bytes of the companion.\<close>

definition fetch_companion :: "net \<Rightarrow> string \<times> string \<Rightarrow> string \<Rightarrow> go_error + string" where
  "fetch_companion w host base0 =
     bind_result (drive9_artifact_name host (fst host) (snd host)) (\<lambda>name.
       let b1 = trim_right_slashes (trim_space base0); base = (if b1 = [] then drive9_release_base else b1) in
       bind_result (download w (base @ ''/'' @ drive9_checksum_asset_name)) (\<lambda>checksums.
       bind_result (checksum_for checksums name) (\<lambda>sha.
       bind_result (download w (base @ ''/'' @ name)) (\<lambda>data.
       (case verify_checksum (nt_sha256 w) data sha name of Some e \<Rightarrow> Inl e | None \<Rightarrow> Inr data)))))"

text \<open>The result is the path of the companion and the directory to clean up.\<close>

definition download_drive9_companion :: "os_env \<Rightarrow> net \<Rightarrow> os \<Rightarrow> string \<Rightarrow> os \<times> (go_error + string \<times> string)" where
  "download_drive9_companion v w s base =
     (case fetch_companion w (oe_host v) base of
        Inl e \<Rightarrow> (s, Inl e)
      | Inr data \<Rightarrow>
        (case os_mkdir_temp v s ''ti-drive9-update-'' of
           (s1, Inl e) \<Rightarrow> (s1, Inl (upd_wrap ''update.temp_dir'' ''create ti-drive9 update temp directory'' e))
         | (s1, Inr dir) \<Rightarrow>
           (let p = path_join [dir, companion_binary_name (oe_host v)] in
            case os_copy v s1 p data of
              (s2, Some e) \<Rightarrow> (os_remove_all v s2 dir,
                Inl (upd_wrap ''update.extract_artifact'' ''write temporary ti-drive9 binary'' e))
            | (s2, None) \<Rightarrow>
              (case os_call v s2 of
                 (s3, Some e) \<Rightarrow> (os_remove_all v s3 dir,
                   Inl (upd_wrap ''update.extract_artifact'' ''make ti-drive9 executable'' e))
               | (s3, None) \<Rightarrow>
                 (case validate_drive9_companion v (os_files s3 p) of
                    Some e \<Rightarrow> (os_remove_all v s3 dir, Inl e)
                  | None \<Rightarrow> (s3, Inr (p, dir)))))))"

section \<open>The update\<close>

record apply_options =
  ap_version :: string
  ap_dry_run :: bool
  ap_release_base :: string
  ap_drive9_base :: string
  ap_executable :: string

record apply_result =
  ar_current :: string
  ar_target :: string
  ar_updated :: bool
  ar_dry_run :: bool
  ar_source :: string
  ar_channel :: string
  ar_artifact :: string
  ar_download_url :: string
  ar_sha256 :: string
  ar_target_path :: string
  ar_release_url :: string
  ar_companion_path :: string
  ar_companion_updated :: bool

text \<open>What \<open>Apply\<close> decides before it changes anything.\<close>

definition plan_update :: "os_env \<Rightarrow> net \<Rightarrow> version_info \<Rightarrow> apply_options \<Rightarrow> go_error + apply_result" where
  "plan_update v w info opt =
     bind_result (executable_path v (ap_executable opt)) (\<lambda>target_path.
       let source = detect_install_source (vi_source info) target_path in
       if is_managed source then Inl (managed_install_error (is_name source))
       else if \<not> is_owned source then Inl (upd_error ''update.unknown_install''
         (Fmt ''ti install source %q is not owned by ti; reinstall with scripts/install.sh or scripts/install.ps1 before using ti update''
           [Lit (is_name source)]))
       else if fst (oe_host v) = ''windows'' \<and> \<not> ap_dry_run opt then Inl (upd_error ''update.unsupported_platform''
         (Lit ''ti update cannot safely replace the running Windows executable yet; rerun the PowerShell installer for the target version''))
       else
         let t0 = trim_space (ap_version opt); target = (if t0 = [] then ''latest'' else t0) in
         bind_result (fetch_release w (new_update_client w (ap_release_base opt)) target) (\<lambda>rel.
         if versions_equal (vi_version info) (release_version rel) then Inl (upd_error ''update.no_update_available''
           (Fmt ''The latest version of ti (%s) is already installed'' [Lit (vi_version info)]))
         else
         bind_result (artifact_name (oe_host v) (vi_os info) (vi_arch info)) (\<lambda>name.
         bind_result (release_asset rel name) (\<lambda>artifact.
         bind_result (release_asset rel checksum_asset_name) (\<lambda>checksums.
         bind_result (download w (snd checksums)) (\<lambda>checksum_bytes.
         bind_result (checksum_for checksum_bytes (fst artifact)) (\<lambda>sha.
         Inr \<lparr>ar_current = vi_version info, ar_target = release_version rel, ar_updated = False,
           ar_dry_run = ap_dry_run opt, ar_source = is_name source, ar_channel = release_channel info,
           ar_artifact = fst artifact, ar_download_url = snd artifact, ar_sha256 = sha,
           ar_target_path = target_path, ar_release_url = rl_url rel,
           ar_companion_path = companion_path_for_executable (oe_host v) (oe_self v) target_path,
           ar_companion_updated = False\<rparr>)))))))"

text \<open>The last steps: both programs staged, then the two replacements; the deferred removals of
  the staged files run on every way out.\<close>

definition install_both :: "os_env \<Rightarrow> os \<Rightarrow> string \<Rightarrow> string \<Rightarrow> string \<Rightarrow> string \<Rightarrow> os \<times> go_error option" where
  "install_both v s extracted target companion companion_target =
     (case stage_binary v s extracted target of
        (s1, Inl e) \<Rightarrow> (s1, Some e)
      | (s1, Inr staged) \<Rightarrow>
        (case stage_binary v s1 companion companion_target of
           (s2, Inl e) \<Rightarrow> (fst (os_remove v s2 staged), Some e)
         | (s2, Inr staged2) \<Rightarrow>
           (let clean = (\<lambda>s. fst (os_remove v (fst (os_remove v s staged2)) staged)) in
            case replace_binary v s2 staged target of
              (s3, Some e) \<Rightarrow> (clean s3, Some e)
            | (s3, None) \<Rightarrow>
              (case replace_file v s3 staged2 companion_target of
                 (s4, Some e) \<Rightarrow> (clean s4, Some e)
               | (s4, None) \<Rightarrow> (clean s4, None)))))"

definition apply_update :: "os_env \<Rightarrow> net \<Rightarrow> version_info \<Rightarrow> apply_options \<Rightarrow> os \<Rightarrow> os \<times> (go_error + apply_result)" where
  "apply_update v w info opt s =
     (case plan_update v w info opt of
        Inl e \<Rightarrow> (s, Inl e)
      | Inr r \<Rightarrow>
        if ap_dry_run opt then (s, Inr r)
        else
          (case is_target_writable v s (ar_target_path r) of
             (s1, Inl e) \<Rightarrow> (s1, Inl e)
           | (s1, Inr False) \<Rightarrow> (s1, Inl (upd_error ''update.permission_denied''
               (Fmt ''ti cannot update the protected installation at %s; rerun the installer to migrate to ~/.ti/bin''
                 [Lit (ar_target_path r)])))
           | (s1, Inr True) \<Rightarrow>
             (case download w (ar_download_url r) of
                Inl e \<Rightarrow> (s1, Inl e)
              | Inr archive \<Rightarrow>
                (case verify_checksum (nt_sha256 w) archive (ar_sha256 r) (ar_artifact r) of
                   Some e \<Rightarrow> (s1, Inl e)
                 | None \<Rightarrow>
                   (case extract_binary v s1 archive (ar_artifact r) of
                      (s2, Inl e) \<Rightarrow> (s2, Inl e)
                    | (s2, Inr (extracted, dir)) \<Rightarrow>
                      (case download_drive9_companion v w s2 (ap_drive9_base opt) of
                         (s3, Inl e) \<Rightarrow> (os_remove_all v s3 dir, Inl e)
                       | (s3, Inr (companion, dir2)) \<Rightarrow>
                         (case install_both v s3 extracted (ar_target_path r) companion
                             (companion_path_for_executable (oe_host v) (oe_self v) (ar_target_path r)) of
                            (s4, x) \<Rightarrow> (os_remove_all v (os_remove_all v s4 dir2) dir,
                              case x of Some e \<Rightarrow> Inl e
                              | None \<Rightarrow> Inr (r\<lparr>ar_updated := True, ar_companion_updated := True\<rparr>)))))))))"

section \<open>What the calls do to the files\<close>

lemma os_step_fields [simp]:
  "os_files (os_step s f) = f" "os_steps (os_step s f) = Suc (os_steps s)" "os_log (os_step s f) = os_files s # os_log s"
  by (simp_all add: os_step_def)

lemma os_rename_ok:
  "os_rename v s a b = (s', None) \<Longrightarrow> \<exists>c. os_files s a = Some c \<and> os_files s' = (os_files s)(a := None, b := Some c)"
  by (auto simp: os_rename_def split: option.splits)

lemma os_rename_failed: "os_rename v s a b = (s', Some e) \<Longrightarrow> os_files s' = os_files s"
  by (auto simp: os_rename_def split: option.splits)

lemma os_remove_files: "os_files (fst (os_remove v s p)) q = (if q = p then os_files (fst (os_remove v s p)) p else os_files s q)"
  by (auto simp: os_remove_def split: option.splits)

lemma os_remove_other: "q \<noteq> p \<Longrightarrow> os_files (fst (os_remove v s p)) q = os_files s q"
  using os_remove_files by metis

lemma os_remove_all_other: "\<not> in_tree d q \<Longrightarrow> os_files (os_remove_all v s d) q = os_files s q"
  by (auto simp: os_remove_all_def split: option.splits)

lemma os_call_files [simp]: "os_files (fst (os_call v s)) = os_files s"
  by (simp add: os_call_def)

lemma os_call_same: "os_call v s = (s', e) \<Longrightarrow> os_files s' = os_files s"
  by (auto simp: os_call_def)

lemma os_open_ok: "os_open v s p = (s', Inr c) \<Longrightarrow> os_files s' = os_files s \<and> os_files s p = Some c"
  by (auto simp: os_open_def split: option.splits)

lemma os_open_same: "os_open v s p = (s', r) \<Longrightarrow> os_files s' = os_files s"
  by (auto simp: os_open_def split: option.splits)

lemma os_create_temp_ok:
  "os_create_temp v s dir prefix = (s', Inr p) \<Longrightarrow>
     p = dir @ ''/'' @ prefix @ oe_random v (os_steps s) \<and> os_files s p = None \<and> os_files s' = (os_files s)(p := Some [])"
  by (auto simp: os_create_temp_def Let_def split: option.splits if_splits)

lemma os_create_temp_failed: "os_create_temp v s dir prefix = (s', Inl e) \<Longrightarrow> os_files s' = os_files s"
  by (auto simp: os_create_temp_def Let_def split: option.splits if_splits)

lemma os_copy_ok: "os_copy v s p d = (s', None) \<Longrightarrow> os_files s' = (os_files s)(p := Some d)"
  by (auto simp: os_copy_def split: option.splits)

lemma os_mkdir_temp_ok:
  "os_mkdir_temp v s prefix = (s', Inr d) \<Longrightarrow>
     d = oe_temp_dir v @ ''/'' @ prefix @ oe_random v (os_steps s) \<and> os_files s' = os_files s"
  by (auto simp: os_mkdir_temp_def Let_def split: option.splits)

lemma os_create_excl_ok: "os_create_excl v s p = (s', None) \<Longrightarrow> os_files s' = (os_files s)(p := Some [])"
  by (auto simp: os_create_excl_def split: option.splits if_splits)

lemma is_target_writable_ok:
  assumes "is_target_writable v s p = (s', Inr w)"
  shows "\<exists>c. os_files s p = Some c \<and> (\<forall>q. os_files s q \<noteq> None \<longrightarrow> os_files s' q = os_files s q)"
proof -
  obtain s1 c where o: "os_open v s p = (s1, Inr c)" and d: "\<not> oe_is_dir v p"
    using assms by (auto simp: is_target_writable_def split: prod.splits sum.splits if_splits)
  have f1: "os_files s1 = os_files s" "os_files s p = Some c" using os_open_ok [OF o] by auto
  show ?thesis
  proof (cases "os_create_temp v s1 (path_dir p) ''.ti-update-write-test-''")
    case (Pair s2 r)
    show ?thesis
    proof (cases r)
      case (Inl e)
      then have "s' = s2" using assms o d Pair by (auto simp: is_target_writable_def split: if_splits)
      then show ?thesis using os_create_temp_failed [of v s1 _ _ s2 e] Pair Inl f1 by auto
    next
      case (Inr name)
      note t = os_create_temp_ok [OF Pair [unfolded Inr]]
      have "s' = fst (os_remove v (fst (os_call v s2)) name)"
        using assms o d Pair Inr by (auto simp: is_target_writable_def split: prod.splits)
      then have "os_files s' q = os_files s q" if "q \<noteq> name" for q
        using that t f1 by (simp add: os_remove_other)
      then show ?thesis using t f1 by metis
    qed
  qed
qed

lemma stage_binary_ok:
  assumes "stage_binary v s source target = (s', Inr staged)"
  shows "\<exists>n. staged = path_dir target @ ''/'' @ ''.'' @ path_base target @ ''.update-'' @ oe_random v n
    \<and> os_files s staged = None \<and> os_files s' = (os_files s)(staged := os_files s source) \<and> os_files s source \<noteq> None"
proof -
  obtain s1 data where o: "os_open v s source = (s1, Inr data)"
    using assms by (auto simp: stage_binary_def split: prod.splits sum.splits)
  then obtain s2 st where t: "os_create_temp v s1 (path_dir target) (''.'' @ path_base target @ ''.update-'') = (s2, Inr st)"
    using assms by (auto simp: stage_binary_def split: prod.splits sum.splits)
  obtain s3 e3 where c3: "os_call v s2 = (s3, e3)" by force
  obtain s4 e4 where c4: "os_copy v s3 st data = (s4, e4)" by force
  obtain s5 e5 where c5: "os_call v s4 = (s5, e5)" by force
  obtain s6 e6 where c6: "os_call v s5 = (s6, e6)" by force
  have e: "e3 = None" "e4 = None" "e5 = None" "e6 = None" "staged = st" "s' = fst (os_call v s6)"
    using assms by (auto simp: stage_binary_def o t [simplified] c3 c4 c5 c6 Let_def split: option.splits)
  have "os_files s' = (os_files s)(st := Some data)"
    using os_call_same [OF c3] os_copy_ok [of v s3 st data s4] os_call_same [OF c5] os_call_same [OF c6]
      os_create_temp_ok [OF t] os_open_ok [OF o] c4 e by auto
  then show ?thesis
    using os_create_temp_ok [OF t] os_open_ok [OF o] e(5) by auto
qed

lemma extract_binary_ok:
  assumes "extract_binary v s archive artifact = (s', Inr (p, dir))"
  shows "\<exists>entries damage member data n. oe_archive v (has_suffix artifact ''.zip'') archive = Inr (entries, damage)
    \<and> find (\<lambda>e. path_base (fst e) = (if has_suffix artifact ''.zip'' then ''ti.exe'' else ''ti'')) entries = Some (member, Inr data)
    \<and> dir = oe_temp_dir v @ ''/'' @ ''ti-update-'' @ oe_random v n
    \<and> p = path_join [dir, if has_suffix artifact ''.zip'' then ''ti.exe'' else ''ti'']
    \<and> os_files s' = (os_files s)(p := Some data)"
proof -
  let ?z = "has_suffix artifact ''.zip''"
  let ?n = "if ?z then ''ti.exe'' else ''ti''"
  obtain s1 d where m: "os_mkdir_temp v s ''ti-update-'' = (s1, Inr d)"
    using assms by (auto simp: extract_binary_def split: prod.splits sum.splits)
  obtain s2 e2 where x: "extract_archive v s1 ?z archive ?n (path_join [d, ?n]) = (s2, e2)" by force
  obtain s3 e3 where c: "os_call v s2 = (s3, e3)" by force
  have e: "e2 = None" "e3 = None" "s' = s3" "p = path_join [d, ?n]" "dir = d"
    using assms unfolding extract_binary_def m Let_def by (auto simp: x c split: option.splits)
  obtain entries damage where a: "oe_archive v ?z archive = Inr (entries, damage)"
    using x e(1) by (auto simp: extract_archive_def split: sum.splits)
  obtain member data where f: "find (\<lambda>e. path_base (fst e) = ?n) entries = Some (member, Inr data)"
    and w: "write_extracted_binary v s1 (path_join [d, ?n]) data = (s2, None)"
    using x e(1) by (auto simp: extract_archive_def a split: option.splits prod.splits sum.splits)
  obtain sa sb where o: "os_create_excl v s1 (path_join [d, ?n]) = (sa, None)"
    and cp: "os_copy v sa (path_join [d, ?n]) data = (sb, None)" and s2: "s2 = fst (os_call v sb)"
    using w by (auto simp: write_extracted_binary_def split: prod.splits option.splits)
  have "os_files s' = (os_files s)(p := Some data)"
    using os_mkdir_temp_ok [OF m] os_create_excl_ok [OF o] os_copy_ok [OF cp] os_call_same [OF c] s2 e by auto
  then show ?thesis using a f os_mkdir_temp_ok [OF m] e by blast
qed

lemma download_companion_ok:
  assumes "download_drive9_companion v w s base = (s', Inr (p, dir))"
  shows "\<exists>data n. fetch_companion w (oe_host v) base = Inr data \<and> dir = oe_temp_dir v @ ''/'' @ ''ti-drive9-update-'' @ oe_random v n
    \<and> p = path_join [dir, companion_binary_name (oe_host v)] \<and> os_files s' = (os_files s)(p := Some data)
    \<and> validate_drive9_companion v (Some data) = None"
proof -
  obtain data where d: "fetch_companion w (oe_host v) base = Inr data"
    using assms by (auto simp: download_drive9_companion_def split: sum.splits)
  then obtain s1 t where m: "os_mkdir_temp v s ''ti-drive9-update-'' = (s1, Inr t)"
    using assms by (auto simp: download_drive9_companion_def split: prod.splits sum.splits)
  let ?p = "path_join [t, companion_binary_name (oe_host v)]"
  obtain s2 e2 where c: "os_copy v s1 ?p data = (s2, e2)" by force
  obtain s3 e3 where k: "os_call v s2 = (s3, e3)" by force
  have e: "e2 = None" "e3 = None" "s' = s3" "p = ?p" "dir = t" "validate_drive9_companion v (os_files s3 ?p) = None"
    using assms by (auto simp: download_drive9_companion_def d m c k Let_def split: option.splits)
  have f: "os_files s' = (os_files s)(p := Some data)"
    using os_mkdir_temp_ok [OF m] os_copy_ok [of v s1 ?p data s2] os_call_same [OF k] c e by auto
  then have "validate_drive9_companion v (Some data) = None" using e(3,4,6) by simp
  with f d os_mkdir_temp_ok [OF m] e show ?thesis by blast
qed

lemma replace_binary_ok:
  assumes "replace_binary v s new target = (s', None)" "new \<noteq> target" "new \<noteq> backup_path target"
  shows "\<exists>data. os_files s new = Some data \<and> snd (oe_exec v (Some data) [''--version'']) = None
    \<and> os_files s' target = Some data \<and> (\<forall>q. q \<notin> {target, new, backup_path target} \<longrightarrow> os_files s' q = os_files s q)
    \<and> os_files s' new = None"
proof -
  define s1 where "s1 = fst (os_remove v s (backup_path target))"
  obtain s2 where r1: "os_rename v s1 target (backup_path target) = (s2, None)"
    using assms(1) unfolding s1_def by (auto simp: replace_binary_def split: prod.splits option.splits)
  obtain s3 where r2: "os_rename v s2 new target = (s3, None)"
    and val: "validate_installed_binary v s3 target = None" and s': "s' = fst (os_remove v s3 (backup_path target))"
    using assms(1) r1 unfolding s1_def by (auto simp: replace_binary_def split: prod.splits option.splits)
  have bt: "backup_path target \<noteq> target" by (simp add: backup_path_def)
  obtain old data where f2: "os_files s2 = (os_files s1)(target := None, backup_path target := Some old)"
    and f3: "os_files s2 new = Some data" "os_files s3 = (os_files s2)(new := None, target := Some data)"
    using os_rename_ok [OF r1] os_rename_ok [OF r2] by blast
  have f1: "os_files s1 q = os_files s q" if "q \<noteq> backup_path target" for q
    using that by (simp add: s1_def os_remove_other)
  have f': "os_files s' q = os_files s3 q" if "q \<noteq> backup_path target" for q
    using that by (simp add: s' os_remove_other)
  have "snd (oe_exec v (Some data) [''--version'']) = None"
    using val f3 by (auto simp: validate_installed_binary_def split: prod.splits option.splits)
  moreover have "os_files s new = Some data" using f3(1) f2 f1 assms(2,3) by auto
  moreover have "os_files s' target = Some data" using f' [of target] f3(2) bt by auto
  moreover have "os_files s' q = os_files s q" if "q \<notin> {target, new, backup_path target}" for q
    using that f' [of q] f3(2) f2 f1 [of q] by auto
  moreover have "os_files s' new = None" using f' [of new] f3(2) assms(2,3) by auto
  ultimately show ?thesis by blast
qed

lemma replace_file_ok:
  assumes "replace_file v s source target = (s', None)" "source \<noteq> target" "source \<noteq> backup_path target"
  shows "os_files s source \<noteq> None \<and> os_files s' target = os_files s source
    \<and> (\<forall>q. q \<notin> {target, source, backup_path target} \<longrightarrow> os_files s' q = os_files s q)"
proof -
  define s1 where "s1 = fst (os_remove v s (backup_path target))"
  obtain s2 st where o: "os_open v s1 target = (s2, st)" by force
  have bt: "backup_path target \<noteq> target" by (simp add: backup_path_def)
  have f2: "os_files s2 q = os_files s q" if "q \<noteq> backup_path target" for q
    using that os_open_same [OF o] by (simp add: s1_def os_remove_other)
  show ?thesis
  proof (cases "is_ok st")
    case True
    obtain s3 s4 where r1: "os_rename v s2 target (backup_path target) = (s3, None)"
      and r2: "os_rename v s3 source target = (s4, None)" and s': "s' = fst (os_remove v s4 (backup_path target))"
      using assms(1) True o unfolding s1_def by (auto simp: replace_file_def split: prod.splits option.splits)
    obtain old data where "os_files s3 = (os_files s2)(target := None, backup_path target := Some old)"
      "os_files s3 source = Some data" "os_files s4 = (os_files s3)(source := None, target := Some data)"
      using os_rename_ok [OF r1] os_rename_ok [OF r2] by blast
    then show ?thesis
      using f2 assms(2,3) bt by (auto simp: s' os_remove_other)
  next
    case False
    then have r: "os_rename v s2 source target = (s', None)"
      using assms(1) o unfolding s1_def by (auto simp: replace_file_def split: prod.splits option.splits)
    then show ?thesis using os_rename_ok [OF r] f2 assms(2,3) by auto
  qed
qed

section \<open>Installing both programs\<close>

lemma staged_not_backup:
  assumes "rnd \<noteq> []" "list_all is_digit rnd"
  shows "x @ rnd \<noteq> backup_path t"
proof
  assume "x @ rnd = backup_path t"
  then have "last (x @ rnd) = CHR ''p''" by (simp add: backup_path_def)
  moreover have "is_digit (last (x @ rnd))" using assms by (auto simp: list_all_iff)
  ultimately show False by (simp add: is_digit_def byte_of_def)
qed

lemma staged_not_target:
  assumes "clean_list (ds @ [b])"
  shows "path_dir (abs_path (ds @ [b])) @ ''/'' @ ''.'' @ path_base (abs_path (ds @ [b])) @ x \<noteq> abs_path (ds @ [b])"
proof
  assume "path_dir (abs_path (ds @ [b])) @ ''/'' @ ''.'' @ path_base (abs_path (ds @ [b])) @ x = abs_path (ds @ [b])"
  then have "length (abs_path ds @ ''/'' @ ''.'' @ b @ x) = length (abs_path (ds @ [b]))"
    by (simp only: path_dir_abs [OF assms])
  then show False
    using abs_path_snoc_eq [of ds b] by (cases "ds = []") (simp_all add: abs_path_def)
qed

lemma staged_not_sibling:
  assumes "clean_list (ds @ [b])" "clean_list (ds @ [c])" "hd c \<noteq> CHR ''.''"
  shows "path_dir (abs_path (ds @ [b])) @ ''/'' @ ''.'' @ x \<noteq> abs_path (ds @ [c])"
proof (cases "ds = []")
  case True
  have c: "c \<noteq> []" "CHR ''/'' \<notin> set c" using assms(2) by (simp_all add: clean_list_def clean_comp_def)
  then have "hd c \<noteq> CHR ''/''" using hd_in_set [OF c(1)] by metis
  then show ?thesis using path_dir_abs(1) [OF assms(1)] True c by (cases c) (simp_all add: abs_path_def)
next
  case False
  then show ?thesis
    using path_dir_abs(1) [OF assms(1)] abs_path_snoc_eq [OF False, of c] assms(3) by auto
qed

lemma install_both_ok:
  assumes "install_both v s extracted target companion ctarget = (s', None)"
    and "os_files s target \<noteq> None" "\<And>n. oe_random v n \<noteq> [] \<and> list_all is_digit (oe_random v n)"
    and "clean_list (ds @ [c])" "ctarget = abs_path (ds @ [c])" "target \<noteq> ctarget" "target \<noteq> backup_path ctarget"
    and "target = abs_path (ds @ [b])" "clean_list (ds @ [b])" "hd c \<noteq> CHR ''.''"
    and "os_files s extracted = Some data" "os_files s companion = Some cdata"
  shows "os_files s' target = Some data \<and> snd (oe_exec v (Some data) [''--version'']) = None
    \<and> os_files s' ctarget = Some cdata"
proof -
  obtain s1 staged where st1: "stage_binary v s extracted target = (s1, Inr staged)"
    using assms(1) by (auto simp: install_both_def split: prod.splits sum.splits)
  then obtain s2 staged2 where st2: "stage_binary v s1 companion ctarget = (s2, Inr staged2)"
    using assms(1) by (auto simp: install_both_def split: prod.splits sum.splits)
  obtain s3 where rb: "replace_binary v s2 staged target = (s3, None)"
    using assms(1) by (auto simp: install_both_def st1 st2 Let_def split: prod.splits option.splits)
  obtain s4 where rf: "replace_file v s3 staged2 ctarget = (s4, None)"
    and s': "s' = fst (os_remove v (fst (os_remove v s4 staged2)) staged)"
    using assms(1) by (auto simp: install_both_def st1 st2 rb Let_def split: prod.splits option.splits)
  obtain n where n: "staged = path_dir target @ ''/'' @ ''.'' @ path_base target @ ''.update-'' @ oe_random v n"
    and f1: "os_files s staged = None" "os_files s1 = (os_files s)(staged := os_files s extracted)"
    using stage_binary_ok [OF st1] by blast
  obtain m where m: "staged2 = path_dir ctarget @ ''/'' @ ''.'' @ path_base ctarget @ ''.update-'' @ oe_random v m"
    and f2: "os_files s1 staged2 = None" "os_files s2 = (os_files s1)(staged2 := os_files s1 companion)"
    using stage_binary_ok [OF st2] by blast
  have nb: "staged \<noteq> backup_path t" "staged2 \<noteq> backup_path t" for t
    using staged_not_backup [of "oe_random v n" "path_dir target @ ''/'' @ ''.'' @ path_base target @ ''.update-''" t]
      staged_not_backup [of "oe_random v m" "path_dir ctarget @ ''/'' @ ''.'' @ path_base ctarget @ ''.update-''" t] assms(3)
    by (simp_all add: n m)
  have s1: "os_files s1 target \<noteq> None" "os_files s1 staged \<noteq> None"
    using f1 assms(2,11) by auto
  have nt: "staged \<noteq> target" "staged2 \<noteq> target" "staged2 \<noteq> staged" "companion \<noteq> staged"
    using f1(1) f2(1) s1 assms(2,12) by (metis option.distinct(1))+
  have nc: "staged2 \<noteq> ctarget"
    using staged_not_target [OF assms(4), of "''.update-'' @ oe_random v m"] by (simp add: m assms(5))
  have nsc: "staged \<noteq> ctarget"
    using staged_not_sibling [OF assms(9,4,10), of "path_base target @ ''.update-'' @ oe_random v n"]
    by (simp add: n assms(5,8))
  have src: "os_files s2 staged = Some data" "os_files s2 staged2 = Some cdata"
    using f1 f2 nt assms(11,12) by auto
  have r3: "os_files s3 target = Some data" "snd (oe_exec v (Some data) [''--version'']) = None"
    "os_files s3 staged2 = Some cdata"
    using replace_binary_ok [OF rb nt(1) nb(1)] src nt nb by auto
  have r4: "os_files s4 ctarget = Some cdata" "os_files s4 target = Some data"
    using replace_file_ok [OF rf nc nb(2)] r3 nt assms(6,7) by auto
  show ?thesis using r3(2) r4 nt nc s' nsc by (auto simp: os_remove_other)
qed

section \<open>What an update guarantees\<close>

lemma is_target_writable_keeps:
  assumes "is_target_writable v s p = (s', r)" "os_files s q \<noteq> None"
  shows "os_files s' q = os_files s q"
proof (cases r)
  case (Inr w)
  then show ?thesis using is_target_writable_ok assms by blast
next
  case (Inl e)
  obtain s1 o1 where o: "os_open v s p = (s1, o1)" by force
  note f = os_open_same [OF o]
  obtain s2 t where t: "os_create_temp v s1 (path_dir p) ''.ti-update-write-test-'' = (s2, t)" by force
  have "s' = s1 \<or> s' = s2 \<and> \<not> is_ok t"
    using assms(1) Inl o t by (auto simp: is_target_writable_def split: sum.splits prod.splits if_splits)
  then show ?thesis using f os_create_temp_failed [of v s1] t by (cases t) auto
qed

lemma write_extracted_other:
  "write_extracted_binary v s target data = (s', r) \<Longrightarrow> q \<noteq> target \<Longrightarrow> os_files s' q = os_files s q"
  by (auto simp: write_extracted_binary_def os_create_excl_def os_copy_def os_call_def
      split: option.splits prod.splits if_splits)

lemma extract_archive_other:
  assumes "extract_archive v s z archive name target = (s', r)" "q \<noteq> target"
  shows "os_files s' q = os_files s q"
  using assms write_extracted_other [OF _ assms(2)]
  by (auto simp: extract_archive_def split: sum.splits option.splits)

text \<open>Unpacking touches only a new directory below the one for temporary files.\<close>

lemma extract_binary_other:
  assumes "extract_binary v s archive artifact = (s', r)"
  shows "\<exists>n. let dir = oe_temp_dir v @ ''/'' @ ''ti-update-'' @ oe_random v n;
      name = (if has_suffix artifact ''.zip'' then ''ti.exe'' else ''ti'') in
    \<forall>q. \<not> in_tree dir q \<longrightarrow> q \<noteq> path_join [dir, name] \<longrightarrow> os_files s' q = os_files s q"
proof -
  let ?n = "if has_suffix artifact ''.zip'' then ''ti.exe'' else ''ti''"
  obtain s1 d where m: "os_mkdir_temp v s ''ti-update-'' = (s1, d)" by force
  have f1: "os_files s1 = os_files s" using m by (auto simp: os_mkdir_temp_def Let_def split: option.splits)
  show ?thesis
  proof (cases d)
    case (Inl e)
    then have "os_files s' = os_files s" using assms m f1 by (simp add: extract_binary_def)
    then show ?thesis by (simp add: Let_def)
  next
    case (Inr dir)
    have d: "dir = oe_temp_dir v @ ''/'' @ ''ti-update-'' @ oe_random v (os_steps s)"
      using os_mkdir_temp_ok m Inr by blast
    obtain s2 e2 where x: "extract_archive v s1 (has_suffix artifact ''.zip'') archive ?n (path_join [dir, ?n]) = (s2, e2)"
      by force
    have f2: "os_files s2 q = os_files s q" if "q \<noteq> path_join [dir, ?n]" for q
      using extract_archive_other [OF x that] f1 by simp
    obtain s3 e3 where c: "os_call v s2 = (s3, e3)" by force
    have f3: "os_files s3 = os_files s2" by (rule os_call_same [OF c])
    have "s' = os_remove_all v s2 dir \<or> s' = os_remove_all v s3 dir \<or> s' = s3"
      using assms unfolding extract_binary_def m Inr Let_def by (auto simp: x c split: option.splits)
    then have "os_files s' q = os_files s q" if "\<not> in_tree dir q" "q \<noteq> path_join [dir, ?n]" for q
      using f2 [OF that(2)] f3 os_remove_all_other [OF that(1)] by auto
    then show ?thesis unfolding Let_def d by blast
  qed
qed

text \<open>The paths of an ordinary installation: absolute and clean, the program not named like the
  companion, and not below the directory for temporary files.\<close>

definition usual_layout :: "os_env \<Rightarrow> string list \<Rightarrow> string list \<Rightarrow> string \<Rightarrow> bool" where
  "usual_layout v cs ds b \<longleftrightarrow>
     oe_temp_dir v = abs_path cs \<and> clean_list cs \<and> cs \<noteq> [] \<and> clean_list (ds @ [b])
     \<and> b \<notin> {''ti-drive9'', ''ti-drive9.ti-backup''}
     \<and> trim_space (abs_path (ds @ [b])) = abs_path (ds @ [b])
     \<and> \<not> in_tree (abs_path cs) (abs_path (ds @ [b])) \<and> \<not> in_tree (abs_path cs) (abs_path (ds @ [''ti-drive9'']))"

lemma plan_update_sound:
  assumes "plan_update v w info opt = Inr r"
  shows "\<exists>rel text url. fetch_release w (new_update_client w (ap_release_base opt))
        (if trim_space (ap_version opt) = [] then ''latest'' else trim_space (ap_version opt)) = Inr rel
     \<and> ar_target r = release_version rel \<and> \<not> versions_equal (vi_version info) (release_version rel)
     \<and> release_asset rel checksum_asset_name = Inr (checksum_asset_name, url) \<and> download w url = Inr text
     \<and> checksum_for text (ar_artifact r) = Inr (ar_sha256 r)
     \<and> release_asset rel (ar_artifact r) = Inr (ar_artifact r, ar_download_url r)"
    and "executable_path v (ap_executable opt) = Inr (ar_target_path r)"
    and "is_owned (detect_install_source (vi_source info) (ar_target_path r))"
    and "\<not> is_managed (detect_install_source (vi_source info) (ar_target_path r))"
    and "fst (oe_host v) = ''windows'' \<Longrightarrow> ap_dry_run opt"
proof -
  have fst_asset: "release_asset rel n = Inr a \<Longrightarrow> fst a = n" for rel n a
    by (auto simp: release_asset_def find_Some_iff split: option.splits)
  show "\<exists>rel text url. fetch_release w (new_update_client w (ap_release_base opt))
        (if trim_space (ap_version opt) = [] then ''latest'' else trim_space (ap_version opt)) = Inr rel
     \<and> ar_target r = release_version rel \<and> \<not> versions_equal (vi_version info) (release_version rel)
     \<and> release_asset rel checksum_asset_name = Inr (checksum_asset_name, url) \<and> download w url = Inr text
     \<and> checksum_for text (ar_artifact r) = Inr (ar_sha256 r)
     \<and> release_asset rel (ar_artifact r) = Inr (ar_artifact r, ar_download_url r)"
    using assms by (auto simp: plan_update_def Let_def split: if_splits) (metis fst_asset fst_conv)+
qed (use assms in \<open>auto simp: plan_update_def Let_def split: if_splits\<close>)

lemma in_tree_temp:
  assumes "\<not> in_tree t p" shows "\<not> in_tree (t @ ''/'' @ x) p"
proof
  assume "in_tree (t @ ''/'' @ x) p"
  then have "has_prefix p (t @ ''/'' @ x)" unfolding in_tree_def using has_prefix_tree_prefix by auto
  then obtain y where "p = t @ CHR ''/'' # y" by (auto simp: has_prefix_iff)
  then have "has_prefix p (tree_prefix t)" by (auto simp: tree_prefix_def has_prefix_iff has_suffix_iff)
  then show False using assms by (simp add: in_tree_def)
qed

lemma clean_temp_name:
  assumes "list_all is_digit rnd" "clean_comp pre" "pre = p # q" "p \<noteq> CHR ''.''"
  shows "clean_comp (pre @ rnd)"
proof -
  have "CHR ''/'' \<notin> set rnd" using assms(1) by (auto simp: list_all_iff is_digit_def byte_of_def)
  then show ?thesis using assms(2-4) by (auto simp: clean_comp_def)
qed

text \<open>An update that succeeds installed what the release it fetched lists; the property C3 adds
  what happens with other bytes.\<close>

lemma apply_update_installs:
  assumes "apply_update v w info opt s = (s', Inr r)" "\<not> ap_dry_run opt"
    and "\<And>n. oe_random v n \<noteq> [] \<and> list_all is_digit (oe_random v n)"
    and "usual_layout v cs ds b" "executable_path v (ap_executable opt) = Inr (abs_path (ds @ [b]))"
  shows "\<exists>rel text url archive entries damage member data cdata.
      fetch_release w (new_update_client w (ap_release_base opt))
        (if trim_space (ap_version opt) = [] then ''latest'' else trim_space (ap_version opt)) = Inr rel
      \<and> ar_target r = release_version rel
      \<and> release_asset rel checksum_asset_name = Inr (checksum_asset_name, url) \<and> download w url = Inr text
      \<and> checksum_for text (ar_artifact r) = Inr (ar_sha256 r)
      \<and> release_asset rel (ar_artifact r) = Inr (ar_artifact r, ar_download_url r)
      \<and> download w (ar_download_url r) = Inr archive
      \<and> to_lower (hex_encode (nt_sha256 w archive)) = to_lower (ar_sha256 r)
      \<and> oe_archive v (has_suffix (ar_artifact r) ''.zip'') archive = Inr (entries, damage)
      \<and> find (\<lambda>e. path_base (fst e) = (if has_suffix (ar_artifact r) ''.zip'' then ''ti.exe'' else ''ti'')) entries
          = Some (member, Inr data)
      \<and> os_files s' (abs_path (ds @ [b])) = Some data \<and> snd (oe_exec v (Some data) [''--version'']) = None
      \<and> fetch_companion w (oe_host v) (ap_drive9_base opt) = Inr cdata
      \<and> validate_drive9_companion v (Some cdata) = None
      \<and> os_files s' (abs_path (ds @ [''ti-drive9''])) = Some cdata"
proof -
  let ?t = "abs_path (ds @ [b])" and ?c = "abs_path (ds @ [''ti-drive9''])"
  have lay: "oe_temp_dir v = abs_path cs" "clean_list cs" "cs \<noteq> []" "clean_list (ds @ [b])"
    "b \<noteq> ''ti-drive9''" "b \<noteq> ''ti-drive9.ti-backup''" "trim_space ?t = ?t"
    "\<not> in_tree (abs_path cs) ?t" "\<not> in_tree (abs_path cs) ?c"
    using assms(4) by (auto simp: usual_layout_def)
  obtain r0 where p: "plan_update v w info opt = Inr r0"
    using assms(1) by (auto simp: apply_update_def split: sum.splits)
  have tp: "ar_target_path r0 = ?t" using plan_update_sound(2) [OF p] assms(5) by simp
  have host: "fst (oe_host v) \<noteq> ''windows''" using plan_update_sound(5) [OF p] assms(2) by blast
  obtain s1 where w1: "is_target_writable v s ?t = (s1, Inr True)"
    using assms(1,2) tp by (auto simp: apply_update_def p split: prod.splits sum.splits bool.splits)
  obtain archive where a: "download w (ar_download_url r0) = Inr archive"
    using assms(1,2) tp by (auto simp: apply_update_def p w1 split: sum.splits)
  have sha: "verify_checksum (nt_sha256 w) archive (ar_sha256 r0) (ar_artifact r0) = None"
    using assms(1,2) tp by (auto simp: apply_update_def p w1 a split: option.splits)
  obtain s2 ex dir where x: "extract_binary v s1 archive (ar_artifact r0) = (s2, Inr (ex, dir))"
    using assms(1,2) tp by (auto simp: apply_update_def p w1 a sha split: prod.splits sum.splits)
  obtain s3 co dir2 where d: "download_drive9_companion v w s2 (ap_drive9_base opt) = (s3, Inr (co, dir2))"
    using assms(1,2) tp by (auto simp: apply_update_def p w1 a sha x split: prod.splits sum.splits)
  let ?ct = "companion_path_for_executable (oe_host v) (oe_self v) ?t"
  obtain s4 where i: "install_both v s3 ex ?t co ?ct = (s4, None)"
    and s': "s' = os_remove_all v (os_remove_all v s4 dir2) dir" and r: "r = r0\<lparr>ar_updated := True, ar_companion_updated := True\<rparr>"
    using assms(1,2) tp by (auto simp: apply_update_def p w1 a sha x d split: prod.splits option.splits)
  have cl: "clean_list (ds @ [''ti-drive9''])" "clean_list ds" using lay(4) by (simp_all add: clean_list_def clean_comp_def)
  have ct: "?ct = ?c"
    using host lay(7) path_dir_abs(1) [OF lay(4)] path_join_dir [OF cl(1), of "abs_path ds"]
    by (simp add: companion_path_for_executable_def companion_binary_name_def Let_def)
  have ne: "?t \<noteq> ?c" using abs_path_inj [OF lay(4) cl(1)] lay(5) by auto
  have cb: "backup_path ?c = abs_path (ds @ [''ti-drive9.ti-backup''])"
    using abs_path_snoc_eq [of ds] by (cases "ds = []") (simp_all add: backup_path_def abs_path_def)
  have clb: "clean_list (ds @ [''ti-drive9.ti-backup''])" using cl(2) by (simp add: clean_list_def clean_comp_def)
  have nb: "?t \<noteq> backup_path ?c" using abs_path_inj [OF lay(4) clb] lay(6) unfolding cb by auto
  obtain old where old: "os_files s ?t = Some old" "os_files s1 ?t = Some old"
    using is_target_writable_ok [OF w1] by auto
  let ?n = "if has_suffix (ar_artifact r0) ''.zip'' then ''ti.exe'' else ''ti''"
  obtain entries damage member data n where e: "oe_archive v (has_suffix (ar_artifact r0) ''.zip'') archive = Inr (entries, damage)"
    "find (\<lambda>e. path_base (fst e) = ?n) entries = Some (member, Inr data)"
    "dir = oe_temp_dir v @ ''/'' @ ''ti-update-'' @ oe_random v n" "ex = path_join [dir, ?n]"
    "os_files s2 = (os_files s1)(ex := Some data)"
    using extract_binary_ok [OF x] by blast
  obtain cdata m where c: "fetch_companion w (oe_host v) (ap_drive9_base opt) = Inr cdata"
    "dir2 = oe_temp_dir v @ ''/'' @ ''ti-drive9-update-'' @ oe_random v m"
    "co = path_join [dir2, companion_binary_name (oe_host v)]" "os_files s3 = (os_files s2)(co := Some cdata)"
    "validate_drive9_companion v (Some cdata) = None"
    using download_companion_ok [OF d] by blast
  have dg: "list_all is_digit (oe_random v k)" for k using assms(3) by blast
  have n1: "clean_comp (''ti-update-'' @ oe_random v n)"
    by (rule clean_temp_name [OF dg _ refl]) (simp_all add: clean_comp_def)
  have n2: "clean_comp (''ti-drive9-update-'' @ oe_random v m)"
    by (rule clean_temp_name [OF dg _ refl]) (simp_all add: clean_comp_def)
  have dirs: "dir = abs_path (cs @ [''ti-update-'' @ oe_random v n])" "dir2 = abs_path (cs @ [''ti-drive9-update-'' @ oe_random v m])"
    using abs_path_snoc_eq [OF lay(3)] lay(1) by (simp_all add: e(3) c(2))
  have cls: "clean_list ((cs @ [''ti-update-'' @ oe_random v n]) @ [?n])"
    "clean_list ((cs @ [''ti-drive9-update-'' @ oe_random v m]) @ [''ti-drive9''])"
    using lay(2) n1 n2 by (auto simp: clean_list_def clean_comp_def)
  have exp: "ex = abs_path ((cs @ [''ti-update-'' @ oe_random v n]) @ [?n])"
    "co = abs_path ((cs @ [''ti-drive9-update-'' @ oe_random v m]) @ [''ti-drive9''])"
    using path_join_dir [OF cls(1) _ dirs(1)] path_join_dir [OF cls(2) _ dirs(2)] host
    by (simp_all add: e(4) c(3) companion_binary_name_def)
  have "?n \<noteq> ''ti-drive9''" by simp
  then have exco: "ex \<noteq> co" using abs_path_inj [OF cls] exp by auto
  have "os_files s3 ?t \<noteq> None" using old(2) e(5) c(4) by auto
  moreover have "os_files s3 ex = Some data" "os_files s3 co = Some cdata" using exco e(5) c(4) by auto
  ultimately have fin: "os_files s4 ?t = Some data \<and> snd (oe_exec v (Some data) [''--version'']) = None \<and> os_files s4 ?c = Some cdata"
    using install_both_ok [OF i [unfolded ct] _ assms(3) cl(1) refl ne nb refl lay(4)] by auto
  have "os_files s' q = os_files s4 q" if "\<not> in_tree (abs_path cs) q" for q
    using in_tree_temp [OF that] lay(1) by (simp add: s' os_remove_all_other e(3) c(2))
  then have "os_files s' ?t = Some data" "os_files s' ?c = Some cdata" using fin lay(8,9) by auto
  moreover have "to_lower (hex_encode (nt_sha256 w archive)) = to_lower (ar_sha256 r0)"
    using sha by (simp add: verify_checksum_def split: if_splits)
  moreover have "ar_artifact r = ar_artifact r0" "ar_sha256 r = ar_sha256 r0" "ar_download_url r = ar_download_url r0"
    "ar_target r = ar_target r0" by (simp_all add: r)
  ultimately show ?thesis
    using plan_update_sound(1) [OF p] a e(1,2) c(1,5) fin by auto
qed

text \<open>Bytes with another checksum than the listed one: of the archive, or of the companion, whose
  download fails then.\<close>

definition wrong_checksum :: "os_env \<Rightarrow> net \<Rightarrow> version_info \<Rightarrow> apply_options \<Rightarrow> bool" where
  "wrong_checksum v w info opt \<longleftrightarrow>
     (case plan_update v w info opt of
        Inl _ \<Rightarrow> False
      | Inr r \<Rightarrow> (case download w (ar_download_url r) of
          Inl _ \<Rightarrow> False
        | Inr archive \<Rightarrow> to_lower (hex_encode (nt_sha256 w archive)) \<noteq> to_lower (ar_sha256 r)))
     \<or> \<not> is_ok (fetch_companion w (oe_host v) (ap_drive9_base opt))"

lemma wrong_checksum_fails:
  assumes "apply_update v w info opt s = (s', res)" "\<not> ap_dry_run opt" "wrong_checksum v w info opt"
  shows "\<not> is_ok res"
proof
  assume "is_ok res"
  then obtain r where r: "apply_update v w info opt s = (s', Inr r)" using assms(1) by (cases res) auto
  obtain r0 where p: "plan_update v w info opt = Inr r0"
    using r by (auto simp: apply_update_def split: sum.splits)
  obtain s1 where w1: "is_target_writable v s (ar_target_path r0) = (s1, Inr True)"
    using r assms(2) by (auto simp: apply_update_def p split: prod.splits sum.splits bool.splits)
  obtain archive where a: "download w (ar_download_url r0) = Inr archive"
    using r assms(2) by (auto simp: apply_update_def p w1 split: sum.splits)
  have sha: "verify_checksum (nt_sha256 w) archive (ar_sha256 r0) (ar_artifact r0) = None"
    using r assms(2) by (auto simp: apply_update_def p w1 a split: option.splits)
  obtain s2 x where x: "extract_binary v s1 archive (ar_artifact r0) = (s2, Inr x)"
    using r assms(2) by (auto simp: apply_update_def p w1 a sha split: prod.splits sum.splits)
  obtain s3 c where "download_drive9_companion v w s2 (ap_drive9_base opt) = (s3, Inr c)"
    using r assms(2) by (auto simp: apply_update_def p w1 a sha x split: prod.splits sum.splits)
  then have "is_ok (fetch_companion w (oe_host v) (ap_drive9_base opt))"
    by (auto simp: download_drive9_companion_def split: sum.splits)
  then show False
    using assms(3) sha by (auto simp: wrong_checksum_def p a verify_checksum_def split: if_splits)
qed

lemma wrong_checksum_keeps:
  assumes "apply_update v w info opt s = (s', res)" "\<not> ap_dry_run opt" "wrong_checksum v w info opt"
    and rnd: "\<And>n. oe_random v n \<noteq> [] \<and> list_all is_digit (oe_random v n)"
    and lay: "oe_temp_dir v = abs_path cs" "clean_list cs" "cs \<noteq> []"
    and q: "os_files s q \<noteq> None" "\<not> in_tree (abs_path cs) q"
  shows "os_files s' q = os_files s q"
proof (cases "plan_update v w info opt")
  case (Inl e)
  then show ?thesis using assms(1) by (simp add: apply_update_def)
next
  case (Inr r)
  note p = Inr
  obtain s1 wr where w1: "is_target_writable v s (ar_target_path r) = (s1, wr)" by force
  have f1: "os_files s1 q = os_files s q" by (rule is_target_writable_keeps [OF w1 q(1)])
  show ?thesis
  proof (cases "wr = Inr True \<and> (\<exists>archive. download w (ar_download_url r) = Inr archive
      \<and> verify_checksum (nt_sha256 w) archive (ar_sha256 r) (ar_artifact r) = None)")
    case False
    then have "s' = s1"
      using assms(1,2) by (auto simp: apply_update_def p w1 split: sum.splits bool.splits option.splits)
    then show ?thesis using f1 by simp
  next
    case True
    then obtain archive where a: "download w (ar_download_url r) = Inr archive"
      "verify_checksum (nt_sha256 w) archive (ar_sha256 r) (ar_artifact r) = None" and wr: "wr = Inr True" by blast
    then obtain e where e: "fetch_companion w (oe_host v) (ap_drive9_base opt) = Inl e"
      using assms(3) p by (cases "fetch_companion w (oe_host v) (ap_drive9_base opt)")
        (auto simp: wrong_checksum_def verify_checksum_def split: if_splits)
    obtain s2 x where x: "extract_binary v s1 archive (ar_artifact r) = (s2, x)" by force
    let ?n = "if has_suffix (ar_artifact r) ''.zip'' then ''ti.exe'' else ''ti''"
    obtain n where n: "\<And>q. \<not> in_tree (oe_temp_dir v @ ''/'' @ ''ti-update-'' @ oe_random v n) q \<Longrightarrow>
        q \<noteq> path_join [oe_temp_dir v @ ''/'' @ ''ti-update-'' @ oe_random v n, ?n] \<Longrightarrow> os_files s2 q = os_files s1 q"
      using extract_binary_other [OF x] unfolding Let_def by blast
    let ?c = "''ti-update-'' @ oe_random v n"
    have cn: "clean_comp ?c" using rnd [of n] by (intro clean_temp_name [OF _ _ refl]) (simp_all add: clean_comp_def)
    have dir: "oe_temp_dir v @ ''/'' @ ?c = abs_path (cs @ [?c])" using abs_path_snoc_eq [OF lay(3)] lay(1) by simp
    have cl: "clean_list ((cs @ [?c]) @ [?n])" using lay(2) cn by (auto simp: clean_list_def clean_comp_def)
    have "path_join [oe_temp_dir v @ ''/'' @ ?c, ?n] = abs_path ((cs @ [?c]) @ [?n])"
      using path_join_dir [OF cl _ dir] by simp
    also have "\<dots> = abs_path cs @ ''/'' @ ?c @ ''/'' @ ?n"
      using abs_path_snoc_eq [of "cs @ [?c]"] abs_path_snoc_eq [OF lay(3)] by simp
    finally have j: "path_join [oe_temp_dir v @ ''/'' @ ?c, ?n] = abs_path cs @ ''/'' @ ?c @ ''/'' @ ?n" .
    have "in_tree (abs_path cs) (abs_path cs @ ''/'' @ ?c @ ''/'' @ ?n)"
      by (auto simp: in_tree_def tree_prefix_def has_prefix_iff has_suffix_iff)
    then have f2: "os_files s2 q = os_files s q"
      using n [of q] q(2) in_tree_temp [OF q(2)] f1 j lay(1) by (metis append_assoc)
    have "s' = s2 \<or> (\<exists>ex d. x = Inr (ex, d) \<and> s' = os_remove_all v s2 d)"
      using assms(1,2) by (auto simp: apply_update_def p w1 wr a x e download_drive9_companion_def
          split: sum.splits prod.splits)
    moreover have "os_files (os_remove_all v s2 d) q = os_files s2 q" if h: "x = Inr (ex, d)" for ex d
    proof -
      obtain k where "d = oe_temp_dir v @ ''/'' @ ''ti-update-'' @ oe_random v k"
        using extract_binary_ok [OF x [unfolded h]] by blast
      then show ?thesis using in_tree_temp [OF q(2)] lay(1) by (simp add: os_remove_all_other)
    qed
    ultimately show ?thesis using f2 by auto
  qed
qed

text \<open>C3: What an update installs is what was verified.  In an installation of the usual layout,
  with random names of digits, an update that is not a dry run and reports success has at the
  target path the program packed in the archive that the release it fetched names for this
  platform, whose SHA-256 is the one that the checksum file of the same release lists, and which
  has run its version check; beside it is the companion as fetched with its listed checksum,
  which passed its checks.  When the checksum of the archive is wrong, or the companion cannot
  be fetched with its checksum, the update fails and no file outside the directory for
  temporary files changes.\<close>

theorem update_installs_verified:
  assumes "apply_update v w info opt s = (s', res)" "\<not> ap_dry_run opt"
    and "\<And>n. oe_random v n \<noteq> [] \<and> list_all is_digit (oe_random v n)"
    and "usual_layout v cs ds b" "executable_path v (ap_executable opt) = Inr (abs_path (ds @ [b]))"
  shows "(case res of
      Inl _ \<Rightarrow> True
    | Inr r \<Rightarrow> \<exists>rel text url archive entries damage member data cdata.
      fetch_release w (new_update_client w (ap_release_base opt))
        (if trim_space (ap_version opt) = [] then ''latest'' else trim_space (ap_version opt)) = Inr rel
      \<and> ar_target r = release_version rel
      \<and> release_asset rel checksum_asset_name = Inr (checksum_asset_name, url) \<and> download w url = Inr text
      \<and> checksum_for text (ar_artifact r) = Inr (ar_sha256 r)
      \<and> release_asset rel (ar_artifact r) = Inr (ar_artifact r, ar_download_url r)
      \<and> download w (ar_download_url r) = Inr archive
      \<and> to_lower (hex_encode (nt_sha256 w archive)) = to_lower (ar_sha256 r)
      \<and> oe_archive v (has_suffix (ar_artifact r) ''.zip'') archive = Inr (entries, damage)
      \<and> find (\<lambda>e. path_base (fst e) = (if has_suffix (ar_artifact r) ''.zip'' then ''ti.exe'' else ''ti'')) entries
          = Some (member, Inr data)
      \<and> os_files s' (abs_path (ds @ [b])) = Some data \<and> snd (oe_exec v (Some data) [''--version'']) = None
      \<and> fetch_companion w (oe_host v) (ap_drive9_base opt) = Inr cdata
      \<and> validate_drive9_companion v (Some cdata) = None
      \<and> os_files s' (abs_path (ds @ [''ti-drive9''])) = Some cdata)
    \<and> (wrong_checksum v w info opt \<longrightarrow> \<not> is_ok res \<and>
        (\<forall>q. os_files s q \<noteq> None \<longrightarrow> \<not> in_tree (abs_path cs) q \<longrightarrow> os_files s' q = os_files s q))"
proof (cases res)
  case (Inl e)
  have lay: "oe_temp_dir v = abs_path cs" "clean_list cs" "cs \<noteq> []"
    using assms(4) by (simp_all add: usual_layout_def)
  show ?thesis
    using wrong_checksum_keeps [OF assms(1,2) _ assms(3) lay] by (auto simp: Inl)
next
  case (Inr r)
  have "\<not> wrong_checksum v w info opt" using wrong_checksum_fails [OF assms(1,2)] by (auto simp: Inr)
  then show ?thesis
    using apply_update_installs [OF assms(1) [unfolded Inr] assms(2-5)]
    unfolding Inr sum.case by (intro conjI) simp_all
qed

text \<open>A machine and a network for the examples: an installation in \<open>/o/bin\<close>, an archive whose bytes
  name its contents, a hash that is constant.\<close>

definition demo_help :: "string list \<Rightarrow> string" where
  "demo_help args = (if args = [''fs'', ''layer'', ''help''] then ''fork|chain|delete'' else ''--layer --checkpoint'')"

definition demo_env :: "(nat \<Rightarrow> go_error option) \<Rightarrow> os_env" where
  "demo_env fails = \<lparr>oe_fail = fails, oe_random = (\<lambda>_. ''7''), oe_partial = (\<lambda>_. 0), oe_temp_dir = ''/tmp'',
     oe_is_dir = (\<lambda>_. False), oe_host = (''linux'', ''amd64''), oe_self = Inr ''/o/bin/ti'',
     oe_eval_links = Inr, oe_exec = (\<lambda>_ args. (demo_help args, None)),
     oe_archive = (\<lambda>_ _. Inr ([(''ti'', Inr ''new ti'')], None))\<rparr>"

definition demo_release :: release where
  "demo_release = \<lparr>rl_tag = ''v1.2.3'', rl_url = ''u'',
     rl_assets = [(''ti_linux_amd64.tar.gz'', ''a''), (''ti_checksums.txt'', ''s'')]\<rparr>"

definition demo_sums :: string where
  "demo_sums = replicate 64 (CHR ''0'') @ ''  ti_linux_amd64.tar.gz'' @ [CHR 0x0A] @ replicate 64 (CHR ''0'') @ ''  drive9-linux-amd64''"

definition demo_net :: net where
  "demo_net = \<lparr>nt_build = (\<lambda>_. None),
     nt_get = (\<lambda>url. Inr \<lparr>ha_status = 200, ha_status_text = ''200 OK'',
        ha_body = (if url = ''s'' \<or> url = ''https://drive9.ai/releases/checksums.txt'' then demo_sums else ''bytes''), ha_body_error = None\<rparr>),
     nt_decode = (\<lambda>_. Inr demo_release), nt_env_base = [], nt_sha256 = (\<lambda>_. replicate 32 (CHR 0x00))\<rparr>"

definition demo_info :: version_info where
  "demo_info = \<lparr>vi_version = ''1.2.2'', vi_os = ''linux'', vi_arch = ''amd64'', vi_source = ''script'', vi_channel = ''stable''\<rparr>"

definition demo_options :: apply_options where
  "demo_options = \<lparr>ap_version = [], ap_dry_run = False, ap_release_base = [], ap_drive9_base = [], ap_executable = []\<rparr>"

definition demo_os :: os where
  "demo_os = \<lparr>os_files = [''/o/bin/ti'' \<mapsto> ''old ti''], os_steps = 0, os_log = []\<rparr>"

lemma demo_env_fields [simp]:
  "oe_fail (demo_env f) = f" "oe_random (demo_env f) n = ''7''" "oe_temp_dir (demo_env f) = ''/tmp''"
  "oe_is_dir (demo_env f) p = False" "oe_host (demo_env f) = (''linux'', ''amd64'')"
  "oe_self (demo_env f) = Inr ''/o/bin/ti''" "oe_exec (demo_env f) x args = (demo_help args, None)"
  "oe_archive (demo_env f) z a = Inr ([(''ti'', Inr ''new ti'')], None)" "oe_partial (demo_env f) n = 0"
  "oe_eval_links (demo_env f) p = Inr p"
  by (simp_all add: demo_env_def)

lemma demo_options_fields [simp]: "ap_dry_run demo_options = False" "ap_drive9_base demo_options = []"
  by (simp_all add: demo_options_def)

lemma demo_random: "oe_random (demo_env fails) n \<noteq> [] \<and> list_all is_digit (oe_random (demo_env fails) n)"
  by (simp add: is_digit_def byte_of_def)


lemma demo_paths:
  "path_dir ''/o/bin/ti'' = ''/o/bin''" "path_base ''/o/bin/ti'' = ''ti''"
  "path_dir ''/o/bin/ti-drive9'' = ''/o/bin''" "path_base ''/o/bin/ti-drive9'' = ''ti-drive9''"
  "path_join [''/tmp/ti-update-7'', ''ti''] = ''/tmp/ti-update-7/ti''"
  "path_join [''/tmp/ti-drive9-update-7'', ''ti-drive9''] = ''/tmp/ti-drive9-update-7/ti-drive9''"
  "companion_path_for_executable (''linux'', ''amd64'') (Inr ''/o/bin/ti'') ''/o/bin/ti'' = ''/o/bin/ti-drive9''"
  "path_base ''ti'' = ''ti''" "has_suffix ''ti_linux_amd64.tar.gz'' ''.zip'' = False"
  by code_simp+

lemma demo_companion: "fetch_companion demo_net (''linux'', ''amd64'') [] = Inr ''bytes''"
  by code_simp

definition demo_plan :: apply_result where
  "demo_plan = \<lparr>ar_current = ''1.2.2'', ar_target = ''1.2.3'', ar_updated = False, ar_dry_run = False,
     ar_source = ''script'', ar_channel = ''stable'', ar_artifact = ''ti_linux_amd64.tar.gz'', ar_download_url = ''a'',
     ar_sha256 = replicate 64 (CHR ''0''), ar_target_path = ''/o/bin/ti'', ar_release_url = ''u'',
     ar_companion_path = ''/o/bin/ti-drive9'', ar_companion_updated = False\<rparr>"

lemma demo_planned: "plan_update (demo_env fails) demo_net demo_info demo_options = Inr demo_plan"
  by code_simp

lemma demo_download: "download demo_net ''a'' = Inr ''bytes''"
  by code_simp

lemma demo_verified: "verify_checksum (nt_sha256 demo_net) ''bytes'' (replicate 64 (CHR ''0'')) x = None"
  unfolding verify_checksum_def by code_simp

lemma demo_validated: "validate_drive9_companion (demo_env fails) x = None"
  by code_simp

lemmas demo_calls = is_target_writable_def os_open_def os_create_temp_def os_call_def os_remove_def
  extract_binary_def extract_archive_def write_extracted_binary_def os_create_excl_def os_copy_def os_mkdir_temp_def
  download_drive9_companion_def install_both_def stage_binary_def replace_binary_def replace_file_def
  os_rename_def validate_installed_binary_def backup_path_def put_back_def

lemma demo_runs:
  "is_ok (snd (apply_update (demo_env (\<lambda>_. None)) demo_net demo_info demo_options demo_os))"
  by (simp add: apply_update_def demo_planned demo_plan_def demo_download demo_verified demo_companion
      demo_validated demo_os_def demo_calls demo_paths Let_def companion_binary_name_def)

theorem update_installs_verified_witness:
  "\<exists>s' r. apply_update (demo_env (\<lambda>_. None)) demo_net demo_info demo_options demo_os = (s', Inr r)
     \<and> os_files s' ''/o/bin/ti'' = Some ''new ti'' \<and> os_files s' ''/o/bin/ti-drive9'' = Some ''bytes''
     \<and> os_files (fst (apply_update (demo_env (\<lambda>_. None)) (demo_net\<lparr>nt_sha256 := \<lambda>_. replicate 32 (CHR 0x01)\<rparr>)
         demo_info demo_options demo_os)) ''/o/bin/ti'' = Some ''old ti''"
proof -
  let ?v = "demo_env (\<lambda>_. None)"
  obtain s' r where a: "apply_update ?v demo_net demo_info demo_options demo_os = (s', Inr r)"
    using demo_runs by (cases "apply_update ?v demo_net demo_info demo_options demo_os"; cases "snd (apply_update ?v demo_net demo_info demo_options demo_os)") auto
  have p: "abs_path ([''o'', ''bin''] @ [''ti'']) = ''/o/bin/ti''" "abs_path ([''o'', ''bin''] @ [''ti-drive9'']) = ''/o/bin/ti-drive9''"
    by code_simp+
  have lay: "usual_layout ?v [''tmp''] [''o'', ''bin''] ''ti''"
    unfolding usual_layout_def by simp code_simp
  have x: "executable_path ?v (ap_executable demo_options) = Inr (abs_path ([''o'', ''bin''] @ [''ti'']))"
    by code_simp
  obtain cdata data member entries damage archive where e:
    "fetch_companion demo_net (oe_host ?v) (ap_drive9_base demo_options) = Inr cdata"
    "os_files s' (abs_path ([''o'', ''bin''] @ [''ti-drive9''])) = Some cdata"
    "os_files s' (abs_path ([''o'', ''bin''] @ [''ti''])) = Some data"
    "find (\<lambda>e. path_base (fst e) = (if has_suffix (ar_artifact r) ''.zip'' then ''ti.exe'' else ''ti'')) entries = Some (member, Inr data)"
    "oe_archive ?v (has_suffix (ar_artifact r) ''.zip'') archive = Inr (entries, damage)"
    using update_installs_verified [OF a _ demo_random lay x, unfolded sum.case] demo_options_fields(1) by blast
  have "cdata = ''bytes''" using e(1) by (simp add: demo_companion)
  moreover have "data = ''new ti''" using e(4,5) by (auto split: if_splits)
  ultimately have ok: "os_files s' ''/o/bin/ti'' = Some ''new ti''" "os_files s' ''/o/bin/ti-drive9'' = Some ''bytes''"
    using e(2,3) unfolding p by simp_all
  let ?w = "demo_net\<lparr>nt_sha256 := \<lambda>_. replicate 32 (CHR 0x01)\<rparr>"
  obtain s2 r2 where a2: "apply_update ?v ?w demo_info demo_options demo_os = (s2, r2)" by force
  have "wrong_checksum ?v ?w demo_info demo_options" by code_simp
  moreover have "\<not> in_tree (abs_path [''tmp'']) ''/o/bin/ti''" by code_simp
  ultimately have "os_files s2 ''/o/bin/ti'' = os_files demo_os ''/o/bin/ti''"
    using update_installs_verified [OF a2 _ demo_random lay x] by (simp add: demo_os_def)
  then show ?thesis using a ok a2 by (auto simp: demo_os_def)
qed

definition program_kept :: "os_env \<Rightarrow> string \<Rightarrow> string \<Rightarrow> files \<Rightarrow> bool" where
  "program_kept v target old f \<longleftrightarrow> f target = Some old \<or> f (backup_path target) = Some old
     \<or> (f target \<noteq> None \<and> snd (oe_exec v (f target) [''--version'']) = None)"

lemma backup_neq [simp]: "backup_path t \<noteq> t" "t \<noteq> backup_path t"
  by (simp_all add: backup_path_def)

text \<open>C4: Replacing the program never loses it: in every state between two calls, so also after a crash
  there, the old program is at its path or in the backup beside it, or a program that passed
  its version check is at the path; a replacement that succeeds leaves the checked new program
  there, one that fails puts the old one back unless the call that does so fails too, and no
  other file changes.\<close>

theorem replace_binary_never_loses:
  assumes "os_files s target = Some old" "new \<noteq> target" "new \<noteq> backup_path target" "os_log s = []"
    and "replace_binary v s new target = (s', r)" "q \<notin> {target, new, backup_path target}"
  shows "list_all (program_kept v target old) (os_files s' # os_log s')
    \<and> (if r = None then os_files s' target = os_files s new \<and> snd (oe_exec v (os_files s' target) [''--version'']) = None
       else if oe_fail v (os_steps s' - 1) = None then os_files s' target = Some old else True)
    \<and> os_files s' q = os_files s q"
proof -
  define s1 where "s1 = fst (os_remove v s (backup_path target))"
  have f1: "os_files s1 p = os_files s p" if "p \<noteq> backup_path target" for p
    using that by (simp add: s1_def os_remove_other)
  have l1: "os_log s1 = [os_files s]"
    using assms(4) by (auto simp: s1_def os_remove_def split: option.splits)
  have t1: "os_files s1 target = Some old" using f1 [of target] assms(1) by simp
  have k0: "program_kept v target old (os_files s)" "program_kept v target old (os_files s1)"
    using assms(1) t1 by (simp_all add: program_kept_def)
  obtain s2 e2 where r1: "os_rename v s1 target (backup_path target) = (s2, e2)" by force
  show ?thesis
  proof (cases e2)
    case (Some e)
    then have "s' = s2" "r \<noteq> None" "os_files s2 = os_files s1" "os_log s2 = os_files s1 # os_log s1"
      using assms(5) r1 os_rename_failed [of v s1 target "backup_path target" s2 e] unfolding s1_def
      by (auto simp: replace_binary_def os_rename_def split: prod.splits option.splits)
    then show ?thesis using k0 l1 t1 f1 [of q] assms(6) by auto
  next
    case None
    then have f2: "os_files s2 = (os_files s1)(target := None, backup_path target := Some old)"
      "os_log s2 = os_files s1 # os_log s1"
      using r1 t1 by (auto simp: os_rename_def split: option.splits)
    have k2: "program_kept v target old (os_files s2)" by (simp add: program_kept_def f2)
    obtain s3 e3 where r2: "os_rename v s2 new target = (s3, e3)" by force
    have l3: "os_log s3 = os_files s2 # os_log s2" using r2 by (auto simp: os_rename_def split: option.splits)
    have b3: "os_files s3 (backup_path target) = Some old"
      using r2 f2 assms(2,3) by (auto simp: os_rename_def split: option.splits)
    have k3: "program_kept v target old (os_files s3)" using b3 by (simp add: program_kept_def)
    have q3: "os_files s3 q = os_files s q"
      using r2 f2 f1 [of q] assms(6) by (auto simp: os_rename_def split: option.splits)
    have logs: "list_all (program_kept v target old) (os_log s3)" using l3 f2(2) l1 k0 k2 by simp
    have undone: "list_all (program_kept v target old) (os_files (put_back v s3 target) # os_log (put_back v s3 target))
      \<and> (oe_fail v (os_steps (put_back v s3 target) - 1) = None \<longrightarrow> os_files (put_back v s3 target) target = Some old)
      \<and> os_files (put_back v s3 target) q = os_files s q"
    proof -
      define s4 where "s4 = fst (os_remove v s3 target)"
      have f4: "os_files s4 p = os_files s3 p" if "p \<noteq> target" for p using that by (simp add: s4_def os_remove_other)
      have l4: "os_log s4 = os_files s3 # os_log s3" by (auto simp: s4_def os_remove_def split: option.splits)
      have b4: "os_files s4 (backup_path target) = Some old" using f4 b3 by simp
      have pb: "put_back v s3 target = fst (os_rename v s4 (backup_path target) target)"
        by (simp add: put_back_def s4_def split: prod.splits)
      show ?thesis
        using logs k3 b4 l4 f4 [of q] q3 assms(6) unfolding pb os_rename_def
        by (cases "oe_fail v (os_steps s4)") (auto simp: program_kept_def)
    qed
    show ?thesis
    proof (cases "e3 = None \<and> validate_installed_binary v s3 target = None")
      case True
      then have s': "s' = fst (os_remove v s3 (backup_path target))" "r = None"
        using assms(5) r1 r2 None unfolding s1_def by (auto simp: replace_binary_def split: prod.splits)
      have t3: "os_files s3 target = os_files s new" "os_files s3 target \<noteq> None"
        using r2 True f2 f1 [of new] assms(2,3) by (auto simp: os_rename_def split: option.splits)
      have x: "snd (oe_exec v (os_files s3 target) [''--version'']) = None"
        using True by (auto simp: validate_installed_binary_def split: prod.splits option.splits)
      have t': "os_files s' target = os_files s3 target" "os_files s' q = os_files s3 q"
        using assms(6) by (simp_all add: s' os_remove_other)
      have "os_log s' = os_files s3 # os_log s3" by (auto simp: s' os_remove_def split: option.splits)
      then show ?thesis
        using logs k3 t' t3 x q3 s'(2) by (simp add: program_kept_def [of _ _ _ "os_files s'"])
    next
      case False
      then have "s' = put_back v s3 target" "r \<noteq> None"
        using assms(5) r1 r2 None unfolding s1_def
        by (cases "validate_installed_binary v s3 target"; auto simp: replace_binary_def split: prod.splits option.splits)+
      then show ?thesis using undone by auto
    qed
  qed
qed

definition bad_program_env :: os_env where
  "bad_program_env = (demo_env (\<lambda>_. None))\<lparr>oe_exec := (\<lambda>_ _. (''no'', Some (Msg (Lit ''exit status 1''))))\<rparr>"

theorem replace_binary_never_loses_witness:
  "\<exists>s' r. replace_binary bad_program_env
       \<lparr>os_files = [''/o/bin/ti'' \<mapsto> ''old ti'', ''/o/bin/.ti.update-7'' \<mapsto> ''bad ti''], os_steps = 0, os_log = []\<rparr>
       ''/o/bin/.ti.update-7'' ''/o/bin/ti'' = (s', r)
     \<and> list_all (program_kept bad_program_env ''/o/bin/ti'' ''old ti'') (os_files s' # os_log s')
     \<and> os_files s' ''/o/bin/ti'' = Some ''old ti''"
proof -
  let ?s = "\<lparr>os_files = [''/o/bin/ti'' \<mapsto> ''old ti'', ''/o/bin/.ti.update-7'' \<mapsto> ''bad ti''], os_steps = 0, os_log = []\<rparr> :: os"
  obtain s' r where rb: "replace_binary bad_program_env ?s ''/o/bin/.ti.update-7'' ''/o/bin/ti'' = (s', r)" by force
  then have r: "r \<noteq> None"
    by (simp add: replace_binary_def os_rename_def os_remove_def bad_program_env_def backup_path_def
        validate_installed_binary_def put_back_def split: prod.splits) auto
  have nf: "oe_fail bad_program_env n = None" for n by (simp add: bad_program_env_def)
  have "''/o/bin/.ti.update-7'' \<noteq> backup_path ''/o/bin/ti''" by (simp add: backup_path_def)
  then show ?thesis
    using replace_binary_never_loses [OF _ _ _ _ rb, of "''old ti''" "''/x''"] rb r nf
    by (auto simp: backup_path_def)
qed

lemma put_back_files:
  assumes "os_files s (backup_path target) = Some old"
  shows "oe_fail v (os_steps (put_back v s target) - 1) = None \<Longrightarrow> os_files (put_back v s target) target = Some old"
    and "q \<notin> {target, backup_path target} \<Longrightarrow> os_files (put_back v s target) q = os_files s q"
proof -
  define s4 where "s4 = fst (os_remove v s target)"
  have f4: "os_files s4 p = os_files s p" if "p \<noteq> target" for p using that by (simp add: s4_def os_remove_other)
  have pb: "put_back v s target = fst (os_rename v s4 (backup_path target) target)"
    by (simp add: put_back_def s4_def split: prod.splits)
  have b: "os_files s4 (backup_path target) = Some old" using f4 assms by simp
  show "oe_fail v (os_steps (put_back v s target) - 1) = None \<Longrightarrow> os_files (put_back v s target) target = Some old"
    unfolding pb os_rename_def using b by (cases "oe_fail v (os_steps s4)") auto
  show "q \<notin> {target, backup_path target} \<Longrightarrow> os_files (put_back v s target) q = os_files s q"
    unfolding pb os_rename_def using b f4 by (cases "oe_fail v (os_steps s4)") auto
qed

lemma replace_file_failed:
  assumes "replace_file v s source target = (s', Some e)" "os_files s target = Some old"
    and "oe_fail v (os_steps s' - 1) = None"
  shows "os_files s' target = Some old \<and> (if q \<in> {target, backup_path target} then True else os_files s' q = os_files s q)"
proof -
  define s1 where "s1 = fst (os_remove v s (backup_path target))"
  obtain s2 st where o: "os_open v s1 target = (s2, st)" by force
  have f2: "os_files s2 q = os_files s q" if "q \<noteq> backup_path target" for q
    using that os_open_same [OF o] by (simp add: s1_def os_remove_other)
  have t2: "os_files s2 target = Some old" using f2 [of target] assms(2) by simp
  obtain s3 e3 where r1: "os_rename v s2 target (backup_path target) = (s3, e3)" by force
  show ?thesis
  proof (cases "is_ok st \<and> e3 = None")
    case False
    then have "os_files s' = os_files s2"
      using assms(1) o r1 os_rename_failed [of v s2] unfolding s1_def
      by (auto simp: replace_file_def split: prod.splits option.splits if_splits)
    then show ?thesis using f2 t2 by simp
  next
    case True
    have f3: "os_files s3 = (os_files s2)(target := None, backup_path target := Some old)"
      using os_rename_ok [of v s2 target "backup_path target" s3] r1 True t2 by auto
    obtain s4 e4 where "os_rename v s3 source target = (s4, Some e4)" and s': "s' = put_back v s4 target"
      using assms(1) o r1 True unfolding s1_def
      by (auto simp: replace_file_def split: prod.splits option.splits if_splits)
    then have f4: "os_files s4 = os_files s3" using os_rename_failed by blast
    then have "os_files s4 (backup_path target) = Some old" using f3 by simp
    note b = put_back_files [OF this]
    have "os_files s' target = Some old" using b(1) assms(3) by (simp add: s')
    moreover have "os_files s' q = os_files s q" if "q \<notin> {target, backup_path target}"
      using b(2) [OF that] f4 f3 f2 [of q] that by (simp add: s')
    ultimately show ?thesis by simp
  qed
qed

text \<open>The two replacements are not one step: when the program was replaced and the replacement of
  the companion then fails, the new program stays next to the old companion.\<close>

theorem replacements_not_atomic:
  assumes "replace_binary v s staged target = (s1, None)" "os_files s staged = Some data"
    and "replace_file v s1 staged2 ctarget = (s2, Some e)" "os_files s ctarget = Some old"
    and "distinct [target, staged, ctarget, staged2, backup_path target, backup_path ctarget]"
    and "oe_fail v (os_steps s2 - 1) = None"
  shows "os_files s2 target = Some data \<and> os_files s2 ctarget = Some old"
proof -
  have d: "staged \<noteq> target" "staged \<noteq> backup_path target" using assms(5) by auto
  have "os_files s1 target = Some data"
    using replace_binary_ok [OF assms(1) d] assms(2) by auto
  moreover have "os_files s1 ctarget = Some old"
    using replace_binary_ok [OF assms(1) d] assms(4,5) by auto
  ultimately show ?thesis
    using replace_file_failed [OF assms(3) _ assms(6), of old target] assms(5) by auto
qed

theorem replacements_not_atomic_witness:
  "\<exists>s1 s2 e. replace_binary (demo_env (\<lambda>n. if n = 7 then Some (Sentinel Err_Permission) else None))
       \<lparr>os_files = [''/t'' \<mapsto> ''old'', ''/c'' \<mapsto> ''oldc'', ''/s'' \<mapsto> ''new'', ''/u'' \<mapsto> ''newc''], os_steps = 0, os_log = []\<rparr> ''/s'' ''/t'' = (s1, None)
     \<and> replace_file (demo_env (\<lambda>n. if n = 7 then Some (Sentinel Err_Permission) else None)) s1 ''/u'' ''/c'' = (s2, Some e)
     \<and> os_files s2 ''/t'' = Some ''new'' \<and> os_files s2 ''/c'' = Some ''oldc''"
proof -
  let ?v = "demo_env (\<lambda>n. if n = 7 then Some (Sentinel Err_Permission) else None)"
  let ?s = "\<lparr>os_files = [''/t'' \<mapsto> ''old'', ''/c'' \<mapsto> ''oldc'', ''/s'' \<mapsto> ''new'', ''/u'' \<mapsto> ''newc''], os_steps = 0, os_log = []\<rparr> :: os"
  note calls = replace_binary_def replace_file_def os_rename_def os_remove_def os_open_def backup_path_def
    validate_installed_binary_def put_back_def os_step_def
  define s1 where "s1 = fst (replace_binary ?v ?s ''/s'' ''/t'')"
  have "snd (replace_binary ?v ?s ''/s'' ''/t'') = None" by (simp add: calls)
  then have a: "replace_binary ?v ?s ''/s'' ''/t'' = (s1, None)" by (simp add: s1_def prod_eq_iff)
  have "os_steps s1 = 4 \<and> os_files s1 ''/c'' = Some ''oldc'' \<and> os_files s1 ''/u'' = Some ''newc'' \<and> os_files s1 ''/c.ti-backup'' = None"
    by (simp add: s1_def calls)
  then have s1: "os_steps s1 = 4" "os_files s1 ''/c'' = Some ''oldc''" "os_files s1 ''/u'' = Some ''newc''" "os_files s1 ''/c.ti-backup'' = None"
    by blast+
  define s2 where "s2 = fst (replace_file ?v s1 ''/u'' ''/c'')"
  have "snd (replace_file ?v s1 ''/u'' ''/c'') \<noteq> None \<and> os_steps s2 = 10"
    unfolding s2_def by (simp add: calls s1)
  then obtain e where b: "replace_file ?v s1 ''/u'' ''/c'' = (s2, Some e)" "os_steps s2 = 10"
    by (cases "replace_file ?v s1 ''/u'' ''/c''") (auto simp: s2_def)
  have d: "distinct [''/t'', ''/s'', ''/c'', ''/u'', backup_path ''/t'', backup_path ''/c'']"
    by (simp add: backup_path_def)
  have "os_files s2 ''/t'' = Some ''new'' \<and> os_files s2 ''/c'' = Some ''oldc''"
    by (rule replacements_not_atomic [OF a _ b(1) _ d]) (simp_all add: b(2))
  with a b(1) show ?thesis by blast
qed

text \<open>A machine with both programs installed, of whose calls the one numbered \<open>k\<close> fails with
  \<open>e\<close>.  Calls 32 and 33 of an update there are the renames that move the old companion aside and
  the new one into place.\<close>

definition machine :: "string \<Rightarrow> string \<Rightarrow> os" where
  "machine prog cmp = \<lparr>os_files = [''/o/bin/ti'' \<mapsto> prog, ''/o/bin/ti-drive9'' \<mapsto> cmp], os_steps = 0, os_log = []\<rparr>"

definition one_failure :: "nat \<Rightarrow> go_error \<Rightarrow> os_env" where
  "one_failure k e = demo_env (\<lambda>n. if n = k then Some e else None)"

definition half_updated :: "nat \<Rightarrow> go_error \<Rightarrow> string \<Rightarrow> string \<Rightarrow> bool" where
  "half_updated k e prog cmp \<longleftrightarrow>
     (case apply_update (one_failure k e) demo_net demo_info demo_options (machine prog cmp) of
        (s, r) \<Rightarrow> \<not> is_ok r \<and> os_files s ''/o/bin/ti'' = Some ''new ti'' \<and> os_files s ''/o/bin/ti-drive9'' = Some cmp)"

text \<open>C32: An update is not one step: when one of the two renames of the companion fails, with
  whatever error, the update reports an error although the new program stays installed, next to
  the old companion; shown on a machine with any two old programs.\<close>

theorem companion_failure_keeps_new_program:
  "half_updated 32 e prog cmp \<and> half_updated 33 e prog cmp"
proof
  have trees: "\<not> in_tree ''/tmp/ti-update-7'' ''/o/bin/ti''" "\<not> in_tree ''/tmp/ti-update-7'' ''/o/bin/ti-drive9''"
    "\<not> in_tree ''/tmp/ti-drive9-update-7'' ''/o/bin/ti''" "\<not> in_tree ''/tmp/ti-drive9-update-7'' ''/o/bin/ti-drive9''"
    by code_simp+
  note run = half_updated_def one_failure_def machine_def apply_update_def demo_planned demo_plan_def demo_download
    demo_verified demo_companion demo_validated demo_calls demo_paths Let_def companion_binary_name_def
  show "half_updated 32 e prog cmp" by (simp add: run os_remove_all_other trees)
  show "half_updated 33 e prog cmp" by (simp add: run os_remove_all_other trees)
qed

section \<open>Versions and checksum files as text\<close>

definition version_text :: "nat \<times> nat \<times> nat \<Rightarrow> string" where
  "version_text t = (case t of (a, b, c) \<Rightarrow> nat_digits a @ ''.'' @ nat_digits b @ ''.'' @ nat_digits c)"

definition version_fits :: "nat \<times> nat \<times> nat \<Rightarrow> bool" where
  "version_fits t \<longleftrightarrow> (case t of (a, b, c) \<Rightarrow> in_int64 (int a) \<and> in_int64 (int b) \<and> in_int64 (int c))"

text \<open>A pre-release or build suffix: it starts with a dash or a plus and ends in a visible character.\<close>

definition version_suffix :: "string \<Rightarrow> bool" where
  "version_suffix x \<longleftrightarrow> x = [] \<or> (x \<noteq> [] \<and> hd x \<in> {CHR ''-'', CHR ''+''} \<and> is_graphic (last x))"

lemma digit_facts: "is_digit c \<Longrightarrow> c \<noteq> CHR ''.'' \<and> c \<noteq> CHR ''-'' \<and> c \<noteq> CHR ''+'' \<and> c \<noteq> CHR ''v'' \<and> c \<noteq> CHR ''d'' \<and> is_graphic c"
  by (auto simp: is_digit_def byte_of_def is_graphic_def)

lemma nat_digits_set: "c \<in> set (nat_digits n) \<Longrightarrow> is_digit c"
  using nat_digits_digits [of n] by (simp add: list_all_iff)

lemma nat_digits_ends: "nat_digits n \<noteq> []" "is_digit (hd (nat_digits n))" "is_digit (last (nat_digits n))"
  using nat_digits_digits [of n] nat_digits_set [of _ n] by auto

lemma parse_nat_digits: "in_int64 (int n) \<Longrightarrow> parse_int (nat_digits n) = Some (int n)"
  using parse_int_digits [of "int n"] by (simp add: int_digits_def)

lemma parse_version_text:
  assumes "version_fits (a, b, c)" "version_suffix x"
  shows "parse_version (version_text (a, b, c) @ x) = Inr (int a, int b, int c)"
    "parse_version (CHR ''v'' # version_text (a, b, c) @ x) = Inr (int a, int b, int c)"
proof -
  let ?t = "version_text (a, b, c)"
  have t: "?t = nat_digits a @ ''.'' @ nat_digits b @ ''.'' @ nat_digits c" by (simp add: version_text_def)
  have hd: "is_digit (hd (?t @ x))" using nat_digits_ends [of a] by (simp add: t)
  have la: "is_graphic (last (?t @ x))"
    using nat_digits_ends [of c] assms(2) digit_facts by (auto simp: t version_suffix_def)
  have tr: "trim_space (?t @ x) = ?t @ x"
    using hd la digit_facts by (intro trim_space_graphic) auto
  have pre: "trim_prefix (?t @ x) ''v'' = ?t @ x"
    using hd digit_facts nat_digits_ends(1) [of a] by (cases "nat_digits a") (auto simp: t trim_prefix_def)
  have np: "d \<noteq> CHR ''-'' \<and> d \<noteq> CHR ''+''" if "d \<in> set ?t" for d
    using that digit_facts nat_digits_set by (auto simp: t)
  have bs: "before_suffix (?t @ x) = ?t"
  proof (cases x)
    case Nil
    then show ?thesis using np by (simp add: before_suffix_def takeWhile_eq_all_conv)
  next
    case (Cons y ys)
    then show ?thesis using np assms(2) by (auto simp: before_suffix_def version_suffix_def takeWhile_append2)
  qed
  have nd: "CHR ''.'' \<notin> set (nat_digits n)" for n using nat_digits_set digit_facts by blast
  have sp: "split_on (CHR ''.'') ?t = [nat_digits a, nat_digits b, nat_digits c]"
    using nd by (simp add: t split_on_append_sep split_on_no_sep)
  have ne: "?t @ x \<noteq> []" "?t @ x \<noteq> ''dev''"
    using hd nat_digits_ends(1) [of a] digit_facts by (auto simp: t) (metis digit_facts hd_append2 list.sel(1))
  note f = assms(1) [unfolded version_fits_def, simplified]
  show "parse_version (?t @ x) = Inr (int a, int b, int c)"
    using ne f by (simp add: parse_version_def pre tr bs sp parse_nat_digits Let_def)
  have "trim_prefix (CHR ''v'' # ?t @ x) ''v'' = ?t @ x" by (simp add: trim_prefix_def)
  then show "parse_version (CHR ''v'' # ?t @ x) = Inr (int a, int b, int c)"
    using ne f by (simp add: parse_version_def tr bs sp parse_nat_digits Let_def)
qed

lemma compare_version_text:
  assumes "version_fits (a, b, c)" "version_fits (a', b', c')" "version_suffix x" "version_suffix y"
  shows "compare_versions (version_text (a, b, c) @ x) (version_text (a', b', c') @ y) =
    Inr (if a < a' \<or> a = a' \<and> (b < b' \<or> b = b' \<and> c < c') then -1
         else if a = a' \<and> b = b' \<and> c = c' then 0 else 1)"
  unfolding compare_versions_def parse_version_text(1) [OF assms(1,3)] parse_version_text(1) [OF assms(2,4)]
  by auto

text \<open>Versions are compared as triples of numbers: for the texts of two versions, with any
  pre-release or build suffix, an update is available exactly when the installed triple comes
  before the latest in lexicographic order, and the versions count as equal exactly when the
  triples are.\<close>

theorem update_available_lexicographic:
  assumes "version_fits (a, b, c)" "version_fits (a', b', c')" "version_suffix x" "version_suffix y"
  shows "update_available (version_text (a, b, c) @ x) (version_text (a', b', c') @ y)
      = (a < a' \<or> a = a' \<and> (b < b' \<or> b = b' \<and> c < c'), True)
    \<and> versions_equal (version_text (a, b, c) @ x) (version_text (a', b', c') @ y) = ((a, b, c) = (a', b', c'))"
  unfolding update_available_def versions_equal_def compare_version_text [OF assms] by auto

theorem update_available_lexicographic_witness:
  "update_available ''1.9.2-rc1'' ''1.10.0'' = (True, True)"
proof -
  have t: "version_text (1, 9, 2) = ''1.9.2''" "version_text (1, 10, 0) = ''1.10.0''" by code_simp+
  show ?thesis
    using update_available_lexicographic [of 1 9 2 1 10 0 "''-rc1''" "[]"]
    by (simp add: t version_fits_def in_int64_def min_int64_def max_int64_def version_suffix_def is_graphic_def byte_of_def del: One_nat_def)
qed

text \<open>A pre-release is never updated to its release: the suffix is cut off before the comparison, so
  with a pre-release installed the release of the same numbers is not shown as an update, and
  an update to it is refused as already installed.\<close>

theorem prerelease_counts_as_installed:
  assumes "version_fits (a, b, c)" "version_suffix x" "vi_version info = version_text (a, b, c) @ x"
    and "release_version rel = version_text (a, b, c)"
    and "fetch_release w (new_update_client w (ap_release_base opt))
        (if trim_space (ap_version opt) = [] then ''latest'' else trim_space (ap_version opt)) = Inr rel"
  shows "update_available (vi_version info) (release_version rel) = (False, True)
    \<and> \<not> is_ok (plan_update v w info opt)"
proof -
  have eq: "versions_equal (vi_version info) (release_version rel)"
    using update_available_lexicographic [OF assms(1,1,2), of "[]"] by (simp add: assms(3,4) version_suffix_def)
  have "\<not> is_ok (plan_update v w info opt)"
  proof
    assume "is_ok (plan_update v w info opt)"
    then obtain r where "plan_update v w info opt = Inr r" by (auto simp: is_ok_iff)
    then show False using plan_update_sound(1) [of v w info opt r] assms(5) eq by auto
  qed
  moreover have "update_available (vi_version info) (release_version rel) = (False, True)"
    using update_available_lexicographic [OF assms(1,1,2), of "[]"] by (simp add: assms(3,4) version_suffix_def)
  ultimately show ?thesis by blast
qed

theorem prerelease_counts_as_installed_witness:
  "update_available ''1.2.3-rc.1'' ''1.2.3'' = (False, True)
   \<and> \<not> is_ok (plan_update (demo_env (\<lambda>_. None)) demo_net (demo_info\<lparr>vi_version := ''1.2.3-rc.1''\<rparr>) demo_options)"
proof -
  have t: "version_text (1, 2, 3) = ''1.2.3''" by code_simp
  have f: "fetch_release demo_net (new_update_client demo_net (ap_release_base demo_options))
      (if trim_space (ap_version demo_options) = [] then ''latest'' else trim_space (ap_version demo_options)) = Inr demo_release"
    by code_simp
  have r: "release_version demo_release = ''1.2.3''" by code_simp
  show ?thesis
    using prerelease_counts_as_installed [of 1 2 3 "''-rc.1''" "demo_info\<lparr>vi_version := ''1.2.3-rc.1''\<rparr>",
        OF _ _ _ _ f, of "demo_env (\<lambda>_. None)"]
    by (simp add: t r version_fits_def in_int64_def min_int64_def max_int64_def version_suffix_def is_graphic_def byte_of_def del: One_nat_def)
qed

lemma str_fields_word: "list_all is_graphic w \<Longrightarrow> str_fields acc w = (if acc = [] \<and> w = [] then [] else [rev acc @ w])"
proof (induction w arbitrary: acc)
  case (Cons c w)
  then show ?case using space_width_graphic [of "c # w"] by (subst str_fields.simps) simp
qed (simp add: str_fields.simps)

lemma str_fields_two_words:
  assumes "list_all is_graphic h" "h \<noteq> []" "list_all is_graphic n" "n \<noteq> []"
  shows "str_fields [] (h @ ''  '' @ n) = [h, n]"
proof -
  have sp: "str_fields acc (CHR '' '' # s) = (if acc = [] then [] else [rev acc]) @ str_fields [] s" for acc s
    by (subst str_fields.simps) (simp add: is_ascii_space_def byte_of_def)
  have "str_fields acc (h @ ''  '' @ n) = [rev acc @ h, n]" if "acc \<noteq> [] \<or> h \<noteq> []" for acc
    using assms(1) that
  proof (induction h arbitrary: acc)
    case Nil
    then show ?case using str_fields_word [OF assms(3), of "[]"] assms(4) by (simp add: sp)
  next
    case (Cons c h)
    have "space_width (c # h @ ''  '' @ n) = 0" using Cons.prems(1) by (intro space_width_graphic) simp
    then have "str_fields acc ((c # h) @ ''  '' @ n) = str_fields (c # acc) (h @ ''  '' @ n)"
      by (subst str_fields.simps) simp
    then show ?case using Cons.IH [of "c # acc"] Cons.prems by simp
  qed
  then show ?thesis using assms(2) by force
qed

text \<open>A line of a checksum file as \<open>sha256sum\<close> prints it.\<close>

definition sum_line :: "string \<times> string \<Rightarrow> string" where
  "sum_line e = (case e of (n, h) \<Rightarrow> h @ ''  '' @ n)"

definition sum_entry :: "string \<times> string \<Rightarrow> bool" where
  "sum_entry e \<longleftrightarrow> (case e of (n, h) \<Rightarrow> n \<noteq> [] \<and> list_all is_graphic n \<and> is_hex_sha256 h)"

lemma hex_graphic: "is_hex_digit c \<Longrightarrow> is_graphic c \<and> c \<noteq> CHR ''S''"
  by (auto simp: is_hex_digit_def is_digit_def is_graphic_def byte_of_def)

lemma line_checksum_sum_line:
  assumes "sum_entry (n, h)"
  shows "line_checksum m (sum_line (n, h)) = (if n = m then Some (to_lower h) else None)"
proof -
  have e: "n \<noteq> []" "list_all is_graphic n" "is_hex_sha256 h" "list_all is_graphic h" "h \<noteq> []"
    using assms hex_graphic by (auto simp: sum_entry_def is_hex_sha256_def list_all_iff)
  have "hd h \<noteq> CHR ''S''" using e(3,5) hex_graphic by (cases h) (auto simp: is_hex_sha256_def)
  then have np: "\<not> has_prefix (h @ x) (CHR ''S'' # y)" for x y using e(5) by (cases h) auto
  have "is_graphic (hd h)" "is_graphic (last n)" using e by (cases h, auto simp: list_all_iff)
  then have tr: "trim_space (h @ ''  '' @ n) = h @ ''  '' @ n"
    using e(1,5) by (intro trim_space_graphic) simp
  show ?thesis
    using e(5) np [of "''  '' @ n"] str_fields_two_words [OF e(4,5,2,1)] e(3)
    by (simp add: line_checksum_def sum_line_def tr [simplified] Let_def)
qed

text \<open>A checksum file gives back what it lists: for a file of lines as printed by \<open>sha256sum\<close>, one
  for each of several files with different names, looking a name up yields its checksum in
  lower case, and fails for a name that is not listed.\<close>

theorem checksum_file_round_trip:
  assumes "list_all sum_entry es" "distinct (map fst es)"
  shows "checksum_for (join_with [CHR 0x0A] (map sum_line es)) n =
    (case map_of es n of Some h \<Rightarrow> Inr (to_lower h)
     | None \<Rightarrow> Inl (upd_error ''update.checksum_missing'' (Fmt ''checksums file does not include %s'' [Lit n])))"
proof -
  have nl: "CHR 0x0A \<notin> set (sum_line e)" if "e \<in> set es" for e
  proof -
    have "sum_entry e" using assms(1) that by (simp add: list_all_iff)
    then have "\<forall>c\<in>set (sum_line e). is_graphic c \<or> c = CHR '' ''"
      using hex_graphic by (auto simp: sum_entry_def sum_line_def is_hex_sha256_def list_all_iff split: prod.splits)
    then show ?thesis by (auto simp: is_graphic_def byte_of_def)
  qed
  have fc: "first_checksum n (map sum_line es) = map_option to_lower (map_of es n)"
    using assms
  proof (induction es)
    case (Cons e es)
    then show ?case using line_checksum_sum_line [of "fst e" "snd e" n] by (cases e) auto
  qed simp
  show ?thesis
  proof (cases "es = []")
    case True
    have "line_checksum n [] = None" by (simp add: line_checksum_def trim_space_graphic Let_def)
    then show ?thesis using True by (simp add: checksum_for_def)
  next
    case False
    then have "split_on (CHR 0x0A) (join_with [CHR 0x0A] (map sum_line es)) = map sum_line es"
      using nl by (intro split_join) auto
    then show ?thesis by (simp add: checksum_for_def fc split: option.splits)
  qed
qed

theorem checksum_file_round_trip_witness:
  "checksum_for (join_with [CHR 0x0A] (map sum_line
      [(''a.zip'', replicate 64 (CHR ''A'')), (''b.zip'', replicate 64 (CHR ''0''))])) ''a.zip''
   = Inr (replicate 64 (CHR ''a''))"
proof -
  have h: "is_hex_sha256 (replicate 64 (CHR ''A''))" "is_hex_sha256 (replicate 64 (CHR ''0''))"
    by (simp_all add: is_hex_sha256_def is_hex_digit_def is_digit_def byte_of_def list_all_iff)
  have l: "to_lower (replicate 64 (CHR ''A'')) = replicate 64 (CHR ''a'')" by code_simp
  show ?thesis
    using checksum_file_round_trip [of "[(''a.zip'', replicate 64 (CHR ''A'')), (''b.zip'', replicate 64 (CHR ''0''))]" "''a.zip''"] h l
    by (simp add: sum_entry_def is_graphic_def byte_of_def)
qed

end
