(* ===== verification/Home_Files.thy ===== *)
theory Home_Files
  imports Go_Errors Remote_Paths
begin

text \<open>
  The files the program keeps below the home directory and how it replaces one of them.  The
  machine is a map from paths to files with a mode and bytes, the directories made, a counter
  of the system calls and a log of all earlier maps, so that what another process or a crash
  sees between two calls can be stated; each call can fail.  The writers of the code are
  \<open>writeTOML\<close> of \<open>config/store/store.go\<close> and \<open>fs/fscred/fscred.go\<close>, \<open>writeTOMLAtomic\<close> and
  \<open>createSettings\<close> of \<open>settings/settings.go\<close>; the locale \<open>atomic_writer\<close> is what the callers
  rely on.  Modes are numbers (384 is octal 600, 420 is 644).
\<close>

section \<open>Files and calls\<close>

record hfile =
  hf_mode :: nat
  hf_data :: string

type_synonym hfiles = "string \<Rightarrow> hfile option"

record home =
  hm_files :: hfiles
  hm_dirs :: "string list"
  hm_steps :: nat
  hm_log :: "hfiles list"

text \<open>\<open>he_fail n\<close> is the failure of the \<open>n\<close>-th call, \<open>he_random n\<close> the digits a temporary name gets
  at that call, \<open>he_partial n\<close> how much a failing write wrote.\<close>

record home_env =
  he_fail :: "nat \<Rightarrow> go_error option"
  he_random :: "nat \<Rightarrow> string"
  he_partial :: "nat \<Rightarrow> nat"

definition hm_step :: "home \<Rightarrow> hfiles \<Rightarrow> home" where
  "hm_step s f = s\<lparr>hm_files := f, hm_steps := Suc (hm_steps s), hm_log := hm_files s # hm_log s\<rparr>"

text \<open>A call that changes no file (sync, close, chmod of a directory).\<close>

definition hm_call :: "home_env \<Rightarrow> home \<Rightarrow> home \<times> go_error option" where
  "hm_call v s = (hm_step s (hm_files s), he_fail v (hm_steps s))"

definition hm_mkdir_all :: "home_env \<Rightarrow> home \<Rightarrow> string \<Rightarrow> home \<times> go_error option" where
  "hm_mkdir_all v s d =
     (case he_fail v (hm_steps s) of
        Some e \<Rightarrow> (hm_step s (hm_files s), Some e)
      | None \<Rightarrow> ((hm_step s (hm_files s))\<lparr>hm_dirs := List.insert d (hm_dirs s)\<rparr>, None))"

text \<open>A call on a file that must be there, with what it does to the map.\<close>

definition hm_on_file :: "home_env \<Rightarrow> home \<Rightarrow> string \<Rightarrow> (hfile \<Rightarrow> hfiles \<Rightarrow> hfiles) \<Rightarrow> home \<times> go_error option" where
  "hm_on_file v s p change =
     (case he_fail v (hm_steps s) of
        Some e \<Rightarrow> (hm_step s (hm_files s), Some e)
      | None \<Rightarrow>
        (case hm_files s p of
           None \<Rightarrow> (hm_step s (hm_files s), Some (Sentinel Err_Not_Exist))
         | Some x \<Rightarrow> (hm_step s (change x (hm_files s)), None)))"

definition hm_rename :: "home_env \<Rightarrow> home \<Rightarrow> string \<Rightarrow> string \<Rightarrow> home \<times> go_error option" where
  "hm_rename v s a b = hm_on_file v s a (\<lambda>x f. f(a := None, b := Some x))"

definition hm_remove :: "home_env \<Rightarrow> home \<Rightarrow> string \<Rightarrow> home \<times> go_error option" where
  "hm_remove v s p = hm_on_file v s p (\<lambda>_ f. f(p := None))"

definition hm_chmod :: "home_env \<Rightarrow> home \<Rightarrow> string \<Rightarrow> nat \<Rightarrow> home \<times> go_error option" where
  "hm_chmod v s p m = hm_on_file v s p (\<lambda>x f. f(p := Some (x\<lparr>hf_mode := m\<rparr>)))"

text \<open>\<open>os.Link\<close> needs a new name.\<close>

definition hm_link :: "home_env \<Rightarrow> home \<Rightarrow> string \<Rightarrow> string \<Rightarrow> home \<times> go_error option" where
  "hm_link v s a b =
     (if he_fail v (hm_steps s) = None \<and> hm_files s a \<noteq> None \<and> hm_files s b \<noteq> None
      then (hm_step s (hm_files s), Some (Sentinel Err_Exist))
      else hm_on_file v s a (\<lambda>x f. f(b := Some x)))"

definition hm_read :: "home_env \<Rightarrow> home \<Rightarrow> string \<Rightarrow> home \<times> (go_error + string)" where
  "hm_read v s p =
     (hm_step s (hm_files s),
      case he_fail v (hm_steps s) of
        Some e \<Rightarrow> Inl e
      | None \<Rightarrow> (case hm_files s p of None \<Rightarrow> Inl (Sentinel Err_Not_Exist) | Some x \<Rightarrow> Inr (hf_data x)))"

definition hm_stat :: "home_env \<Rightarrow> home \<Rightarrow> string \<Rightarrow> home \<times> (go_error + nat)" where
  "hm_stat v s p =
     (hm_step s (hm_files s),
      case he_fail v (hm_steps s) of
        Some e \<Rightarrow> Inl e
      | None \<Rightarrow> (case hm_files s p of None \<Rightarrow> Inl (Sentinel Err_Not_Exist) | Some x \<Rightarrow> Inr (hf_mode x)))"

text \<open>\<open>os.CreateTemp\<close>: the random digits replace the star at the end of the pattern.\<close>

definition temp_name :: "string \<Rightarrow> string \<Rightarrow> string \<Rightarrow> string" where
  "temp_name dir prefix digits = (if has_suffix dir ''/'' then dir else dir @ ''/'') @ prefix @ digits"

definition hm_create_temp :: "home_env \<Rightarrow> home \<Rightarrow> string \<Rightarrow> string \<Rightarrow> home \<times> (go_error + string)" where
  "hm_create_temp v s dir prefix =
     (let p = temp_name dir prefix (he_random v (hm_steps s)) in
      case he_fail v (hm_steps s) of
        Some e \<Rightarrow> (hm_step s (hm_files s), Inl e)
      | None \<Rightarrow>
        if hm_files s p \<noteq> None then (hm_step s (hm_files s), Inl (Sentinel Err_Exist))
        else (hm_step s ((hm_files s)(p := Some \<lparr>hf_mode = 384, hf_data = []\<rparr>)), Inr p))"

text \<open>Writing to a file that was just made: what a failing write wrote stays.\<close>

definition hm_write :: "home_env \<Rightarrow> home \<Rightarrow> string \<Rightarrow> string \<Rightarrow> home \<times> go_error option" where
  "hm_write v s p data =
     (case he_fail v (hm_steps s) of
        Some e \<Rightarrow> (hm_step s ((hm_files s)(p := map_option (\<lambda>x. x\<lparr>hf_data := take (he_partial v (hm_steps s)) data\<rparr>) (hm_files s p))), Some e)
      | None \<Rightarrow> (hm_step s ((hm_files s)(p := map_option (\<lambda>x. x\<lparr>hf_data := data\<rparr>) (hm_files s p))), None))"

text \<open>\<open>os.RemoveAll\<close> of a directory, in one step.\<close>

definition hm_remove_all :: "home_env \<Rightarrow> home \<Rightarrow> string \<Rightarrow> home \<times> go_error option" where
  "hm_remove_all v s d =
     (case he_fail v (hm_steps s) of
        Some e \<Rightarrow> (hm_step s (hm_files s), Some e)
      | None \<Rightarrow> ((hm_step s (\<lambda>p. if in_tree d p then None else hm_files s p))
          \<lparr>hm_dirs := filter (\<lambda>p. \<not> in_tree d p) (hm_dirs s)\<rparr>, None))"

section \<open>Writers\<close>

datatype temp_stage = Temp_Create | Temp_Chmod | Temp_Write | Temp_Sync | Temp_Close

text \<open>The temporary file up to its closing; \<open>sync\<close> says whether the writer syncs it.  On a failure
  after its creation the file is closed and the deferred removal runs.\<close>

definition stage_temp ::
  "home_env \<Rightarrow> home \<Rightarrow> bool \<Rightarrow> string \<Rightarrow> string \<Rightarrow> string \<Rightarrow> nat \<Rightarrow> home \<times> (temp_stage \<times> go_error + string)" where
  "stage_temp v s sync dir prefix data mode =
     (case hm_create_temp v s dir prefix of
        (s1, Inl e) \<Rightarrow> (s1, Inl (Temp_Create, e))
      | (s1, Inr t) \<Rightarrow>
        (let abandon = (\<lambda>s st e. (fst (hm_remove v (fst (hm_call v s)) t), Inl (st, e))) in
         case hm_chmod v s1 t mode of
           (s2, Some e) \<Rightarrow> abandon s2 Temp_Chmod e
         | (s2, None) \<Rightarrow>
           (case hm_write v s2 t data of
              (s3, Some e) \<Rightarrow> abandon s3 Temp_Write e
            | (s3, None) \<Rightarrow>
              (case (if sync then hm_call v s3 else (s3, None)) of
                 (s4, Some e) \<Rightarrow> abandon s4 Temp_Sync e
               | (s4, None) \<Rightarrow>
                 (case hm_call v s4 of
                    (s5, Some e) \<Rightarrow> (fst (hm_remove v s5 t), Inl (Temp_Close, e))
                  | (s5, None) \<Rightarrow> (s5, Inr t))))))"

text \<open>Renaming the temporary file over the target and setting the mode again, then the deferred
  removal; the flag of an error says whether it came from the renaming.\<close>

definition publish_temp :: "home_env \<Rightarrow> home \<Rightarrow> string \<Rightarrow> string \<Rightarrow> nat \<Rightarrow> home \<times> (bool \<times> go_error) option" where
  "publish_temp v s t p mode =
     (case hm_rename v s t p of
        (s1, Some e) \<Rightarrow> (fst (hm_remove v s1 t), Some (True, e))
      | (s1, None) \<Rightarrow>
        (case hm_chmod v s1 p mode of
           (s2, r) \<Rightarrow> (fst (hm_remove v s2 t), map_option (Pair False) r)))"

definition temp_prefix :: "string \<Rightarrow> string" where
  "temp_prefix p = ''.'' @ path_base p @ ''.tmp-''"

text \<open>\<open>writeTOML\<close> of \<open>config/store/store.go\<close> after marshalling.\<close>

definition store_stage_error :: "string \<Rightarrow> temp_stage \<times> go_error \<Rightarrow> go_error" where
  "store_stage_error p x =
     (case x of (st, e) \<Rightarrow>
        Wrapf (Fmt ((case st of Temp_Create \<Rightarrow> ''create'' | Temp_Chmod \<Rightarrow> ''chmod'' | Temp_Write \<Rightarrow> ''write''
            | Temp_Sync \<Rightarrow> ''sync'' | Temp_Close \<Rightarrow> ''close'') @ '' temp file for %s: %w'') [Lit p, error_text e]) e)"

definition store_write :: "home_env \<Rightarrow> home \<Rightarrow> string \<Rightarrow> string \<Rightarrow> nat \<Rightarrow> home \<times> go_error option" where
  "store_write v s p data mode =
     (case hm_mkdir_all v s (path_dir p) of
        (s1, Some e) \<Rightarrow> (s1, Some e)
      | (s1, None) \<Rightarrow>
        (case stage_temp v s1 False (path_dir p) (temp_prefix p) data mode of
           (s2, Inl x) \<Rightarrow> (s2, Some (store_stage_error p x))
         | (s2, Inr t) \<Rightarrow>
           (case publish_temp v s2 t p mode of
              (s3, None) \<Rightarrow> (s3, None)
            | (s3, Some (renaming, e)) \<Rightarrow>
                (s3, Some (if renaming then Wrapf (Fmt ''replace %s: %w'' [Lit p, error_text e]) e else e)))))"

text \<open>\<open>writeTOML\<close> of \<open>fs/fscred/fscred.go\<close> after marshalling.\<close>

definition fscred_write :: "home_env \<Rightarrow> home \<Rightarrow> string \<Rightarrow> string \<Rightarrow> nat \<Rightarrow> home \<times> go_error option" where
  "fscred_write v s p data mode =
     (case hm_mkdir_all v s (path_dir p) of
        (s1, Some e) \<Rightarrow> (s1, Some e)
      | (s1, None) \<Rightarrow>
        (case stage_temp v s1 True (path_dir p) (temp_prefix p) data mode of
           (s2, Inl (_, e)) \<Rightarrow> (s2, Some e)
         | (s2, Inr t) \<Rightarrow>
           (case publish_temp v s2 t p mode of (s3, r) \<Rightarrow> (s3, map_option snd r))))"

text \<open>\<open>writeTOMLAtomic\<close> of \<open>settings/settings.go\<close> after marshalling.\<close>

definition settings_write :: "home_env \<Rightarrow> home \<Rightarrow> string \<Rightarrow> string \<Rightarrow> nat \<Rightarrow> home \<times> go_error option" where
  "settings_write v s p data mode =
     (case stage_temp v s True (path_dir p) (temp_prefix p) data mode of
        (s2, Inl (_, e)) \<Rightarrow> (s2, Some e)
      | (s2, Inr t) \<Rightarrow>
        (case publish_temp v s2 t p mode of (s3, r) \<Rightarrow> (s3, map_option snd r)))"

section \<open>Every state of a run\<close>

definition all_states :: "(hfiles \<Rightarrow> bool) \<Rightarrow> home \<Rightarrow> home \<Rightarrow> bool" where
  "all_states P s s' \<longleftrightarrow> (\<exists>pre. hm_log s' = pre @ hm_log s \<and> P (hm_files s') \<and> list_all P pre)"

lemma all_states_refl: "P (hm_files s) \<Longrightarrow> all_states P s s"
  by (simp add: all_states_def)

lemma all_states_trans: "all_states P s s1 \<Longrightarrow> all_states P s1 s2 \<Longrightarrow> all_states P s s2"
  by (auto simp: all_states_def)

lemma all_states_end: "all_states P s s' \<Longrightarrow> P (hm_files s')"
  by (auto simp: all_states_def)

lemma all_states_mono: "all_states P s s' \<Longrightarrow> (\<And>f. P f \<Longrightarrow> Q f) \<Longrightarrow> all_states Q s s'"
  by (auto simp: all_states_def list_all_iff)

lemma all_states_step: "P (hm_files s) \<Longrightarrow> P f \<Longrightarrow> all_states P s (hm_step s f)"
  by (simp add: all_states_def hm_step_def)

lemma hm_step_files [simp]: "hm_files (hm_step s f) = f" "hm_dirs (hm_step s f) = hm_dirs s" "hm_steps (hm_step s f) = Suc (hm_steps s)"
  by (simp_all add: hm_step_def)

lemma hm_on_file_states:
  assumes "hm_on_file v s p change = (s', r)" "P (hm_files s)"
    and "\<And>x. hm_files s p = Some x \<Longrightarrow> P (change x (hm_files s))"
  shows "all_states P s s'"
  using assms by (auto simp: hm_on_file_def split: option.splits intro!: all_states_step)

lemma hm_on_file_ok:
  assumes "hm_on_file v s p change = (s', r)"
  shows "r = None \<longleftrightarrow> (\<exists>x. he_fail v (hm_steps s) = None \<and> hm_files s p = Some x)"
    "r = None \<Longrightarrow> hm_files s' = change (the (hm_files s p)) (hm_files s)"
    "r \<noteq> None \<Longrightarrow> hm_files s' = hm_files s"
  using assms by (auto simp: hm_on_file_def split: option.splits)

lemma hm_call_states: "hm_call v s = (s', r) \<Longrightarrow> P (hm_files s) \<Longrightarrow> all_states P s s'"
  by (auto simp: hm_call_def intro: all_states_step)

lemma hm_call_files: "hm_call v s = (s', r) \<Longrightarrow> hm_files s' = hm_files s"
  by (auto simp: hm_call_def)

lemma hm_mkdir_all_states: "hm_mkdir_all v s d = (s', r) \<Longrightarrow> P (hm_files s) \<Longrightarrow> all_states P s s'"
  by (auto simp: hm_mkdir_all_def all_states_def hm_step_def split: option.splits)

lemma hm_mkdir_all_files: "hm_mkdir_all v s d = (s', r) \<Longrightarrow> hm_files s' = hm_files s"
  by (auto simp: hm_mkdir_all_def split: option.splits)

lemma hm_remove_states:
  "P (hm_files s) \<Longrightarrow> P ((hm_files s)(p := None)) \<Longrightarrow> all_states P s (fst (hm_remove v s p))"
  unfolding hm_remove_def by (cases "hm_on_file v s p (\<lambda>_ f. f(p := None))") (auto intro: hm_on_file_states)

lemma hm_remove_files: "q \<noteq> p \<Longrightarrow> hm_files (fst (hm_remove v s p)) q = hm_files s q"
  by (auto simp: hm_remove_def hm_on_file_def split: option.splits)

lemma hm_remove_gone: "hm_files s p = None \<Longrightarrow> hm_files (fst (hm_remove v s p)) = hm_files s"
  by (auto simp: hm_remove_def hm_on_file_def split: option.splits)

section \<open>What a writer leaves behind\<close>

text \<open>A state during the replacement of \<open>p\<close>: the target has its old or its new file, and the only
  other file that can differ is the temporary one, empty and owner-only or with the final mode
  and a beginning of the bytes.\<close>

definition replacing :: "hfiles \<Rightarrow> string \<Rightarrow> string \<Rightarrow> string \<Rightarrow> nat \<Rightarrow> hfiles \<Rightarrow> bool" where
  "replacing f0 t p data mode f \<longleftrightarrow>
     (f p = f0 p \<or> f p = Some \<lparr>hf_mode = mode, hf_data = data\<rparr>)
     \<and> (case f t of None \<Rightarrow> True | Some x \<Rightarrow> (hf_mode x = mode \<and> hf_data x = take (length (hf_data x)) data) \<or> (hf_mode x = 384 \<and> hf_data x = []))
     \<and> (\<forall>q. q \<noteq> t \<and> q \<noteq> p \<longrightarrow> f q = f0 q)"

lemma replacing_start: "f0 t = None \<Longrightarrow> replacing f0 t p d m f0"
  by (simp add: replacing_def)

lemma replacing_temp:
  "replacing f0 t p d m f \<Longrightarrow> t \<noteq> p \<Longrightarrow>
    (hf_mode x = m \<and> hf_data x = take (length (hf_data x)) d) \<or> (hf_mode x = 384 \<and> hf_data x = []) \<Longrightarrow>
    replacing f0 t p d m (f(t := Some x))"
  by (auto simp: replacing_def)

lemma replacing_temp_gone: "replacing f0 t p d m f \<Longrightarrow> t \<noteq> p \<Longrightarrow> replacing f0 t p d m (f(t := None))"
  by (auto simp: replacing_def)

lemma stage_temp_states:
  assumes "stage_temp v s sync dir prefix data mode = (s', r)"
    and "t = temp_name dir prefix (he_random v (hm_steps s))" "t \<noteq> p"
  shows "if hm_files s t = None then all_states (replacing (hm_files s) t p data mode) s s'
    else all_states (\<lambda>f. f = hm_files s) s s' \<and> \<not> is_ok r"
proof (cases "hm_files s t = None")
  case False
  then have "s' = hm_step s (hm_files s) \<and> \<not> is_ok r"
    using assms by (auto simp: stage_temp_def hm_create_temp_def Let_def split: option.splits)
  then show ?thesis using False by (auto intro: all_states_step)
next
  case True
  let ?P = "replacing (hm_files s) t p data mode"
  have p0: "?P (hm_files s)" using True by (rule replacing_start)
  show ?thesis
  proof (cases "he_fail v (hm_steps s)")
    case (Some e)
    then show ?thesis using assms True p0
      by (auto simp: stage_temp_def hm_create_temp_def Let_def intro: all_states_step)
  next
    case None
    define s1 where "s1 = hm_step s ((hm_files s)(t := Some \<lparr>hf_mode = 384, hf_data = []\<rparr>))"
    have c: "hm_create_temp v s dir prefix = (s1, Inr t)"
      using None True assms(2) by (simp add: hm_create_temp_def s1_def Let_def)
    have p1: "?P (hm_files s1)" using replacing_temp [OF p0 assms(3)] by (simp add: s1_def)
    have a1: "all_states ?P s s1" unfolding s1_def using p0 p1 by (auto intro: all_states_step simp: s1_def)
    have ab: "all_states ?P u (fst (hm_remove v (fst (hm_call v u)) t))" "all_states ?P u (fst (hm_remove v u t))"
      if "?P (hm_files u)" for u
    proof -
      have g: "?P ((hm_files u)(t := None))" using that assms(3) by (rule replacing_temp_gone)
      have "all_states ?P u (fst (hm_call v u))" using that by (cases "hm_call v u") (auto intro: hm_call_states)
      moreover have "all_states ?P (fst (hm_call v u)) (fst (hm_remove v (fst (hm_call v u)) t))"
        using that g by (intro hm_remove_states) (simp_all add: hm_call_def)
      ultimately show "all_states ?P u (fst (hm_remove v (fst (hm_call v u)) t))" by (rule all_states_trans)
      show "all_states ?P u (fst (hm_remove v u t))" using that g by (rule hm_remove_states)
    qed
    obtain s2 e2 where h2: "hm_chmod v s1 t mode = (s2, e2)" by force
    have a2: "all_states ?P s1 s2"
      using h2 unfolding hm_chmod_def
      by (rule hm_on_file_states) (use p1 replacing_temp [OF p1 assms(3)] in \<open>auto simp: s1_def\<close>)
    obtain s3 e3 where h3: "hm_write v s2 t data = (s3, e3)" by force
    have m2: "e2 = None \<Longrightarrow> \<exists>x. hm_files s2 t = Some x \<and> hf_mode x = mode"
      using h2 by (auto simp: hm_chmod_def hm_on_file_def split: option.splits)
    have tk: "take (length (take n data)) data = take n data" for n
      by (cases "n \<le> length data") (simp_all add: min_def)
    have a3: "all_states ?P s2 s3" if e2: "e2 = None"
    proof -
      obtain x where x: "hm_files s2 t = Some x" "hf_mode x = mode" using m2 [OF e2] by blast
      have "?P ((hm_files s2)(t := Some (x\<lparr>hf_data := take n data\<rparr>)))" for n
        using replacing_temp [OF all_states_end [OF a2] assms(3)] x(2) tk by simp
      from this this [of "length data"] show ?thesis
        using h3 all_states_end [OF a2] by (auto simp: hm_write_def x(1) split: option.splits intro!: all_states_step)
    qed
    obtain s4 e4 where h4: "(if sync then hm_call v s3 else (s3, None)) = (s4, e4)" by force
    have a4: "all_states ?P s3 s4" if "?P (hm_files s3)"
      using h4 that by (auto split: if_splits intro: hm_call_states all_states_refl)
    obtain s5 e5 where h5: "hm_call v s4 = (s5, e5)" by force
    have a5: "all_states ?P s4 s5" if "?P (hm_files s4)" using h5 that by (rule hm_call_states)
    have "all_states ?P s s'"
    proof (cases e2)
      case (Some e)
      then have "s' = fst (hm_remove v (fst (hm_call v s2)) t)" using assms(1) c h2 by (simp add: stage_temp_def Let_def)
      then show ?thesis using all_states_trans [OF a1 all_states_trans [OF a2 ab(1) [OF all_states_end [OF a2]]]] by simp
    next
      case n2: None
      note a13 = all_states_trans [OF a1 all_states_trans [OF a2 a3 [OF n2]]]
      note p3 = all_states_end [OF a13]
      note a14 = all_states_trans [OF a13 a4 [OF p3]]
      note p4 = all_states_end [OF a14]
      note a15 = all_states_trans [OF a14 a5 [OF p4]]
      have "s' \<in> {fst (hm_remove v (fst (hm_call v s3)) t), fst (hm_remove v (fst (hm_call v s4)) t), fst (hm_remove v s5 t), s5}"
        using assms(1) c h2 h3 h4 h5 n2 by (auto simp: stage_temp_def Let_def split: option.splits)
      then show ?thesis
        using a15 all_states_trans [OF a13 ab(1) [OF p3]] all_states_trans [OF a14 ab(1) [OF p4]]
          all_states_trans [OF a15 ab(2) [OF all_states_end [OF a15]]] by auto
    qed
    then show ?thesis using True by simp
  qed
qed

lemma stage_temp_ok:
  assumes "stage_temp v s sync dir prefix data mode = (s', Inr t)"
  shows "t = temp_name dir prefix (he_random v (hm_steps s)) \<and> hm_files s t = None
    \<and> hm_files s' = (hm_files s)(t := Some \<lparr>hf_mode = mode, hf_data = data\<rparr>)"
proof -
  obtain s1 t1 where c: "hm_create_temp v s dir prefix = (s1, Inr t1)"
    using assms by (auto simp: stage_temp_def split: prod.splits sum.splits)
  obtain s2 e2 where h2: "hm_chmod v s1 t1 mode = (s2, e2)" by force
  obtain s3 e3 where h3: "hm_write v s2 t1 data = (s3, e3)" by force
  obtain s4 e4 where h4: "(if sync then hm_call v s3 else (s3, None)) = (s4, e4)" by force
  obtain s5 e5 where h5: "hm_call v s4 = (s5, e5)" by force
  have e: "e2 = None" "e3 = None" "s' = s5" "t = t1"
    using assms c h2 h3 h4 h5 by (auto simp: stage_temp_def Let_def split: option.splits)
  have f1: "hm_files s1 = (hm_files s)(t1 := Some \<lparr>hf_mode = 384, hf_data = []\<rparr>)"
    "t1 = temp_name dir prefix (he_random v (hm_steps s))" "hm_files s t1 = None"
    using c by (auto simp: hm_create_temp_def Let_def split: option.splits if_splits)
  have "hm_files s2 = (hm_files s)(t1 := Some \<lparr>hf_mode = mode, hf_data = []\<rparr>)"
    using h2 f1 e(1) by (auto simp: hm_chmod_def hm_on_file_def split: option.splits)
  then have "hm_files s3 = (hm_files s)(t1 := Some \<lparr>hf_mode = mode, hf_data = data\<rparr>)"
    using h3 e(2) by (auto simp: hm_write_def split: option.splits)
  moreover have "hm_files s4 = hm_files s3" "hm_files s5 = hm_files s4"
    using h4 h5 by (auto simp: hm_call_def split: if_splits)
  ultimately show ?thesis using f1 e by simp
qed

text \<open>The path of a file: absolute and clean.\<close>

definition good_path :: "string \<Rightarrow> bool" where
  "good_path p \<longleftrightarrow> p \<noteq> [] \<and> p \<noteq> ''/'' \<and> (case split_on (CHR ''/'') p of [] \<Rightarrow> False | c # cs \<Rightarrow> c = [] \<and> clean_list cs)"

lemma good_pathE:
  assumes "good_path p"
  obtains ds b where "clean_list (ds @ [b])" "p = abs_path (ds @ [b])"
proof -
  obtain cs where c: "split_on (CHR ''/'') p = [] # cs" "clean_list cs"
    using assms by (auto simp: good_path_def split: list.splits)
  have p: "join_with ''/'' ([] # cs) = p" using join_split [of "CHR ''/''" p] c(1) by simp
  then have "cs \<noteq> []" using assms by (auto simp: good_path_def)
  then have "p = abs_path cs" using p by (simp add: join_with_Cons abs_path_def)
  moreover have "cs = butlast cs @ [last cs]" using \<open>cs \<noteq> []\<close> by simp
  ultimately show ?thesis using that [of "butlast cs" "last cs"] c(2) by metis
qed

lemma good_path_abs: "clean_list cs \<Longrightarrow> cs \<noteq> [] \<Longrightarrow> good_path (abs_path cs)"
proof -
  assume c: "clean_list cs" "cs \<noteq> []"
  have n: "\<forall>w\<in>set ([] # cs). CHR ''/'' \<notin> set w" using c(1) by (auto simp: clean_list_def clean_comp_def list_all_iff)
  have j: "abs_path cs = join_with ''/'' ([] # cs)" using c(2) by (simp add: join_with_Cons abs_path_def)
  have s: "split_on (CHR ''/'') (abs_path cs) = [] # cs" unfolding j by (rule split_join) (use n in auto)
  have "abs_path cs \<noteq> ''/''"
  proof
    assume "abs_path cs = ''/''"
    then have "cs = [[]]" using s by simp
    then show False using c(1) by (simp add: clean_list_def clean_comp_def)
  qed
  then show ?thesis using s c(1) by (simp add: good_path_def abs_path_def)
qed

lemma join_with_append:
  "as \<noteq> [] \<Longrightarrow> xs \<noteq> [] \<Longrightarrow> join_with sep (as @ xs) = join_with sep as @ sep @ join_with sep xs"
proof (induction as)
  case (Cons a as)
  then show ?case by (cases "as = []") (simp_all add: join_with_Cons)
qed simp

lemma join_home:
  assumes "good_path hdir" "clean_list xs" "xs \<noteq> []"
  shows "good_path (path_join (hdir # xs))" "path_base (path_join (hdir # xs)) = last xs"
    "path_join (hdir # xs) = hdir @ ''/'' @ join_with ''/'' xs"
proof -
  obtain ds b where h: "clean_list (ds @ [b])" "hdir = abs_path (ds @ [b])" using assms(1) by (rule good_pathE)
  have c: "clean_list ((ds @ [b]) @ xs)" using h(1) assms(2) by (simp add: clean_list_def)
  have "filter (\<lambda>e. e \<noteq> []) xs = xs" using assms(2) by (auto simp: clean_list_def clean_comp_def list_all_iff filter_id_conv)
  moreover have ne: "join_with ''/'' xs \<noteq> []"
    using assms(2,3) by (cases xs; cases "tl xs") (auto simp: clean_list_def clean_comp_def)
  ultimately have "path_join (hdir # xs) = path_join [hdir, join_with ''/'' xs]"
    using assms(3) h(2) by (simp add: path_join_def abs_path_def join_with_Cons)
  then have j: "path_join (hdir # xs) = abs_path ((ds @ [b]) @ xs)" using path_join_dir [OF c assms(3) h(2)] by simp
  show "good_path (path_join (hdir # xs))" unfolding j by (rule good_path_abs [OF c]) simp
  have "(ds @ [b]) @ xs = (ds @ b # butlast xs) @ [last xs]" using assms(3) by simp
  then show "path_base (path_join (hdir # xs)) = last xs" unfolding j using path_dir_abs(2) c by metis
  from join_with_append [of "ds @ [b]" xs] assms(3) show "path_join (hdir # xs) = hdir @ ''/'' @ join_with ''/'' xs"
    unfolding j unfolding h(2) by (simp add: abs_path_def)
qed

lemma temp_not_target:
  assumes "good_path p"
  shows "temp_name (path_dir p) (temp_prefix p) x \<noteq> p"
proof -
  obtain ds b where p: "clean_list (ds @ [b])" "p = abs_path (ds @ [b])" using assms by (rule good_pathE)
  have ds: "clean_list ds" using p(1) by (simp add: clean_list_def)
  note d = path_dir_abs [OF p(1)]
  show ?thesis
  proof (cases "ds = []")
    case True
    then have "p = CHR ''/'' # b" by (simp add: p(2) abs_path_def)
    then show ?thesis using True d p(2) by (auto simp: temp_name_def temp_prefix_def abs_path_def dest: arg_cong [of _ _ length])
  next
    case False
    then have "\<not> has_suffix (abs_path ds) ''/''" using ds by (simp add: abs_path_no_trailing)
    then have "length (temp_name (abs_path ds) (''.'' @ b @ ''.tmp-'') x) > length (abs_path ds @ ''/'' @ b)"
      by (simp add: temp_name_def)
    then have "length (temp_name (path_dir p) (temp_prefix p) x) > length p"
      unfolding p(2) temp_prefix_def d by (simp only: abs_path_snoc_eq [OF False])
    then show ?thesis by auto
  qed
qed

text \<open>Every state of a replacement: nothing has happened, or the temporary name was free and the
  state is as above.\<close>

definition in_replacement :: "hfiles \<Rightarrow> string \<Rightarrow> string \<Rightarrow> string \<Rightarrow> nat \<Rightarrow> hfiles \<Rightarrow> bool" where
  "in_replacement f0 t p data mode f \<longleftrightarrow> f = f0 \<or> (f0 t = None \<and> replacing f0 t p data mode f)"

lemma stage_temp_in_replacement:
  assumes "stage_temp v s sync dir prefix data mode = (s', r)"
    and "t = temp_name dir prefix (he_random v (hm_steps s))" "t \<noteq> p"
  shows "all_states (in_replacement (hm_files s) t p data mode) s s'"
  using stage_temp_states [OF assms] by (auto simp: in_replacement_def elim!: all_states_mono split: if_splits)

lemma publish_temp_states:
  assumes "publish_temp v s t p mode = (s', r)" "t \<noteq> p" "f0 t = None"
    and "hm_files s = f0(t := Some \<lparr>hf_mode = mode, hf_data = data\<rparr>)"
  shows "all_states (in_replacement f0 t p data mode) s s'"
    "r = None \<Longrightarrow> hm_files s' = f0(p := Some \<lparr>hf_mode = mode, hf_data = data\<rparr>)"
proof -
  let ?P = "in_replacement f0 t p data mode"
  let ?new = "Some \<lparr>hf_mode = mode, hf_data = data\<rparr>"
  have p0: "?P (hm_files s)" using assms(2,3) by (simp add: in_replacement_def replacing_def assms(4))
  obtain s1 e1 where h1: "hm_rename v s t p = (s1, e1)" by force
  have g: "?P f0" "?P (f0(p := ?new))"
    using assms(2,3) by (simp_all add: in_replacement_def replacing_def)
  have f1: "hm_files s1 = (if e1 = None then f0(p := ?new) else hm_files s)"
  proof -
    have "f0(t := None) = f0" using assms(3) by auto
    then show ?thesis using h1 assms(2) by (auto simp: hm_rename_def hm_on_file_def assms(4) fun_upd_twist split: option.splits)
  qed
  have a1: "all_states ?P s s1"
    using h1 unfolding hm_rename_def
    by (rule hm_on_file_states) (use p0 assms(2-4) in \<open>auto simp: in_replacement_def replacing_def\<close>)
  have t0: "f0(t := None) = f0" using assms(3) by auto
  have "all_states ?P s s' \<and> (r = None \<longrightarrow> hm_files s' = f0(p := ?new))"
  proof (cases e1)
    case (Some e)
    then have s': "s' = fst (hm_remove v s1 t)" "r \<noteq> None" using assms(1) h1 by (auto simp: publish_temp_def)
    have "all_states ?P s1 (fst (hm_remove v s1 t))"
      using all_states_end [OF a1] g(1) by (intro hm_remove_states) (simp_all add: f1 Some assms(4) t0)
    then show ?thesis using all_states_trans [OF a1] s' by auto
  next
    case None
    obtain s2 e2 where h2: "hm_chmod v s1 p mode = (s2, e2)" by force
    have f2: "hm_files s2 = f0(p := ?new)"
      using h2 f1 None by (auto simp: hm_chmod_def hm_on_file_def split: option.splits)
    have a2: "all_states ?P s1 s2"
      using h2 unfolding hm_chmod_def by (rule hm_on_file_states) (use g f1 None in auto)
    have s': "s' = fst (hm_remove v s2 t)" using assms(1) h1 h2 None by (auto simp: publish_temp_def)
    have fs: "hm_files s' = f0(p := ?new)"
      unfolding s' using assms(2,3) by (subst hm_remove_gone) (simp_all add: f2)
    have "(f0(p := ?new))(t := None) = f0(p := ?new)" using assms(2,3) by auto
    then have "all_states ?P s2 s'"
      unfolding s' using g by (intro hm_remove_states) (simp_all add: f2)
    then show ?thesis using all_states_trans [OF a1 all_states_trans [OF a2]] fs by blast
  qed
  then show "all_states ?P s s'" "r = None \<Longrightarrow> hm_files s' = f0(p := ?new)" by blast+
qed

lemma in_replacement_start: "in_replacement f0 t p d m f0"
  by (simp add: in_replacement_def)

section \<open>The contract of a writer\<close>

definition owner_only :: "nat \<Rightarrow> bool" where
  "owner_only m \<longleftrightarrow> m mod 64 = 0"

text \<open>A temporary name for \<open>p\<close>.\<close>

definition is_temp_of :: "string \<Rightarrow> string \<Rightarrow> bool" where
  "is_temp_of p t \<longleftrightarrow> has_prefix t (temp_name (path_dir p) (temp_prefix p) [])"

lemma is_temp_of_name [simp]: "is_temp_of p (temp_name (path_dir p) (temp_prefix p) x)"
  by (simp add: is_temp_of_def temp_name_def has_prefix_iff)

lemma sibling_not_temp:
  assumes "good_path q" "path_dir p = path_dir q" "hd (path_base q) \<noteq> CHR ''.''"
  shows "\<not> is_temp_of p q"
proof -
  obtain ds b where q: "clean_list (ds @ [b])" "q = abs_path (ds @ [b])" using assms(1) by (rule good_pathE)
  have ds: "clean_list ds" and b: "b \<noteq> []" using q(1) by (auto simp: clean_list_def clean_comp_def)
  note d = path_dir_abs [OF q(1), folded q(2)]
  have qs: "q = temp_name (path_dir p) [] b"
  proof (cases "ds = []")
    case True
    then show ?thesis using d by (simp add: q(2) temp_name_def assms(2) abs_path_def has_suffix_def)
  next
    case False
    then have "\<not> has_suffix (abs_path ds) ''/''" using ds by (simp add: abs_path_no_trailing)
    then show ?thesis using abs_path_snoc_eq [OF False, of b] d by (simp add: q(2) temp_name_def assms(2))
  qed
  show ?thesis
  proof
    assume "is_temp_of p q"
    then have "has_prefix b (temp_prefix p)" by (auto simp: is_temp_of_def qs temp_name_def has_prefix_iff split: if_splits)
    then show False using assms(3) b d(2) by (cases b) (simp_all add: temp_prefix_def)
  qed
qed

lemma join_home_dir:
  assumes "good_path hdir" "clean_list (xs @ [b])" "xs \<noteq> []"
  shows "path_dir (path_join (hdir # xs @ [b])) = path_join (hdir # xs)"
proof -
  obtain ds c where h: "clean_list (ds @ [c])" "hdir = abs_path (ds @ [c])" using assms(1) by (rule good_pathE)
  have cl: "clean_list xs" "clean_list (((ds @ [c]) @ xs) @ [b])" using h(1) assms(2) by (simp_all add: clean_list_def)
  have j: "path_join (hdir # ys) = abs_path ((ds @ [c]) @ ys)" if "clean_list ys" "ys \<noteq> []" for ys
    using join_home(3) [OF assms(1) that] join_with_append [of "ds @ [c]" ys] that(2) by (simp add: h(2) abs_path_def)
  show ?thesis
    using path_dir_abs(1) [OF cl(2)] j [OF assms(2)] j [OF cl(1) assms(3)] by simp
qed

locale atomic_writer =
  fixes wr :: "home_env \<Rightarrow> home \<Rightarrow> string \<Rightarrow> string \<Rightarrow> nat \<Rightarrow> home \<times> go_error option"
  assumes states: "good_path p \<Longrightarrow> wr v s p d m = (s', r) \<Longrightarrow>
      \<exists>t. is_temp_of p t \<and> all_states (in_replacement (hm_files s) t p d m) s s'"
    and finished: "good_path p \<Longrightarrow> wr v s p d m = (s', None) \<Longrightarrow>
      hm_files s' = (hm_files s)(p := Some \<lparr>hf_mode = m, hf_data = d\<rparr>)"
begin

lemma old_or_new:
  assumes "good_path p" "wr v s p d m = (s', r)"
  shows "all_states (\<lambda>f. f p = hm_files s p \<or> f p = Some \<lparr>hf_mode = m, hf_data = d\<rparr>) s s'"
  using states [OF assms] by (auto simp: in_replacement_def replacing_def elim!: all_states_mono)

lemma keeps_others:
  assumes "good_path p" "wr v s p d m = (s', r)" "q \<noteq> p" "hm_files s q \<noteq> None \<or> \<not> is_temp_of p q"
  shows "all_states (\<lambda>f. f q = hm_files s q) s s'"
proof -
  obtain t where t: "is_temp_of p t" "all_states (in_replacement (hm_files s) t p d m) s s'" using states [OF assms(1,2)] by blast
  show ?thesis using t(2)
    by (rule all_states_mono) (use assms(3,4) t(1) in \<open>cases "q = t"; auto simp: in_replacement_def replacing_def\<close>)
qed

lemma new_files:
  assumes "good_path p" "wr v s p d m = (s', r)"
  shows "all_states (\<lambda>f. \<forall>q x. f q = Some x \<longrightarrow> hm_files s q = Some x
      \<or> (hf_mode x \<in> {m, 384} \<and> hf_data x = take (length (hf_data x)) d)) s s'"
proof -
  obtain t where t: "all_states (in_replacement (hm_files s) t p d m) s s'" using states [OF assms] by blast
  have "\<forall>q x. f q = Some x \<longrightarrow> hm_files s q = Some x \<or> (hf_mode x \<in> {m, 384} \<and> hf_data x = take (length (hf_data x)) d)"
    if "in_replacement (hm_files s) t p d m f" for f
  proof (intro allI impI)
    fix q x assume q: "f q = Some x"
    show "hm_files s q = Some x \<or> (hf_mode x \<in> {m, 384} \<and> hf_data x = take (length (hf_data x)) d)"
      using that q by (cases "q = p"; cases "q = t") (auto simp: in_replacement_def replacing_def split: option.splits)
  qed
  with t show ?thesis by (rule all_states_mono)
qed

lemma failed_keeps:
  assumes "good_path p" "wr v s p d m = (s', r)" "hm_files s q \<noteq> None \<or> \<not> is_temp_of p q" "q \<noteq> p"
  shows "hm_files s' q = hm_files s q"
  using all_states_end [OF keeps_others [OF assms(1,2,4,3)]] by simp

end

lemma writer_law:
  assumes "good_path p" "hm_files s0 = hm_files s" "all_states (\<lambda>f. f = hm_files s) s s0"
    and "stage_temp v s0 sync (path_dir p) (temp_prefix p) d m = (s1, x)"
    and "(case x of Inl y \<Rightarrow> (s1, Some (g y)) | Inr t \<Rightarrow> (case publish_temp v s1 t p m of (s2, r) \<Rightarrow> (s2, map_option h r))) = (s', r)"
  shows "\<exists>t. is_temp_of p t \<and> all_states (in_replacement (hm_files s) t p d m) s s'"
    "r = None \<Longrightarrow> hm_files s' = (hm_files s)(p := Some \<lparr>hf_mode = m, hf_data = d\<rparr>)"
proof -
  define t where "t = temp_name (path_dir p) (temp_prefix p) (he_random v (hm_steps s0))"
  have t: "t \<noteq> p" "is_temp_of p t" using temp_not_target [OF assms(1)] by (simp_all add: t_def)
  have a0: "all_states (in_replacement (hm_files s) t p d m) s s0"
    using assms(3) by (rule all_states_mono) (simp add: in_replacement_start)
  have a1: "all_states (in_replacement (hm_files s) t p d m) s0 s1"
    using stage_temp_in_replacement [OF assms(4) t_def t(1)] by (simp add: assms(2))
  have "all_states (in_replacement (hm_files s) t p d m) s s'
    \<and> (r = None \<longrightarrow> hm_files s' = (hm_files s)(p := Some \<lparr>hf_mode = m, hf_data = d\<rparr>))"
  proof (cases x)
    case (Inl y)
    then show ?thesis using assms(5) all_states_trans [OF a0 a1] by auto
  next
    case (Inr u)
    note o = stage_temp_ok [OF assms(4) [unfolded Inr]]
    then have u: "u = t" by (simp add: t_def)
    obtain r2 where pb: "publish_temp v s1 t p m = (s', r2)" "r = map_option h r2"
      using assms(5) Inr u by (auto split: prod.splits)
    note ps = publish_temp_states [OF pb(1) t(1), of "hm_files s" d]
    have "all_states (in_replacement (hm_files s) t p d m) s1 s'" "r2 = None \<Longrightarrow> hm_files s' = (hm_files s)(p := Some \<lparr>hf_mode = m, hf_data = d\<rparr>)"
      using ps o u by (auto simp: assms(2))
    then show ?thesis using all_states_trans [OF a0 all_states_trans [OF a1]] pb(2) by auto
  qed
  then show "\<exists>t. is_temp_of p t \<and> all_states (in_replacement (hm_files s) t p d m) s s'"
    "r = None \<Longrightarrow> hm_files s' = (hm_files s)(p := Some \<lparr>hf_mode = m, hf_data = d\<rparr>)" using t by blast+
qed

lemma writer_mkdir:
  assumes "good_path p" "hm_mkdir_all v s (path_dir p) = (s0, e)"
    and "stage_temp v s0 sync (path_dir p) (temp_prefix p) d m = (s1, x)"
    and "(case e of Some z \<Rightarrow> (s0, Some z) | None \<Rightarrow>
      (case x of Inl y \<Rightarrow> (s1, Some (g y)) | Inr t \<Rightarrow> (case publish_temp v s1 t p m of (s2, r) \<Rightarrow> (s2, map_option h r)))) = (s', r)"
  shows "\<exists>t. is_temp_of p t \<and> all_states (in_replacement (hm_files s) t p d m) s s'"
    "r = None \<Longrightarrow> hm_files s' = (hm_files s)(p := Some \<lparr>hf_mode = m, hf_data = d\<rparr>)"
proof -
  have a: "all_states (\<lambda>f. f = hm_files s) s s0" "hm_files s0 = hm_files s"
    using assms(2) hm_mkdir_all_states hm_mkdir_all_files by auto
  have "(\<exists>t. is_temp_of p t \<and> all_states (in_replacement (hm_files s) t p d m) s s')
    \<and> (r = None \<longrightarrow> hm_files s' = (hm_files s)(p := Some \<lparr>hf_mode = m, hf_data = d\<rparr>))"
  proof (cases e)
    case (Some z)
    then have "s' = s0" "r \<noteq> None" using assms(4) by auto
    moreover have "all_states (in_replacement (hm_files s) (temp_name (path_dir p) (temp_prefix p) []) p d m) s s0"
      using a(1) by (rule all_states_mono) (simp add: in_replacement_start)
    ultimately show ?thesis using is_temp_of_name by blast
  next
    case None
    then show ?thesis using writer_law [OF assms(1) a(2,1) assms(3), of g h s' r] assms(4) by auto
  qed
  then show "\<exists>t. is_temp_of p t \<and> all_states (in_replacement (hm_files s) t p d m) s s'"
    "r = None \<Longrightarrow> hm_files s' = (hm_files s)(p := Some \<lparr>hf_mode = m, hf_data = d\<rparr>)" by blast+
qed

lemma store_write_alt:
  "store_write v s p d m =
     (case hm_mkdir_all v s (path_dir p) of (s0, e) \<Rightarrow>
        (case stage_temp v s0 False (path_dir p) (temp_prefix p) d m of (s1, x) \<Rightarrow>
           (case e of Some z \<Rightarrow> (s0, Some z) | None \<Rightarrow>
              (case x of Inl y \<Rightarrow> (s1, Some (store_stage_error p y)) | Inr t \<Rightarrow> (case publish_temp v s1 t p m of (s2, r) \<Rightarrow>
                 (s2, map_option (\<lambda>(renaming, e). if renaming then Wrapf (Fmt ''replace %s: %w'' [Lit p, error_text e]) e else e) r))))))"
  by (auto simp: store_write_def split: prod.splits option.splits sum.splits)

lemma fscred_write_alt:
  "fscred_write v s p d m =
     (case hm_mkdir_all v s (path_dir p) of (s0, e) \<Rightarrow>
        (case stage_temp v s0 True (path_dir p) (temp_prefix p) d m of (s1, x) \<Rightarrow>
           (case e of Some z \<Rightarrow> (s0, Some z) | None \<Rightarrow>
              (case x of Inl y \<Rightarrow> (s1, Some (snd y)) | Inr t \<Rightarrow> (case publish_temp v s1 t p m of (s2, r) \<Rightarrow> (s2, map_option snd r))))))"
  by (auto simp: fscred_write_def split: prod.splits option.splits sum.splits)

lemma settings_write_alt:
  "settings_write v s p d m =
     (case stage_temp v s True (path_dir p) (temp_prefix p) d m of (s1, x) \<Rightarrow>
        (case x of Inl y \<Rightarrow> (s1, Some (snd y)) | Inr t \<Rightarrow> (case publish_temp v s1 t p m of (s2, r) \<Rightarrow> (s2, map_option snd r))))"
  by (auto simp: settings_write_def split: prod.splits option.splits sum.splits)

interpretation store: atomic_writer store_write
proof
  fix p v s d m s' r assume g: "good_path p"
  obtain s0 e where h: "hm_mkdir_all v s (path_dir p) = (s0, e)" by force
  obtain s1 x where k: "stage_temp v s0 False (path_dir p) (temp_prefix p) d m = (s1, x)" by force
  { assume "store_write v s p d m = (s', r)"
    then show "\<exists>t. is_temp_of p t \<and> all_states (in_replacement (hm_files s) t p d m) s s'"
      unfolding store_write_alt h k prod.case by (rule writer_mkdir(1) [OF g h k]) }
  { assume "store_write v s p d m = (s', None)"
    then show "hm_files s' = (hm_files s)(p := Some \<lparr>hf_mode = m, hf_data = d\<rparr>)"
      unfolding store_write_alt h k prod.case by (rule writer_mkdir(2) [OF g h k _ refl]) }
qed

interpretation fscred: atomic_writer fscred_write
proof
  fix p v s d m s' r assume g: "good_path p"
  obtain s0 e where h: "hm_mkdir_all v s (path_dir p) = (s0, e)" by force
  obtain s1 x where k: "stage_temp v s0 True (path_dir p) (temp_prefix p) d m = (s1, x)" by force
  { assume "fscred_write v s p d m = (s', r)"
    then show "\<exists>t. is_temp_of p t \<and> all_states (in_replacement (hm_files s) t p d m) s s'"
      unfolding fscred_write_alt h k prod.case by (rule writer_mkdir(1) [OF g h k]) }
  { assume "fscred_write v s p d m = (s', None)"
    then show "hm_files s' = (hm_files s)(p := Some \<lparr>hf_mode = m, hf_data = d\<rparr>)"
      unfolding fscred_write_alt h k prod.case by (rule writer_mkdir(2) [OF g h k _ refl]) }
qed

interpretation settings: atomic_writer settings_write
proof
  fix p v s d m s' r assume g: "good_path p"
  obtain s1 x where k: "stage_temp v s True (path_dir p) (temp_prefix p) d m = (s1, x)" by force
  have a: "all_states (\<lambda>f. f = hm_files s) s s" by (rule all_states_refl) simp
  { assume "settings_write v s p d m = (s', r)"
    then show "\<exists>t. is_temp_of p t \<and> all_states (in_replacement (hm_files s) t p d m) s s'"
      unfolding settings_write_alt k prod.case by (rule writer_law(1) [OF g refl a k]) }
  { assume "settings_write v s p d m = (s', None)"
    then show "hm_files s' = (hm_files s)(p := Some \<lparr>hf_mode = m, hf_data = d\<rparr>)"
      unfolding settings_write_alt k prod.case by (rule writer_law(2) [OF g refl a k _ refl]) }
qed

end
