(* ===== verification/Placement.thy ===== *)
theory Placement
  imports Go_Errors "HOL-Library.List_Lexorder" "HOL-Library.Char_ord"
begin

text \<open>
  Where a request goes: the regions the program knows (\<open>config/region/region.go\<close>), the
  endpoints of the services (\<open>api/endpoints/endpoints.go\<close>) and environment variables with
  their older names (\<open>config/envcompat/envcompat.go\<close>).  A Go map is an association list in
  the order of its keys; where the code visits a map it sorts what it collects.  Parsing a
  URL, fetching and decoding a manifest are parameters.
\<close>

section \<open>Regions\<close>

record region =
  rg_code :: string
  rg_label :: string

record placement =
  pl_code :: string
  pl_prefix :: string
  pl_provider :: string
  pl_native :: string
  pl_region_label :: string

definition no_placement :: placement where
  "no_placement = \<lparr>pl_code = [], pl_prefix = [], pl_provider = [], pl_native = [], pl_region_label = []\<rparr>"

definition supported :: "(string \<times> region list) list" where
  "supported =
     [(''alibaba_cloud'', [\<lparr>rg_code = ''ap-southeast-1'', rg_label = ''Singapore''\<rparr>]),
      (''aws'',
        [\<lparr>rg_code = ''us-east-1'', rg_label = ''N. Virginia''\<rparr>,
         \<lparr>rg_code = ''us-west-2'', rg_label = ''Oregon''\<rparr>,
         \<lparr>rg_code = ''eu-central-1'', rg_label = ''Frankfurt''\<rparr>,
         \<lparr>rg_code = ''ap-northeast-1'', rg_label = ''Tokyo''\<rparr>,
         \<lparr>rg_code = ''ap-southeast-1'', rg_label = ''Singapore''\<rparr>]),
      (''azure'', [\<lparr>rg_code = ''centralus'', rg_label = ''Central US''\<rparr>]),
      (''gcp'', [\<lparr>rg_code = ''us-east1'', rg_label = ''South Carolina''\<rparr>])]"

definition placement_key :: "string \<Rightarrow> string \<Rightarrow> string" where
  "placement_key provider region_code = provider @ CHR 0x00 # region_code"

definition filesystem_only :: "string list" where
  "filesystem_only = [placement_key ''gcp'' ''us-east1'', placement_key ''azure'' ''centralus'']"

definition provider_prefixes :: "(string \<times> string) list" where
  "provider_prefixes = [(''ali'', ''alibaba_cloud''), (''alicloud'', ''alibaba_cloud''), (''aws'', ''aws''),
     (''azure'', ''azure''), (''gcp'', ''gcp'')]"

definition provider_to_prefix :: "string \<Rightarrow> string option" where
  "provider_to_prefix = map_of [(''aws'', ''aws''), (''alibaba_cloud'', ''alicloud''), (''gcp'', ''gcp''), (''azure'', ''azure'')]"

text \<open>The zero value of a missing map entry.\<close>

definition or_empty :: "string option \<Rightarrow> string" where
  "or_empty v = (case v of None \<Rightarrow> [] | Some s \<Rightarrow> s)"

definition providers :: "string list" where
  "providers = sort (map fst supported)"

definition regions :: "string \<Rightarrow> go_error + region list" where
  "regions provider =
     (case map_of supported provider of
        None \<Rightarrow> Inl (Msg (Fmt ''unsupported cloud provider %q'' [Lit provider]))
      | Some rs \<Rightarrow> Inr rs)"

definition placements :: "placement list" where
  "placements = sort_key pl_code (concat (map (\<lambda>(provider, rs). map (\<lambda>r.
     \<lparr>pl_code = or_empty (provider_to_prefix provider) @ ''-'' @ rg_code r, pl_prefix = or_empty (provider_to_prefix provider),
      pl_provider = provider, pl_native = rg_code r, pl_region_label = rg_label r\<rparr>) rs) supported))"

definition default_placement_code :: string where
  "default_placement_code = ''aws'' @ ''-us-east-1''"

text \<open>The table has no provider without a region, so the first element is there.\<close>

definition default_region :: "string \<Rightarrow> go_error + string" where
  "default_region provider = (case regions provider of Inl e \<Rightarrow> Inl e | Inr rs \<Rightarrow> Inr (rg_code (hd rs)))"

definition join_providers :: string where
  "join_providers = join_with '', '' providers"

definition join_provider_prefixes :: string where
  "join_provider_prefixes = join_with '', '' (sort (map fst provider_prefixes))"

definition join_regions :: "region list \<Rightarrow> string" where
  "join_regions rs = join_with '', '' (sort (map rg_code rs))"

definition validate_placement :: "string \<Rightarrow> string \<Rightarrow> go_error option" where
  "validate_placement provider region_code =
     (case map_of supported provider of
        None \<Rightarrow> Some (Msg (Fmt ''unsupported cloud provider %q; supported providers: %s'' [Lit provider, Lit join_providers]))
      | Some rs \<Rightarrow>
        if list_ex (\<lambda>r. rg_code r = region_code) rs then None
        else Some (Msg (Fmt ''unsupported region %q for cloud provider %q; supported regions: %s''
          [Lit region_code, Lit provider, Lit (join_regions rs)])))"

definition validate_starter :: "string \<Rightarrow> string \<Rightarrow> go_error option" where
  "validate_starter provider region_code =
     (case validate_placement provider region_code of
        Some e \<Rightarrow> Some e
      | None \<Rightarrow>
        if placement_key provider region_code \<in> set filesystem_only
        then Some (Msg (Fmt ''placement %q serves TiDB Cloud Filesystem only, not TiDB Cloud Starter''
          [Lit (or_empty (provider_to_prefix provider) @ ''-'' @ region_code)]))
        else None)"

definition validate_filesystem :: "string \<Rightarrow> string \<Rightarrow> go_error option" where
  "validate_filesystem provider region_code = validate_placement provider region_code"

definition canonical_code :: "string \<Rightarrow> string \<Rightarrow> go_error + string" where
  "canonical_code provider native =
     (case validate_placement provider native of
        Some e \<Rightarrow> Inl e
      | None \<Rightarrow>
        (case provider_to_prefix provider of
           None \<Rightarrow> Inl (Msg (Fmt ''unsupported cloud provider %q; supported providers: %s'' [Lit provider, Lit join_providers]))
         | Some prefix \<Rightarrow> Inr (prefix @ ''-'' @ native)))"

text \<open>\<open>strings.Cut\<close> at a single byte.\<close>

definition cut_at :: "char \<Rightarrow> string \<Rightarrow> (string \<times> string) option" where
  "cut_at c s = (if c \<in> set s then Some (takeWhile (\<lambda>x. x \<noteq> c) s, tl (dropWhile (\<lambda>x. x \<noteq> c) s)) else None)"

definition parse_placement_code :: "string \<Rightarrow> go_error + placement" where
  "parse_placement_code code0 =
     (let code = trim_space code0;
          bad = Inl (Msg (Fmt ''unsupported region code %q; expected values such as %s'' [Lit code, Lit default_placement_code]))
      in case cut_at (CHR ''-'') code of
        None \<Rightarrow> bad
      | Some (prefix, native) \<Rightarrow>
        if prefix = [] \<or> native = [] then bad
        else case map_of provider_prefixes prefix of
          None \<Rightarrow> Inl (Msg (Fmt ''unsupported cloud provider prefix %q in region code %q; supported prefixes: %s''
            [Lit prefix, Lit code, Lit join_provider_prefixes]))
        | Some provider \<Rightarrow>
          (case validate_placement provider native of
             Some e \<Rightarrow> Inl e
           | None \<Rightarrow> Inr
             \<lparr>pl_code = or_empty (provider_to_prefix provider) @ ''-'' @ native, pl_prefix = or_empty (provider_to_prefix provider),
              pl_provider = provider, pl_native = native,
              pl_region_label = (case regions provider of
                  Inl _ \<Rightarrow> []
                | Inr rs \<Rightarrow> (case find (\<lambda>r. rg_code r = native) rs of None \<Rightarrow> [] | Some r \<Rightarrow> rg_label r))\<rparr>))"

section \<open>Environment variables\<close>

record env_pair =
  ev_canonical :: string
  ev_legacy :: string

definition public_pairs :: "env_pair list" where
  "public_pairs = map (\<lambda>(c, l). \<lparr>ev_canonical = c, ev_legacy = l\<rparr>)
     [(''TI_PROFILE'', ''TDC_PROFILE''), (''TI_REGION_CODE'', ''TDC_REGION_CODE''),
      (''TIDB_CLOUD_PUBLIC_KEY'', ''TDC_PUBLIC_KEY''), (''TIDB_CLOUD_PRIVATE_KEY'', ''TDC_PRIVATE_KEY''),
      (''TI_FS_TOKEN'', ''TDC_FS_TOKEN''), (''TI_FS_FILE_SYSTEM_ID'', ''TDC_FS_FILE_SYSTEM_ID''),
      (''TI_LOGGING'', ''TDC_LOGGING''), (''TI_TELEMETRY'', ''TDC_TELEMETRY''),
      (''TI_TELEMETRY_TAG'', ''TDC_TELEMETRY_TAG''), (''TI_TELEMETRY_EXTRA'', ''TDC_TELEMETRY_EXTRA''),
      (''TI_VAULT_TOKEN'', ''TDC_VAULT_TOKEN''), (''TI_INSTALL_DIR'', ''TDC_INSTALL_DIR'')]"

text \<open>An environment: the map the caller passes, or none (nil), and then the one of the process.\<close>

type_synonym environment = "(string \<rightharpoonup> string) option \<times> (string \<rightharpoonup> string)"

definition env_lookup :: "environment \<Rightarrow> string \<Rightarrow> string option" where
  "env_lookup env key = (case fst env of Some m \<Rightarrow> m key | None \<Rightarrow> snd env key)"

text \<open>The value, whether there is one, and whether the older name supplied it.\<close>

definition env_resolve :: "environment \<Rightarrow> env_pair \<Rightarrow> go_error + string \<times> bool \<times> bool" where
  "env_resolve env p =
     (let c = env_lookup env (ev_canonical p); l = env_lookup env (ev_legacy p) in
      if c \<noteq> None \<and> l \<noteq> None \<and> c \<noteq> l then Inl (app_new ''config.environment_conflict'' ''config'' 2
        (Fmt ''environment variables %s and %s contain different values; unset one or make them equal''
          [Lit (ev_canonical p), Lit (ev_legacy p)]))
      else case c of
        Some v \<Rightarrow> Inr (v, True, False)
      | None \<Rightarrow> (case l of Some v \<Rightarrow> Inr (v, True, True) | None \<Rightarrow> Inr ([], False, False)))"

definition resolve_names :: "environment \<Rightarrow> string \<Rightarrow> string \<Rightarrow> go_error + string \<times> bool \<times> bool" where
  "resolve_names env c l = env_resolve env \<lparr>ev_canonical = c, ev_legacy = l\<rparr>"

definition legacy_names :: "environment \<Rightarrow> string list" where
  "legacy_names env = sort (map ev_legacy (filter (\<lambda>p. env_lookup env (ev_legacy p) \<noteq> None) public_pairs))"

fun env_validate_pairs :: "environment \<Rightarrow> env_pair list \<Rightarrow> go_error option" where
  "env_validate_pairs env [] = None"
| "env_validate_pairs env (p # ps) =
     (case env_resolve env p of Inl e \<Rightarrow> Some e | Inr _ \<Rightarrow> env_validate_pairs env ps)"

definition env_validate :: "environment \<Rightarrow> go_error option" where
  "env_validate env = env_validate_pairs env public_pairs"

text \<open>\<open>strings.Replace\<close> of the first occurrence.\<close>

fun replace_first :: "string \<Rightarrow> string \<Rightarrow> string \<Rightarrow> string" where
  "replace_first [] old new = (if old = [] then new else [])"
| "replace_first (c # s) old new =
     (if has_prefix (c # s) old then new @ trim_prefix (c # s) old else c # replace_first s old new)"

definition legacy_name_for :: "string \<Rightarrow> string" where
  "legacy_name_for canonical =
     (case find (\<lambda>p. ev_canonical p = canonical) public_pairs of
        Some p \<Rightarrow> ev_legacy p
      | None \<Rightarrow> replace_first canonical ''TI_'' ''TDC_'')"

section \<open>Endpoints\<close>

record endpoint =
  en_service :: string
  en_base_url :: string
  en_provider :: string
  en_api_provider :: string
  en_region_code :: string
  en_region_name :: string

definition no_endpoint :: endpoint where
  "no_endpoint = \<lparr>en_service = [], en_base_url = [], en_provider = [], en_api_provider = [], en_region_code = [], en_region_name = []\<rparr>"

record manifest_entry =
  me_region_code :: string
  me_mode :: string
  me_server_url :: string
  me_cloud_provider :: string
  me_tidb_region :: string
  me_tags :: "string list"

record manifest =
  mf_service :: string
  mf_default :: "(string \<times> string) option"
  mf_regions :: "manifest_entry list"

record resolver =
  rs_starter :: string
  rs_iam :: string
  rs_fs_base_urls :: "((string \<times> string) \<rightharpoonup> string) option"
  rs_manifest_url :: string
  rs_mode :: string
  rs_manifest :: "manifest option"
  rs_http_client :: bool

text \<open>What a resolver calls: parsing a URL into its scheme and host, building and sending the
  request for a manifest (status and body) and decoding it.\<close>

record web =
  wb_parse_url :: "string \<Rightarrow> go_error + string \<times> string"
  wb_build :: "string \<Rightarrow> go_error option"
  wb_get :: "string \<Rightarrow> go_error + int \<times> string"
  wb_decode :: "string \<Rightarrow> go_error + manifest"

definition starter_base_url :: string where
  "starter_base_url = ''https://serverless.tidbapi.com''"

definition iam_base_url :: string where
  "iam_base_url = ''https://iam.tidbapi.com''"

definition default_fs_mode :: string where
  "default_fs_mode = ''tidb_cloud_native''"

definition non_blank :: "string \<Rightarrow> string \<Rightarrow> string" where
  "non_blank v d = (if trim_space v \<noteq> [] then trim_space v else d)"

definition new_resolver :: "(string \<Rightarrow> string) \<Rightarrow> resolver" where
  "new_resolver getenv =
     (let r = \<lparr>rs_starter = starter_base_url, rs_iam = iam_base_url, rs_fs_base_urls = None, rs_manifest_url = [],
          rs_mode = default_fs_mode, rs_manifest = None, rs_http_client = False\<rparr>
      in if getenv ''TI_ALLOW_TEST_ENDPOINTS'' = ''1''
         then r\<lparr>rs_starter := non_blank (getenv ''TI_TEST_STARTER_BASE_URL'') (rs_starter r),
                rs_iam := non_blank (getenv ''TI_TEST_IAM_BASE_URL'') (rs_iam r),
                rs_manifest_url := non_blank (getenv ''TI_TEST_FS_MANIFEST_URL'') (rs_manifest_url r)\<rparr>
         else r)"

definition resolver_is_zero :: "resolver \<Rightarrow> bool" where
  "resolver_is_zero r \<longleftrightarrow> rs_starter r = [] \<and> rs_iam r = [] \<and> rs_fs_base_urls r = None \<and> rs_manifest_url r = []
     \<and> rs_mode r = [] \<and> rs_manifest r = None \<and> \<not> rs_http_client r"

definition api_provider :: "string \<Rightarrow> string" where
  "api_provider provider = (if provider = ''alibaba_cloud'' then ''alicloud'' else provider)"

text \<open>The cause is nil when parsing succeeded.\<close>

definition validate_base_url :: "web \<Rightarrow> string \<Rightarrow> go_error option" where
  "validate_base_url w v =
     (let m = Fmt ''invalid internal endpoint %q'' [Lit v] in
      case wb_parse_url w v of
        Inl e \<Rightarrow> Some (app_wrap ''api.invalid_endpoint'' ''config'' 2 m e)
      | Inr (scheme, host) \<Rightarrow>
        if scheme = [] \<or> host = [] then Some (app_new ''api.invalid_endpoint'' ''config'' 2 m)
        else if scheme \<noteq> ''https'' \<and> scheme \<noteq> ''http'' then Some (app_new ''api.invalid_endpoint'' ''config'' 2
          (Fmt ''invalid internal endpoint %q: scheme must be https or http'' [Lit v]))
        else None)"

definition trim_right_slash :: "string \<Rightarrow> string" where
  "trim_right_slash s = rev (dropWhile (\<lambda>c. c = CHR ''/'') (rev s))"

definition resolve_starter :: "web \<Rightarrow> resolver \<Rightarrow> string \<Rightarrow> string \<Rightarrow> go_error + endpoint" where
  "resolve_starter w r provider region_code =
     (case validate_starter provider region_code of
        Some e \<Rightarrow> Inl (app_wrap ''config.invalid_region'' ''config'' 2 (error_text e) e)
      | None \<Rightarrow>
        (let base = (if rs_starter r = [] then starter_base_url else rs_starter r) in
         case validate_base_url w base of
           Some e \<Rightarrow> Inl e
         | None \<Rightarrow> Inr \<lparr>en_service = ''starter'', en_base_url = trim_right_slash base, en_provider = provider,
             en_api_provider = api_provider provider, en_region_code = region_code,
             en_region_name = ''regions/'' @ api_provider provider @ ''-'' @ region_code\<rparr>))"

definition resolve_iam :: "web \<Rightarrow> resolver \<Rightarrow> go_error + endpoint" where
  "resolve_iam w r =
     (let base = (if rs_iam r = [] then iam_base_url else rs_iam r) in
      case validate_base_url w base of
        Some e \<Rightarrow> Inl e
      | None \<Rightarrow> Inr (no_endpoint\<lparr>en_service := ''iam'', en_base_url := trim_right_slash base\<rparr>))"

definition fs_endpoint :: "web \<Rightarrow> string \<Rightarrow> string \<Rightarrow> string \<Rightarrow> string \<Rightarrow> go_error + endpoint" where
  "fs_endpoint w provider region_code region_name base =
     (case validate_base_url w base of
        Some e \<Rightarrow> Inl e
      | None \<Rightarrow> Inr \<lparr>en_service = ''fs'', en_base_url = trim_right_slash base, en_provider = provider,
          en_api_provider = api_provider provider, en_region_code = region_code, en_region_name = region_name\<rparr>)"

section \<open>The manifest of file-system regions\<close>

definition built_in_manifest :: manifest where
  "built_in_manifest =
     \<lparr>mf_service = ''ti-fs'', mf_default = None, mf_regions = map (\<lambda>(code, url, cloud, reg).
        \<lparr>me_region_code = code, me_mode = default_fs_mode, me_server_url = url, me_cloud_provider = cloud,
         me_tidb_region = reg, me_tags = []\<rparr>)
       [(''aws-us-east-1'', ''https://aws-us-east-1.drive9.ai'', ''aws'', ''us-east-1''),
        (''aws-ap-southeast-1'', ''https://aws-ap-southeast-1.drive9.ai'', ''aws'', ''ap-southeast-1''),
        (''aws-us-west-2'', ''https://aws-us-west-2.drive9.ai'', ''aws'', ''us-west-2''),
        (''alicloud-ap-southeast-1'', ''https://alicloud-ap-southeast-1.drive9.ai'', ''alicloud'', ''ap-southeast-1''),
        (''gcp-us-east1'', ''https://gcp-us-east1.drive9.ai'', ''gcp'', ''us-east1''),
        (''azure-centralus'', ''https://azure-centralus.drive9.ai'', ''azure'', ''centralus'')]\<rparr>"

definition manifest_invalid :: "gotext \<Rightarrow> go_error" where
  "manifest_invalid m = app_new ''api.fs_manifest_invalid'' ''api'' 1 m"

definition trim_entry :: "manifest_entry \<Rightarrow> manifest_entry" where
  "trim_entry e = e\<lparr>me_region_code := trim_space (me_region_code e), me_mode := trim_space (me_mode e),
     me_server_url := trim_space (me_server_url e), me_cloud_provider := trim_space (me_cloud_provider e),
     me_tidb_region := trim_space (me_tidb_region e)\<rparr>"

definition manifest_key :: "string \<Rightarrow> string \<Rightarrow> string" where
  "manifest_key code mode = code @ CHR 0x00 # mode"

text \<open>The entries trimmed and the table of keys with their positions.\<close>

fun check_entries ::
  "nat \<Rightarrow> manifest_entry list \<Rightarrow> (string \<times> nat) list \<Rightarrow> go_error + manifest_entry list \<times> (string \<times> nat) list" where
  "check_entries i [] seen = Inr ([], seen)"
| "check_entries i (e0 # es) seen =
     (let e = trim_entry e0; k = manifest_key (me_region_code e) (me_mode e);
          missing = (\<lambda>what. Inl (manifest_invalid (Fmt (''ti fs region manifest entry %d missing '' @ what) [Lit (nat_digits i)])))
      in if me_region_code e = [] then missing ''region_code''
         else if me_mode e = [] then missing ''mode''
         else if me_server_url e = [] then missing ''server_url''
         else case map_of seen k of
           Some j \<Rightarrow> Inl (manifest_invalid (Fmt ''ti fs region manifest entries %d and %d duplicate region_code %q mode %q''
             [Lit (nat_digits j), Lit (nat_digits i), Lit (me_region_code e), Lit (me_mode e)]))
         | None \<Rightarrow>
           (case check_entries (Suc i) es ((k, i) # seen) of
              Inl x \<Rightarrow> Inl x
            | Inr (es', seen') \<Rightarrow> Inr (e # es', seen')))"

definition validate_manifest :: "manifest \<Rightarrow> go_error + manifest" where
  "validate_manifest m =
     (if mf_regions m = [] then Inl (manifest_invalid (Lit ''ti fs region manifest has no regions''))
      else case check_entries 0 (mf_regions m) [] of
        Inl x \<Rightarrow> Inl x
      | Inr (es, seen) \<Rightarrow>
        (case mf_default m of
           None \<Rightarrow> Inr (m\<lparr>mf_regions := es\<rparr>)
         | Some (code0, mode0) \<Rightarrow>
           (let code = trim_space code0; mode = trim_space mode0 in
            if code = [] \<or> mode = [] then Inl (manifest_invalid (Lit ''ti fs region manifest default must include region_code and mode''))
            else if map_of seen (manifest_key code mode) = None then
              Inl (manifest_invalid (Fmt ''ti fs region manifest default %q/%q not found in regions'' [Lit code, Lit mode]))
            else Inr (m\<lparr>mf_regions := es, mf_default := Some (code, mode)\<rparr>))))"

definition fetch_manifest :: "web \<Rightarrow> string \<Rightarrow> go_error + manifest" where
  "fetch_manifest w url =
     (case wb_build w url of
        Some e \<Rightarrow> Inl (app_wrap ''api.fs_manifest_request'' ''api'' 1 (Lit ''build test ti fs region manifest request'') e)
      | None \<Rightarrow>
        (case wb_get w url of
           Inl e \<Rightarrow> Inl (app_wrap ''api.fs_manifest_unavailable'' ''api'' 1
             (Fmt ''test ti fs region manifest unavailable: fetch %s'' [Lit url]) e)
         | Inr (status, body) \<Rightarrow>
           if status \<noteq> 200 then Inl (app_new ''api.fs_manifest_unavailable'' ''api'' 1
             (Fmt ''test ti fs region manifest fetch %s returned HTTP %d'' [Lit url, Lit (int_digits status)]))
           else case wb_decode w body of
             Inl e \<Rightarrow> Inl (app_wrap ''api.fs_manifest_decode'' ''api'' 1 (Lit ''decode test ti fs region manifest'') e)
           | Inr m \<Rightarrow> validate_manifest m))"

definition resolver_manifest :: "web \<Rightarrow> resolver \<Rightarrow> go_error + manifest" where
  "resolver_manifest w r =
     (case rs_manifest r of
        Some m \<Rightarrow> validate_manifest m
      | None \<Rightarrow>
        (let url = trim_space (rs_manifest_url r) in
         if url \<noteq> [] then fetch_manifest w url else validate_manifest built_in_manifest))"

definition fs_region_code :: "string \<Rightarrow> string \<Rightarrow> string" where
  "fs_region_code provider region_code = api_provider provider @ ''-'' @ region_code"

definition entry_matches :: "manifest_entry \<Rightarrow> string \<Rightarrow> string \<Rightarrow> string \<Rightarrow> bool" where
  "entry_matches e provider api region_code \<longleftrightarrow>
     (if me_cloud_provider e \<noteq> [] \<or> me_tidb_region e \<noteq> []
      then me_cloud_provider e = api \<and> me_tidb_region e = region_code
      else me_region_code e = fs_region_code provider region_code)"

definition supported_fs_regions :: "manifest_entry list \<Rightarrow> string \<Rightarrow> string" where
  "supported_fs_regions es mode =
     (let vs = sort (remdups (map me_region_code (filter (\<lambda>e. trim_space (me_mode e) = mode) es)))
      in if vs = [] then ''none'' else join_with '', '' vs)"

definition select_entry :: "manifest_entry list \<Rightarrow> string \<Rightarrow> string \<Rightarrow> string \<Rightarrow> go_error + manifest_entry" where
  "select_entry es provider region_code mode0 =
     (let mode = trim_space mode0 in
      case filter (\<lambda>e. trim_space (me_mode e) = mode \<and> entry_matches e provider (api_provider provider) region_code) es of
        [e] \<Rightarrow> Inr e
      | [] \<Rightarrow> Inl (app_new ''api.fs_endpoint_unsupported'' ''config'' 2
          (Fmt ''ti fs is not available for %s/%s in mode %s; supported ti fs regions: %s''
            [Lit provider, Lit region_code, Lit mode, Lit (supported_fs_regions es mode)]))
      | _ \<Rightarrow> Inl (app_new ''api.fs_endpoint_ambiguous'' ''api'' 1
          (Fmt ''ti fs region manifest has multiple endpoints for %s/%s in mode %s'' [Lit provider, Lit region_code, Lit mode])))"

definition resolve_fs :: "web \<Rightarrow> resolver \<Rightarrow> string \<Rightarrow> string \<Rightarrow> go_error + endpoint" where
  "resolve_fs w r provider region_code =
     (case validate_filesystem provider region_code of
        Some e \<Rightarrow> Inl (app_wrap ''config.invalid_region'' ''config'' 2 (error_text e) e)
      | None \<Rightarrow>
        (let base = (case rs_fs_base_urls r of None \<Rightarrow> [] | Some m \<Rightarrow> or_empty (m (provider, region_code))) in
         if base \<noteq> [] then fs_endpoint w provider region_code [] base
         else
           (let mode0 = trim_space (rs_mode r); mode = (if mode0 = [] then default_fs_mode else mode0) in
            case resolver_manifest w r of
              Inl e \<Rightarrow> Inl e
            | Inr m \<Rightarrow>
              (case select_entry (mf_regions m) provider region_code mode of
                 Inl e \<Rightarrow> Inl e
               | Inr e \<Rightarrow> fs_endpoint w provider region_code (me_region_code e) (me_server_url e)))))"

definition resolve_service :: "web \<Rightarrow> resolver \<Rightarrow> string \<Rightarrow> string \<Rightarrow> string \<Rightarrow> go_error + endpoint" where
  "resolve_service w r service provider region_code =
     (if service = ''starter'' then resolve_starter w r provider region_code
      else if service = ''iam'' then resolve_iam w r
      else if service = ''fs'' then resolve_fs w r provider region_code
      else Inl (app_new ''api.unknown_service'' ''usage'' 2 (Fmt ''unknown API service %q'' [Lit service])))"

section \<open>Placements\<close>

lemma placements_table:
  "placements = map (\<lambda>(code, prefix, provider, native, label).
     \<lparr>pl_code = code, pl_prefix = prefix, pl_provider = provider, pl_native = native, pl_region_label = label\<rparr>)
     [(''alicloud-ap-southeast-1'', ''alicloud'', ''alibaba_cloud'', ''ap-southeast-1'', ''Singapore''),
      (''aws-ap-northeast-1'', ''aws'', ''aws'', ''ap-northeast-1'', ''Tokyo''),
      (''aws-ap-southeast-1'', ''aws'', ''aws'', ''ap-southeast-1'', ''Singapore''),
      (''aws-eu-central-1'', ''aws'', ''aws'', ''eu-central-1'', ''Frankfurt''),
      (''aws-us-east-1'', ''aws'', ''aws'', ''us-east-1'', ''N. Virginia''),
      (''aws-us-west-2'', ''aws'', ''aws'', ''us-west-2'', ''Oregon''),
      (''azure-centralus'', ''azure'', ''azure'', ''centralus'', ''Central US''),
      (''gcp-us-east1'', ''gcp'', ''gcp'', ''us-east1'', ''South Carolina'')]"
  by code_simp

lemma validate_placement_ok:
  "validate_placement p n = None \<longleftrightarrow> (\<exists>q\<in>set placements. pl_provider q = p \<and> pl_native q = n)"
  by (auto simp: validate_placement_def placements_table supported_def)

lemma parse_known: "list_all (\<lambda>q. parse_placement_code (pl_code q) = Inr q
    \<and> canonical_code (pl_provider q) (pl_native q) = Inr (pl_code q)) placements"
  by code_simp

lemma placements_inj:
  "list_all (\<lambda>q. list_all (\<lambda>r. pl_provider q = pl_provider r \<and> pl_native q = pl_native r \<longrightarrow> q = r) placements) placements"
  by code_simp

lemma label_known: "list_all (\<lambda>q. (case regions (pl_provider q) of Inl _ \<Rightarrow> []
      | Inr rs \<Rightarrow> (case find (\<lambda>r. rg_code r = pl_native q) rs of None \<Rightarrow> [] | Some r \<Rightarrow> rg_label r)) = pl_region_label q
    \<and> or_empty (provider_to_prefix (pl_provider q)) = pl_prefix q \<and> pl_code q = pl_prefix q @ ''-'' @ pl_native q) placements"
  by code_simp

lemma parse_placement_known:
  assumes "parse_placement_code code = Inr p"
  shows "p \<in> set placements"
proof -
  obtain prefix native provider where c: "cut_at (CHR ''-'') (trim_space code) = Some (prefix, native)"
    "map_of provider_prefixes prefix = Some provider" and v: "validate_placement provider native = None"
    and p: "p = \<lparr>pl_code = or_empty (provider_to_prefix provider) @ ''-'' @ native, pl_prefix = or_empty (provider_to_prefix provider),
              pl_provider = provider, pl_native = native,
              pl_region_label = (case regions provider of
                  Inl _ \<Rightarrow> []
                | Inr rs \<Rightarrow> (case find (\<lambda>r. rg_code r = native) rs of None \<Rightarrow> [] | Some r \<Rightarrow> rg_label r))\<rparr>"
    using assms by (auto simp: parse_placement_code_def Let_def split: option.splits prod.splits if_splits)
  obtain q where q: "q \<in> set placements" "pl_provider q = provider" "pl_native q = native"
    using v by (auto simp: validate_placement_ok)
  then have "p = q" using label_known by (auto simp: p list_all_iff)
  then show ?thesis using q(1) by simp
qed

text \<open>A region code names one placement: what is accepted, in any accepted spelling, is one of
  the placements the program lists; its canonical code is accepted again as the same placement
  and is the code made from its provider and native region; and every listed placement is
  reached from its code.\<close>

theorem placement_round_trip:
  "(case parse_placement_code code of Inl _ \<Rightarrow> True
    | Inr p \<Rightarrow> p \<in> set placements \<and> parse_placement_code (pl_code p) = Inr p
        \<and> canonical_code (pl_provider p) (pl_native p) = Inr (pl_code p))
   \<and> map (\<lambda>p. parse_placement_code (pl_code p)) placements = map Inr placements
   \<and> distinct (map pl_code placements)"
proof -
  have "distinct (map pl_code placements)" by code_simp
  moreover have "map (\<lambda>p. parse_placement_code (pl_code p)) placements = map Inr placements"
    using parse_known by (simp add: list_all_iff)
  ultimately show ?thesis
    using parse_placement_known [of code] parse_known by (auto simp: list_all_iff split: sum.splits)
qed

section \<open>Manifests\<close>

section \<open>Manifests\<close>

lemma trim_entry_idem [simp]: "trim_entry (trim_entry e) = trim_entry e"
  by (simp add: trim_entry_def)

definition entry_key :: "manifest_entry \<Rightarrow> string" where
  "entry_key e = manifest_key (me_region_code e) (me_mode e)"

definition entry_complete :: "manifest_entry \<Rightarrow> bool" where
  "entry_complete e \<longleftrightarrow> trim_entry e = e \<and> me_region_code e \<noteq> [] \<and> me_mode e \<noteq> [] \<and> me_server_url e \<noteq> []"

lemma check_entries_map: "check_entries i es seen = Inr (es', seen') \<Longrightarrow> es' = map trim_entry es"
  by (induction i es seen arbitrary: es' seen' rule: check_entries.induct)
    (auto simp: Let_def split: if_splits option.splits sum.splits)

lemma check_entries_sound:
  assumes "check_entries i es seen = Inr (es', seen')"
  shows "list_all entry_complete es' \<and> distinct (map entry_key es')
    \<and> set (map entry_key es') \<inter> fst ` set seen = {} \<and> fst ` set seen' = set (map entry_key es') \<union> fst ` set seen"
  using assms
proof (induction i es seen arbitrary: es' seen' rule: check_entries.induct)
  case (2 i e0 es seen)
  let ?e = "trim_entry e0"
  let ?k = "manifest_key (me_region_code ?e) (me_mode ?e)"
  obtain es1 where s: "check_entries (Suc i) es ((?k, i) # seen) = Inr (es1, seen')" "es' = ?e # es1"
    and g: "me_region_code ?e \<noteq> []" "me_mode ?e \<noteq> []" "me_server_url ?e \<noteq> []" "map_of seen ?k = None"
    using "2.prems" by (auto simp: Let_def split: if_splits option.splits sum.splits)
  have k: "?k = entry_key ?e" "entry_complete ?e" using g by (simp_all add: entry_key_def entry_complete_def)
  have "entry_key ?e \<notin> fst ` set seen" using g(4) by (simp add: map_of_eq_None_iff k(1))
  then show ?case
    using "2.IH" [OF refl refl refl g s(1)] k(2) by (simp add: s(2) k(1))
qed auto

lemma check_entries_complete:
  assumes "list_all entry_complete es" "distinct (map entry_key es)" "set (map entry_key es) \<inter> fst ` set seen = {}"
  shows "\<exists>seen'. check_entries i es seen = Inr (es, seen')"
  using assms
proof (induction es arbitrary: i seen)
  case (Cons e es)
  let ?k = "manifest_key (me_region_code e) (me_mode e)"
  have e: "trim_entry e = e" "me_region_code e \<noteq> []" "me_mode e \<noteq> []" "me_server_url e \<noteq> []"
    using Cons.prems(1) by (auto simp: entry_complete_def)
  have k: "map_of seen ?k = None" using Cons.prems(3) by (auto simp: map_of_eq_None_iff entry_key_def)
  obtain seen' where "check_entries (Suc i) es ((?k, i) # seen) = Inr (es, seen')"
    using Cons.IH [of "(?k, i) # seen" "Suc i"] Cons.prems by (auto simp: entry_key_def)
  then show ?case using e k by simp
qed auto

text \<open>What a manifest is after it was checked.\<close>

definition manifest_ok :: "manifest \<Rightarrow> bool" where
  "manifest_ok m \<longleftrightarrow> mf_regions m \<noteq> [] \<and> list_all entry_complete (mf_regions m) \<and> distinct (map entry_key (mf_regions m))
     \<and> (case mf_default m of None \<Rightarrow> True
        | Some (c, k) \<Rightarrow> c \<noteq> [] \<and> k \<noteq> [] \<and> trim_space c = c \<and> trim_space k = k
            \<and> manifest_key c k \<in> set (map entry_key (mf_regions m)))"

text \<open>A manifest is checked once and for all: an accepted manifest is a well-formed one (entries
  trimmed and complete, no two for the same region and mode, a default that names one of
  them) with the entries of the original in their order, a well-formed manifest is accepted
  unchanged, and so checking again changes nothing.\<close>

theorem manifest_validation_sound:
  "(case validate_manifest m of Inl _ \<Rightarrow> \<not> manifest_ok m
    | Inr m' \<Rightarrow> manifest_ok m' \<and> mf_regions m' = map trim_entry (mf_regions m) \<and> validate_manifest m' = Inr m')
   \<and> (validate_manifest m = Inr m \<longleftrightarrow> manifest_ok m)"
proof -
  have ok: "manifest_ok m' \<and> mf_regions m' = map trim_entry (mf_regions m)" if v: "validate_manifest m = Inr m'" for m m'
  proof -
    obtain es seen where c: "check_entries 0 (mf_regions m) [] = Inr (es, seen)" "mf_regions m \<noteq> []"
      using v by (auto simp: validate_manifest_def split: if_splits sum.splits)
    note s = check_entries_sound [OF c(1)] check_entries_map [OF c(1)]
    have "map_of seen k = None \<longleftrightarrow> k \<notin> set (map entry_key es)" for k using s by (simp only: map_of_eq_None_iff) simp
    then show ?thesis
      using v c s by (auto simp: validate_manifest_def manifest_ok_def Let_def split: if_splits option.splits)
  qed
  have id: "validate_manifest m = Inr m" if m: "manifest_ok m" for m
  proof -
    obtain seen where c: "check_entries 0 (mf_regions m) [] = Inr (mf_regions m, seen)"
      using check_entries_complete [of "mf_regions m" "[]" 0] m by (auto simp: manifest_ok_def)
    note s = check_entries_sound [OF c]
    have "map_of seen k = None \<longleftrightarrow> k \<notin> set (map entry_key (mf_regions m))" for k using s by (simp only: map_of_eq_None_iff) simp
    then show ?thesis
      using m c by (auto simp: validate_manifest_def manifest_ok_def Let_def split: option.splits)
  qed
  show ?thesis
    using ok [of m] id ok by (cases "validate_manifest m") auto
qed

section \<open>Endpoints of the placements\<close>

lemma built_in_ok: "validate_manifest built_in_manifest = Inr built_in_manifest"
  by code_simp

text \<open>Two placements have no file-system endpoint.\<close>

definition fs_missing :: "(string \<times> string) list" where
  "fs_missing = [(''aws'', ''eu-central-1''), (''aws'', ''ap-northeast-1'')]"

definition fs_host :: "string \<Rightarrow> string \<Rightarrow> string" where
  "fs_host provider region_code = fs_region_code provider region_code @ ''.drive9.ai''"

lemma select_built_in:
  "list_all (\<lambda>q. if (pl_provider q, pl_native q) \<in> set fs_missing
     then \<not> is_ok (select_entry (mf_regions built_in_manifest) (pl_provider q) (pl_native q) default_fs_mode)
     else (case select_entry (mf_regions built_in_manifest) (pl_provider q) (pl_native q) default_fs_mode of
         Inl _ \<Rightarrow> False
       | Inr e \<Rightarrow> me_region_code e = pl_code q \<and> me_server_url e = ''https://'' @ fs_host (pl_provider q) (pl_native q)
           \<and> fs_region_code (pl_provider q) (pl_native q) = pl_code q
           \<and> trim_right_slash (''https://'' @ fs_host (pl_provider q) (pl_native q)) = ''https://'' @ fs_host (pl_provider q) (pl_native q)
           \<and> list_all (\<lambda>c. c \<noteq> CHR ''/'') (fs_host (pl_provider q) (pl_native q))))
   placements"
  by code_simp

text \<open>Which placements have which service: outside test mode, a provider and region have a
  file-system endpoint exactly when they are a listed placement other than Frankfurt and
  Tokyo, it is the address made from the placement's code, and never an ambiguous one; the
  database service takes exactly the listed placements that are not for file systems only;
  so every listed placement is served by one of the two.\<close>

theorem endpoints_of_placements:
  assumes "\<And>h. list_all (\<lambda>c. c \<noteq> CHR ''/'') h \<Longrightarrow> h \<noteq> [] \<Longrightarrow> wb_parse_url w (''https://'' @ h) = Inr (''https'', h)"
    and "getenv ''TI_ALLOW_TEST_ENDPOINTS'' \<noteq> ''1''"
  shows "(if (\<exists>q\<in>set placements. pl_provider q = provider \<and> pl_native q = reg) \<and> (provider, reg) \<notin> set fs_missing
      then resolve_fs w (new_resolver getenv) provider reg = Inr
        \<lparr>en_service = ''fs'', en_base_url = ''https://'' @ fs_host provider reg, en_provider = provider,
         en_api_provider = api_provider provider, en_region_code = reg, en_region_name = fs_region_code provider reg\<rparr>
      else \<not> is_ok (resolve_fs w (new_resolver getenv) provider reg))
    \<and> (is_ok (resolve_starter w (new_resolver getenv) provider reg)
        = ((\<exists>q\<in>set placements. pl_provider q = provider \<and> pl_native q = reg) \<and> placement_key provider reg \<notin> set filesystem_only))
    \<and> list_all (\<lambda>q. is_ok (resolve_fs w (new_resolver getenv) (pl_provider q) (pl_native q))
        \<or> is_ok (resolve_starter w (new_resolver getenv) (pl_provider q) (pl_native q))) placements"
proof -
  let ?r = "new_resolver getenv"
  have r: "rs_fs_base_urls ?r = None" "rs_manifest ?r = None" "rs_manifest_url ?r = []" "trim_space (rs_mode ?r) = default_fs_mode"
    "rs_starter ?r = starter_base_url"
  proof -
    have "trim_space default_fs_mode = default_fs_mode" by code_simp
    then show "rs_fs_base_urls ?r = None" "rs_manifest ?r = None" "rs_manifest_url ?r = []"
      "trim_space (rs_mode ?r) = default_fs_mode" "rs_starter ?r = starter_base_url"
      using assms(2) by (simp_all add: new_resolver_def Let_def)
  qed
  have url: "validate_base_url w (''https://'' @ h) = None" if "list_all (\<lambda>c. c \<noteq> CHR ''/'') h" "h \<noteq> []" for h
    unfolding validate_base_url_def assms(1) [OF that] using that(2) by simp
  have fs: "if (\<exists>q\<in>set placements. pl_provider q = p \<and> pl_native q = g) \<and> (p, g) \<notin> set fs_missing
      then resolve_fs w ?r p g = Inr
        \<lparr>en_service = ''fs'', en_base_url = ''https://'' @ fs_host p g, en_provider = p,
         en_api_provider = api_provider p, en_region_code = g, en_region_name = fs_region_code p g\<rparr>
      else \<not> is_ok (resolve_fs w ?r p g)" for p g
  proof (cases "\<exists>q\<in>set placements. pl_provider q = p \<and> pl_native q = g")
    case True
    then obtain q where q: "q \<in> set placements" "pl_provider q = p" "pl_native q = g" by blast
    have v: "validate_filesystem p g = None" using True by (simp add: validate_filesystem_def validate_placement_ok)
    have red: "resolve_fs w ?r p g = (case select_entry (mf_regions built_in_manifest) p g default_fs_mode of
        Inl e \<Rightarrow> Inl e | Inr e \<Rightarrow> fs_endpoint w p g (me_region_code e) (me_server_url e))"
      by (simp add: resolve_fs_def v r Let_def resolver_manifest_def built_in_ok default_fs_mode_def)
    show ?thesis
    proof (cases "(p, g) \<in> set fs_missing")
      case True
      then have "\<not> is_ok (select_entry (mf_regions built_in_manifest) p g default_fs_mode)"
        using select_built_in q by (auto simp: list_all_iff)
      then show ?thesis using True red by (auto split: sum.splits)
    next
      case False
      note m = bspec [OF select_built_in [unfolded list_all_iff] q(1), unfolded q(2,3)]
      have "case select_entry (mf_regions built_in_manifest) p g default_fs_mode of Inl _ \<Rightarrow> False
        | Inr e \<Rightarrow> me_region_code e = fs_region_code p g \<and> me_server_url e = ''https://'' @ fs_host p g
           \<and> trim_right_slash (''https://'' @ fs_host p g) = ''https://'' @ fs_host p g
           \<and> list_all (\<lambda>c. c \<noteq> CHR ''/'') (fs_host p g)"
        using m False by (cases "select_entry (mf_regions built_in_manifest) p g default_fs_mode")
          (simp_all only: if_False sum.case list_all_iff simp_thms, blast)
      then obtain e where e: "select_entry (mf_regions built_in_manifest) p g default_fs_mode = Inr e"
        "me_region_code e = fs_region_code p g" "me_server_url e = ''https://'' @ fs_host p g"
        "trim_right_slash (''https://'' @ fs_host p g) = ''https://'' @ fs_host p g"
        "list_all (\<lambda>c. c \<noteq> CHR ''/'') (fs_host p g)"
        by (auto split: sum.splits simp del: append.simps)
      have "fs_host p g \<noteq> []" by (simp add: fs_host_def)
      note u = url [OF e(5) this]
      have "fs_endpoint w p g (me_region_code e) (me_server_url e) = Inr
        \<lparr>en_service = ''fs'', en_base_url = ''https://'' @ fs_host p g, en_provider = p,
         en_api_provider = api_provider p, en_region_code = g, en_region_name = fs_region_code p g\<rparr>"
        unfolding fs_endpoint_def e(2,3) u by (simp only: option.case e(4))
      then show ?thesis using True False red e(1) by auto
    qed
  next
    case False
    then have "validate_filesystem p g \<noteq> None" by (simp add: validate_filesystem_def validate_placement_ok)
    then show ?thesis using False by (auto simp: resolve_fs_def)
  qed
  have su: "validate_base_url w starter_base_url = None"
    using url [of "''serverless.tidbapi.com''"] by (simp add: starter_base_url_def)
  have st: "is_ok (resolve_starter w ?r p g)
        = ((\<exists>q\<in>set placements. pl_provider q = p \<and> pl_native q = g) \<and> placement_key p g \<notin> set filesystem_only)" for p g
    using validate_placement_ok [of p g] su
    by (auto simp: resolve_starter_def validate_starter_def r Let_def starter_base_url_def split: option.splits)
  have one: "list_all (\<lambda>q. (pl_provider q, pl_native q) \<notin> set fs_missing \<or> placement_key (pl_provider q) (pl_native q) \<notin> set filesystem_only) placements"
    by code_simp
  have "is_ok (resolve_fs w ?r (pl_provider q) (pl_native q)) \<or> is_ok (resolve_starter w ?r (pl_provider q) (pl_native q))"
    if "q \<in> set placements" for q
  proof (cases "(pl_provider q, pl_native q) \<in> set fs_missing")
    case True
    then have "placement_key (pl_provider q) (pl_native q) \<notin> set filesystem_only" using one that by (auto simp: list_all_iff)
    then show ?thesis using st that by blast
  next
    case False
    moreover have "\<exists>r\<in>set placements. pl_provider r = pl_provider q \<and> pl_native r = pl_native q" using that by blast
    ultimately show ?thesis using fs [of "pl_provider q" "pl_native q"] by simp
  qed
  then show ?thesis using fs [of provider reg] st [of provider reg] by (simp add: list_all_iff)
qed

definition demo_web :: web where
  "demo_web = \<lparr>wb_parse_url = (\<lambda>s. Inr (takeWhile (\<lambda>c. c \<noteq> CHR '':'') s, takeWhile (\<lambda>c. c \<noteq> CHR ''/'') (drop 8 s))),
     wb_build = (\<lambda>_. None), wb_get = (\<lambda>_. Inl (Sentinel Ctx_Deadline)), wb_decode = (\<lambda>_. Inl (Sentinel Err_Eof))\<rparr>"

theorem endpoints_of_placements_witness:
  "resolve_fs demo_web (new_resolver (\<lambda>_. [])) ''alibaba_cloud'' ''ap-southeast-1'' = Inr
     \<lparr>en_service = ''fs'', en_base_url = ''https://alicloud-ap-southeast-1.drive9.ai'', en_provider = ''alibaba_cloud'',
      en_api_provider = ''alicloud'', en_region_code = ''ap-southeast-1'', en_region_name = ''alicloud-ap-southeast-1''\<rparr>
   \<and> \<not> is_ok (resolve_fs demo_web (new_resolver (\<lambda>_. [])) ''aws'' ''eu-central-1'')
   \<and> \<not> is_ok (resolve_starter demo_web (new_resolver (\<lambda>_. [])) ''gcp'' ''us-east1'')"
proof -
  have w: "wb_parse_url demo_web (''https://'' @ h) = Inr (''https'', h)" if "list_all (\<lambda>c. c \<noteq> CHR ''/'') h" "h \<noteq> []" for h
    using that by (simp add: demo_web_def takeWhile_eq_all_conv list_all_iff)
  have e: "(\<lambda>_. []) ''TI_ALLOW_TEST_ENDPOINTS'' \<noteq> ''1''" by simp
  note t = endpoints_of_placements [OF w e]
  have a: "(\<exists>q\<in>set placements. pl_provider q = ''alibaba_cloud'' \<and> pl_native q = ''ap-southeast-1'')
      \<and> (''alibaba_cloud'', ''ap-southeast-1'') \<notin> set fs_missing"
    by (simp add: placements_table fs_missing_def)
  have b: "fs_host ''alibaba_cloud'' ''ap-southeast-1'' = ''alicloud-ap-southeast-1.drive9.ai''"
    "fs_region_code ''alibaba_cloud'' ''ap-southeast-1'' = ''alicloud-ap-southeast-1''"
    "api_provider ''alibaba_cloud'' = ''alicloud''" by code_simp+
  have c: "(''aws'', ''eu-central-1'') \<in> set fs_missing" by (simp add: fs_missing_def)
  have d: "placement_key ''gcp'' ''us-east1'' \<in> set filesystem_only" by (simp add: filesystem_only_def)
  show ?thesis
    using conjunct1 [OF t, of "''alibaba_cloud''" "''ap-southeast-1''", simplified if_P [OF a] b]
      conjunct1 [OF t, of "''aws''" "''eu-central-1''"] conjunct1 [OF conjunct2 [OF t], of "''gcp''" "''us-east1''"] c d
    by simp
qed

section \<open>Names of environment variables\<close>

lemma env_validate_iff: "env_validate env = None \<longleftrightarrow> list_all (\<lambda>p. is_ok (env_resolve env p)) public_pairs"
proof -
  have "env_validate_pairs env ps = None \<longleftrightarrow> list_all (\<lambda>p. is_ok (env_resolve env p)) ps" for ps
    by (induction ps) (auto split: sum.splits)
  then show ?thesis by (simp add: env_validate_def)
qed

text \<open>A value that is found is the one either name gives when it is set.\<close>

lemma env_resolve_value:
  "env_resolve env p = Inr (v, present, legacy) \<Longrightarrow>
   (if present then env_lookup env (ev_canonical p) \<in> {None, Some v} \<and> env_lookup env (ev_legacy p) \<in> {None, Some v}
       \<and> (legacy \<longleftrightarrow> env_lookup env (ev_canonical p) = None) \<and> (env_lookup env (ev_canonical p) \<noteq> None \<or> env_lookup env (ev_legacy p) \<noteq> None)
    else v = [] \<and> env_lookup env (ev_canonical p) = None \<and> env_lookup env (ev_legacy p) = None)"
  by (auto simp: env_resolve_def Let_def split: if_splits option.splits)

end
