(* ===== verification/Config_Store.thy ===== *)
theory Config_Store
  imports Home_Files Placement "HOL-Library.AList"
begin

text \<open>
  Profiles: the two documents below the home directory (\<open>config/store/store.go\<close>) and what a
  command loads from them (\<open>config/profile.go\<close>).  A document is an association list from
  profile names to profiles, in the order Go visits the map.  The TOML library is a record of
  its calls (\<open>toml_lib\<close>); what the properties rely on is the law \<open>toml_ok\<close>.  A missing entry of
  a map is the empty profile.
\<close>

section \<open>Documents\<close>

record config_profile =
  cp_cloud_provider :: string
  cp_region_code :: string
  cp_legacy_project :: string
  cp_fs_name :: string
  cp_fs_tenant :: string
  cp_fs_cloud :: string
  cp_fs_region :: string

record creds_profile =
  kp_public :: string
  kp_private :: string
  kp_api_key :: string

record wire_profile =
  wp_public :: string
  wp_private :: string
  wp_legacy_public :: string
  wp_legacy_private :: string
  wp_api_key :: string

type_synonym config_document = "(string \<times> config_profile) list"
type_synonym creds_document = "(string \<times> creds_profile) list"

definition no_config :: config_profile where
  "no_config = \<lparr>cp_cloud_provider = [], cp_region_code = [], cp_legacy_project = [], cp_fs_name = [],
     cp_fs_tenant = [], cp_fs_cloud = [], cp_fs_region = []\<rparr>"

definition no_creds :: creds_profile where
  "no_creds = \<lparr>kp_public = [], kp_private = [], kp_api_key = []\<rparr>"

definition entry_or :: "'a \<Rightarrow> (string \<times> 'a) list \<Rightarrow> string \<Rightarrow> 'a" where
  "entry_or z d k = (case map_of d k of None \<Rightarrow> z | Some x \<Rightarrow> x)"

text \<open>A decoded TOML value: a table, or anything else.\<close>

datatype toml = T_Value string | T_Table "(string \<times> toml) list"

record toml_lib =
  tl_raw :: "string \<Rightarrow> go_error + (string \<times> toml) list"
  tl_config :: "string \<Rightarrow> go_error + config_document"
  tl_wire :: "string \<Rightarrow> go_error + (string \<times> wire_profile) list"
  tl_put_config :: "config_document \<Rightarrow> go_error + string"
  tl_put_creds :: "creds_document \<Rightarrow> go_error + string"
  tl_put_raw :: "(string \<times> toml) list \<Rightarrow> go_error + string"

definition config_path :: "string \<Rightarrow> string" where
  "config_path hdir = path_join [hdir, ''.ti'', ''config'']"

definition credentials_path :: "string \<Rightarrow> string" where
  "credentials_path hdir = path_join [hdir, ''.ti'', ''credentials'']"

section \<open>Keys that are refused\<close>

text \<open>\<open>strings.EqualFold\<close> with an ASCII string: the two letters outside ASCII that fold to one
  inside are the long s and the Kelvin sign.\<close>

fun fold_ascii :: "string \<Rightarrow> string" where
  "fold_ascii (a # b # s) =
     (if a = CHR 0xC5 \<and> b = CHR 0xBF then CHR ''s'' # fold_ascii s
      else case s of
        c # t \<Rightarrow> if a = CHR 0xE2 \<and> b = CHR 0x84 \<and> c = CHR 0xAA then CHR ''k'' # fold_ascii t
                else lower_char a # fold_ascii (b # s)
      | [] \<Rightarrow> lower_char a # fold_ascii (b # s))"
| "fold_ascii s = map lower_char s"

definition is_reserved_profile_name :: "string \<Rightarrow> bool" where
  "is_reserved_profile_name name \<longleftrightarrow> fold_ascii (trim_space name) = ''logging''"

definition is_disallowed_key :: "string \<Rightarrow> bool" where
  "is_disallowed_key key =
     (let n = filter (\<lambda>c. c \<notin> {CHR ''_'', CHR ''-'', CHR ''.''}) (to_lower key) in
      contains_str n ''url'' \<or> contains_str n ''endpoint'' \<or> contains_str n ''databaseurl'')"

text \<open>The walk of both checks over nested tables.\<close>

function walk_table :: "(string \<Rightarrow> bool) \<Rightarrow> (string \<Rightarrow> go_error) \<Rightarrow> string \<Rightarrow> (string \<times> toml) list \<Rightarrow> go_error option" where
  "walk_table bad err prefix [] = None"
| "walk_table bad err prefix ((k, x) # kvs) =
     (let path = (if prefix = [] then k else prefix @ ''.'' @ k) in
      if bad k then Some (err path)
      else case (case x of T_Table t \<Rightarrow> walk_table bad err path t | T_Value _ \<Rightarrow> None) of
        Some e \<Rightarrow> Some e
      | None \<Rightarrow> walk_table bad err prefix kvs)"
  by pat_completeness auto
termination
  by (relation "measure (\<lambda>(_, _, _, kvs). size_list (size_prod (\<lambda>_. 0) size) kvs)") auto

definition reject_keys :: "toml_lib \<Rightarrow> (string \<Rightarrow> bool) \<Rightarrow> (string \<Rightarrow> go_error) \<Rightarrow> string \<Rightarrow> string \<Rightarrow> go_error option" where
  "reject_keys lib bad err data p =
     (case tl_raw lib data of
        Inl e \<Rightarrow> Some (Wrapf (Fmt ''parse %s: %w'' [Lit p, error_text e]) e)
      | Inr raw \<Rightarrow> walk_table bad err [] raw)"

definition reject_disallowed_keys :: "toml_lib \<Rightarrow> string \<Rightarrow> string \<Rightarrow> go_error option" where
  "reject_disallowed_keys lib data p = reject_keys lib is_disallowed_key (\<lambda>k. Msg
     (Fmt ''unsupported URL-like config key %q in %s; configure region_code instead'' [Lit k, Lit p])) data p"

definition reject_disallowed_credential_keys :: "toml_lib \<Rightarrow> string \<Rightarrow> string \<Rightarrow> go_error option" where
  "reject_disallowed_credential_keys lib data p = reject_keys lib (\<lambda>k. fold_ascii k = ''db_users'') (\<lambda>k. Msg
     (Fmt ''unsupported DB user credentials key %q in %s; store DB SQL users under ~/.ti/db_users/<cluster-id>/credentials''
       [Lit k, Lit p])) data p"

section \<open>Reading\<close>

text \<open>\<open>home_read\<close> is the part all readers share: nothing there is the empty document.\<close>

definition read_config :: "toml_lib \<Rightarrow> home_env \<Rightarrow> home \<Rightarrow> string \<Rightarrow> home \<times> (go_error + config_document)" where
  "read_config lib v s hdir =
     (let p = config_path hdir in
      case hm_read v s p of
        (s1, Inl e) \<Rightarrow> (s1, if errors_is e Err_Not_Exist then Inr []
          else Inl (Wrapf (Fmt ''read config %s: %w'' [Lit p, error_text e]) e))
      | (s1, Inr data) \<Rightarrow>
        (case reject_disallowed_keys lib data p of
           Some e \<Rightarrow> (s1, Inl e)
         | None \<Rightarrow>
           (case tl_config lib data of
              Inl e \<Rightarrow> (s1, Inl (Wrapf (Fmt ''parse config %s: %w'' [Lit p, error_text e]) e))
            | Inr d \<Rightarrow> (s1, Inr d))))"

definition ensure_credentials_permissions :: "home_env \<Rightarrow> home \<Rightarrow> string \<Rightarrow> home \<times> go_error option" where
  "ensure_credentials_permissions v s p =
     (case hm_stat v s p of
        (s1, Inl e) \<Rightarrow> (s1, Some e)
      | (s1, Inr m) \<Rightarrow>
        if m mod 64 = 0 then (s1, None)
        else (case hm_chmod v s1 p 384 of
            (s2, Some e) \<Rightarrow> (s2, Some (Wrapf (Fmt ''restrict credentials permissions %s: %w'' [Lit p, error_text e]) e))
          | (s2, None) \<Rightarrow> (s2, None)))"

definition resolve_credential_field ::
  "string \<Rightarrow> string \<Rightarrow> string \<Rightarrow> string \<Rightarrow> string \<Rightarrow> string \<Rightarrow> go_error + string" where
  "resolve_credential_field p profile cname cvalue lname lvalue =
     (if cvalue \<noteq> [] \<and> lvalue \<noteq> [] \<and> cvalue \<noteq> lvalue then Inl (app_new ''config.environment_conflict'' ''config'' 2
        (Fmt ''credential fields %s and %s contain different values for profile %q in %s; remove one or make them equal''
          [Lit cname, Lit lname, Lit profile, Lit p]))
      else if cvalue \<noteq> [] then Inr cvalue else Inr lvalue)"

fun decode_profiles :: "string \<Rightarrow> (string \<times> wire_profile) list \<Rightarrow> go_error + creds_document" where
  "decode_profiles p [] = Inr []"
| "decode_profiles p ((name, w) # ws) =
     bind_result (resolve_credential_field p name ''tidb_cloud_public_key'' (wp_public w) ''tdc_public_key'' (wp_legacy_public w)) (\<lambda>pub.
     bind_result (resolve_credential_field p name ''tidb_cloud_private_key'' (wp_private w) ''tdc_private_key'' (wp_legacy_private w)) (\<lambda>priv.
     bind_result (decode_profiles p ws) (\<lambda>d.
     Inr ((name, \<lparr>kp_public = pub, kp_private = priv, kp_api_key = wp_api_key w\<rparr>) # d))))"

definition decode_credentials :: "toml_lib \<Rightarrow> string \<Rightarrow> string \<Rightarrow> go_error + creds_document" where
  "decode_credentials lib data p =
     (case tl_wire lib data of
        Inl e \<Rightarrow> Inl (Wrapf (Fmt ''parse credentials %s: %w'' [Lit p, error_text e]) e)
      | Inr ws \<Rightarrow> decode_profiles p ws)"

definition read_credentials :: "toml_lib \<Rightarrow> home_env \<Rightarrow> home \<Rightarrow> string \<Rightarrow> home \<times> (go_error + creds_document)" where
  "read_credentials lib v s hdir =
     (let p = credentials_path hdir in
      case hm_read v s p of
        (s1, Inl e) \<Rightarrow> (s1, if errors_is e Err_Not_Exist then Inr []
          else Inl (Wrapf (Fmt ''read credentials %s: %w'' [Lit p, error_text e]) e))
      | (s1, Inr data) \<Rightarrow>
        (case ensure_credentials_permissions v s1 p of
           (s2, Some e) \<Rightarrow> (s2, Inl e)
         | (s2, None) \<Rightarrow>
           (case reject_disallowed_keys lib data p of
              Some e \<Rightarrow> (s2, Inl e)
            | None \<Rightarrow>
              (case reject_disallowed_credential_keys lib data p of
                 Some e \<Rightarrow> (s2, Inl e)
               | None \<Rightarrow> (s2, decode_credentials lib data p)))))"

text \<open>\<open>NormalizeCredentials\<close> on the generic document; a profile that is not a table makes the
  typed decoder fail before.\<close>

definition normalize_profile :: "creds_profile \<Rightarrow> (string \<times> toml) list \<Rightarrow> (string \<times> toml) list" where
  "normalize_profile c t =
     (let t1 = (if kp_public c \<noteq> [] then AList.update ''tidb_cloud_public_key'' (T_Value (kp_public c)) t else t);
          t2 = (if kp_private c \<noteq> [] then AList.update ''tidb_cloud_private_key'' (T_Value (kp_private c)) t1 else t1)
      in AList.delete ''tdc_private_key'' (AList.delete ''tdc_public_key'' t2))"

definition normalize_credentials :: "toml_lib \<Rightarrow> string \<Rightarrow> string \<Rightarrow> go_error + string" where
  "normalize_credentials lib data p =
     bind_result (decode_credentials lib data p) (\<lambda>d.
       case reject_disallowed_keys lib data p of Some e \<Rightarrow> Inl e | None \<Rightarrow>
       (case reject_disallowed_credential_keys lib data p of Some e \<Rightarrow> Inl e | None \<Rightarrow>
        (case tl_raw lib data of
           Inl e \<Rightarrow> Inl (Wrapf (Fmt ''parse credentials %s: %w'' [Lit p, error_text e]) e)
         | Inr raw \<Rightarrow>
           (case tl_put_raw lib (map (\<lambda>(n, x). (n, case x of
                T_Table t \<Rightarrow> T_Table (normalize_profile (entry_or no_creds d n) t) | T_Value y \<Rightarrow> T_Value y)) raw) of
              Inl e \<Rightarrow> Inl (Wrapf (Fmt ''marshal credentials %s: %w'' [Lit p, error_text e]) e)
            | Inr out \<Rightarrow> Inr out))))"

section \<open>Writing\<close>

text \<open>\<open>writeTOML\<close>: marshal, then replace the file.\<close>

definition write_toml :: "(go_error + string) \<Rightarrow> home_env \<Rightarrow> home \<Rightarrow> string \<Rightarrow> nat \<Rightarrow> home \<times> go_error option" where
  "write_toml marshalled v s p mode =
     (case marshalled of
        Inl e \<Rightarrow> (s, Some (Wrapf (Fmt ''marshal %s: %w'' [Lit p, error_text e]) e))
      | Inr data \<Rightarrow> store_write v s p data mode)"

definition ensure_dir :: "home_env \<Rightarrow> home \<Rightarrow> string \<Rightarrow> home \<times> go_error option" where
  "ensure_dir v s hdir =
     (if hdir = [] then (s, Some (Msg (Lit ''home directory is required'')))
      else hm_mkdir_all v s (path_join [hdir, ''.ti'']))"

definition keep_or :: "string \<Rightarrow> string \<Rightarrow> string" where
  "keep_or new old = (if new \<noteq> [] then new else old)"

definition merge_config :: "bool \<Rightarrow> config_profile \<Rightarrow> config_profile \<Rightarrow> config_profile" where
  "merge_config remove_legacy cfg old =
     \<lparr>cp_cloud_provider = (if cp_region_code cfg \<noteq> [] then [] else keep_or (cp_cloud_provider cfg) (cp_cloud_provider old)),
      cp_region_code = keep_or (cp_region_code cfg) (cp_region_code old),
      cp_legacy_project = (if remove_legacy then [] else cp_legacy_project old),
      cp_fs_name = keep_or (cp_fs_name cfg) (cp_fs_name old),
      cp_fs_tenant = keep_or (cp_fs_tenant cfg) (cp_fs_tenant old),
      cp_fs_cloud = keep_or (cp_fs_cloud cfg) (cp_fs_cloud old),
      cp_fs_region = keep_or (cp_fs_region cfg) (cp_fs_region old)\<rparr>"

definition merge_creds :: "creds_profile \<Rightarrow> creds_profile \<Rightarrow> creds_profile" where
  "merge_creds c old =
     \<lparr>kp_public = keep_or (kp_public c) (kp_public old), kp_private = keep_or (kp_private c) (kp_private old),
      kp_api_key = keep_or (kp_api_key c) (kp_api_key old)\<rparr>"

text \<open>The two reads, changes and writes that \<open>writeProfile\<close> and \<open>ClearFSResource\<close> have in common.\<close>

definition update_profile ::
  "toml_lib \<Rightarrow> home_env \<Rightarrow> home \<Rightarrow> string \<Rightarrow> string \<Rightarrow> (config_profile \<Rightarrow> config_profile) \<Rightarrow> (creds_profile \<Rightarrow> creds_profile)
    \<Rightarrow> home \<times> go_error option" where
  "update_profile lib v s hdir name change_config change_creds =
     (case ensure_dir v s hdir of
        (s1, Some e) \<Rightarrow> (s1, Some e)
      | (s1, None) \<Rightarrow>
        (case read_config lib v s1 hdir of
           (s2, Inl e) \<Rightarrow> (s2, Some e)
         | (s2, Inr d) \<Rightarrow>
           (case read_credentials lib v s2 hdir of
              (s3, Inl e) \<Rightarrow> (s3, Some e)
            | (s3, Inr k) \<Rightarrow>
              (case write_toml (tl_put_config lib (AList.update name (change_config (entry_or no_config d name)) d)) v s3 (config_path hdir) 420 of
                 (s4, Some e) \<Rightarrow> (s4, Some e)
               | (s4, None) \<Rightarrow>
                 (case write_toml (tl_put_creds lib (AList.update name (change_creds (entry_or no_creds k name)) k)) v s4 (credentials_path hdir) 384 of
                    (s5, Some e) \<Rightarrow> (s5, Some e)
                  | (s5, None) \<Rightarrow> (s5, None))))))"

definition write_profile_as ::
  "bool \<Rightarrow> toml_lib \<Rightarrow> home_env \<Rightarrow> home \<Rightarrow> string \<Rightarrow> string \<Rightarrow> config_profile \<Rightarrow> creds_profile \<Rightarrow> home \<times> go_error option" where
  "write_profile_as remove_legacy lib v s hdir name0 cfg creds =
     (let name = (if name0 = [] then ''default'' else name0) in
      if is_reserved_profile_name name then (s, Some (Msg (Fmt ''profile name %q is reserved'' [Lit name])))
      else update_profile lib v s hdir name (merge_config remove_legacy cfg) (merge_creds creds))"

definition write_profile ::
  "toml_lib \<Rightarrow> home_env \<Rightarrow> home \<Rightarrow> string \<Rightarrow> string \<Rightarrow> config_profile \<Rightarrow> creds_profile \<Rightarrow> home \<times> go_error option" where
  "write_profile = write_profile_as False"

definition write_configured_profile ::
  "toml_lib \<Rightarrow> home_env \<Rightarrow> home \<Rightarrow> string \<Rightarrow> string \<Rightarrow> config_profile \<Rightarrow> creds_profile \<Rightarrow> home \<times> go_error option" where
  "write_configured_profile = write_profile_as True"

definition clear_fs_resource :: "toml_lib \<Rightarrow> home_env \<Rightarrow> home \<Rightarrow> string \<Rightarrow> string \<Rightarrow> home \<times> go_error option" where
  "clear_fs_resource lib v s hdir name0 =
     (let name = (if name0 = [] then ''default'' else name0) in
      update_profile lib v s hdir name
        (\<lambda>c. c\<lparr>cp_fs_name := [], cp_fs_tenant := [], cp_fs_cloud := [], cp_fs_region := []\<rparr>)
        (\<lambda>c. c\<lparr>kp_api_key := []\<rparr>))"

definition remove_legacy_default :: "toml_lib \<Rightarrow> home_env \<Rightarrow> home \<Rightarrow> string \<Rightarrow> string \<Rightarrow> home \<times> (go_error + bool)" where
  "remove_legacy_default lib v s hdir name0 =
     (let name = (if name0 = [] then ''default'' else name0); p = config_path hdir; key = ''fs_default_file_system_name'' in
      case hm_read v s p of
        (s1, Inl e) \<Rightarrow> (s1, if errors_is e Err_Not_Exist then Inr False
          else Inl (Wrapf (Fmt ''read config %s: %w'' [Lit p, error_text e]) e))
      | (s1, Inr data) \<Rightarrow>
        (case reject_disallowed_keys lib data p of
           Some e \<Rightarrow> (s1, Inl e)
         | None \<Rightarrow>
           (case tl_raw lib data of
              Inl e \<Rightarrow> (s1, Inl (Wrapf (Fmt ''parse config %s: %w'' [Lit p, error_text e]) e))
            | Inr raw \<Rightarrow>
              (case map_of raw name of
                 Some (T_Table t) \<Rightarrow>
                   if map_of t key = None then (s1, Inr False)
                   else (case write_toml (tl_put_raw lib (AList.update name (T_Table (AList.delete key t)) raw)) v s1 p 420 of
                       (s2, Some e) \<Rightarrow> (s2, Inl e)
                     | (s2, None) \<Rightarrow> (s2, Inr True))
               | _ \<Rightarrow> (s1, Inr False)))))"

section \<open>Loading a profile\<close>

record profile =
  pf_name :: string
  pf_home :: string
  pf_source :: string
  pf_placement :: string
  pf_provider :: string
  pf_region :: string
  pf_public :: string
  pf_private :: string
  pf_fs_name :: string
  pf_fs_tenant :: string
  pf_fs_placement :: string
  pf_fs_provider :: string
  pf_fs_region :: string
  pf_fs_api_key :: string
  pf_fs_token_id :: string
  pf_fs_scope_kind :: string
  pf_fs_token_name :: string

text \<open>\<open>lo_ctx\<close> is \<open>ctx.Err()\<close> and \<open>lo_user_home\<close> is \<open>os.UserHomeDir()\<close>.\<close>

record load_options =
  lo_ctx :: "go_error option"
  lo_user_home :: "go_error + string"
  lo_profile :: string
  lo_region_override :: string
  lo_home :: string
  lo_env :: environment

definition validate_profile_name :: "string \<Rightarrow> go_error option" where
  "validate_profile_name name =
     (if \<not> is_reserved_profile_name name then None
      else Some (app_new ''config.reserved_profile'' ''usage'' 2
        (Fmt ''profile name %q is reserved; choose another profile name'' [Lit name])))"

definition load_documents ::
  "toml_lib \<Rightarrow> home_env \<Rightarrow> home \<Rightarrow> load_options \<Rightarrow> home \<times> (go_error + string \<times> string \<times> config_document \<times> creds_document)" where
  "load_documents lib v s opt =
     (case lo_ctx opt of
        Some e \<Rightarrow> (s, Inl e)
      | None \<Rightarrow>
        (case (if lo_home opt = [] then lo_user_home opt else Inr (lo_home opt)) of
           Inl e \<Rightarrow> (s, Inl (app_wrap ''config.home_dir'' ''config'' 1 (Lit ''cannot determine home directory'') e))
         | Inr hdir \<Rightarrow>
           (let name = (if lo_profile opt = [] then ''default'' else lo_profile opt) in
            case validate_profile_name name of
              Some e \<Rightarrow> (s, Inl e)
            | None \<Rightarrow>
              (case read_config lib v s hdir of
                 (s1, Inl e) \<Rightarrow> (s1, Inl (app_wrap ''config.read_config'' ''config'' 1 (error_text e) e))
               | (s1, Inr d) \<Rightarrow>
                 (case read_credentials lib v s1 hdir of
                    (s2, Inl e) \<Rightarrow> (s2, Inl (app_wrap ''config.read_credentials'' ''config'' 1 (error_text e) e))
                  | (s2, Inr k) \<Rightarrow> (s2, Inr (hdir, name, d, k)))))))"

definition parse_placement :: "string \<Rightarrow> go_error + placement" where
  "parse_placement code =
     (case parse_placement_code code of
        Inl e \<Rightarrow> Inl (app_wrap ''config.invalid_region'' ''config'' 2 (error_text e) e)
      | Inr p \<Rightarrow> Inr p)"

definition env_missing :: "string \<Rightarrow> go_error" where
  "env_missing key = app_new ''config.env_missing'' ''config'' 2
     (Fmt ''%s is required when using TiDB Cloud environment credentials'' [Lit key])"

definition missing_config :: "string \<Rightarrow> string \<Rightarrow> string \<Rightarrow> go_error" where
  "missing_config name p key = app_new ''config.missing_config'' ''config'' 2
     (Fmt ''%s missing for profile %q in %s; run ti configure --profile %s or write ~/.ti/config'' [Lit key, Lit name, Lit p, Lit name])"

definition missing_credential :: "string \<Rightarrow> string \<Rightarrow> string \<Rightarrow> go_error" where
  "missing_credential name p key = app_new ''config.missing_credentials'' ''config'' 2
     (Fmt ''%s missing for profile %q in %s; run ti configure --profile %s or write ~/.ti/credentials'' [Lit key, Lit name, Lit p, Lit name])"

text \<open>The code a placement is looked up by: the flag, the environment, the profile.\<close>

definition region_source :: "string \<Rightarrow> environment \<Rightarrow> string \<Rightarrow> go_error + string" where
  "region_source override env stored =
     (let r = trim_space override in
      if r \<noteq> [] then Inr r
      else case resolve_names env ''TI_REGION_CODE'' ''TDC_REGION_CODE'' of
        Inl e \<Rightarrow> Inl e
      | Inr (x, _, _) \<Rightarrow> Inr (if trim_space x \<noteq> [] then trim_space x else stored))"

definition resolve_optional_placement :: "config_profile \<Rightarrow> string \<Rightarrow> environment \<Rightarrow> go_error + placement option" where
  "resolve_optional_placement cfg override env =
     bind_result (region_source override env (trim_space (cp_region_code cfg))) (\<lambda>code.
       if code = [] then Inr None else bind_result (parse_placement code) (\<lambda>p. Inr (Some p)))"

definition resolve_placement ::
  "string \<Rightarrow> string \<Rightarrow> config_profile option \<Rightarrow> string \<Rightarrow> environment \<Rightarrow> go_error + placement" where
  "resolve_placement hdir name cfg override env =
     bind_result (region_source override env (case cfg of None \<Rightarrow> [] | Some c \<Rightarrow> cp_region_code c)) (\<lambda>code.
       if code = [] then
         (case cfg of
            None \<Rightarrow> Inl (app_new ''config.profile_not_found'' ''config'' 2
              (Fmt ''profile %q not found in %s; run ti configure --profile %s or write ~/.ti/config''
                [Lit name, Lit (config_path hdir), Lit name]))
          | Some _ \<Rightarrow> Inl (missing_config name (config_path hdir) ''region_code''))
       else parse_placement code)"

definition resolve_cloud_credentials ::
  "string \<Rightarrow> string \<Rightarrow> creds_profile option \<Rightarrow> environment \<Rightarrow> go_error + string \<times> string \<times> string" where
  "resolve_cloud_credentials hdir name creds env =
     bind_result (resolve_names env ''TIDB_CLOUD_PUBLIC_KEY'' ''TDC_PUBLIC_KEY'') (\<lambda>(pub0, _, _).
     bind_result (resolve_names env ''TIDB_CLOUD_PRIVATE_KEY'' ''TDC_PRIVATE_KEY'') (\<lambda>(priv0, _, _).
       let pub = trim_space pub0; priv = trim_space priv0 in
       if pub \<noteq> [] \<or> priv \<noteq> [] then
         (if pub = [] then Inl (env_missing ''TIDB_CLOUD_PUBLIC_KEY'')
          else if priv = [] then Inl (env_missing ''TIDB_CLOUD_PRIVATE_KEY'')
          else Inr (pub, priv, ''env''))
       else case creds of
         None \<Rightarrow> Inl (missing_credential name (credentials_path hdir) ''tidb_cloud_public_key'')
       | Some c \<Rightarrow>
         if kp_public c = [] then Inl (missing_credential name (credentials_path hdir) ''tidb_cloud_public_key'')
         else if kp_private c = [] then Inl (missing_credential name (credentials_path hdir) ''tidb_cloud_private_key'')
         else Inr (kp_public c, kp_private c, ''profile'')))"

definition fs_placement :: "config_profile \<Rightarrow> go_error + placement" where
  "fs_placement cfg = (if cp_fs_region cfg \<noteq> [] then parse_placement (cp_fs_region cfg) else Inr no_placement)"

definition load_profile :: "toml_lib \<Rightarrow> home_env \<Rightarrow> home \<Rightarrow> load_options \<Rightarrow> home \<times> (go_error + profile)" where
  "load_profile lib v s opt =
     (case load_documents lib v s opt of
        (s1, Inl e) \<Rightarrow> (s1, Inl e)
      | (s1, Inr (hdir, name, d, k)) \<Rightarrow>
        (let cfg = entry_or no_config d name; creds = entry_or no_creds k name in
         (s1, bind_result (resolve_placement hdir name (map_of d name) (lo_region_override opt) (lo_env opt)) (\<lambda>p.
              bind_result (resolve_cloud_credentials hdir name (map_of k name) (lo_env opt)) (\<lambda>(pub, priv, source).
              bind_result (fs_placement cfg) (\<lambda>q.
              Inr \<lparr>pf_name = name, pf_home = hdir, pf_source = source, pf_placement = pl_code p,
                pf_provider = pl_provider p, pf_region = pl_native p, pf_public = pub, pf_private = priv,
                pf_fs_name = cp_fs_name cfg, pf_fs_tenant = cp_fs_tenant cfg, pf_fs_placement = pl_code q,
                pf_fs_provider = pl_provider q, pf_fs_region = pl_native q, pf_fs_api_key = kp_api_key creds,
                pf_fs_token_id = [], pf_fs_scope_kind = [], pf_fs_token_name = []\<rparr>))))))"

definition load_local :: "toml_lib \<Rightarrow> home_env \<Rightarrow> home \<Rightarrow> load_options \<Rightarrow> home \<times> (go_error + profile)" where
  "load_local lib v s opt =
     (case load_documents lib v s opt of
        (s1, Inl e) \<Rightarrow> (s1, Inl e)
      | (s1, Inr (hdir, name, d, k)) \<Rightarrow>
        (let cfg = entry_or no_config d name; creds = entry_or no_creds k name in
         (s1, bind_result (resolve_optional_placement cfg (lo_region_override opt) (lo_env opt)) (\<lambda>p0.
              bind_result (fs_placement cfg) (\<lambda>q.
              let p = (case p0 of None \<Rightarrow> no_placement | Some p \<Rightarrow> p) in
              Inr \<lparr>pf_name = name, pf_home = hdir,
                pf_source = (if map_of d name \<noteq> None \<or> map_of k name \<noteq> None then ''profile'' else ''local''),
                pf_placement = pl_code p, pf_provider = pl_provider p, pf_region = pl_native p,
                pf_public = [], pf_private = [],
                pf_fs_name = cp_fs_name cfg, pf_fs_tenant = cp_fs_tenant cfg, pf_fs_placement = pl_code q,
                pf_fs_provider = pl_provider q, pf_fs_region = pl_native q, pf_fs_api_key = kp_api_key creds,
                pf_fs_token_id = [], pf_fs_scope_kind = [], pf_fs_token_name = []\<rparr>)))))"

section \<open>What the library promises\<close>

definition config_fields :: "string list" where
  "config_fields = [''cloud_provider'', ''region_code'', ''project_id'', ''fs_resource_name'', ''fs_tenant_id'',
     ''fs_cloud_provider'', ''fs_region_code'']"

definition creds_fields :: "string list" where
  "creds_fields = [''tidb_cloud_public_key'', ''tidb_cloud_private_key'', ''fs_api_key'']"

text \<open>The generic view of a printed document: a table for each profile with the fields that are
  not empty.\<close>

definition plain_tables :: "string list \<Rightarrow> (string \<times> toml) list \<Rightarrow> bool" where
  "plain_tables known raw \<longleftrightarrow>
     list_all (\<lambda>(_, t). case t of T_Value _ \<Rightarrow> False
       | T_Table kvs \<Rightarrow> list_all (\<lambda>(k, y). k \<in> set known \<and> (case y of T_Value _ \<Rightarrow> True | T_Table _ \<Rightarrow> False)) kvs) raw"

definition as_wire :: "creds_profile \<Rightarrow> wire_profile" where
  "as_wire c = \<lparr>wp_public = kp_public c, wp_private = kp_private c, wp_legacy_public = [], wp_legacy_private = [], wp_api_key = kp_api_key c\<rparr>"

text \<open>A printed document is decoded to itself, its profiles are the tables of the generic view, and
  a decoded map has each key once.\<close>

definition toml_ok :: "toml_lib \<Rightarrow> bool" where
  "toml_ok lib \<longleftrightarrow>
     (\<forall>x d. tl_config lib x = Inr d \<longrightarrow> distinct (map fst d))
   \<and> (\<forall>x ws. tl_wire lib x = Inr ws \<longrightarrow> distinct (map fst ws))
   \<and> (\<forall>d x. distinct (map fst d) \<and> tl_put_config lib d = Inr x \<longrightarrow> tl_config lib x = Inr d
        \<and> (\<exists>raw. tl_raw lib x = Inr raw \<and> set (map fst raw) = set (map fst d) \<and> plain_tables config_fields raw))
   \<and> (\<forall>k x. distinct (map fst k) \<and> tl_put_creds lib k = Inr x \<longrightarrow> tl_wire lib x = Inr (map (\<lambda>(n, c). (n, as_wire c)) k)
        \<and> (\<exists>raw. tl_raw lib x = Inr raw \<and> set (map fst raw) = set (map fst k) \<and> plain_tables creds_fields raw))"

lemma toml_decoded: "toml_ok lib \<Longrightarrow> tl_config lib x = Inr d \<Longrightarrow> distinct (map fst d)"
  "toml_ok lib \<Longrightarrow> tl_wire lib x = Inr ws \<Longrightarrow> distinct (map fst ws)"
  unfolding toml_ok_def by blast+

lemma toml_put_config:
  assumes "toml_ok lib" "distinct (map fst d)" "tl_put_config lib d = Inr x"
  obtains raw where "tl_config lib x = Inr d" "tl_raw lib x = Inr raw" "set (map fst raw) = set (map fst d)"
    "plain_tables config_fields raw"
  using assms unfolding toml_ok_def by blast

lemma toml_put_creds:
  assumes "toml_ok lib" "distinct (map fst k)" "tl_put_creds lib k = Inr x"
  obtains raw where "tl_wire lib x = Inr (map (\<lambda>(n, c). (n, as_wire c)) k)" "tl_raw lib x = Inr raw"
    "set (map fst raw) = set (map fst k)" "plain_tables creds_fields raw"
  using assms unfolding toml_ok_def by blast

lemma walk_Cons: "walk_table bad err pre ((k, x) # kvs) = None \<longleftrightarrow>
    \<not> bad k \<and> (case x of T_Table t \<Rightarrow> walk_table bad err (if pre = [] then k else pre @ ''.'' @ k) t | T_Value _ \<Rightarrow> None) = None
    \<and> walk_table bad err pre kvs = None"
  by (simp add: Let_def split: option.splits)

lemma walk_table_bad: "k \<in> fst ` set kvs \<Longrightarrow> bad k \<Longrightarrow> walk_table bad err pre kvs \<noteq> None"
proof (induction kvs)
  case (Cons a kvs)
  then show ?case by (cases a) (auto simp: walk_Cons simp del: walk_table.simps)
qed simp

lemma walk_values:
  "list_all (\<lambda>(k, y). \<not> bad k \<and> (case y of T_Value _ \<Rightarrow> True | T_Table _ \<Rightarrow> False)) kvs \<Longrightarrow> walk_table bad err pre kvs = None"
proof (induction kvs)
  case (Cons a kvs)
  then show ?case by (cases a; cases "snd a") (simp_all add: walk_Cons del: walk_table.simps)
qed simp

lemma walk_plain_tables:
  assumes "plain_tables known raw" "list_all (\<lambda>k. \<not> bad k) known" "list_all (\<lambda>k. \<not> bad k) (map fst raw)"
  shows "walk_table bad err pre raw = None"
  using assms(1,3)
proof (induction raw arbitrary: pre)
  case (Cons r raw)
  obtain k t where r: "r = (k, t)" by force
  obtain kvs where t: "t = T_Table kvs" "list_all (\<lambda>(k, y). k \<in> set known \<and> (case y of T_Value _ \<Rightarrow> True | T_Table _ \<Rightarrow> False)) kvs"
    using Cons.prems(1) r by (auto simp: plain_tables_def split: toml.splits)
  have "list_all (\<lambda>(k, y). \<not> bad k \<and> (case y of T_Value _ \<Rightarrow> True | T_Table _ \<Rightarrow> False)) kvs"
    using t(2) assms(2) by (auto simp: list_all_iff)
  note w = walk_values [OF this]
  have "walk_table bad err pre raw = None" using Cons by (simp add: plain_tables_def)
  then show ?case using Cons.prems(2) r t(1) w by (simp add: walk_Cons del: walk_table.simps)
qed simp

lemma fields_allowed:
  "list_all (\<lambda>k. \<not> is_disallowed_key k) config_fields" "list_all (\<lambda>k. \<not> is_disallowed_key k) creds_fields"
  "list_all (\<lambda>k. fold_ascii k \<noteq> ''db_users'') creds_fields"
  by code_simp+

section \<open>The documents of a machine\<close>

definition stored_config :: "toml_lib \<Rightarrow> hfiles \<Rightarrow> string \<Rightarrow> go_error + config_document" where
  "stored_config lib f hdir = (case f (config_path hdir) of None \<Rightarrow> Inr [] | Some x \<Rightarrow> tl_config lib (hf_data x))"

definition stored_credentials :: "toml_lib \<Rightarrow> hfiles \<Rightarrow> string \<Rightarrow> go_error + creds_document" where
  "stored_credentials lib f hdir = (case f (credentials_path hdir) of None \<Rightarrow> Inr []
     | Some x \<Rightarrow> decode_credentials lib (hf_data x) (credentials_path hdir))"

text \<open>A call that fails for another reason does not say that the file is missing.\<close>

definition honest :: "home_env \<Rightarrow> bool" where
  "honest v \<longleftrightarrow> (\<forall>n e. he_fail v n = Some e \<longrightarrow> \<not> errors_is e Err_Not_Exist)"

lemma read_config_ok:
  assumes "read_config lib v s hdir = (s1, r)"
  shows "hm_files s1 = hm_files s" "all_states P s s1 \<longleftrightarrow> P (hm_files s)"
    "honest v \<Longrightarrow> r = Inr d \<Longrightarrow> stored_config lib (hm_files s) hdir = Inr d"
proof -
  have s1: "s1 = hm_step s (hm_files s)"
    using assms by (auto simp: read_config_def hm_read_def Let_def split: sum.splits option.splits if_splits)
  show "hm_files s1 = hm_files s" "all_states P s s1 \<longleftrightarrow> P (hm_files s)"
    by (auto simp: s1 all_states_def hm_step_def)
  show "honest v \<Longrightarrow> r = Inr d \<Longrightarrow> stored_config lib (hm_files s) hdir = Inr d"
    using assms
    by (auto simp: read_config_def hm_read_def stored_config_def honest_def Let_def split: sum.splits option.splits if_splits)
qed

text \<open>What reading the credentials may do to the files: it restricts their mode.\<close>

definition restricted :: "hfiles \<Rightarrow> string \<Rightarrow> hfiles \<Rightarrow> bool" where
  "restricted f0 p f \<longleftrightarrow> f = f0 \<or> (\<exists>x. f0 p = Some x \<and> f = f0(p := Some (x\<lparr>hf_mode := 384\<rparr>)))"

lemma read_credentials_ok:
  assumes "read_credentials lib v s hdir = (s1, r)"
  shows "all_states (restricted (hm_files s) (credentials_path hdir)) s s1"
    "honest v \<Longrightarrow> r = Inr k \<Longrightarrow> stored_credentials lib (hm_files s) hdir = Inr k"
proof -
  let ?p = "credentials_path hdir"
  obtain s0 a where rd: "hm_read v s ?p = (s0, a)" by force
  obtain s2 b where en: "ensure_credentials_permissions v s0 ?p = (s2, b)" by force
  obtain s3 c where st: "hm_stat v s0 ?p = (s3, c)" by force
  let ?P = "restricted (hm_files s) ?p"
  have a0: "all_states ?P s s0" and f0: "hm_files s0 = hm_files s"
    using rd by (auto simp: hm_read_def restricted_def intro: all_states_step)
  have a3: "all_states ?P s0 s3" and f3: "hm_files s3 = hm_files s"
    using st f0 by (auto simp: hm_stat_def restricted_def intro: all_states_step)
  obtain s4 e where ch: "hm_chmod v s3 ?p 384 = (s4, e)" by force
  have a4: "all_states ?P s3 s4"
    using ch unfolding hm_chmod_def by (rule hm_on_file_states) (auto simp: f3 restricted_def)
  have a2: "all_states ?P s0 s2"
    using en a3 all_states_trans [OF a3 a4]
    by (auto simp: ensure_credentials_permissions_def st ch split: sum.splits option.splits if_splits)
  have "s1 \<in> {s0, s2}"
    using assms by (auto simp: read_credentials_def rd en Let_def split: sum.splits option.splits)
  then show "all_states ?P s s1" using a0 all_states_trans [OF a0 a2] by auto
  show "honest v \<Longrightarrow> r = Inr k \<Longrightarrow> stored_credentials lib (hm_files s) hdir = Inr k"
    using assms rd
    by (auto simp: read_credentials_def en Let_def hm_read_def stored_credentials_def honest_def split: sum.splits option.splits if_splits)
qed

lemma home_paths:
  assumes "good_path hdir"
  shows "good_path (config_path hdir)" "good_path (credentials_path hdir)" "config_path hdir \<noteq> credentials_path hdir"
    "hdir \<noteq> []" "\<not> is_temp_of (config_path hdir) (credentials_path hdir)"
    "\<not> is_temp_of (credentials_path hdir) (config_path hdir)"
proof -
  have c: "clean_list [''.ti'', ''config'']" "clean_list [''.ti'', ''credentials'']" by code_simp+
  note j = join_home [OF assms c(1)] join_home [OF assms c(2)]
  show "good_path (config_path hdir)" "good_path (credentials_path hdir)"
    using j(1,4) by (simp_all add: config_path_def credentials_path_def)
  have "path_base (config_path hdir) \<noteq> path_base (credentials_path hdir)"
    using j(2,5) by (simp add: config_path_def credentials_path_def)
  then show "config_path hdir \<noteq> credentials_path hdir" by auto
  show "hdir \<noteq> []" using assms by (simp add: good_path_def)
  have d: "path_dir (config_path hdir) = path_join (hdir # [''.ti''])" "path_dir (credentials_path hdir) = path_join (hdir # [''.ti''])"
    using join_home_dir [OF assms, of "[''.ti'']"] c by (simp_all add: config_path_def credentials_path_def)
  have b: "hd (path_base (config_path hdir)) \<noteq> CHR ''.''" "hd (path_base (credentials_path hdir)) \<noteq> CHR ''.''"
    using j(2,5) by (simp_all add: config_path_def credentials_path_def)
  show "\<not> is_temp_of (config_path hdir) (credentials_path hdir)" "\<not> is_temp_of (credentials_path hdir) (config_path hdir)"
    using sibling_not_temp d b \<open>good_path (config_path hdir)\<close> \<open>good_path (credentials_path hdir)\<close> by simp_all
qed

section \<open>Updating a profile\<close>

text \<open>The states of an update: the config document is the old or the new one and the credentials
  document is new only if the config document is; every file that is not as before has the
  credentials' mode or begins the text of a config document.\<close>

definition update_state :: "toml_lib \<Rightarrow> hfiles \<Rightarrow> string \<Rightarrow> config_document \<Rightarrow> creds_document \<Rightarrow> hfiles \<Rightarrow> bool" where
  "update_state lib f0 hdir d k f \<longleftrightarrow>
     (let c = config_path hdir; p = credentials_path hdir;
          new_config = (\<exists>x. tl_put_config lib d = Inr x \<and> f c = Some \<lparr>hf_mode = 420, hf_data = x\<rparr>);
          new_creds = (\<exists>y. tl_put_creds lib k = Inr y \<and> f p = Some \<lparr>hf_mode = 384, hf_data = y\<rparr>)
      in (f c = f0 c \<or> new_config)
       \<and> (f p = f0 p \<or> (\<exists>x. f0 p = Some x \<and> f p = Some (x\<lparr>hf_mode := 384\<rparr>)) \<or> (new_creds \<and> new_config)))
     \<and> (\<forall>q x. f q = Some x \<longrightarrow> f0 q = Some x \<or> hf_mode x = 384
          \<or> (\<exists>d z. tl_put_config lib d = Inr z \<and> hf_data x = take (length (hf_data x)) z))"

lemma update_state_start: "update_state lib f0 hdir d k f0"
  by (simp add: update_state_def)

lemma update_state_restricted: "good_path hdir \<Longrightarrow> restricted f0 (credentials_path hdir) f \<Longrightarrow> update_state lib f0 hdir d k f"
  using home_paths(3) [of hdir] by (auto simp: update_state_def restricted_def Let_def split: if_splits)

lemma write_toml_states:
  assumes "write_toml x v s p m = (s', r)" "good_path p" "P (hm_files s)"
    and "\<And>data f. x = Inr data \<Longrightarrow> f p = hm_files s p \<or> f p = Some \<lparr>hf_mode = m, hf_data = data\<rparr> \<Longrightarrow>
      (\<And>q. q \<noteq> p \<Longrightarrow> hm_files s q \<noteq> None \<or> \<not> is_temp_of p q \<Longrightarrow> f q = hm_files s q) \<Longrightarrow>
      (\<And>q y. f q = Some y \<Longrightarrow> hm_files s q = Some y \<or> (hf_mode y \<in> {m, 384} \<and> hf_data y = take (length (hf_data y)) data)) \<Longrightarrow> P f"
  shows "all_states P s s'"
proof (cases x)
  case (Inl e)
  then show ?thesis using assms(1,3) by (auto simp: write_toml_def intro: all_states_refl)
next
  case (Inr data)
  then have w: "store_write v s p data m = (s', r)" using assms(1) by (simp add: write_toml_def)
  obtain pre where pre: "hm_log s' = pre @ hm_log s" using store.old_or_new [OF assms(2) w] by (auto simp: all_states_def)
  have all: "list_all Q pre \<and> Q (hm_files s')" if "all_states Q s s'" for Q using that pre by (auto simp: all_states_def)
  have f: "P f" if "f \<in> set pre \<union> {hm_files s'}" for f
  proof (rule assms(4) [OF Inr])
    show "f p = hm_files s p \<or> f p = Some \<lparr>hf_mode = m, hf_data = data\<rparr>"
      using all [OF store.old_or_new [OF assms(2) w]] that by (auto simp: list_all_iff)
    show "f q = hm_files s q" if q: "q \<noteq> p" "hm_files s q \<noteq> None \<or> \<not> is_temp_of p q" for q
      using all [OF store.keeps_others [OF assms(2) w q]] \<open>f \<in> set pre \<union> {hm_files s'}\<close> by (auto simp: list_all_iff)
    show "hm_files s q = Some y \<or> (hf_mode y \<in> {m, 384} \<and> hf_data y = take (length (hf_data y)) data)" if y: "f q = Some y" for q y
      using all [OF store.new_files [OF assms(2) w]] \<open>f \<in> set pre \<union> {hm_files s'}\<close> y by (auto simp: list_all_iff)
  qed
  then show ?thesis using pre by (auto simp: all_states_def list_all_iff)
qed

lemma write_toml_done:
  assumes "write_toml x v s p m = (s', None)" "good_path p"
  shows "\<exists>data. x = Inr data \<and> hm_files s' = (hm_files s)(p := Some \<lparr>hf_mode = m, hf_data = data\<rparr>)"
  using assms store.finished by (auto simp: write_toml_def split: sum.splits)

lemma update_profile_run:
  assumes "update_profile lib v s hdir name g h = (s', r)"
  obtains "s' = s" "r \<noteq> None"
  | s1 where "ensure_dir v s hdir = (s1, r)" "s' = s1" "r \<noteq> None"
  | s1 s2 e where "ensure_dir v s hdir = (s1, None)" "read_config lib v s1 hdir = (s2, Inl e)" "s' = s2" "r \<noteq> None"
  | s1 s2 s3 d e where "ensure_dir v s hdir = (s1, None)" "read_config lib v s1 hdir = (s2, Inr d)"
      "read_credentials lib v s2 hdir = (s3, Inl e)" "s' = s3" "r \<noteq> None"
  | s1 s2 s3 s4 d k where "ensure_dir v s hdir = (s1, None)" "read_config lib v s1 hdir = (s2, Inr d)"
      "read_credentials lib v s2 hdir = (s3, Inr k)"
      "write_toml (tl_put_config lib (AList.update name (g (entry_or no_config d name)) d)) v s3 (config_path hdir) 420 = (s4, r)"
      "s' = s4" "r \<noteq> None"
  | s1 s2 s3 s4 d k where "ensure_dir v s hdir = (s1, None)" "read_config lib v s1 hdir = (s2, Inr d)"
      "read_credentials lib v s2 hdir = (s3, Inr k)"
      "write_toml (tl_put_config lib (AList.update name (g (entry_or no_config d name)) d)) v s3 (config_path hdir) 420 = (s4, None)"
      "write_toml (tl_put_creds lib (AList.update name (h (entry_or no_creds k name)) k)) v s4 (credentials_path hdir) 384 = (s', r)"
  using assms by (auto simp: update_profile_def split: prod.splits option.splits sum.splits)

lemma ensure_dir_files: "ensure_dir v s hdir = (s1, r) \<Longrightarrow> hm_files s1 = hm_files s"
  "ensure_dir v s hdir = (s1, r) \<Longrightarrow> P (hm_files s) \<Longrightarrow> all_states P s s1"
  by (auto simp: ensure_dir_def hm_mkdir_all_files hm_mkdir_all_states all_states_refl split: if_splits)

lemma config_written:
  assumes "good_path hdir" "ensure_dir v s hdir = (s1, None)" "read_config lib v s1 hdir = (s2, Inr d0)"
    "read_credentials lib v s2 hdir = (s3, Inr k0)"
    "write_toml (tl_put_config lib d) v s3 (config_path hdir) 420 = (s4, r)"
  shows "all_states (update_state lib (hm_files s) hdir d k) s s4"
proof -
  let ?P = "update_state lib (hm_files s) hdir d k"
  note hp = home_paths [OF assms(1)]
  have a: "all_states ?P s s1" by (rule ensure_dir_files(2) [OF assms(2) update_state_start])
  have b: "all_states ?P s1 s2" using read_config_ok(2) [OF assms(3)] ensure_dir_files(1) [OF assms(2)] update_state_start by metis
  have f2: "hm_files s2 = hm_files s" using read_config_ok(1) [OF assms(3)] ensure_dir_files(1) [OF assms(2)] by simp
  note rs = read_credentials_ok(1) [OF assms(4), unfolded f2]
  have c: "all_states ?P s2 s3" using rs by (rule all_states_mono) (rule update_state_restricted [OF assms(1)])
  have f3: "restricted (hm_files s) (credentials_path hdir) (hm_files s3)" by (rule all_states_end [OF rs])
  have "all_states ?P s3 s4"
  proof (rule write_toml_states [where P = ?P, OF assms(5) hp(1) all_states_end [OF c]])
    fix data f assume x: "tl_put_config lib d = Inr data"
      and cf: "f (config_path hdir) = hm_files s3 (config_path hdir) \<or> f (config_path hdir) = Some \<lparr>hf_mode = 420, hf_data = data\<rparr>"
      and ot: "\<And>q. q \<noteq> config_path hdir \<Longrightarrow> hm_files s3 q \<noteq> None \<or> \<not> is_temp_of (config_path hdir) q \<Longrightarrow> f q = hm_files s3 q"
      and nw: "\<And>q y. f q = Some y \<Longrightarrow> hm_files s3 q = Some y \<or> (hf_mode y \<in> {420, 384} \<and> hf_data y = take (length (hf_data y)) data)"
    have p: "f (credentials_path hdir) = hm_files s3 (credentials_path hdir)" using ot hp(3,5) by metis
    have q: "hm_files s q = Some y \<or> hf_mode y = 384 \<or> (\<exists>d z. tl_put_config lib d = Inr z \<and> hf_data y = take (length (hf_data y)) z)"
      if "f q = Some y" for q y
      using nw [OF that] x f3 by (auto simp: restricted_def split: if_splits)
    show "?P f"
      using cf p q x f3 hp(3) by (auto simp: update_state_def restricted_def Let_def)
  qed
  then show ?thesis using all_states_trans [OF a all_states_trans [OF b all_states_trans [OF c]]] by blast
qed

lemma creds_written:
  assumes "good_path hdir" "all_states (update_state lib f0 hdir d k) s s4"
    "good_path (config_path hdir) \<Longrightarrow> \<exists>x. tl_put_config lib d = Inr x \<and> hm_files s4 = (hm_files s3)(config_path hdir := Some \<lparr>hf_mode = 420, hf_data = x\<rparr>)"
    "write_toml (tl_put_creds lib k) v s4 (credentials_path hdir) 384 = (s', r)" "good_path (config_path hdir)"
  shows "all_states (update_state lib f0 hdir d k) s4 s'"
proof -
  let ?P = "update_state lib f0 hdir d k"
  note hp = home_paths [OF assms(1)]
  obtain x where x: "tl_put_config lib d = Inr x" "hm_files s4 (config_path hdir) = Some \<lparr>hf_mode = 420, hf_data = x\<rparr>"
    using assms(3) [OF assms(5)] by auto
  have p4: "?P (hm_files s4)" by (rule all_states_end [OF assms(2)])
  show ?thesis
  proof (rule write_toml_states [where P = ?P, OF assms(4) hp(2) p4])
    fix data f assume y: "tl_put_creds lib k = Inr data"
      and cf: "f (credentials_path hdir) = hm_files s4 (credentials_path hdir) \<or> f (credentials_path hdir) = Some \<lparr>hf_mode = 384, hf_data = data\<rparr>"
      and ot: "\<And>q. q \<noteq> credentials_path hdir \<Longrightarrow> hm_files s4 q \<noteq> None \<or> \<not> is_temp_of (credentials_path hdir) q \<Longrightarrow> f q = hm_files s4 q"
      and nw: "\<And>q z. f q = Some z \<Longrightarrow> hm_files s4 q = Some z \<or> (hf_mode z \<in> {384, 384} \<and> hf_data z = take (length (hf_data z)) data)"
    have c: "f (config_path hdir) = Some \<lparr>hf_mode = 420, hf_data = x\<rparr>" using ot [of "config_path hdir"] hp(3,6) x(2) by metis
    have q: "f0 q = Some z \<or> hf_mode z = 384 \<or> (\<exists>d w. tl_put_config lib d = Inr w \<and> hf_data z = take (length (hf_data z)) w)"
      if "f q = Some z" for q z
      using nw [OF that] p4 by (auto simp: update_state_def Let_def)
    show "?P f"
      unfolding update_state_def Let_def using cf c q x y p4 [unfolded update_state_def Let_def] by (intro conjI allI impI) metis+
  qed
qed

lemma update_profile_states:
  assumes "update_profile lib v s hdir name g h = (s', r)" "good_path hdir"
  shows "\<exists>d k. all_states (update_state lib (hm_files s) hdir d k) s s'"
  using assms(1)
proof (cases rule: update_profile_run)
  case 1
  then show ?thesis by (auto intro: all_states_refl update_state_start)
next
  case (2 s1)
  then show ?thesis using ensure_dir_files(2) [OF 2(1)] update_state_start by blast
next
  case (3 s1 s2 e)
  have "all_states (update_state lib (hm_files s) hdir [] []) s s1" by (rule ensure_dir_files(2) [OF 3(1) update_state_start])
  moreover have "all_states (update_state lib (hm_files s) hdir [] []) s1 s2"
    using read_config_ok(2) [OF 3(2)] ensure_dir_files(1) [OF 3(1)] update_state_start by metis
  ultimately show ?thesis using 3(3) all_states_trans by metis
next
  case (4 s1 s2 s3 d e)
  let ?P = "update_state lib (hm_files s) hdir [] []"
  have a: "all_states ?P s s1" by (rule ensure_dir_files(2) [OF 4(1) update_state_start])
  have b: "all_states ?P s1 s2" using read_config_ok(2) [OF 4(2)] ensure_dir_files(1) [OF 4(1)] update_state_start by metis
  have f2: "hm_files s2 = hm_files s" using read_config_ok(1) [OF 4(2)] ensure_dir_files(1) [OF 4(1)] by simp
  have "all_states ?P s2 s3" using read_credentials_ok(1) [OF 4(3)] unfolding f2
    by (rule all_states_mono) (rule update_state_restricted [OF assms(2)])
  then show ?thesis using 4(4) all_states_trans [OF all_states_trans [OF a b]] by metis
next
  case (5 s1 s2 s3 s4 d k)
  let ?d = "AList.update name (g (entry_or no_config d name)) d"
  have "all_states (update_state lib (hm_files s) hdir ?d []) s s4"
    by (rule config_written [OF assms(2) 5(1-4)])
  then show ?thesis using 5(5) by blast
next
  case (6 s1 s2 s3 s4 d k)
  let ?d = "AList.update name (g (entry_or no_config d name)) d"
  let ?k = "AList.update name (h (entry_or no_creds k name)) k"
  have a: "all_states (update_state lib (hm_files s) hdir ?d ?k) s s4"
    by (rule config_written [OF assms(2) 6(1-4)])
  have "all_states (update_state lib (hm_files s) hdir ?d ?k) s4 s'"
    by (rule creds_written [OF assms(2) a write_toml_done [OF 6(4)] 6(5) home_paths(1) [OF assms(2)]])
  then show ?thesis using all_states_trans [OF a] by blast
qed

section \<open>A small library\<close>

definition demo_cfg :: config_profile where
  "demo_cfg = no_config\<lparr>cp_region_code := ''aws-us-east-1''\<rparr>"

definition demo_creds :: creds_profile where
  "demo_creds = \<lparr>kp_public = ''p'', kp_private = ''q'', kp_api_key = []\<rparr>"

text \<open>A library that can print one profile.\<close>

definition demo_lib :: "string \<Rightarrow> toml_lib" where
  "demo_lib n = \<lparr>
     tl_raw = (\<lambda>x. if x = ''C'' then Inr [(n, T_Table [(''region_code'', T_Value ''aws-us-east-1'')])]
        else if x = ''K'' then Inr [(n, T_Table [(''tidb_cloud_public_key'', T_Value ''p''), (''tidb_cloud_private_key'', T_Value ''q'')])]
        else Inl (Sentinel Err_Invalid)),
     tl_config = (\<lambda>x. if x = ''C'' then Inr [(n, demo_cfg)] else Inl (Sentinel Err_Invalid)),
     tl_wire = (\<lambda>x. if x = ''K'' then Inr [(n, as_wire demo_creds)] else Inl (Sentinel Err_Invalid)),
     tl_put_config = (\<lambda>d. if d = [(n, demo_cfg)] then Inr ''C'' else Inl (Sentinel Err_Invalid)),
     tl_put_creds = (\<lambda>d. if d = [(n, demo_creds)] then Inr ''K'' else Inl (Sentinel Err_Invalid)),
     tl_put_raw = (\<lambda>_. Inl (Sentinel Err_Invalid))\<rparr>"

lemma demo_lib_ok: "toml_ok (demo_lib n)"
  unfolding toml_ok_def demo_lib_def by (auto simp: plain_tables_def config_fields_def creds_fields_def split: if_splits)

definition no_failures :: home_env where
  "no_failures = \<lparr>he_fail = (\<lambda>_. None), he_random = (\<lambda>_. ''1''), he_partial = (\<lambda>_. 0)\<rparr>"

definition empty_home :: home where
  "empty_home = \<lparr>hm_files = (\<lambda>_. None), hm_dirs = [], hm_steps = 0, hm_log = []\<rparr>"

lemma no_failures_honest [simp]: "honest no_failures" "he_fail no_failures n = None"
  by (simp_all add: honest_def no_failures_def)

lemma demo_write: "n \<in> {''work'', ''curl''} \<Longrightarrow> snd (write_profile_as True (demo_lib n) no_failures empty_home ''/h'' n demo_cfg demo_creds) = None"
  by (elim insertE) (simp_all only: empty_iff, code_simp+)

section \<open>Properties\<close>

lemma update_profile_stored:
  assumes "toml_ok lib" "honest v" "good_path hdir" "update_profile lib v s hdir name g h = (s', None)"
  shows "\<exists>d k. stored_config lib (hm_files s) hdir = Inr d \<and> stored_credentials lib (hm_files s) hdir = Inr k
    \<and> distinct (map fst d) \<and> distinct (map fst k)
    \<and> (\<exists>x y. tl_put_config lib (AList.update name (g (entry_or no_config d name)) d) = Inr x
        \<and> tl_put_creds lib (AList.update name (h (entry_or no_creds k name)) k) = Inr y
        \<and> hm_files s' = (hm_files s)(config_path hdir := Some \<lparr>hf_mode = 420, hf_data = x\<rparr>,
            credentials_path hdir := Some \<lparr>hf_mode = 384, hf_data = y\<rparr>))"
  using assms(4)
proof (cases rule: update_profile_run)
  case (6 s1 s2 s3 s4 d k)
  note hp = home_paths [OF assms(3)]
  have f2: "hm_files s2 = hm_files s" "stored_config lib (hm_files s) hdir = Inr d"
    using read_config_ok(1) [OF 6(2)] read_config_ok(3) [OF 6(2) assms(2) refl] ensure_dir_files(1) [OF 6(1)] by simp_all
  have k: "stored_credentials lib (hm_files s) hdir = Inr k"
    using read_credentials_ok(2) [OF 6(3) assms(2) refl] f2(1) by simp
  have f3: "restricted (hm_files s) (credentials_path hdir) (hm_files s3)"
    using all_states_end [OF read_credentials_ok(1) [OF 6(3)]] f2(1) by simp
  obtain x y where x: "tl_put_config lib (AList.update name (g (entry_or no_config d name)) d) = Inr x"
    "hm_files s4 = (hm_files s3)(config_path hdir := Some \<lparr>hf_mode = 420, hf_data = x\<rparr>)"
    and y: "tl_put_creds lib (AList.update name (h (entry_or no_creds k name)) k) = Inr y"
    "hm_files s' = (hm_files s4)(credentials_path hdir := Some \<lparr>hf_mode = 384, hf_data = y\<rparr>)"
    using write_toml_done [OF 6(4) hp(1)] write_toml_done [OF 6(5) hp(2)] by blast
  have "hm_files s' = (hm_files s)(config_path hdir := Some \<lparr>hf_mode = 420, hf_data = x\<rparr>,
            credentials_path hdir := Some \<lparr>hf_mode = 384, hf_data = y\<rparr>)"
    using f3 hp(3) by (auto simp: x(2) y(2) restricted_def fun_upd_twist)
  moreover have "distinct (map fst d)"
    using f2(2) toml_decoded(1) [OF assms(1)] by (auto simp: stored_config_def split: option.splits)
  moreover have "distinct (map fst k)"
  proof -
    have "map fst k = map fst ws" if "decode_profiles p ws = Inr k" for p ws k
      using that by (induction p ws arbitrary: k rule: decode_profiles.induct) auto
    then show ?thesis
      using k toml_decoded(2) [OF assms(1)]
      by (fastforce simp: stored_credentials_def decode_credentials_def split: option.splits sum.splits)
  qed
  ultimately show ?thesis using f2(2) k x(1) y(1) by blast
qed auto

lemma decode_as_wire: "decode_profiles p (map (\<lambda>(n, c). (n, as_wire c)) k) = Inr k"
  by (induction k) (auto simp: as_wire_def resolve_credential_field_def)

text \<open>Reading back a machine that holds printed documents.\<close>

lemma read_printed:
  assumes "toml_ok lib" "\<And>n. he_fail v n = None" "good_path hdir" "distinct (map fst d)" "distinct (map fst k)"
    and "tl_put_config lib d = Inr x" "tl_put_creds lib k = Inr y"
    and "hm_files s (config_path hdir) = Some \<lparr>hf_mode = 420, hf_data = x\<rparr>"
    and "hm_files s (credentials_path hdir) = Some \<lparr>hf_mode = 384, hf_data = y\<rparr>"
  shows "list_all (\<lambda>n. \<not> is_disallowed_key n) (map fst d) \<Longrightarrow> snd (read_config lib v s hdir) = Inr d"
    "\<not> list_all (\<lambda>n. \<not> is_disallowed_key n) (map fst d) \<Longrightarrow> \<not> is_ok (snd (read_config lib v s hdir))"
    "list_all (\<lambda>n. \<not> is_disallowed_key n \<and> fold_ascii n \<noteq> ''db_users'') (map fst k) \<Longrightarrow>
      snd (read_credentials lib v s hdir) = Inr k"
proof -
  obtain raw where raw: "tl_raw lib x = Inr raw" "set (map fst raw) = set (map fst d)" "plain_tables config_fields raw"
    and c: "tl_config lib x = Inr d"
    using toml_put_config [OF assms(1,4,6)] by metis
  obtain raw2 where raw2: "tl_raw lib y = Inr raw2" "set (map fst raw2) = set (map fst k)" "plain_tables creds_fields raw2"
    and w: "tl_wire lib y = Inr (map (\<lambda>(n, c). (n, as_wire c)) k)"
    using toml_put_creds [OF assms(1,5,7)] by metis
  have rc: "snd (read_config lib v s hdir) = (case reject_disallowed_keys lib x (config_path hdir) of Some e \<Rightarrow> Inl e | None \<Rightarrow> Inr d)"
    using assms(2,8) by (simp add: read_config_def hm_read_def Let_def c split: option.splits)
  have allowed: "reject_keys lib bad err z p = None"
    if "tl_raw lib z = Inr raw" "set (map fst raw) = set (map fst m)" "plain_tables known raw"
      "list_all (\<lambda>k. \<not> bad k) known" "list_all (\<lambda>k. \<not> bad k) (map fst m)" for bad err z p raw known and m :: "(string \<times> 'm) list"
  proof -
    have "list_all (\<lambda>k. \<not> bad k) (map fst raw)" using that(5) unfolding list_all_iff that(2) .
    then show ?thesis using walk_plain_tables [OF that(3,4)] that(1) by (simp add: reject_keys_def)
  qed
  show "list_all (\<lambda>n. \<not> is_disallowed_key n) (map fst d) \<Longrightarrow> snd (read_config lib v s hdir) = Inr d"
    using allowed [OF raw fields_allowed(1)] by (simp add: rc reject_disallowed_keys_def)
  show "\<not> list_all (\<lambda>n. \<not> is_disallowed_key n) (map fst d) \<Longrightarrow> \<not> is_ok (snd (read_config lib v s hdir))"
  proof -
    assume "\<not> list_all (\<lambda>n. \<not> is_disallowed_key n) (map fst d)"
    then obtain n where "n \<in> fst ` set raw" "is_disallowed_key n" using raw(2) by (auto simp: list_all_iff)
    then have "reject_disallowed_keys lib x (config_path hdir) \<noteq> None"
      using walk_table_bad by (simp add: reject_disallowed_keys_def reject_keys_def raw(1))
    then show "\<not> is_ok (snd (read_config lib v s hdir))" by (auto simp: rc)
  qed
  assume k: "list_all (\<lambda>n. \<not> is_disallowed_key n \<and> fold_ascii n \<noteq> ''db_users'') (map fst k)"
  then have k2: "list_all (\<lambda>n. \<not> is_disallowed_key n) (map fst k)" "list_all (\<lambda>n. fold_ascii n \<noteq> ''db_users'') (map fst k)"
    by (auto simp: list_all_iff)
  have "reject_disallowed_keys lib y (credentials_path hdir) = None"
    unfolding reject_disallowed_keys_def by (rule allowed [OF raw2 fields_allowed(2) k2(1)])
  moreover have "reject_disallowed_credential_keys lib y (credentials_path hdir) = None"
    unfolding reject_disallowed_credential_keys_def by (rule allowed [OF raw2 fields_allowed(3) k2(2)])
  ultimately show "snd (read_credentials lib v s hdir) = Inr k"
    using assms(2,9) by (simp add: read_credentials_def hm_read_def ensure_credentials_permissions_def hm_stat_def Let_def
        decode_credentials_def w decode_as_wire)
qed

text \<open>C27: Configuring a profile is read back: when no profile has a name that is refused as a key or
  is \<open>db_users\<close>, then after a successful write a read without a failing call gives both
  documents; every profile other than the written one is as before, and the written one has
  each new value that is not empty and its old value otherwise.\<close>

theorem write_profile_round_trip:
  assumes "toml_ok lib" "honest v" "\<And>n. he_fail v2 n = None" "good_path hdir"
    and "write_profile_as b lib v s hdir name cfg creds = (s', None)"
    and "stored_config lib (hm_files s) hdir = Inr d" "stored_credentials lib (hm_files s) hdir = Inr k"
    and "list_all (\<lambda>n. \<not> is_disallowed_key n \<and> fold_ascii n \<noteq> ''db_users'')
      ((if name = [] then ''default'' else name) # map fst d @ map fst k)"
  shows "\<exists>d' k' c w. snd (read_config lib v2 s' hdir) = Inr d' \<and> snd (read_credentials lib v2 s' hdir) = Inr k'
    \<and> map_of d' = (map_of d)((if name = [] then ''default'' else name) \<mapsto> c)
    \<and> map_of k' = (map_of k)((if name = [] then ''default'' else name) \<mapsto> w)
    \<and> (let old = entry_or no_config d (if name = [] then ''default'' else name);
           was = entry_or no_creds k (if name = [] then ''default'' else name);
           kept = (\<lambda>new old. if new = [] then old else new) in
         cp_region_code c = kept (cp_region_code cfg) (cp_region_code old)
       \<and> cp_cloud_provider c = (if cp_region_code cfg = [] then kept (cp_cloud_provider cfg) (cp_cloud_provider old) else [])
       \<and> cp_legacy_project c = (if b then [] else cp_legacy_project old)
       \<and> cp_fs_name c = kept (cp_fs_name cfg) (cp_fs_name old) \<and> cp_fs_tenant c = kept (cp_fs_tenant cfg) (cp_fs_tenant old)
       \<and> cp_fs_cloud c = kept (cp_fs_cloud cfg) (cp_fs_cloud old) \<and> cp_fs_region c = kept (cp_fs_region cfg) (cp_fs_region old)
       \<and> kp_public w = kept (kp_public creds) (kp_public was) \<and> kp_private w = kept (kp_private creds) (kp_private was)
       \<and> kp_api_key w = kept (kp_api_key creds) (kp_api_key was))"
proof -
  let ?n = "if name = [] then ''default'' else name"
  let ?d = "AList.update ?n (merge_config b cfg (entry_or no_config d ?n)) d"
  let ?k = "AList.update ?n (merge_creds creds (entry_or no_creds k ?n)) k"
  have u: "update_profile lib v s hdir ?n (merge_config b cfg) (merge_creds creds) = (s', None)"
    using assms(5) by (auto simp: write_profile_as_def Let_def split: if_splits)
  obtain x y where dx: "distinct (map fst d)" "distinct (map fst k)" "tl_put_config lib ?d = Inr x" "tl_put_creds lib ?k = Inr y"
    "hm_files s' = (hm_files s)(config_path hdir := Some \<lparr>hf_mode = 420, hf_data = x\<rparr>,
            credentials_path hdir := Some \<lparr>hf_mode = 384, hf_data = y\<rparr>)"
    using update_profile_stored [OF assms(1,2,4) u] unfolding assms(6,7) by auto
  have dd: "distinct (map fst ?d)" "distinct (map fst ?k)" using dx(1,2) by (simp_all add: distinct_update)
  have f: "hm_files s' (config_path hdir) = Some \<lparr>hf_mode = 420, hf_data = x\<rparr>"
    "hm_files s' (credentials_path hdir) = Some \<lparr>hf_mode = 384, hf_data = y\<rparr>"
    using home_paths(3) [OF assms(4)] by (simp_all add: dx(5))
  have al: "list_all (\<lambda>n. \<not> is_disallowed_key n) (map fst ?d)"
    "list_all (\<lambda>n. \<not> is_disallowed_key n \<and> fold_ascii n \<noteq> ''db_users'') (map fst ?k)"
    using assms(8) by (auto simp: list_all_iff dom_update)
  note rp = read_printed [OF assms(1,3,4) dd dx(3,4) f]
  show ?thesis
    using rp(1) [OF al(1)] rp(3) [OF al(2)]
    by (intro exI conjI) (assumption, assumption, rule update_conv', rule update_conv',
        simp add: Let_def merge_config_def merge_creds_def keep_or_def)
qed

theorem write_profile_round_trip_witness:
  "\<exists>s' d. write_profile_as True (demo_lib ''work'') no_failures empty_home ''/h'' ''work'' demo_cfg demo_creds = (s', None)
     \<and> snd (read_config (demo_lib ''work'') no_failures s' ''/h'') = Inr d
     \<and> map_option cp_region_code (map_of d ''work'') = Some (cp_region_code demo_cfg)"
proof -
  obtain s' where w: "write_profile_as True (demo_lib ''work'') no_failures empty_home ''/h'' ''work'' demo_cfg demo_creds = (s', None)"
    using demo_write [of "''work''"]
    by (cases "write_profile_as True (demo_lib ''work'') no_failures empty_home ''/h'' ''work'' demo_cfg demo_creds") auto
  have g: "good_path ''/h''" by code_simp
  have l: "list_all (\<lambda>n. \<not> is_disallowed_key n \<and> fold_ascii n \<noteq> ''db_users'')
      ((if ''work'' = [] then ''default'' else ''work'') # map fst ([] :: config_document) @ map fst ([] :: creds_document))"
    by code_simp
  have e: "stored_config (demo_lib ''work'') (hm_files empty_home) ''/h'' = Inr []"
    "stored_credentials (demo_lib ''work'') (hm_files empty_home) ''/h'' = Inr []"
    by (simp_all add: stored_config_def stored_credentials_def empty_home_def)
  show ?thesis
    using write_profile_round_trip [OF demo_lib_ok no_failures_honest(1) no_failures_honest(2) g w e l] w
    by (auto simp: entry_or_def Let_def no_config_def)
qed

text \<open>C24: A profile whose name looks like a URL key locks the program out: the name is accepted
  when the profile is written, but it is one of the keys the readers refuse, so afterwards no
  profile of any name can be loaded and no profile can be written, even to repair it.\<close>

theorem disallowed_profile_name_locks_out:
  assumes "toml_ok lib" "honest v" "\<And>n. he_fail v2 n = None" "good_path hdir"
    and "write_profile_as b lib v s hdir name cfg creds = (s', None)"
    and "is_disallowed_key name" "lo_home opt = hdir"
  shows "\<not> is_ok (snd (load_profile lib v2 s' opt)) \<and> \<not> is_ok (snd (load_local lib v2 s' opt))
    \<and> snd (write_profile_as b2 lib v2 s' hdir name2 cfg2 creds2) \<noteq> None"
proof -
  have "name \<noteq> []" using assms(6) by (auto simp: is_disallowed_key_def)
  then have u: "update_profile lib v s hdir name (merge_config b cfg) (merge_creds creds) = (s', None)"
    using assms(5) by (auto simp: write_profile_as_def Let_def split: if_splits)
  obtain d k where "\<exists>x y. distinct (map fst d) \<and> distinct (map fst k)
      \<and> tl_put_config lib (AList.update name (merge_config b cfg (entry_or no_config d name)) d) = Inr x
      \<and> tl_put_creds lib (AList.update name (merge_creds creds (entry_or no_creds k name)) k) = Inr y
      \<and> hm_files s' = (hm_files s)(config_path hdir := Some \<lparr>hf_mode = 420, hf_data = x\<rparr>,
            credentials_path hdir := Some \<lparr>hf_mode = 384, hf_data = y\<rparr>)"
    using update_profile_stored [OF assms(1,2,4) u] by blast
  moreover define d' where "d' = AList.update name (merge_config b cfg (entry_or no_config d name)) d"
  moreover define k' where "k' = AList.update name (merge_creds creds (entry_or no_creds k name)) k"
  ultimately obtain x y where dx: "distinct (map fst d')" "distinct (map fst k')" "tl_put_config lib d' = Inr x"
    "tl_put_creds lib k' = Inr y" and f: "hm_files s' (config_path hdir) = Some \<lparr>hf_mode = 420, hf_data = x\<rparr>"
    "hm_files s' (credentials_path hdir) = Some \<lparr>hf_mode = 384, hf_data = y\<rparr>"
    using home_paths(3) [OF assms(4)] by (auto simp: distinct_update)
  have "name \<in> fst ` set d'" by (simp add: d'_def dom_update)
  then have "\<not> list_all (\<lambda>n. \<not> is_disallowed_key n) (map fst d')" using assms(6) by (auto simp: list_all_iff)
  have bad: "\<not> is_ok (snd (read_config lib v2 u hdir))" if "hm_files u = hm_files s'" for u
    by (rule read_printed(2) [OF assms(1,3,4) dx, of u]) (use that f \<open>\<not> list_all _ _\<close> in auto)
  have ld: "\<not> is_ok (snd (load_documents lib v2 s' opt))"
    using bad [OF refl] home_paths(4) [OF assms(4)]
    by (auto simp: load_documents_def assms(7) Let_def split: option.splits prod.splits sum.splits)
  have "snd (update_profile lib v2 s' hdir n g h) \<noteq> None" for n g h
  proof (cases "ensure_dir v2 s' hdir")
    case (Pair s1 e)
    have "\<not> is_ok (snd (read_config lib v2 s1 hdir))" by (rule bad) (rule ensure_dir_files(1) [OF Pair])
    then show ?thesis by (auto simp: update_profile_def Pair split: option.splits prod.splits sum.splits)
  qed
  then have "snd (write_profile_as b2 lib v2 s' hdir name2 cfg2 creds2) \<noteq> None"
    by (auto simp: write_profile_as_def Let_def)
  moreover have "\<not> is_ok (snd (load_profile lib v2 s' opt))" "\<not> is_ok (snd (load_local lib v2 s' opt))"
    using ld by (auto simp: load_profile_def load_local_def split: prod.splits sum.splits)
  ultimately show ?thesis by blast
qed

theorem disallowed_profile_name_locks_out_witness:
  "\<exists>s'. write_profile_as True (demo_lib ''curl'') no_failures empty_home ''/h'' ''curl'' demo_cfg demo_creds = (s', None)
     \<and> snd (write_profile_as True (demo_lib ''curl'') no_failures s' ''/h'' ''work'' demo_cfg demo_creds) \<noteq> None"
proof -
  obtain s' where w: "write_profile_as True (demo_lib ''curl'') no_failures empty_home ''/h'' ''curl'' demo_cfg demo_creds = (s', None)"
    using demo_write [of "''curl''"]
    by (cases "write_profile_as True (demo_lib ''curl'') no_failures empty_home ''/h'' ''curl'' demo_cfg demo_creds") auto
  have g: "good_path ''/h''" "is_disallowed_key ''curl''" by code_simp+
  have h: "lo_home \<lparr>lo_ctx = None, lo_user_home = Inr ''/h'', lo_profile = ''work'', lo_region_override = [], lo_home = ''/h'',
      lo_env = (None, \<lambda>_. None)\<rparr> = ''/h''" by simp
  show ?thesis
    using disallowed_profile_name_locks_out [OF demo_lib_ok no_failures_honest(1) no_failures_honest(2) g(1) w g(2) h] w by blast
qed

text \<open>C26: Writing a profile exposes nothing and tears nothing: in every state between two calls,
  whichever of them fails, each document is the old or the new one as a whole, the credentials
  are new only when the config is, and a file that is not as before has the owner-only mode or
  begins the text of a config document, which holds no credentials.\<close>

theorem write_profile_every_state:
  assumes "good_path hdir" "write_profile_as b lib v s hdir name cfg creds = (s', r)"
  shows "\<exists>d k. all_states (update_state lib (hm_files s) hdir d k) s s'"
proof -
  have "(s', r) = (s, r) \<or> update_profile lib v s hdir (if name = [] then ''default'' else name)
      (merge_config b cfg) (merge_creds creds) = (s', r)"
    using assms(2) by (auto simp: write_profile_as_def Let_def split: if_splits)
  then show ?thesis
    using update_profile_states [OF _ assms(1)] all_states_refl update_state_start by blast
qed

theorem write_profile_every_state_witness:
  "\<exists>s' d k. write_profile_as True (demo_lib ''work'') no_failures empty_home ''/h'' ''work'' demo_cfg demo_creds = (s', None)
     \<and> all_states (update_state (demo_lib ''work'') (hm_files empty_home) ''/h'' d k) empty_home s'"
proof -
  obtain s' where w: "write_profile_as True (demo_lib ''work'') no_failures empty_home ''/h'' ''work'' demo_cfg demo_creds = (s', None)"
    using demo_write [of "''work''"]
    by (cases "write_profile_as True (demo_lib ''work'') no_failures empty_home ''/h'' ''work'' demo_cfg demo_creds") auto
  have g: "good_path ''/h''" by code_simp
  show ?thesis using write_profile_every_state [OF g w] w by blast
qed

lemma load_profile_checked:
  "case snd (load_profile lib v s opt) of
     Inl _ \<Rightarrow> True
   | Inr p \<Rightarrow> \<not> is_reserved_profile_name (pf_name p)
       \<and> list_ex (\<lambda>q. pl_code q = pf_placement p \<and> pl_provider q = pf_provider p \<and> pl_native q = pf_region p) placements
       \<and> pf_public p \<noteq> [] \<and> pf_private p \<noteq> [] \<and> pf_source p \<in> {''env'', ''profile''}
       \<and> (pf_fs_placement p = [] \<and> pf_fs_provider p = [] \<and> pf_fs_region p = []
          \<or> list_ex (\<lambda>q. pl_code q = pf_fs_placement p \<and> pl_provider q = pf_fs_provider p \<and> pl_native q = pf_fs_region p) placements)"
proof (cases "load_documents lib v s opt")
  case (Pair s1 x)
  show ?thesis
  proof (cases x)
    case (Inl e)
    then show ?thesis by (simp add: load_profile_def Pair)
  next
    case (Inr t)
    obtain hdir name d k where t: "t = (hdir, name, d, k)" by (cases t) auto
    have name: "\<not> is_reserved_profile_name name"
      using Pair Inr t by (auto simp: load_documents_def validate_profile_name_def Let_def
          split: option.splits prod.splits sum.splits if_splits)
    let ?c = "entry_or no_config d name"
    have pl: "q \<in> set placements" if "parse_placement z = Inr q" for z q
      using that parse_placement_known [of z q] by (auto simp: parse_placement_def split: sum.splits)
    have p: "q \<in> set placements"
      if "resolve_placement hdir name (map_of d name) (lo_region_override opt) (lo_env opt) = Inr q" for q
      using that pl by (auto simp: resolve_placement_def split: if_splits option.splits)
    have c: "pub \<noteq> [] \<and> priv \<noteq> [] \<and> src \<in> {''env'', ''profile''}"
      if "resolve_cloud_credentials hdir name (map_of k name) (lo_env opt) = Inr (pub, priv, src)" for pub priv src
      using that by (auto simp: resolve_cloud_credentials_def Let_def split: if_splits option.splits)
    have f: "q = no_placement \<or> q \<in> set placements" if "fs_placement ?c = Inr q" for q
      using that pl by (auto simp: fs_placement_def split: if_splits)
    show ?thesis
      using p c f name
      by (auto simp: load_profile_def Pair Inr t Let_def list_ex_iff no_placement_def split: sum.splits)
  qed
qed

text \<open>C35: What a command runs with is valid: a loaded profile has a name that is not reserved, a
  listed placement, both keys of the cloud account, from the environment or both from the
  profile, and a file-system placement that is listed or absent.\<close>

theorem load_profile_sound:
  assumes "load_profile lib v s opt = (s', Inr p)"
  shows "\<not> is_reserved_profile_name (pf_name p)
    \<and> list_ex (\<lambda>q. pl_code q = pf_placement p \<and> pl_provider q = pf_provider p \<and> pl_native q = pf_region p) placements
    \<and> pf_public p \<noteq> [] \<and> pf_private p \<noteq> [] \<and> pf_source p \<in> {''env'', ''profile''}
    \<and> (pf_fs_placement p = [] \<and> pf_fs_provider p = [] \<and> pf_fs_region p = []
       \<or> list_ex (\<lambda>q. pl_code q = pf_fs_placement p \<and> pl_provider q = pf_fs_provider p \<and> pl_native q = pf_fs_region p) placements)"
  using load_profile_checked [of lib v s opt] assms by simp

text \<open>A profile whose keys and region are in the environment, on a machine without files.\<close>

definition demo_options :: load_options where
  "demo_options = \<lparr>lo_ctx = None, lo_user_home = Inr ''/h'', lo_profile = ''work'', lo_region_override = ''aws-us-east-1'', lo_home = ''/h'',
     lo_env = (None, (\<lambda>_. None)(''TIDB_CLOUD_PUBLIC_KEY'' \<mapsto> ''pub'', ''TIDB_CLOUD_PRIVATE_KEY'' \<mapsto> ''key''))\<rparr>"

theorem load_profile_sound_witness:
  "\<exists>s' p. load_profile (demo_lib ''work'') no_failures empty_home demo_options = (s', Inr p)
     \<and> pf_public p \<noteq> [] \<and> pf_source p \<in> {''env'', ''profile''}"
proof -
  have "is_ok (snd (load_profile (demo_lib ''work'') no_failures empty_home demo_options))" by code_simp
  then obtain s' p where l: "load_profile (demo_lib ''work'') no_failures empty_home demo_options = (s', Inr p)"
    by (cases "load_profile (demo_lib ''work'') no_failures empty_home demo_options"; cases "snd (load_profile (demo_lib ''work'') no_failures empty_home demo_options)") auto
  then show ?thesis using load_profile_sound [OF l] by blast
qed

end
