(* ===== verification/Settings_Store.thy ===== *)
theory Settings_Store
  imports Config_Store
begin

text \<open>
  The settings of the program (\<open>settings/settings.go\<close>): the preferences file, operation
  logging with its environment override, and the migration of the logging section that older
  releases kept in the config document.  The strict decoder of preferences and of a logging
  section, and the printer, are parameters (\<open>settings_lib\<close>).
\<close>

section \<open>Documents\<close>

record logging =
  lg_enabled :: "bool option"
  lg_max_file_mb :: "int option"
  lg_max_files :: "int option"

record settings_doc =
  sd_version :: int
  sd_logging :: logging
  sd_telemetry :: "bool option"

record logging_config =
  lc_enabled :: bool
  lc_max_file_bytes :: int
  lc_max_files :: int

definition no_logging :: logging where
  "no_logging = \<lparr>lg_enabled = None, lg_max_file_mb = None, lg_max_files = None\<rparr>"

definition no_settings :: settings_doc where
  "no_settings = \<lparr>sd_version = 0, sd_logging = no_logging, sd_telemetry = None\<rparr>"

text \<open>\<open>sl_logging\<close> decodes the text of a document with only a logging section.\<close>

record settings_lib =
  sl_doc :: "string \<Rightarrow> go_error + settings_doc"
  sl_logging :: "string \<Rightarrow> go_error + logging"
  sl_put_doc :: "settings_doc \<Rightarrow> go_error + string"

definition settings_path :: "string \<Rightarrow> string" where
  "settings_path hdir = path_join [hdir, ''.ti'', ''.preferences'']"

definition default_logging_config :: logging_config where
  "default_logging_config = \<lparr>lc_enabled = True, lc_max_file_bytes = 10 * 1024 * 1024, lc_max_files = 5\<rparr>"

definition apply_logging_limits :: "logging_config \<Rightarrow> logging \<Rightarrow> logging_config" where
  "apply_logging_limits cfg l =
     (let c = (case lg_max_file_mb l of None \<Rightarrow> cfg | Some m \<Rightarrow> cfg\<lparr>lc_max_file_bytes := wrap64 (m * 1024 * 1024)\<rparr>)
      in (case lg_max_files l of None \<Rightarrow> c | Some n \<Rightarrow> c\<lparr>lc_max_files := n\<rparr>))"

definition validate_logging :: "logging \<Rightarrow> string \<Rightarrow> go_error option" where
  "validate_logging l p =
     (if (case lg_max_file_mb l of None \<Rightarrow> False | Some m \<Rightarrow> m \<le> 0 \<or> m > quot max_int64 (1024 * 1024))
      then Some (Msg (Fmt ''logging.max_file_mb must be a positive supported integer in %s'' [Lit p]))
      else if (case lg_max_files l of None \<Rightarrow> False | Some n \<Rightarrow> n \<le> 0)
      then Some (Msg (Fmt ''logging.max_files must be a positive integer in %s'' [Lit p]))
      else None)"

definition decode_settings :: "settings_lib \<Rightarrow> string \<Rightarrow> string \<Rightarrow> go_error + settings_doc" where
  "decode_settings sl data p =
     (case sl_doc sl data of
        Inl e \<Rightarrow> Inl (Wrapf (Fmt ''parse settings %s: %w'' [Lit p, error_text e]) e)
      | Inr d0 \<Rightarrow>
        (let d = (if sd_version d0 = 0 then d0\<lparr>sd_version := 1\<rparr> else d0) in
         if sd_version d \<noteq> 1 then Inl (Msg (Fmt ''unsupported settings schema_version %d in %s'' [Lit (int_digits (sd_version d)), Lit p]))
         else case validate_logging (sd_logging d) p of Some e \<Rightarrow> Inl e | None \<Rightarrow> Inr d))"

text \<open>The document, if there is one.\<close>

definition read_settings :: "settings_lib \<Rightarrow> home_env \<Rightarrow> home \<Rightarrow> string \<Rightarrow> home \<times> (go_error + settings_doc option)" where
  "read_settings sl v s hdir =
     (let p = settings_path hdir in
      case hm_read v s p of
        (s1, Inl e) \<Rightarrow> (s1, if errors_is e Err_Not_Exist then Inr None
          else Inl (Wrapf (Fmt ''read settings %s: %w'' [Lit p, error_text e]) e))
      | (s1, Inr data) \<Rightarrow> (s1, case decode_settings sl data p of Inl e \<Rightarrow> Inl e | Inr d \<Rightarrow> Inr (Some d)))"

definition decode_legacy_logging :: "toml_lib \<Rightarrow> settings_lib \<Rightarrow> (string \<times> toml) list \<Rightarrow> string \<Rightarrow> go_error + logging" where
  "decode_legacy_logging lib sl raw p =
     (case tl_put_raw lib [(''logging'', T_Table raw)] of
        Inl e \<Rightarrow> Inl (Wrapf (Fmt ''marshal legacy logging config %s: %w'' [Lit p, error_text e]) e)
      | Inr data \<Rightarrow>
        (case sl_logging sl data of
           Inl e \<Rightarrow> Inl (Wrapf (Fmt ''parse legacy logging config %s: %w'' [Lit p, error_text e]) e)
         | Inr l \<Rightarrow> (case validate_logging l p of Some e \<Rightarrow> Inl e | None \<Rightarrow> Inr l)))"

text \<open>The new file appears under its name by a link, which fails when the name is taken; the
  deferred removal takes the temporary name away.\<close>

definition create_settings :: "settings_lib \<Rightarrow> home_env \<Rightarrow> home \<Rightarrow> string \<Rightarrow> settings_doc \<Rightarrow> home \<times> go_error option" where
  "create_settings sl v s hdir doc =
     (case sl_put_doc sl doc of
        Inl e \<Rightarrow> (s, Some (Wrapf (Fmt ''marshal settings: %w'' [error_text e]) e))
      | Inr data \<Rightarrow>
        (let dir = path_join [hdir, ''.ti''] in
         case hm_mkdir_all v s dir of
           (s1, Some e) \<Rightarrow> (s1, Some (Wrapf (Fmt ''create settings directory: %w'' [error_text e]) e))
         | (s1, None) \<Rightarrow>
           (case stage_temp v s1 True dir ''.preferences.tmp-'' data 384 of
              (s2, Inl (st, e)) \<Rightarrow> (s2, Some (Wrapf (Fmt ((case st of Temp_Create \<Rightarrow> ''create temporary settings''
                  | Temp_Chmod \<Rightarrow> ''set temporary settings permissions'' | Temp_Write \<Rightarrow> ''write temporary settings''
                  | Temp_Sync \<Rightarrow> ''sync temporary settings'' | Temp_Close \<Rightarrow> ''close temporary settings'') @ '': %w'') [error_text e]) e))
            | (s2, Inr t) \<Rightarrow>
              (case hm_link v s2 t (settings_path hdir) of
                 (s3, r) \<Rightarrow> (fst (hm_remove v s3 t),
                   case r of Some e \<Rightarrow> Some (Wrapf (Fmt ''publish settings: %w'' [error_text e]) e) | None \<Rightarrow> None)))))"

definition migrate_legacy_logging ::
  "toml_lib \<Rightarrow> settings_lib \<Rightarrow> home_env \<Rightarrow> home \<Rightarrow> string \<Rightarrow> home \<times> go_error option" where
  "migrate_legacy_logging lib sl v s hdir =
     (let p = config_path hdir in
      case hm_read v s p of
        (s1, Inl e) \<Rightarrow> (s1, if errors_is e Err_Not_Exist then None
          else Some (Wrapf (Fmt ''read legacy logging config %s: %w'' [Lit p, error_text e]) e))
      | (s1, Inr data) \<Rightarrow>
        (case tl_raw lib data of
           Inl e \<Rightarrow> (s1, Some (Wrapf (Fmt ''parse legacy logging config %s: %w'' [Lit p, error_text e]) e))
         | Inr raw \<Rightarrow>
           (case map_of raw ''logging'' of
              None \<Rightarrow> (s1, None)
            | Some (T_Value _) \<Rightarrow> (s1, Some (Msg (Fmt ''legacy logging config in %s must be a TOML table'' [Lit p])))
            | Some (T_Table t) \<Rightarrow>
              (case decode_legacy_logging lib sl t p of
                 Inl e \<Rightarrow> (s1, Some e)
               | Inr legacy \<Rightarrow>
                 (case read_settings sl v s1 hdir of
                    (s2, Inl e) \<Rightarrow> (s2, Some e)
                  | (s2, Inr existing) \<Rightarrow>
                    (let (s3, failed) = (if existing \<noteq> None then (s2, None)
                       else case create_settings sl v s2 hdir \<lparr>sd_version = 1, sd_logging = legacy, sd_telemetry = None\<rparr> of
                         (s3, None) \<Rightarrow> (s3, None)
                       | (s3, Some e) \<Rightarrow>
                         if \<not> errors_is e Err_Exist then (s3, Some e)
                         else (case read_settings sl v s3 hdir of (s4, Inl e2) \<Rightarrow> (s4, Some e2) | (s4, Inr _) \<Rightarrow> (s4, None)))
                     in case failed of
                       Some e \<Rightarrow> (s3, Some e)
                     | None \<Rightarrow>
                       (case hm_stat v s3 p of (s4, st) \<Rightarrow>
                         (let mode = (case st of Inr m \<Rightarrow> m | Inl _ \<Rightarrow> 420) in
                          case (case tl_put_raw lib (AList.delete ''logging'' raw) of
                              Inl e \<Rightarrow> (s4, Some e) | Inr out \<Rightarrow> settings_write v s4 p out mode) of
                            (s5, Some e) \<Rightarrow> (s5, Some (Wrapf (Fmt ''remove legacy logging config from %s: %w'' [Lit p, error_text e]) e))
                          | (s5, None) \<Rightarrow> (s5, None)))))))))"

definition resolve_home_dir :: "go_error + string \<Rightarrow> string \<Rightarrow> go_error + string" where
  "resolve_home_dir user_home hdir =
     (if trim_space hdir \<noteq> [] then Inr hdir
      else case user_home of
        Inl e \<Rightarrow> Inl (Wrapf (Fmt ''determine home directory: %w'' [error_text e]) e)
      | Inr h \<Rightarrow> Inr h)"

definition load_settings ::
  "toml_lib \<Rightarrow> settings_lib \<Rightarrow> home_env \<Rightarrow> home \<Rightarrow> go_error + string \<Rightarrow> string \<Rightarrow> home \<times> (go_error + settings_doc option)" where
  "load_settings lib sl v s user_home hdir0 =
     (case resolve_home_dir user_home hdir0 of
        Inl e \<Rightarrow> (s, Inl e)
      | Inr hdir \<Rightarrow>
        (case migrate_legacy_logging lib sl v s hdir of
           (s1, Some e) \<Rightarrow> (s1, Inl e)
         | (s1, None) \<Rightarrow> read_settings sl v s1 hdir))"

definition parse_bool_setting :: "string \<Rightarrow> bool option" where
  "parse_bool_setting x =
     (let t = to_lower (trim_space x) in
      if t \<in> {''on'', ''true'', ''1'', ''yes''} then Some True
      else if t \<in> {''off'', ''false'', ''0'', ''no''} then Some False else None)"

text \<open>The result is the configuration and the error, if any.\<close>

definition resolve_logging ::
  "toml_lib \<Rightarrow> settings_lib \<Rightarrow> home_env \<Rightarrow> home \<Rightarrow> go_error + string \<Rightarrow> string \<Rightarrow> environment
    \<Rightarrow> home \<times> logging_config \<times> go_error option" where
  "resolve_logging lib sl v s user_home hdir0 env =
     (let off = default_logging_config\<lparr>lc_enabled := False\<rparr> in
      case resolve_names env ''TI_LOGGING'' ''TDC_LOGGING'' of
        Inl e \<Rightarrow> (s, off, Some e)
      | Inr (x, override, _) \<Rightarrow>
        if override \<and> parse_bool_setting x = None then (s, off, Some (Msg (Fmt ''invalid %s value'' [Lit ''TI_LOGGING''])))
        else if override \<and> parse_bool_setting x = Some False then (s, off, None)
        else case resolve_home_dir user_home hdir0 of
          Inl e \<Rightarrow> (s, off, Some e)
        | Inr hdir \<Rightarrow>
          (case migrate_legacy_logging lib sl v s hdir of
             (s1, Some e) \<Rightarrow> (s1, off, Some e)
           | (s1, None) \<Rightarrow>
             (case read_settings sl v s1 hdir of
                (s2, Inl e) \<Rightarrow> (s2, off, Some e)
              | (s2, Inr None) \<Rightarrow> (s2, default_logging_config, None)
              | (s2, Inr (Some d)) \<Rightarrow>
                  (s2, apply_logging_limits
                     (if override then default_logging_config
                      else case lg_enabled (sd_logging d) of None \<Rightarrow> default_logging_config
                        | Some b \<Rightarrow> default_logging_config\<lparr>lc_enabled := b\<rparr>) (sd_logging d), None))))"

section \<open>Runs without failures\<close>

lemma stage_temp_run:
  assumes "\<And>n. he_fail v n = None" "hm_files s (temp_name dir prefix (he_random v (hm_steps s))) = None"
  obtains s' where "stage_temp v s sync dir prefix d m = (s', Inr (temp_name dir prefix (he_random v (hm_steps s))))"
    "hm_files s' = (hm_files s)(temp_name dir prefix (he_random v (hm_steps s)) := Some \<lparr>hf_mode = m, hf_data = d\<rparr>)"
proof -
  have "is_ok (snd (stage_temp v s sync dir prefix d m))"
    using assms by (simp add: stage_temp_def hm_create_temp_def hm_chmod_def hm_on_file_def hm_write_def hm_call_def Let_def)
  then obtain s' t where "stage_temp v s sync dir prefix d m = (s', Inr t)"
    by (cases "stage_temp v s sync dir prefix d m") (auto simp: is_ok_iff)
  then show ?thesis using stage_temp_ok that by metis
qed

lemma settings_write_run:
  assumes "\<And>n. he_fail v n = None" "\<And>t. is_temp_of p t \<Longrightarrow> hm_files s t = None" "good_path p"
  obtains s' where "settings_write v s p d m = (s', None)" "hm_files s' = (hm_files s)(p := Some \<lparr>hf_mode = m, hf_data = d\<rparr>)"
proof -
  let ?t = "temp_name (path_dir p) (temp_prefix p) (he_random v (hm_steps s))"
  obtain s1 where s1: "stage_temp v s True (path_dir p) (temp_prefix p) d m = (s1, Inr ?t)"
    "hm_files s1 = (hm_files s)(?t := Some \<lparr>hf_mode = m, hf_data = d\<rparr>)"
    using stage_temp_run [OF assms(1)] assms(2) is_temp_of_name by metis
  have "snd (settings_write v s p d m) = None"
    using assms(1) by (simp add: settings_write_def s1 publish_temp_def hm_rename_def hm_on_file_def hm_chmod_def)
  then obtain s' where w: "settings_write v s p d m = (s', None)" by (cases "settings_write v s p d m") auto
  show ?thesis using that [OF w settings.finished [OF assms(3) w]] .
qed

lemma settings_paths:
  assumes "good_path hdir"
  shows "good_path (settings_path hdir)" "settings_path hdir \<noteq> config_path hdir" "trim_space hdir \<noteq> []"
    "\<not> has_prefix (settings_path hdir) (temp_name (path_join [hdir, ''.ti'']) ''.preferences.tmp-'' [])"
    "\<not> has_prefix (config_path hdir) (temp_name (path_join [hdir, ''.ti'']) ''.preferences.tmp-'' [])"
proof -
  have c: "clean_list [''.ti'', ''.preferences'']" "clean_list [''.ti'', ''config'']" "clean_list [''.ti'']" by code_simp+
  note j = join_home [OF assms c(1)] join_home [OF assms c(2)] join_home [OF assms c(3)]
  show "good_path (settings_path hdir)" using j(1) by (simp add: settings_path_def)
  show "settings_path hdir \<noteq> config_path hdir" using j(3,6) by (simp add: settings_path_def config_path_def)
  have d: "path_join [hdir, ''.ti''] = hdir @ ''/.ti''" using j(9) by simp
  have "\<not> has_suffix (hdir @ ''/.ti'') ''/''" by (auto simp: has_suffix_iff dest: arg_cong [of _ _ last])
  then show "\<not> has_prefix (settings_path hdir) (temp_name (path_join [hdir, ''.ti'']) ''.preferences.tmp-'' [])"
    "\<not> has_prefix (config_path hdir) (temp_name (path_join [hdir, ''.ti'']) ''.preferences.tmp-'' [])"
    unfolding d using j(3,6) by (auto simp: settings_path_def config_path_def temp_name_def has_prefix_iff)
  have "CHR ''/'' \<in> set hdir" using assms by (auto simp: good_path_def elim: good_pathE split: list.splits)
     (metis good_pathE abs_path_def assms list.set_intros(1))
  then show "trim_space hdir \<noteq> []" using trim_space_keeps [of "CHR ''/''" hdir] by (auto simp: is_graphic_def byte_of_def)
qed

lemma settings_creds:
  assumes "good_path hdir"
  shows "settings_path hdir \<noteq> credentials_path hdir"
proof -
  have c: "clean_list [''.ti'', ''.preferences'']" "clean_list [''.ti'', ''credentials'']" by code_simp+
  show ?thesis using join_home(3) [OF assms c(1)] join_home(3) [OF assms c(2)]
    by (simp add: settings_path_def credentials_path_def)
qed

text \<open>No temporary file of an interrupted run has the name the next one takes.\<close>

definition no_leftovers :: "hfiles \<Rightarrow> string \<Rightarrow> bool" where
  "no_leftovers f hdir \<longleftrightarrow> (\<forall>t. is_temp_of (config_path hdir) t
     \<or> has_prefix t (temp_name (path_join [hdir, ''.ti'']) ''.preferences.tmp-'' []) \<longrightarrow> f t = None)"

lemma create_settings_run:
  assumes "\<And>n. he_fail v n = None" "no_leftovers (hm_files s) hdir" "good_path hdir"
    and "hm_files s (settings_path hdir) = None" "sl_put_doc sl doc = Inr data"
  obtains s' where "create_settings sl v s hdir doc = (s', None)"
    "hm_files s' = (hm_files s)(settings_path hdir := Some \<lparr>hf_mode = 384, hf_data = data\<rparr>)"
proof -
  let ?dir = "path_join [hdir, ''.ti'']"
  obtain s1 where m: "hm_mkdir_all v s ?dir = (s1, None)" "hm_files s1 = hm_files s"
    using assms(1) by (simp add: hm_mkdir_all_def)
  define t where "t = temp_name ?dir ''.preferences.tmp-'' (he_random v (hm_steps s1))"
  have pre: "has_prefix t (temp_name ?dir ''.preferences.tmp-'' [])" by (simp add: t_def temp_name_def has_prefix_iff)
  have t0: "hm_files s1 t = None" using assms(2) pre by (auto simp: no_leftovers_def m(2))
  have ne: "t \<noteq> settings_path hdir" using pre settings_paths(4) [OF assms(3)] by auto
  obtain s2 where st: "stage_temp v s1 True ?dir ''.preferences.tmp-'' data 384 = (s2, Inr t)"
    "hm_files s2 = (hm_files s1)(t := Some \<lparr>hf_mode = 384, hf_data = data\<rparr>)"
    using stage_temp_run [OF assms(1), of s1 ?dir "''.preferences.tmp-''"] t0 unfolding t_def by metis
  define s3 where "s3 = fst (hm_link v s2 t (settings_path hdir))"
  have l: "hm_link v s2 t (settings_path hdir) = (s3, None)"
    using assms(1,4) ne by (simp add: s3_def hm_link_def hm_on_file_def st(2) m(2))
  have f3: "hm_files s3 = (hm_files s)(t := Some \<lparr>hf_mode = 384, hf_data = data\<rparr>, settings_path hdir := Some \<lparr>hf_mode = 384, hf_data = data\<rparr>)"
    using assms(1,4) ne by (simp add: s3_def hm_link_def hm_on_file_def st(2) m(2))
  have "hm_files (fst (hm_remove v s3 t)) = (hm_files s)(settings_path hdir := Some \<lparr>hf_mode = 384, hf_data = data\<rparr>)"
    using assms(1) ne t0 by (auto simp: hm_remove_def hm_on_file_def f3 m(2) fun_eq_iff)
  moreover have "create_settings sl v s hdir doc = (fst (hm_remove v s3 t), None)"
    by (simp add: create_settings_def assms(5) Let_def m(1) st(1) l)
  ultimately show ?thesis using that by blast
qed

lemma settings_not_temp:
  assumes "good_path hdir"
  shows "\<not> is_temp_of (config_path hdir) (settings_path hdir)"
proof -
  have c: "clean_list [''.ti'', ''.preferences'']" "clean_list [''.ti'', ''config'']" "clean_list [''.ti'']" by code_simp+
  note j = join_home [OF assms c(1)] join_home [OF assms c(2)] join_home [OF assms c(3)]
  have d: "path_dir (config_path hdir) = hdir @ ''/.ti''"
    using join_home_dir [OF assms, of "[''.ti'']" "''config''"] c(2) j(9) by (simp add: config_path_def)
  have b: "temp_prefix (config_path hdir) = ''.config.tmp-''" using j(5) by (simp add: config_path_def temp_prefix_def)
  have "\<not> has_suffix (hdir @ ''/.ti'') ''/''" by (auto simp: has_suffix_iff dest: arg_cong [of _ _ last])
  then show ?thesis unfolding is_temp_of_def d b using j(3) by (auto simp: settings_path_def temp_name_def has_prefix_iff)
qed

lemma migrate_run:
  assumes "\<And>n. he_fail v n = None" "good_path hdir" "no_leftovers (hm_files s) hdir"
    and "hm_files s (config_path hdir) = Some cf" "tl_raw lib (hf_data cf) = Inr raw"
    and "map_of raw ''logging'' = Some (T_Table t)" "decode_legacy_logging lib sl t (config_path hdir) = Inr l"
    and "hm_files s (settings_path hdir) = None"
    and "sl_put_doc sl \<lparr>sd_version = 1, sd_logging = l, sd_telemetry = None\<rparr> = Inr data"
    and "tl_put_raw lib (AList.delete ''logging'' raw) = Inr out"
  obtains s' where "migrate_legacy_logging lib sl v s hdir = (s', None)"
    "hm_files s' = (hm_files s)(settings_path hdir := Some \<lparr>hf_mode = 384, hf_data = data\<rparr>,
        config_path hdir := Some \<lparr>hf_mode = hf_mode cf, hf_data = out\<rparr>)"
proof -
  let ?p = "config_path hdir" and ?q = "settings_path hdir"
  note sp = settings_paths [OF assms(2)]
  define s1 where "s1 = fst (hm_read v s ?p)"
  have r1: "hm_read v s ?p = (s1, Inr (hf_data cf))" "hm_files s1 = hm_files s"
    using assms(1,4) by (simp_all add: s1_def hm_read_def)
  define s2 where "s2 = fst (read_settings sl v s1 hdir)"
  have r2: "read_settings sl v s1 hdir = (s2, Inr None)" "hm_files s2 = hm_files s"
    using assms(1,8) r1(2) by (simp_all add: s2_def read_settings_def hm_read_def Let_def errors_is_def)
  obtain s3 where r3: "create_settings sl v s2 hdir \<lparr>sd_version = 1, sd_logging = l, sd_telemetry = None\<rparr> = (s3, None)"
    "hm_files s3 = (hm_files s2)(?q := Some \<lparr>hf_mode = 384, hf_data = data\<rparr>)"
    using create_settings_run [OF assms(1) _ assms(2) _ assms(9), of s2] assms(3,8) r2(2) by metis
  define s4 where "s4 = fst (hm_stat v s3 ?p)"
  have r4: "hm_stat v s3 ?p = (s4, Inr (hf_mode cf))" "hm_files s4 = hm_files s3"
    using assms(1,4) sp(2) r2(2) by (simp_all add: s4_def hm_stat_def r3(2))
  have lo: "hm_files s4 u = None" if "is_temp_of ?p u" for u
    using that assms(3) settings_not_temp [OF assms(2)] by (auto simp: r4(2) r3(2) r2(2) no_leftovers_def)
  obtain s5 where r5: "settings_write v s4 ?p out (hf_mode cf) = (s5, None)"
    "hm_files s5 = (hm_files s4)(?p := Some \<lparr>hf_mode = hf_mode cf, hf_data = out\<rparr>)"
    using settings_write_run [OF assms(1) lo home_paths(1) [OF assms(2)]] by metis
  have "migrate_legacy_logging lib sl v s hdir = (s5, None)"
    by (simp add: migrate_legacy_logging_def Let_def r1(1) assms(5-7,10) r2(1) r3(1) r4(1) r5(1))
  then show ?thesis using that r5(2) r4(2) r3(2) r2(2) by simp
qed

text \<open>The library reads back what it prints, without the logging section the migration takes out.\<close>

definition settings_lib_ok :: "toml_lib \<Rightarrow> settings_lib \<Rightarrow> bool" where
  "settings_lib_ok lib sl \<longleftrightarrow>
     (\<forall>d x. sl_put_doc sl d = Inr x \<longrightarrow> sl_doc sl x = Inr d)
   \<and> (\<forall>raw x. tl_put_raw lib raw = Inr x \<longrightarrow> (\<exists>raw'. tl_raw lib x = Inr raw' \<and> map_of raw' = map_of raw))"

lemma decode_settings_printed:
  assumes "settings_lib_ok lib sl" "sl_put_doc sl \<lparr>sd_version = 1, sd_logging = l, sd_telemetry = None\<rparr> = Inr data"
    and "validate_logging l p = None"
  shows "decode_settings sl data p = Inr \<lparr>sd_version = 1, sd_logging = l, sd_telemetry = None\<rparr>"
proof -
  have "sl_doc sl data = Inr \<lparr>sd_version = 1, sd_logging = l, sd_telemetry = None\<rparr>"
    using assms(1,2) unfolding settings_lib_ok_def by blast
  then show ?thesis using assms(3) by (simp add: decode_settings_def)
qed

lemma validate_logging_path: "validate_logging l p = None \<Longrightarrow> validate_logging l q = None"
  by (auto simp: validate_logging_def split: if_splits)

text \<open>The configuration a logging section stands for.\<close>

definition logging_of :: "logging \<Rightarrow> logging_config" where
  "logging_of l = apply_logging_limits
     (case lg_enabled l of None \<Rightarrow> default_logging_config | Some b \<Rightarrow> default_logging_config\<lparr>lc_enabled := b\<rparr>) l"

lemma legacy_migrated:
  assumes "\<And>n. he_fail v n = None" "good_path hdir" "no_leftovers (hm_files s) hdir" "settings_lib_ok lib sl"
    and "hm_files s (config_path hdir) = Some cf" "tl_raw lib (hf_data cf) = Inr raw"
    and "map_of raw ''logging'' = Some (T_Table t)" "decode_legacy_logging lib sl t (config_path hdir) = Inr l"
    and "hm_files s (settings_path hdir) = None"
    and "sl_put_doc sl \<lparr>sd_version = 1, sd_logging = l, sd_telemetry = None\<rparr> = Inr data"
    and "tl_put_raw lib (AList.delete ''logging'' raw) = Inr out"
    and "resolve_names env ''TI_LOGGING'' ''TDC_LOGGING'' = Inr ([], False, False)"
  shows "\<exists>s1 s2 raw'. resolve_logging lib sl v s u hdir env = (s1, logging_of l, None)
    \<and> resolve_logging lib sl v s1 u hdir env = (s2, logging_of l, None) \<and> hm_files s2 = hm_files s1
    \<and> snd (read_settings sl v s1 hdir) = Inr (Some \<lparr>sd_version = 1, sd_logging = l, sd_telemetry = None\<rparr>)
    \<and> hm_files s1 (config_path hdir) = Some \<lparr>hf_mode = hf_mode cf, hf_data = out\<rparr>
    \<and> tl_raw lib out = Inr raw' \<and> map_of raw' = (map_of raw)(''logging'' := None)"
proof -
  let ?p = "config_path hdir" and ?q = "settings_path hdir"
  let ?doc = "\<lparr>sd_version = 1, sd_logging = l, sd_telemetry = None\<rparr>"
  note sp = settings_paths [OF assms(2)]
  obtain s0 where m: "migrate_legacy_logging lib sl v s hdir = (s0, None)"
    "hm_files s0 = (hm_files s)(?q := Some \<lparr>hf_mode = 384, hf_data = data\<rparr>, ?p := Some \<lparr>hf_mode = hf_mode cf, hf_data = out\<rparr>)"
    using migrate_run [OF assms(1-3,5-11)] by metis
  have "validate_logging l ?p = None"
    using assms(8) by (auto simp: decode_legacy_logging_def split: sum.splits option.splits)
  then have dec: "decode_settings sl data ?q = Inr ?doc"
    using decode_settings_printed [OF assms(4,10)] validate_logging_path by blast
  have rd: "read_settings sl v w hdir = (hm_step w (hm_files w), Inr (Some ?doc))"
    if "hm_files w ?q = Some \<lparr>hf_mode = 384, hf_data = data\<rparr>" for w
    using that assms(1) dec by (simp add: read_settings_def hm_read_def Let_def)
  have q0: "hm_files s0 ?q = Some \<lparr>hf_mode = 384, hf_data = data\<rparr>" using sp(2) by (simp add: m(2))
  have rh: "resolve_home_dir u hdir = Inr hdir" using sp(3) by (simp add: resolve_home_dir_def)
  define s1 where "s1 = hm_step s0 (hm_files s0)"
  have one: "resolve_logging lib sl v s u hdir env = (s1, logging_of l, None)"
    by (simp add: resolve_logging_def assms(12) rh m(1) rd [OF q0] logging_of_def s1_def Let_def)
  obtain raw' where raw': "tl_raw lib out = Inr raw'" "map_of raw' = map_of (AList.delete ''logging'' raw)"
    using assms(4,11) unfolding settings_lib_ok_def by blast
  have del: "map_of raw' = (map_of raw)(''logging'' := None)" using raw'(2) by (simp add: delete_conv')
  have p1: "hm_files s1 ?p = Some \<lparr>hf_mode = hf_mode cf, hf_data = out\<rparr>" by (simp add: s1_def m(2))
  have q1: "hm_files s1 ?q = Some \<lparr>hf_mode = 384, hf_data = data\<rparr>" using q0 by (simp add: s1_def)
  have m1: "migrate_legacy_logging lib sl v s1 hdir = (hm_step s1 (hm_files s1), None)"
    using assms(1) del by (simp add: migrate_legacy_logging_def Let_def hm_read_def p1 raw'(1))
  have two: "resolve_logging lib sl v s1 u hdir env = (hm_step (hm_step s1 (hm_files s1)) (hm_files s1), logging_of l, None)"
    using rd [of "hm_step s1 (hm_files s1)"] q1
    by (simp add: resolve_logging_def assms(12) rh m1 logging_of_def Let_def)
  have "snd (read_settings sl v s1 hdir) = Inr (Some ?doc)" using rd [of s1] q0 by (simp add: s1_def)
  then show ?thesis using one two p1 raw'(1) del by auto
qed

text \<open>Fields that are empty are left out of a printed profile.\<close>

definition omits_empty :: "toml_lib \<Rightarrow> bool" where
  "omits_empty lib \<longleftrightarrow> (\<forall>d x raw n. tl_put_config lib d = Inr x \<and> tl_raw lib x = Inr raw \<and> map_of d n = Some no_config
     \<longrightarrow> map_of raw n = Some (T_Table []))"

section \<open>A small library\<close>

definition old_section :: "(string \<times> toml) list" where
  "old_section = [(''enabled'', T_Value ''false'')]"

definition work_table :: "string \<times> toml" where
  "work_table = (''work'', T_Table [(''region_code'', T_Value ''aws-us-east-1'')])"

definition raw_texts :: "(string \<times> (string \<times> toml) list) list" where
  "raw_texts = [(''L'', [(''logging'', T_Table old_section)]), (''M'', [(''logging'', T_Table []), work_table]),
     (''N'', [work_table]), (''E'', []), (''Q'', [(''logging'', T_Table [])]),
     (''K'', [(''work'', T_Table [(''tidb_cloud_public_key'', T_Value ''p''), (''tidb_cloud_private_key'', T_Value ''q'')])])]"

definition old_lib :: toml_lib where
  "old_lib = \<lparr>
     tl_raw = (\<lambda>x. case map_of raw_texts x of None \<Rightarrow> Inl (Sentinel Err_Invalid) | Some r \<Rightarrow> Inr r),
     tl_config = (\<lambda>x. if x = ''L'' then Inr [(''logging'', no_config)]
        else if x = ''M'' then Inr [(''logging'', no_config), (''work'', demo_cfg)] else Inl (Sentinel Err_Invalid)),
     tl_wire = (\<lambda>x. if x = ''K'' then Inr [(''work'', as_wire demo_creds)] else Inl (Sentinel Err_Invalid)),
     tl_put_config = (\<lambda>d. if d = [(''logging'', no_config), (''work'', demo_cfg)] then Inr ''M'' else Inl (Sentinel Err_Invalid)),
     tl_put_creds = (\<lambda>d. if d = [(''work'', demo_creds)] then Inr ''K'' else Inl (Sentinel Err_Invalid)),
     tl_put_raw = (\<lambda>r. case map_of (map (\<lambda>(x, y). (y, x)) raw_texts) r of None \<Rightarrow> Inl (Sentinel Err_Invalid) | Some x \<Rightarrow> Inr x)\<rparr>"

definition off_logging :: logging where
  "off_logging = \<lparr>lg_enabled = Some False, lg_max_file_mb = None, lg_max_files = None\<rparr>"

definition old_settings :: settings_lib where
  "old_settings = \<lparr>
     sl_doc = (\<lambda>x. if x = ''s0'' then Inr \<lparr>sd_version = 1, sd_logging = off_logging, sd_telemetry = None\<rparr>
        else if x = ''s1'' then Inr \<lparr>sd_version = 1, sd_logging = no_logging, sd_telemetry = None\<rparr> else Inl (Sentinel Err_Invalid)),
     sl_logging = (\<lambda>x. if x = ''L'' then Inr off_logging else if x = ''Q'' then Inr no_logging else Inl (Sentinel Err_Invalid)),
     sl_put_doc = (\<lambda>d. if d = \<lparr>sd_version = 1, sd_logging = off_logging, sd_telemetry = None\<rparr> then Inr ''s0''
        else if d = \<lparr>sd_version = 1, sd_logging = no_logging, sd_telemetry = None\<rparr> then Inr ''s1'' else Inl (Sentinel Err_Invalid))\<rparr>"

definition old_home :: home where
  "old_home = \<lparr>hm_files = [''/h/.ti/config'' \<mapsto> \<lparr>hf_mode = 420, hf_data = ''L''\<rparr>], hm_dirs = [], hm_steps = 0, hm_log = []\<rparr>"

lemma old_lib_ok: "toml_ok old_lib" "omits_empty old_lib" "settings_lib_ok old_lib old_settings"
proof -
  have d: "distinct (map fst raw_texts)" "distinct (map snd raw_texts)" by code_simp+
  show "toml_ok old_lib"
    unfolding toml_ok_def old_lib_def
    by (auto simp: raw_texts_def plain_tables_def config_fields_def creds_fields_def work_table_def split: if_splits)
  show "omits_empty old_lib"
    unfolding omits_empty_def old_lib_def by (auto simp: raw_texts_def demo_cfg_def no_config_def split: if_splits)
  have "tl_raw old_lib x = Inr r" if "tl_put_raw old_lib r = Inr x" for r x
  proof -
    have "(r, x) \<in> set (map (\<lambda>(x, y). (y, x)) raw_texts)"
      using that by (auto simp: old_lib_def split: option.splits dest!: map_of_SomeD)
    then have "map_of raw_texts x = Some r" using d(1) by (auto intro: map_of_is_SomeI)
    then show ?thesis by (simp add: old_lib_def)
  qed
  then show "settings_lib_ok old_lib old_settings"
    unfolding settings_lib_ok_def by (auto simp: old_settings_def split: if_splits)
qed

lemma old_paths: "config_path ''/h'' = ''/h/.ti/config''" "settings_path ''/h'' = ''/h/.ti/.preferences''"
    "credentials_path ''/h'' = ''/h/.ti/credentials''" "good_path ''/h''"
  by code_simp+

lemma old_leftovers: "(\<And>p. f p \<noteq> None \<Longrightarrow> p \<in> {''/h/.ti/config'', ''/h/.ti/credentials''}) \<Longrightarrow> no_leftovers f ''/h''"
proof -
  assume f: "\<And>p. f p \<noteq> None \<Longrightarrow> p \<in> {''/h/.ti/config'', ''/h/.ti/credentials''}"
  have "\<not> is_temp_of (config_path ''/h'') p \<and> \<not> has_prefix p (temp_name (path_join [''/h'', ''.ti'']) ''.preferences.tmp-'' [])"
    if "p \<in> {''/h/.ti/config'', ''/h/.ti/credentials''}" for p
    using that by (elim insertE) (simp_all only: empty_iff, code_simp+)
  then show ?thesis using f unfolding no_leftovers_def by blast
qed

section \<open>Properties\<close>

text \<open>The logging section of an older release moves to the preferences: without failures, a
  config document with a valid logging section and no preferences yet, the resolved
  configuration is the one of the section; afterwards the section is in the preferences and
  gone from the config, whose other tables are as before, and resolving again gives the same
  configuration and changes no file.\<close>

theorem legacy_logging_migrated:
  assumes "\<And>n. he_fail v n = None" "good_path hdir" "no_leftovers (hm_files s) hdir" "settings_lib_ok lib sl"
    and "hm_files s (config_path hdir) = Some cf" "tl_raw lib (hf_data cf) = Inr raw"
    and "map_of raw ''logging'' = Some (T_Table t)" "decode_legacy_logging lib sl t (config_path hdir) = Inr l"
    and "hm_files s (settings_path hdir) = None"
    and "sl_put_doc sl \<lparr>sd_version = 1, sd_logging = l, sd_telemetry = None\<rparr> = Inr data"
    and "tl_put_raw lib (AList.delete ''logging'' raw) = Inr out"
    and "resolve_names env ''TI_LOGGING'' ''TDC_LOGGING'' = Inr ([], False, False)"
  shows "\<exists>s1 s2 raw'. resolve_logging lib sl v s u hdir env = (s1, logging_of l, None)
    \<and> resolve_logging lib sl v s1 u hdir env = (s2, logging_of l, None) \<and> hm_files s2 = hm_files s1
    \<and> snd (read_settings sl v s1 hdir) = Inr (Some \<lparr>sd_version = 1, sd_logging = l, sd_telemetry = None\<rparr>)
    \<and> hm_files s1 (config_path hdir) = Some \<lparr>hf_mode = hf_mode cf, hf_data = out\<rparr>
    \<and> tl_raw lib out = Inr raw' \<and> map_of raw' = (map_of raw)(''logging'' := None)"
  by (rule legacy_migrated [OF assms])

theorem legacy_logging_migrated_witness:
  "\<exists>s1. resolve_logging old_lib old_settings no_failures old_home (Inr ''/h'') ''/h'' (Some Map.empty, Map.empty) = (s1, logging_of off_logging, None)
     \<and> \<not> lc_enabled (logging_of off_logging)"
proof -
  have lo: "no_leftovers (hm_files old_home) ''/h''" by (rule old_leftovers) (simp add: old_home_def split: if_splits)
  have f: "hm_files old_home (config_path ''/h'') = Some \<lparr>hf_mode = 420, hf_data = ''L''\<rparr>" "hm_files old_home (settings_path ''/h'') = None"
    by (simp_all add: old_home_def old_paths)
  have r: "tl_raw old_lib (hf_data \<lparr>hf_mode = 420, hf_data = ''L''\<rparr>) = Inr [(''logging'', T_Table old_section)]"
    "map_of [(''logging'', T_Table old_section)] ''logging'' = Some (T_Table old_section)"
    "decode_legacy_logging old_lib old_settings old_section (config_path ''/h'') = Inr off_logging"
    "sl_put_doc old_settings \<lparr>sd_version = 1, sd_logging = off_logging, sd_telemetry = None\<rparr> = Inr ''s0''"
    "tl_put_raw old_lib (AList.delete ''logging'' [(''logging'', T_Table old_section)]) = Inr ''E''"
    "resolve_names (Some Map.empty, Map.empty) ''TI_LOGGING'' ''TDC_LOGGING'' = Inr ([], False, False)"
    "\<not> lc_enabled (logging_of off_logging)"
    by code_simp+
  show ?thesis
    using legacy_logging_migrated [OF no_failures_honest(2) old_paths(4) lo old_lib_ok(3) f(1) r(1-3) f(2) r(4-6), of "Inr ''/h''"] r(7)
    by blast
qed

text \<open>C25: Configuring a profile can switch operation logging back on: with logging switched off by the
  environment, the section an older release wrote to the config document is not migrated, and
  writing any profile then replaces it, whatever it said, by an empty one, so that the next
  run without the variable migrates the empty section and logs.\<close>

theorem configure_drops_logging_section:
  assumes "toml_ok lib" "omits_empty lib" "settings_lib_ok lib sl" "\<And>n. he_fail v n = None" "good_path hdir"
    and "resolve_names off ''TI_LOGGING'' ''TDC_LOGGING'' = Inr (x, True, z)" "parse_bool_setting x = Some False"
    and "resolve_names env ''TI_LOGGING'' ''TDC_LOGGING'' = Inr ([], False, False)"
    and "stored_config lib (hm_files s) hdir = Inr d" "map_of d ''logging'' = Some no_config"
    and "hm_files s (settings_path hdir) = None" "write_profile_as b lib v s hdir name cfg creds = (s', None)"
    and "no_leftovers (hm_files s') hdir"
    and "hm_files s' (config_path hdir) = Some cf" "tl_raw lib (hf_data cf) = Inr raw"
    and "tl_put_raw lib (AList.delete ''logging'' raw) = Inr out"
    and "decode_legacy_logging lib sl [] (config_path hdir) = Inr no_logging"
    and "sl_put_doc sl \<lparr>sd_version = 1, sd_logging = no_logging, sd_telemetry = None\<rparr> = Inr data"
  shows "resolve_logging lib sl v s u hdir off = (s, default_logging_config\<lparr>lc_enabled := False\<rparr>, None)
    \<and> (\<exists>s2. resolve_logging lib sl v s' u hdir env = (s2, default_logging_config, None))
    \<and> lc_enabled default_logging_config"
proof -
  let ?n = "if name = [] then ''default'' else name"
  have n: "\<not> is_reserved_profile_name ?n" and up: "update_profile lib v s hdir ?n (merge_config b cfg) (merge_creds creds) = (s', None)"
    using assms(12) by (auto simp: write_profile_as_def Let_def split: if_splits)
  have ne: "?n \<noteq> ''logging''"
  proof
    assume "?n = ''logging''"
    moreover have "is_reserved_profile_name ''logging''" by code_simp
    ultimately show False using n by simp
  qed
  have h: "honest v" using assms(4) by (simp add: honest_def)
  obtain y k w where d': "tl_put_config lib (AList.update ?n (merge_config b cfg (entry_or no_config d ?n)) d) = Inr y"
    "hm_files s' = (hm_files s)(config_path hdir := Some \<lparr>hf_mode = 420, hf_data = y\<rparr>,
        credentials_path hdir := Some \<lparr>hf_mode = 384, hf_data = w\<rparr>)"
    using update_profile_stored [OF assms(1) h assms(5) up] unfolding assms(9) by auto
  have cf: "cf = \<lparr>hf_mode = 420, hf_data = y\<rparr>" using assms(14) home_paths(3) [OF assms(5)] by (simp add: d'(2))
  have "map_of (AList.update ?n (merge_config b cfg (entry_or no_config d ?n)) d) ''logging'' = Some no_config"
    using ne assms(10) by (simp add: update_conv')
  then have lg: "map_of raw ''logging'' = Some (T_Table [])"
    using assms(2,15) d'(1) unfolding omits_empty_def cf by auto
  have sn: "hm_files s' (settings_path hdir) = None"
    using assms(11) settings_paths(2) [OF assms(5)] settings_creds [OF assms(5)] by (simp add: d'(2))
  have lo: "logging_of no_logging = default_logging_config"
    by (simp add: logging_of_def no_logging_def apply_logging_limits_def)
  have "\<exists>s2. resolve_logging lib sl v s' u hdir env = (s2, logging_of no_logging, None)"
    using legacy_migrated [OF assms(4,5,13,3,14,15) lg assms(17) sn assms(18,16,8)] by blast
  moreover have "resolve_logging lib sl v s u hdir off = (s, default_logging_config\<lparr>lc_enabled := False\<rparr>, None)"
    by (simp add: resolve_logging_def assms(6,7) Let_def)
  moreover have "lc_enabled default_logging_config" by (simp add: default_logging_config_def)
  ultimately show ?thesis by (simp add: lo)
qed

theorem configure_drops_logging_section_witness:
  "\<exists>s' s2. write_profile_as True old_lib no_failures old_home ''/h'' ''work'' demo_cfg demo_creds = (s', None)
     \<and> resolve_logging old_lib old_settings no_failures s' (Inr ''/h'') ''/h'' (Some Map.empty, Map.empty) = (s2, default_logging_config, None)"
proof -
  have "snd (write_profile_as True old_lib no_failures old_home ''/h'' ''work'' demo_cfg demo_creds) = None" by code_simp
  then obtain s' where w: "write_profile_as True old_lib no_failures old_home ''/h'' ''work'' demo_cfg demo_creds = (s', None)"
    by (cases "write_profile_as True old_lib no_failures old_home ''/h'' ''work'' demo_cfg demo_creds") auto
  have up: "update_profile old_lib no_failures old_home ''/h'' ''work'' (merge_config True demo_cfg) (merge_creds demo_creds) = (s', None)"
    using w by (auto simp: write_profile_as_def Let_def split: if_splits)
  have sc: "stored_config old_lib (hm_files old_home) ''/h'' = Inr [(''logging'', no_config)]" by code_simp
  have m: "tl_put_config old_lib (AList.update ''work'' (merge_config True demo_cfg (entry_or no_config [(''logging'', no_config)] ''work''))
      [(''logging'', no_config)]) = Inr ''M''" by code_simp
  obtain y where f: "hm_files s' = (hm_files old_home)(config_path ''/h'' := Some \<lparr>hf_mode = 420, hf_data = ''M''\<rparr>,
        credentials_path ''/h'' := Some \<lparr>hf_mode = 384, hf_data = y\<rparr>)"
    using update_profile_stored [OF old_lib_ok(1) no_failures_honest(1) old_paths(4) up] unfolding sc by (auto simp: m [simplified])
  have lo: "no_leftovers (hm_files s') ''/h''"
    by (rule old_leftovers) (simp add: f old_home_def old_paths split: if_splits)
  have cf: "hm_files s' (config_path ''/h'') = Some \<lparr>hf_mode = 420, hf_data = ''M''\<rparr>" by (simp add: f old_paths)
  have sn: "hm_files old_home (settings_path ''/h'') = None" by (simp add: old_home_def old_paths)
  have r: "resolve_names (Some [''TI_LOGGING'' \<mapsto> ''off''], Map.empty) ''TI_LOGGING'' ''TDC_LOGGING'' = Inr (''off'', True, False)"
    "parse_bool_setting ''off'' = Some False"
    "resolve_names (Some Map.empty, Map.empty) ''TI_LOGGING'' ''TDC_LOGGING'' = Inr ([], False, False)"
    "map_of [(''logging'', no_config)] ''logging'' = Some no_config"
    "tl_raw old_lib (hf_data \<lparr>hf_mode = 420, hf_data = ''M''\<rparr>) = Inr [(''logging'', T_Table []), work_table]"
    "tl_put_raw old_lib (AList.delete ''logging'' [(''logging'', T_Table []), work_table]) = Inr ''N''"
    "decode_legacy_logging old_lib old_settings [] (config_path ''/h'') = Inr no_logging"
    "sl_put_doc old_settings \<lparr>sd_version = 1, sd_logging = no_logging, sd_telemetry = None\<rparr> = Inr ''s1''"
    by code_simp+
  show ?thesis
    using configure_drops_logging_section [OF old_lib_ok no_failures_honest(2) old_paths(4) r(1-3) sc r(4) sn w lo cf r(5-8), of "Inr ''/h''"] w
    by blast
qed

end
