(* ===== verification/Key_Codec.thy ===== *)
theory Key_Codec
  imports Go_Strings
begin

text \<open>
  The base64 alphabet for URLs without padding (\<open>base64.RawURLEncoding\<close> of Go), which the
  program uses for the directory names of file systems and to read tokens: the encoder, the
  decoder with the line ends it skips and the spare bits it ignores, and their round trip.
\<close>

section \<open>The alphabet\<close>

definition b64_alphabet :: string where
  "b64_alphabet = ''ABCDEFGHIJKLMNOPQRSTUVWXYZabcdefghijklmnopqrstuvwxyz0123456789-_''"

definition b64_digit :: "nat \<Rightarrow> char" where
  "b64_digit n = b64_alphabet ! n"

definition b64_value :: "char \<Rightarrow> nat option" where
  "b64_value c = (let n = length (takeWhile (\<lambda>x. x \<noteq> c) b64_alphabet) in if n < 64 then Some n else None)"

lemma b64_value_digit [simp]: "n < 64 \<Longrightarrow> b64_value (b64_digit n) = Some n"
proof -
  have "list_all (\<lambda>n. b64_value (b64_digit n) = Some n) [0..<64]" by code_simp
  then show "n < 64 \<Longrightarrow> ?thesis" by (simp add: list_all_iff)
qed

definition b64_char :: "char \<Rightarrow> bool" where
  "b64_char c \<longleftrightarrow> c \<in> set b64_alphabet"

lemma b64_digit_char [simp]: "n < 64 \<Longrightarrow> b64_char (b64_digit n)"
proof -
  have "length b64_alphabet = 64" by code_simp
  then show "n < 64 \<Longrightarrow> ?thesis" unfolding b64_char_def b64_digit_def by (metis nth_mem)
qed

lemma b64_char_plain: "b64_char c \<Longrightarrow> c \<noteq> CHR ''/'' \<and> c \<noteq> CHR ''.'' \<and> c \<noteq> CHR 0x0A \<and> c \<noteq> CHR 0x0D"
  by (auto simp: b64_char_def b64_alphabet_def)

section \<open>Encoding and decoding\<close>

fun encode_to_string :: "string \<Rightarrow> string" where
  "encode_to_string (a # b # c # s) =
     (let x = byte_of a; y = byte_of b; z = byte_of c in
      b64_digit (x div 4) # b64_digit (x mod 4 * 16 + y div 16) # b64_digit (y mod 16 * 4 + z div 64) # b64_digit (z mod 64)
      # encode_to_string s)"
| "encode_to_string [a, b] =
     (let x = byte_of a; y = byte_of b in
      [b64_digit (x div 4), b64_digit (x mod 4 * 16 + y div 16), b64_digit (y mod 16 * 4)])"
| "encode_to_string [a] = (let x = byte_of a in [b64_digit (x div 4), b64_digit (x mod 4 * 16)])"
| "encode_to_string [] = []"

text \<open>The decoder reads four digits at a time; the bits of the last digit that belong to no byte
  are not looked at, and a single digit at the end is an error.\<close>

fun decode_values :: "nat list \<Rightarrow> string option" where
  "decode_values (p # q # r # t # vs) =
     map_option (\<lambda>s. char_of (p * 4 + q div 16) # char_of (q mod 16 * 16 + r div 4) # char_of (r mod 4 * 64 + t) # s)
       (decode_values vs)"
| "decode_values [p, q, r] = Some [char_of (p * 4 + q div 16), char_of (q mod 16 * 16 + r div 4)]"
| "decode_values [p, q] = Some [char_of (p * 4 + q div 16)]"
| "decode_values [p] = None"
| "decode_values [] = Some []"

fun values_of :: "string \<Rightarrow> nat list option" where
  "values_of [] = Some []"
| "values_of (c # s) =
     (if c = CHR 0x0A \<or> c = CHR 0x0D then values_of s
      else case b64_value c of None \<Rightarrow> None | Some n \<Rightarrow> map_option (Cons n) (values_of s))"

definition decode_string :: "string \<Rightarrow> string option" where
  "decode_string s = (case values_of s of None \<Rightarrow> None | Some vs \<Rightarrow> decode_values vs)"

section \<open>The round trip\<close>

lemma byte_of_bound [simp]: "byte_of c < 256" "char_of (byte_of c) = (c :: char)"
  by (simp_all add: byte_of_def)

lemma values_of_digit [simp]: "n < 64 \<Longrightarrow> values_of (b64_digit n # s) = map_option (Cons n) (values_of s)"
  using b64_char_plain [OF b64_digit_char, of n] by simp

lemma low_part: "c < n \<Longrightarrow> (m * n + c) div n = m" "c < n \<Longrightarrow> (m * n + c) mod n = c" for n :: nat
  by simp_all

lemma six_bits:
  "byte_of a div 4 < 64" "byte_of a mod 4 * 16 + byte_of b div 16 < 64" "byte_of b mod 16 * 4 + byte_of c div 64 < 64"
  "byte_of c mod 64 < 64" "byte_of a mod 4 * 16 < 64" "byte_of b mod 16 * 4 < 64"
proof -
  have q: "byte_of x div 4 < 64" "byte_of x div 16 < 16" "byte_of x div 64 < 4" for x
    using byte_of_bound(1) [of x] by linarith+
  have m: "byte_of x mod 4 < 4" "byte_of x mod 16 < 16" "byte_of x mod 64 < 64" for x by simp_all
  show "byte_of a div 4 < 64" "byte_of a mod 4 * 16 + byte_of b div 16 < 64" "byte_of b mod 16 * 4 + byte_of c div 64 < 64"
    "byte_of c mod 64 < 64" "byte_of a mod 4 * 16 < 64" "byte_of b mod 16 * 4 < 64"
    using q [of a] q [of b] q [of c] m [of a] m [of b] m [of c] by linarith+
qed

text \<open>A group of four digits gives its three bytes, a last one of three or two digits the rest.\<close>

lemma decode_group:
  "decode_values (byte_of a div 4 # (byte_of a mod 4 * 16 + byte_of b div 16) # (byte_of b mod 16 * 4 + byte_of c div 64)
      # byte_of c mod 64 # vs) = map_option (\<lambda>s. a # b # c # s) (decode_values vs)"
  "decode_values [byte_of a div 4, byte_of a mod 4 * 16 + byte_of b div 16, byte_of b mod 16 * 4] = Some [a, b]"
  "decode_values [byte_of a div 4, byte_of a mod 4 * 16] = Some [a]"
proof -
  have q: "byte_of x div 16 < 16" "byte_of x div 64 < 4" for x using byte_of_bound(1) [of x] by linarith+
  have z: "0 < (16 :: nat)" "0 < (4 :: nat)" by simp_all
  note r = low_part [OF q(1)] low_part [OF q(2)] low_part [OF z(1), unfolded add_0_right] low_part [OF z(2), unfolded add_0_right]
    div_mult_mod_eq byte_of_bound(2)
  show "decode_values (byte_of a div 4 # (byte_of a mod 4 * 16 + byte_of b div 16) # (byte_of b mod 16 * 4 + byte_of c div 64)
      # byte_of c mod 64 # vs) = map_option (\<lambda>s. a # b # c # s) (decode_values vs)"
    "decode_values [byte_of a div 4, byte_of a mod 4 * 16 + byte_of b div 16, byte_of b mod 16 * 4] = Some [a, b]"
    "decode_values [byte_of a div 4, byte_of a mod 4 * 16] = Some [a]"
    by (simp_all only: decode_values.simps r)
qed

lemma values_of_digits: "list_all (\<lambda>n. n < 64) vs \<Longrightarrow> values_of (map b64_digit vs) = Some vs"
  by (induction vs) (simp_all del: values_of.simps(2))

lemma encode_digits:
  "\<exists>vs. encode_to_string s = map b64_digit vs \<and> list_all (\<lambda>n. n < 64) vs \<and> decode_values vs = Some s"
proof (induction s rule: encode_to_string.induct)
  case (1 a b c s)
  then obtain vs where "encode_to_string s = map b64_digit vs" "list_all (\<lambda>n. n < 64) vs" "decode_values vs = Some s" by blast
  then show ?case
    by (intro exI [of _ "byte_of a div 4 # (byte_of a mod 4 * 16 + byte_of b div 16) # (byte_of b mod 16 * 4 + byte_of c div 64)
        # byte_of c mod 64 # vs"]) (simp add: Let_def six_bits decode_group del: decode_values.simps)
next
  case (2 a b)
  show ?case
    by (intro exI [of _ "[byte_of a div 4, byte_of a mod 4 * 16 + byte_of b div 16, byte_of b mod 16 * 4]"])
      (simp add: Let_def six_bits decode_group del: decode_values.simps)
next
  case (3 a)
  show ?case
    by (intro exI [of _ "[byte_of a div 4, byte_of a mod 4 * 16]"])
      (simp add: Let_def six_bits decode_group del: decode_values.simps)
qed simp

lemma decode_encode: "decode_string (encode_to_string s) = Some s"
  using encode_digits [of s] values_of_digits by (auto simp: decode_string_def)

lemma encode_inj: "encode_to_string s = encode_to_string t \<longleftrightarrow> s = t"
  using decode_encode by (metis option.inject)

lemma encode_chars: "list_all b64_char (encode_to_string s)"
  by (induction s rule: encode_to_string.induct) (simp_all add: Let_def six_bits)

lemma encode_empty [simp]: "encode_to_string s = [] \<longleftrightarrow> s = []"
  by (cases s rule: encode_to_string.cases) (simp_all add: Let_def)

lemma encode_clean: "s \<noteq> [] \<Longrightarrow> CHR ''/'' \<notin> set (encode_to_string s) \<and> CHR ''.'' \<notin> set (encode_to_string s)"
  using encode_chars [of s] b64_char_plain by (auto simp: list_all_iff)

section \<open>Directory names\<close>

definition encode_key :: "string \<Rightarrow> string" where
  "encode_key value = (if value = [] then [] else encode_to_string value)"

text \<open>\<open>decodeKey\<close> refuses a name that is not what the encoder makes, so a key has one name.\<close>

definition decode_key :: "string \<Rightarrow> string option" where
  "decode_key value =
     (case decode_string value of
        None \<Rightarrow> None
      | Some d \<Rightarrow> if d = [] \<or> encode_key d \<noteq> value then None else Some d)"

lemma encode_key_inj: "encode_key s = encode_key t \<longleftrightarrow> s = t"
  by (auto simp: encode_key_def encode_inj dest: sym [of "[]"])

lemma decode_key_iff: "decode_key k = Some s \<longleftrightarrow> s \<noteq> [] \<and> k = encode_key s"
  using decode_encode by (auto simp: decode_key_def encode_key_def split: option.splits if_splits)

end
