(* ===== verification/Fs_Registry.thy ===== *)
theory Fs_Registry
  imports Config_Store Key_Codec
begin

text \<open>
  The registry of file systems by name below \<open>~/.ti/fs_resources\<close> (\<open>fs/fscred/fscred.go\<close>): one
  directory per profile and name, whose names are encoded, with a config and a credentials
  document; storing, reading, listing and deleting, the selection of a file system for a
  command, and the migration of the flat credentials of older releases.  The TOML and JSON
  codecs are a record of their calls (\<open>cred_lib\<close>).
\<close>

section \<open>Documents\<close>

record resource =
  rs_name :: string
  rs_tenant :: string
  rs_provider :: string
  rs_region :: string
  rs_created :: string
  rs_has_key :: bool
  rs_api_key :: string

record token_scope =
  ts_prefix :: string
  ts_ops :: "string list"

record credential =
  cr_id :: string
  cr_region :: string
  cr_local :: bool
  cr_api_key :: string
  cr_token_id :: string
  cr_scope_kind :: string
  cr_token_name :: string
  cr_expires :: "int option"
  cr_scopes :: "token_scope list"

text \<open>The codecs: a resource is written without its key, a credential without the local flag; the
  state of a migration is its version and the file systems; \<open>cl_tenant\<close> reads the claims of a
  token.\<close>

record cred_lib =
  cl_resource :: "string \<Rightarrow> go_error + resource"
  cl_put_resource :: "resource \<Rightarrow> go_error + string"
  cl_api_key :: "string \<Rightarrow> go_error + string"
  cl_put_api_key :: "string \<Rightarrow> go_error + string"
  cl_credential :: "string \<Rightarrow> go_error + credential"
  cl_put_credential :: "credential \<Rightarrow> go_error + string"
  cl_state :: "string \<Rightarrow> go_error + int \<times> string list"
  cl_put_state :: "int \<times> string list \<Rightarrow> go_error + string"
  cl_tenant :: "string \<Rightarrow> go_error + string"

definition no_resource :: resource where
  "no_resource = \<lparr>rs_name = [], rs_tenant = [], rs_provider = [], rs_region = [], rs_created = [], rs_has_key = False, rs_api_key = []\<rparr>"

definition from_profile :: "profile option \<Rightarrow> resource" where
  "from_profile profile =
     (case profile of
        None \<Rightarrow> no_resource
      | Some p \<Rightarrow> \<lparr>rs_name = pf_fs_name p, rs_tenant = pf_fs_tenant p, rs_provider = pf_fs_provider p,
          rs_region = pf_fs_placement p, rs_created = [], rs_has_key = trim_space (pf_fs_api_key p) \<noteq> [], rs_api_key = pf_fs_api_key p\<rparr>)"

section \<open>Names and directories\<close>

definition normalized_profile :: "string \<Rightarrow> string" where
  "normalized_profile name = (if trim_space name = [] then ''default'' else trim_space name)"

definition resource_error :: "string \<Rightarrow> string \<Rightarrow> string \<Rightarrow> string \<Rightarrow> go_error" where
  "resource_error code profile_name resource_name detail =
     (let m = Fmt ''%s for profile %q'' [Lit detail, Lit (normalized_profile profile_name)] in
      app_new code ''config'' 2
        (if trim_space resource_name \<noteq> [] then Fmt ''%s and file system %q'' [m, Lit (trim_space resource_name)] else m))"

definition profile_dir :: "string \<Rightarrow> string \<Rightarrow> string" where
  "profile_dir hdir profile_name = path_join [hdir, ''.ti'', ''fs_resources'', encode_key (normalized_profile profile_name)]"

definition resource_dir :: "string \<Rightarrow> string \<Rightarrow> string \<Rightarrow> go_error + string" where
  "resource_dir hdir profile_name resource_name =
     (let n = trim_space resource_name in
      if n = [] then Inl (resource_error ''fs.resource_not_found'' profile_name n ''file system name is required'')
      else Inr (path_join [profile_dir hdir profile_name, encode_key n]))"

definition companion_home :: "string \<Rightarrow> string \<Rightarrow> string \<Rightarrow> go_error + string" where
  "companion_home hdir profile_name resource_name =
     (let pk = encode_key (normalized_profile profile_name); rk = encode_key (trim_space resource_name) in
      if rk = [] then Inl (resource_error ''fs.resource_not_configured'' profile_name resource_name
        ''ti fs resource is required for the companion runtime'')
      else Inr (path_join [hdir, ''.ti'', ''drive9-home'', pk, rk]))"

definition registry_paths :: "string \<Rightarrow> string \<Rightarrow> string \<Rightarrow> go_error + string \<times> string" where
  "registry_paths hdir profile_name resource_name =
     map_sum id (\<lambda>d. (path_join [d, ''config''], path_join [d, ''credentials'']))
       (resource_dir hdir profile_name resource_name)"

text \<open>Making one directory after the other, each for the owner only.\<close>

fun make_private_dirs :: "home_env \<Rightarrow> home \<Rightarrow> string list \<Rightarrow> home \<times> go_error option" where
  "make_private_dirs v s [] = (s, None)"
| "make_private_dirs v s (d # ds) =
     (case hm_mkdir_all v s d of
        (s1, Some e) \<Rightarrow> (s1, Some e)
      | (s1, None) \<Rightarrow>
        (case hm_call v s1 of
           (s2, Some e) \<Rightarrow> (s2, Some e)
         | (s2, None) \<Rightarrow> make_private_dirs v s2 ds))"

definition ensure_registry_dirs :: "home_env \<Rightarrow> home \<Rightarrow> string \<Rightarrow> string \<Rightarrow> string \<Rightarrow> home \<times> go_error option" where
  "ensure_registry_dirs v s hdir profile_name resource_name =
     (case resource_dir hdir profile_name resource_name of
        Inl e \<Rightarrow> (s, Some e)
      | Inr d \<Rightarrow> make_private_dirs v s [path_join [hdir, ''.ti'', ''fs_resources''], profile_dir hdir profile_name, d])"

definition normalize_provider :: "string \<Rightarrow> string" where
  "normalize_provider provider =
     (if trim_space provider \<in> {''alicloud'', ''ali'', ''alibaba_cloud''} then ''alibaba_cloud'' else trim_space provider)"

text \<open>The code and provider of a placement that is given as a code, or as a region of a provider.\<close>

definition canonical_placement :: "profile option \<Rightarrow> string \<Rightarrow> string \<Rightarrow> go_error + string \<times> string" where
  "canonical_placement profile cloud_provider region_code =
     (let cp = normalize_provider cloud_provider;
          rc0 = trim_space region_code;
          rc = (case profile of Some p \<Rightarrow> if rc0 = [] then pf_placement p else rc0 | None \<Rightarrow> rc0)
      in case parse_placement_code rc of
        Inr q \<Rightarrow> Inr (pl_code q, pl_provider q)
      | Inl _ \<Rightarrow>
        (let cp2 = (case profile of Some p \<Rightarrow> if cp = [] then pf_provider p else cp | None \<Rightarrow> cp);
             rc2 = (case profile of Some p \<Rightarrow> if rc = [] then pf_region p else rc | None \<Rightarrow> rc)
         in case canonical_code cp2 rc2 of
           Inl e \<Rightarrow> Inl (app_wrap ''fs.invalid_resource_region'' ''config'' 2 (error_text e) e)
         | Inr code \<Rightarrow> Inr (code, cp2)))"

section \<open>Reading\<close>

text \<open>Listing a directory: the names of the directories in it, in byte order.\<close>

definition sub_dirs :: "home \<Rightarrow> string \<Rightarrow> string list" where
  "sub_dirs s d =
     sort (remdups (map (\<lambda>p. takeWhile (\<lambda>c. c \<noteq> CHR ''/'') (trim_prefix p (tree_prefix d)))
       (filter (\<lambda>p. p \<noteq> d \<and> in_tree d p) (hm_dirs s))))"

definition hm_read_dir :: "home_env \<Rightarrow> home \<Rightarrow> string \<Rightarrow> home \<times> (go_error + string list)" where
  "hm_read_dir v s d =
     (hm_step s (hm_files s),
      case he_fail v (hm_steps s) of
        Some e \<Rightarrow> Inl e
      | None \<Rightarrow> if list_ex (in_tree d) (hm_dirs s) then Inr (sub_dirs s d) else Inl (Sentinel Err_Not_Exist))"

text \<open>A credentials file that others can read is restricted before it is used.\<close>

definition restrict_mode :: "home_env \<Rightarrow> home \<Rightarrow> string \<Rightarrow> home \<times> go_error option" where
  "restrict_mode v s p =
     (case hm_stat v s p of
        (s1, Inl e) \<Rightarrow> (s1, Some e)
      | (s1, Inr m) \<Rightarrow> if m mod 64 = 0 then (s1, None) else hm_chmod v s1 p 384)"

definition check_resource :: "cred_lib \<Rightarrow> string \<Rightarrow> string \<Rightarrow> string \<Rightarrow> string \<Rightarrow> go_error + resource" where
  "check_resource cl profile_name expected config_data creds_data =
     (let bad = (\<lambda>d. Inl (resource_error ''fs.resource_credentials_incomplete'' profile_name expected d)) in
      case cl_resource cl config_data of
        Inl _ \<Rightarrow> bad ''cannot parse resource config''
      | Inr r \<Rightarrow>
        (case cl_api_key cl creds_data of
           Inl _ \<Rightarrow> bad ''cannot parse resource credentials''
         | Inr key \<Rightarrow>
           if rs_name r \<noteq> expected \<or> trim_space (rs_tenant r) = [] \<or> trim_space (rs_provider r) = []
             \<or> trim_space (rs_region r) = [] \<or> trim_space key = []
           then bad ''resource config or credentials are incomplete''
           else case parse_placement_code (rs_region r) of
             Inl _ \<Rightarrow> bad ''resource cloud_provider and region_code are invalid or inconsistent''
           | Inr q \<Rightarrow>
             if normalize_provider (rs_provider r) \<noteq> pl_provider q
             then bad ''resource cloud_provider and region_code are invalid or inconsistent''
             else Inr (r\<lparr>rs_provider := pl_provider q, rs_region := pl_code q, rs_api_key := trim_space key, rs_has_key := True\<rparr>)))"

definition read_resource_dir ::
  "cred_lib \<Rightarrow> home_env \<Rightarrow> home \<Rightarrow> string \<Rightarrow> string \<Rightarrow> string \<Rightarrow> home \<times> (go_error + resource)" where
  "read_resource_dir cl v s dir profile_name expected =
     (let bad = (\<lambda>d. Inl (resource_error ''fs.resource_credentials_incomplete'' profile_name expected d));
          creds_path = path_join [dir, ''credentials'']
      in case hm_read v s (path_join [dir, ''config'']) of
        (s1, config) \<Rightarrow>
        (case hm_read v s1 creds_path of
           (s2, creds) \<Rightarrow>
           (case (config, creds) of
              (Inr config_data, Inr creds_data) \<Rightarrow>
                (case restrict_mode v s2 creds_path of
                   (s3, Some _) \<Rightarrow> (s3, bad ''cannot restrict resource credentials permissions'')
                 | (s3, None) \<Rightarrow> (s3, check_resource cl profile_name expected config_data creds_data))
            | (Inl e, Inl f) \<Rightarrow>
                (s2, if errors_is e Err_Not_Exist \<and> errors_is f Err_Not_Exist then Inl (Sentinel Err_Not_Exist)
                     else bad ''resource config and credentials must both exist'')
            | _ \<Rightarrow> (s2, bad ''resource config and credentials must both exist''))))"

definition get_resource :: "cred_lib \<Rightarrow> home_env \<Rightarrow> home \<Rightarrow> string \<Rightarrow> string \<Rightarrow> string \<Rightarrow> home \<times> (go_error + resource)" where
  "get_resource cl v s hdir profile_name resource_name =
     (let n = trim_space resource_name in
      case resource_dir hdir profile_name n of
        Inl e \<Rightarrow> (s, Inl e)
      | Inr dir \<Rightarrow>
        (case read_resource_dir cl v s dir profile_name n of
           (s1, Inl e) \<Rightarrow> (s1, Inl (if errors_is e Err_Not_Exist
              then resource_error ''fs.resource_not_found'' profile_name n ''ti fs resource is not configured'' else e))
         | (s1, Inr r) \<Rightarrow> (s1, Inr r)))"

text \<open>The loop of \<open>List\<close> over the entries of a profile's directory.\<close>

fun list_entries :: "cred_lib \<Rightarrow> home_env \<Rightarrow> home \<Rightarrow> string \<Rightarrow> string \<Rightarrow> string list \<Rightarrow> home \<times> (go_error + resource list)" where
  "list_entries cl v s dir profile_name [] = (s, Inr [])"
| "list_entries cl v s dir profile_name (k # ks) =
     (case decode_key k of
        None \<Rightarrow> (s, Inl (resource_error ''fs.resource_credentials_incomplete'' profile_name k ''invalid local resource directory''))
      | Some n \<Rightarrow>
        (case read_resource_dir cl v s (path_join [dir, k]) profile_name n of
           (s1, Inl e) \<Rightarrow> (s1, Inl (if errors_is e Err_Not_Exist
              then resource_error ''fs.resource_credentials_incomplete'' profile_name n ''resource config and credentials must both exist'' else e))
         | (s1, Inr r) \<Rightarrow>
           (case list_entries cl v s1 dir profile_name ks of
              (s2, Inl e) \<Rightarrow> (s2, Inl e)
            | (s2, Inr rs) \<Rightarrow> (s2, Inr (r # rs)))))"

definition list_resources :: "cred_lib \<Rightarrow> home_env \<Rightarrow> home \<Rightarrow> string \<Rightarrow> string \<Rightarrow> home \<times> (go_error + resource list)" where
  "list_resources cl v s hdir profile_name =
     (let dir = profile_dir hdir profile_name in
      case hm_read_dir v s dir of
        (s1, Inl e) \<Rightarrow> (s1, if errors_is e Err_Not_Exist then Inr []
          else Inl (Wrapf (Fmt ''list ti fs resources for profile %q: %w'' [Lit (normalized_profile profile_name), error_text e]) e))
      | (s1, Inr ks) \<Rightarrow>
        (case list_entries cl v s1 dir profile_name ks of
           (s2, Inl e) \<Rightarrow> (s2, Inl e)
         | (s2, Inr rs) \<Rightarrow> (s2, Inr (sort_key rs_name rs))))"

section \<open>Storing and deleting\<close>

definition write_doc :: "(go_error + string) \<Rightarrow> home_env \<Rightarrow> home \<Rightarrow> string \<Rightarrow> nat \<Rightarrow> home \<times> go_error option" where
  "write_doc marshalled v s p mode =
     (case marshalled of
        Inl e \<Rightarrow> (s, Some (Wrapf (Fmt ''marshal %s: %w'' [Lit p, error_text e]) e))
      | Inr data \<Rightarrow> fscred_write v s p data mode)"

definition missing_profile :: go_error where
  "missing_profile = app_new ''fs.missing_profile'' ''config'' 2 (Lit ''active profile is required'')"

text \<open>The two documents of a resource; when the second cannot be written the first is taken back.\<close>

definition write_resource :: "cred_lib \<Rightarrow> home_env \<Rightarrow> home \<Rightarrow> string \<Rightarrow> resource \<Rightarrow> string \<Rightarrow> home \<times> go_error option" where
  "write_resource cl v s dir r key =
     (case write_doc (cl_put_resource cl r) v s (path_join [dir, ''config'']) 420 of
        (s1, Some e) \<Rightarrow> (s1, Some e)
      | (s1, None) \<Rightarrow>
        (case write_doc (cl_put_api_key cl key) v s1 (path_join [dir, ''credentials'']) 384 of
           (s2, Some e) \<Rightarrow> (fst (hm_remove v s2 (path_join [dir, ''config''])), Some e)
         | (s2, None) \<Rightarrow> (s2, None)))"

definition store_resource ::
  "cred_lib \<Rightarrow> home_env \<Rightarrow> string \<Rightarrow> home \<Rightarrow> string \<Rightarrow> profile option \<Rightarrow> string \<Rightarrow> string \<Rightarrow> string \<Rightarrow> string \<Rightarrow> string
    \<Rightarrow> home \<times> go_error option" where
  "store_resource cl v now s hdir profile resource_name tenant cloud_provider region_code api_key =
     (case profile of None \<Rightarrow> (s, Some missing_profile) | Some p \<Rightarrow>
      let n = trim_space resource_name in
      if n = [] then (s, Some (app_new ''fs.missing_file_system_name'' ''usage'' 2 (Lit ''--file-system-name is required'')))
      else if trim_space api_key = [] then
        (s, Some (app_new ''fs.missing_api_key'' ''api'' 1 (Lit ''ti fs provision response did not include an api_key'')))
      else if trim_space tenant = [] then
        (s, Some (app_new ''fs.missing_tenant_id'' ''api'' 1 (Lit ''ti fs provision response did not include a tenant_id'')))
      else case canonical_placement profile cloud_provider region_code of
        Inl e \<Rightarrow> (s, Some e)
      | Inr (code, provider) \<Rightarrow>
        (case get_resource cl v s hdir (pf_name p) n of
           (s1, Inr old) \<Rightarrow>
             (s1, if rs_tenant old \<noteq> trim_space tenant \<or> rs_api_key old \<noteq> trim_space api_key
                  then Some (resource_error ''fs.resource_name_conflict'' (pf_name p) n ''a different local ti fs resource already uses this name'')
                  else None)
         | (s1, Inl e) \<Rightarrow>
           if code_for (Some e) \<noteq> ''fs.resource_not_found'' then (s1, Some e)
           else case resource_dir hdir (pf_name p) n of
             Inl e \<Rightarrow> (s1, Some e)
           | Inr dir \<Rightarrow>
             (case ensure_registry_dirs v s1 hdir (pf_name p) n of
                (s2, Some e) \<Rightarrow> (s2, Some (Wrapf (Fmt ''create ti fs resource directory: %w'' [error_text e]) e))
              | (s2, None) \<Rightarrow>
                write_resource cl v s2 dir
                  \<lparr>rs_name = n, rs_tenant = trim_space tenant, rs_provider = provider, rs_region = code, rs_created = now,
                   rs_has_key = False, rs_api_key = []\<rparr> (trim_space api_key))))"

definition delete_resource :: "cred_lib \<Rightarrow> home_env \<Rightarrow> home \<Rightarrow> string \<Rightarrow> profile option \<Rightarrow> string \<Rightarrow> home \<times> go_error option" where
  "delete_resource cl v s hdir profile resource_name =
     (case profile of None \<Rightarrow> (s, Some missing_profile) | Some p \<Rightarrow>
      case resource_dir hdir (pf_name p) resource_name of
        Inl e \<Rightarrow> (s, Some e)
      | Inr dir \<Rightarrow>
        (case get_resource cl v s hdir (pf_name p) resource_name of
           (s1, Inl e) \<Rightarrow> (s1, Some e)
         | (s1, Inr _) \<Rightarrow>
           (case hm_remove_all v s1 dir of
              (s2, Some e) \<Rightarrow> (s2, Some (Wrapf (Fmt ''delete local ti fs resource %q: %w'' [Lit resource_name, error_text e]) e))
            | (s2, None) \<Rightarrow> (s2, None))))"

section \<open>The flat credentials of older releases\<close>

definition legacy_has_any :: "profile \<Rightarrow> bool" where
  "legacy_has_any p \<longleftrightarrow> trim_space (pf_fs_name p) \<noteq> [] \<or> trim_space (pf_fs_tenant p) \<noteq> []
     \<or> trim_space (pf_fs_placement p) \<noteq> [] \<or> trim_space (pf_fs_api_key p) \<noteq> []"

definition legacy_complete :: "profile \<Rightarrow> bool" where
  "legacy_complete p \<longleftrightarrow> trim_space (pf_fs_name p) \<noteq> [] \<and> trim_space (pf_fs_tenant p) \<noteq> []
     \<and> trim_space (pf_fs_placement p) \<noteq> [] \<and> trim_space (pf_fs_api_key p) \<noteq> []"

definition legacy_incomplete :: "profile \<Rightarrow> go_error" where
  "legacy_incomplete p = resource_error ''fs.resource_credentials_incomplete'' (pf_name p) (pf_fs_name p)
     ''legacy flat ti fs credentials are incomplete; recreate the resource''"

definition validate_legacy :: "profile \<Rightarrow> go_error option" where
  "validate_legacy p =
     (if \<not> legacy_has_any p then None else if \<not> legacy_complete p then Some (legacy_incomplete p) else None)"

definition legacy_resource :: "profile \<Rightarrow> resource" where
  "legacy_resource p =
     (if trim_space (pf_fs_name p) = [] then no_resource
      else \<lparr>rs_name = trim_space (pf_fs_name p), rs_tenant = trim_space (pf_fs_tenant p),
        rs_provider = trim_space (pf_fs_provider p), rs_region = trim_space (pf_fs_placement p), rs_created = [],
        rs_has_key = trim_space (pf_fs_api_key p) \<noteq> [], rs_api_key = trim_space (pf_fs_api_key p)\<rparr>)"

definition migration_failed :: "gotext \<Rightarrow> go_error \<Rightarrow> go_error" where
  "migration_failed m e = app_wrap ''fs.resource_migration_failed'' ''config'' 1 m e"

definition clear_flat :: "profile \<Rightarrow> profile" where
  "clear_flat p = p\<lparr>pf_fs_name := [], pf_fs_tenant := [], pf_fs_provider := [], pf_fs_placement := [],
     pf_fs_region := [], pf_fs_api_key := []\<rparr>"

text \<open>\<open>MigrateLegacy\<close> changes the profile of the caller once the flat credentials are gone.\<close>

definition migrate_legacy ::
  "toml_lib \<Rightarrow> cred_lib \<Rightarrow> home_env \<Rightarrow> string \<Rightarrow> home \<Rightarrow> string \<Rightarrow> profile \<Rightarrow> home \<times> profile \<times> go_error option" where
  "migrate_legacy lib cl v now s hdir p =
     (case remove_legacy_default lib v s hdir (pf_name p) of
        (s1, Inl e) \<Rightarrow> (s1, p, Some (migration_failed (Lit ''remove legacy default file system'') e))
      | (s1, Inr _) \<Rightarrow>
        if \<not> legacy_has_any p then (s1, p, None)
        else if \<not> legacy_complete p then (s1, p, Some (legacy_incomplete p))
        else
          (case (case get_resource cl v s1 hdir (pf_name p) (pf_fs_name p) of
               (s2, Inr old) \<Rightarrow>
                 (s2, if rs_tenant old \<noteq> trim_space (pf_fs_tenant p) \<or> rs_api_key old \<noteq> trim_space (pf_fs_api_key p)
                      then Some (resource_error ''fs.resource_migration_failed'' (pf_name p) (pf_fs_name p)
                        ''legacy flat resource disagrees with the existing registry resource'')
                      else None)
             | (s2, Inl e) \<Rightarrow>
               if code_for (Some e) \<noteq> ''fs.resource_not_found'' then (s2, Some (migration_failed (error_text e) e))
               else (case store_resource cl v now s2 hdir (Some p) (pf_fs_name p) (pf_fs_tenant p) (pf_fs_provider p)
                   (pf_fs_placement p) (pf_fs_api_key p) of
                   (s3, Some e) \<Rightarrow> (s3, Some (migration_failed (error_text e) e))
                 | (s3, None) \<Rightarrow> (s3, None))) of
             (s4, Some e) \<Rightarrow> (s4, p, Some e)
           | (s4, None) \<Rightarrow>
             (case clear_fs_resource lib v s4 hdir (pf_name p) of
                (s5, Some e) \<Rightarrow> (s5, p, Some (migration_failed (Lit ''clear migrated flat ti fs credentials'') e))
              | (s5, None) \<Rightarrow> (s5, clear_flat p, None))))"

text \<open>Migrating, or in a dry run only checking, what the profile still has.\<close>

definition settle_legacy ::
  "bool \<Rightarrow> toml_lib \<Rightarrow> cred_lib \<Rightarrow> home_env \<Rightarrow> string \<Rightarrow> home \<Rightarrow> string \<Rightarrow> profile \<Rightarrow> home \<times> profile \<times> go_error option" where
  "settle_legacy migrate lib cl v now s hdir p =
     (if migrate then migrate_legacy lib cl v now s hdir p else (s, p, validate_legacy p))"

section \<open>Selecting a file system\<close>

definition fs_env_value :: "environment \<Rightarrow> string \<Rightarrow> go_error + string" where
  "fs_env_value env key = map_sum id fst (resolve_names env key (legacy_name_for key))"

definition missing_file_system_name :: go_error where
  "missing_file_system_name = app_new ''fs.missing_file_system_name'' ''usage'' 2
     (Lit ''file system name is required; pass --file-system-name or set TI_FS_FILE_SYSTEM_NAME'')"

text \<open>A flag that is set, or else an environment variable, trimmed.\<close>

definition flag_or_env :: "string \<Rightarrow> bool \<Rightarrow> go_error \<Rightarrow> environment \<Rightarrow> string \<Rightarrow> go_error + string" where
  "flag_or_env flag explicit empty_error env key =
     (let n = trim_space flag in
      if explicit \<and> n = [] then Inl empty_error
      else if n = [] then map_sum id trim_space (fs_env_value env key)
      else Inr n)"

definition empty_name :: go_error where
  "empty_name = app_new ''fs.empty_file_system_name'' ''usage'' 2 (Lit ''--file-system-name cannot be empty'')"

definition empty_token :: go_error where
  "empty_token = app_new ''fs.empty_token'' ''usage'' 2 (Lit ''--fs-token cannot be empty'')"

text \<open>The resource, in a dry run also the one still kept flat.\<close>

definition get_or_legacy ::
  "bool \<Rightarrow> cred_lib \<Rightarrow> home_env \<Rightarrow> home \<Rightarrow> string \<Rightarrow> profile \<Rightarrow> string \<Rightarrow> home \<times> (go_error + resource)" where
  "get_or_legacy legacy_too cl v s hdir p n =
     (case get_resource cl v s hdir (pf_name p) n of
        (s1, Inr r) \<Rightarrow> (s1, Inr r)
      | (s1, Inl e) \<Rightarrow> (s1, if legacy_too \<and> rs_name (legacy_resource p) = n then Inr (legacy_resource p) else Inl e))"

definition resolve_resource ::
  "bool \<Rightarrow> toml_lib \<Rightarrow> cred_lib \<Rightarrow> home_env \<Rightarrow> string \<Rightarrow> home \<Rightarrow> string \<Rightarrow> profile option \<Rightarrow> string \<Rightarrow> bool \<Rightarrow> environment
    \<Rightarrow> home \<times> profile option \<times> (go_error + profile \<times> resource)" where
  "resolve_resource migrate lib cl v now s hdir profile selector explicit env =
     (case profile of None \<Rightarrow> (s, None, Inl missing_profile) | Some p0 \<Rightarrow>
      case flag_or_env selector explicit empty_name env ''TI_FS_FILE_SYSTEM_NAME'' of
        Inl e \<Rightarrow> (s, profile, Inl e)
      | Inr n \<Rightarrow>
        if n = [] then (s, profile, Inl missing_file_system_name)
        else case settle_legacy migrate lib cl v now s hdir p0 of
          (s1, p, Some e) \<Rightarrow> (s1, Some p, Inl e)
        | (s1, p, None) \<Rightarrow>
          (case get_or_legacy (\<not> migrate) cl v s1 hdir p n of
             (s2, Inl e) \<Rightarrow> (s2, Some p, Inl e)
           | (s2, Inr r) \<Rightarrow>
             (s2, Some p,
              case parse_placement_code (rs_region r) of
                Inl _ \<Rightarrow> Inl (resource_error ''fs.resource_credentials_incomplete'' (pf_name p) (rs_name r) ''stored region_code is invalid'')
              | Inr q \<Rightarrow> Inr (p\<lparr>pf_fs_name := rs_name r, pf_fs_tenant := rs_tenant r, pf_fs_provider := rs_provider r,
                  pf_fs_placement := rs_region r, pf_fs_region := pl_native q, pf_fs_api_key := rs_api_key r\<rparr>, r))))"

definition resolve_name where "resolve_name = resolve_resource True"
definition resolve_name_dry_run where "resolve_name_dry_run = resolve_resource False"

record auth_options =
  ao_selector :: string
  ao_selector_explicit :: bool
  ao_token :: string
  ao_token_explicit :: bool
  ao_region :: string
  ao_token_required :: bool
  ao_env :: environment
  ao_dry_run :: bool

definition missing_token_for_name :: go_error where
  "missing_token_for_name = app_new ''fs.missing_token'' ''authentication'' 3 (Lit
     ''authentication required: missing FS token; pass --fs-token, set TI_FS_TOKEN, or select a locally registered file system with credentials'')"

definition missing_region_for_name :: go_error where
  "missing_region_for_name = app_new ''fs.missing_region'' ''config'' 2 (Lit
     ''ti fs region is required; pass --region, set TI_REGION_CODE, or configure region_code for the selected file system or profile'')"

text \<open>The first that is not blank, trimmed.\<close>

fun first_set :: "string list \<Rightarrow> string" where
  "first_set [] = []"
| "first_set (x # xs) = (if trim_space x \<noteq> [] then trim_space x else first_set xs)"

definition resolve_authenticated ::
  "toml_lib \<Rightarrow> cred_lib \<Rightarrow> home_env \<Rightarrow> string \<Rightarrow> home \<Rightarrow> string \<Rightarrow> profile option \<Rightarrow> auth_options
    \<Rightarrow> home \<times> profile option \<times> (go_error + profile \<times> resource)" where
  "resolve_authenticated lib cl v now s hdir profile opt =
     (case profile of None \<Rightarrow> (s, None, Inl missing_profile) | Some p0 \<Rightarrow>
      case flag_or_env (ao_selector opt) (ao_selector_explicit opt) empty_name (ao_env opt) ''TI_FS_FILE_SYSTEM_NAME'' of
        Inl e \<Rightarrow> (s, profile, Inl e)
      | Inr n \<Rightarrow>
        if n = [] then (s, profile, Inl missing_file_system_name)
        else case settle_legacy (\<not> ao_dry_run opt) lib cl v now s hdir p0 of
          (s1, p, Some e) \<Rightarrow> (s1, Some p, Inl e)
        | (s1, p, None) \<Rightarrow>
          (case flag_or_env (ao_token opt) (ao_token_explicit opt) empty_token (ao_env opt) ''TI_FS_TOKEN'' of
             Inl e \<Rightarrow> (s1, Some p, Inl e)
           | Inr token0 \<Rightarrow>
             (case get_or_legacy (ao_dry_run opt) cl v s1 hdir p n of
                (s2, got) \<Rightarrow>
                  (s2, Some p,
                   bind_result
                     (case got of
                        Inr r \<Rightarrow> Inr (True, r)
                      | Inl e \<Rightarrow>
                        if code_for (Some e) \<noteq> ''fs.resource_not_found'' then Inl e
                        else if token0 = [] \<and> ao_token_required opt then Inl e
                        else Inr (False, no_resource\<lparr>rs_name := n\<rparr>))
                     (\<lambda>(found, r).
                       let token = (if token0 = [] \<and> found then trim_space (rs_api_key r) else token0) in
                       if ao_token_required opt \<and> token = [] then Inl missing_token_for_name
                       else
                         let code = first_set [ao_region opt, if found then rs_region r else [], pf_placement p] in
                         if code = [] then Inl missing_region_for_name
                         else case parse_placement code of
                           Inl e \<Rightarrow> Inl e
                         | Inr q \<Rightarrow> Inr
                             (p\<lparr>pf_fs_name := rs_name r, pf_fs_tenant := rs_tenant r, pf_fs_placement := pl_code q,
                                pf_fs_provider := pl_provider q, pf_fs_region := pl_native q, pf_fs_api_key := token\<rparr>,
                              r\<lparr>rs_region := pl_code q, rs_provider := pl_provider q, rs_api_key := token, rs_has_key := token \<noteq> []\<rparr>))))))"

section \<open>Directories by key\<close>

lemma home_comps:
  assumes "good_path hdir"
  obtains hs where "hs \<noteq> []" "clean_list hs" "hdir = abs_path hs"
    "\<And>xs. clean_list xs \<Longrightarrow> xs \<noteq> [] \<Longrightarrow> path_join (hdir # xs) = abs_path (hs @ xs)"
proof -
  obtain ds b where h: "clean_list (ds @ [b])" "hdir = abs_path (ds @ [b])" using assms by (rule good_pathE)
  have "path_join (hdir # xs) = abs_path ((ds @ [b]) @ xs)" if "clean_list xs" "xs \<noteq> []" for xs
    using join_home(3) [OF assms that] join_with_append [of "ds @ [b]" xs "''/''"] that(2) by (simp add: h(2) abs_path_def)
  then show ?thesis using that [of "ds @ [b]"] h by simp
qed

lemma join_again:
  assumes "good_path hdir" "clean_list xs" "xs \<noteq> []" "clean_list ys" "ys \<noteq> []"
  shows "path_join (path_join (hdir # xs) # ys) = path_join (hdir # xs @ ys)"
proof -
  obtain hs where h: "hs \<noteq> []" "clean_list hs" "hdir = abs_path hs"
    "\<And>xs. clean_list xs \<Longrightarrow> xs \<noteq> [] \<Longrightarrow> path_join (hdir # xs) = abs_path (hs @ xs)" using assms(1) by (rule home_comps) blast
  let ?d = "path_join (hdir # xs)"
  have g: "good_path ?d" using join_home(1) [OF assms(1-3)] .
  obtain ds where d: "ds \<noteq> []" "clean_list ds" "?d = abs_path ds"
    "\<And>xs. clean_list xs \<Longrightarrow> xs \<noteq> [] \<Longrightarrow> path_join (?d # xs) = abs_path (ds @ xs)" using g by (rule home_comps) blast
  have "ds = hs @ xs" using abs_path_inj [of ds "hs @ xs"] d(2,3) h(2,4) assms(2,3) by simp
  then show ?thesis using d(4) [OF assms(4,5)] h(4) [of "xs @ ys"] assms(2-5) by simp
qed

lemma in_tree_abs:
  assumes "clean_list cs" "cs \<noteq> []" "clean_list ds"
  shows "in_tree (abs_path cs) (abs_path ds) \<longleftrightarrow> (\<exists>es. ds = cs @ es)"
proof
  assume a: "in_tree (abs_path cs) (abs_path ds)"
  show "\<exists>es. ds = cs @ es"
  proof (cases "abs_path ds = abs_path cs")
    case True
    then show ?thesis using abs_path_inj [OF assms(3,1)] by simp
  next
    case False
    then obtain t where t: "abs_path ds = abs_path cs @ CHR ''/'' # t"
      using a by (auto simp: in_tree_def tree_prefix_abs [OF assms(1,2)] has_prefix_iff)
    have "ds \<noteq> []"
    proof
      assume "ds = []"
      then have "length (abs_path ds) = 1" by (simp add: abs_path_def)
      then show False using t by (simp add: abs_path_def)
    qed
    then have "[] # ds = ([] # cs) @ split_on (CHR ''/'') t"
      using split_on_append [of "CHR ''/''" "abs_path cs" t] split_abs_path assms t by metis
    then show ?thesis by auto
  qed
next
  assume "\<exists>es. ds = cs @ es"
  then obtain es where e: "ds = cs @ es" by blast
  show "in_tree (abs_path cs) (abs_path ds)"
  proof (cases "es = []")
    case False
    then show ?thesis
      using abs_path_append [OF False assms(2)]
      by (simp add: e in_tree_def tree_prefix_abs [OF assms(1,2)] has_prefix_iff) (simp add: abs_path_def)
  qed (simp add: e)
qed

lemma encode_key_comp [simp]: "clean_comp (encode_key s) \<longleftrightarrow> s \<noteq> []"
proof (cases "s = []")
  case False
  then have "encode_key s \<noteq> []" "CHR ''/'' \<notin> set (encode_key s)" "CHR ''.'' \<notin> set (encode_key s)"
    using encode_clean [OF False] by (simp_all add: encode_key_def)
  then show ?thesis using False by (auto simp: clean_comp_def)
qed (simp add: clean_comp_def encode_key_def)

lemma normalized_profile_set [simp]: "normalized_profile p \<noteq> []"
  by (simp add: normalized_profile_def)

lemma plain_comp [simp]:
  "clean_comp ''.ti''" "clean_comp ''fs_resources''" "clean_comp ''fs_credentials''" "clean_comp ''drive9-home''"
  "clean_comp ''config''" "clean_comp ''credentials''" "clean_comp ''.legacy-name-registry-migration''"
  by (simp_all add: clean_comp_def)

text \<open>What the three stores have in common: a directory of its own for every profile and key.\<close>

locale keyed_dirs =
  fixes dir :: "string \<Rightarrow> string \<Rightarrow> string \<Rightarrow> go_error + string" and sub :: string and key :: "string \<Rightarrow> string"
  assumes sub: "clean_comp sub"
    and shape: "good_path hdir \<Longrightarrow> dir hdir p n = Inr d \<Longrightarrow>
      key n \<noteq> [] \<and> d = path_join [hdir, ''.ti'', sub, encode_key (normalized_profile p), encode_key (key n)]"
begin

lemma comps:
  assumes "good_path hdir" "dir hdir p n = Inr d"
  obtains hs where "hs \<noteq> []" "clean_list hs" "hdir = abs_path hs" "key n \<noteq> []"
    "d = abs_path (hs @ [''.ti'', sub, encode_key (normalized_profile p), encode_key (key n)])"
proof -
  obtain hs where h: "hs \<noteq> []" "clean_list hs" "hdir = abs_path hs"
    "\<And>xs. clean_list xs \<Longrightarrow> xs \<noteq> [] \<Longrightarrow> path_join (hdir # xs) = abs_path (hs @ xs)" using assms(1) by (rule home_comps) blast
  show ?thesis using that [OF h(1-3)] shape [OF assms] h(4) [of "[''.ti'', sub, encode_key (normalized_profile p), encode_key (key n)]"] sub
    by simp
qed

lemma confined:
  assumes "good_path hdir" "dir hdir p n = Inr d"
  shows "good_path d" "in_tree (path_join [hdir, ''.ti'', sub]) d" "d \<noteq> path_join [hdir, ''.ti'', sub]"
proof -
  obtain hs where h: "hs \<noteq> []" "clean_list hs" "hdir = abs_path hs" "key n \<noteq> []"
    "d = abs_path (hs @ [''.ti'', sub, encode_key (normalized_profile p), encode_key (key n)])" using assms by (rule comps)
  obtain gs where g: "gs \<noteq> []" "clean_list gs" "hdir = abs_path gs"
    "\<And>xs. clean_list xs \<Longrightarrow> xs \<noteq> [] \<Longrightarrow> path_join (hdir # xs) = abs_path (gs @ xs)" using assms(1) by (rule home_comps) blast
  have gs: "gs = hs" using abs_path_inj [OF g(2) h(2)] g(3) h(3) by simp
  have j: "path_join [hdir, ''.ti'', sub] = abs_path (hs @ [''.ti'', sub])" using g(4) [of "[''.ti'', sub]"] sub by (simp add: gs)
  have c: "clean_list (hs @ [''.ti'', sub])" "clean_list (hs @ [''.ti'', sub, encode_key (normalized_profile p), encode_key (key n)])"
    using h(2,4) sub by simp_all
  show "good_path d" unfolding h(5) by (rule good_path_abs [OF c(2)]) simp
  show "in_tree (path_join [hdir, ''.ti'', sub]) d" using in_tree_abs [OF c(1) _ c(2)] by (simp add: j h(5))
  show "d \<noteq> path_join [hdir, ''.ti'', sub]" using abs_path_inj [OF c] by (auto simp: j h(5))
qed

lemma separate:
  assumes "good_path hdir" "dir hdir p n = Inr d" "dir hdir p' n' = Inr d'" "in_tree d d'"
  shows "normalized_profile p = normalized_profile p' \<and> key n = key n'"
proof -
  obtain hs where h: "hs \<noteq> []" "clean_list hs" "hdir = abs_path hs" "key n \<noteq> []"
    "d = abs_path (hs @ [''.ti'', sub, encode_key (normalized_profile p), encode_key (key n)])" using assms(1,2) by (rule comps)
  obtain gs where g: "gs \<noteq> []" "clean_list gs" "hdir = abs_path gs" "key n' \<noteq> []"
    "d' = abs_path (gs @ [''.ti'', sub, encode_key (normalized_profile p'), encode_key (key n')])" using assms(1,3) by (rule comps)
  have "gs = hs" using abs_path_inj [OF g(2) h(2)] g(3) h(3) by simp
  then show ?thesis
    using assms(4) h(1,2,4) g(4) sub
    by (subst (asm) h(5), subst (asm) g(5), subst (asm) in_tree_abs) (auto simp: encode_key_inj)
qed

end

lemma profile_dir_join: "good_path hdir \<Longrightarrow> clean_comp c \<Longrightarrow>
    path_join [path_join [hdir, ''.ti'', c, encode_key (normalized_profile p)], encode_key n]
      = path_join [hdir, ''.ti'', c, encode_key (normalized_profile p), encode_key n]" if "n \<noteq> []"
  using join_again [of hdir "[''.ti'', c, encode_key (normalized_profile p)]" "[encode_key n]"] that by simp

interpretation resources: keyed_dirs resource_dir "''fs_resources''" trim_space
proof
  fix hdir p n d assume "good_path hdir" "resource_dir hdir p n = Inr d"
  then show "trim_space n \<noteq> [] \<and> d = path_join [hdir, ''.ti'', ''fs_resources'', encode_key (normalized_profile p), encode_key (trim_space n)]"
    by (auto simp: resource_dir_def profile_dir_def profile_dir_join Let_def split: if_splits)
qed simp

interpretation companion: keyed_dirs companion_home "''drive9-home''" trim_space
proof
  fix hdir p n d assume "good_path hdir" "companion_home hdir p n = Inr d"
  then show "trim_space n \<noteq> [] \<and> d = path_join [hdir, ''.ti'', ''drive9-home'', encode_key (normalized_profile p), encode_key (trim_space n)]"
    by (auto simp: companion_home_def encode_key_def Let_def split: if_splits)
qed simp

section \<open>Effects on the files\<close>

lemma make_private_dirs_files:
  "make_private_dirs v s ds = (s', r) \<Longrightarrow> all_states P s s' \<longleftrightarrow> P (hm_files s)"
  "make_private_dirs v s ds = (s', r) \<Longrightarrow> hm_files s' = hm_files s"
proof -
  have "(P (hm_files s) \<longrightarrow> all_states P s s') \<and> hm_files s' = hm_files s"
    if "make_private_dirs v s ds = (s', r)" for P s s'
    using that
  proof (induction v s ds arbitrary: s' r rule: make_private_dirs.induct)
    case (1 v s)
    then show ?case by (auto intro: all_states_refl)
  next
    case (2 v s d ds)
    obtain s1 e where m: "hm_mkdir_all v s d = (s1, e)" by force
    obtain s2 g where c: "hm_call v s1 = (s2, g)" by force
    have f: "hm_files s1 = hm_files s" "hm_files s2 = hm_files s"
      using hm_mkdir_all_files [OF m] hm_call_files [OF c] by simp_all
    have a: "all_states P s s1" "all_states P s s2" if "P (hm_files s)"
      using hm_mkdir_all_states [OF m, of P] hm_call_states [OF c, of P] that f all_states_trans [of P s s1 s2] by simp_all
    consider (stop) "s' \<in> {s1, s2}" | (go) "e = None" "g = None" "make_private_dirs v s2 ds = (s', r)"
      using 2(2) by (auto simp: m c split: option.splits)
    then show ?case
    proof cases
      case go
      note ih = 2(1) [OF m [symmetric, unfolded go(1)] refl c [symmetric, unfolded go(2)] refl go(3)]
      show ?thesis using ih a f all_states_trans [OF a(2)] by auto
    qed (use a f in auto)
  qed
  then show "make_private_dirs v s ds = (s', r) \<Longrightarrow> all_states P s s' \<longleftrightarrow> P (hm_files s)"
    "make_private_dirs v s ds = (s', r) \<Longrightarrow> hm_files s' = hm_files s"
    by (auto simp: all_states_def) (metis all_states_end all_states_def)
qed

lemma restrict_mode_states:
  assumes "restrict_mode v s p = (s', r)"
  shows "all_states (restricted (hm_files s) p) s s'"
    "hm_files s p = Some x \<Longrightarrow> owner_only (hf_mode x) \<Longrightarrow> hm_files s' = hm_files s"
    "hm_files s p = Some x \<Longrightarrow> (\<And>n. he_fail v n = None) \<Longrightarrow> r = None"
proof -
  obtain s1 m where st: "hm_stat v s p = (s1, m)" by force
  obtain s2 e where ch: "hm_chmod v s1 p 384 = (s2, e)" by force
  have f1: "hm_files s1 = hm_files s" using st by (auto simp: hm_stat_def)
  have a1: "all_states (restricted (hm_files s) p) s s1"
    using st by (auto simp: hm_stat_def restricted_def intro: all_states_step)
  have a2: "all_states (restricted (hm_files s) p) s1 s2"
    using ch unfolding hm_chmod_def by (rule hm_on_file_states) (auto simp: f1 restricted_def)
  show "all_states (restricted (hm_files s) p) s s'"
    using assms a1 all_states_trans [OF a1 a2] by (auto simp: restrict_mode_def st ch split: sum.splits if_splits)
  show "hm_files s' = hm_files s" if "hm_files s p = Some x" "owner_only (hf_mode x)"
    using assms st that f1 by (auto simp: restrict_mode_def hm_stat_def owner_only_def split: sum.splits option.splits if_splits)
  show "r = None" if "hm_files s p = Some x" "\<And>n. he_fail v n = None"
    using assms that by (auto simp: restrict_mode_def hm_stat_def hm_chmod_def hm_on_file_def split: if_splits)
qed

lemma restricted_data: "restricted f0 p f \<Longrightarrow> map_option hf_data (f q) = map_option hf_data (f0 q)"
  by (auto simp: restricted_def)

end
