(* ===== verification/Fs_Credentials.thy ===== *)
theory Fs_Credentials
  imports Fs_Registry
begin

text \<open>
  The local tokens of file systems by identifier below \<open>~/.ti/fs_credentials\<close>
  (\<open>fs/fscred/credential.go\<close>): storing, reading, listing and deleting them, recovery files, the
  resolution of the credential a command uses, the identifier inside a token, the migration of
  the registry by name, and the lock file of a credential as a step relation of its users.
\<close>

section \<open>Identifiers\<close>

definition missing_file_system_id :: go_error where
  "missing_file_system_id = app_new ''fs.missing_file_system_id'' ''usage'' 2
     (Lit ''file system ID is required; pass --file-system-id, set TI_FS_FILE_SYSTEM_ID, or supply an FS token'')"

definition invalid_id :: "string \<Rightarrow> go_error" where
  "invalid_id m = app_new ''fs.invalid_file_system_id'' ''usage'' 2 (Lit m)"

text \<open>A character outside ASCII is neither a space nor a control character here, so the loop over
  the characters is one over the bytes.\<close>

definition validate_file_system_id :: "string \<Rightarrow> go_error + string" where
  "validate_file_system_id value =
     (let n = trim_space value in
      if n = [] then Inl (app_new ''fs.missing_file_system_id'' ''usage'' 2 (Lit ''file system ID is required''))
      else if length n > 128 \<or> contains_any n [CHR ''/'', CHR 0x5C] then
        Inl (invalid_id ''file system ID must be 1-128 characters and must not contain path separators'')
      else if list_ex (\<lambda>c. byte_of c < 33 \<or> byte_of c = 127) n then
        Inl (invalid_id ''file system ID must not contain whitespace or control characters'')
      else Inr n)"

definition invalid_token :: "string \<Rightarrow> go_error" where
  "invalid_token m = app_new ''fs.invalid_token'' ''authentication'' 3 (Lit m)"

definition wrap_invalid_token :: "string \<Rightarrow> go_error \<Rightarrow> go_error" where
  "wrap_invalid_token m e = app_wrap ''fs.invalid_token'' ''authentication'' 3 (Lit m) e"

definition corrupt_input :: go_error where
  "corrupt_input = Msg (Lit ''illegal base64 data'')"

text \<open>The text after the first prefix of the token that is known.\<close>

definition unwrap_token :: "string \<Rightarrow> string option" where
  "unwrap_token raw =
     (if has_prefix raw ''drive9_'' then Some (trim_prefix raw ''drive9_'')
      else if has_prefix raw ''dat9_'' then Some (trim_prefix raw ''dat9_'') else None)"

definition file_system_id_from_token :: "cred_lib \<Rightarrow> string \<Rightarrow> go_error + string" where
  "file_system_id_from_token cl raw0 =
     (case unwrap_token (trim_space raw0) of
        None \<Rightarrow> Inl (invalid_token ''invalid FS token format'')
      | Some wrapped \<Rightarrow>
        (case decode_string wrapped of
           None \<Rightarrow> Inl (wrap_invalid_token ''invalid FS token wrapper'' corrupt_input)
         | Some jwt \<Rightarrow>
           (case split_on (CHR ''.'') jwt of
              [h, body, sig] \<Rightarrow>
                (case decode_string body of
                   None \<Rightarrow> Inl (wrap_invalid_token ''invalid FS token JWT payload'' corrupt_input)
                 | Some payload \<Rightarrow>
                   (case cl_tenant cl payload of
                      Inl e \<Rightarrow> Inl (wrap_invalid_token ''invalid FS token JWT claims'' e)
                    | Inr tenant \<Rightarrow>
                      if trim_space tenant = [] then Inl (invalid_token ''invalid FS token JWT claims: tenant_id is missing'')
                      else (case validate_file_system_id tenant of
                          Inl e \<Rightarrow> Inl (wrap_invalid_token ''invalid FS token JWT tenant_id'' e)
                        | Inr n \<Rightarrow> Inr n)))
            | _ \<Rightarrow> Inl (invalid_token ''invalid FS token JWT structure''))))"

definition credential_error :: "string \<Rightarrow> string \<Rightarrow> string \<Rightarrow> string \<Rightarrow> go_error" where
  "credential_error code profile_name fs_id detail =
     (let m = Fmt ''%s for profile %q'' [Lit detail, Lit (normalized_profile profile_name)] in
      app_new code ''config'' 2
        (if trim_space fs_id \<noteq> [] then Fmt ''%s and file system ID %q'' [m, Lit (trim_space fs_id)] else m))"

definition credential_profile_dir :: "string \<Rightarrow> string \<Rightarrow> string" where
  "credential_profile_dir hdir profile_name =
     path_join [hdir, ''.ti'', ''fs_credentials'', encode_key (normalized_profile profile_name)]"

definition credential_dir :: "string \<Rightarrow> string \<Rightarrow> string \<Rightarrow> go_error + string" where
  "credential_dir hdir profile_name fs_id =
     bind_result (validate_file_system_id fs_id) (\<lambda>n. Inr (path_join [credential_profile_dir hdir profile_name, encode_key n]))"

definition credential_path :: "string \<Rightarrow> string \<Rightarrow> string \<Rightarrow> go_error + string" where
  "credential_path hdir profile_name fs_id =
     bind_result (credential_dir hdir profile_name fs_id) (\<lambda>d. Inr (path_join [d, ''credentials'']))"

definition ensure_credential_dirs :: "home_env \<Rightarrow> home \<Rightarrow> string \<Rightarrow> string \<Rightarrow> string \<Rightarrow> home \<times> go_error option" where
  "ensure_credential_dirs v s hdir profile_name fs_id =
     (case credential_dir hdir profile_name fs_id of
        Inl e \<Rightarrow> (s, Some e)
      | Inr d \<Rightarrow> make_private_dirs v s [path_join [hdir, ''.ti'', ''fs_credentials''], credential_profile_dir hdir profile_name, d])"

section \<open>Reading\<close>

definition check_credential :: "cred_lib \<Rightarrow> string \<Rightarrow> string \<Rightarrow> string \<Rightarrow> go_error + credential" where
  "check_credential cl profile_name n data =
     (let bad = (\<lambda>d. Inl (credential_error ''fs.credential_incomplete'' profile_name n d)) in
      case cl_credential cl data of
        Inl _ \<Rightarrow> bad ''cannot parse local credentials''
      | Inr c \<Rightarrow>
        if cr_id c \<noteq> n \<or> trim_space (cr_api_key c) = [] then bad ''local credentials are incomplete''
        else case parse_placement_code (cr_region c) of
          Inl _ \<Rightarrow> bad ''stored region_code is invalid''
        | Inr q \<Rightarrow> Inr (c\<lparr>cr_region := pl_code q, cr_api_key := trim_space (cr_api_key c), cr_local := True\<rparr>))"

definition get_credential :: "cred_lib \<Rightarrow> home_env \<Rightarrow> home \<Rightarrow> string \<Rightarrow> string \<Rightarrow> string \<Rightarrow> home \<times> (go_error + credential)" where
  "get_credential cl v s hdir profile_name fs_id =
     (case validate_file_system_id fs_id of
        Inl e \<Rightarrow> (s, Inl e)
      | Inr n \<Rightarrow>
        (case credential_path hdir profile_name n of
           Inl e \<Rightarrow> (s, Inl e)
         | Inr p \<Rightarrow>
           (case hm_read v s p of
              (s1, Inl e) \<Rightarrow> (s1, Inl (if errors_is e Err_Not_Exist
                 then credential_error ''fs.credential_not_found'' profile_name n ''local FS credentials are not configured'' else e))
            | (s1, Inr data) \<Rightarrow>
              (case restrict_mode v s1 p of
                 (s2, Some _) \<Rightarrow> (s2, Inl (credential_error ''fs.credential_incomplete'' profile_name n ''cannot restrict credential permissions''))
               | (s2, None) \<Rightarrow> (s2, check_credential cl profile_name n data)))))"

text \<open>Whether a directory holds a file or a directory.\<close>

definition holds_something :: "home \<Rightarrow> string \<Rightarrow> bool" where
  "holds_something s d \<longleftrightarrow> list_ex (\<lambda>p. p \<noteq> d \<and> in_tree d p) (hm_dirs s) \<or> (\<exists>n. hm_files s (d @ ''/'' @ n) \<noteq> None)"

text \<open>The loop of \<open>ListCredentials\<close>: an empty directory is passed over, everything else that is
  wrong ends it.\<close>

fun list_credential_entries ::
  "cred_lib \<Rightarrow> home_env \<Rightarrow> home \<Rightarrow> string \<Rightarrow> string \<Rightarrow> string list \<Rightarrow> home \<times> (go_error + credential list)" where
  "list_credential_entries cl v s hdir profile_name [] = (s, Inr [])"
| "list_credential_entries cl v s hdir profile_name (k # ks) =
     (case decode_key k of
        None \<Rightarrow> (s, Inl (credential_error ''fs.credential_incomplete'' profile_name k ''invalid credential directory''))
      | Some n \<Rightarrow>
        (case get_credential cl v s hdir profile_name n of
           (s1, Inr c) \<Rightarrow>
             (case list_credential_entries cl v s1 hdir profile_name ks of
                (s2, Inl e) \<Rightarrow> (s2, Inl e)
              | (s2, Inr cs) \<Rightarrow> (s2, Inr (c # cs)))
         | (s1, Inl e) \<Rightarrow>
             if code_for (Some e) = ''fs.credential_not_found'' then
               (let d = path_join [credential_profile_dir hdir profile_name, k];
                    s2 = hm_step s1 (hm_files s1)
                in if he_fail v (hm_steps s1) = None \<and> \<not> holds_something s1 d
                   then list_credential_entries cl v s2 hdir profile_name ks else (s2, Inl e))
             else (s1, Inl e)))"

definition list_credentials :: "cred_lib \<Rightarrow> home_env \<Rightarrow> home \<Rightarrow> string \<Rightarrow> string \<Rightarrow> home \<times> (go_error + credential list)" where
  "list_credentials cl v s hdir profile_name =
     (case hm_read_dir v s (credential_profile_dir hdir profile_name) of
        (s1, Inl e) \<Rightarrow> (s1, if errors_is e Err_Not_Exist then Inr [] else Inl e)
      | (s1, Inr ks) \<Rightarrow> list_credential_entries cl v s1 hdir profile_name ks)"

section \<open>Storing and deleting\<close>

definition normalize_stored_scopes :: "token_scope list \<Rightarrow> token_scope list" where
  "normalize_stored_scopes scopes = map (\<lambda>x. x\<lparr>ts_prefix := trim_space (ts_prefix x)\<rparr>) scopes"

definition credentials_equal :: "credential \<Rightarrow> credential \<Rightarrow> bool" where
  "credentials_equal a b \<longleftrightarrow>
     cr_id a = cr_id b \<and> cr_region a = cr_region b \<and> cr_api_key a = cr_api_key b \<and> cr_token_id a = cr_token_id b
   \<and> cr_scope_kind a = cr_scope_kind b \<and> cr_token_name a = cr_token_name b \<and> cr_scopes a = cr_scopes b
   \<and> cr_expires a = cr_expires b"

text \<open>The credential as it is stored.\<close>

definition normal_credential :: "credential \<Rightarrow> string \<Rightarrow> placement \<Rightarrow> credential" where
  "normal_credential c n q =
     c\<lparr>cr_id := n, cr_region := pl_code q, cr_local := True, cr_api_key := trim_space (cr_api_key c),
       cr_token_id := trim_space (cr_token_id c), cr_scope_kind := trim_space (cr_scope_kind c),
       cr_token_name := trim_space (cr_token_name c), cr_scopes := normalize_stored_scopes (cr_scopes c)\<rparr>"

definition missing_token :: go_error where
  "missing_token = app_new ''fs.missing_token'' ''authentication'' 3 (Lit ''authentication required: missing FS token'')"

text \<open>Writing the credential and reading it again.\<close>

definition write_credential ::
  "cred_lib \<Rightarrow> home_env \<Rightarrow> home \<Rightarrow> string \<Rightarrow> string \<Rightarrow> string \<Rightarrow> credential \<Rightarrow> home \<times> (go_error + credential)" where
  "write_credential cl v s hdir profile_name n c =
     (case credential_dir hdir profile_name n of
        Inl e \<Rightarrow> (s, Inl e)
      | Inr dir \<Rightarrow>
        (case ensure_credential_dirs v s hdir profile_name n of
           (s1, Some e) \<Rightarrow> (s1, Inl (Wrapf (Fmt ''create ti fs credential directory: %w'' [error_text e]) e))
         | (s1, None) \<Rightarrow>
           (case write_doc (cl_put_credential cl c) v s1 (path_join [dir, ''credentials'']) 384 of
              (s2, Some e) \<Rightarrow> (s2, Inl e)
            | (s2, None) \<Rightarrow>
              (case get_credential cl v s2 hdir profile_name n of
                 (s3, Inl e) \<Rightarrow> (s3, Inl e)
               | (s3, Inr stored) \<Rightarrow>
                 (s3, if cr_region stored \<noteq> cr_region c \<or> cr_api_key stored \<noteq> cr_api_key c
                      then Inl (credential_error ''fs.credential_store_failed'' profile_name n ''stored credential verification failed'')
                      else Inr stored)))))"

definition store_credential_record ::
  "cred_lib \<Rightarrow> home_env \<Rightarrow> home \<Rightarrow> string \<Rightarrow> profile option \<Rightarrow> credential \<Rightarrow> bool \<Rightarrow> home \<times> (go_error + credential)" where
  "store_credential_record cl v s hdir profile c0 replace =
     (case profile of None \<Rightarrow> (s, Inl missing_profile) | Some p \<Rightarrow>
      case validate_file_system_id (cr_id c0) of
        Inl e \<Rightarrow> (s, Inl e)
      | Inr n \<Rightarrow>
        if trim_space (cr_api_key c0) = [] then (s, Inl missing_token)
        else case parse_placement (first_set [cr_region c0, pf_placement p]) of
          Inl e \<Rightarrow> (s, Inl e)
        | Inr q \<Rightarrow>
          (let c = normal_credential c0 n q in
           case get_credential cl v s hdir (pf_name p) n of
             (s1, Inr old) \<Rightarrow>
               if credentials_equal old c then (s1, Inr old)
               else if \<not> replace then (s1, Inl (credential_error ''fs.credential_import_conflict'' (pf_name p) n
                 ''a different local token or region is already stored''))
               else write_credential cl v s1 hdir (pf_name p) n c
           | (s1, Inl e) \<Rightarrow>
               if code_for (Some e) \<noteq> ''fs.credential_not_found'' then (s1, Inl e)
               else write_credential cl v s1 hdir (pf_name p) n c))"

definition plain_credential :: "string \<Rightarrow> string \<Rightarrow> string \<Rightarrow> credential" where
  "plain_credential n region key = \<lparr>cr_id = n, cr_region = region, cr_local = False, cr_api_key = key, cr_token_id = [],
     cr_scope_kind = [], cr_token_name = [], cr_expires = None, cr_scopes = []\<rparr>"

definition store_credential ::
  "cred_lib \<Rightarrow> home_env \<Rightarrow> home \<Rightarrow> string \<Rightarrow> profile option \<Rightarrow> string \<Rightarrow> string \<Rightarrow> string \<Rightarrow> bool \<Rightarrow> home \<times> (go_error + credential)" where
  "store_credential cl v s hdir profile fs_id region key replace =
     store_credential_record cl v s hdir profile (plain_credential fs_id region key) replace"

definition delete_credential :: "cred_lib \<Rightarrow> home_env \<Rightarrow> home \<Rightarrow> string \<Rightarrow> string \<Rightarrow> string \<Rightarrow> home \<times> (go_error + bool)" where
  "delete_credential cl v s hdir profile_name fs_id =
     (case get_credential cl v s hdir profile_name fs_id of
        (s1, Inl e) \<Rightarrow> (s1, if code_for (Some e) = ''fs.credential_not_found'' then Inr False else Inl e)
      | (s1, Inr _) \<Rightarrow>
        (case credential_dir hdir profile_name fs_id of
           Inl e \<Rightarrow> (s1, Inl e)
         | Inr d \<Rightarrow>
           (case hm_remove_all v s1 d of
              (s2, Some e) \<Rightarrow> (s2, Inl e)
            | (s2, None) \<Rightarrow> (s2, Inr True))))"

definition delete_credential_if_token_id ::
  "cred_lib \<Rightarrow> home_env \<Rightarrow> home \<Rightarrow> string \<Rightarrow> string \<Rightarrow> string \<Rightarrow> string \<Rightarrow> home \<times> (go_error + bool \<times> string)" where
  "delete_credential_if_token_id cl v s hdir profile_name fs_id token_id =
     (case get_credential cl v s hdir profile_name fs_id of
        (s1, Inl e) \<Rightarrow> (s1, if code_for (Some e) = ''fs.credential_not_found'' then Inr (False, ''local_credentials_not_found'') else Inl e)
      | (s1, Inr c) \<Rightarrow>
        if cr_token_id c = [] then (s1, Inr (False, ''local_token_id_unknown''))
        else if cr_token_id c \<noteq> trim_space token_id then (s1, Inr (False, ''local_token_id_mismatch''))
        else (case delete_credential cl v s1 hdir profile_name fs_id of
            (s2, Inl e) \<Rightarrow> (s2, Inl e)
          | (s2, Inr removed) \<Rightarrow> (s2, Inr (removed, []))))"

section \<open>Recovery files and probes\<close>

definition write_recovery_credential ::
  "cred_lib \<Rightarrow> home_env \<Rightarrow> home \<Rightarrow> string \<Rightarrow> string \<Rightarrow> credential \<Rightarrow> home \<times> (go_error + string)" where
  "write_recovery_credential cl v s hdir profile_name c =
     (case credential_dir hdir profile_name (cr_id c) of
        Inl e \<Rightarrow> (s, Inl e)
      | Inr dir \<Rightarrow>
        (case hm_mkdir_all v s dir of
           (s1, Some e) \<Rightarrow> (s1, Inl e)
         | (s1, None) \<Rightarrow>
           (let p = path_join [dir, ''.credentials.recovery''] in
            case write_doc (cl_put_credential cl c) v s1 p 384 of
              (s2, Some e) \<Rightarrow> (s2, Inl e)
            | (s2, None) \<Rightarrow> (s2, Inr p))))"

definition commit_recovery_credential ::
  "home_env \<Rightarrow> home \<Rightarrow> string \<Rightarrow> string \<Rightarrow> string \<Rightarrow> string \<Rightarrow> home \<times> go_error option" where
  "commit_recovery_credential v s hdir profile_name fs_id recovery_path =
     (case credential_path hdir profile_name fs_id of
        Inl e \<Rightarrow> (s, Some e)
      | Inr p \<Rightarrow>
        if path_dir p \<noteq> path_dir recovery_path then
          (s, Some (credential_error ''fs.credential_store_failed'' profile_name fs_id ''recovery file is outside the credential directory''))
        else (case hm_rename v s recovery_path p of
            (s1, Some e) \<Rightarrow> (s1, Some e)
          | (s1, None) \<Rightarrow> hm_chmod v s1 p 384))"

fun prepare_dirs :: "home_env \<Rightarrow> home \<Rightarrow> string list \<Rightarrow> home \<times> go_error option" where
  "prepare_dirs v s [] = (s, None)"
| "prepare_dirs v s (d # ds) =
     (case hm_mkdir_all v s d of
        (s1, Some e) \<Rightarrow> (s1, Some (Wrapf (Fmt ''prepare ti fs credential directory: %w'' [error_text e]) e))
      | (s1, None) \<Rightarrow>
        (case hm_call v s1 of
           (s2, Some e) \<Rightarrow> (s2, Some (Wrapf (Fmt ''restrict ti fs credential directory: %w'' [error_text e]) e))
         | (s2, None) \<Rightarrow> prepare_dirs v s2 ds))"

definition prepare_credential_store :: "home_env \<Rightarrow> home \<Rightarrow> string \<Rightarrow> string \<Rightarrow> home \<times> go_error option" where
  "prepare_credential_store v s hdir profile_name =
     (let pd = credential_profile_dir hdir profile_name;
          unwritable = (\<lambda>e. Wrapf (Fmt ''verify ti fs credential directory is writable: %w'' [error_text e]) e)
      in case prepare_dirs v s [path_join [hdir, ''.ti'', ''fs_credentials''], pd] of
        (s1, Some e) \<Rightarrow> (s1, Some e)
      | (s1, None) \<Rightarrow>
        (case hm_create_temp v s1 pd ''.write-probe-'' of
           (s2, Inl e) \<Rightarrow> (s2, Some (unwritable e))
         | (s2, Inr t) \<Rightarrow>
           (case hm_call v s2 of
              (s3, Some e) \<Rightarrow> (fst (hm_remove v s3 t), Some (unwritable e))
            | (s3, None) \<Rightarrow>
              (case hm_remove v s3 t of
                 (s4, Some e) \<Rightarrow> (s4, Some (Wrapf (Fmt ''remove ti fs credential write probe: %w'' [error_text e]) e))
               | (s4, None) \<Rightarrow> (s4, None)))))"

definition prepare_credential_target :: "home_env \<Rightarrow> home \<Rightarrow> string \<Rightarrow> string \<Rightarrow> string \<Rightarrow> home \<times> go_error option" where
  "prepare_credential_target v s hdir profile_name fs_id =
     (case prepare_credential_store v s hdir profile_name of
        (s1, Some e) \<Rightarrow> (s1, Some e)
      | (s1, None) \<Rightarrow>
        (case credential_dir hdir profile_name fs_id of
           Inl e \<Rightarrow> (s1, Some e)
         | Inr dir \<Rightarrow>
           (case prepare_dirs v s1 [dir] of
              (s2, Some e) \<Rightarrow> (s2, Some e)
            | (s2, None) \<Rightarrow>
              (case hm_create_temp v s2 dir ''.credential-write-probe-'' of
                 (s3, Inl e) \<Rightarrow> (s3, Some (Wrapf (Fmt ''verify ti fs credential target is writable: %w'' [error_text e]) e))
               | (s3, Inr t) \<Rightarrow>
                 (let cleanup = (\<lambda>s r. (fst (hm_remove v s t), r)) in
                  case hm_chmod v s3 t 384 of
                    (s4, Some e) \<Rightarrow> cleanup (fst (hm_call v s4)) (Some e)
                  | (s4, None) \<Rightarrow>
                    (case hm_call v s4 of
                       (s5, Some e) \<Rightarrow> cleanup (fst (hm_call v s5)) (Some e)
                     | (s5, None) \<Rightarrow> (case hm_call v s5 of (s6, r) \<Rightarrow> cleanup s6 r)))))))"

section \<open>The credential of a command\<close>

record credential_options =
  co_id :: string
  co_id_explicit :: bool
  co_token :: string
  co_token_explicit :: bool
  co_region :: string
  co_token_required :: bool
  co_env :: environment
  co_dry_run :: bool

definition empty_id :: go_error where
  "empty_id = app_new ''fs.empty_file_system_id'' ''usage'' 2 (Lit ''--file-system-id cannot be empty'')"

definition missing_api_key :: "string \<Rightarrow> go_error" where
  "missing_api_key n = app_new ''auth.missing_fs_api_key'' ''authentication'' 3
     (Fmt ''authentication required: no local FS token is stored for file system %q; pass --fs-token, set TI_FS_TOKEN, or import a known token with `ti fs import-file-system-token`. Token regeneration is not available yet''
       [Lit n])"

definition missing_region_for_id :: go_error where
  "missing_region_for_id = app_new ''fs.missing_region'' ''config'' 2 (Lit
     ''ti fs region is required; pass --region, set TI_REGION_CODE, or use locally stored credentials with region_code'')"

text \<open>The identifier and the token of the flags and the environment; a token decides the
  identifier or must agree with it.\<close>

definition id_and_token :: "cred_lib \<Rightarrow> credential_options \<Rightarrow> go_error + string \<times> string" where
  "id_and_token cl opt =
     bind_result (flag_or_env (co_id opt) (co_id_explicit opt) empty_id (co_env opt) ''TI_FS_FILE_SYSTEM_ID'') (\<lambda>n0.
     bind_result (flag_or_env (co_token opt) (co_token_explicit opt) empty_token (co_env opt) ''TI_FS_TOKEN'') (\<lambda>token.
       bind_result
         (if token = [] then Inr n0
          else bind_result (file_system_id_from_token cl token) (\<lambda>t.
            if n0 = [] then Inr t
            else if n0 \<noteq> t then Inl (app_new ''fs.token_file_system_mismatch'' ''authentication'' 3
              (Fmt ''FS token belongs to file system %q, not %q'' [Lit t, Lit n0]))
            else Inr n0))
         (\<lambda>n. if n = [] then Inl missing_file_system_id else Inr (n, token))))"

definition stored_plain :: "string \<Rightarrow> string \<Rightarrow> string \<Rightarrow> credential" where
  "stored_plain n region key = (plain_credential n region key)\<lparr>cr_local := True\<rparr>"

text \<open>What is stored for the file system; in a dry run also what the migrations would store.\<close>

definition find_credential ::
  "cred_lib \<Rightarrow> home_env \<Rightarrow> home \<Rightarrow> string \<Rightarrow> profile \<Rightarrow> bool \<Rightarrow> string \<Rightarrow> string \<Rightarrow> home \<times> (go_error + credential option)" where
  "find_credential cl v s hdir p dry_run n token =
     (case (if \<not> dry_run \<or> token = [] then
              (case get_credential cl v s hdir (pf_name p) n of
                 (s1, Inr c) \<Rightarrow> (s1, Inr (Some c))
               | (s1, Inl e) \<Rightarrow> (s1, if code_for (Some e) = ''fs.credential_not_found'' then Inr None else Inl e))
            else (s, Inr None)) of
        (s1, Inr None) \<Rightarrow>
          if \<not> dry_run then (s1, Inr None)
          else (let l = legacy_resource p in
            if rs_tenant l = n \<and> rs_api_key l \<noteq> [] then (s1, Inr (Some (stored_plain n (rs_region l) (rs_api_key l))))
            else (case list_resources cl v s1 hdir (pf_name p) of
                (s2, Inl _) \<Rightarrow> (s2, Inr None)
              | (s2, Inr rs) \<Rightarrow> (s2, Inr (map_option (\<lambda>r. stored_plain n (rs_region r) (rs_api_key r))
                  (find (\<lambda>r. rs_tenant r = n) rs)))))
      | x \<Rightarrow> x)"

text \<open>The region the command runs in, and whether it is the one of the stored credential.\<close>

definition credential_placement :: "credential_options \<Rightarrow> profile \<Rightarrow> string \<Rightarrow> credential option \<Rightarrow> go_error + placement" where
  "credential_placement opt p n found =
     (let own = (case found of None \<Rightarrow> [] | Some c \<Rightarrow> cr_region c);
          code = (if trim_space (co_region opt) \<noteq> [] then trim_space (co_region opt)
                  else if own \<noteq> [] then own else trim_space (pf_placement p))
      in if code = [] then Inl missing_region_for_id
         else bind_result (parse_placement code) (\<lambda>q.
           case found of
             None \<Rightarrow> Inr q
           | Some c \<Rightarrow> bind_result (parse_placement (cr_region c)) (\<lambda>stored.
               if pl_code stored \<noteq> pl_code q then Inl (app_new ''fs.credential_region_mismatch'' ''config'' 2
                 (Fmt ''file system %q credentials are for %s, not %s'' [Lit n, Lit (pl_code stored), Lit (pl_code q)]))
               else Inr q)))"

definition resolve_credential ::
  "cred_lib \<Rightarrow> home_env \<Rightarrow> home \<Rightarrow> string \<Rightarrow> profile option \<Rightarrow> credential_options \<Rightarrow> home \<times> (go_error + profile \<times> credential)" where
  "resolve_credential cl v s hdir profile opt =
     (case profile of None \<Rightarrow> (s, Inl missing_profile) | Some p \<Rightarrow>
      case id_and_token cl opt of
        Inl e \<Rightarrow> (s, Inl e)
      | Inr (n, token0) \<Rightarrow>
        (case find_credential cl v s hdir p (co_dry_run opt) n token0 of
           (s1, Inl e) \<Rightarrow> (s1, Inl e)
         | (s1, Inr found) \<Rightarrow>
           (s1,
            let token = (case found of Some c \<Rightarrow> if token0 = [] then cr_api_key c else token0 | None \<Rightarrow> token0) in
            if co_token_required opt \<and> token = [] then Inl (missing_api_key n)
            else bind_result (credential_placement opt p n found) (\<lambda>q.
              let c = (case found of Some c \<Rightarrow> c | None \<Rightarrow> plain_credential [] [] []);
                  chosen = p\<lparr>pf_fs_name := n, pf_fs_tenant := n, pf_fs_placement := pl_code q, pf_fs_provider := pl_provider q,
                    pf_fs_region := pl_native q, pf_fs_api_key := token\<rparr>
              in Inr (if found \<noteq> None \<and> token = cr_api_key c
                      then chosen\<lparr>pf_fs_token_id := cr_token_id c, pf_fs_scope_kind := cr_scope_kind c, pf_fs_token_name := cr_token_name c\<rparr>
                      else chosen,
                      c\<lparr>cr_id := n, cr_region := pl_code q, cr_api_key := token, cr_local := token \<noteq> []\<rparr>)))))"

section \<open>Migrating the registry by name\<close>

definition migration_state_path :: "string \<Rightarrow> string \<Rightarrow> string" where
  "migration_state_path hdir profile_name = path_join [credential_profile_dir hdir profile_name, ''.legacy-name-registry-migration'']"

fun valid_ids :: "string list \<Rightarrow> string list option" where
  "valid_ids [] = Some []"
| "valid_ids (x # xs) =
     (case validate_file_system_id x of Inl _ \<Rightarrow> None | Inr n \<Rightarrow> map_option (List.insert n) (valid_ids xs))"

definition load_migration_state :: "cred_lib \<Rightarrow> home_env \<Rightarrow> home \<Rightarrow> string \<Rightarrow> string \<Rightarrow> home \<times> (go_error + string list)" where
  "load_migration_state cl v s hdir profile_name =
     (let invalid = (\<lambda>m. Inl (credential_error ''fs.credential_migration_state_invalid'' profile_name [] m)) in
      case hm_read v s (migration_state_path hdir profile_name) of
        (s1, Inl e) \<Rightarrow> (s1, if errors_is e Err_Not_Exist then Inr [] else Inl e)
      | (s1, Inr data) \<Rightarrow>
        (s1, case cl_state cl data of
               Inl _ \<Rightarrow> invalid ''cannot parse the legacy registry migration state''
             | Inr (version, ids) \<Rightarrow>
               if version \<noteq> 1 then invalid ''cannot parse the legacy registry migration state''
               else (case valid_ids ids of
                   None \<Rightarrow> invalid ''legacy registry migration state contains an invalid file system ID''
                 | Some ns \<Rightarrow> Inr ns)))"

definition write_migration_state :: "cred_lib \<Rightarrow> home_env \<Rightarrow> home \<Rightarrow> string \<Rightarrow> string \<Rightarrow> string list \<Rightarrow> home \<times> go_error option" where
  "write_migration_state cl v s hdir profile_name migrated =
     (case write_doc (cl_put_state cl (1, sort migrated)) v s (migration_state_path hdir profile_name) 384 of
        (s1, Some _) \<Rightarrow> (s1, Some (credential_error ''fs.credential_migration_failed'' profile_name []
          ''cannot write the legacy registry migration state''))
      | (s1, None) \<Rightarrow> (s1, None))"

definition migration_conflict :: "string \<Rightarrow> string \<Rightarrow> string \<Rightarrow> go_error" where
  "migration_conflict profile_name n m = credential_error ''fs.credential_migration_conflict'' profile_name n m"

text \<open>One credential per identifier; the last of several that agree is kept.\<close>

fun migration_candidates :: "string \<Rightarrow> resource list \<Rightarrow> (string \<times> credential) list \<Rightarrow> go_error + (string \<times> credential) list" where
  "migration_candidates profile_name [] acc = Inr acc"
| "migration_candidates profile_name (r # rs) acc =
     (let c = plain_credential (rs_tenant r) (rs_region r) (rs_api_key r) in
      case map_of acc (rs_tenant r) of
        Some d \<Rightarrow>
          if cr_region d \<noteq> cr_region c \<or> cr_api_key d \<noteq> cr_api_key c
          then Inl (migration_conflict profile_name (rs_tenant r) ''legacy names contain conflicting credentials for the same file system ID'')
          else migration_candidates profile_name rs (AList.update (rs_tenant r) c acc)
      | None \<Rightarrow> migration_candidates profile_name rs (AList.update (rs_tenant r) c acc))"

definition id_conflict :: "string \<Rightarrow> string \<Rightarrow> go_error" where
  "id_conflict profile_name n = migration_conflict profile_name n ''legacy credentials conflict with the ID-keyed credential''"

fun check_pending :: "cred_lib \<Rightarrow> home_env \<Rightarrow> home \<Rightarrow> string \<Rightarrow> string \<Rightarrow> (string \<times> credential) list \<Rightarrow> home \<times> go_error option" where
  "check_pending cl v s hdir profile_name [] = (s, None)"
| "check_pending cl v s hdir profile_name ((n, c) # xs) =
     (case get_credential cl v s hdir profile_name n of
        (s1, Inr old) \<Rightarrow>
          if cr_region old \<noteq> cr_region c \<or> cr_api_key old \<noteq> cr_api_key c then (s1, Some (id_conflict profile_name n))
          else check_pending cl v s1 hdir profile_name xs
      | (s1, Inl e) \<Rightarrow>
          if code_for (Some e) \<noteq> ''fs.credential_not_found'' then (s1, Some e)
          else check_pending cl v s1 hdir profile_name xs)"

fun store_pending :: "cred_lib \<Rightarrow> home_env \<Rightarrow> home \<Rightarrow> string \<Rightarrow> profile \<Rightarrow> (string \<times> credential) list \<Rightarrow> home \<times> go_error option" where
  "store_pending cl v s hdir p [] = (s, None)"
| "store_pending cl v s hdir p ((n, c) # xs) =
     (case store_credential cl v s hdir (Some p) n (cr_region c) (cr_api_key c) False of
        (s1, Inr _) \<Rightarrow> store_pending cl v s1 hdir p xs
      | (s1, Inl e) \<Rightarrow>
          (s1, Some (if code_for (Some e) = ''fs.credential_import_conflict'' then id_conflict (pf_name p) n else e)))"

text \<open>The two loops visit the map of pending credentials in orders of their own (\<open>ord1\<close>, \<open>ord2\<close>).\<close>

definition migrate_name_registry ::
  "toml_lib \<Rightarrow> cred_lib \<Rightarrow> home_env \<Rightarrow> string
    \<Rightarrow> ((string \<times> credential) list \<Rightarrow> (string \<times> credential) list) \<Rightarrow> ((string \<times> credential) list \<Rightarrow> (string \<times> credential) list)
    \<Rightarrow> home \<Rightarrow> string \<Rightarrow> profile option \<Rightarrow> home \<times> profile option \<times> go_error option" where
  "migrate_name_registry lib cl v now ord1 ord2 s hdir profile =
     (case profile of None \<Rightarrow> (s, None, None) | Some p0 \<Rightarrow>
      case migrate_legacy lib cl v now s hdir p0 of
        (s1, p, Some e) \<Rightarrow> (s1, Some p, Some e)
      | (s1, p, None) \<Rightarrow>
        (case list_resources cl v s1 hdir (pf_name p) of
           (s2, Inl e) \<Rightarrow> (s2, Some p, Some e)
         | (s2, Inr rs) \<Rightarrow>
           (case migration_candidates (pf_name p) rs [] of
              Inl e \<Rightarrow> (s2, Some p, Some e)
            | Inr candidates \<Rightarrow>
              (case load_migration_state cl v s2 hdir (pf_name p) of
                 (s3, Inl e) \<Rightarrow> (s3, Some p, Some e)
               | (s3, Inr migrated) \<Rightarrow>
                 (let pending = filter (\<lambda>(n, _). n \<notin> set migrated) candidates in
                  case check_pending cl v s3 hdir (pf_name p) (ord1 pending) of
                    (s4, Some e) \<Rightarrow> (s4, Some p, Some e)
                  | (s4, None) \<Rightarrow>
                    (case store_pending cl v s4 hdir p (ord2 pending) of
                       (s5, Some e) \<Rightarrow> (s5, Some p, Some e)
                     | (s5, None) \<Rightarrow>
                       if pending = [] then (s5, Some p, None)
                       else (case write_migration_state cl v s5 hdir (pf_name p) (migrated @ map fst pending) of
                           (s6, r) \<Rightarrow> (s6, Some p, r))))))))"

section \<open>Where a credential is\<close>

lemma validate_ok:
  "validate_file_system_id x = Inr n \<longleftrightarrow> n = trim_space x \<and> n \<noteq> [] \<and> length n \<le> 128 \<and> \<not> contains_any n [CHR ''/'', CHR 0x5C]
    \<and> \<not> list_ex (\<lambda>c. byte_of c < 33 \<or> byte_of c = 127) n"
  by (auto simp: validate_file_system_id_def Let_def)

lemma validate_again: "validate_file_system_id x = Inr n \<Longrightarrow> validate_file_system_id n = Inr n"
  by (auto simp: validate_ok)

definition cred_file :: "string \<Rightarrow> string \<Rightarrow> string \<Rightarrow> string" where
  "cred_file hdir profile_name n = path_join [path_join [credential_profile_dir hdir profile_name, encode_key n], ''credentials'']"

lemma credential_path_valid: "validate_file_system_id n = Inr n \<Longrightarrow> credential_path hdir p n = Inr (cred_file hdir p n)"
  "validate_file_system_id n = Inr n \<Longrightarrow> credential_dir hdir p n = Inr (path_join [credential_profile_dir hdir p, encode_key n])"
  by (simp_all add: credential_path_def credential_dir_def cred_file_def)

interpretation credentials: keyed_dirs credential_dir "''fs_credentials''" trim_space
proof
  fix hdir p n d assume g: "good_path hdir" and c: "credential_dir hdir p n = Inr d"
  then obtain m where m: "validate_file_system_id n = Inr m" "d = path_join [credential_profile_dir hdir p, encode_key m]"
    by (cases "validate_file_system_id n") (auto simp: credential_dir_def)
  then show "trim_space n \<noteq> [] \<and> d = path_join [hdir, ''.ti'', ''fs_credentials'', encode_key (normalized_profile p), encode_key (trim_space n)]"
    using g by (auto simp: validate_ok credential_profile_dir_def profile_dir_join)
qed simp

lemma cred_file_good:
  assumes "good_path hdir" "validate_file_system_id n = Inr n"
  shows "good_path (cred_file hdir p n)" "path_dir (cred_file hdir p n) = path_join [credential_profile_dir hdir p, encode_key n]"
    "path_base (cred_file hdir p n) = ''credentials''"
proof -
  have n: "n \<noteq> []" using assms(2) by (simp add: validate_ok)
  let ?xs = "[''.ti'', ''fs_credentials'', encode_key (normalized_profile p), encode_key n]"
  have d: "path_join [credential_profile_dir hdir p, encode_key n] = path_join (hdir # ?xs)"
    using profile_dir_join [OF n assms(1)] by (simp add: credential_profile_dir_def)
  have j: "cred_file hdir p n = path_join (hdir # ?xs @ [''credentials''])"
    using join_again [OF assms(1), of ?xs "[''credentials'']"] n by (simp add: cred_file_def d)
  show "good_path (cred_file hdir p n)" "path_base (cred_file hdir p n) = ''credentials''"
    using join_home [OF assms(1), of "?xs @ [''credentials'']"] n by (simp_all add: j)
  show "path_dir (cred_file hdir p n) = path_join [credential_profile_dir hdir p, encode_key n]"
    using join_home_dir [OF assms(1), of ?xs "''credentials''"] n by (simp add: j d)
qed

lemma temp_in_dir:
  assumes "good_path p" "is_temp_of p t"
  shows "in_tree (path_dir p) t"
  using assms(2) has_prefix_trans by (auto simp: is_temp_of_def temp_name_def in_tree_def tree_prefix_def has_prefix_iff split: if_splits)

lemma in_own_dir:
  assumes "good_path p"
  shows "in_tree (path_dir p) p"
proof -
  obtain ds b where p: "clean_list (ds @ [b])" "p = abs_path (ds @ [b])" using assms by (rule good_pathE)
  note d = path_dir_abs(1) [OF p(1)]
  show ?thesis
  proof (cases "ds = []")
    case True
    then show ?thesis using d by (simp add: p(2) in_tree_def tree_prefix_def abs_path_def has_prefix_def has_suffix_def)
  next
    case False
    then show ?thesis using in_tree_abs [OF _ False, of "ds @ [b]"] p(1) d by (simp add: p(2))
  qed
qed

text \<open>Two credentials have different files, and neither is a temporary name of the other's writer.\<close>

lemma cred_file_separate:
  assumes "good_path hdir" "validate_file_system_id n = Inr n" "validate_file_system_id m = Inr m"
    and "normalized_profile p \<noteq> normalized_profile q \<or> n \<noteq> m"
  shows "\<not> in_tree (path_join [credential_profile_dir hdir p, encode_key n]) (cred_file hdir q m)"
proof
  let ?d = "path_join [credential_profile_dir hdir p, encode_key n]" and ?e = "path_join [credential_profile_dir hdir q, encode_key m]"
  assume t: "in_tree ?d (cred_file hdir q m)"
  note c = credential_path_valid(2) [OF assms(2), of hdir p] credential_path_valid(2) [OF assms(3), of hdir q]
  obtain hs where h: "hs \<noteq> []" "clean_list hs" "hdir = abs_path hs" "trim_space n \<noteq> []"
    "?d = abs_path (hs @ [''.ti'', ''fs_credentials'', encode_key (normalized_profile p), encode_key (trim_space n)])"
    using assms(1) c(1) by (rule credentials.comps)
  obtain gs where g: "gs \<noteq> []" "clean_list gs" "hdir = abs_path gs" "trim_space m \<noteq> []"
    "?e = abs_path (gs @ [''.ti'', ''fs_credentials'', encode_key (normalized_profile q), encode_key (trim_space m)])"
    using assms(1) c(2) by (rule credentials.comps)
  obtain es where e: "es \<noteq> []" "clean_list es" "?e = abs_path es"
    "\<And>xs. clean_list xs \<Longrightarrow> xs \<noteq> [] \<Longrightarrow> path_join (?e # xs) = abs_path (es @ xs)"
    using credentials.confined(1) [OF assms(1) c(2)] by (rule home_comps) blast
  have gs: "gs = hs" using abs_path_inj [OF g(2) h(2)] g(3) h(3) by simp
  have es: "es = hs @ [''.ti'', ''fs_credentials'', encode_key (normalized_profile q), encode_key (trim_space m)]"
    using abs_path_inj [OF e(2)] e(3) g(2,4) by (simp add: g(5) gs)
  have "cred_file hdir q m = abs_path (es @ [''credentials''])" using e(4) by (simp add: cred_file_def)
  then have "in_tree ?d (abs_path (es @ [''credentials'']))" using t by simp
  then show False
    using assms(2-4) h(1,2,4) g(4)
    by (subst (asm) h(5), subst (asm) in_tree_abs) (auto simp: es encode_key_inj validate_ok)
qed

section \<open>Reading and writing one credential\<close>

lemma get_credential_run:
  assumes "validate_file_system_id n0 = Inr n" "get_credential cl v s hdir p n0 = (s1, r)"
  shows "all_states (restricted (hm_files s) (cred_file hdir p n)) s s1"
    "r = Inr c \<Longrightarrow> \<exists>x. hm_files s (cred_file hdir p n) = Some x \<and> check_credential cl p n (hf_data x) = Inr c"
    "hm_files s (cred_file hdir p n) = Some x \<Longrightarrow> owner_only (hf_mode x) \<Longrightarrow> hm_files s1 = hm_files s"
    "hm_files s (cred_file hdir p n) = Some x \<Longrightarrow> (\<And>i. he_fail v i = None) \<Longrightarrow> r = check_credential cl p n (hf_data x)"
    "hm_files s (cred_file hdir p n) = None \<Longrightarrow> (\<And>i. he_fail v i = None) \<Longrightarrow>
      r = Inl (credential_error ''fs.credential_not_found'' p n ''local FS credentials are not configured'') \<and> hm_files s1 = hm_files s"
proof -
  let ?f = "cred_file hdir p n"
  obtain s0 a where rd: "hm_read v s ?f = (s0, a)" by force
  obtain s2 b where rm: "restrict_mode v s0 ?f = (s2, b)" by force
  have f0: "hm_files s0 = hm_files s" using rd by (auto simp: hm_read_def)
  have a0: "all_states (restricted (hm_files s) ?f) s s0" using rd by (auto simp: hm_read_def restricted_def intro: all_states_step)
  note rs = restrict_mode_states [OF rm, unfolded f0]
  have run: "(s1, r) = (case a of Inl e \<Rightarrow> (s0, Inl (if errors_is e Err_Not_Exist
      then credential_error ''fs.credential_not_found'' p n ''local FS credentials are not configured'' else e))
    | Inr data \<Rightarrow> (case b of Some _ \<Rightarrow> (s2, Inl (credential_error ''fs.credential_incomplete'' p n ''cannot restrict credential permissions''))
        | None \<Rightarrow> (s2, check_credential cl p n data)))"
    using assms(2) credential_path_valid(1) [OF validate_again [OF assms(1)]]
    by (simp add: get_credential_def assms(1) rd rm split: sum.splits)
  show "all_states (restricted (hm_files s) ?f) s s1"
    using run a0 all_states_trans [OF a0 rs(1)] by (auto split: sum.splits option.splits)
  show "r = Inr c \<Longrightarrow> \<exists>x. hm_files s ?f = Some x \<and> check_credential cl p n (hf_data x) = Inr c"
    using run rd by (auto simp: hm_read_def split: sum.splits option.splits)
  show "hm_files s1 = hm_files s" if "hm_files s ?f = Some x" "owner_only (hf_mode x)"
    using run f0 rs(2) [OF that] by (auto split: sum.splits option.splits)
  show "r = check_credential cl p n (hf_data x)" if "hm_files s ?f = Some x" "\<And>i. he_fail v i = None"
    using run rd rs(3) [OF that(1)] that by (auto simp: hm_read_def split: sum.splits option.splits)
  show "r = Inl (credential_error ''fs.credential_not_found'' p n ''local FS credentials are not configured'') \<and> hm_files s1 = hm_files s"
    if "hm_files s ?f = None" "\<And>i. he_fail v i = None"
    using run rd that f0 by (auto simp: hm_read_def errors_is_def split: sum.splits option.splits)
qed

lemma check_credential_ok:
  "check_credential cl p n x = Inr c \<longleftrightarrow>
     (\<exists>d q. cl_credential cl x = Inr d \<and> cr_id d = n \<and> trim_space (cr_api_key d) \<noteq> [] \<and> parse_placement_code (cr_region d) = Inr q
       \<and> c = d\<lparr>cr_region := pl_code q, cr_api_key := trim_space (cr_api_key d), cr_local := True\<rparr>)"
  by (auto simp: check_credential_def Let_def split: sum.splits if_splits)

text \<open>What the program relies on: a printed document is decoded to what it was printed from, as far
  as it is printed.\<close>

definition cred_ok :: "cred_lib \<Rightarrow> bool" where
  "cred_ok cl \<longleftrightarrow>
     (\<forall>c x. cl_put_credential cl c = Inr x \<longrightarrow> cl_credential cl x = Inr (c\<lparr>cr_local := False\<rparr>))
   \<and> (\<forall>r x. cl_put_resource cl r = Inr x \<longrightarrow> cl_resource cl x = Inr (r\<lparr>rs_has_key := False, rs_api_key := []\<rparr>))
   \<and> (\<forall>k x. cl_put_api_key cl k = Inr x \<longrightarrow> cl_api_key cl x = Inr k)
   \<and> (\<forall>t x. cl_put_state cl t = Inr x \<longrightarrow> cl_state cl x = Inr t)"

lemma cred_okD:
  "cred_ok cl \<Longrightarrow> cl_put_credential cl c = Inr x \<Longrightarrow> cl_credential cl x = Inr (c\<lparr>cr_local := False\<rparr>)"
  "cred_ok cl \<Longrightarrow> cl_put_resource cl r = Inr x \<Longrightarrow> cl_resource cl x = Inr (r\<lparr>rs_has_key := False, rs_api_key := []\<rparr>)"
  "cred_ok cl \<Longrightarrow> cl_put_api_key cl k = Inr x \<Longrightarrow> cl_api_key cl x = Inr k"
  "cred_ok cl \<Longrightarrow> cl_put_state cl t = Inr x \<Longrightarrow> cl_state cl x = Inr t"
  unfolding cred_ok_def by blast+

lemma write_credential_run:
  assumes "good_path hdir" "validate_file_system_id n = Inr n" "write_credential cl v s hdir p n c = (s', r)"
  shows "all_states (\<lambda>f. f = hm_files s \<or> (\<exists>x t. cl_put_credential cl c = Inr x \<and> is_temp_of (cred_file hdir p n) t
      \<and> in_replacement (hm_files s) t (cred_file hdir p n) x 384 f)) s s'"
    "r = Inr d \<Longrightarrow> \<exists>x. cl_put_credential cl c = Inr x \<and> check_credential cl p n x = Inr d
      \<and> hm_files s' = (hm_files s)(cred_file hdir p n := Some \<lparr>hf_mode = 384, hf_data = x\<rparr>)"
proof -
  let ?f = "cred_file hdir p n"
  let ?P = "\<lambda>f. f = hm_files s \<or> (\<exists>x t. cl_put_credential cl c = Inr x \<and> is_temp_of ?f t \<and> in_replacement (hm_files s) t ?f x 384 f)"
  note cv = credential_path_valid [OF assms(2), of hdir p]
  note g = cred_file_good(1) [OF assms(1,2), of p]
  obtain s1 e where en: "ensure_credential_dirs v s hdir p n = (s1, e)" by force
  have f1: "hm_files s1 = hm_files s" "all_states ?P s s1"
    using en make_private_dirs_files [of v s _ s1 e] by (auto simp: ensure_credential_dirs_def cv(2) simp del: make_private_dirs.simps)
  obtain s2 w where wd: "write_doc (cl_put_credential cl c) v s1 ?f 384 = (s2, w)" by force
  obtain s3 k where gc: "get_credential cl v s2 hdir p n = (s3, k)" by force
  have run: "(s', r) = (case e of Some e \<Rightarrow> (s1, Inl (Wrapf (Fmt ''create ti fs credential directory: %w'' [error_text e]) e))
    | None \<Rightarrow> (case w of Some e \<Rightarrow> (s2, Inl e) | None \<Rightarrow> (s3, case k of Inl e \<Rightarrow> Inl e | Inr d \<Rightarrow>
        if cr_region d \<noteq> cr_region c \<or> cr_api_key d \<noteq> cr_api_key c
        then Inl (credential_error ''fs.credential_store_failed'' p n ''stored credential verification failed'') else Inr d)))"
    using assms(3) by (cases e; cases w; cases k) (auto simp: write_credential_def cv en wd [unfolded cred_file_def] gc)
  have w2: "all_states ?P s1 s2"
    "w = None \<Longrightarrow> \<exists>x. cl_put_credential cl c = Inr x \<and> hm_files s2 = (hm_files s)(?f := Some \<lparr>hf_mode = 384, hf_data = x\<rparr>)"
  proof -
    have "(w = None \<longrightarrow> (\<exists>x. cl_put_credential cl c = Inr x \<and> hm_files s2 = (hm_files s)(?f := Some \<lparr>hf_mode = 384, hf_data = x\<rparr>))) \<and> all_states ?P s1 s2"
    proof (cases "cl_put_credential cl c")
      case (Inl z)
      then show ?thesis using wd f1(1) by (auto simp: write_doc_def intro: all_states_refl)
    next
      case (Inr x)
      then have fw: "fscred_write v s1 ?f x 384 = (s2, w)" using wd by (simp add: write_doc_def)
      obtain t where t: "is_temp_of ?f t" "all_states (in_replacement (hm_files s1) t ?f x 384) s1 s2"
        using fscred.states [OF g fw] by blast
      have "all_states ?P s1 s2" using t(2) by (rule all_states_mono) (use t(1) Inr f1(1) in auto)
      then show ?thesis using fscred.finished [OF g, of v s1 x 384 s2] fw Inr f1(1) by auto
    qed
    then show "all_states ?P s1 s2"
      "w = None \<Longrightarrow> \<exists>x. cl_put_credential cl c = Inr x \<and> hm_files s2 = (hm_files s)(?f := Some \<lparr>hf_mode = 384, hf_data = x\<rparr>)" by blast+
  qed
  note gr = get_credential_run [OF assms(2) gc]
  have f3: "hm_files s3 = hm_files s2" "all_states ?P s2 s3" if w0: "w = None"
  proof -
    obtain x where x: "hm_files s2 = (hm_files s)(?f := Some \<lparr>hf_mode = 384, hf_data = x\<rparr>)" using w2(2) w0 by blast
    show f: "hm_files s3 = hm_files s2" using gr(3) [of "\<lparr>hf_mode = 384, hf_data = x\<rparr>"] by (simp add: x owner_only_def)
    show "all_states ?P s2 s3"
      using gr(1) by (rule all_states_mono) (use all_states_end [OF w2(1)] x in \<open>auto simp: restricted_def fun_upd_idem\<close>)
  qed
  show "all_states ?P s s'"
    using run f1(2) all_states_trans [OF f1(2) w2(1)] all_states_trans [OF all_states_trans [OF f1(2) w2(1)] f3(2)]
    by (auto split: option.splits)
  show "\<exists>x. cl_put_credential cl c = Inr x \<and> check_credential cl p n x = Inr d
      \<and> hm_files s' = (hm_files s)(?f := Some \<lparr>hf_mode = 384, hf_data = x\<rparr>)" if "r = Inr d"
  proof -
    have w: "w = None" "s' = s3" "k = Inr d" using run that by (auto split: option.splits sum.splits if_splits)
    obtain x where x: "cl_put_credential cl c = Inr x" "hm_files s2 = (hm_files s)(?f := Some \<lparr>hf_mode = 384, hf_data = x\<rparr>)"
      using w2(2) w(1) by blast
    then show ?thesis using gr(2) [OF w(3)] f3(1) [OF w(1)] w(2) by auto
  qed
qed

lemma parse_stable: "parse_placement_code z = Inr q \<Longrightarrow> parse_placement_code (pl_code q) = Inr q"
  using parse_placement_known parse_known by (auto simp: list_all_iff)

lemma first_set_trim: "first_set xs = trim_space (first_set xs)"
  by (induction xs) auto

text \<open>The runs of \<open>StoreCredentialRecord\<close> that get past its checks.\<close>

lemma store_credential_cases:
  assumes "store_credential_record cl v s hdir (Some p) c b = (s', r)"
  obtains (refused) e where "s' = s" "r = Inl e"
  | (read) n q s1 k where "validate_file_system_id (cr_id c) = Inr n" "parse_placement_code (first_set [cr_region c, pf_placement p]) = Inr q"
      "get_credential cl v s hdir (pf_name p) n = (s1, k)" "s' = s1"
      "\<And>d. r = Inr d \<Longrightarrow> k = Inr d \<and> credentials_equal d (normal_credential c n q)"
  | (written) n q s1 k where "validate_file_system_id (cr_id c) = Inr n" "parse_placement_code (first_set [cr_region c, pf_placement p]) = Inr q"
      "get_credential cl v s hdir (pf_name p) n = (s1, k)"
      "write_credential cl v s1 hdir (pf_name p) n (normal_credential c n q) = (s', r)" "is_ok k \<longrightarrow> b"
      "\<And>e. k = Inl e \<Longrightarrow> code_for (Some e) = ''fs.credential_not_found''"
proof (cases "validate_file_system_id (cr_id c)")
  case (Inr n)
  note n = Inr
  show ?thesis
  proof (cases "parse_placement_code (first_set [cr_region c, pf_placement p])")
    case (Inr q)
    obtain s1 k where g: "get_credential cl v s hdir (pf_name p) n = (s1, k)" by force
    show ?thesis
      using assms n Inr g that(1) that(2) [OF n Inr g] that(3) [OF n Inr g]
      by (cases k) (auto simp: store_credential_record_def parse_placement_def Let_def split: if_splits)
  qed (use assms n that(1) in \<open>auto simp: store_credential_record_def parse_placement_def Let_def split: if_splits\<close>)
qed (use assms that(1) in \<open>auto simp: store_credential_record_def\<close>)

lemma written_credential:
  assumes "cred_ok cl" "parse_placement_code z = Inr q" "cl_put_credential cl (normal_credential c n q) = Inr x"
    and "check_credential cl p n x = Inr d"
  shows "d = normal_credential c n q"
  using assms(4) cred_okD(1) [OF assms(1,3)] parse_stable [OF assms(2)]
  by (auto simp: check_credential_ok normal_credential_def)

lemma equal_credential:
  assumes "credentials_equal d (normal_credential c n q)" "check_credential cl p n x = Inr d"
  shows "d = normal_credential c n q"
proof (rule credential.equality)
  show "cr_local d = cr_local (normal_credential c n q)" using assms(2) by (auto simp: check_credential_ok normal_credential_def)
qed (use assms(1) in \<open>simp_all add: credentials_equal_def\<close>)

section \<open>Properties of the credentials\<close>

lemma other_credential:
  assumes "good_path hdir" "validate_file_system_id n = Inr n" "validate_file_system_id m = Inr m"
    and "normalized_profile p \<noteq> normalized_profile q \<or> n \<noteq> m"
  shows "cred_file hdir q m \<noteq> cred_file hdir p n" "\<not> is_temp_of (cred_file hdir p n) (cred_file hdir q m)"
proof -
  note s = cred_file_separate [OF assms] and g = cred_file_good [OF assms(1,2), of p]
  show "cred_file hdir q m \<noteq> cred_file hdir p n" using s in_own_dir [OF g(1)] g(2) by auto
  show "\<not> is_temp_of (cred_file hdir p n) (cred_file hdir q m)" using s temp_in_dir [OF g(1)] g(2) by auto
qed

lemma replacement_others:
  assumes "in_replacement f0 t p d m f" "is_temp_of p t" "q \<noteq> p" "f0 q \<noteq> None \<or> \<not> is_temp_of p q"
  shows "f q = f0 q"
  using assms by (cases "q = t") (auto simp: in_replacement_def replacing_def)

lemma write_credential_others:
  assumes "good_path hdir" "validate_file_system_id n = Inr n" "write_credential cl v s hdir p n c = (s', r)"
    and "q \<noteq> cred_file hdir p n" "hm_files s q \<noteq> None \<or> \<not> is_temp_of (cred_file hdir p n) q"
  shows "hm_files s' q = hm_files s q"
  using all_states_end [OF write_credential_run(1) [OF assms(1-3)]] assms(4,5) replacement_others [of "hm_files s" _ "cred_file hdir p n" _ 384 "hm_files s'" q]
  by auto

text \<open>C20: A stored token is the one that is used: after a successful store the credential, with
  its fields trimmed and its region canonical, is what a later read gives, and the credentials
  of every other file system and profile are unchanged.\<close>

theorem store_credential_read_back:
  assumes "cred_ok cl" "good_path hdir" "\<And>i. he_fail v2 i = None"
    and "store_credential_record cl v s hdir (Some p) c b = (s', Inr r)"
  shows "\<exists>n q. validate_file_system_id (cr_id c) = Inr n
    \<and> parse_placement_code (first_set [cr_region c, pf_placement p]) = Inr q \<and> r = normal_credential c n q
    \<and> snd (get_credential cl v2 s' hdir (pf_name p) (cr_id c)) = Inr r
    \<and> (\<forall>profile_name m. validate_file_system_id m = Inr m \<and> (normalized_profile (pf_name p) \<noteq> normalized_profile profile_name \<or> n \<noteq> m)
        \<longrightarrow> hm_files s' (cred_file hdir profile_name m) = hm_files s (cred_file hdir profile_name m))"
  using assms(4)
proof (cases rule: store_credential_cases)
  case (read n q s1 k)
  note n = validate_again [OF read(1)]
  have k: "k = Inr r" "credentials_equal r (normal_credential c n q)" using read(5) by simp_all
  note gr = get_credential_run [OF n read(3)]
  obtain x where x: "hm_files s (cred_file hdir (pf_name p) n) = Some x" "check_credential cl (pf_name p) n (hf_data x) = Inr r"
    using gr(2) k(1) by blast
  note re = all_states_end [OF gr(1)]
  obtain y where y: "hm_files s1 (cred_file hdir (pf_name p) n) = Some y" "hf_data y = hf_data x"
    using restricted_data [OF re, of "cred_file hdir (pf_name p) n"] x(1) by auto
  obtain s3 z where g2: "get_credential cl v2 s1 hdir (pf_name p) (cr_id c) = (s3, z)" by force
  have "z = Inr r" using get_credential_run(4) [OF read(1) g2 y(1) assms(3)] x(2) y(2) by simp
  moreover have "hm_files s1 (cred_file hdir u m) = hm_files s (cred_file hdir u m)"
    if "validate_file_system_id m = Inr m" "normalized_profile (pf_name p) \<noteq> normalized_profile u \<or> n \<noteq> m" for u m
    using re other_credential(1) [OF assms(2) n that] by (auto simp: restricted_def)
  ultimately show ?thesis
    using read(1,2,4) equal_credential [OF k(2) x(2)] g2 by (intro exI [of _ n] exI [of _ q]) simp
next
  case (written n q s1 k)
  note n = validate_again [OF written(1)]
  note gr = get_credential_run [OF n written(3)]
  obtain x where x: "cl_put_credential cl (normal_credential c n q) = Inr x" "check_credential cl (pf_name p) n x = Inr r"
    "hm_files s' = (hm_files s1)(cred_file hdir (pf_name p) n := Some \<lparr>hf_mode = 384, hf_data = x\<rparr>)"
    using write_credential_run(2) [OF assms(2) n written(4)] by blast
  obtain s3 z where g2: "get_credential cl v2 s' hdir (pf_name p) (cr_id c) = (s3, z)" by force
  have "z = Inr r" using get_credential_run(4) [OF written(1) g2 _ assms(3)] x by simp
  moreover have "hm_files s' (cred_file hdir u m) = hm_files s (cred_file hdir u m)"
    if "validate_file_system_id m = Inr m" "normalized_profile (pf_name p) \<noteq> normalized_profile u \<or> n \<noteq> m" for u m
    using all_states_end [OF gr(1)] other_credential(1) [OF assms(2) n that] by (auto simp: x(3) restricted_def)
  ultimately show ?thesis
    using written(1,2) written_credential [OF assms(1) written(2) x(1,2)] g2 by (intro exI [of _ n] exI [of _ q]) simp
qed auto

text \<open>What an interrupted store may leave: the credential as it was, as it was for the owner only, or
  the new one; every other file that was there; and new files for the owner only.\<close>

definition store_state :: "cred_lib \<Rightarrow> hfiles \<Rightarrow> string \<Rightarrow> credential \<Rightarrow> hfiles \<Rightarrow> bool" where
  "store_state cl f0 p c f \<longleftrightarrow>
     (f p = f0 p \<or> (\<exists>x. f0 p = Some x \<and> f p = Some (x\<lparr>hf_mode := 384\<rparr>))
      \<or> (\<exists>x. cl_put_credential cl c = Inr x \<and> f p = Some \<lparr>hf_mode = 384, hf_data = x\<rparr>))
   \<and> (\<forall>q. q \<noteq> p \<and> f0 q \<noteq> None \<longrightarrow> f q = f0 q)
   \<and> (\<forall>q x. f q = Some x \<longrightarrow> f0 q = Some x \<or> hf_mode x = 384)"

lemma store_state_start: "store_state cl f0 p c f0" "restricted f0 p f \<Longrightarrow> store_state cl f0 p c f"
  by (auto simp: store_state_def restricted_def split: if_splits)

lemma store_state_write:
  assumes "restricted f0 p f1" "f = f1 \<or> (\<exists>x t. cl_put_credential cl c = Inr x \<and> is_temp_of p t \<and> in_replacement f1 t p x 384 f)"
  shows "store_state cl f0 p c f"
  using assms(2)
proof
  assume "\<exists>x t. cl_put_credential cl c = Inr x \<and> is_temp_of p t \<and> in_replacement f1 t p x 384 f"
  then obtain x t where x: "cl_put_credential cl c = Inr x" "in_replacement f1 t p x 384 f" by blast
  have f1: "f1 p = f0 p \<or> (\<exists>x. f0 p = Some x \<and> f1 p = Some (x\<lparr>hf_mode := 384\<rparr>))" "\<And>q. q \<noteq> p \<Longrightarrow> f1 q = f0 q"
    using assms(1) by (auto simp: restricted_def)
  have o: "f p = f1 p \<or> f p = Some \<lparr>hf_mode = 384, hf_data = x\<rparr>" "\<And>q. q \<noteq> p \<Longrightarrow> f1 q \<noteq> None \<Longrightarrow> f q = f1 q"
    "\<And>q y. q \<noteq> p \<Longrightarrow> f q = Some y \<Longrightarrow> f1 q = Some y \<or> hf_mode y = 384"
  proof -
    show "f p = f1 p \<or> f p = Some \<lparr>hf_mode = 384, hf_data = x\<rparr>" using x(2) by (auto simp: in_replacement_def replacing_def)
    show "f q = f1 q" if "q \<noteq> p" "f1 q \<noteq> None" for q
      using x(2) that by (cases "q = t") (auto simp: in_replacement_def replacing_def)
    show "f1 q = Some y \<or> hf_mode y = 384" if "q \<noteq> p" "f q = Some y" for q y
      using x(2) that by (cases "q = t") (auto simp: in_replacement_def replacing_def)
  qed
  have m: "f0 q = Some y \<or> hf_mode y = 384" if "f q = Some y" for q y
    using o(1) o(3) [of q y] f1(1) f1(2) [of q] that by (cases "q = p") auto
  show ?thesis
    unfolding store_state_def using o(1) o(2) f1 x(1) m by (intro conjI allI impI) (metis, metis, blast)
qed (simp add: store_state_start(2) assms(1))

text \<open>C17: Storing a token tears and exposes nothing: in every state between two system calls of a
  store, whichever of them fails, the credential is the old or the new one as a whole, every
  other file is untouched, and each new file can be read by its owner only.\<close>

theorem store_credential_every_state:
  assumes "good_path hdir" "validate_file_system_id (cr_id c) = Inr n"
    and "store_credential_record cl v s hdir (Some p) c b = (s', r)"
  shows "\<exists>q. all_states (store_state cl (hm_files s) (cred_file hdir (pf_name p) n) (normal_credential c n q)) s s'"
  using assms(3)
proof (cases rule: store_credential_cases)
  case (refused e)
  then show ?thesis by (auto intro: all_states_refl store_state_start)
next
  case (read m q s1 k)
  then have "m = n" using assms(2) by simp
  then show ?thesis
    using all_states_mono [OF get_credential_run(1) [OF validate_again [OF read(1)] read(3)] store_state_start(2)] read(4) by auto
next
  case (written m q s1 k)
  let ?f = "cred_file hdir (pf_name p) n" and ?c = "normal_credential c n q"
  have mn: "m = n" using written(1) assms(2) by simp
  note n = validate_again [OF assms(2)]
  note gr = get_credential_run(1) [OF n written(3) [unfolded mn]]
  have "all_states (store_state cl (hm_files s) ?f ?c) s s1" using gr by (rule all_states_mono) (rule store_state_start(2))
  moreover have "all_states (store_state cl (hm_files s) ?f ?c) s1 s'"
    using write_credential_run(1) [OF assms(1) n written(4) [unfolded mn]]
    by (rule all_states_mono) (rule store_state_write [OF all_states_end [OF gr]])
  ultimately show ?thesis using all_states_trans by blast
qed

lemma delete_credential_run:
  assumes "good_path hdir" "delete_credential cl v s hdir p n0 = (s', Inr removed)"
  obtains (nothing) e where "\<not> removed" "get_credential cl v s hdir p n0 = (s', Inl e)"
  | (gone) n where "removed" "validate_file_system_id n0 = Inr n" "hm_files s' (cred_file hdir p n) = None"
      "\<And>q m. validate_file_system_id m = Inr m \<Longrightarrow> normalized_profile p \<noteq> normalized_profile q \<or> n \<noteq> m \<Longrightarrow>
        hm_files s' (cred_file hdir q m) = hm_files s (cred_file hdir q m)"
proof -
  obtain s1 k where g: "get_credential cl v s hdir p n0 = (s1, k)" by force
  show ?thesis
  proof (cases k)
    case (Inl e)
    then show ?thesis using assms(2) g that(1) [of e] by (auto simp: delete_credential_def split: if_splits)
  next
    case (Inr c)
    obtain n where v: "validate_file_system_id n0 = Inr n" using g Inr by (cases "validate_file_system_id n0") (auto simp: get_credential_def)
    note n = validate_again [OF v]
    let ?d = "path_join [credential_profile_dir hdir p, encode_key n]"
    have d: "credential_dir hdir p n0 = Inr ?d" using v by (simp add: credential_dir_def)
    have r: "removed" "hm_files s' = (\<lambda>q. if in_tree ?d q then None else hm_files s1 q)"
      using assms(2) by (auto simp: delete_credential_def g Inr d hm_remove_all_def split: option.splits)
    note re = all_states_end [OF get_credential_run(1) [OF v g]]
    have "in_tree ?d (cred_file hdir p n)" using in_own_dir [OF cred_file_good(1) [OF assms(1) n]] cred_file_good(2) [OF assms(1) n] by metis
    moreover have "hm_files s' (cred_file hdir q m) = hm_files s (cred_file hdir q m)"
      if "validate_file_system_id m = Inr m" "normalized_profile p \<noteq> normalized_profile q \<or> n \<noteq> m" for q m
      using cred_file_separate [OF assms(1) n that] other_credential(1) [OF assms(1) n that] re by (auto simp: r(2) restricted_def)
    ultimately show ?thesis using that(2) v r by simp
  qed
qed

text \<open>C23: A token is deleted only when it is the one meant: the conditional deletion reports a
  removal only when the stored credential has the given token id, and then exactly that
  credential is gone; otherwise no document has changed.\<close>

theorem conditional_delete_sound:
  assumes "good_path hdir" "validate_file_system_id n0 = Inr n"
    and "delete_credential_if_token_id cl v s hdir p n0 token_id = (s', Inr (removed, why))"
  shows "if removed
    then (\<exists>x c. hm_files s (cred_file hdir p n) = Some x \<and> check_credential cl p n (hf_data x) = Inr c
        \<and> cr_token_id c = trim_space token_id \<and> cr_token_id c \<noteq> [])
      \<and> hm_files s' (cred_file hdir p n) = None
      \<and> (\<forall>q m. validate_file_system_id m = Inr m \<and> (normalized_profile p \<noteq> normalized_profile q \<or> n \<noteq> m)
          \<longrightarrow> map_option hf_data (hm_files s' (cred_file hdir q m)) = map_option hf_data (hm_files s (cred_file hdir q m)))
    else (\<forall>q. map_option hf_data (hm_files s' q) = map_option hf_data (hm_files s q))"
proof -
  obtain s1 k where g: "get_credential cl v s hdir p n0 = (s1, k)" by force
  note gr = get_credential_run [OF assms(2) g]
  note data = restricted_data [OF all_states_end [OF gr(1)]]
  consider (kept) "s' = s1" "\<not> removed"
    | (deleted) c where "k = Inr c" "cr_token_id c = trim_space token_id" "cr_token_id c \<noteq> []"
        "delete_credential cl v s1 hdir p n0 = (s', Inr removed)"
    using assms(3) by (auto simp: delete_credential_if_token_id_def g split: sum.splits if_splits prod.splits)
  then show ?thesis
  proof cases
    case kept
    then show ?thesis using data by simp
  next
    case deleted
    obtain x where x: "hm_files s (cred_file hdir p n) = Some x" "check_credential cl p n (hf_data x) = Inr c"
      using gr(2) [OF deleted(1)] by blast
    show ?thesis
    proof (cases rule: delete_credential_run [OF assms(1) deleted(4)])
      case (1 e)
      have "map_option hf_data (hm_files s' q) = map_option hf_data (hm_files s1 q)" for q
        by (rule restricted_data [OF all_states_end [OF get_credential_run(1) [OF assms(2) 1(2)]]])
      then show ?thesis using 1(1) data by simp
    next
      case (2 m)
      have "m = n" using 2(2) assms(2) by simp
      then show ?thesis using 2 x deleted(2,3) data by auto
    qed
  qed
qed

lemma id_and_token_ok:
  assumes "id_and_token cl opt = Inr (n, token)"
  shows "n \<noteq> []" "token \<noteq> [] \<Longrightarrow> file_system_id_from_token cl token = Inr n"
    "trim_space (co_id opt) \<noteq> [] \<Longrightarrow> n = trim_space (co_id opt)"
    "trim_space (co_token opt) \<noteq> [] \<Longrightarrow> token = trim_space (co_token opt)"
  using assms
  by (auto simp: id_and_token_def flag_or_env_def Let_def split: if_splits)

lemma code_for_app [simp]: "code_for (Some (app_new c k x m)) = c"
  by (simp add: code_for_def as_app_def app_new_def)

lemma validate_code: "validate_file_system_id n = Inl e \<Longrightarrow> code_for (Some e) \<noteq> ''fs.credential_not_found''"
  by (auto simp: validate_file_system_id_def invalid_id_def Let_def split: if_splits)

lemma find_credential_run:
  assumes "find_credential cl v s hdir p False n token = (s', Inr found)" "\<And>i. he_fail v i = None"
  shows "\<exists>m. validate_file_system_id n = Inr m \<and> found = (case hm_files s (cred_file hdir (pf_name p) m) of None \<Rightarrow> None
      | Some x \<Rightarrow> (case check_credential cl (pf_name p) m (hf_data x) of Inl _ \<Rightarrow> None | Inr d \<Rightarrow> Some d))"
    "validate_file_system_id n = Inr m \<Longrightarrow> hm_files s (cred_file hdir (pf_name p) m) = Some x \<Longrightarrow>
      is_ok (check_credential cl (pf_name p) m (hf_data x))"
proof -
  obtain s1 k where g: "get_credential cl v s hdir (pf_name p) n = (s1, k)" by force
  have run: "(case k of Inr c \<Rightarrow> Inr (Some c)
      | Inl e \<Rightarrow> if code_for (Some e) = ''fs.credential_not_found'' then Inr None else Inl e) = Inr found"
    using assms(1) by (cases k) (auto simp: find_credential_def g split: if_splits)
  have bad: "code_for (Some e) \<noteq> ''fs.credential_not_found''" if "check_credential cl q m d = Inl e" for q m d e
    using that by (auto simp: check_credential_def credential_error_def Let_def split: sum.splits if_splits)
  obtain m where m: "validate_file_system_id n = Inr m"
    using run g validate_code by (cases "validate_file_system_id n") (auto simp: get_credential_def)
  note gr = get_credential_run(4,5) [OF m g _ assms(2)]
  show "\<exists>m. validate_file_system_id n = Inr m \<and> found = (case hm_files s (cred_file hdir (pf_name p) m) of None \<Rightarrow> None
      | Some x \<Rightarrow> (case check_credential cl (pf_name p) m (hf_data x) of Inl _ \<Rightarrow> None | Inr d \<Rightarrow> Some d))"
    using m run gr bad by (cases "hm_files s (cred_file hdir (pf_name p) m)") (auto split: sum.splits if_splits)
  show "is_ok (check_credential cl (pf_name p) m (hf_data x))"
    if "validate_file_system_id n = Inr m" "hm_files s (cred_file hdir (pf_name p) m) = Some x" for m x
    using that m run gr(1) bad by (auto split: sum.splits if_splits)
qed

text \<open>C16: When a command resolves its credential (not as a dry run, with no failing system call),
  a token given by the flag or the environment is the one used and names the selected file
  system; without one the token stored under the selected identifier is used, in the region
  stored with it.  (Which file system a stored token names is not checked by the code, and not
  claimed here.)  The token id of the profile is the stored one exactly when the token used is
  the stored one.\<close>

theorem resolve_credential_sound:
  assumes "resolve_credential cl v s hdir (Some p) opt = (s', Inr (chosen, c))" "\<not> co_dry_run opt" "\<And>i. he_fail v i = None"
  shows "\<exists>n token. id_and_token cl opt = Inr (n, token) \<and> validate_file_system_id n = Inr (trim_space n)
    \<and> cr_id c = n \<and> pf_fs_tenant chosen = n \<and> pf_fs_api_key chosen = cr_api_key c \<and> pf_fs_placement chosen = cr_region c
    \<and> (token \<noteq> [] \<longrightarrow> cr_api_key c = token \<and> file_system_id_from_token cl token = Inr n)
    \<and> (trim_space (co_id opt) \<noteq> [] \<longrightarrow> n = trim_space (co_id opt))
    \<and> (co_token_required opt \<longrightarrow> cr_api_key c \<noteq> [])
    \<and> (case hm_files s (cred_file hdir (pf_name p) (trim_space n)) of
         None \<Rightarrow> cr_api_key c = token \<and> pf_fs_token_id chosen = pf_fs_token_id p
       | Some x \<Rightarrow> (\<exists>d. check_credential cl (pf_name p) (trim_space n) (hf_data x) = Inr d \<and> cr_region c = cr_region d
           \<and> (token = [] \<longrightarrow> cr_api_key c = cr_api_key d)
           \<and> pf_fs_token_id chosen = (if cr_api_key c = cr_api_key d then cr_token_id d else pf_fs_token_id p)))"
proof -
  obtain n token where i: "id_and_token cl opt = Inr (n, token)"
    using assms(1) by (auto simp: resolve_credential_def split: sum.splits prod.splits)
  obtain s1 found where f: "find_credential cl v s hdir p False n token = (s1, Inr found)"
    using assms(1,2) i by (auto simp: resolve_credential_def split: sum.splits prod.splits)
  let ?t = "case found of Some c \<Rightarrow> if token = [] then cr_api_key c else token | None \<Rightarrow> token"
  let ?c = "case found of Some c \<Rightarrow> c | None \<Rightarrow> plain_credential [] [] []"
  define t where "t = ?t"
  define k where "k = ?c"
  have e: "(if co_token_required opt \<and> t = [] then Inl (missing_api_key n)
      else bind_result (credential_placement opt p n found) (\<lambda>q.
        let sel = p\<lparr>pf_fs_name := n, pf_fs_tenant := n, pf_fs_placement := pl_code q, pf_fs_provider := pl_provider q,
                    pf_fs_region := pl_native q, pf_fs_api_key := t\<rparr>
        in Inr (if found \<noteq> None \<and> t = cr_api_key k
                then sel\<lparr>pf_fs_token_id := cr_token_id k, pf_fs_scope_kind := cr_scope_kind k, pf_fs_token_name := cr_token_name k\<rparr>
                else sel, k\<lparr>cr_id := n, cr_region := pl_code q, cr_api_key := t, cr_local := t \<noteq> []\<rparr>))) = Inr (chosen, c)"
    using assms(1,2) by (simp add: resolve_credential_def i f Let_def t_def k_def cong: if_cong)
  then obtain q where q: "credential_placement opt p n found = Inr q" by (auto split: if_splits)
  note e = e [unfolded q bind_result.simps Let_def]
  have req: "co_token_required opt \<longrightarrow> t \<noteq> []" using e by (auto split: if_splits)
  have ch: "pf_fs_tenant chosen = n" "pf_fs_placement chosen = pl_code q" "pf_fs_api_key chosen = t"
      "pf_fs_token_id chosen = (if found \<noteq> None \<and> t = cr_api_key k then cr_token_id k else pf_fs_token_id p)"
      "cr_id c = n" "cr_region c = pl_code q" "cr_api_key c = t"
    using e by (auto split: if_splits)
  note fr = find_credential_run [OF f assms(3)]
  obtain m where m: "validate_file_system_id n = Inr m" using fr(1) by blast
  have tm: "m = trim_space n" using m by (simp add: validate_ok)
  have reg: "pl_code q = cr_region d" if h: "found = Some d" "check_credential cl (pf_name p) m y = Inr d" for d y
  proof -
    have "\<exists>q0. parse_placement_code (cr_region d) = Inr q0 \<and> pl_code q0 = cr_region d"
      using h(2) parse_stable by (auto simp: check_credential_ok)
    then show ?thesis using q h(1) by (auto simp: credential_placement_def parse_placement_def Let_def split: if_splits sum.splits)
  qed
  have st: "case hm_files s (cred_file hdir (pf_name p) m) of
         None \<Rightarrow> cr_api_key c = token \<and> pf_fs_token_id chosen = pf_fs_token_id p
       | Some x \<Rightarrow> (\<exists>d. check_credential cl (pf_name p) m (hf_data x) = Inr d \<and> cr_region c = cr_region d
           \<and> (token = [] \<longrightarrow> cr_api_key c = cr_api_key d)
           \<and> pf_fs_token_id chosen = (if cr_api_key c = cr_api_key d then cr_token_id d else pf_fs_token_id p))"
  proof (cases "hm_files s (cred_file hdir (pf_name p) m)")
    case None
    then have "found = None" using fr(1) m by auto
    then show ?thesis using None ch(4,7) by (simp add: t_def)
  next
    case (Some x)
    then obtain d where d: "check_credential cl (pf_name p) m (hf_data x) = Inr d" "found = Some d"
      using fr(1) fr(2) [OF m Some] m by (cases "check_credential cl (pf_name p) m (hf_data x)") auto
    have "k = d" "token = [] \<longrightarrow> t = cr_api_key d" by (simp_all add: k_def t_def d(2))
    then show ?thesis using Some ch(4,6,7) reg [OF d(2,1)] d by auto
  qed
  have tk: "cr_api_key c = token" if "token \<noteq> []" using that by (simp add: ch(7) t_def split: option.split)
  show ?thesis
    using i m [unfolded tm] ch(1-3,5-7) req tk id_and_token_ok(2,3) [OF i] st [unfolded tm] by auto
qed

section \<open>The migration\<close>

text \<open>Failing calls that neither say that a file is missing nor carry a code of the program.\<close>

definition quiet :: "home_env \<Rightarrow> bool" where
  "quiet v \<longleftrightarrow> (\<forall>n e. he_fail v n = Some e \<longrightarrow> \<not> errors_is e Err_Not_Exist \<and> code_for (Some e) = [])"

lemma get_not_found:
  assumes "validate_file_system_id n0 = Inr n" "get_credential cl v s hdir p n0 = (s1, Inl e)" "quiet v"
    and "code_for (Some e) = ''fs.credential_not_found''"
  shows "hm_files s (cred_file hdir p n) = None"
proof -
  obtain s0 a where rd: "hm_read v s (cred_file hdir p n) = (s0, a)" by force
  have bad: "code_for (Some e) \<noteq> ''fs.credential_not_found''" if "check_credential cl q m d = Inl e" for q m d e
    using that by (auto simp: check_credential_def credential_error_def Let_def split: sum.splits if_splits)
  show ?thesis
  proof (cases a)
    case (Inl g)
    then show ?thesis
      using assms rd credential_path_valid(1) [OF validate_again [OF assms(1)]]
      by (auto simp: get_credential_def hm_read_def quiet_def split: option.splits if_splits)
  next
    case (Inr d)
    then show ?thesis
      using assms(1,2,4) rd credential_path_valid(1) [OF validate_again [OF assms(1)]] bad
      by (auto simp: get_credential_def credential_error_def Let_def split: option.splits prod.splits)
  qed
qed

text \<open>\<open>holds f hdir p n d\<close>: the document of \<open>n\<close> decodes to \<open>d\<close>.\<close>

definition holds :: "cred_lib \<Rightarrow> hfiles \<Rightarrow> string \<Rightarrow> string \<Rightarrow> string \<Rightarrow> credential \<Rightarrow> bool" where
  "holds cl f hdir p n d \<longleftrightarrow> (\<exists>x. map_option hf_data (f (cred_file hdir p n)) = Some x \<and> check_credential cl p n x = Inr d)"

lemma holds_restricted: "restricted f0 q f \<Longrightarrow> holds cl f hdir p n d \<longleftrightarrow> holds cl f0 hdir p n d"
  by (simp add: holds_def restricted_data)

lemma store_keeps_held:
  assumes "good_path hdir" "quiet v" "store_credential_record cl v s hdir (Some p) c False = (s', r)"
    and "holds cl (hm_files s) hdir u m d" "validate_file_system_id m = Inr m"
  shows "holds cl (hm_files s') hdir u m d"
  using assms(3)
proof (cases rule: store_credential_cases)
  case (read n q s1 k)
  then show ?thesis
    using assms(4) holds_restricted [OF all_states_end [OF get_credential_run(1) [OF validate_again [OF read(1)] read(3)]]] by simp
next
  case (written n q s1 k)
  note n = validate_again [OF written(1)]
  note re = all_states_end [OF get_credential_run(1) [OF n written(3)]]
  obtain e where e: "k = Inl e" using written(5) by (cases k) auto
  have none: "hm_files s (cred_file hdir (pf_name p) n) = None"
    using get_not_found [OF n written(3) [unfolded e] assms(2) written(6) [OF e]] .
  then have ne: "cred_file hdir u m \<noteq> cred_file hdir (pf_name p) n" using assms(4) by (auto simp: holds_def)
  have "hm_files s' (cred_file hdir u m) = hm_files s1 (cred_file hdir u m)"
    using assms(4) re by (intro write_credential_others [OF assms(1) n written(4) ne]) (auto simp: holds_def restricted_def split: if_splits)
  moreover have "holds cl (hm_files s1) hdir u m d" using assms(4) holds_restricted [OF re] by simp
  ultimately show ?thesis by (simp add: holds_def)
qed (use assms(4) in auto)

lemma store_holds:
  assumes "cred_ok cl" "good_path hdir" "store_credential_record cl v s hdir (Some p) c b = (s', Inr r)"
  obtains n q where "validate_file_system_id (cr_id c) = Inr n" "parse_placement_code (first_set [cr_region c, pf_placement p]) = Inr q"
    "holds cl (hm_files s') hdir (pf_name p) n (normal_credential c n q)"
  using assms(3)
proof (cases rule: store_credential_cases)
  case (read n q s1 k)
  have k: "k = Inr r" "credentials_equal r (normal_credential c n q)" using read(5) by simp_all
  note gr = get_credential_run [OF validate_again [OF read(1)] read(3)]
  obtain x where x: "hm_files s (cred_file hdir (pf_name p) n) = Some x" "check_credential cl (pf_name p) n (hf_data x) = Inr r"
    using gr(2) k(1) by blast
  have "holds cl (hm_files s) hdir (pf_name p) n (normal_credential c n q)"
    using x equal_credential [OF k(2) x(2)] by (auto simp: holds_def)
  then show ?thesis using that read(1,2,4) holds_restricted [OF all_states_end [OF gr(1)]] by simp
next
  case (written n q s1 k)
  then show ?thesis
    using that write_credential_run(2) [OF assms(2) validate_again [OF written(1)] written(4)] written_credential [OF assms(1) written(2)]
    by (fastforce simp: holds_def)
qed auto

lemma store_pending_keeps:
  assumes "good_path hdir" "quiet v" "store_pending cl v s hdir p xs = (s', r)"
    and "holds cl (hm_files s) hdir u m d" "validate_file_system_id m = Inr m"
  shows "holds cl (hm_files s') hdir u m d"
  using assms(3,4)
proof (induction xs arbitrary: s)
  case (Cons y xs)
  obtain n c where y: "y = (n, c)" by force
  obtain s1 k where st: "store_credential cl v s hdir (Some p) n (cr_region c) (cr_api_key c) False = (s1, k)" by force
  have "holds cl (hm_files s1) hdir u m d"
    using store_keeps_held [OF assms(1,2) st [unfolded store_credential_def] Cons.prems(2) assms(5)] .
  then show ?case using Cons.IH Cons.prems(1) by (cases k) (auto simp: y st)
qed simp

lemma store_pending_stored:
  assumes "cred_ok cl" "good_path hdir" "quiet v" "store_pending cl v s hdir p xs = (s', None)" "(n, c) \<in> set xs"
  shows "\<exists>m q. validate_file_system_id n = Inr m \<and> parse_placement_code (first_set [cr_region c, pf_placement p]) = Inr q
    \<and> holds cl (hm_files s') hdir (pf_name p) m (normal_credential (plain_credential n (cr_region c) (cr_api_key c)) m q)"
  using assms(4,5)
proof (induction xs arbitrary: s)
  case (Cons y xs)
  obtain a b where y: "y = (a, b)" by force
  obtain s1 k where st: "store_credential cl v s hdir (Some p) a (cr_region b) (cr_api_key b) False = (s1, k)" by force
  have k: "is_ok k" "store_pending cl v s1 hdir p xs = (s', None)" using Cons.prems(1) by (cases k; auto simp: y st)+
  show ?case
  proof (cases "(n, c) \<in> set xs")
    case False
    then have nc: "a = n" "b = c" using Cons.prems(2) y by auto
    obtain r where r: "k = Inr r" using k(1) by (cases k) auto
    obtain m q where mq: "validate_file_system_id n = Inr m" "parse_placement_code (first_set [cr_region c, pf_placement p]) = Inr q"
      "holds cl (hm_files s1) hdir (pf_name p) m (normal_credential (plain_credential n (cr_region c) (cr_api_key c)) m q)"
      using store_holds [OF assms(1,2) st [unfolded store_credential_def r]] by (auto simp: nc plain_credential_def)
    then show ?thesis using store_pending_keeps [OF assms(2,3) k(2) mq(3) validate_again [OF mq(1)]] by blast
  qed (use Cons.IH k(2) in blast)
qed simp

lemma check_resource_ok:
  assumes "check_resource cl p n x y = Inr r"
  shows "\<exists>q. parse_placement_code (rs_region r) = Inr q \<and> rs_region r = pl_code q" "trim_space (rs_api_key r) = rs_api_key r"
    "rs_api_key r \<noteq> []" "rs_name r = n"
  using assms parse_stable by (auto simp: check_resource_def Let_def split: sum.splits if_splits)

lemma list_entries_ok:
  "list_entries cl v s dir p ks = (s', Inr rs) \<Longrightarrow> r \<in> set rs \<Longrightarrow> \<exists>n x y. check_resource cl p n x y = Inr r"
proof (induction ks arbitrary: s rs)
  case (Cons k ks)
  obtain n where n: "decode_key k = Some n" using Cons.prems(1) by (auto split: option.splits)
  obtain s1 a where a: "read_resource_dir cl v s (path_join [dir, k]) p n = (s1, a)" by force
  obtain z where z: "a = Inr z" using Cons.prems(1) n a by (cases a) auto
  obtain rs' where l: "list_entries cl v s1 dir p ks = (s', Inr rs')" "rs = z # rs'"
    using Cons.prems(1) n a z by (auto split: sum.splits prod.splits)
  have "\<exists>x y. check_resource cl p n x y = Inr z"
    using a z by (auto simp: read_resource_dir_def Let_def split: prod.splits sum.splits option.splits if_splits)
  then show ?case using Cons.IH [OF l(1)] Cons.prems(2) l(2) by auto
qed simp

lemma list_resources_ok:
  assumes "list_resources cl v s hdir p = (s', Inr rs)" "r \<in> set rs"
  shows "\<exists>n x y. check_resource cl p n x y = Inr r"
  using assms by (auto simp: list_resources_def Let_def dest: list_entries_ok split: prod.splits sum.splits if_splits)

lemma candidates_cover:
  "migration_candidates p rs acc = Inr cs \<Longrightarrow>
     (\<forall>r\<in>set rs. \<exists>c. map_of cs (rs_tenant r) = Some c \<and> cr_region c = rs_region r \<and> cr_api_key c = rs_api_key r)
   \<and> (\<forall>n d. map_of acc n = Some d \<longrightarrow> (\<exists>c. map_of cs n = Some c \<and> cr_region c = cr_region d \<and> cr_api_key c = cr_api_key d))"
proof (induction rs arbitrary: acc)
  case (Cons r rs)
  let ?c = "plain_credential (rs_tenant r) (rs_region r) (rs_api_key r)"
  have rec: "migration_candidates p rs (AList.update (rs_tenant r) ?c acc) = Inr cs"
    and old: "\<And>d. map_of acc (rs_tenant r) = Some d \<Longrightarrow> cr_region d = rs_region r \<and> cr_api_key d = rs_api_key r"
    using Cons.prems by (auto simp: Let_def plain_credential_def split: option.splits if_splits)
  note ih = Cons.IH [OF rec]
  have m: "map_of (AList.update (rs_tenant r) ?c acc) n = (if n = rs_tenant r then Some ?c else map_of acc n)" for n
    by (simp add: update_conv')
  have c: "cr_region ?c = rs_region r" "cr_api_key ?c = rs_api_key r" by (simp_all add: plain_credential_def)
  have "\<exists>k. map_of cs (rs_tenant r) = Some k \<and> cr_region k = rs_region r \<and> cr_api_key k = rs_api_key r"
    using ih m c by (metis (no_types, lifting))
  moreover have "\<exists>k. map_of cs n = Some k \<and> cr_region k = cr_region d \<and> cr_api_key k = cr_api_key d" if "map_of acc n = Some d" for n d
    using ih m c old that by (cases "n = rs_tenant r") (metis (no_types, lifting))+
  ultimately show ?case using ih by simp
qed simp

lemma write_state_keeps:
  assumes "good_path hdir" "write_migration_state cl v s hdir p ids = (s', r)" "holds cl (hm_files s) hdir u m d"
    and "validate_file_system_id m = Inr m"
  shows "holds cl (hm_files s') hdir u m d"
proof -
  let ?f = "migration_state_path hdir p" and ?xs = "[''.ti'', ''fs_credentials'', encode_key (normalized_profile p)]"
  have j: "?f = path_join (hdir # ?xs @ [''.legacy-name-registry-migration''])"
    using join_again [OF assms(1), of ?xs "[''.legacy-name-registry-migration'']"]
    by (simp add: migration_state_path_def credential_profile_dir_def)
  have g: "good_path ?f" "path_base ?f = ''.legacy-name-registry-migration''"
    unfolding j using join_home [OF assms(1), of "?xs @ [''.legacy-name-registry-migration'']"] by simp_all
  have ne: "cred_file hdir u m \<noteq> ?f" using cred_file_good(3) [OF assms(1,4), of u] g(2) by auto
  have h: "hm_files s (cred_file hdir u m) \<noteq> None" using assms(3) by (auto simp: holds_def)
  obtain w where w: "write_doc (cl_put_state cl (1, sort ids)) v s ?f 384 = (s', w)"
    using assms(2) by (auto simp: write_migration_state_def split: prod.splits option.splits)
  have "hm_files s' (cred_file hdir u m) = hm_files s (cred_file hdir u m)"
  proof (cases "cl_put_state cl (1, sort ids)")
    case (Inr x)
    then have "fscred_write v s ?f x 384 = (s', w)" using w by (simp add: write_doc_def)
    then show ?thesis using fscred.failed_keeps [OF g(1)] h ne by blast
  qed (use w in \<open>simp add: write_doc_def\<close>)
  then show ?thesis using assms(3) by (simp add: holds_def)
qed

text \<open>C22: The migration by name loses no token it has to migrate: when it succeeds, every entry of
  the registry that was not yet recorded as migrated has a credential under its identifier with
  the token and the region of the registry, in whichever order the two loops visit the map.
  (An entry recorded as migrated is passed over, so a credential deleted since stays deleted.)\<close>

theorem migration_keeps_tokens:
  assumes "cred_ok cl" "good_path hdir" "quiet v" "\<And>xs. set (ord2 xs) = set xs"
    and "migrate_name_registry lib cl v now ord1 ord2 s hdir (Some p0) = (s', q, None)"
  shows "\<exists>s1 p s2 rs s3 migrated. migrate_legacy lib cl v now s hdir p0 = (s1, p, None)
    \<and> list_resources cl v s1 hdir (pf_name p) = (s2, Inr rs)
    \<and> load_migration_state cl v s2 hdir (pf_name p) = (s3, Inr migrated)
    \<and> (\<forall>r\<in>set rs. rs_tenant r \<notin> set migrated \<longrightarrow> (\<exists>m d. validate_file_system_id (rs_tenant r) = Inr m
        \<and> holds cl (hm_files s') hdir (pf_name p) m d \<and> cr_api_key d = rs_api_key r \<and> cr_region d = rs_region r))"
proof -
  obtain s1 p where l: "migrate_legacy lib cl v now s hdir p0 = (s1, p, None)"
    using assms(5) by (auto simp: migrate_name_registry_def split: prod.splits option.splits)
  obtain s2 rs where rs: "list_resources cl v s1 hdir (pf_name p) = (s2, Inr rs)"
    using assms(5) by (auto simp: migrate_name_registry_def l split: prod.splits sum.splits)
  obtain cs where cs: "migration_candidates (pf_name p) rs [] = Inr cs"
    using assms(5) by (auto simp: migrate_name_registry_def l rs split: sum.splits)
  obtain s3 migrated where ms: "load_migration_state cl v s2 hdir (pf_name p) = (s3, Inr migrated)"
    using assms(5) by (auto simp: migrate_name_registry_def l rs cs split: prod.splits sum.splits)
  let ?pending = "filter (\<lambda>(n, _). n \<notin> set migrated) cs"
  obtain s4 where ck: "check_pending cl v s3 hdir (pf_name p) (ord1 ?pending) = (s4, None)"
    using assms(5) by (auto simp: migrate_name_registry_def l rs cs ms Let_def split: prod.splits option.splits)
  obtain s5 where sp: "store_pending cl v s4 hdir p (ord2 ?pending) = (s5, None)"
    using assms(5) by (auto simp: migrate_name_registry_def l rs cs ms ck Let_def split: prod.splits option.splits)
  have fin: "s' = s5 \<or> (\<exists>r. write_migration_state cl v s5 hdir (pf_name p) (migrated @ map fst ?pending) = (s', r))"
    using assms(5) by (auto simp: migrate_name_registry_def l rs cs ms ck sp Let_def split: prod.splits if_splits)
  have "\<exists>m d. validate_file_system_id (rs_tenant r) = Inr m
        \<and> holds cl (hm_files s') hdir (pf_name p) m d \<and> cr_api_key d = rs_api_key r \<and> cr_region d = rs_region r"
    if r: "r \<in> set rs" "rs_tenant r \<notin> set migrated" for r
  proof -
    obtain c where c: "map_of cs (rs_tenant r) = Some c" "cr_region c = rs_region r" "cr_api_key c = rs_api_key r"
      using candidates_cover [OF cs] r(1) by blast
    have "(rs_tenant r, c) \<in> set (ord2 ?pending)" using map_of_SomeD [OF c(1)] r(2) by (simp add: assms(4))
    then obtain m q where m: "validate_file_system_id (rs_tenant r) = Inr m"
      "parse_placement_code (first_set [cr_region c, pf_placement p]) = Inr q"
      "holds cl (hm_files s5) hdir (pf_name p) m (normal_credential (plain_credential (rs_tenant r) (cr_region c) (cr_api_key c)) m q)"
      using store_pending_stored [OF assms(1-3) sp] by blast
    obtain n x y where o: "check_resource cl (pf_name p) n x y = Inr r" using list_resources_ok [OF rs r(1)] by blast
    obtain q0 where q0: "parse_placement_code (rs_region r) = Inr q0" "rs_region r = pl_code q0" using check_resource_ok(1) [OF o] by blast
    have "parse_placement_code (trim_space (rs_region r)) = Inr q0" using q0(1) by (simp add: parse_placement_code_def)
    moreover have "trim_space (rs_region r) \<noteq> []"
      using q0(1) by (auto simp: parse_placement_code_def cut_at_def Let_def)
    ultimately have "q = q0" using m(2) by (simp add: c(2))
    moreover have "holds cl (hm_files s') hdir (pf_name p) m (normal_credential (plain_credential (rs_tenant r) (cr_region c) (cr_api_key c)) m q)"
      using fin m(3) write_state_keeps [OF assms(2) _ m(3) validate_again [OF m(1)]] by blast
    ultimately show ?thesis
      using m(1) check_resource_ok(2) [OF o] q0(2) c(2,3) by (fastforce simp: normal_credential_def plain_credential_def)
  qed
  then show ?thesis using l rs ms by blast
qed

lemma get_keeps_held:
  assumes "get_credential cl v s hdir u n0 = (s1, k)" "holds cl (hm_files s) hdir w m d"
  shows "holds cl (hm_files s1) hdir w m d"
proof (cases "validate_file_system_id n0")
  case (Inr n)
  show ?thesis
    using holds_restricted [OF all_states_end [OF get_credential_run(1) [OF Inr assms(1)]]] assms(2) by simp
qed (use assms in \<open>simp add: get_credential_def\<close>)

lemma check_pending_keeps:
  assumes "check_pending cl v s hdir u xs = (s', e)" "holds cl (hm_files s) hdir w m d"
  shows "holds cl (hm_files s') hdir w m d"
  using assms
proof (induction xs arbitrary: s)
  case (Cons y xs)
  obtain n c where y: "y = (n, c)" by force
  obtain s1 k where g: "get_credential cl v s hdir u n = (s1, k)" by force
  have h: "holds cl (hm_files s1) hdir w m d" using get_keeps_held [OF g Cons.prems(2)] .
  then show ?case using Cons.IH [OF _ h] Cons.prems(1) by (auto simp: y g split: sum.splits if_splits)
qed simp

text \<open>C21: A token that is known better blocks the migration for good: as long as one entry of the
  registry that is not recorded as migrated has a local credential with a token id (also when
  its token and region are those of the registry), the migration ends in an error, whatever the
  other entries are and in whichever order they are visited, and the credential stays as it
  was, so the next attempt fails as well.\<close>

theorem known_token_blocks_migration:
  assumes "cred_ok cl" "good_path hdir" "quiet v" "\<And>xs. set (ord2 xs) = set xs"
    and "migrate_legacy lib cl v now s hdir p0 = (s1, p, None)" "list_resources cl v s1 hdir (pf_name p) = (s2, Inr rs)"
    and "load_migration_state cl v s2 hdir (pf_name p) = (s3, Inr migrated)"
    and "r \<in> set rs" "rs_tenant r \<notin> set migrated" "validate_file_system_id (rs_tenant r) = Inr n"
    and "holds cl (hm_files s3) hdir (pf_name p) n d" "cr_token_id d \<noteq> []"
  shows "\<exists>s' e. migrate_name_registry lib cl v now ord1 ord2 s hdir (Some p0) = (s', Some p, Some e)
    \<and> holds cl (hm_files s') hdir (pf_name p) n d"
proof (cases "migration_candidates (pf_name p) rs []")
  case (Inl e)
  have "hm_files s3 = hm_files s2"
    using assms(7) by (auto simp: load_migration_state_def Let_def hm_read_def split: prod.splits sum.splits option.splits if_splits)
  then show ?thesis using assms(11) by (simp add: migrate_name_registry_def assms(5,6) Inl)
next
  case (Inr cs)
  let ?pending = "filter (\<lambda>(n, _). n \<notin> set migrated) cs"
  note run = migrate_name_registry_def assms(5-7) Inr Let_def
  obtain s4 e4 where ck: "check_pending cl v s3 hdir (pf_name p) (ord1 ?pending) = (s4, e4)" by force
  have h4: "holds cl (hm_files s4) hdir (pf_name p) n d" by (rule check_pending_keeps [OF ck assms(11)])
  show ?thesis
  proof (cases e4)
    case None
    obtain s5 e5 where sp: "store_pending cl v s4 hdir p (ord2 ?pending) = (s5, e5)" by force
    have h5: "holds cl (hm_files s5) hdir (pf_name p) n d"
      by (rule store_pending_keeps [OF assms(2,3) sp h4 validate_again [OF assms(10)]])
    obtain c where c: "map_of cs (rs_tenant r) = Some c" using candidates_cover [OF Inr] assms(8) by blast
    have "(rs_tenant r, c) \<in> set (ord2 ?pending)" using map_of_SomeD [OF c] assms(9) by (simp add: assms(4))
    then have "e5 \<noteq> None"
      using store_pending_stored [OF assms(1-3), of s4 p "ord2 ?pending" s5] sp h5 assms(10,12)
      by (fastforce simp: holds_def normal_credential_def plain_credential_def)
    then show ?thesis using ck None sp h5 by (auto simp: run)
  qed (use ck h4 in \<open>simp add: run\<close>)
qed

text \<open>The error of that migration: for a registry with this one entry, of which nothing was
  migrated yet, it is the conflict, although token and region agree.\<close>

theorem known_token_conflict:
  assumes "\<And>i. he_fail v i = None" "\<And>z. ord1 [z] = [z]" "\<And>z. ord2 [z] = [z]"
    and "migrate_legacy lib cl v now s hdir p0 = (s1, p, None)" "list_resources cl v s1 hdir (pf_name p) = (s2, Inr [r])"
    and "load_migration_state cl v s2 hdir (pf_name p) = (s3, Inr [])" "validate_file_system_id (rs_tenant r) = Inr n"
    and "holds cl (hm_files s3) hdir (pf_name p) n d" "cr_api_key d = rs_api_key r" "cr_region d = rs_region r" "cr_token_id d \<noteq> []"
  shows "\<exists>s'. migrate_name_registry lib cl v now ord1 ord2 s hdir (Some p0)
    = (s', Some p, Some (id_conflict (pf_name p) (rs_tenant r)))"
proof -
  let ?c = "plain_credential (rs_tenant r) (rs_region r) (rs_api_key r)"
  obtain k x y where o: "check_resource cl (pf_name p) k x y = Inr r" using list_resources_ok [OF assms(5)] by auto
  obtain q where q: "parse_placement_code (rs_region r) = Inr q" using check_resource_ok(1) [OF o] by blast
  have t: "trim_space (rs_region r) \<noteq> []" "parse_placement_code (trim_space (rs_region r)) = Inr q" "trim_space (rs_api_key r) \<noteq> []"
    using q check_resource_ok(2,3) [OF o] by (auto simp: parse_placement_code_def cut_at_def Let_def)
  have get: "\<exists>s5. get_credential cl v s4 hdir (pf_name p) m = (s5, Inr d) \<and> holds cl (hm_files s5) hdir (pf_name p) n d"
    if h: "holds cl (hm_files s4) hdir (pf_name p) n d" and m: "validate_file_system_id m = Inr n" for s4 m
  proof -
    obtain s5 z where g: "get_credential cl v s4 hdir (pf_name p) m = (s5, z)" by force
    obtain u where "hm_files s4 (cred_file hdir (pf_name p) n) = Some u" "check_credential cl (pf_name p) n (hf_data u) = Inr d"
      using h by (auto simp: holds_def)
    then show ?thesis
      using get_credential_run(4) [OF m g _ assms(1)] holds_restricted [OF all_states_end [OF get_credential_run(1) [OF m g]]] h g by auto
  qed
  obtain s4 where s4: "get_credential cl v s3 hdir (pf_name p) (rs_tenant r) = (s4, Inr d)" "holds cl (hm_files s4) hdir (pf_name p) n d"
    using get [OF assms(8,7)] by blast
  obtain s5 where s5: "get_credential cl v s4 hdir (pf_name p) n = (s5, Inr d)" using get [OF s4(2) validate_again [OF assms(7)]] by blast
  have cs: "migration_candidates (pf_name p) [r] [] = Inr [(rs_tenant r, ?c)]" by (simp add: Let_def)
  have ck: "check_pending cl v s3 hdir (pf_name p) [(rs_tenant r, ?c)] = (s4, None)"
    using assms(9,10) by (simp add: s4(1) plain_credential_def)
  have ne: "\<not> credentials_equal d (normal_credential ?c n q)"
    using assms(11) by (simp add: credentials_equal_def normal_credential_def plain_credential_def)
  have "store_credential cl v s4 hdir (Some p) (rs_tenant r) (rs_region r) (rs_api_key r) False
      = (s5, Inl (credential_error ''fs.credential_import_conflict'' (pf_name p) n ''a different local token or region is already stored''))"
    using assms(7) t s5 ne
    by (simp add: store_credential_def store_credential_record_def plain_credential_def parse_placement_def Let_def)
  then have "store_pending cl v s4 hdir p [(rs_tenant r, ?c)] = (s5, Some (id_conflict (pf_name p) (rs_tenant r)))"
    by (simp add: plain_credential_def credential_error_def Let_def)
  then show ?thesis
    by (simp add: migrate_name_registry_def assms(2-6) cs ck Let_def
        del: check_pending.simps store_pending.simps migration_candidates.simps)
qed

section \<open>The identifier in a token\<close>

lemma encoded_graphic: "list_all is_graphic (encode_to_string s)"
proof -
  have "is_graphic c" if "b64_char c" for c
  proof -
    have "list_all is_graphic b64_alphabet" by code_simp
    then show ?thesis using that by (simp add: b64_char_def list_all_iff)
  qed
  then show ?thesis using encode_chars [of s] by (auto simp: list_all_iff)
qed

lemma split_dots: "split_on (CHR ''.'') (encode_to_string a @ ''.'' @ encode_to_string b @ ''.'' @ encode_to_string c)
    = [encode_to_string a, encode_to_string b, encode_to_string c]"
proof -
  have n: "split_on (CHR ''.'') (encode_to_string x) = [encode_to_string x]" for x
  proof (cases "x = []")
    case False
    then show ?thesis using split_join [of "[encode_to_string x]" "CHR ''.''"] encode_clean [OF False] by simp
  qed simp
  show ?thesis
    using split_on_append [of "CHR ''.''" "encode_to_string a" "encode_to_string b @ ''.'' @ encode_to_string c"]
      split_on_append [of "CHR ''.''" "encode_to_string b" "encode_to_string c"] by (simp add: n)
qed

definition make_token :: "string \<Rightarrow> string \<Rightarrow> string \<Rightarrow> string \<Rightarrow> string" where
  "make_token prefix header payload sig =
     prefix @ encode_to_string (encode_to_string header @ ''.'' @ encode_to_string payload @ ''.'' @ encode_to_string sig)"

text \<open>The identifier is read out of every well-formed token: wrapping a claim for a valid
  identifier the way the service does and reading the token gives that identifier, trimmed.\<close>

theorem token_round_trip:
  assumes "prefix \<in> {''drive9_'', ''dat9_''}" "cl_tenant cl payload = Inr t" "validate_file_system_id t = Inr n"
  shows "file_system_id_from_token cl (make_token prefix header payload sig) = Inr n"
proof -
  have "list_all is_graphic (make_token prefix header payload sig)"
    using assms(1) encoded_graphic by (auto simp: make_token_def is_graphic_def byte_of_def)
  then have tr: "trim_space (make_token prefix header payload sig) = make_token prefix header payload sig"
    by (rule trim_space_graphic_all)
  have un: "unwrap_token (make_token prefix header payload sig)
      = Some (encode_to_string (encode_to_string header @ ''.'' @ encode_to_string payload @ ''.'' @ encode_to_string sig))"
    using assms(1) by (auto simp: unwrap_token_def make_token_def has_prefix_def trim_prefix_def)
  have "trim_space t \<noteq> []" using assms(3) by (auto simp: validate_ok)
  then show ?thesis
    unfolding file_system_id_from_token_def tr un by (simp only: option.case decode_encode split_dots list.case assms(2,3) sum.case if_False)
qed

section \<open>A small machine\<close>

definition demo_plain :: credential where
  "demo_plain = plain_credential ''fs-1'' ''aws-us-east-1'' ''key''"

definition demo_known :: credential where
  "demo_known = demo_plain\<lparr>cr_token_id := ''tok-1''\<rparr>"

definition demo_bad :: go_error where
  "demo_bad = Msg (Lit ''invalid'')"

definition demo_codec :: cred_lib where
  "demo_codec = \<lparr>
     cl_resource = (\<lambda>x. if x = ''R'' then Inr \<lparr>rs_name = ''data'', rs_tenant = ''fs-1'', rs_provider = ''aws'',
       rs_region = ''aws-us-east-1'', rs_created = [], rs_has_key = False, rs_api_key = []\<rparr> else Inl demo_bad),
     cl_put_resource = (\<lambda>_. Inl demo_bad), cl_api_key = (\<lambda>x. if x = ''A'' then Inr ''key'' else Inl demo_bad), cl_put_api_key = (\<lambda>_. Inl demo_bad),
     cl_credential = (\<lambda>x. if x = ''K'' then Inr demo_plain else if x = ''T'' then Inr demo_known else Inl demo_bad),
     cl_put_credential = (\<lambda>c. if c\<lparr>cr_local := False\<rparr> = demo_plain then Inr ''K'' else Inl demo_bad),
     cl_state = (\<lambda>x. if x = ''S'' then Inr (1, [''fs-1'']) else Inl demo_bad),
     cl_put_state = (\<lambda>t. if t = (1, [''fs-1'']) then Inr ''S'' else Inl demo_bad),
     cl_tenant = (\<lambda>_. Inr ''fs-1'')\<rparr>"

lemma demo_codec_ok: "cred_ok demo_codec"
  by (auto simp: cred_ok_def demo_codec_def Let_def split: if_splits)

definition demo_profile :: profile where
  "demo_profile = \<lparr>pf_name = ''work'', pf_home = ''/h'', pf_source = ''profile'', pf_placement = ''aws-us-east-1'', pf_provider = ''aws'',
     pf_region = ''us-east-1'', pf_public = [], pf_private = [], pf_fs_name = [], pf_fs_tenant = [], pf_fs_placement = [],
     pf_fs_provider = [], pf_fs_region = [], pf_fs_api_key = [], pf_fs_token_id = [], pf_fs_scope_kind = [], pf_fs_token_name = []\<rparr>"

text \<open>A machine with one file system in the registry, and with the same one known by its token id.\<close>

definition registry_home :: "(string \<times> string) list \<Rightarrow> home" where
  "registry_home extra =
     \<lparr>hm_files = (\<lambda>p. map_option (\<lambda>x. \<lparr>hf_mode = 384, hf_data = x\<rparr>)
        (map_of ([(''/h/.ti/fs_resources/d29yaw/ZGF0YQ/config'', ''R''), (''/h/.ti/fs_resources/d29yaw/ZGF0YQ/credentials'', ''A'')] @ extra) p)),
      hm_dirs = [''/h/.ti/fs_resources/d29yaw/ZGF0YQ''], hm_steps = 0, hm_log = []\<rparr>"

definition plain_home :: home where
  "plain_home = registry_home [(''/h/.ti/fs_credentials/d29yaw/ZnMtMQ/credentials'', ''K'')]"

definition known_home :: home where
  "known_home = registry_home [(''/h/.ti/fs_credentials/d29yaw/ZnMtMQ/credentials'', ''T'')]"

lemma demo_store: "is_ok (snd (store_credential_record demo_codec no_failures empty_home ''/h'' (Some demo_profile) demo_plain False))"
  by code_simp

lemma no_failures_quiet: "quiet no_failures"
  by (simp add: quiet_def)

lemma demo_id: "validate_file_system_id ''fs-1'' = Inr ''fs-1''" "good_path ''/h''"
  "cred_file ''/h'' ''work'' ''fs-1'' = ''/h/.ti/fs_credentials/d29yaw/ZnMtMQ/credentials''"
  by code_simp+

lemma demo_store_run:
  obtains s' r where "store_credential_record demo_codec no_failures empty_home ''/h'' (Some demo_profile) demo_plain False = (s', Inr r)"
  using demo_store
  by (cases "store_credential_record demo_codec no_failures empty_home ''/h'' (Some demo_profile) demo_plain False";
      cases "snd (store_credential_record demo_codec no_failures empty_home ''/h'' (Some demo_profile) demo_plain False)") auto

theorem store_credential_read_back_witness:
  "\<exists>s' r. store_credential_record demo_codec no_failures empty_home ''/h'' (Some demo_profile) demo_plain False = (s', Inr r)
     \<and> snd (get_credential demo_codec no_failures s' ''/h'' ''work'' ''fs-1'') = Inr r"
proof -
  obtain s' r where st: "store_credential_record demo_codec no_failures empty_home ''/h'' (Some demo_profile) demo_plain False = (s', Inr r)"
    by (rule demo_store_run)
  have p: "pf_name demo_profile = ''work''" "cr_id demo_plain = ''fs-1''"
    by (simp_all add: demo_profile_def demo_plain_def plain_credential_def)
  show ?thesis
    using store_credential_read_back [OF demo_codec_ok demo_id(2) no_failures_honest(2) st] st unfolding p by blast
qed

theorem store_credential_every_state_witness:
  "\<exists>s' q. hm_files s' ''/h/.ti/fs_credentials/d29yaw/ZnMtMQ/credentials'' \<noteq> None
     \<and> all_states (store_state demo_codec (hm_files empty_home) (cred_file ''/h'' ''work'' ''fs-1'') (normal_credential demo_plain ''fs-1'' q)) empty_home s'"
proof -
  obtain s' r where st: "store_credential_record demo_codec no_failures empty_home ''/h'' (Some demo_profile) demo_plain False = (s', Inr r)"
    by (rule demo_store_run)
  have p: "pf_name demo_profile = ''work''" "cr_id demo_plain = ''fs-1''"
    by (simp_all add: demo_profile_def demo_plain_def plain_credential_def)
  obtain n q where h: "validate_file_system_id (cr_id demo_plain) = Inr n" "holds demo_codec (hm_files s') ''/h'' (pf_name demo_profile) n (normal_credential demo_plain n q)"
    using store_holds [OF demo_codec_ok demo_id(2) st] by blast
  have "n = ''fs-1''" using h(1) demo_id(1) by (simp add: p)
  then have "hm_files s' ''/h/.ti/fs_credentials/d29yaw/ZnMtMQ/credentials'' \<noteq> None"
    using h(2) by (auto simp: holds_def p demo_id(3))
  then show ?thesis
    using store_credential_every_state [OF demo_id(2) _ st] demo_id(1) unfolding p by blast
qed

theorem conditional_delete_sound_witness:
  "\<exists>s'. delete_credential_if_token_id demo_codec no_failures known_home ''/h'' ''work'' ''fs-1'' '' tok-1'' = (s', Inr (True, []))
     \<and> hm_files s' (cred_file ''/h'' ''work'' ''fs-1'') = None"
proof -
  have "snd (delete_credential_if_token_id demo_codec no_failures known_home ''/h'' ''work'' ''fs-1'' '' tok-1'') = Inr (True, [])"
    by code_simp
  then obtain s' where d: "delete_credential_if_token_id demo_codec no_failures known_home ''/h'' ''work'' ''fs-1'' '' tok-1'' = (s', Inr (True, []))"
    by (metis prod.collapse)
  show ?thesis using conditional_delete_sound [OF demo_id(2,1) d] d by simp
qed

definition demo_choice :: credential_options where
  "demo_choice = \<lparr>co_id = ''fs-1'', co_id_explicit = True, co_token = [], co_token_explicit = False, co_region = [],
     co_token_required = True, co_env = (None, \<lambda>_. None), co_dry_run = False\<rparr>"

theorem resolve_credential_sound_witness:
  "\<exists>s' p c. resolve_credential demo_codec no_failures known_home ''/h'' (Some demo_profile) demo_choice = (s', Inr (p, c))
     \<and> pf_fs_tenant p = ''fs-1'' \<and> cr_api_key c \<noteq> [] \<and> pf_fs_api_key p = cr_api_key c"
proof -
  have "is_ok (snd (resolve_credential demo_codec no_failures known_home ''/h'' (Some demo_profile) demo_choice))" by code_simp
  then obtain s' p c where r: "resolve_credential demo_codec no_failures known_home ''/h'' (Some demo_profile) demo_choice = (s', Inr (p, c))"
    by (cases "resolve_credential demo_codec no_failures known_home ''/h'' (Some demo_profile) demo_choice";
        cases "snd (resolve_credential demo_codec no_failures known_home ''/h'' (Some demo_profile) demo_choice)") auto
  have o: "\<not> co_dry_run demo_choice" "co_token_required demo_choice" "co_id demo_choice = ''fs-1''" by (simp_all add: demo_choice_def)
  have t: "trim_space ''fs-1'' = ''fs-1''" by code_simp
  show ?thesis using resolve_credential_sound [OF r o(1) no_failures_honest(2)] r o(2) unfolding o(3) t by auto
qed

theorem token_round_trip_witness:
  "file_system_id_from_token demo_codec (make_token ''drive9_'' ''header'' ''claims'' ''signature'') = Inr ''fs-1''"
proof -
  have c: "cl_tenant demo_codec ''claims'' = Inr ''fs-1''" by (simp add: demo_codec_def)
  show ?thesis by (rule token_round_trip [OF _ c demo_id(1)]) simp
qed

theorem migration_keeps_tokens_witness:
  "\<exists>s' q. migrate_name_registry (demo_lib ''work'') demo_codec no_failures ''now'' id id plain_home ''/h'' (Some demo_profile) = (s', q, None)
     \<and> (\<exists>s1 p s2 rs. migrate_legacy (demo_lib ''work'') demo_codec no_failures ''now'' plain_home ''/h'' demo_profile = (s1, p, None)
       \<and> list_resources demo_codec no_failures s1 ''/h'' (pf_name p) = (s2, Inr rs))"
proof -
  have "snd (snd (migrate_name_registry (demo_lib ''work'') demo_codec no_failures ''now'' id id plain_home ''/h'' (Some demo_profile))) = None"
    by code_simp
  then obtain s' q where m: "migrate_name_registry (demo_lib ''work'') demo_codec no_failures ''now'' id id plain_home ''/h'' (Some demo_profile) = (s', q, None)"
    by (metis prod.collapse)
  have i: "set (id xs) = set xs" for xs :: "(string \<times> credential) list" by simp
  show ?thesis using migration_keeps_tokens [OF demo_codec_ok demo_id(2) no_failures_quiet i m] m by blast
qed

text \<open>The steps of a migration on the machine that knows the token.\<close>

abbreviation known_legacy :: "home \<times> profile \<times> go_error option" where
  "known_legacy \<equiv> migrate_legacy (demo_lib ''work'') demo_codec no_failures ''now'' known_home ''/h'' demo_profile"

abbreviation known_list :: "home \<times> (go_error + resource list)" where
  "known_list \<equiv> list_resources demo_codec no_failures (fst known_legacy) ''/h'' ''work''"

abbreviation known_state :: "home \<times> (go_error + string list)" where
  "known_state \<equiv> load_migration_state demo_codec no_failures (fst known_list) ''/h'' ''work''"

lemma known_steps:
  "snd known_legacy = (demo_profile, None)"
  "map_sum id (map (\<lambda>r. (rs_tenant r, rs_api_key r, rs_region r))) (snd known_list) = Inr [(''fs-1'', ''key'', ''aws-us-east-1'')]"
  "snd known_state = Inr []"
  "map_option hf_data (hm_files (fst known_state) ''/h/.ti/fs_credentials/d29yaw/ZnMtMQ/credentials'') = Some ''T''"
  "check_credential demo_codec ''work'' ''fs-1'' ''T'' = Inr (demo_known\<lparr>cr_local := True\<rparr>)"
  by code_simp+

theorem known_token_blocks_migration_witness:
  "\<exists>s' e. migrate_name_registry (demo_lib ''work'') demo_codec no_failures ''now'' id id known_home ''/h'' (Some demo_profile)
    = (s', Some demo_profile, Some e)
    \<and> holds demo_codec (hm_files s') ''/h'' ''work'' ''fs-1'' (demo_known\<lparr>cr_local := True\<rparr>)"
proof -
  have p: "pf_name demo_profile = ''work''" by (simp add: demo_profile_def)
  have a: "known_legacy = (fst known_legacy, demo_profile, None)" using known_steps(1) by (metis prod.collapse)
  obtain r where r: "snd known_list = Inr [r]" "rs_tenant r = ''fs-1''" "rs_api_key r = ''key''" "rs_region r = ''aws-us-east-1''"
    using known_steps(2) by (cases "snd known_list") auto
  have b: "list_resources demo_codec no_failures (fst known_legacy) ''/h'' (pf_name demo_profile) = (fst known_list, Inr [r])"
    unfolding p using r(1) by (metis prod.collapse)
  have c: "load_migration_state demo_codec no_failures (fst known_list) ''/h'' (pf_name demo_profile) = (fst known_state, Inr [])"
    unfolding p using known_steps(3) by (metis prod.collapse)
  have h: "holds demo_codec (hm_files (fst known_state)) ''/h'' (pf_name demo_profile) ''fs-1'' (demo_known\<lparr>cr_local := True\<rparr>)"
    unfolding p holds_def demo_id(3) using known_steps(4,5) by blast
  have k: "cr_api_key (demo_known\<lparr>cr_local := True\<rparr>) = rs_api_key r" "cr_region (demo_known\<lparr>cr_local := True\<rparr>) = rs_region r"
    "cr_token_id (demo_known\<lparr>cr_local := True\<rparr>) \<noteq> []"
    by (simp_all add: r demo_known_def demo_plain_def plain_credential_def)
  have v: "validate_file_system_id (rs_tenant r) = Inr ''fs-1''" using demo_id(1) by (simp add: r(2))
  have i: "set (id xs) = set xs" for xs :: "(string \<times> credential) list" by simp
  show ?thesis
    using known_token_blocks_migration [where ?ord2.0 = id, OF demo_codec_ok demo_id(2) no_failures_quiet i a b c _ _ v h k(3), of id]
    unfolding p by simp
qed

theorem known_token_conflict_witness:
  "\<exists>s'. migrate_name_registry (demo_lib ''work'') demo_codec no_failures ''now'' id id known_home ''/h'' (Some demo_profile)
    = (s', Some demo_profile, Some (id_conflict ''work'' ''fs-1''))"
proof -
  have p: "pf_name demo_profile = ''work''" by (simp add: demo_profile_def)
  have a: "known_legacy = (fst known_legacy, demo_profile, None)" using known_steps(1) by (metis prod.collapse)
  obtain r where r: "snd known_list = Inr [r]" "rs_tenant r = ''fs-1''" "rs_api_key r = ''key''" "rs_region r = ''aws-us-east-1''"
    using known_steps(2) by (cases "snd known_list") auto
  have b: "list_resources demo_codec no_failures (fst known_legacy) ''/h'' (pf_name demo_profile) = (fst known_list, Inr [r])"
    unfolding p using r(1) by (metis prod.collapse)
  have c: "load_migration_state demo_codec no_failures (fst known_list) ''/h'' (pf_name demo_profile) = (fst known_state, Inr [])"
    unfolding p using known_steps(3) by (metis prod.collapse)
  have h: "holds demo_codec (hm_files (fst known_state)) ''/h'' (pf_name demo_profile) ''fs-1'' (demo_known\<lparr>cr_local := True\<rparr>)"
    unfolding p holds_def demo_id(3) using known_steps(4,5) by blast
  have k: "cr_api_key (demo_known\<lparr>cr_local := True\<rparr>) = rs_api_key r" "cr_region (demo_known\<lparr>cr_local := True\<rparr>) = rs_region r"
    "cr_token_id (demo_known\<lparr>cr_local := True\<rparr>) \<noteq> []"
    by (simp_all add: r demo_known_def demo_plain_def plain_credential_def)
  have v: "validate_file_system_id (rs_tenant r) = Inr ''fs-1''" using demo_id(1) by (simp add: r(2))
  show ?thesis
    using known_token_conflict [OF no_failures_honest(2) _ _ a b c v h k, of id id] by (simp add: p r(2))
qed

end
