(* ===== verification/Credential_Lock.thy ===== *)
theory Credential_Lock
  imports Main
begin

text \<open>
  The lock file of a credential (\<open>WithCredentialLock\<close> of \<open>fs/fscred/credential.go\<close>): processes
  that open the file exclusively, look at its age when it is there, remove it when it is older
  than ten minutes, wait, and remove it when their work is done.  Each system call is one step;
  between two steps others run, time passes, and a process may be killed.
\<close>

section \<open>Steps\<close>

datatype lock_pc = Opening | Checking | Breaking | Waiting | Working | Returned | Killed

record lock_state =
  lk_file :: "(int \<times> nat) option"
  lk_now :: int
  lk_pc :: "nat \<Rightarrow> lock_pc"

definition stale_after :: int where
  "stale_after = 600"

definition set_pc :: "lock_state \<Rightarrow> nat \<Rightarrow> lock_pc \<Rightarrow> lock_state" where
  "set_pc s i c = s\<lparr>lk_pc := (lk_pc s)(i := c)\<rparr>"

text \<open>The file has the time it was made and who made it.  A process that is killed leaves it.\<close>

inductive lock_step :: "lock_state \<Rightarrow> lock_state \<Rightarrow> bool" where
  made: "lk_pc s i = Opening \<Longrightarrow> lk_file s = None \<Longrightarrow> lock_step s ((set_pc s i Working)\<lparr>lk_file := Some (lk_now s, i)\<rparr>)"
| exists: "lk_pc s i = Opening \<Longrightarrow> lk_file s = Some x \<Longrightarrow> lock_step s (set_pc s i Checking)"
| stale: "lk_pc s i = Checking \<Longrightarrow> lk_file s = Some (m, j) \<Longrightarrow> lk_now s - m > stale_after \<Longrightarrow> lock_step s (set_pc s i Breaking)"
| fresh: "lk_pc s i = Checking \<Longrightarrow> lk_file s = Some (m, j) \<Longrightarrow> lk_now s - m \<le> stale_after \<Longrightarrow> lock_step s (set_pc s i Waiting)"
| vanished: "lk_pc s i = Checking \<Longrightarrow> lk_file s = None \<Longrightarrow> lock_step s (set_pc s i Waiting)"
| broken: "lk_pc s i = Breaking \<Longrightarrow> lock_step s ((set_pc s i Opening)\<lparr>lk_file := None\<rparr>)"
| again: "lk_pc s i = Waiting \<Longrightarrow> lock_step s (set_pc s i Opening)"
| canceled: "lk_pc s i = Waiting \<Longrightarrow> lock_step s (set_pc s i Returned)"
| released: "lk_pc s i = Working \<Longrightarrow> lock_step s ((set_pc s i Returned)\<lparr>lk_file := None\<rparr>)"
| killed: "lk_pc s i \<noteq> Returned \<Longrightarrow> lock_step s (set_pc s i Killed)"
| passed: "0 < d \<Longrightarrow> lock_step s (s\<lparr>lk_now := lk_now s + d\<rparr>)"

definition lock_start :: lock_state where
  "lock_start = \<lparr>lk_file = None, lk_now = 0, lk_pc = \<lambda>_. Opening\<rparr>"

text \<open>The states reached by a run all of whose states satisfy \<open>P\<close>.\<close>

inductive lock_run :: "(lock_state \<Rightarrow> bool) \<Rightarrow> lock_state \<Rightarrow> bool" for P where
  start: "P lock_start \<Longrightarrow> lock_run P lock_start"
| step: "lock_run P s \<Longrightarrow> lock_step s s' \<Longrightarrow> P s' \<Longrightarrow> lock_run P s'"

section \<open>Exclusion\<close>

text \<open>The file, if it is there, is not stale.\<close>

definition lock_young :: "lock_state \<Rightarrow> bool" where
  "lock_young s \<longleftrightarrow> (case lk_file s of None \<Rightarrow> True | Some (m, _) \<Rightarrow> lk_now s - m \<le> stale_after)"

definition lock_inv :: "lock_state \<Rightarrow> bool" where
  "lock_inv s \<longleftrightarrow> (\<forall>i. lk_pc s i \<noteq> Breaking) \<and> (\<forall>i. lk_pc s i = Working \<longrightarrow> map_option snd (lk_file s) = Some i)"

lemma set_pc_simps [simp]:
  "lk_pc (set_pc s i c) = (lk_pc s)(i := c)" "lk_file (set_pc s i c) = lk_file s" "lk_now (set_pc s i c) = lk_now s"
  by (simp_all add: set_pc_def)

lemma lock_alone: "lock_inv s \<Longrightarrow> lk_pc s i = Working \<Longrightarrow> lk_pc s j = Working \<Longrightarrow> j = i"
  unfolding lock_inv_def by (metis option.inject)

lemma lock_inv_step: "lock_step s s' \<Longrightarrow> lock_young s \<Longrightarrow> lock_inv s \<Longrightarrow> lock_inv s'"
proof (induction rule: lock_step.induct)
  case (released s i)
  have "lk_pc s j \<noteq> Working" if "j \<noteq> i" for j using lock_alone [OF released(3,1)] that by blast
  then show ?case using released(3) by (simp add: lock_inv_def)
qed (auto simp: lock_inv_def lock_young_def split: if_splits)

lemma lock_run_inv: "lock_run lock_young s \<Longrightarrow> lock_inv s \<and> lock_young s"
proof (induction rule: lock_run.induct)
  case start
  then show ?case by (simp add: lock_inv_def lock_start_def lock_young_def)
next
  case (step s s')
  then show ?case using lock_inv_step by blast
qed

text \<open>C18: While nobody holds the lock of a credential for more than ten minutes and no killed holder
  left one that old, at most one process works on the credential, and the lock file is its own.\<close>

theorem lock_exclusive:
  assumes "lock_run lock_young s" "lk_pc s i = Working"
  shows "(\<exists>m. lk_file s = Some (m, i)) \<and> (\<forall>j. lk_pc s j = Working \<longrightarrow> j = i)"
proof
  have inv: "lock_inv s" using lock_run_inv [OF assms(1)] by blast
  show "\<exists>m. lk_file s = Some (m, i)" using inv assms(2) by (auto simp: lock_inv_def)
  show "\<forall>j. lk_pc s j = Working \<longrightarrow> j = i" using lock_alone [OF inv assms(2)] by blast
qed

text \<open>States in which only the first three processes have moved.\<close>

definition three :: "(int \<times> nat) option \<Rightarrow> int \<Rightarrow> lock_pc \<Rightarrow> lock_pc \<Rightarrow> lock_pc \<Rightarrow> lock_state" where
  "three f t a b c = \<lparr>lk_file = f, lk_now = t, lk_pc = \<lambda>i. if i = 0 then a else if i = 1 then b else if i = 2 then c else Opening\<rparr>"

lemma three_start: "lock_start = three None 0 Opening Opening Opening"
  by (simp add: lock_start_def three_def fun_eq_iff)

lemma three_simps [simp]:
  "lk_file (three f t a b c) = f" "lk_now (three f t a b c) = t" "lk_pc (three f t a b c) 0 = a"
  "lk_pc (three f t a b c) (Suc 0) = b" "lk_pc (three f t a b c) 2 = c"
  by (simp_all add: three_def)

lemma three_moves:
  "set_pc (three f t a b c) 0 x = three f t x b c" "set_pc (three f t a b c) (Suc 0) x = three f t a x c"
  "set_pc (three f t a b c) 2 x = three f t a b x" "three f t a b c\<lparr>lk_file := g\<rparr> = three g t a b c"
  "three f t a b c\<lparr>lk_now := u\<rparr> = three f u a b c"
  by (auto simp: three_def set_pc_def fun_eq_iff)

theorem lock_exclusive_witness:
  "\<exists>s :: lock_state. lk_pc s 0 = Working \<and> lk_file s \<noteq> None \<and> {j. lk_pc s j = Working} = {0}"
proof -
  let ?s = "three (Some (0, 0)) 0 Working Opening Opening"
  have "lock_run lock_young lock_start" by (rule lock_run.start) (simp add: lock_young_def lock_start_def)
  moreover have "lock_step lock_start ?s" using lock_step.made [of lock_start 0] by (simp add: three_start three_moves)
  ultimately have r: "lock_run lock_young ?s" by (rule lock_run.step) (simp add: lock_young_def stale_after_def)
  have w: "lk_pc ?s 0 = Working" by simp
  show ?thesis by (rule exI [of _ ?s]) (use lock_exclusive [OF r w] w in auto)
qed

text \<open>No process that is still working has held the lock for more than ten minutes.\<close>

definition holders_quick :: "lock_state \<Rightarrow> bool" where
  "holders_quick s \<longleftrightarrow> (case lk_file s of None \<Rightarrow> True | Some (m, i) \<Rightarrow> lk_pc s i = Working \<longrightarrow> lk_now s - m \<le> stale_after)"

lemma quick_step: "lock_run holders_quick s \<Longrightarrow> lock_step s t \<Longrightarrow> holders_quick t \<Longrightarrow> lock_run holders_quick t"
  by (rule lock_run.step)

lemma race_run: "lock_run holders_quick (three (Some (601, 1)) 601 Working Working Killed)"
proof -
  let ?R = "lock_run holders_quick" and ?L = "Some (0, 2) :: (int \<times> nat) option"
  note go = three_moves holders_quick_def stale_after_def
  have "?R (three None 0 Opening Opening Opening)" using lock_run.start [of holders_quick] by (simp add: three_start go)
  then have "?R (three ?L 0 Opening Opening Working)"
    by (rule quick_step) (use lock_step.made [of "three None 0 Opening Opening Opening" 2] in \<open>simp_all add: go\<close>)
  then have "?R (three ?L 0 Opening Opening Killed)"
    by (rule quick_step) (use lock_step.killed [of "three ?L 0 Opening Opening Working" 2] in \<open>simp_all add: go\<close>)
  then have "?R (three ?L 601 Opening Opening Killed)"
    by (rule quick_step) (use lock_step.passed [of 601 "three ?L 0 Opening Opening Killed"] in \<open>simp_all add: go\<close>)
  then have "?R (three ?L 601 Checking Opening Killed)"
    by (rule quick_step) (use lock_step.exists [of "three ?L 601 Opening Opening Killed" 0] in \<open>simp_all add: go\<close>)
  then have "?R (three ?L 601 Checking Checking Killed)"
    by (rule quick_step) (use lock_step.exists [of "three ?L 601 Checking Opening Killed" 1] in \<open>simp_all add: go\<close>)
  then have "?R (three ?L 601 Breaking Checking Killed)"
    by (rule quick_step) (use lock_step.stale [of "three ?L 601 Checking Checking Killed" 0] in \<open>simp_all add: go\<close>)
  then have "?R (three ?L 601 Breaking Breaking Killed)"
    by (rule quick_step) (use lock_step.stale [of "three ?L 601 Breaking Checking Killed" 1] in \<open>simp_all add: go\<close>)
  then have "?R (three None 601 Opening Breaking Killed)"
    by (rule quick_step) (use lock_step.broken [of "three ?L 601 Breaking Breaking Killed" 0] in \<open>simp_all add: go\<close>)
  then have "?R (three (Some (601, 0)) 601 Working Breaking Killed)"
    by (rule quick_step) (use lock_step.made [of "three None 601 Opening Breaking Killed" 0] in \<open>simp_all add: go\<close>)
  then have "?R (three None 601 Working Opening Killed)"
    by (rule quick_step) (use lock_step.broken [of "three (Some (601, 0)) 601 Working Breaking Killed" 1] in \<open>simp_all add: go\<close>)
  then show ?thesis
    by (rule quick_step) (use lock_step.made [of "three None 601 Working Opening Killed" 1] in \<open>simp_all add: go\<close>)
qed

text \<open>C19: Two processes that find the lock of a killed one can both enter: each looks at the old
  file, the first removes it and makes its own, and the second then removes that one, although
  no process that still works held the lock for long.\<close>

theorem stale_lock_race:
  "\<exists>s. lock_run holders_quick s \<and> lk_pc s 0 = Working \<and> lk_pc s (Suc 0) = Working"
  using race_run by (intro exI [of _ "three (Some (601, 1)) 601 Working Working Killed"]) simp

end
