(* ===== verification/Spec2Isabelle.thy ===== *)
theory Spec2Isabelle
  imports Fuse_File Mount_Overlay Telemetry_Server Sql_Single Part_Uploader Api_Client Companion
    Webdav Self_Update Settings_Store Fs_Credentials Credential_Lock
begin

text \<open>
  A verification library for \<open>ti\<close>, the command line of TiDB Cloud, and for the backend that
  receives its telemetry.

  \<^bold>\<open>The program.\<close>  The commands (\<open>internal/cli\<close>) call services for databases
  (\<open>internal/db\<close>) and file systems (\<open>internal/fs\<close>).  The services talk to the cloud through
  one HTTP client (\<open>internal/api\<close>) or run the companion binary; a mounted file system keeps a
  read cache and uploads changed parts of files.  Every error is an \<open>apperr.Error\<close> or an
  \<open>api.Error\<close> with a code and an exit code.  The telemetry backend
  (\<open>internal/telemetrybackend\<close>) validates batches of events, queues them under a bound and
  writes them to TiDB.

  \<^bold>\<open>Conventions.\<close>  Go strings and byte slices are lists of bytes, integers are mathematical
  integers with \<open>wrap64\<close> where the code can leave 64 bits, maps are partial functions or
  association lists when their order matters, structs are records.  A function that returns
  an error returns a sum whose left side is the error tree of \<open>Go_Errors\<close>; a call that can
  panic returns a \<open>run\<close>.  Third-party code, the network, clocks and decoders of the standard
  library are arguments.  Concurrent code is a step relation over its atomic steps.

  \<^bold>\<open>Theories.\<close>
  \<^item> \<open>Prelude\<close>, \<open>Go_Strings\<close>: 64-bit arithmetic, results, and the string functions of Go that
    the code calls (trimming, case, UTF-8, decimal numbers), with their laws.
  \<^item> \<open>Go_Errors\<close>: \<open>internal/apperr\<close>, \<open>internal/api/error.go\<close>, \<open>normalizeError\<close> of
    \<open>internal/cli/root.go\<close> and the classifications of errors in \<open>internal/fs\<close>.
  \<^item> \<open>Remote_Paths\<close>: \<open>path.Clean\<close> and the path functions of \<open>data.go\<close>, \<open>pack.go\<close>,
    \<open>webdavfs.go\<close>, \<open>fuse_mount.go\<close>; normal forms, confinement, the round trip between the
    two views of a mounted tree.
  \<^item> \<open>Read_Cache\<close>: \<open>fuse_version.go\<close> and \<open>fuse_cache.go\<close>; the locale \<open>version_cache\<close> is the
    contract of a versioned cache, interpreted on the code's cache.
  \<^item> \<open>Dirty_Ranges\<close>: the dirty ranges and parts of a patch upload in \<open>fuse_mount.go\<close>.
  \<^item> \<open>Write_Back\<close>: \<open>fuse_writeback.go\<close>: the store of writes that are not yet uploaded, over a
    directory as an association list; put, upload, remove, listing and recovery.  The locale
    \<open>redo_log\<close> is the contract of a log of pending writes, interpreted on the store.
  \<^item> \<open>Fuse_Attr\<close>: \<open>remoteFileInfo\<close>, the stat of an object with its fall-back, file attributes,
    inodes, resizing and directory listings of \<open>webdavfs.go\<close> and \<open>fuse_mount.go\<close>.
  \<^item> \<open>Meta_Store\<close>: \<open>metastore.go\<close>, the modes, times and links the service does not keep.  The
    locale \<open>tree_map\<close> is the contract of a map keyed by paths, interpreted on it.
  \<^item> \<open>Fuse_File\<close>: the handles of an open file, their registry and the operations of
    \<open>fuse_mount.go\<close> on files of the service: open, create, read, write, truncate, flush, release,
    unlink and rename.  A \<open>mount_action\<close> is one operation of the kernel or a change by another
    client, \<open>mount_act\<close> runs it, \<open>orderly\<close> is the use for which the invariant \<open>mount_ok\<close> is kept
    (the code breaks it otherwise, as \<open>second_handle_flush_drops_first_write\<close> shows) and
    \<open>orderly_reach\<close> the mounts such use leads to; the service is an argument (\<open>fuse_client\<close>) with the laws \<open>client_ok\<close>, and \<open>ref_client\<close>
    a service that has them.
  \<^item> \<open>Mount_Overlay\<close>: which of the overlay, a git workspace or the service an operation of the
    mount goes to, and the confinement of overlay paths.
  \<^item> \<open>Upload_Parts\<close>, \<open>Part_Uploader\<close>: \<open>internal/api/fs/upload.go\<close>; part arithmetic and
    checksums, the two upload protocols with every abort, and the worker goroutines of a plan
    as a step relation with its resources, error reports, the crash on a part larger than the
    buffers and a measure of the work left.
  \<^item> \<open>Data_Plane\<close>: the transfer helpers of \<open>data.go\<close>: append, tree walk, modes and tags.
  \<^item> \<open>Companion\<close>: the file commands of \<open>drive9_companion.go\<close>: arguments, retries, parsing.
  \<^item> \<open>Webdav\<close>: \<open>webdavfs.go\<close>: open files with their bytes and offset, the calls of the file
    system and the properties clients attach; \<open>tree_map\<close> is interpreted on the property store.
  \<^item> \<open>Self_Update\<close>: \<open>internal/update/update.go\<close>: versions, releases, checksums and the
    replacement of the program on a machine that logs its states, so that crashes and failing
    calls are covered.
  \<^item> \<open>Placement\<close>: \<open>config/region\<close>, \<open>api/endpoints\<close>, \<open>config/envcompat\<close>: placement codes,
    the endpoint of each service and the two names of environment variables.
  \<^item> \<open>Home_Files\<close>: files below the home directory on a machine that logs its states; the
    locale \<open>atomic_writer\<close> is the contract of replacing a file, interpreted on the writers of
    \<open>config/store\<close>, \<open>settings\<close> and \<open>fs/fscred\<close>.
  \<^item> \<open>Config_Store\<close>, \<open>Settings_Store\<close>: the profile documents, what a command loads from them,
    the preferences and the migration of the old logging section.
  \<^item> \<open>Key_Codec\<close>, \<open>Fs_Registry\<close>, \<open>Fs_Credentials\<close>: \<open>internal/fs/fscred\<close>; the directory names,
    the registry of file systems by name, the tokens by identifier, what a command resolves from
    them and both migrations.  The locale \<open>keyed_dirs\<close> is what keeps the directories of two
    keys apart, interpreted on the three functions that make such directories.
  \<^item> \<open>Credential_Lock\<close>: the lock file of a credential as a step relation of its users.
  \<^item> \<open>Api_Client\<close>: \<open>internal/api/client.go\<close>: the retry loop and the errors of a status.
  \<^item> \<open>Sql_Single\<close>: \<open>internal/db/sqlsingle\<close>, with a splitter as reference.
  \<^item> \<open>Telemetry_Config\<close>, \<open>Rate_Limit\<close>, \<open>Batcher\<close>, \<open>Event_Validation\<close>, \<open>Telemetry_Server\<close>:
    the telemetry backend.  The steps of \<open>Batcher\<close> separate what the code does under the mutex
    from the counters it adds to afterwards, and record the result of every sink.  The locale \<open>bounded_queue\<close> is the contract of the event queue,
    interpreted on the batcher.

  \<^bold>\<open>Bounds and fuel.\<close>  \<open>walk_tree\<close> takes fuel for the depth of the tree; any fuel above the rank
  of the root gives a result.  Loops that may run forever (\<open>wake_loop\<close>, \<open>drain_loop\<close>,
  \<open>ready_wait\<close>) are partial functions, and their termination is proved as such.  \<open>max_alloc\<close>
  (\<open>2 ^ 48\<close>) is the size above which an allocation of the Go runtime panics on a 64-bit machine;
  the growth of a file in a mount and in WebDAV is modelled with it, allocations elsewhere
  succeed.

  \<^bold>\<open>Not modelled.\<close>  In a mount: symbolic and hard links, the entries of git workspaces, reads and
  writes of overlay files (they go to the local machine), a mount without a client, and changes
  of other clients between the calls of one flush.
  Command definitions and printing, process and mount-table glue, the HTTP
  encodings of single API calls, file-system effects of the local machine, the management of
  tokens through the service, databases beyond the single-statement guard, and the client side
  of telemetry: the manifest lists them with the reason.
\<close>

end
